(* ===== verification/Prelude.thy ===== *)
theory Prelude
  imports Main "HOL-Library.Word" "HOL-Library.Monad_Syntax"
begin

text \<open>
  Shared ground of the development: the machine integers, the two loop combinators the
  models are written with, their proof rules, and generic facts on words and options.

  Conventions.
  \<^item> A C integer of width \<open>w\<close> is a \<open>w word\<close>; \<open>unsigned long\<close>, \<open>size_t\<close> and pointers
    of the Cortex-A7 are 32 bits wide, so they are \<open>u32\<close> too.
  \<^item> Code that always returns is a total function that takes the state and returns the
    result with the new state. Code that may spin for ever (an unbounded polling loop, a
    test asked to run for ever, \<open>panic\<close>, which ends in \<open>while (1)\<close>) or that may index
    outside an array has a result of type \<open>option\<close>: \<open>None\<close> is "no defined result".
  \<^item> A counted \<open>for\<close> loop is \<open>for_each\<close> (or \<open>for_each_opt\<close> when its body may not
    return) over the list of the values of its counter; the body returns \<open>Some r\<close> for an
    early exit with \<open>r\<close>. Any other loop is \<open>loop\<close>.
\<close>

unbundle bit_operations_syntax

type_synonym u8 = "8 word"
type_synonym u16 = "16 word"
type_synonym u32 = "32 word"
type_synonym u64 = "64 word"

text \<open>C's implicit promotion of an unsigned byte.\<close>

abbreviation u8_to_u32 :: "u8 \<Rightarrow> u32" where
  "u8_to_u32 b \<equiv> ucast b"

named_theorems reg_defs \<open>register addresses and bit masks, for evaluation\<close>

subsection \<open>Counted loops with an early exit\<close>

fun for_each :: "('i \<Rightarrow> 's \<Rightarrow> 'r option \<times> 's) \<Rightarrow> 'i list \<Rightarrow> 's \<Rightarrow> 'r option \<times> 's" where
  "for_each f [] s = (None, s)"
| "for_each f (i # is) s =
     (case f i s of (Some r, s') \<Rightarrow> (Some r, s') | (None, s') \<Rightarrow> for_each f is s')"

fun for_each_opt ::
  "('i \<Rightarrow> 's \<Rightarrow> ('r option \<times> 's) option) \<Rightarrow> 'i list \<Rightarrow> 's \<Rightarrow> ('r option \<times> 's) option" where
  "for_each_opt f [] s = Some (None, s)"
| "for_each_opt f (i # is) s =
     do { (r, s') \<leftarrow> f i s;
          (case r of Some r \<Rightarrow> Some (Some r, s') | None \<Rightarrow> for_each_opt f is s') }"

text \<open>The values of the counter of \<open>for (i = 0; i < n; i += k)\<close>. The C counter takes
  the same values as long as \<open>n + k \<le> 2 ^ 32\<close>: every buffer size here is at most
  \<open>STM32_DDR_SIZE = 2 ^ 30\<close>.\<close>

definition count_by :: "nat \<Rightarrow> u32 \<Rightarrow> u32 list" where
  "count_by k n = map (\<lambda>i. of_nat (i * k)) [0..<(unat n + k - 1) div k]"

lemma for_each_append:
  "for_each f (xs @ ys) s =
     (case for_each f xs s of (Some r, s') \<Rightarrow> (Some r, s') | (None, s') \<Rightarrow> for_each f ys s')"
  by (induction xs arbitrary: s) (auto split: prod.splits option.splits)

text \<open>Invariant rule: \<open>P\<close> is indexed by the elements still to do.\<close>

lemma for_each_rule:
  assumes "P is s"
    and "\<And>i is s. P (i # is) s \<Longrightarrow>
           (case f i s of (None, s') \<Rightarrow> P is s' | (Some r, s') \<Rightarrow> Q (Some r) s')"
    and "\<And>s. P [] s \<Longrightarrow> Q None s"
  shows "case for_each f is s of (r, s') \<Rightarrow> Q r s'"
  using assms(1)
proof (induction "is" arbitrary: s)
  case Nil
  then show ?case using assms(3) by simp
next
  case (Cons i "is")
  from assms(2) [OF Cons.prems] Cons.IH show ?case
    by (fastforce split: prod.splits option.splits)
qed

text \<open>The common special case: an invariant of the state, no early exit.\<close>

lemma for_each_inv:
  assumes "I s" and "\<And>i s. i \<in> set is \<Longrightarrow> I s \<Longrightarrow> fst (f i s) = None \<and> I (snd (f i s))"
  shows "fst (for_each f is s) = None \<and> I (snd (for_each f is s))"
  using assms
proof (induction "is" arbitrary: s)
  case Nil
  then show ?case by simp
next
  case (Cons i "is")
  obtain s' where s': "f i s = (None, s')" "I s'"
    using Cons.prems(1) Cons.prems(2) [of i s] by (cases "f i s") auto
  then show ?case using Cons by simp
qed

text \<open>A loop whose body returns from every state returns.\<close>

lemma for_each_opt_returns:
  assumes "I s" and "\<And>i s. i \<in> set is \<Longrightarrow> I s \<Longrightarrow> \<exists>r s'. f i s = Some (r, s') \<and> I s'"
  shows "\<exists>r s'. for_each_opt f is s = Some (r, s') \<and> I s'"
  using assms
proof (induction "is" arbitrary: s)
  case Nil
  then show ?case by simp
next
  case (Cons i "is")
  from Cons.prems(1) Cons.prems(2) [of i s]
  obtain r s' where b: "f i s = Some (r, s')" and inv: "I s'"
    by auto
  show ?case
  proof (cases r)
    case None
    then show ?thesis using b inv Cons by simp
  next
    case (Some x)
    then show ?thesis using b inv by simp
  qed
qed

text \<open>A loop none of whose rounds leaves it, with an invariant indexed by the rounds done.\<close>

lemma for_each_opt_steps:
  assumes "I 0 s"
    and "\<And>i s. i < length xs \<Longrightarrow> I i s \<Longrightarrow> \<exists>s'. f (xs ! i) s = Some (None, s') \<and> I (Suc i) s'"
  shows "\<exists>s'. for_each_opt f xs s = Some (None, s') \<and> I (length xs) s'"
  using assms
proof (induction xs arbitrary: I s)
  case (Cons x xs)
  obtain s1 where s1: "f x s = Some (None, s1)" "I 1 s1"
    using Cons.prems(1) Cons.prems(2) [of 0 s] by auto
  have "\<exists>s'. for_each_opt f xs s1 = Some (None, s') \<and> I (Suc (length xs)) s'"
    by (rule Cons.IH) (use s1 Cons.prems(2) in \<open>fastforce+\<close>)
  then show ?case using s1 by simp
qed simp

text \<open>The rule the verdicts of the tests are proved with: round \<open>i\<close> keeps an invariant
  indexed by the number of rounds done and stops exactly when \<open>P i\<close> fails, so the whole
  loop stops at the first such round.\<close>

lemma for_each_first:
  assumes "I 0 s"
    and "\<And>i s. i < n \<Longrightarrow> I i s \<Longrightarrow>
           (case f i s of (None, s') \<Rightarrow> P i \<and> I (Suc i) s' | (Some r, s') \<Rightarrow> \<not> P i \<and> E i r s')"
  shows "case for_each f [0..<n] s of
           (None, s') \<Rightarrow> (\<forall>i<n. P i) \<and> I n s'
         | (Some r, s') \<Rightarrow> \<exists>i<n. (\<forall>j<i. P j) \<and> \<not> P i \<and> E i r s'"
  using assms(2)
proof (induction n)
  case 0
  then show ?case using assms(1) by simp
next
  case (Suc n)
  obtain r s' where l: "for_each f [0..<n] s = (r, s')" by fastforce
  show ?case
  proof (cases r)
    case None
    then have "(\<forall>i<n. P i) \<and> I n s'" using Suc.IH Suc.prems l by simp
    then show ?thesis
      using Suc.prems [of n s'] l None
      by (auto simp: for_each_append less_Suc_eq split: prod.splits option.splits)
  next
    case (Some x)
    then have "\<exists>i<n. (\<forall>j<i. P j) \<and> \<not> P i \<and> E i x s'" using Suc.IH Suc.prems l by simp
    then show ?thesis using l Some by (auto simp: for_each_append intro: less_SucI)
  qed
qed

text \<open>The same for a loop over any list whose rounds keep one invariant.\<close>

lemma for_each_all:
  assumes "I s"
    and "\<And>x s. x \<in> set xs \<Longrightarrow> I s \<Longrightarrow>
           (case f x s of (None, s') \<Rightarrow> P x \<and> I s' | (Some r, s') \<Rightarrow> \<not> P x \<and> E x r s')"
  shows "case for_each f xs s of
           (None, s') \<Rightarrow> (\<forall>x\<in>set xs. P x) \<and> I s'
         | (Some r, s') \<Rightarrow> \<exists>x\<in>set xs. \<not> P x \<and> E x r s'"
  using assms
proof (induction xs arbitrary: s)
  case (Cons x xs)
  obtain r s' where b: "f x s = (r, s')" by fastforce
  show ?case
  proof (cases r)
    case None
    then have "P x" "I s'" using Cons.prems(2) [of x s] Cons.prems(1) b by simp_all
    then have "case for_each f xs s' of
           (None, s') \<Rightarrow> (\<forall>x\<in>set xs. P x) \<and> I s'
         | (Some r, s') \<Rightarrow> \<exists>x\<in>set xs. \<not> P x \<and> E x r s'"
      using Cons.IH [of s'] Cons.prems(2) by simp
    then show ?thesis using None b \<open>P x\<close> by (auto split: prod.splits option.splits)
  next
    case (Some y)
    then show ?thesis using Cons.prems(2) [of x s] Cons.prems(1) b by auto
  qed
qed simp

lemma for_each_map: "for_each f (map g is) s = for_each (\<lambda>i. f (g i)) is s"
  by (induction "is" arbitrary: s) (auto split: prod.splits option.splits)

lemma for_each_count_by:
  "for_each f (count_by k n) s =
     for_each (\<lambda>i. f (of_nat (i * k))) [0..<(unat n + k - 1) div k] s"
  by (simp add: count_by_def for_each_map)

lemma fold_upt_inv:
  assumes "I 0 s" and "\<And>i s. i < n \<Longrightarrow> I i s \<Longrightarrow> I (Suc i) (f i s)"
  shows "I n (fold f [0..<n] s)"
  using assms(2) by (induction n) (simp_all add: assms(1))

subsection \<open>Other loops\<close>

text \<open>The body maps the loop's variables to \<open>Inl r\<close> (leave the loop with \<open>r\<close>) or
  \<open>Inr s\<close> (go round again). \<open>None\<close> is a loop that is never left.\<close>

partial_function (option) loop :: "('s \<Rightarrow> ('r + 's) option) \<Rightarrow> 's \<Rightarrow> 'r option" where
  "loop f s = do { x \<leftarrow> f s; (case x of Inl r \<Rightarrow> Some r | Inr s' \<Rightarrow> loop f s') }"

lemma loop_Inl [simp]: "f s = Some (Inl r) \<Longrightarrow> loop f s = Some r"
  by (subst loop.simps) simp

lemma loop_Inr: "f s = Some (Inr s') \<Longrightarrow> loop f s = loop f s'"
  by (subst loop.simps) simp

lemma loop_None: "f s = None \<Longrightarrow> loop f s = None"
  by (subst loop.simps) simp

text \<open>Total correctness: an invariant and a measure that every further round decreases.\<close>

lemma loop_total:
  assumes "I s"
    and "\<And>s. I s \<Longrightarrow>
       (\<exists>r. f s = Some (Inl r) \<and> Q r) \<or> (\<exists>s'. f s = Some (Inr s') \<and> I s' \<and> m s' < (m s :: nat))"
  shows "\<exists>r. loop f s = Some r \<and> Q r"
  using assms(1)
proof (induction "m s" arbitrary: s rule: less_induct)
  case less
  from assms(2) [OF less.prems] show ?case
  proof (elim disjE exE conjE)
    fix r assume "f s = Some (Inl r)" "Q r"
    then show ?thesis by auto
  next
    fix s' assume "f s = Some (Inr s')" "I s'" "m s' < m s"
    with less.hyps show ?thesis by (auto simp: loop_Inr)
  qed
qed

text \<open>Partial correctness: what the loop returns, if it returns.\<close>

lemma loop_partial:
  assumes ret: "loop f s = Some r"
    and "I s"
    and "\<And>s s'. I s \<Longrightarrow> f s = Some (Inr s') \<Longrightarrow> I s'"
    and "\<And>s r. I s \<Longrightarrow> f s = Some (Inl r) \<Longrightarrow> Q r"
  shows "Q r"
proof -
  have "f = f \<longrightarrow> I s \<longrightarrow> Q r"
  proof (rule loop.raw_induct [where P = "\<lambda>g s r. g = f \<longrightarrow> I s \<longrightarrow> Q r", OF _ ret])
    fix lp g s r
    assume IH: "\<And>g s r. lp g s = Some r \<Longrightarrow> g = f \<longrightarrow> I s \<longrightarrow> Q r"
      and eq: "g s \<bind> (\<lambda>x. case x of Inl r \<Rightarrow> Some r | Inr s' \<Rightarrow> lp g s') = Some r"
    show "g = f \<longrightarrow> I s \<longrightarrow> Q r"
    proof (intro impI)
      assume "g = f" "I s"
      with eq obtain x where x: "f s = Some x"
        and k: "(case x of Inl r \<Rightarrow> Some r | Inr s' \<Rightarrow> lp f s') = Some r"
        by (auto simp: bind_eq_Some_conv)
      show "Q r"
      proof (cases x)
        case (Inl r')
        with x k assms(4) [OF \<open>I s\<close>] show ?thesis by simp
      next
        case (Inr s')
        with x k assms(3) [OF \<open>I s\<close>] IH show ?thesis by simp
      qed
    qed
  qed
  with assms(2) show ?thesis by simp
qed

text \<open>A loop with an invariant under which no round leaves it does not return.\<close>

lemma loop_diverges:
  assumes "I s" and "\<And>s. I s \<Longrightarrow> \<exists>s'. f s = Some (Inr s') \<and> I s'"
  shows "loop f s = None"
proof (rule ccontr)
  assume "loop f s \<noteq> None"
  then obtain r where "loop f s = Some r" by blast
  then show False
    by (rule loop_partial [where I = I]) (use assms in \<open>fastforce+\<close>)
qed

text \<open>A \<open>while\<close> loop whose body may not return.\<close>

definition while_opt :: "('s \<Rightarrow> bool) \<Rightarrow> ('s \<Rightarrow> 's option) \<Rightarrow> 's \<Rightarrow> 's option" where
  "while_opt c f s =
     loop (\<lambda>s. if c s then (case f s of None \<Rightarrow> None | Some s' \<Rightarrow> Some (Inr s')) else Some (Inl s)) s"

lemma while_opt_unfold:
  "while_opt c f s = (if c s then (case f s of None \<Rightarrow> None | Some s' \<Rightarrow> while_opt c f s') else Some s)"
  unfolding while_opt_def by (subst loop.simps) (simp split: option.splits)

lemma while_opt_total:
  assumes "I s"
    and "\<And>s. I s \<Longrightarrow> c s \<Longrightarrow> \<exists>s'. f s = Some s' \<and> I s' \<and> m s' < (m s :: nat)"
  shows "\<exists>s'. while_opt c f s = Some s' \<and> I s' \<and> \<not> c s'"
  using assms(1)
proof (induction "m s" arbitrary: s rule: less_induct)
  case less
  show ?case
  proof (cases "c s")
    case True
    then obtain s' where "f s = Some s'" "I s'" "m s' < m s" using assms(2) less.prems by blast
    then show ?thesis using less.hyps True by (subst while_opt_unfold) simp
  next
    case False
    then show ?thesis using less.prems by (subst while_opt_unfold) simp
  qed
qed

subsection \<open>Lists\<close>

lemma nth_concat_replicate:
  "k < m * length xs \<Longrightarrow> concat (replicate m xs) ! k = xs ! (k mod length xs)"
proof (induction m arbitrary: k)
  case (Suc m)
  show ?case
  proof (cases "k < length xs")
    case False
    then have "k - length xs < m * length xs" using Suc.prems by simp
    from Suc.IH [OF this] show ?thesis
      using False by (simp add: nth_append le_mod_geq)
  qed (simp add: nth_append)
qed simp

subsection \<open>Words\<close>

lemma unat_dec: "(w :: 'a::len word) \<noteq> 0 \<Longrightarrow> unat (w - 1) < unat w"
  by (simp add: unat_minus_one unat_gt_0)

lemma unat_dec2: "(w :: 'a::len word) \<noteq> 1 \<Longrightarrow> unat (w - 2) < unat (w - 1)"
  using unat_dec [of "w - 1"] by simp

lemma unat_inc: "x < y \<Longrightarrow> unat (x + 1) = Suc (unat (x :: 'a::len word))"
proof -
  assume "x < y"
  then have "unat x < unat y" by (simp add: word_less_nat_alt)
  moreover have "unat y < 2 ^ LENGTH('a)" by (rule unsigned_less)
  ultimately have "Suc (unat x) < 2 ^ LENGTH('a)" by linarith
  then show ?thesis by (simp add: unat_word_ariths)
qed

lemma low24_sub: "unat ((r :: u32) - 0x1000000) mod 0x1000000 = unat r mod 0x1000000"
proof (cases "0x1000000 \<le> r")
  case True
  then have le: "0x1000000 \<le> unat r" by (simp add: word_le_nat_alt)
  from True have "unat (r - 0x1000000) = unat r - 0x1000000" by (simp add: unat_sub)
  then show ?thesis using le_mod_geq [OF le] by simp
next
  case False
  then have "unat (r - 0x1000000) = unat r + 255 * 0x1000000"
    by (simp add: unat_sub_if' word_le_nat_alt)
  then show ?thesis by (simp only: mod_mult_self1)
qed

lemma and_3: "(x :: u32) AND 3 = x mod 4"
proof -
  have "x AND mask 2 = x mod 2 ^ 2" by (simp only: take_bit_eq_mask [symmetric] take_bit_eq_mod)
  then show ?thesis by (simp add: mask_eq_exp_minus_1)
qed

lemma aligned_add: "(x :: u32) AND 3 = 0 \<Longrightarrow> (x + 4 * y) AND 3 = 0"
proof -
  assume "x AND 3 = 0"
  then have "unat x mod 4 = 0" by (simp add: and_3 word_unat_eq_iff unat_mod)
  moreover have "unat (x + 4 * y) mod 4 = (unat x + 4 * unat y) mod 4"
    by (simp add: unat_word_ariths mod_mod_cancel mod_simps)
  ultimately have "unat ((x + 4 * y) mod 4) = unat (0 :: u32)"
    by (simp add: unat_mod mod_add_left_eq [symmetric])
  then show ?thesis by (simp only: and_3 word_unat_eq_iff)
qed

lemma word_xor_eq_0: "a XOR b = 0 \<longleftrightarrow> a = (b :: 'a::len word)"
  by (metis xor.assoc xor.right_neutral xor_self_eq)

lemma word_xor_right_cancel: "a XOR x = b XOR x \<longleftrightarrow> a = (b :: 'a::len word)"
proof
  assume "a XOR x = b XOR x"
  then have "(a XOR x) XOR x = (b XOR x) XOR x" by simp
  then show "a = b" by (simp add: xor.assoc)
qed simp

lemma unat_shr1_dec: "0 <s (w :: u32) \<Longrightarrow> unat (drop_bit (Suc 0) w) < unat w"
proof -
  assume "0 <s w"
  then have "w \<noteq> 0" by (auto simp: word_sless_alt)
  then have "0 < unat w" by (simp add: unat_gt_0)
  then show ?thesis by (simp add: drop_bit_eq_div unat_div)
qed

lemma unat_pow2: "k < 32 \<Longrightarrow> unat (2 ^ k :: u32) = 2 ^ k"
proof -
  assume k: "k < 32"
  then have "(2 :: nat) ^ k < 2 ^ 32" by (intro power_strict_increasing) auto
  then have "unat (of_nat (2 ^ k) :: u32) = 2 ^ k" by (subst unat_of_nat) simp
  then show ?thesis by simp
qed

lemma sint_small: "r < 0x80000000 \<Longrightarrow> sint (r :: u32) = uint r"
proof -
  assume "r < 0x80000000"
  then have "uint r < 2 ^ 31" by (simp add: word_less_def)
  moreover have "0 \<le> uint r" by simp
  ultimately show ?thesis
    by (simp add: sint_uint) (intro signed_take_bit_int_eq_self, auto intro: order_trans [of _ 0])
qed

lemma sint_2_pow: "k < 31 \<Longrightarrow> sint (2 ^ k :: u32) = 2 ^ k"
proof -
  assume k: "k < 31"
  then have "(2 :: nat) ^ k < 2 ^ 31" by (intro power_strict_increasing) auto
  then have "(2 ^ k :: u32) < 0x80000000"
    using unat_pow2 [of k] k by (simp add: word_less_nat_alt)
  moreover have "uint (2 ^ k :: u32) = 2 ^ k"
    using unat_pow2 [of k] k by (simp add: uint_nat)
  ultimately show ?thesis by (simp add: sint_small)
qed

lemma sle_iff_le: "n < 0x80000000 \<Longrightarrow> r < 0x80000000 \<Longrightarrow> n \<le>s r \<longleftrightarrow> n \<le> (r :: u32)"
  by (simp add: word_sle_eq sint_small word_le_def)

lemma sle_imp_le: "n \<le>s r \<Longrightarrow> n < 0x80000000 \<Longrightarrow> n \<le> (r :: u32)"
  using sle_iff_le [of n r] by (cases "r < 0x80000000") auto

lemma drop_bit_pow_Suc: "k < 31 \<Longrightarrow> drop_bit (Suc 0) (2 * 2 ^ k :: u32) = 2 ^ k"
proof -
  assume k: "k < 31"
  then have "unat (2 ^ Suc k :: u32) = 2 ^ Suc k" by (intro unat_pow2) simp
  then have "unat (drop_bit (Suc 0) (2 * 2 ^ k :: u32)) = unat (2 ^ k :: u32)"
    using k by (simp add: drop_bit_eq_div unat_div unat_pow2)
  then show ?thesis by (simp only: word_unat_eq_iff)
qed

lemma pow_div_4: "k < 30 \<Longrightarrow> (4 * 2 ^ k :: u32) div 4 = 2 ^ k"
proof -
  assume k: "k < 30"
  then have "unat (2 ^ (k + 2) :: u32) = 2 ^ (k + 2)" by (intro unat_pow2) simp
  then have "unat ((4 * 2 ^ k :: u32) div 4) = unat (2 ^ k :: u32)"
    using k by (simp add: unat_div unat_pow2)
  then show ?thesis by (simp only: word_unat_eq_iff)
qed

text \<open>A one that walks through a mask of \<open>k\<close> bits.\<close>

lemma pow_and_mask: "i \<le> k \<Longrightarrow> k < 32 \<Longrightarrow> (2 ^ i :: u32) AND mask k = (if i < k then 2 ^ i else 0)"
  by (rule bit_word_eqI) (auto simp: bit_simps)

lemma shl_pow: "push_bit (Suc 0) (2 ^ i :: u32) = 2 ^ Suc i"
  by (simp add: mult.commute)

lemma pow_nonzero: "i < 32 \<Longrightarrow> (2 ^ i :: u32) \<noteq> 0"
  using unat_pow2 [of i] by auto

text \<open>Shifting left empties a word: the measure of the walking-ones loops.\<close>

definition shl_steps :: "u32 \<Rightarrow> nat" where
  "shl_steps p = (LEAST n. push_bit n p = 0)"

lemma push_bit_32_zero: "push_bit 32 (p :: u32) = 0"
  by (rule bit_word_eqI) (simp add: bit_push_bit_iff)

lemma shl_steps_dec: "p \<noteq> 0 \<Longrightarrow> shl_steps (push_bit 1 p) < shl_steps p"
proof -
  assume p: "p \<noteq> 0"
  define n where "n = shl_steps p"
  have z: "push_bit n p = 0"
    unfolding n_def shl_steps_def by (rule LeastI [of _ 32]) (rule push_bit_32_zero)
  with p have "n \<noteq> 0" by (cases n) auto
  then obtain m where m: "n = Suc m" by (cases n) auto
  with z have "push_bit m (push_bit 1 p) = 0"
    by (simp add: push_bit_push_bit)
  then have "shl_steps (push_bit 1 p) \<le> m"
    unfolding shl_steps_def by (rule Least_le)
  with m n_def show ?thesis by simp
qed

subsection \<open>Single bits of a register\<close>

lemma and_pow_cases: "x AND 2 ^ n = 0 \<or> x AND 2 ^ n = 2 ^ n" for x :: "'a::len word"
proof -
  have "x AND 2 ^ n = (if bit x n then 2 ^ n else 0)"
    by (rule bit_word_eqI) (auto simp: bit_simps)
  then show ?thesis by simp
qed

lemma single_bits:
  fixes x :: "'a::len word"
  shows "x AND 1 = 0 \<or> x AND 1 = 1" "x AND 2 = 0 \<or> x AND 2 = 2"
  using and_pow_cases [of x 0] and_pow_cases [of x 1] by simp_all

lemma put_back_set:
  fixes x :: "'a::len word"
  assumes "x AND m = 0 \<or> x AND m = m"
  shows "(if x AND m = 0 then (x OR m) AND NOT m else x OR m) = x"
proof -
  have "(x OR m) AND NOT m = x" if "x AND m = 0"
  proof (rule bit_word_eqI)
    fix n assume "n < LENGTH('a)"
    moreover have "\<not> (bit x n \<and> bit m n)" using that by (metis bit_0_eq bit_and_iff bot_apply bot_bool_def)
    ultimately show "bit ((x OR m) AND NOT m) n = bit x n" by (auto simp: bit_simps)
  qed
  moreover have "x OR m = x" if "x AND m = m"
  proof -
    have "x OR (x AND m) = x" by (rule bit_word_eqI) (auto simp: bit_simps)
    with that show ?thesis by simp
  qed
  ultimately show ?thesis using assms by auto
qed

lemma put_back_clear:
  fixes x :: "'a::len word"
  shows "((x AND NOT (a OR b)) OR (x AND a)) OR (x AND b) = x"
  by (rule bit_word_eqI) (auto simp: bit_simps)

lemma or_test: "x AND m = 0 \<or> x AND m = m \<Longrightarrow>
    (if x AND m \<noteq> 0 then y OR m else y) = y OR (x AND m)" for x :: "'a::len word"
  by auto

subsection \<open>Distinct addresses\<close>

text \<open>A quick test for lists of addresses: their values, sorted, ascend strictly.\<close>

fun ascending :: "int list \<Rightarrow> bool" where
  "ascending (x # y # zs) \<longleftrightarrow> x < y \<and> ascending (y # zs)"
| "ascending _ \<longleftrightarrow> True"

lemma ascending_distinct: "ascending xs \<Longrightarrow> distinct xs"
proof -
  have "ascending xs \<Longrightarrow> sorted_wrt (<) xs" by (induction xs rule: ascending.induct) auto
  then show "ascending xs \<Longrightarrow> distinct xs" using strict_sorted_iff by blast
qed

lemma distinct_words:
  assumes "ascending (sort xs)" "list_all (\<lambda>i. 0 \<le> i \<and> i < 2 ^ 32) xs"
  shows "distinct (map (word_of_int :: int \<Rightarrow> 32 word) xs)"
proof -
  have "distinct xs" using ascending_distinct [OF assms(1)] by simp
  moreover have "inj_on (word_of_int :: int \<Rightarrow> 32 word) (set xs)"
  proof (rule inj_onI)
    fix x y assume xy: "x \<in> set xs" "y \<in> set xs" and eq: "(word_of_int x :: 32 word) = word_of_int y"
    have "uint (word_of_int i :: 32 word) = i" if "i \<in> set xs" for i
      using assms(2) that by (simp add: list_all_iff uint_word_of_int take_bit_eq_mod)
    then show "x = y" using xy eq by metis
  qed
  ultimately show ?thesis by (simp add: distinct_map)
qed

lemma words_of_ints: "xs = map (word_of_int :: int \<Rightarrow> 32 word) (map uint xs)"
  by (simp add: comp_def map_idI)

lemma distinct_addrs: "ascending (sort (map uint xs)) \<Longrightarrow> distinct (xs :: 32 word list)"
proof -
  have "list_all (\<lambda>i. 0 \<le> i \<and> i < 2 ^ 32) (map uint xs)"
    using uint_lt2p [where 'a = 32] by (auto simp: list_all_iff)
  then show "ascending (sort (map uint xs)) \<Longrightarrow> distinct xs"
    using distinct_words [of "map uint xs"] words_of_ints [of xs] by simp
qed

end
