(* ===== verification/Platform.thy ===== *)
theory Platform
  imports Prelude
begin

text \<open>
  The machine the code runs on. A \<open>platform\<close> record gathers what is outside the source:
  32-bit bus reads and writes (\<open>readl\<close>/\<open>writel\<close> end in volatile accesses), byte
  accesses for the tail of \<open>memcpy\<close>, the console
  key that \<open>ctrlc()\<close> polls, and the passing of time in \<open>udelay\<close>. The device state
  \<open>'d\<close> is arbitrary: a read may change it, and may return anything.

  \<open>sys\<close> is the state the code itself keeps next to the device: the static variables of
  stm32mp1_tuning.c and of u-boot's lib/rand.c, and the caller's result buffer \<open>string\<close>,
  which \<open>sprintf\<close> fills. The buffer's contents are the format with its arguments; the
  rendering of numbers by printf is not modelled, nor is console output.

  The locale \<open>dram\<close> is the contract of a memory device on a region of addresses; the
  tests of the DDR and \<open>get_ram_size\<close> are verified against it.
\<close>

subsection \<open>Bus and state\<close>

record 'd platform =
  rd32 :: "u32 \<Rightarrow> 'd \<Rightarrow> u32 \<times> 'd"      \<comment> \<open>address\<close>
  wr32 :: "u32 \<Rightarrow> u32 \<Rightarrow> 'd \<Rightarrow> 'd"      \<comment> \<open>value, address\<close>
  rd8 :: "u32 \<Rightarrow> 'd \<Rightarrow> u8 \<times> 'd"
  wr8 :: "u8 \<Rightarrow> u32 \<Rightarrow> 'd \<Rightarrow> 'd"
  ctrlc_key :: "'d \<Rightarrow> bool \<times> 'd"
  elapse :: "u32 \<Rightarrow> 'd \<Rightarrow> 'd"           \<comment> \<open>delay loop rounds\<close>

datatype fmt_arg = AInt int | AU32 u32 | AStr string

datatype message = Sprintf string "fmt_arg list"

record 'd sys =
  dev :: 'd
  rand_y :: u32
  bist_error_max :: u8
  bist_seed :: u32
  result_msg :: "message option"

definition readl :: "'d platform \<Rightarrow> u32 \<Rightarrow> 'd sys \<Rightarrow> u32 \<times> 'd sys" where
  "readl h a s = (let (v, d) = rd32 h a (dev s) in (v, s\<lparr>dev := d\<rparr>))"

definition writel :: "'d platform \<Rightarrow> u32 \<Rightarrow> u32 \<Rightarrow> 'd sys \<Rightarrow> 'd sys" where
  "writel h v a s = s\<lparr>dev := wr32 h v a (dev s)\<rparr>"

definition clrbits_le32 :: "'d platform \<Rightarrow> u32 \<Rightarrow> u32 \<Rightarrow> 'd sys \<Rightarrow> 'd sys" where
  "clrbits_le32 h a clear s = (let (v, s) = readl h a s in writel h (v AND NOT clear) a s)"

definition setbits_le32 :: "'d platform \<Rightarrow> u32 \<Rightarrow> u32 \<Rightarrow> 'd sys \<Rightarrow> 'd sys" where
  "setbits_le32 h a bits s = (let (v, s) = readl h a s in writel h (v OR bits) a s)"

definition clrsetbits_le32 ::
  "'d platform \<Rightarrow> u32 \<Rightarrow> u32 \<Rightarrow> u32 \<Rightarrow> 'd sys \<Rightarrow> 'd sys" where
  "clrsetbits_le32 h a clear bits s =
     (let (v, s) = readl h a s in writel h ((v AND NOT clear) OR bits) a s)"

definition ctrlc :: "'d platform \<Rightarrow> 'd sys \<Rightarrow> bool \<times> 'd sys" where
  "ctrlc h s = (let (k, d) = ctrlc_key h (dev s) in (k, s\<lparr>dev := d\<rparr>))"

text \<open>\<open>udelay\<close> counts a local variable down; only time passes for the device.\<close>

definition udelay :: "'d platform \<Rightarrow> u32 \<Rightarrow> 'd sys \<Rightarrow> 'd sys" where
  "udelay h usec s = s\<lparr>dev := elapse h (usec * 5) (dev s)\<rparr>"

definition sprintf :: "string \<Rightarrow> fmt_arg list \<Rightarrow> 'd sys \<Rightarrow> 'd sys" where
  "sprintf fmt args s = s\<lparr>result_msg := Some (Sprintf fmt args)\<rparr>"

subsection \<open>u-boot's memcpy (lib/string.c)\<close>

text \<open>Words while both pointers are aligned, the rest byte by byte, ascending. The counts are
  naturals: both loops run down a \<open>size_t\<close>.\<close>

definition copy_word :: "'d platform \<Rightarrow> u32 \<Rightarrow> u32 \<Rightarrow> 'd sys \<Rightarrow> 'd sys" where
  "copy_word h dest src s = (let (v, s) = readl h src s in writel h v dest s)"

definition copy_byte :: "'d platform \<Rightarrow> u32 \<Rightarrow> u32 \<Rightarrow> 'd sys \<Rightarrow> 'd sys" where
  "copy_byte h dest src s =
     (let (v, d) = rd8 h src (dev s) in s\<lparr>dev := wr8 h v dest d\<rparr>)"

fun copy_words :: "'d platform \<Rightarrow> u32 \<Rightarrow> u32 \<Rightarrow> nat \<Rightarrow> 'd sys \<Rightarrow> 'd sys" where
  "copy_words h dest src 0 s = s"
| "copy_words h dest src (Suc n) s =
     copy_words h (dest + 4) (src + 4) n (copy_word h dest src s)"

fun copy_bytes :: "'d platform \<Rightarrow> u32 \<Rightarrow> u32 \<Rightarrow> nat \<Rightarrow> 'd sys \<Rightarrow> 'd sys" where
  "copy_bytes h dest src 0 s = s"
| "copy_bytes h dest src (Suc n) s =
     copy_bytes h (dest + 1) (src + 1) n (copy_byte h dest src s)"

definition memcpy :: "'d platform \<Rightarrow> u32 \<Rightarrow> u32 \<Rightarrow> u32 \<Rightarrow> 'd sys \<Rightarrow> 'd sys" where
  "memcpy h dest src count s =
     (if src = dest then s
      else let words = (if (dest OR src) AND 3 = 0 then unat count div 4 else 0);
               s = copy_words h dest src words s
           in copy_bytes h (dest + 4 * of_nat words) (src + 4 * of_nat words)
                (unat count - 4 * words) s)"

subsection \<open>u-boot's rand: a xorshift generator in a static variable\<close>

definition rand_r :: "u32 \<Rightarrow> u32" where
  "rand_r seed =
     (let x = seed XOR push_bit 13 seed;
          x = x XOR drop_bit 17 x
      in x XOR push_bit 5 x)"

definition rand :: "'d sys \<Rightarrow> u32 \<times> 'd sys" where
  "rand s = (let y = rand_r (rand_y s) in (y, s\<lparr>rand_y := y\<rparr>))"

definition srand :: "u32 \<Rightarrow> 'd sys \<Rightarrow> 'd sys" where
  "srand seed s = s\<lparr>rand_y := seed\<rparr>"

subsection \<open>The contract of a memory device\<close>

text \<open>
  \<open>mem d c\<close> is what cell \<open>c\<close> stores, \<open>decode\<close> the cell an address reaches (two
  addresses that decode alike are aliases), and \<open>view c\<close> what a read makes of the stored
  word: the identity for a sound cell, a word with a forced bit for a stuck one.
\<close>

locale dram =
  fixes h :: "'d platform"
    and mem :: "'d \<Rightarrow> u32 \<Rightarrow> u32"
    and view :: "u32 \<Rightarrow> u32 \<Rightarrow> u32"
    and decode :: "u32 \<Rightarrow> u32"
    and region :: "u32 set"
  assumes rd_val: "a \<in> region \<Longrightarrow> fst (rd32 h a d) = view (decode a) (mem d (decode a))"
    and rd_mem: "a \<in> region \<Longrightarrow> mem (snd (rd32 h a d)) = mem d"
    and wr_mem: "a \<in> region \<Longrightarrow> mem (wr32 h v a d) = (mem d)(decode a := v)"
    and key_mem: "mem (snd (ctrlc_key h d)) = mem d"
    and no_key: "\<not> fst (ctrlc_key h d)"
begin

text \<open>The abstraction of a system state: the device seen as its cells.\<close>

definition cells :: "'d sys \<Rightarrow> (u32 \<Rightarrow> u32) sys" where
  "cells s =
     \<lparr>dev = mem (dev s), rand_y = rand_y s, bist_error_max = bist_error_max s,
      bist_seed = bist_seed s, result_msg = result_msg s\<rparr>"

lemma cells_sel [simp]:
  "dev (cells s) = mem (dev s)" "rand_y (cells s) = rand_y s"
  "bist_error_max (cells s) = bist_error_max s" "bist_seed (cells s) = bist_seed s"
  "result_msg (cells s) = result_msg s"
  by (simp_all add: cells_def)

lemma cells_readl [simp]: "a \<in> region \<Longrightarrow> cells (snd (readl h a s)) = cells s"
  using rd_mem [of a "dev s"] by (auto simp: readl_def cells_def split: prod.splits)

lemma fst_readl [simp]:
  "a \<in> region \<Longrightarrow> fst (readl h a s) = view (decode a) (dev (cells s) (decode a))"
  using rd_val [of a "dev s"] by (auto simp: readl_def split: prod.splits)

lemma cells_writel [simp]:
  "a \<in> region \<Longrightarrow> cells (writel h v a s) = (cells s)\<lparr>dev := (dev (cells s))(decode a := v)\<rparr>"
  by (simp add: writel_def cells_def wr_mem)

lemma cells_ctrlc [simp]: "cells (snd (ctrlc h s)) = cells s"
  using key_mem [of "dev s"] by (auto simp: ctrlc_def cells_def split: prod.splits)

lemma fst_ctrlc [simp]: "fst (ctrlc h s) = False"
  using no_key [of "dev s"] by (auto simp: ctrlc_def split: prod.splits)

lemma cells_sprintf [simp]: "cells (sprintf f args s) = sprintf f args (cells s)"
  by (simp add: sprintf_def cells_def)

lemma cells_rand:
  "fst (rand s) = fst (rand (cells s))" "cells (snd (rand s)) = snd (rand (cells s))"
  by (simp_all add: rand_def cells_def Let_def)

lemma cells_srand [simp]: "cells (srand x s) = srand x (cells s)"
  by (simp add: srand_def cells_def)

end

text \<open>A buffer of \<open>n\<close> words at \<open>a\<close>: every word has a cell of its own.\<close>

locale buffer_dram = dram h mem view decode region
  for h :: "'d platform" and mem view decode region +
  fixes a :: u32 and n :: nat
  assumes n_bound: "n \<le> 2 ^ 28"
    and in_region: "i < n \<Longrightarrow> a + 4 * of_nat i \<in> region"
    and own_cell: "i < n \<Longrightarrow> j < n \<Longrightarrow>
          decode (a + 4 * of_nat i) = decode (a + 4 * of_nat j) \<Longrightarrow> i = j"
    and no_null: "i < n \<Longrightarrow> a + 4 * of_nat i \<noteq> 0"
begin

definition cell :: "nat \<Rightarrow> u32" where
  "cell i = decode (a + 4 * of_nat i)"

text \<open>What word \<open>j\<close> stores, and whether it reads back a value stored there.\<close>

definition word :: "'d sys \<Rightarrow> nat \<Rightarrow> u32" where
  "word s j = dev (cells s) (cell j)"

definition holds :: "nat \<Rightarrow> u32 \<Rightarrow> bool" where
  "holds i v \<longleftrightarrow> view (cell i) v = v"

lemma unat_n [simp]: "unat (of_nat n :: u32) = n"
  using n_bound by (simp add: unat_of_nat)

lemma cell_eq [simp]: "i < n \<Longrightarrow> j < n \<Longrightarrow> cell i = cell j \<longleftrightarrow> i = j"
  using own_cell [of i j] by (auto simp: cell_def)

lemma read_cell [simp]:
  "i < n \<Longrightarrow> fst (readl h (a + 4 * of_nat i) s) = view (cell i) (dev (cells s) (cell i))"
  "i < n \<Longrightarrow> cells (snd (readl h (a + 4 * of_nat i) s)) = cells s"
  using in_region by (simp_all add: cell_def)

lemma write_cell [simp]:
  "i < n \<Longrightarrow> cells (writel h v (a + 4 * of_nat i) s) =
     (cells s)\<lparr>dev := (dev (cells s))(cell i := v)\<rparr>"
  using in_region by (simp add: cell_def)

lemma word_cells: "cells s' = cells s \<Longrightarrow> word s' = word s"
  by (simp add: word_def fun_eq_iff del: cells_sel)

lemma word_write: "i < n \<Longrightarrow> j < n \<Longrightarrow>
    word (writel h v (a + 4 * of_nat i) s) j = (if j = i then v else word s j)"
  by (simp add: word_def del: cells_sel)

lemma fst_read_word: "i < n \<Longrightarrow> fst (readl h (a + 4 * of_nat i) s) = view (cell i) (word s i)"
  by (simp add: word_def)

end

lemma buffer_dram_le:
  "buffer_dram h mem view decode region a n \<Longrightarrow> k \<le> n \<Longrightarrow> buffer_dram h mem view decode region a k"
  by (simp add: buffer_dram_def buffer_dram_axioms_def)

subsection \<open>Memories\<close>

text \<open>A little-endian memory given by its address decoder and its cells' read behaviour, with
  nobody at the console.\<close>

definition byte_lane :: "u32 \<Rightarrow> u32 \<Rightarrow> u8" where
  "byte_lane a w = ucast (drop_bit (8 * unat (a AND 3)) w)"

definition set_byte_lane :: "u32 \<Rightarrow> u8 \<Rightarrow> u32 \<Rightarrow> u32" where
  "set_byte_lane a v w =
     (let k = 8 * unat (a AND 3) in (w AND NOT (push_bit k 0xFF)) OR push_bit k (ucast v))"

definition cell_ram ::
  "(u32 \<Rightarrow> u32 \<Rightarrow> u32) \<Rightarrow> (u32 \<Rightarrow> u32) \<Rightarrow> (u32 \<Rightarrow> u32) platform" where
  "cell_ram view decode =
     \<lparr>rd32 = \<lambda>a m. (view (decode a) (m (decode a)), m),
      wr32 = \<lambda>v a m. m(decode a := v),
      rd8 = \<lambda>a m. (let c = decode (a AND NOT 3) in (byte_lane a (view c (m c)), m)),
      wr8 = \<lambda>v a m. (let c = decode (a AND NOT 3) in m(c := set_byte_lane a v (m c))),
      ctrlc_key = \<lambda>m. (False, m),
      elapse = \<lambda>_ m. m\<rparr>"

definition sound_cell :: "u32 \<Rightarrow> u32 \<Rightarrow> u32" where
  "sound_cell c w = w"

text \<open>Bit \<open>b\<close> of cell \<open>c\<close> always reads as \<open>v\<close>.\<close>

definition stuck_bit :: "u32 \<Rightarrow> nat \<Rightarrow> bool \<Rightarrow> u32 \<Rightarrow> u32 \<Rightarrow> u32" where
  "stuck_bit c b v x w =
     (if x = c then if v then w OR push_bit b 1 else w AND NOT (push_bit b 1) else w)"

interpretation cell_ram: dram "cell_ram view decode" "\<lambda>m. m" view decode UNIV
  for view decode
  by unfold_locales (simp_all add: cell_ram_def)

text \<open>A memory of a few words from \<open>base\<close> on, for evaluation.\<close>

definition list_ram :: "u32 \<Rightarrow> u32 list platform" where
  "list_ram base =
     (let idx = (\<lambda>a. unat (a - base) div 4)
      in \<lparr>rd32 = \<lambda>a m. (if idx a < length m then m ! idx a else 0, m),
          wr32 = \<lambda>v a m. m[idx a := v],
          rd8 = \<lambda>a m. (if idx a < length m then byte_lane a (m ! idx a) else 0, m),
          wr8 = \<lambda>v a m. (if idx a < length m then m[idx a := set_byte_lane a v (m ! idx a)] else m),
          ctrlc_key = \<lambda>m. (False, m),
          elapse = \<lambda>_ m. m\<rparr>)"

lemma list_ram_simps:
  "readl (list_ram b) x s =
     (if unat (x - b) div 4 < length (dev s) then dev s ! (unat (x - b) div 4) else 0, s)"
  "writel (list_ram b) v x s = s\<lparr>dev := (dev s)[unat (x - b) div 4 := v]\<rparr>"
  "ctrlc (list_ram b) s = (False, s)"
  by (simp_all add: readl_def writel_def ctrlc_def list_ram_def Let_def)

text \<open>The DDR window with one cell per word.\<close>

lemma word_offset_inj:
  fixes a :: u32
  assumes "i < 2 ^ 30" "j < 2 ^ 30" "a + 4 * of_nat i = a + 4 * of_nat j"
  shows "i = j"
proof -
  have "of_nat (4 * i) = (of_nat (4 * j) :: u32)" using assms(3) by simp
  then have "unat (of_nat (4 * i) :: u32) = unat (of_nat (4 * j) :: u32)" by simp
  then show ?thesis using assms(1,2) by (simp add: unat_of_nat del: of_nat_mult)
qed

interpretation flat_ram: buffer_dram "cell_ram view (\<lambda>x. x)" "\<lambda>m. m" view "\<lambda>x. x" UNIV
    "0xC0000000" "min n (2 ^ 28)"
  for view n
proof unfold_locales
  fix i j :: nat
  assume b: "i < min n (2 ^ 28)"
  show "0xC0000000 + 4 * of_nat i \<noteq> (0 :: u32)"
  proof
    assume "0xC0000000 + 4 * of_nat i = (0 :: u32)"
    then have "unat (0xC0000000 + 4 * of_nat i :: u32) = 0" by simp
    moreover have "unat (0xC0000000 + 4 * of_nat i :: u32) = 0xC0000000 + 4 * i"
    proof -
      have "(0xC0000000 + 4 * of_nat i :: u32) = of_nat (0xC0000000 + 4 * i)" by simp
      then show ?thesis using b by (simp add: unat_of_nat del: of_nat_add of_nat_mult)
    qed
    ultimately show False by simp
  qed
  assume "j < min n (2 ^ 28)" "(0xC0000000 :: u32) + 4 * of_nat i = 0xC0000000 + 4 * of_nat j"
  with b show "i = j" by (intro word_offset_inj [of i j "0xC0000000"]) auto
qed simp_all

definition boot_state :: "'d \<Rightarrow> 'd sys" where
  "boot_state d =
     \<lparr>dev = d, rand_y = 1, bist_error_max = 1, bist_seed = 0x1234ABCD, result_msg = None\<rparr>"

end
