(* ===== verification/DdrCtrl.thy ===== *)
theory DdrCtrl
  imports Platform
begin

text \<open>
  The handshakes with the DDR controller and its PHY that the software tuning uses
  (ddr/stm32mp1_ddr.cc): waiting for the end of a PHY initialisation, the quasi-dynamic
  update protocol, and switching the automatic refresh off and back on. Registers are
  addressed as the C structs lay them out, as offsets from \<open>ctl\<close> and \<open>phy\<close>.

  Every wait polls a status register. In this port \<open>time_after\<close> is the constant 0
  (include/linux/iopoll.h), so no poll ever times out: a wait is a \<open>loop\<close> whose result is
  \<open>None\<close> when the hardware never answers.

  The locale \<open>ddr_regs\<close> is the contract of the hardware: a register file with status
  registers that eventually answer. All lemmas on the handshakes are proved from it, and
  \<open>tuning_board\<close> at the end is a device that keeps it.
\<close>

subsection \<open>Registers\<close>

definition DDRCTRL_BASE :: u32 where [reg_defs]: "DDRCTRL_BASE = 0x5A003000"
definition DDRPHYC_BASE :: u32 where [reg_defs]: "DDRPHYC_BASE = 0x5A004000"

definition ctl_mstr :: u32 where [reg_defs]: "ctl_mstr = 0x0"
definition ctl_stat :: u32 where [reg_defs]: "ctl_stat = 0x4"
definition ctl_derateen :: u32 where [reg_defs]: "ctl_derateen = 0x20"
definition ctl_pwrctl :: u32 where [reg_defs]: "ctl_pwrctl = 0x30"
definition ctl_rfshctl3 :: u32 where [reg_defs]: "ctl_rfshctl3 = 0x60"
definition ctl_dfimisc :: u32 where [reg_defs]: "ctl_dfimisc = 0x1B0"
definition ctl_addrmap1 :: u32 where [reg_defs]: "ctl_addrmap1 = 0x204"
definition ctl_addrmap2 :: u32 where [reg_defs]: "ctl_addrmap2 = 0x208"
definition ctl_addrmap3 :: u32 where [reg_defs]: "ctl_addrmap3 = 0x20C"
definition ctl_addrmap4 :: u32 where [reg_defs]: "ctl_addrmap4 = 0x210"
definition ctl_addrmap5 :: u32 where [reg_defs]: "ctl_addrmap5 = 0x214"
definition ctl_addrmap6 :: u32 where [reg_defs]: "ctl_addrmap6 = 0x218"
definition ctl_swctl :: u32 where [reg_defs]: "ctl_swctl = 0x320"
definition ctl_swstat :: u32 where [reg_defs]: "ctl_swstat = 0x324"

definition phy_pir :: u32 where [reg_defs]: "phy_pir = 0x4"
definition phy_pgcr :: u32 where [reg_defs]: "phy_pgcr = 0x8"
definition phy_pgsr :: u32 where [reg_defs]: "phy_pgsr = 0xC"
definition phy_bistrr :: u32 where [reg_defs]: "phy_bistrr = 0x100"
definition phy_bistwcr :: u32 where [reg_defs]: "phy_bistwcr = 0x10C"
definition phy_bistlsr :: u32 where [reg_defs]: "phy_bistlsr = 0x110"
definition phy_bistar0 :: u32 where [reg_defs]: "phy_bistar0 = 0x114"
definition phy_bistar1 :: u32 where [reg_defs]: "phy_bistar1 = 0x118"
definition phy_bistar2 :: u32 where [reg_defs]: "phy_bistar2 = 0x11C"
definition phy_bistgsr :: u32 where [reg_defs]: "phy_bistgsr = 0x124"
definition phy_bistwcsr :: u32 where [reg_defs]: "phy_bistwcsr = 0x138"

definition phy_dx0gcr :: u32 where [reg_defs]: "phy_dx0gcr = 0x1C0"
definition phy_dx1gcr :: u32 where [reg_defs]: "phy_dx1gcr = 0x200"
definition phy_dx2gcr :: u32 where [reg_defs]: "phy_dx2gcr = 0x240"
definition phy_dx3gcr :: u32 where [reg_defs]: "phy_dx3gcr = 0x280"

text \<open>The registers of byte lane \<open>byte\<close>.\<close>

definition DXN :: "u32 \<Rightarrow> u32 \<Rightarrow> u8 \<Rightarrow> u32" where [reg_defs]:
  "DXN phy offset byte = phy + offset + u8_to_u32 byte * 0x40"

definition DXNGCR :: "u32 \<Rightarrow> u8 \<Rightarrow> u32" where [reg_defs]: "DXNGCR phy byte = DXN phy 0x1C0 byte"
definition DXNDLLCR :: "u32 \<Rightarrow> u8 \<Rightarrow> u32" where [reg_defs]: "DXNDLLCR phy byte = DXN phy 0x1CC byte"
definition DXNDQTR :: "u32 \<Rightarrow> u8 \<Rightarrow> u32" where [reg_defs]: "DXNDQTR phy byte = DXN phy 0x1D0 byte"
definition DXNDQSTR :: "u32 \<Rightarrow> u8 \<Rightarrow> u32" where [reg_defs]: "DXNDQSTR phy byte = DXN phy 0x1D4 byte"

definition DDRCTRL_SWCTL_SW_DONE :: u32 where [reg_defs]: "DDRCTRL_SWCTL_SW_DONE = 1"
definition DDRCTRL_SWSTAT_SW_DONE_ACK :: u32 where [reg_defs]: "DDRCTRL_SWSTAT_SW_DONE_ACK = 1"
definition DDRCTRL_RFSHCTL3_DIS_AUTO_REFRESH :: u32 where [reg_defs]:
  "DDRCTRL_RFSHCTL3_DIS_AUTO_REFRESH = 1"
definition DDRCTRL_PWRCTL_SELFREF_EN :: u32 where [reg_defs]: "DDRCTRL_PWRCTL_SELFREF_EN = 1"
definition DDRCTRL_PWRCTL_POWERDOWN_EN :: u32 where [reg_defs]: "DDRCTRL_PWRCTL_POWERDOWN_EN = 2"
definition DDRCTRL_DFIMISC_DFI_INIT_COMPLETE_EN :: u32 where [reg_defs]:
  "DDRCTRL_DFIMISC_DFI_INIT_COMPLETE_EN = 1"
definition DDRPHYC_PIR_INIT :: u32 where [reg_defs]: "DDRPHYC_PIR_INIT = 1"
definition DDRPHYC_PIR_ITMSRST :: u32 where [reg_defs]: "DDRPHYC_PIR_ITMSRST = 0x10"
definition DDRPHYC_PGSR_IDONE :: u32 where [reg_defs]: "DDRPHYC_PGSR_IDONE = 1"
definition DDRPHYC_PGSR_DTERR :: u32 where [reg_defs]: "DDRPHYC_PGSR_DTERR = 0x20"
definition DDRPHYC_PGSR_DTIERR :: u32 where [reg_defs]: "DDRPHYC_PGSR_DTIERR = 0x40"
definition DDRPHYC_PGSR_DFTERR :: u32 where [reg_defs]: "DDRPHYC_PGSR_DFTERR = 0x80"
definition DDRPHYC_PGSR_RVERR :: u32 where [reg_defs]: "DDRPHYC_PGSR_RVERR = 0x100"
definition DDRPHYC_PGSR_RVEIRR :: u32 where [reg_defs]: "DDRPHYC_PGSR_RVEIRR = 0x200"

subsection \<open>Polling\<close>

definition timer_get_us :: u32 where "timer_get_us = 0"

definition time_after :: "u32 \<Rightarrow> u32 \<Rightarrow> bool" where "time_after a b = False"

definition ETIMEDOUT :: int where "ETIMEDOUT = 110"

definition readl_poll_timeout ::
  "'d platform \<Rightarrow> u32 \<Rightarrow> (u32 \<Rightarrow> bool) \<Rightarrow> u32 \<Rightarrow> 'd sys \<Rightarrow> (int \<times> u32 \<times> 'd sys) option"
  where
  "readl_poll_timeout h addr cond timeout_us s =
     (let timeout = timer_get_us + timeout_us
      in loop (\<lambda>s. let (val, s) = readl h addr s
                   in Some (if cond val then Inl (0, val, s)
                            else if timeout_us \<noteq> 0 \<and> time_after timer_get_us timeout
                            then let (val, s) = readl h addr s
                                 in Inl (if cond val then 0 else - ETIMEDOUT, val, s)
                            else Inr s)) s)"

text \<open>The wait ends on the done bit, or on any of the error bits.\<close>

definition pgsr_errors :: "u32 \<Rightarrow> nat" where
  "pgsr_errors pgsr =
     (if pgsr AND DDRPHYC_PGSR_DTERR \<noteq> 0 then 1 else 0) +
     (if pgsr AND DDRPHYC_PGSR_DTIERR \<noteq> 0 then 1 else 0) +
     (if pgsr AND DDRPHYC_PGSR_DFTERR \<noteq> 0 then 1 else 0) +
     (if pgsr AND DDRPHYC_PGSR_RVERR \<noteq> 0 then 1 else 0) +
     (if pgsr AND DDRPHYC_PGSR_RVEIRR \<noteq> 0 then 1 else 0)"

definition ddrphy_idone_wait :: "'d platform \<Rightarrow> u32 \<Rightarrow> 'd sys \<Rightarrow> 'd sys option" where
  "ddrphy_idone_wait h phy s =
     loop (\<lambda>(error, s).
            let (pgsr, s) = readl h (phy + phy_pgsr) s;
                error = error + pgsr_errors pgsr
            in Some (if pgsr AND DDRPHYC_PGSR_IDONE = 0 \<and> error = 0 then Inr (error, s) else Inl s))
       (0, s)"

text \<open>\<open>debug\<close> prints nothing, but its arguments are evaluated: PIR is read back.\<close>

definition stm32mp1_ddrphy_init :: "'d platform \<Rightarrow> u32 \<Rightarrow> u32 \<Rightarrow> 'd sys \<Rightarrow> 'd sys option" where
  "stm32mp1_ddrphy_init h phy pir s =
     (let pir = pir OR DDRPHYC_PIR_INIT;
          s = writel h pir (phy + phy_pir) s;
          (_, s) = readl h (phy + phy_pir) s;
          s = udelay h 10 s
      in ddrphy_idone_wait h phy s)"

subsection \<open>Quasi-dynamic register updates and the refresh\<close>

definition start_sw_done :: "'d platform \<Rightarrow> u32 \<Rightarrow> 'd sys \<Rightarrow> 'd sys" where
  "start_sw_done h ctl s = clrbits_le32 h (ctl + ctl_swctl) DDRCTRL_SWCTL_SW_DONE s"

text \<open>\<open>panic\<close> ends in \<open>while (1)\<close>.\<close>

definition wait_sw_done_ack :: "'d platform \<Rightarrow> u32 \<Rightarrow> 'd sys \<Rightarrow> 'd sys option" where
  "wait_sw_done_ack h ctl s =
     (let s = setbits_le32 h (ctl + ctl_swctl) DDRCTRL_SWCTL_SW_DONE s
      in do { (ret, _, s) \<leftarrow> readl_poll_timeout h (ctl + ctl_swstat)
                (\<lambda>swstat. swstat AND DDRCTRL_SWSTAT_SW_DONE_ACK \<noteq> 0) 1000000 s;
              if ret \<noteq> 0 then None else Some s })"

definition stm32mp1_refresh_disable :: "'d platform \<Rightarrow> u32 \<Rightarrow> 'd sys \<Rightarrow> 'd sys option" where
  "stm32mp1_refresh_disable h ctl s =
     (let s = start_sw_done h ctl s;
          s = setbits_le32 h (ctl + ctl_rfshctl3) DDRCTRL_RFSHCTL3_DIS_AUTO_REFRESH s;
          s = clrbits_le32 h (ctl + ctl_pwrctl)
                (DDRCTRL_PWRCTL_POWERDOWN_EN OR DDRCTRL_PWRCTL_SELFREF_EN) s;
          s = clrbits_le32 h (ctl + ctl_dfimisc) DDRCTRL_DFIMISC_DFI_INIT_COMPLETE_EN s
      in wait_sw_done_ack h ctl s)"

definition stm32mp1_refresh_restore ::
  "'d platform \<Rightarrow> u32 \<Rightarrow> u32 \<Rightarrow> u32 \<Rightarrow> 'd sys \<Rightarrow> 'd sys option" where
  "stm32mp1_refresh_restore h ctl rfshctl3 pwrctl s =
     (let s = start_sw_done h ctl s;
          s = (if rfshctl3 AND DDRCTRL_RFSHCTL3_DIS_AUTO_REFRESH = 0
               then clrbits_le32 h (ctl + ctl_rfshctl3) DDRCTRL_RFSHCTL3_DIS_AUTO_REFRESH s else s);
          s = (if pwrctl AND DDRCTRL_PWRCTL_POWERDOWN_EN \<noteq> 0
               then setbits_le32 h (ctl + ctl_pwrctl) DDRCTRL_PWRCTL_POWERDOWN_EN s else s);
          s = (if pwrctl AND DDRCTRL_PWRCTL_SELFREF_EN \<noteq> 0
               then setbits_le32 h (ctl + ctl_pwrctl) DDRCTRL_PWRCTL_SELFREF_EN s else s);
          s = setbits_le32 h (ctl + ctl_dfimisc) DDRCTRL_DFIMISC_DFI_INIT_COMPLETE_EN s
      in wait_sw_done_ack h ctl s)"

subsection \<open>The contract of the hardware\<close>

text \<open>Addresses whose reads need not be the last value written: the status registers of the two
  DDR devices, and all other devices but for the three registers of the RCC that the DDR code
  reads (PLL2CFGR1, PLL2CFGR2, DDRITFCR).\<close>

definition ddr_status :: "u32 set" where
  "ddr_status =
     {DDRPHYC_BASE + phy_pir, DDRPHYC_BASE + phy_pgsr, DDRPHYC_BASE + phy_bistgsr,
      DDRPHYC_BASE + phy_bistwcsr, DDRCTRL_BASE + ctl_swstat, DDRCTRL_BASE + ctl_stat} \<union>
     - ({0x5A003000..<0x5A005000} \<union> {0x50000098, 0x5000009C, 0x500000D8})"

lemma ctl_not_status [simp]:
  "DDRCTRL_BASE + ctl_mstr \<notin> ddr_status" "DDRCTRL_BASE + ctl_derateen \<notin> ddr_status"
  "DDRCTRL_BASE + ctl_pwrctl \<notin> ddr_status" "DDRCTRL_BASE + ctl_rfshctl3 \<notin> ddr_status"
  "DDRCTRL_BASE + ctl_dfimisc \<notin> ddr_status" "DDRCTRL_BASE + ctl_swctl \<notin> ddr_status"
  "DDRCTRL_BASE + ctl_addrmap1 \<notin> ddr_status" "DDRCTRL_BASE + ctl_addrmap2 \<notin> ddr_status"
  "DDRCTRL_BASE + ctl_addrmap3 \<notin> ddr_status" "DDRCTRL_BASE + ctl_addrmap4 \<notin> ddr_status"
  "DDRCTRL_BASE + ctl_addrmap5 \<notin> ddr_status" "DDRCTRL_BASE + ctl_addrmap6 \<notin> ddr_status"
  by (simp_all add: ddr_status_def reg_defs)

lemma plain_not_ram: "a \<notin> ddr_status \<Longrightarrow> \<not> 0xC0000000 \<le> a"
  by (auto simp: ddr_status_def reg_defs word_le_nat_alt word_less_nat_alt)

lemma bus_other_state [simp]:
  "bist_error_max (snd (readl h a s)) = bist_error_max s"
  "bist_error_max (writel h v a s) = bist_error_max s"
  "bist_error_max (udelay h n s) = bist_error_max s"
  "bist_error_max (snd (ctrlc h s)) = bist_error_max s"
  "bist_error_max (clrbits_le32 h a v s) = bist_error_max s"
  "bist_error_max (setbits_le32 h a v s) = bist_error_max s"
  "bist_error_max (clrsetbits_le32 h a v w s) = bist_error_max s"
  "bist_error_max (snd (rand s)) = bist_error_max s"
  by (simp_all add: readl_def writel_def udelay_def ctrlc_def rand_def Let_def split_def
        clrbits_le32_def setbits_le32_def clrsetbits_le32_def)

text \<open>\<open>regs\<close> keeps the last value written at each address; \<open>lag\<close> bounds how often a status register can still be
  polled before it answers. The console is silent.\<close>

locale ddr_regs =
  fixes h :: "'d platform"
    and regs :: "'d \<Rightarrow> u32 \<Rightarrow> u32"
    and lag :: "'d \<Rightarrow> nat"
  assumes rd_val: "a \<notin> ddr_status \<Longrightarrow> fst (rd32 h a d) = regs d a"
    and rd_regs: "regs (snd (rd32 h a d)) = regs d"
    and wr_regs: "regs (wr32 h v a d) = (regs d)(a := v)"
    and elapse_regs: "regs (elapse h n d) = regs d"
    and key_regs: "regs (snd (ctrlc_key h d)) = regs d"
    and silent: "\<not> fst (ctrlc_key h d)"
    and idone: "fst (rd32 h (DDRPHYC_BASE + phy_pgsr) d) AND 1 \<noteq> 0 \<or>
        lag (snd (rd32 h (DDRPHYC_BASE + phy_pgsr) d)) < lag d"
    and bdone: "fst (rd32 h (DDRPHYC_BASE + phy_bistgsr) d) AND 1 \<noteq> 0 \<or>
        lag (snd (rd32 h (DDRPHYC_BASE + phy_bistgsr) d)) < lag d"
    and sw_ack: "fst (rd32 h (DDRCTRL_BASE + ctl_swstat) d) AND 1 \<noteq> 0 \<or>
        lag (snd (rd32 h (DDRCTRL_BASE + ctl_swstat) d)) < lag d"
begin

definition R :: "'d sys \<Rightarrow> u32 \<Rightarrow> u32" where
  "R s = regs (dev s)"

lemma fst_readl [simp]: "a \<notin> ddr_status \<Longrightarrow> fst (readl h a s) = R s a"
  by (simp add: readl_def R_def rd_val split_def Let_def)

lemma R_readl [simp]: "R (snd (readl h a s)) = R s"
  by (simp add: readl_def R_def rd_regs split_def Let_def)

lemma R_writel [simp]: "R (writel h v a s) = (R s)(a := v)"
  by (simp add: writel_def R_def wr_regs)

lemma R_udelay [simp]: "R (udelay h n s) = R s"
  by (simp add: udelay_def R_def elapse_regs)

lemma R_ctrlc [simp]: "R (snd (ctrlc h s)) = R s" and fst_ctrlc [simp]: "fst (ctrlc h s) = False"
  using silent by (simp_all add: ctrlc_def R_def key_regs split_def Let_def)

lemma R_rand [simp]: "R (snd (rand s)) = R s"
  by (simp add: rand_def R_def Let_def)

lemma R_bits [simp]:
  "a \<notin> ddr_status \<Longrightarrow> R (clrbits_le32 h a v s) = (R s)(a := R s a AND NOT v)"
  "a \<notin> ddr_status \<Longrightarrow> R (setbits_le32 h a v s) = (R s)(a := R s a OR v)"
  "a \<notin> ddr_status \<Longrightarrow> R (clrsetbits_le32 h a v w s) = (R s)(a := (R s a AND NOT v) OR w)"
  by (simp_all add: clrbits_le32_def setbits_le32_def clrsetbits_le32_def split_def Let_def)

text \<open>A poll whose condition a lagging status register will meet returns, with the registers
  as they were.\<close>

lemma poll_returns:
  assumes "\<And>d. cond (fst (rd32 h a d)) \<or> lag (snd (rd32 h a d)) < lag d"
  shows "\<exists>v s'. readl_poll_timeout h a cond t s = Some (0, v, s') \<and> cond v \<and> R s' = R s \<and>
           bist_error_max s' = bist_error_max s"
proof -
  let ?f = "\<lambda>s. let (v, s) = readl h a s
     in Some (if cond v then Inl (0 :: int, v, s)
        else if t \<noteq> 0 \<and> time_after timer_get_us (timer_get_us + t)
        then let (v, s) = readl h a s in Inl (if cond v then 0 else - ETIMEDOUT, v, s)
        else Inr s)"
  have "\<exists>r. loop ?f s = Some r \<and> (\<exists>v s'. r = (0, v, s') \<and> cond v \<and> R s' = R s \<and>
           bist_error_max s' = bist_error_max s)"
  proof (rule loop_total [where I = "\<lambda>s'. R s' = R s \<and> bist_error_max s' = bist_error_max s"
        and m = "\<lambda>s. lag (dev s)"])
    fix s' assume I: "R s' = R s \<and> bist_error_max s' = bist_error_max s"
    obtain v s2 where rd: "readl h a s' = (v, s2)" by fastforce
    then have s2: "R s2 = R s" "bist_error_max s2 = bist_error_max s"
      using I R_readl [of a s'] bus_other_state(1) [of h a s'] by simp_all
    have "cond v \<or> lag (dev s2) < lag (dev s')"
      using assms [of "dev s'"] rd by (auto simp: readl_def split_def Let_def)
    then show "(\<exists>r. ?f s' = Some (Inl r) \<and> (\<exists>v s'. r = (0, v, s') \<and> cond v \<and> R s' = R s \<and>
           bist_error_max s' = bist_error_max s)) \<or>
        (\<exists>s''. ?f s' = Some (Inr s'') \<and> (R s'' = R s \<and> bist_error_max s'' = bist_error_max s) \<and>
          lag (dev s'') < lag (dev s'))"
      using rd s2 by (cases "cond v") (auto simp: time_after_def)
  qed simp
  then show ?thesis by (auto simp: readl_poll_timeout_def Let_def)
qed

lemma idone_wait_returns:
  "\<exists>s'. ddrphy_idone_wait h DDRPHYC_BASE s = Some s' \<and> R s' = R s \<and>
     bist_error_max s' = bist_error_max s"
proof -
  let ?I = "\<lambda>s'. R s' = R s \<and> bist_error_max s' = bist_error_max s"
  let ?f = "\<lambda>(error, s). let (pgsr, s) = readl h (DDRPHYC_BASE + phy_pgsr) s;
                error = error + pgsr_errors pgsr
            in Some (if pgsr AND DDRPHYC_PGSR_IDONE = 0 \<and> error = 0 then Inr (error, s) else Inl s)"
  have "\<exists>r. loop ?f (0, s) = Some r \<and> ?I r"
  proof (rule loop_total [where I = "?I \<circ> snd" and m = "\<lambda>(_, s). lag (dev s)"])
    fix x :: "nat \<times> 'd sys" assume "(?I \<circ> snd) x"
    then obtain e s' where x: "x = (e, s')" and I: "?I s'" by (cases x) auto
    obtain v s2 where rd: "readl h (DDRPHYC_BASE + phy_pgsr) s' = (v, s2)" by fastforce
    then have s2: "?I s2"
      using I R_readl [of "DDRPHYC_BASE + phy_pgsr" s']
        bus_other_state(1) [of h "DDRPHYC_BASE + phy_pgsr" s'] by simp_all
    have "v AND 1 \<noteq> 0 \<or> lag (dev s2) < lag (dev s')"
      using idone [of "dev s'"] rd by (auto simp: readl_def split_def Let_def)
    then show "(\<exists>r. ?f x = Some (Inl r) \<and> ?I r) \<or>
        (\<exists>s''. ?f x = Some (Inr s'') \<and> (?I \<circ> snd) s'' \<and>
          (case s'' of (_, s) \<Rightarrow> lag (dev s)) < (case x of (_, s) \<Rightarrow> lag (dev s)))"
      using x rd s2
      by (cases "v AND DDRPHYC_PGSR_IDONE = 0 \<and> e + pgsr_errors v = 0")
        (auto simp: DDRPHYC_PGSR_IDONE_def)
  qed simp
  then show ?thesis by (simp add: ddrphy_idone_wait_def)
qed

lemma ddrphy_init_returns:
  "\<exists>s'. stm32mp1_ddrphy_init h DDRPHYC_BASE pir s = Some s' \<and>
     R s' = (R s)(DDRPHYC_BASE + phy_pir := pir OR DDRPHYC_PIR_INIT) \<and>
     bist_error_max s' = bist_error_max s"
  using idone_wait_returns [of "udelay h 10 (snd (readl h (DDRPHYC_BASE + phy_pir)
     (writel h (pir OR DDRPHYC_PIR_INIT) (DDRPHYC_BASE + phy_pir) s)))"]
  by (simp add: stm32mp1_ddrphy_init_def Let_def split_def)

lemma wait_sw_done_ack_returns:
  "\<exists>s'. wait_sw_done_ack h DDRCTRL_BASE s = Some s' \<and>
     R s' = (R s)(DDRCTRL_BASE + ctl_swctl := R s (DDRCTRL_BASE + ctl_swctl) OR 1) \<and>
     bist_error_max s' = bist_error_max s"
proof -
  obtain v s' where "readl_poll_timeout h (DDRCTRL_BASE + ctl_swstat)
      (\<lambda>w. w AND DDRCTRL_SWSTAT_SW_DONE_ACK \<noteq> 0) 1000000
      (setbits_le32 h (DDRCTRL_BASE + ctl_swctl) DDRCTRL_SWCTL_SW_DONE s) = Some (0, v, s')"
    and "R s' = R (setbits_le32 h (DDRCTRL_BASE + ctl_swctl) DDRCTRL_SWCTL_SW_DONE s)"
    and "bist_error_max s' = bist_error_max s"
    using poll_returns [of "\<lambda>w. w AND DDRCTRL_SWSTAT_SW_DONE_ACK \<noteq> 0"] sw_ack
    by (metis (no_types, lifting) DDRCTRL_SWSTAT_SW_DONE_ACK_def bus_other_state(6))
  then show ?thesis
    by (simp add: wait_sw_done_ack_def Let_def DDRCTRL_SWCTL_SW_DONE_def)
qed

end

context ddr_regs
begin

text \<open>What switching the refresh off does, and that restoring it puts RFSHCTL3 and PWRCTL back.\<close>

lemma refresh_disable_returns:
  "\<exists>s'. stm32mp1_refresh_disable h DDRCTRL_BASE s = Some s' \<and>
     R s' = (R s)(DDRCTRL_BASE + ctl_rfshctl3 := R s (DDRCTRL_BASE + ctl_rfshctl3) OR 1,
                  DDRCTRL_BASE + ctl_pwrctl := R s (DDRCTRL_BASE + ctl_pwrctl) AND NOT (2 OR 1),
                  DDRCTRL_BASE + ctl_dfimisc := R s (DDRCTRL_BASE + ctl_dfimisc) AND NOT 1,
                  DDRCTRL_BASE + ctl_swctl := R s (DDRCTRL_BASE + ctl_swctl) OR 1) \<and>
     bist_error_max s' = bist_error_max s"
proof -
  let ?c = "DDRCTRL_BASE"
  define s1 where "s1 = clrbits_le32 h (?c + ctl_dfimisc) 1 (clrbits_le32 h (?c + ctl_pwrctl) (2 OR 1)
    (setbits_le32 h (?c + ctl_rfshctl3) 1 (start_sw_done h ?c s)))"
  have ne: "ctl_swctl \<noteq> ctl_rfshctl3" "ctl_swctl \<noteq> ctl_pwrctl" "ctl_swctl \<noteq> ctl_dfimisc"
    "ctl_rfshctl3 \<noteq> ctl_pwrctl" "ctl_rfshctl3 \<noteq> ctl_dfimisc" "ctl_pwrctl \<noteq> ctl_dfimisc"
    by (simp_all add: reg_defs)
  have sw: "(x AND NOT 1) OR 1 = x OR 1" for x :: u32
    by (rule bit_word_eqI) (auto simp: bit_simps)
  obtain s' where s': "wait_sw_done_ack h ?c s1 = Some s'"
    "R s' = (R s1)(?c + ctl_swctl := R s1 (?c + ctl_swctl) OR 1)" "bist_error_max s' = bist_error_max s1"
    using wait_sw_done_ack_returns by blast
  have "stm32mp1_refresh_disable h ?c s = Some s'"
    using s'(1) unfolding stm32mp1_refresh_disable_def s1_def Let_def
    by (simp only: DDRCTRL_RFSHCTL3_DIS_AUTO_REFRESH_def DDRCTRL_PWRCTL_POWERDOWN_EN_def
        DDRCTRL_PWRCTL_SELFREF_EN_def DDRCTRL_DFIMISC_DFI_INIT_COMPLETE_EN_def)
  moreover have "bist_error_max s1 = bist_error_max s" by (simp add: s1_def start_sw_done_def)
  moreover have "R s1 = (R s)(?c + ctl_swctl := R s (?c + ctl_swctl) AND NOT 1,
      ?c + ctl_rfshctl3 := R s (?c + ctl_rfshctl3) OR 1,
      ?c + ctl_pwrctl := R s (?c + ctl_pwrctl) AND NOT (2 OR 1),
      ?c + ctl_dfimisc := R s (?c + ctl_dfimisc) AND NOT 1)"
    using ne unfolding s1_def start_sw_done_def DDRCTRL_SWCTL_SW_DONE_def by (simp del: and_numerals or_numerals)
  ultimately show ?thesis using s' ne sw by (auto simp: fun_eq_iff simp del: and_numerals or_numerals)
qed

lemma refresh_restore_returns:
  "\<exists>s'. stm32mp1_refresh_restore h DDRCTRL_BASE rf pw s = Some s' \<and>
     R s' = (R s)(DDRCTRL_BASE + ctl_rfshctl3 :=
                    (if rf AND 1 = 0 then R s (DDRCTRL_BASE + ctl_rfshctl3) AND NOT 1
                     else R s (DDRCTRL_BASE + ctl_rfshctl3)),
                  DDRCTRL_BASE + ctl_pwrctl :=
                    (R s (DDRCTRL_BASE + ctl_pwrctl) OR (pw AND 2)) OR (pw AND 1),
                  DDRCTRL_BASE + ctl_dfimisc := R s (DDRCTRL_BASE + ctl_dfimisc) OR 1,
                  DDRCTRL_BASE + ctl_swctl := R s (DDRCTRL_BASE + ctl_swctl) OR 1) \<and>
     bist_error_max s' = bist_error_max s"
proof -
  let ?c = "DDRCTRL_BASE"
  define s1 where "s1 = start_sw_done h ?c s"
  define s2 where "s2 = (if rf AND 1 = 0 then clrbits_le32 h (?c + ctl_rfshctl3) 1 s1 else s1)"
  define s3 where "s3 = (if pw AND 2 \<noteq> 0 then setbits_le32 h (?c + ctl_pwrctl) 2 s2 else s2)"
  define s4 where "s4 = (if pw AND 1 \<noteq> 0 then setbits_le32 h (?c + ctl_pwrctl) 1 s3 else s3)"
  define s5 where "s5 = setbits_le32 h (?c + ctl_dfimisc) 1 s4"
  have ne: "ctl_swctl \<noteq> ctl_rfshctl3" "ctl_swctl \<noteq> ctl_pwrctl" "ctl_swctl \<noteq> ctl_dfimisc"
    "ctl_rfshctl3 \<noteq> ctl_pwrctl" "ctl_rfshctl3 \<noteq> ctl_dfimisc" "ctl_pwrctl \<noteq> ctl_dfimisc"
    by (simp_all add: reg_defs)
  have sw: "(x AND NOT 1) OR 1 = x OR 1" for x :: u32
    by (rule bit_word_eqI) (auto simp: bit_simps)
  obtain s' where s': "wait_sw_done_ack h ?c s5 = Some s'"
    "R s' = (R s5)(?c + ctl_swctl := R s5 (?c + ctl_swctl) OR 1)" "bist_error_max s' = bist_error_max s5"
    using wait_sw_done_ack_returns by blast
  have "stm32mp1_refresh_restore h ?c rf pw s = Some s'"
    using s'(1) unfolding stm32mp1_refresh_restore_def s1_def s2_def s3_def s4_def s5_def Let_def
    by (simp only: DDRCTRL_RFSHCTL3_DIS_AUTO_REFRESH_def DDRCTRL_PWRCTL_POWERDOWN_EN_def
        DDRCTRL_PWRCTL_SELFREF_EN_def DDRCTRL_DFIMISC_DFI_INIT_COMPLETE_EN_def)
  moreover have "bist_error_max s5 = bist_error_max s"
    by (simp add: s1_def s2_def s3_def s4_def s5_def start_sw_done_def)
  moreover have 1: "R s1 = (R s)(?c + ctl_swctl := R s (?c + ctl_swctl) AND NOT 1)"
    by (simp add: s1_def start_sw_done_def DDRCTRL_SWCTL_SW_DONE_def)
  moreover have 2: "R s2 = (R s1)(?c + ctl_rfshctl3 := (if rf AND 1 = 0 then R s1 (?c + ctl_rfshctl3) AND NOT 1
                     else R s1 (?c + ctl_rfshctl3)))"
    by (simp add: s2_def)
  moreover have 3: "R s3 = (R s2)(?c + ctl_pwrctl := R s2 (?c + ctl_pwrctl) OR (pw AND 2))"
    using single_bits(2) [of pw] by (auto simp: s3_def)
  moreover have 4: "R s4 = (R s3)(?c + ctl_pwrctl := R s3 (?c + ctl_pwrctl) OR (pw AND 1))"
    using single_bits(1) [of pw] by (auto simp: s4_def simp del: and_one_eq)
  moreover have 5: "R s5 = (R s4)(?c + ctl_dfimisc := R s4 (?c + ctl_dfimisc) OR 1)"
    by (simp add: s5_def)
  ultimately show ?thesis
    using s' ne sw by (auto simp: fun_eq_iff simp del: and_numerals or_numerals and_one_eq)
qed
end

end
