(* ===== verification/Memsize.thy ===== *)
theory Memsize
  imports Platform
begin

text \<open>
  Sizing the RAM (uboot-port/common/memsize.c). \<open>get_ram_size\<close> writes a marker at every
  power-of-two offset, largest first, saving what was there; it then clears the base word
  and looks, smallest offset first, for the first marker that is gone, restoring the saved
  words as it goes. \<open>long\<close> is 32 bits wide, \<open>sync()\<close> is empty, and the array \<open>save\<close>
  with its index \<open>i\<close> is a stack: \<open>save[i++] = v\<close> pushes, \<open>save[--i]\<close> pops, and a pop
  below the array is \<open>None\<close>.

  The lemmas show that on a memory that wraps around at a power of two the function
  returns exactly the size of the memory and leaves its contents unchanged.
\<close>

subsection \<open>The code\<close>

function save_loop ::
  "'d platform \<Rightarrow> u32 \<Rightarrow> u32 \<Rightarrow> u32 list \<Rightarrow> 'd sys \<Rightarrow> u32 list \<times> 'd sys" where
  "save_loop h base cnt save s =
     (if 0 <s cnt
      then let addr = base + 4 * cnt;
               (v, s) = readl h addr s;
               s = writel h (NOT cnt) addr s
           in save_loop h base (drop_bit 1 cnt) (v # save) s
      else (save, s))"
  by pat_completeness auto
termination
  by (relation "measure (\<lambda>(h, base, cnt, save, s). unat cnt)") (auto simp: unat_shr1_dec)

declare save_loop.simps [simp del]

fun restore_loop ::
  "'d platform \<Rightarrow> u32 \<Rightarrow> u32 \<Rightarrow> u32 \<Rightarrow> u32 list \<Rightarrow> 'd sys \<Rightarrow> 'd sys option" where
  "restore_loop h base n cnt [] s = (if cnt < n then None else Some s)"
| "restore_loop h base n cnt (v # save) s =
     (if cnt < n
      then restore_loop h base n (push_bit 1 cnt) save (writel h v (base + 4 * cnt) s)
      else Some s)"

text \<open>The second \<open>for\<close> loop: \<open>Some size\<close> when a marker is gone.\<close>

fun check_loop ::
  "'d platform \<Rightarrow> u32 \<Rightarrow> u32 \<Rightarrow> u32 \<Rightarrow> u32 list \<Rightarrow> 'd sys \<Rightarrow> (u32 option \<times> 'd sys) option" where
  "check_loop h base n cnt [] s = (if cnt < n then None else Some (None, s))"
| "check_loop h base n cnt (v # save) s =
     (if cnt < n
      then let addr = base + 4 * cnt;
               (val, s) = readl h addr s;
               s = writel h v addr s
           in if val \<noteq> NOT cnt
              then do { s \<leftarrow> restore_loop h base n (push_bit 1 cnt) save s; Some (Some (cnt * 4), s) }
              else check_loop h base n (push_bit 1 cnt) save s
      else Some (None, s))"

definition get_ram_size ::
  "'d platform \<Rightarrow> u32 \<Rightarrow> u32 \<Rightarrow> 'd sys \<Rightarrow> (u32 \<times> 'd sys) option" where
  "get_ram_size h base maxsize s =
     (let n = maxsize div 4;
          (save, s) = save_loop h base (drop_bit 1 n) [] s;
          (save_base, s) = readl h base s;
          s = writel h 0 base s;
          (val, s) = readl h base s
      in if val \<noteq> 0
         then let s = writel h save_base base s
              in do { s \<leftarrow> restore_loop h base n 1 save s; Some (0, s) }
         else do {
           (found, s) \<leftarrow> check_loop h base n 1 save s;
           (case found of
              Some sz \<Rightarrow> Some (sz, s)
            | None \<Rightarrow> Some (maxsize, writel h save_base base s))
         })"

subsection \<open>A memory that wraps around\<close>

text \<open>\<open>2 ^ K\<close> words are probed and \<open>2 ^ k\<close> words are there; word \<open>i\<close> of the range is word
  \<open>i mod 2 ^ k\<close> of the memory.\<close>

locale wrapped_dram = dram h mem sound_cell decode region
  for h :: "'d platform" and mem decode region +
  fixes base :: u32 and k K :: nat
  assumes K_bound: "K \<le> 28" and k_le: "k \<le> K"
    and probed: "i < 2 ^ K \<Longrightarrow> base + 4 * of_nat i \<in> region"
    and wraps: "i < 2 ^ K \<Longrightarrow> decode (base + 4 * of_nat i) = base + 4 * of_nat (i mod 2 ^ k)"
begin

text \<open>The cell behind the marker offset \<open>2 ^ i\<close>.\<close>

definition slot :: "nat \<Rightarrow> u32" where
  "slot i = (if i < k then base + 4 * 2 ^ i else base)"

lemma slot_decode: "i < K \<Longrightarrow> decode (base + 4 * 2 ^ i) = slot i"
proof -
  assume i: "i < K"
  have "(2 ^ i) mod 2 ^ k = (if i < k then 2 ^ i else (0 :: nat))"
    by (auto simp: mod_eq_0_iff_dvd le_imp_power_dvd)
  with wraps [of "2 ^ i"] i show ?thesis by (auto simp: slot_def)
qed

lemma slot_region: "i < K \<Longrightarrow> base + 4 * 2 ^ i \<in> region"
  using probed [of "2 ^ i"] by simp

lemma base_region: "base \<in> region" and base_decode: "decode base = base"
  using probed [of 0] wraps [of 0] by simp_all

lemma offset_inj: "a < 2 ^ 30 \<Longrightarrow> b < 2 ^ 30 \<Longrightarrow> 4 * of_nat a = (4 * of_nat b :: u32) \<longleftrightarrow> a = b"
proof
  assume ab: "a < 2 ^ 30" "b < 2 ^ 30" and "4 * of_nat a = (4 * of_nat b :: u32)"
  then have "unat (of_nat (4 * a) :: u32) = unat (of_nat (4 * b) :: u32)" by simp
  then show "a = b" using ab by (simp add: unat_of_nat del: of_nat_mult)
qed simp

lemma slot_inj: "i < k \<Longrightarrow> j < k \<Longrightarrow> slot i = slot j \<longleftrightarrow> i = j"
proof -
  assume ij: "i < k" "j < k"
  have b: "(2 :: nat) ^ x < 2 ^ 30" if "x < k" for x
    using that k_le K_bound by (intro power_strict_increasing) auto
  show ?thesis
    using offset_inj [of "2 ^ i" "2 ^ j"] b ij by (simp add: slot_def)
qed

lemma slot_not_base: "i < k \<Longrightarrow> slot i \<noteq> base"
proof -
  assume i: "i < k"
  then have "(2 :: nat) ^ i < 2 ^ 30"
    using k_le K_bound by (intro power_strict_increasing) auto
  then show ?thesis
    using offset_inj [of "2 ^ i" 0] i by (simp add: slot_def)
qed

subsubsection \<open>Saving and marking\<close>

primrec saved :: "(u32 \<Rightarrow> u32) \<Rightarrow> nat \<Rightarrow> u32 list" where
  "saved m 0 = []"
| "saved m (Suc j) = saved (m(slot j := NOT (2 ^ j))) j @ [m (slot j)]"

primrec marked :: "(u32 \<Rightarrow> u32) \<Rightarrow> nat \<Rightarrow> u32 \<Rightarrow> u32" where
  "marked m 0 = m"
| "marked m (Suc j) = marked (m(slot j := NOT (2 ^ j))) j"

lemma length_saved [simp]: "length (saved m j) = j"
  by (induction j arbitrary: m) simp_all

lemma marked_other: "(\<And>i. i < j \<Longrightarrow> x \<noteq> slot i) \<Longrightarrow> marked m j x = m x"
  by (induction j arbitrary: m) simp_all

lemma slot_neq:
  assumes "i < k" "i \<noteq> j"
  shows "slot i \<noteq> slot j"
proof (cases "j < k")
  case True
  with slot_inj [OF assms(1) this] assms(2) show ?thesis by blast
next
  case False
  then have "slot j = base" by (simp add: slot_def)
  with slot_not_base [OF assms(1)] show ?thesis by argo
qed

lemma marked_slot: "i < k \<Longrightarrow> i < j \<Longrightarrow> marked m j (slot i) = NOT (2 ^ i)"
proof (induction j arbitrary: m)
  case (Suc j)
  show ?case
  proof (cases "i = j")
    case True
    have "\<And>t. t < j \<Longrightarrow> slot i \<noteq> slot t" using Suc.prems True by (intro slot_neq) auto
    then show ?thesis using True by (simp add: marked_other)
  next
    case False
    then show ?thesis using Suc by simp
  qed
qed simp

lemma save_loop_spec:
  "j \<le> K \<Longrightarrow>
     \<exists>s'. save_loop h base (drop_bit 1 (2 ^ j)) save s = (saved (dev (cells s)) j @ save, s') \<and>
       cells s' = (cells s)\<lparr>dev := marked (dev (cells s)) j\<rparr>"
proof (induction j arbitrary: save s)
  case 0
  have "drop_bit 1 (2 ^ 0 :: u32) = 0" by simp
  then show ?case by (auto simp: save_loop.simps intro: exI [of _ s])
next
  case (Suc j)
  have "(0 :: u32) <s 2 ^ j"
    using Suc.prems K_bound by (simp add: word_sless_alt sint_2_pow)
  define a where "a = base + 4 * 2 ^ j"
  have a: "a \<in> region" "decode a = slot j"
    using Suc.prems slot_region [of j] slot_decode [of j] by (simp_all add: a_def)
  obtain v s1 where r: "readl h a s = (v, s1)" by fastforce
  then have v: "v = dev (cells s) (slot j)" and s1: "cells s1 = cells s"
    using a fst_readl [OF a(1), of s] cells_readl [OF a(1), of s] by (simp_all add: sound_cell_def)
  define s2 where "s2 = writel h (NOT (2 ^ j)) a s1"
  have s2: "cells s2 = (cells s)\<lparr>dev := (dev (cells s))(slot j := NOT (2 ^ j))\<rparr>"
    using a s1 by (simp add: s2_def)
  have d: "drop_bit 1 (2 ^ Suc j :: u32) = 2 ^ j"
    using Suc.prems K_bound by (simp add: drop_bit_pow_Suc)
  have "save_loop h base (drop_bit 1 (2 ^ Suc j)) save s =
      save_loop h base (drop_bit 1 (2 ^ j)) (v # save) s2"
    unfolding d using \<open>0 <s 2 ^ j\<close> r
    by (subst save_loop.simps) (simp add: Let_def a_def s2_def)
  moreover obtain s' where "save_loop h base (drop_bit 1 (2 ^ j)) (v # save) s2 =
      (saved (dev (cells s2)) j @ v # save, s')"
    "cells s' = (cells s2)\<lparr>dev := marked (dev (cells s2)) j\<rparr>"
    using Suc.IH [of "v # save" s2] Suc.prems by auto
  ultimately show ?case using v s2 by (simp del: cells_sel fun_upd_apply)
qed

subsubsection \<open>Restoring\<close>

primrec restored :: "nat \<Rightarrow> u32 list \<Rightarrow> (u32 \<Rightarrow> u32) \<Rightarrow> u32 \<Rightarrow> u32" where
  "restored i [] m = m"
| "restored i (v # vs) m = restored (Suc i) vs (m(slot i := v))"

lemma restored_snoc: "restored i (vs @ [v]) m = (restored i vs m)(slot (i + length vs) := v)"
  by (induction vs arbitrary: i m) simp_all

lemma restored_saved:
  "restored 0 (saved m j) m' = (\<lambda>x. if \<exists>i<j. x = slot i then m x else m' x)"
proof (induction j arbitrary: m)
  case (Suc j)
  show ?case
    by (auto simp: restored_snoc Suc fun_eq_iff less_Suc_eq)
qed simp

lemma pow_less: "i \<le> K \<Longrightarrow> (2 ^ i :: u32) < 2 ^ K \<longleftrightarrow> i < K"
  using K_bound by (simp add: word_less_nat_alt unat_pow2)

lemma restore_loop_spec:
  "i \<le> K \<Longrightarrow> length vs = K - i \<Longrightarrow>
     \<exists>s'. restore_loop h base (2 ^ K) (2 ^ i) vs s = Some s' \<and>
       cells s' = (cells s)\<lparr>dev := restored i vs (dev (cells s))\<rparr>"
proof (induction vs arbitrary: i s)
  case Nil
  then show ?case using pow_less [of i] by simp
next
  case (Cons v vs)
  then have i: "i < K" by simp
  let ?a = "base + 4 * 2 ^ i"
  have "restore_loop h base (2 ^ K) (2 ^ i) (v # vs) s =
      restore_loop h base (2 ^ K) (2 ^ Suc i) vs (writel h v ?a s)"
    using i pow_less [of i] by (simp add: mult.commute [of "2 ^ i" 2])
  then show ?case
    using Cons.IH [of "Suc i" "writel h v ?a s"] Cons.prems i slot_region [of i] slot_decode [of i]
    by (simp del: fun_upd_apply restore_loop.simps)
qed

lemma check_loop_spec:
  "i \<le> k \<Longrightarrow> length vs = K - i \<Longrightarrow> dev (cells s) base = 0 \<Longrightarrow>
     (\<And>t. i \<le> t \<Longrightarrow> t < k \<Longrightarrow> dev (cells s) (slot t) = NOT (2 ^ t)) \<Longrightarrow>
     \<exists>s'. check_loop h base (2 ^ K) (2 ^ i) vs s =
            Some (if k < K then Some (2 ^ k * 4) else None, s') \<and>
       cells s' = (cells s)\<lparr>dev := restored i vs (dev (cells s))\<rparr>"
proof (induction vs arbitrary: i s)
  case Nil
  then have "i = K" using k_le by simp
  then show ?case using Nil k_le pow_less [of i] by simp
next
  case (Cons v vs)
  then have i: "i < K" by simp
  let ?a = "base + 4 * 2 ^ i"
  note a = slot_region [OF i] slot_decode [OF i]
  obtain val s1 where r: "readl h ?a s = (val, s1)" by fastforce
  then have val: "val = dev (cells s) (slot i)" and s1: "cells s1 = cells s"
    using a fst_readl [OF a(1), of s] cells_readl [OF a(1), of s] by (simp_all add: sound_cell_def)
  define s2 where "s2 = writel h v ?a s1"
  have s2: "cells s2 = (cells s)\<lparr>dev := (dev (cells s))(slot i := v)\<rparr>"
    using a s1 by (simp add: s2_def)
  show ?case
  proof (cases "i < k")
    case True
    have "check_loop h base (2 ^ K) (2 ^ i) (v # vs) s = check_loop h base (2 ^ K) (2 ^ Suc i) vs s2"
      using i True pow_less [of i] r val Cons.prems(4) [of i]
      by (simp add: s2_def mult.commute [of "2 ^ i" 2])
    moreover have "\<And>t. Suc i \<le> t \<Longrightarrow> t < k \<Longrightarrow> dev (cells s2) (slot t) = NOT (2 ^ t)"
    proof -
      fix t assume t: "Suc i \<le> t" "t < k"
      then have "slot i \<noteq> slot t" by (intro slot_neq [OF True]) simp
      then show "dev (cells s2) (slot t) = NOT (2 ^ t)"
        using Cons.prems(4) [of t] t s2 by (simp del: cells_sel)
    qed
    moreover have "dev (cells s2) base = 0"
      using s2 slot_not_base [OF True] Cons.prems(3) by (simp del: cells_sel)
    moreover have "length vs = K - Suc i" using Cons.prems(2) by simp
    ultimately obtain s' where
      "check_loop h base (2 ^ K) (2 ^ i) (v # vs) s =
         Some (if k < K then Some (2 ^ k * 4) else None, s')"
      "cells s' = (cells s2)\<lparr>dev := restored (Suc i) vs (dev (cells s2))\<rparr>"
      using Cons.IH [of "Suc i" s2] \<open>length vs = K - Suc i\<close> True
      by (auto simp del: check_loop.simps)
    then show ?thesis using s2 by (simp del: cells_sel fun_upd_apply)
  next
    case False
    then have ik: "i = k" using Cons.prems by simp
    have "val = 0" using val Cons.prems ik by (simp add: slot_def)
    moreover have "(2 ^ i :: u32) \<noteq> - 1"
      using pow_less [of i] i by (metis linorder_not_less less_imp_le word_n1_ge)
    ultimately have "val \<noteq> NOT (2 ^ i)"
      by (metis bit.compl_zero bit.double_compl)
    have len: "length vs = K - Suc i" using Cons.prems(2) by simp
    obtain s' where "restore_loop h base (2 ^ K) (2 ^ Suc i) vs s2 = Some s'"
      "cells s' = (cells s2)\<lparr>dev := restored (Suc i) vs (dev (cells s2))\<rparr>"
      using restore_loop_spec [of "Suc i" vs s2] len i by auto
    with \<open>val \<noteq> NOT (2 ^ i)\<close> show ?thesis
      using i ik pow_less [of i] r s2 s2_def [symmetric]
      by (simp add: mult.commute [of "2 ^ k" 2])
  qed
qed

lemma get_ram_size_spec:
  "\<exists>s'. get_ram_size h base (2 ^ (K + 2)) s = Some (2 ^ (k + 2), s') \<and> cells s' = cells s"
proof -
  let ?m = "dev (cells s)"
  obtain s1 where s1: "save_loop h base (drop_bit 1 (2 ^ K)) [] s = (saved ?m K, s1)"
    "cells s1 = (cells s)\<lparr>dev := marked ?m K\<rparr>"
    using save_loop_spec [of K "[]" s] by auto
  obtain sb s2 where s2: "readl h base s1 = (sb, s2)" by fastforce
  then have sb: "sb = marked ?m K base" and c2: "cells s2 = cells s1"
    using fst_readl [OF base_region, of s1] cells_readl [OF base_region, of s1] s1
    by (simp_all add: base_decode sound_cell_def)
  define s3 where "s3 = writel h 0 base s2"
  obtain val s4 where s4: "readl h base s3 = (val, s4)" by fastforce
  have c3: "cells s3 = (cells s)\<lparr>dev := (marked ?m K)(base := 0)\<rparr>"
    using c2 s1 base_region base_decode by (simp add: s3_def)
  have "val = 0" and c4: "cells s4 = (cells s)\<lparr>dev := (marked ?m K)(base := 0)\<rparr>"
    using fst_readl [OF base_region, of s3] cells_readl [OF base_region, of s3] s4 c3
    by (simp_all add: base_decode sound_cell_def)
  have "\<And>t. t < k \<Longrightarrow> dev (cells s4) (slot t) = NOT (2 ^ t)"
    using c4 slot_not_base marked_slot k_le by auto
  then obtain s5 where s5: "check_loop h base (2 ^ K) 1 (saved ?m K) s4 =
      Some (if k < K then Some (2 ^ k * 4) else None, s5)"
    "cells s5 = (cells s)\<lparr>dev := restored 0 (saved ?m K) ((marked ?m K)(base := 0))\<rparr>"
    using check_loop_spec [of 0 "saved ?m K" s4] c4 by auto
  have n: "(4 * 2 ^ K :: u32) div 4 = 2 ^ K" using K_bound by (simp add: pow_div_4)
  have s1': "save_loop h base (drop_bit (Suc 0) (2 ^ K)) [] s = (saved ?m K, s1)"
    using s1(1) by simp
  note run = get_ram_size_def n s1' s2 s3_def [symmetric] s4 \<open>val = 0\<close> s5(1) [unfolded cells_sel]
  show ?thesis
  proof (cases "k < K")
    case True
    have "base = slot k" by (simp add: slot_def)
    with True have "restored 0 (saved ?m K) ((marked ?m K)(base := 0)) = ?m"
      by (auto simp: restored_saved fun_eq_iff marked_other)
    then have "cells s5 = cells s" using s5(2) by simp
    then show ?thesis using True by (simp add: run)
  next
    case False
    then have kK: "k = K" using k_le by simp
    then have ne: "i < K \<Longrightarrow> base \<noteq> slot i" for i using slot_not_base [of i] by argo
    then have "marked ?m K base = ?m base" by (simp add: marked_other)
    moreover have "\<not> (\<exists>i<K. base = slot i)" using ne by blast
    moreover have "marked ?m K x = ?m x" if "\<not> (\<exists>i<K. x = slot i)" for x
      using that by (intro marked_other) blast
    ultimately have "(restored 0 (saved ?m K) ((marked ?m K)(base := 0)))(base := sb) = ?m"
      unfolding restored_saved by (simp add: fun_eq_iff sb)
    then have "cells (writel h sb base s5) = cells s"
      using s5(2) base_region base_decode by simp
    moreover have "(if k < K then Some (2 ^ k * 4 :: u32) else None) = None" using False by simp
    ultimately show ?thesis unfolding kK [symmetric] by (simp add: run [folded kK])
  qed
qed

end

text \<open>The 512 MB of the discovery board behind the 1 GB window at \<open>0xC0000000\<close>, and every
  other memory of \<open>2 ^ k\<close> words in a window of \<open>2 ^ K\<close>.\<close>

definition wrap_decode :: "u32 \<Rightarrow> nat \<Rightarrow> u32 \<Rightarrow> u32" where
  "wrap_decode base k a = base + ((a - base) AND mask (k + 2))"

lemma wrap_decode_word:
  "wrap_decode base k (base + 4 * of_nat i) = base + 4 * of_nat (i mod 2 ^ k)"
proof -
  have "(2 :: nat) ^ (k + 2) = 4 * 2 ^ k" by simp
  then have "(4 * i) mod 2 ^ (k + 2) = 4 * (i mod 2 ^ k)"
    by (simp only: mult_mod_right)
  moreover have "(of_nat (4 * i) :: u32) AND mask (k + 2) = of_nat (take_bit (k + 2) (4 * i))"
    by (rule trans [OF take_bit_eq_mask [symmetric] of_nat_take_bit [symmetric]])
  ultimately show ?thesis by (simp add: wrap_decode_def take_bit_eq_mod)
qed

interpretation wrapped_ram:
  wrapped_dram "cell_ram sound_cell (wrap_decode base (min k 28))" "\<lambda>m. m"
    "wrap_decode base (min k 28)" UNIV base "min k 28" 28
  for base k
proof unfold_locales
  fix i :: nat
  show "wrap_decode base (min k 28) (base + 4 * of_nat i) =
      base + 4 * of_nat (i mod 2 ^ min k 28)"
    by (rule wrap_decode_word)
qed simp_all

subsection \<open>The size of the memory\<close>

text \<open>C5. \<open>get_ram_size base maxsize\<close>, called with a power of two as
  \<open>stm32mp1_ram.cc\<close> does, on any memory device that shows \<open>2 ^ k\<close> words repeated over the
  \<open>2 ^ K\<close> words probed: it returns (no pop below the array \<open>save\<close>), the value is the
  size of the memory in bytes, and every cell and every static variable is what it was.\<close>

theorem get_ram_size_correct:
  assumes "wrapped_dram h mem decode region base k K"
  shows "\<exists>s'. get_ram_size h base (2 ^ (K + 2)) s = Some (2 ^ (k + 2), s') \<and>
           dram.cells mem s' = dram.cells mem s"
  by (rule wrapped_dram.get_ram_size_spec [OF assms])

text \<open>The board: 512 MB at \<open>0xC0000000\<close>, probed over 1 GB.\<close>

theorem get_ram_size_correct_witness:
  "\<exists>s'. get_ram_size (cell_ram sound_cell (wrap_decode 0xC0000000 27)) 0xC0000000 0x40000000
       (boot_state (\<lambda>a. a)) = Some (0x20000000, s') \<and>
     dram.cells (\<lambda>m. m) s' = dram.cells (\<lambda>m. m) (boot_state (\<lambda>a. a))"
  using get_ram_size_correct [OF wrapped_ram.wrapped_dram_axioms
      [of "0xC0000000" 27], of "boot_state (\<lambda>a. a)"]
  by simp

text \<open>A \<open>maxsize\<close> that is not a power of two breaks the pairing of the saving and the
  restoring loop: with three words the function pops below the array \<open>save\<close>.\<close>

theorem get_ram_size_needs_power_of_two:
  "get_ram_size (cell_ram sound_cell (wrap_decode 0 1)) 0 12 (boot_state (\<lambda>_. 0)) = None"
  by code_simp

end
