(* ===== verification/Strto.thy ===== *)
theory Strto
  imports Prelude
begin

text \<open>
  Reading a number from a command argument (u-boot lib/strto.c, with linux/ctype.h):
  \<open>strict_strtoul\<close> as the tests of the DDR use it. A C string is the list of its
  characters before the terminating NUL, which the code sees at the end of the list; a
  pointer into the string is the suffix it points to. \<open>unsigned long\<close> has 32 bits, so the
  accumulation \<open>result * base + value\<close> wraps. \<open>None\<close> is \<open>-EINVAL\<close>.
\<close>

subsection \<open>Character classes\<close>

definition chr :: "char \<Rightarrow> u8" where
  "chr c = of_char c"

definition isdigit :: "u8 \<Rightarrow> bool" where
  "isdigit c \<longleftrightarrow> 48 \<le> c \<and> c \<le> 57"

definition isxdigit :: "u8 \<Rightarrow> bool" where
  "isxdigit c \<longleftrightarrow> isdigit c \<or> (65 \<le> c \<and> c \<le> 70) \<or> (97 \<le> c \<and> c \<le> 102)"

definition islower :: "u8 \<Rightarrow> bool" where
  "islower c \<longleftrightarrow> (97 \<le> c \<and> c \<le> 122) \<or> (223 \<le> c \<and> c \<noteq> 247)"

definition isupper :: "u8 \<Rightarrow> bool" where
  "isupper c \<longleftrightarrow> (65 \<le> c \<and> c \<le> 90) \<or> (192 \<le> c \<and> c \<le> 222 \<and> c \<noteq> 215)"

definition tolower :: "u8 \<Rightarrow> u8" where
  "tolower c = (if isupper c then c + 32 else c)"

definition toupper :: "u8 \<Rightarrow> u8" where
  "toupper c = (if islower c then c - 32 else c)"

text \<open>The character at index \<open>i\<close>; the terminating NUL at the end.\<close>

definition char_at :: "string \<Rightarrow> nat \<Rightarrow> u8" where
  "char_at s i = (if i < length s then chr (s ! i) else 0)"

subsection \<open>The code\<close>

definition parse_integer_fixup_radix :: "string \<Rightarrow> u32 \<Rightarrow> string \<times> u32" where
  "parse_integer_fixup_radix s base =
     (let base = (if base = 0
                  then if char_at s 0 = 48
                       then if tolower (char_at s 1) = 120 \<and> isxdigit (char_at s 2) then 16 else 8
                       else 10
                  else base);
          s = (if base = 16 \<and> char_at s 0 = 48 \<and> tolower (char_at s 1) = 120
               then drop 2 s else s)
      in (s, base))"

definition digit_value :: "u8 \<Rightarrow> u32" where
  "digit_value c =
     (if isdigit c then ucast c - 48
      else ucast (if islower c then toupper c else c) - 65 + 10)"

fun strtoul_loop :: "u32 \<Rightarrow> u32 \<Rightarrow> string \<Rightarrow> u32 \<times> string" where
  "strtoul_loop base result [] = (result, [])"
| "strtoul_loop base result (c # cp) =
     (if isxdigit (chr c) \<and> digit_value (chr c) < base
      then strtoul_loop base (result * base + digit_value (chr c)) cp
      else (result, c # cp))"

text \<open>The value and the suffix \<open>endp\<close> points to.\<close>

definition simple_strtoul :: "string \<Rightarrow> u32 \<Rightarrow> u32 \<times> string" where
  "simple_strtoul cp base =
     (let (cp, base) = parse_integer_fixup_radix cp base in strtoul_loop base 0 cp)"

definition strict_strtoul :: "string \<Rightarrow> u32 \<Rightarrow> u32 option" where
  "strict_strtoul cp base =
     (if length cp = 0 then None
      else let (val, tail) = simple_strtoul cp base
           in if length tail = length cp then None
              else if tail = [] \<or> (length tail = 1 \<and> char_at tail 0 = 10) then Some val
              else None)"

subsection \<open>What it accepts\<close>

text \<open>The value of a digit string, most significant digit first.\<close>

definition numeral_value :: "nat \<Rightarrow> string \<Rightarrow> nat" where
  "numeral_value base ds = foldl (\<lambda>v c. v * base + unat (digit_value (chr c))) 0 ds"

definition is_digit_of :: "u32 \<Rightarrow> char \<Rightarrow> bool" where
  "is_digit_of base c \<longleftrightarrow> isxdigit (chr c) \<and> digit_value (chr c) < base"

lemma strtoul_loop_spec:
  "strtoul_loop base (of_nat v) cp =
     (of_nat (foldl (\<lambda>v c. v * unat base + unat (digit_value (chr c))) v
                (takeWhile (is_digit_of base) cp)),
      dropWhile (is_digit_of base) cp)"
proof (induction cp arbitrary: v)
  case (Cons c cp)
  show ?case
    using Cons [of "v * unat base + unat (digit_value (chr c))"]
    by (auto simp: is_digit_of_def)
qed simp

lemma strtoul_loop_digits:
  "strtoul_loop base 0 cp =
     (of_nat (numeral_value (unat base) (takeWhile (is_digit_of base) cp)),
      dropWhile (is_digit_of base) cp)"
  using strtoul_loop_spec [of base 0 cp] by (simp add: numeral_value_def)

lemma newline_no_digit: "chr c = 10 \<Longrightarrow> \<not> is_digit_of base c"
  by (simp add: is_digit_of_def isxdigit_def isdigit_def)

lemma digits_then:
  "list_all (is_digit_of base) ds \<Longrightarrow> (rest = [] \<or> \<not> is_digit_of base (hd rest)) \<Longrightarrow>
     takeWhile (is_digit_of base) (ds @ rest) = ds \<and> dropWhile (is_digit_of base) (ds @ rest) = rest"
  by (cases rest) (auto simp: list_all_iff takeWhile_append2 dropWhile_append2)

lemma fixup_radix_suffix: "\<exists>pre. cp = pre @ fst (parse_integer_fixup_radix cp base)"
  by (auto simp: parse_integer_fixup_radix_def Let_def intro: exI [of _ "take 2 cp"])

text \<open>A command argument is accepted exactly when, after its radix prefix, it consists of
  digits of the radix followed by nothing or one newline, and is not empty; the value is
  that of the digits modulo \<open>2 ^ 32\<close>. An argument that is too large is accepted and
  wraps silently, and so is the bare prefix \<open>0x\<close> when the caller asks for base 16.\<close>

theorem strict_strtoul_accepts:
  "strict_strtoul cp base = Some v \<longleftrightarrow>
     (let (body, radix) = parse_integer_fixup_radix cp base
      in \<exists>ds rest. body = ds @ rest \<and> list_all (is_digit_of radix) ds \<and>
           (rest = [] \<or> (\<exists>c. rest = [c] \<and> chr c = 10)) \<and> length rest < length cp \<and>
           v = of_nat (numeral_value (unat radix) ds))"
proof -
  obtain body radix where b: "parse_integer_fixup_radix cp base = (body, radix)"
    by fastforce
  let ?ds = "takeWhile (is_digit_of radix) body" and ?rest = "dropWhile (is_digit_of radix) body"
  have "length ?rest \<le> length body" by (rule length_dropWhile_le)
  also have "length body \<le> length cp"
    using fixup_radix_suffix [of cp base] b by (metis fst_conv le_add2 length_append)
  finally have le: "length ?rest \<le> length cp" .
  have nl: "(?rest = [] \<or> length ?rest = 1 \<and> char_at ?rest 0 = 10) \<longleftrightarrow>
      (?rest = [] \<or> (\<exists>c. ?rest = [c] \<and> chr c = 10))"
    by (cases ?rest) (auto simp: char_at_def)
  have "strict_strtoul cp base = Some v \<longleftrightarrow>
      length ?rest < length cp \<and> (?rest = [] \<or> (\<exists>c. ?rest = [c] \<and> chr c = 10)) \<and>
      v = of_nat (numeral_value (unat radix) ?ds)"
    unfolding nl [symmetric] using le
    by (auto simp: strict_strtoul_def simple_strtoul_def b strtoul_loop_digits)
  also have "\<dots> \<longleftrightarrow> (\<exists>ds rest. body = ds @ rest \<and> list_all (is_digit_of radix) ds \<and>
           (rest = [] \<or> (\<exists>c. rest = [c] \<and> chr c = 10)) \<and> length rest < length cp \<and>
           v = of_nat (numeral_value (unat radix) ds))" (is "?l \<longleftrightarrow> ?r")
  proof
    assume ?l
    moreover have "list_all (is_digit_of radix) ?ds" by (auto simp: list_all_iff dest: set_takeWhileD)
    ultimately show ?r by (metis takeWhile_dropWhile_id)
  next
    assume ?r
    then obtain ds rest where d: "body = ds @ rest" "list_all (is_digit_of radix) ds"
      "rest = [] \<or> (\<exists>c. rest = [c] \<and> chr c = 10)" "length rest < length cp"
      "v = of_nat (numeral_value (unat radix) ds)" by blast
    then have "rest = [] \<or> \<not> is_digit_of radix (hd rest)" by (auto simp: newline_no_digit)
    from digits_then [OF d(2) this] d show ?l by simp
  qed
  finally show ?thesis by (simp add: b)
qed

lemma strict_strtoul_samples:
  "strict_strtoul ''0x1000'' 0 = Some 4096"
  "strict_strtoul ''0x'' 0 = None"
  "strict_strtoul ''0x'' 16 = Some 0"
  "strict_strtoul ''C0000000'' 16 = Some 0xC0000000"
  "strict_strtoul ''4294967297'' 0 = Some 1"
  "strict_strtoul ''12k'' 0 = None"
  by code_simp+

end
