(* ===== verification/DdrTestArgs.thy ===== *)
theory DdrTestArgs
  imports Memsize Strto
begin

text \<open>
  What the tests of the DDR share (ddr/stm32mp1_tests.c, first part): reading the command
  arguments, comparing one word, the progress dots that let the user interrupt, and the
  count of the test rounds. \<open>argv\<close> is the list of its strings and \<open>argc\<close> the length of
  the list. The C functions that return \<open>-1\<close> or a value through a pointer return an
  option; \<open>get_bufsize\<close> returns an option of that, because \<open>get_ram_size\<close> may have no
  defined result.
\<close>

datatype test_result = TEST_PASSED | TEST_FAILED | TEST_ERROR

definition STM32_DDR_BASE :: u32 where [reg_defs]: "STM32_DDR_BASE = 0xC0000000"

definition STM32_DDR_SIZE :: u32 where [reg_defs]: "STM32_DDR_SIZE = 0x40000000"

definition ADDR_INVALID :: u32 where [reg_defs]: "ADDR_INVALID = 0xFFFFFFFF"

subsection \<open>Command arguments\<close>

definition get_bufsize ::
  "'d platform \<Rightarrow> string list \<Rightarrow> nat \<Rightarrow> u32 \<Rightarrow> u32 \<Rightarrow> 'd sys \<Rightarrow> (u32 option \<times> 'd sys) option"
  where
  "get_bufsize h argv arg_nb default_size min_size s =
     (if length argv > arg_nb
      then let arg = argv ! arg_nb
           in case strict_strtoul arg 0 of
                None \<Rightarrow>
                  Some (None, sprintf ''invalid %d parameter %s'' [AInt (int arg_nb), AStr arg] s)
              | Some value \<Rightarrow>
                  if value > STM32_DDR_SIZE \<or> value < min_size
                  then Some (None, sprintf ''invalid size %s (min=%d)'' [AStr arg, AU32 min_size] s)
                  else if value AND 3 \<noteq> 0
                  then Some (None, sprintf ''unaligned size %s'' [AStr arg] s)
                  else Some (Some value, s)
      else if default_size \<noteq> STM32_DDR_SIZE
      then Some (Some default_size, s)
      else do { (n, s) \<leftarrow> get_ram_size h STM32_DDR_BASE STM32_DDR_SIZE s; Some (Some n, s) })"

definition get_nb_loop ::
  "string list \<Rightarrow> nat \<Rightarrow> u32 \<Rightarrow> 'd sys \<Rightarrow> u32 option \<times> 'd sys" where
  "get_nb_loop argv arg_nb default_nb_loop s =
     (if length argv > arg_nb
      then let arg = argv ! arg_nb
           in case strict_strtoul arg 0 of
                None \<Rightarrow> (None, sprintf ''invalid %d parameter %s'' [AInt (int arg_nb), AStr arg] s)
              | Some value \<Rightarrow> (Some value, s)
      else (Some default_nb_loop, s))"

definition get_addr :: "string list \<Rightarrow> nat \<Rightarrow> 'd sys \<Rightarrow> u32 option \<times> 'd sys" where
  "get_addr argv arg_nb s =
     (if length argv > arg_nb
      then let arg = argv ! arg_nb
           in case strict_strtoul arg 16 of
                None \<Rightarrow> (None, sprintf ''invalid %d parameter %s'' [AInt (int arg_nb), AStr arg] s)
              | Some value \<Rightarrow>
                  if value < STM32_DDR_BASE
                  then (None, sprintf ''too low address %s'' [AStr arg] s)
                  else if value AND 3 \<noteq> 0 \<and> value \<noteq> ADDR_INVALID
                  then (None, sprintf ''unaligned address %s'' [AStr arg] s)
                  else (Some value, s)
      else (Some STM32_DDR_BASE, s))"

definition get_pattern ::
  "string list \<Rightarrow> nat \<Rightarrow> u32 \<Rightarrow> 'd sys \<Rightarrow> u32 option \<times> 'd sys" where
  "get_pattern argv arg_nb default_pattern s =
     (if length argv > arg_nb
      then let arg = argv ! arg_nb
           in case strict_strtoul arg 16 of
                None \<Rightarrow> (None, sprintf ''invalid %d parameter %s'' [AInt (int arg_nb), AStr arg] s)
              | Some value \<Rightarrow> (Some value, s)
      else (Some default_pattern, s))"

subsection \<open>One word, one round\<close>

text \<open>\<open>True\<close> is the code's \<open>-1\<close>. After a mismatch the word is read again for the report.\<close>

definition check_addr :: "'d platform \<Rightarrow> u32 \<Rightarrow> u32 \<Rightarrow> 'd sys \<Rightarrow> bool \<times> 'd sys" where
  "check_addr h addr value s =
     (let (data, s) = readl h addr s
      in if value \<noteq> data
         then let (data, s) = readl h addr s in (True, s)
         else (False, s))"

definition progress :: "'d platform \<Rightarrow> u32 \<Rightarrow> 'd sys \<Rightarrow> bool \<times> 'd sys" where
  "progress h offset s =
     (if offset AND 0xFFFFFF = 0
      then let (key, s) = ctrlc h s in if key then (True, s) else (False, s)
      else (False, s))"

text \<open>Returns whether the test ends, and the new count.\<close>

definition test_loop_end ::
  "'d platform \<Rightarrow> u32 \<Rightarrow> u32 \<Rightarrow> u32 \<Rightarrow> 'd sys \<Rightarrow> bool \<times> u32 \<times> 'd sys" where
  "test_loop_end h cnt nb_loop progress_step s =
     (let cnt = cnt + 1
      in if nb_loop \<noteq> 0 \<and> cnt \<ge> nb_loop then (True, cnt, s)
         else if cnt mod progress_step \<noteq> 0 then (False, cnt, s)
         else let (key, s) = ctrlc h s in (key, cnt, s))"

context dram begin

lemma progress_none [simp]:
  "fst (progress h x s) = False" "cells (snd (progress h x s)) = cells s"
  by (simp_all add: progress_def Let_def case_prod_beta)

lemma check_addr_reads [simp]:
  "x \<in> region \<Longrightarrow>
     fst (check_addr h x v s) = (view (decode x) (dev (cells s) (decode x)) \<noteq> v)"
  "x \<in> region \<Longrightarrow> cells (snd (check_addr h x v s)) = cells s"
  by (auto simp: check_addr_def Let_def case_prod_beta simp del: cells_sel)

lemma test_loop_end_simps [simp]:
  "fst (test_loop_end h cnt nb st s) = (nb \<noteq> 0 \<and> nb \<le> cnt + 1)"
  "fst (snd (test_loop_end h cnt nb st s)) = cnt + 1"
  "cells (snd (snd (test_loop_end h cnt nb st s))) = cells s"
  by (auto simp: test_loop_end_def Let_def case_prod_beta)

end

context buffer_dram begin

lemma check_word:
  "i < n \<Longrightarrow> word s i = v \<Longrightarrow> fst (check_addr h (a + 4 * of_nat i) v s) = (\<not> holds i v)"
  "i < n \<Longrightarrow> cells (snd (check_addr h (a + 4 * of_nat i) v s)) = cells s"
  using in_region by (simp_all add: word_def holds_def cell_def del: cells_sel)

lemma check_word_passes:
  assumes "i < n" "word s i = v" "holds i v"
  obtains s' where "check_addr h (a + 4 * of_nat i) v s = (False, s')" "cells s' = cells s"
    "word s' = word s"
proof -
  obtain e s' where c: "check_addr h (a + 4 * of_nat i) v s = (e, s')" by fastforce
  then have "cells s' = cells s" using check_word(2) [OF assms(1), of v s] by simp
  moreover have "\<not> e" using check_word(1) [OF assms(1,2)] assms(3) c by simp
  moreover have "word s' = word s" using \<open>cells s' = cells s\<close> by (rule word_cells)
  ultimately show thesis using that [of s'] c by simp
qed

end

subsection \<open>What the arguments become\<close>

text \<open>Whatever is typed, the size a test works with is at least the test's minimum, at most
  the 1 GB of the DDR window, and a multiple of four, and nothing is touched in memory to
  find it. Any other argument leaves the test with an error message.\<close>

theorem get_bufsize_bounds:
  assumes "get_bufsize h argv arg_nb default_size min_size s = Some (r, s')"
    and "min_size \<le> default_size" "default_size < STM32_DDR_SIZE" "default_size AND 3 = 0"
  shows "(case r of
            Some n \<Rightarrow> min_size \<le> n \<and> n \<le> STM32_DDR_SIZE \<and> n AND 3 = 0 \<and> s' = s
          | None \<Rightarrow> result_msg s' \<noteq> None \<and> s'\<lparr>result_msg := result_msg s\<rparr> = s)"
  using assms
  by (auto simp: get_bufsize_def sprintf_def Let_def split: if_splits option.splits)

theorem get_bufsize_bounds_witness:
  "get_bufsize (cell_ram sound_cell (\<lambda>a. a)) [''0x2000''] 0 0x1000 4 (boot_state (\<lambda>_. 0))
     = Some (Some 0x2000, boot_state (\<lambda>_. 0)) \<and>
   4 \<le> (0x2000 :: u32) \<and> (0x2000 :: u32) \<le> STM32_DDR_SIZE \<and> (0x2000 :: u32) AND 3 = 0"
proof -
  have r: "get_bufsize (cell_ram sound_cell (\<lambda>a. a)) [''0x2000''] 0 0x1000 4 (boot_state (\<lambda>_. 0))
     = Some (Some 0x2000, boot_state (\<lambda>_. 0))"
    by code_simp
  from get_bufsize_bounds [OF r] r show ?thesis by (simp add: reg_defs)
qed

end
