(* ===== verification/DdrLanes.thy ===== *)
theory DdrLanes
  imports DdrCtrl DdrTestArgs
begin

text \<open>
  What the software tuning of the DDR (ddr/stm32mp1_tuning.c, first part) is built from: the
  geometry of the memory read back from the address map of the controller, the delay
  settings of a byte lane in the PHY, and the built-in self test (BIST) that says whether a
  lane works with its present settings.

  Signed bytes (\<open>s8\<close>) are integers: the indices they hold stay between -2 and 8. A
  function that indexes \<open>dx_dll_phase\<close> has no result (\<open>None\<close>) outside its 7 entries.
\<close>

definition NUM_BYTES :: nat where [reg_defs]: "NUM_BYTES = 4"
definition MAX_DQS_PHASE_IDX :: int where [reg_defs]: "MAX_DQS_PHASE_IDX = 6"
definition MAX_DQS_UNIT_IDX :: int where [reg_defs]: "MAX_DQS_UNIT_IDX = 7"
definition MAX_GSL_IDX :: nat where [reg_defs]: "MAX_GSL_IDX = 5"
definition MAX_GPS_IDX :: nat where [reg_defs]: "MAX_GPS_IDX = 3"
definition idx_90deg :: int where [reg_defs]: "idx_90deg = 3"

definition dx_dll_phase :: "u8 list" where
  "dx_dll_phase = [3, 2, 1, 0, 14, 13, 12]"

subsection \<open>Geometry of the memory\<close>

definition DDRCTRL_MSTR_DATA_BUS_WIDTH_MASK :: u32 where [reg_defs]:
  "DDRCTRL_MSTR_DATA_BUS_WIDTH_MASK = 0x3000"
definition DDRCTRL_MSTR_DATA_BUS_WIDTH_HALF :: u32 where [reg_defs]:
  "DDRCTRL_MSTR_DATA_BUS_WIDTH_HALF = 0x1000"
definition DDRCTRL_MSTR_DATA_BUS_WIDTH_QUARTER :: u32 where [reg_defs]:
  "DDRCTRL_MSTR_DATA_BUS_WIDTH_QUARTER = 0x2000"

definition get_nb_bytes :: "'d platform \<Rightarrow> u32 \<Rightarrow> 'd sys \<Rightarrow> u8 \<times> 'd sys" where
  "get_nb_bytes h ctl s =
     (let (v, s) = readl h (ctl + ctl_mstr) s;
          data_bus = v AND DDRCTRL_MSTR_DATA_BUS_WIDTH_MASK;
          nb_bytes = 4
      in (if data_bus = DDRCTRL_MSTR_DATA_BUS_WIDTH_HALF then nb_bytes div 2
          else if data_bus = DDRCTRL_MSTR_DATA_BUS_WIDTH_QUARTER then nb_bytes div 4
          else nb_bytes, s))"

text \<open>A field of an address map register (\<open>(reg & GENMASK(lo + n - 1, lo)) >> lo\<close>); an address
  bit is in use when the field is at most \<open>in_use\<close>.\<close>

definition addrmap_field :: "u32 \<Rightarrow> nat \<Rightarrow> nat \<Rightarrow> u32" where
  "addrmap_field reg lo n = drop_bit lo (reg AND push_bit lo (2 ^ n - 1))"

definition count_bit :: "u32 \<Rightarrow> u32 \<Rightarrow> u8 \<Rightarrow> u8" where
  "count_bit val in_use bits = (if val \<le> in_use then bits + 1 else bits)"

definition get_nb_bank :: "'d platform \<Rightarrow> u32 \<Rightarrow> 'd sys \<Rightarrow> u8 \<times> 'd sys" where
  "get_nb_bank h ctl s =
     (let bits = 0;
          (reg, s) = readl h (ctl + ctl_addrmap1) s;
          bits = count_bit (addrmap_field reg 0 6) 31 bits;
          bits = count_bit (addrmap_field reg 8 6) 31 bits;
          bits = count_bit (addrmap_field reg 16 6) 31 bits
      in (bits, s))"

definition get_nb_col :: "'d platform \<Rightarrow> u32 \<Rightarrow> 'd sys \<Rightarrow> u8 \<times> 'd sys" where
  "get_nb_col h ctl s =
     (let bits = 2;
          (reg, s) = readl h (ctl + ctl_addrmap2) s;
          bits = count_bit (addrmap_field reg 0 4) 7 bits;
          bits = count_bit (addrmap_field reg 8 4) 7 bits;
          bits = count_bit (addrmap_field reg 16 4) 7 bits;
          bits = count_bit (addrmap_field reg 24 4) 7 bits;
          (reg, s) = readl h (ctl + ctl_addrmap3) s;
          bits = count_bit (addrmap_field reg 0 4) 7 bits;
          bits = count_bit (addrmap_field reg 8 4) 7 bits;
          bits = count_bit (addrmap_field reg 16 4) 7 bits;
          bits = count_bit (addrmap_field reg 24 4) 7 bits;
          (reg, s) = readl h (ctl + ctl_addrmap4) s;
          bits = count_bit (addrmap_field reg 0 4) 7 bits;
          bits = count_bit (addrmap_field reg 8 4) 7 bits
      in (bits, s))"

definition get_nb_row :: "'d platform \<Rightarrow> u32 \<Rightarrow> 'd sys \<Rightarrow> u8 \<times> 'd sys" where
  "get_nb_row h ctl s =
     (let bits = 0;
          (reg, s) = readl h (ctl + ctl_addrmap5) s;
          bits = count_bit (addrmap_field reg 0 4) 11 bits;
          bits = count_bit (addrmap_field reg 8 4) 11 bits;
          bits = (if addrmap_field reg 16 4 \<le> 11 then bits + 9 else bits);
          bits = count_bit (addrmap_field reg 24 4) 11 bits;
          (reg, s) = readl h (ctl + ctl_addrmap6) s;
          bits = count_bit (addrmap_field reg 0 4) 7 bits;
          bits = count_bit (addrmap_field reg 8 4) 7 bits;
          bits = count_bit (addrmap_field reg 16 4) 7 bits;
          bits = count_bit (addrmap_field reg 24 4) 7 bits
      in (bits, s))"

subsection \<open>Delay settings of a byte lane\<close>

definition itm_soft_reset :: "'d platform \<Rightarrow> u32 \<Rightarrow> 'd sys \<Rightarrow> 'd sys option" where
  "itm_soft_reset h phy s = stm32mp1_ddrphy_init h phy DDRPHYC_PIR_ITMSRST s"

definition DDRPHYC_DXNDQTR_DQDLY_SHIFT :: "u8 \<Rightarrow> nat" where
  "DDRPHYC_DXNDQTR_DQDLY_SHIFT bit_i = 4 * unat bit_i"
definition DDRPHYC_DXNDQTR_DQDLY_MASK :: u32 where [reg_defs]: "DDRPHYC_DXNDQTR_DQDLY_MASK = 0xF"
definition DDRPHYC_DXNDQTR_DQDLY_LOW_MASK :: u32 where [reg_defs]:
  "DDRPHYC_DXNDQTR_DQDLY_LOW_MASK = 3"
definition DDRPHYC_DXNDLLCR_SDPHASE_MASK :: u32 where [reg_defs]:
  "DDRPHYC_DXNDLLCR_SDPHASE_MASK = 0x3C000"
definition DDRPHYC_DXNDQSTR_DQSDLY_MASK :: u32 where [reg_defs]:
  "DDRPHYC_DXNDQSTR_DQSDLY_MASK = 0x700000"
definition DDRPHYC_DXNDQSTR_DQSNDLY_MASK :: u32 where [reg_defs]:
  "DDRPHYC_DXNDQSTR_DQSNDLY_MASK = 0x3800000"
definition DDRPHYC_DXNDQSTR_R0DGSL_MASK :: u32 where [reg_defs]: "DDRPHYC_DXNDQSTR_R0DGSL_MASK = 7"
definition DDRPHYC_DXNDQSTR_R0DGPS_MASK :: u32 where [reg_defs]:
  "DDRPHYC_DXNDQSTR_R0DGPS_MASK = 0x3000"

text \<open>The second read of the register, in \<open>pr_debug\<close>, is not compiled.\<close>

definition DQ_unit_index :: "'d platform \<Rightarrow> u32 \<Rightarrow> u8 \<Rightarrow> u8 \<Rightarrow> 'd sys \<Rightarrow> u8 \<times> 'd sys" where
  "DQ_unit_index h phy byte bit_i s =
     (let addr = DXNDQTR phy byte;
          (v, s) = readl h addr s;
          index = drop_bit (DDRPHYC_DXNDQTR_DQDLY_SHIFT bit_i) v AND DDRPHYC_DXNDQTR_DQDLY_LOW_MASK
      in (ucast index, s))"

definition DQS_phase_delay ::
  "'d platform \<Rightarrow> u32 \<Rightarrow> u8 \<Rightarrow> u8 \<Rightarrow> 'd sys \<Rightarrow> 'd sys option" where
  "DQS_phase_delay h phy byte phase_idx s =
     (if unat phase_idx < length dx_dll_phase
      then let sdphase_val = dx_dll_phase ! unat phase_idx
           in Some (clrsetbits_le32 h (DXNDLLCR phy byte) DDRPHYC_DXNDLLCR_SDPHASE_MASK
                      (push_bit 14 (u8_to_u32 sdphase_val)) s)
      else None)"

definition DQS_unit_delay ::
  "'d platform \<Rightarrow> u32 \<Rightarrow> u8 \<Rightarrow> u8 \<Rightarrow> 'd sys \<Rightarrow> 'd sys option" where
  "DQS_unit_delay h phy byte unit_dly_idx s =
     (let s = clrsetbits_le32 h (DXNDQSTR phy byte)
                (DDRPHYC_DXNDQSTR_DQSDLY_MASK OR DDRPHYC_DXNDQSTR_DQSNDLY_MASK)
                (push_bit 20 (u8_to_u32 unit_dly_idx) OR push_bit 23 (u8_to_u32 unit_dly_idx)) s
      in stm32mp1_ddrphy_init h phy DDRPHYC_PIR_ITMSRST s)"

text \<open>The promoted byte is shifted as an \<open>int\<close>; for bit 7 the result is the same 32 bits.\<close>

definition set_DQ_unit_delay ::
  "'d platform \<Rightarrow> u32 \<Rightarrow> u8 \<Rightarrow> u8 \<Rightarrow> u8 \<Rightarrow> 'd sys \<Rightarrow> 'd sys" where
  "set_DQ_unit_delay h phy byte bit_i dq_delay_index s =
     (let dq_bit_delay_val = dq_delay_index OR push_bit 2 dq_delay_index
      in clrsetbits_le32 h (DXNDQTR phy byte)
           (push_bit (DDRPHYC_DXNDQTR_DQDLY_SHIFT bit_i) DDRPHYC_DXNDQTR_DQDLY_MASK)
           (push_bit (DDRPHYC_DXNDQTR_DQDLY_SHIFT bit_i) (u8_to_u32 dq_bit_delay_val)) s)"

definition set_r0dgsl_delay :: "'d platform \<Rightarrow> u32 \<Rightarrow> u8 \<Rightarrow> u8 \<Rightarrow> 'd sys \<Rightarrow> 'd sys" where
  "set_r0dgsl_delay h phy byte r0dgsl_idx s =
     clrsetbits_le32 h (DXNDQSTR phy byte) DDRPHYC_DXNDQSTR_R0DGSL_MASK (u8_to_u32 r0dgsl_idx) s"

definition set_r0dgps_delay :: "'d platform \<Rightarrow> u32 \<Rightarrow> u8 \<Rightarrow> u8 \<Rightarrow> 'd sys \<Rightarrow> 'd sys" where
  "set_r0dgps_delay h phy byte r0dgps_idx s =
     clrsetbits_le32 h (DXNDQSTR phy byte) DDRPHYC_DXNDQSTR_R0DGPS_MASK
       (push_bit 12 (u8_to_u32 r0dgps_idx)) s"

subsection \<open>The built-in self test\<close>

definition config_BIST :: "'d platform \<Rightarrow> u32 \<Rightarrow> u32 \<Rightarrow> 'd sys \<Rightarrow> 'd sys" where
  "config_BIST h ctl phy s =
     (let (nb_bank, s) = get_nb_bank h ctl s;
          (nb_row, s) = get_nb_row h ctl s;
          (nb_col, s) = get_nb_col h ctl s;
          bbank = 0; brow = 0; bcol = 0;
          bainc = 8;
          bmrank = 0; brank = 0;
          bmbank = push_bit (unat nb_bank) 1 - 1;
          bmrow = push_bit (unat nb_row) 1 - 1;
          bmcol = push_bit (unat nb_col) 1 - 1;
          bmode_conf = 1; bdxen_conf = 1; bdpat_conf = 2;
          s = writel h 3 (phy + phy_bistrr) s;
          s = writel h (push_bit 3 bmode_conf OR push_bit 14 bdxen_conf OR push_bit 17 bdpat_conf)
                (phy + phy_bistrr) s;
          s = writel h 0x200 (phy + phy_bistwcr) s;
          s = writel h (bcol OR push_bit 12 brow OR push_bit 28 bbank) (phy + phy_bistar0) s;
          s = writel h (brank OR push_bit 2 bmrank OR push_bit 4 bainc) (phy + phy_bistar1) s
      in writel h (bmcol OR push_bit 12 bmrow OR push_bit 28 bmbank) (phy + phy_bistar2) s)"

definition DDRPHYC_BISTRR_BDXSEL_MASK :: u32 where [reg_defs]:
  "DDRPHYC_BISTRR_BDXSEL_MASK = 0x780000"
definition DDRPHYC_BISTGSR_BDDONE :: u32 where [reg_defs]: "DDRPHYC_BISTGSR_BDDONE = 1"
definition DDRPHYC_BISTGSR_BDXERR :: u32 where [reg_defs]: "DDRPHYC_BISTGSR_BDXERR = 4"

definition BIST_datx8_sel :: "'d platform \<Rightarrow> u32 \<Rightarrow> u8 \<Rightarrow> 'd sys \<Rightarrow> 'd sys" where
  "BIST_datx8_sel h phy datx8 s =
     clrsetbits_le32 h (phy + phy_bistrr) DDRPHYC_BISTRR_BDXSEL_MASK
       (push_bit 19 (u8_to_u32 datx8)) s"

text \<open>One run: the code between the label \<open>run\<close> and the count. The time-out branch is
  modelled although no poll times out.\<close>

definition BIST_run :: "'d platform \<Rightarrow> u32 \<Rightarrow> 'd sys \<Rightarrow> (bool \<times> 'd sys) option" where
  "BIST_run h phy s =
     do { s \<leftarrow> itm_soft_reset h phy s;
          let s = clrsetbits_le32 h (phy + phy_bistrr) 7 3 s;
          let (seed, s) = (if bist_seed s \<noteq> 0 then (bist_seed s, s) else rand s);
          let s = writel h seed (phy + phy_bistlsr) s;
          let s = udelay h 10 s;
          let s = clrsetbits_le32 h (phy + phy_bistrr) 7 1 s;
          (ret, val, s) \<leftarrow> readl_poll_timeout h (phy + phy_bistgsr)
                            (\<lambda>val. val AND DDRPHYC_BISTGSR_BDDONE \<noteq> 0) 1000 s;
          if ret < 0
          then Some (False, clrsetbits_le32 h (phy + phy_bistrr) 7 2 s)
          else let (wcsr, s) = readl h (phy + phy_bistwcsr) s;
                   (wcr, s) = readl h (phy + phy_bistwcr) s
               in if drop_bit 16 wcsr = wcr
                  then let (gsr, s) = readl h (phy + phy_bistgsr) s
                       in Some (gsr AND DDRPHYC_BISTGSR_BDXERR = 0, s)
                  else Some (False, s) }"

definition BIST_step ::
  "'d platform \<Rightarrow> u32 \<Rightarrow> u32 \<times> u32 \<times> 'd sys \<Rightarrow>
     (bool \<times> 'd sys + u32 \<times> u32 \<times> 'd sys) option" where
  "BIST_step h phy = (\<lambda>(cnt, error, s).
     do { (result, s) \<leftarrow> BIST_run h phy s;
          let cnt = cnt + 1;
          if result \<and> cnt \<noteq> 1000 then Some (Inr (cnt, error, s))
          else let error = (if result then error else error + 1)
               in Some (if error < u8_to_u32 (bist_error_max s)
                        then if cnt \<noteq> 1000 then Inr (cnt, error, s) else Inl (True, s)
                        else Inl (False, s)) })"

definition BIST_test :: "'d platform \<Rightarrow> u32 \<Rightarrow> u8 \<Rightarrow> 'd sys \<Rightarrow> (bool \<times> 'd sys) option" where
  "BIST_test h phy byte s = loop (BIST_step h phy) (0, 0, s)"

subsection \<open>Geometry: bounds\<close>

lemma count_bit_le:
  "unat bits \<le> k - 1 \<Longrightarrow> 0 < k \<Longrightarrow> k \<le> 255 \<Longrightarrow> unat (count_bit v m bits) \<le> k"
  by (auto simp: count_bit_def unat_word_ariths)

lemma get_nb_bank_le: "unat (fst (get_nb_bank h ctl s)) \<le> 3"
  by (simp only: get_nb_bank_def Let_def split_def fst_conv) (rule count_bit_le | simp)+

lemma get_nb_col_bounds: "unat (fst (get_nb_col h ctl s)) \<le> 12"
  by (simp only: get_nb_col_def Let_def split_def fst_conv) (rule count_bit_le | simp)+

lemma get_nb_row_le: "unat (fst (get_nb_row h ctl s)) \<le> 16"
proof -
  have nine: "unat b \<le> 2 \<Longrightarrow> k = 11 \<Longrightarrow> unat (if c then b + 9 else b) \<le> k" for b :: u8 and c k
    by (auto simp: unat_word_ariths)
  show ?thesis
    by (simp only: get_nb_row_def Let_def split_def fst_conv)
      (rule count_bit_le | rule nine | simp)+
qed

text \<open>Packing the three limits of the address into BISTAR2 loses nothing.\<close>

lemma bistar2_fields:
  fixes c r b :: nat
  assumes "c \<le> 12" "r \<le> 16" "b \<le> 3"
  shows "take_bit 12 ((2 ^ c - 1 :: u32) OR push_bit 12 (2 ^ r - 1) OR push_bit 28 (2 ^ b - 1)) = 2 ^ c - 1"
    "take_bit 16 (drop_bit 12 ((2 ^ c - 1 :: u32) OR push_bit 12 (2 ^ r - 1) OR push_bit 28 (2 ^ b - 1))) = 2 ^ r - 1"
    "drop_bit 28 ((2 ^ c - 1 :: u32) OR push_bit 12 (2 ^ r - 1) OR push_bit 28 (2 ^ b - 1)) = 2 ^ b - 1"
  unfolding mask_eq_exp_minus_1 [symmetric] using assms
  by (intro bit_word_eqI; auto simp: bit_simps)+

subsection \<open>The registers of a lane\<close>

lemma lane_cases: "byte < (4 :: u8) \<Longrightarrow> byte = 0 \<or> byte = 1 \<or> byte = 2 \<or> byte = 3"
proof -
  assume "byte < 4"
  then have "unat byte < 4" by (simp add: word_less_nat_alt)
  then have "unat byte = 0 \<or> unat byte = 1 \<or> unat byte = 2 \<or> unat byte = 3" by linarith
  then show ?thesis by (simp add: word_unat_eq_iff)
qed

lemma phy_not_status [simp]:
  "DDRPHYC_BASE + phy_pgcr \<notin> ddr_status" "DDRPHYC_BASE + phy_bistrr \<notin> ddr_status"
  "DDRPHYC_BASE + phy_bistwcr \<notin> ddr_status" "DDRPHYC_BASE + phy_bistlsr \<notin> ddr_status"
  "DDRPHYC_BASE + phy_bistar0 \<notin> ddr_status" "DDRPHYC_BASE + phy_bistar1 \<notin> ddr_status"
  "DDRPHYC_BASE + phy_bistar2 \<notin> ddr_status"
  "DDRPHYC_BASE + phy_dx0gcr \<notin> ddr_status" "DDRPHYC_BASE + phy_dx1gcr \<notin> ddr_status"
  "DDRPHYC_BASE + phy_dx2gcr \<notin> ddr_status" "DDRPHYC_BASE + phy_dx3gcr \<notin> ddr_status"
  by (simp_all add: ddr_status_def reg_defs)

lemma lane_not_status [simp]:
  assumes "byte < 4"
  shows "DXNGCR DDRPHYC_BASE byte \<notin> ddr_status" "DXNDLLCR DDRPHYC_BASE byte \<notin> ddr_status"
    "DXNDQTR DDRPHYC_BASE byte \<notin> ddr_status" "DXNDQSTR DDRPHYC_BASE byte \<notin> ddr_status"
  using lane_cases [OF assms] by (auto simp: ddr_status_def reg_defs)

text \<open>The registers of one lane and those of the controls are apart.\<close>

lemma lane_regs_apart:
  assumes "byte < 4" "byte' < 4"
  shows "DXNDLLCR DDRPHYC_BASE byte \<noteq> DXNDQTR DDRPHYC_BASE byte'"
    "DXNDLLCR DDRPHYC_BASE byte \<noteq> DXNDQSTR DDRPHYC_BASE byte'"
    "DXNDQTR DDRPHYC_BASE byte \<noteq> DXNDQSTR DDRPHYC_BASE byte'"
    "DXNGCR DDRPHYC_BASE byte \<noteq> DXNDLLCR DDRPHYC_BASE byte'"
    "DXNGCR DDRPHYC_BASE byte \<noteq> DXNDQTR DDRPHYC_BASE byte'"
    "DXNGCR DDRPHYC_BASE byte \<noteq> DXNDQSTR DDRPHYC_BASE byte'"
  using lane_cases [OF assms(1)] lane_cases [OF assms(2)] by (auto simp: reg_defs)

subsection \<open>The verdict of the self test\<close>

text \<open>The results of \<open>n\<close> runs in a row.\<close>

fun bist_runs :: "'d platform \<Rightarrow> u32 \<Rightarrow> nat \<Rightarrow> 'd sys \<Rightarrow> (bool list \<times> 'd sys) option" where
  "bist_runs h phy 0 s = Some ([], s)"
| "bist_runs h phy (Suc n) s =
     do { (r, s) \<leftarrow> BIST_run h phy s; (rs, s) \<leftarrow> bist_runs h phy n s; Some (r # rs, s) }"

definition failures :: "bool list \<Rightarrow> nat" where
  "failures rs = length (filter Not rs)"

lemma failures_Cons [simp]: "failures [] = 0" "failures (r # rs) = (if r then failures rs else Suc (failures rs))"
  by (simp_all add: failures_def)

lemma readl_error_max: "readl h a s = (v, s') \<Longrightarrow> bist_error_max s' = bist_error_max s"
  using bus_other_state(1) [of h a s] by simp

lemma poll_error_max:
  assumes "readl_poll_timeout h a c t s = Some (ret, v, s')"
  shows "bist_error_max s' = bist_error_max s"
proof -
  let ?Q = "\<lambda>(ret :: int, v :: u32, s'). bist_error_max s' = bist_error_max s"
  have "?Q (ret, v, s')"
    by (rule loop_partial [OF assms [unfolded readl_poll_timeout_def Let_def],
          where I = "\<lambda>s'. bist_error_max s' = bist_error_max s"])
      (auto simp: time_after_def split_def dest: readl_error_max split: if_splits prod.splits)
  then show ?thesis by simp
qed

lemma ddrphy_init_error_max:
  assumes "stm32mp1_ddrphy_init h phy pir s = Some s'"
  shows "bist_error_max s' = bist_error_max s"
proof -
  obtain s1 where idone: "ddrphy_idone_wait h phy s1 = Some s'"
    and s1: "bist_error_max s1 = bist_error_max s"
    using assms by (auto simp: stm32mp1_ddrphy_init_def Let_def split_def)
  show ?thesis
    by (rule loop_partial [OF idone [unfolded ddrphy_idone_wait_def],
          where I = "\<lambda>(e, s'). bist_error_max s' = bist_error_max s"])
      (auto simp: s1 Let_def dest: readl_error_max split: if_splits prod.splits)
qed

lemma BIST_run_error_max:
  "BIST_run h phy s = Some (r, s') \<Longrightarrow> bist_error_max s' = bist_error_max s"
  by (auto simp: BIST_run_def itm_soft_reset_def Let_def split_def bind_eq_Some_conv
      dest!: poll_error_max ddrphy_init_error_max split: if_splits)

lemma BIST_loop:
  assumes "bist_runs h phy n s = Some (rs, t)" "0 < n" "n \<le> 1000"
    and "unat error < unat (bist_error_max s) \<or> error = 0" "unat error \<le> 1000 - n"
  shows "\<exists>k s'. 0 < k \<and> k \<le> n \<and> bist_runs h phy k s = Some (take k rs, s') \<and>
     loop (BIST_step h phy) (of_nat (1000 - n), error, s) =
       Some (unat error + failures rs < unat (bist_error_max s), s')"
  using assms
proof (induction n arbitrary: s rs error)
  case (Suc m)
  obtain r s1 rs' where run: "BIST_run h phy s = Some (r, s1)"
    and runs: "bist_runs h phy m s1 = Some (rs', t)" and rs: "rs = r # rs'"
    using Suc.prems(1) by (auto simp: bind_eq_Some_conv)
  have max1: "bist_error_max s1 = bist_error_max s" using BIST_run_error_max [OF run] .
  have err: "unat (error + 1) = Suc (unat error)"
    using Suc.prems(3,5) by (simp add: unat_word_ariths)
  have cnt: "of_nat (1000 - Suc m) + 1 = (of_nat (1000 - m) :: u32)"
    using Suc.prems(3) by (metis Suc_diff_le diff_Suc_Suc of_nat_Suc add.commute)
  have cnt_m: "(of_nat (1000 - m) :: u32) = 1000 \<longleftrightarrow> m = 0"
  proof -
    have "unat (of_nat (1000 - m) :: u32) = 1000 - m" by (simp add: unat_of_nat)
    then show ?thesis using Suc.prems(3) by (auto simp: word_unat_eq_iff)
  qed
  define e2 where "e2 = (if r then error else error + 1)"
  have e2: "unat e2 + failures rs' = unat error + failures rs"
    using err by (simp add: e2_def rs)
  have step: "BIST_step h phy (of_nat (1000 - Suc m), error, s) =
      (if r \<and> m \<noteq> 0 then Some (Inr (of_nat (1000 - m), error, s1))
       else Some (if unat e2 < unat (bist_error_max s)
                  then if m \<noteq> 0 then Inr (of_nat (1000 - m), e2, s1) else Inl (True, s1)
                  else Inl (False, s1)))"
  proof -
    have mx: "unat (u8_to_u32 (bist_error_max s)) = unat (bist_error_max s)"
      by (simp add: unsigned_ucast_eq take_bit_nat_eq_self_iff order.strict_trans [OF unsigned_less])
    obtain c c1 :: u32 where c: "c = of_nat (1000 - Suc m)" "c1 = of_nat (1000 - m)"
      by blast
    have c1: "c + 1 = c1" using cnt c by simp
    have c1': "c1 = 1000 \<longleftrightarrow> m = 0" using cnt_m c by simp
    then have "c + 1 = 1000 \<longleftrightarrow> m = 0" using c1 by simp
    then have "c = 999 \<longleftrightarrow> m = 0" by simp
    then show ?thesis
      unfolding c [symmetric] using c1 c1' run max1 mx
      by (simp add: BIST_step_def e2_def Let_def word_less_nat_alt)
  qed
  show ?case
  proof (cases "m \<noteq> 0 \<and> (r \<or> unat e2 < unat (bist_error_max s))")
    case True
    then have "BIST_step h phy (of_nat (1000 - Suc m), error, s) =
        Some (Inr (of_nat (1000 - m), e2, s1))"
      using step by (auto simp: e2_def split: if_splits)
    then have l: "loop (BIST_step h phy) (of_nat (1000 - Suc m), error, s) =
        loop (BIST_step h phy) (of_nat (1000 - m), e2, s1)"
      by (rule loop_Inr)
    have "unat e2 < unat (bist_error_max s1) \<or> e2 = 0" "unat e2 \<le> 1000 - m"
      using True Suc.prems(3-5) max1 err by (auto simp: e2_def)
    moreover have "0 < m" "m \<le> 1000" using True Suc.prems(3) by simp_all
    ultimately have "\<exists>k s'. 0 < k \<and> k \<le> m \<and> bist_runs h phy k s1 = Some (take k rs', s') \<and>
      loop (BIST_step h phy) (of_nat (1000 - m), e2, s1) =
        Some (unat e2 + failures rs' < unat (bist_error_max s1), s')"
      using Suc.IH [OF runs] by blast
    then obtain k s' where "0 < k" "k \<le> m" "bist_runs h phy k s1 = Some (take k rs', s')"
      "loop (BIST_step h phy) (of_nat (1000 - m), e2, s1) =
        Some (unat e2 + failures rs' < unat (bist_error_max s1), s')"
      by blast
    then have "0 < Suc k \<and> Suc k \<le> Suc m \<and> bist_runs h phy (Suc k) s = Some (take (Suc k) rs, s') \<and>
      loop (BIST_step h phy) (of_nat (1000 - Suc m), error, s) =
        Some (unat error + failures rs < unat (bist_error_max s), s')"
      unfolding l e2 [symmetric] using max1 run rs by simp
    then show ?thesis by blast
  next
    case False
    have "failures rs' = 0 \<or> \<not> unat e2 < unat (bist_error_max s)"
    proof (cases "m = 0")
      case True
      then show ?thesis using runs by simp
    qed (use False in simp)
    then have "BIST_step h phy (of_nat (1000 - Suc m), error, s) =
        Some (Inl (unat error + failures rs < unat (bist_error_max s), s1))"
      using False step e2 by auto
    then have "loop (BIST_step h phy) (of_nat (1000 - Suc m), error, s) =
        Some (unat error + failures rs < unat (bist_error_max s), s1)"
      by (rule loop_Inl)
    then show ?thesis using run rs by (intro exI [of _ 1] exI [of _ s1]) simp
  qed
qed simp

lemma BIST_test_counts:
  assumes "bist_runs h phy 1000 s = Some (rs, t)"
  shows "\<exists>k s'. 0 < k \<and> k \<le> 1000 \<and> bist_runs h phy k s = Some (take k rs, s') \<and>
     BIST_test h phy byte s = Some (failures rs < unat (bist_error_max s), s')"
  using BIST_loop [OF assms, of 0] by (simp add: BIST_test_def)

subsection \<open>Delays as register fields\<close>

definition set_phase :: "nat \<Rightarrow> u32 \<Rightarrow> u32" where
  "set_phase p dllcr =
     (dllcr AND NOT DDRPHYC_DXNDLLCR_SDPHASE_MASK) OR push_bit 14 (u8_to_u32 (dx_dll_phase ! p))"

definition set_units :: "u8 \<Rightarrow> u32 \<Rightarrow> u32" where
  "set_units u dqstr =
     (dqstr AND NOT (DDRPHYC_DXNDQSTR_DQSDLY_MASK OR DDRPHYC_DXNDQSTR_DQSNDLY_MASK)) OR
     (push_bit 20 (u8_to_u32 u) OR push_bit 23 (u8_to_u32 u))"

definition set_dq :: "u8 \<Rightarrow> u8 \<Rightarrow> u32 \<Rightarrow> u32" where
  "set_dq i d dqtr =
     (dqtr AND NOT (push_bit (DDRPHYC_DXNDQTR_DQDLY_SHIFT i) DDRPHYC_DXNDQTR_DQDLY_MASK)) OR
     push_bit (DDRPHYC_DXNDQTR_DQDLY_SHIFT i) (u8_to_u32 (d OR push_bit 2 d))"

text \<open>The delay of data bit \<open>j\<close> in DXNDQTR.\<close>

definition dq_delay :: "u8 \<Rightarrow> u32 \<Rightarrow> u8" where
  "dq_delay j dqtr = ucast (drop_bit (DDRPHYC_DXNDQTR_DQDLY_SHIFT j) dqtr AND DDRPHYC_DXNDQTR_DQDLY_LOW_MASK)"

lemma small_delay: "d \<le> (3 :: u8) \<Longrightarrow> \<exists>e. d = take_bit 2 e"
proof
  assume "d \<le> 3"
  then show "d = take_bit 2 d"
    by (simp add: take_bit_eq_mod word_unat_eq_iff unat_mod word_le_nat_alt)
qed

lemma dq_masks: "DDRPHYC_DXNDQTR_DQDLY_LOW_MASK = mask 2" "DDRPHYC_DXNDQTR_DQDLY_MASK = mask 4"
  by (simp_all add: reg_defs mask_eq_exp_minus_1)

lemma dq_delay_set_dq:
  assumes "i < 8" "j < 8" "d \<le> 3"
  shows "dq_delay j (set_dq i d w) = (if j = i then d else dq_delay j w)"
proof (rule bit_word_eqI)
  fix n assume n: "n < LENGTH(8)"
  have i: "unat i < 8" and j: "unat j < 8" using assms by (simp_all add: word_less_nat_alt)
  have ij: "i = j \<longleftrightarrow> unat i = unat j" by (simp add: word_unat_eq_iff)
  obtain e where d: "d = take_bit 2 e" using small_delay [OF assms(3)] by blast
  show "bit (dq_delay j (set_dq i d w)) n = bit (if j = i then d else dq_delay j w) n"
  proof (cases "n < 2")
    case True
    have 1: "4 * unat j + n < 32" using j True by simp
    have 2: "j \<noteq> i \<Longrightarrow> 4 * unat i \<le> 4 * unat j + n \<Longrightarrow> \<not> 4 * unat j + n - 4 * unat i < 4"
      using True ij by auto
    show ?thesis
    proof (cases "j = i")
      case True
      then show ?thesis using 1 n \<open>n < 2\<close> unfolding d
        by (auto simp: dq_delay_def set_dq_def dq_masks bit_simps DDRPHYC_DXNDQTR_DQDLY_SHIFT_def)
    next
      case False
      then show ?thesis using 1 2 n \<open>n < 2\<close> unfolding d
        by (auto simp: dq_delay_def set_dq_def dq_masks bit_simps DDRPHYC_DXNDQTR_DQDLY_SHIFT_def)
    qed
  next
    case False
    then show ?thesis unfolding d
      by (auto simp: dq_delay_def bit_simps dq_masks)
  qed
qed
subsection \<open>What a run of the self test touches\<close>

text \<open>The registers a run of the self test writes, and the lane it looks at.\<close>

definition bist_scratch :: "u32 set" where
  "bist_scratch = {DDRPHYC_BASE + phy_pir, DDRPHYC_BASE + phy_bistrr, DDRPHYC_BASE + phy_bistlsr}"

definition lane_sel :: "(u32 \<Rightarrow> u32) \<Rightarrow> u8" where
  "lane_sel r = ucast (drop_bit 19 (r (DDRPHYC_BASE + phy_bistrr) AND DDRPHYC_BISTRR_BDXSEL_MASK))"

definition same_setup :: "(u32 \<Rightarrow> u32) \<Rightarrow> (u32 \<Rightarrow> u32) \<Rightarrow> bool" where
  "same_setup r r' \<longleftrightarrow> lane_sel r' = lane_sel r \<and> (\<forall>a. a \<notin> bist_scratch \<longrightarrow> r' a = r a)"

lemma same_setup_refl [simp]: "same_setup r r"
  by (simp add: same_setup_def)

lemma same_setup_trans: "same_setup r r' \<Longrightarrow> same_setup r' r'' \<Longrightarrow> same_setup r r''"
  by (simp add: same_setup_def)

lemma lane_not_scratch [simp]:
  assumes "byte < 4"
  shows "DXNGCR DDRPHYC_BASE byte \<notin> bist_scratch" "DXNDLLCR DDRPHYC_BASE byte \<notin> bist_scratch"
    "DXNDQTR DDRPHYC_BASE byte \<notin> bist_scratch" "DXNDQSTR DDRPHYC_BASE byte \<notin> bist_scratch"
  using lane_cases [OF assms] by (auto simp: bist_scratch_def reg_defs)

lemma phy_not_scratch [simp]:
  "DDRPHYC_BASE + phy_bistwcr \<notin> bist_scratch" "DDRPHYC_BASE + phy_bistar2 \<notin> bist_scratch"
  "DDRPHYC_BASE + phy_pgcr \<notin> bist_scratch"
  by (simp_all add: bist_scratch_def reg_defs)

lemma bdxsel_mask: "DDRPHYC_BISTRR_BDXSEL_MASK = push_bit 19 (mask 4)"
  by (simp add: reg_defs mask_eq_exp_minus_1)

lemma lane_sel_low:
  assumes "v \<le> 7"
  shows "lane_sel (r(DDRPHYC_BASE + phy_bistrr := (r (DDRPHYC_BASE + phy_bistrr) AND NOT 7) OR v)) = lane_sel r"
proof -
  have "take_bit 3 v = v"
    using assms by (simp add: take_bit_eq_mod word_unat_eq_iff unat_mod word_le_nat_alt)
  then obtain w where v: "v = take_bit 3 w" by metis
  have 7: "(7 :: u32) = mask 3" by (simp add: mask_eq_exp_minus_1)
  have "((x AND NOT 7) OR v) AND DDRPHYC_BISTRR_BDXSEL_MASK = x AND DDRPHYC_BISTRR_BDXSEL_MASK" for x
    unfolding bdxsel_mask v 7 by (rule bit_word_eqI) (auto simp: bit_simps)
  then show ?thesis by (simp only: lane_sel_def fun_upd_same)
qed

lemma lane_sel_other: "a \<noteq> DDRPHYC_BASE + phy_bistrr \<Longrightarrow> lane_sel (r(a := v)) = lane_sel r"
  by (simp add: lane_sel_def)

lemma lane_sel_datx8:
  assumes "byte < 4"
  shows "lane_sel (r(DDRPHYC_BASE + phy_bistrr :=
    (r (DDRPHYC_BASE + phy_bistrr) AND NOT DDRPHYC_BISTRR_BDXSEL_MASK) OR push_bit 19 (u8_to_u32 byte))) = byte"
proof -
  have "take_bit 4 byte = byte"
    using lane_cases [OF assms] by auto
  then obtain w where b: "byte = take_bit 4 w" by metis
  show ?thesis unfolding lane_sel_def fun_upd_same bdxsel_mask
    by (subst (2) b, rule bit_word_eqI) (auto simp: bit_simps b)
qed
subsection \<open>The operations on the register file\<close>

context ddr_regs
begin

lemma nb_bytes_R [simp]: "R (snd (get_nb_bytes h DDRCTRL_BASE s)) = R s"
  and nb_bank_R [simp]: "R (snd (get_nb_bank h DDRCTRL_BASE s)) = R s"
  and nb_col_R [simp]: "R (snd (get_nb_col h DDRCTRL_BASE s)) = R s"
  and nb_row_R [simp]: "R (snd (get_nb_row h DDRCTRL_BASE s)) = R s"
  by (simp_all add: get_nb_bytes_def get_nb_bank_def get_nb_col_def get_nb_row_def Let_def split_def)

lemma geometry_cong:
  assumes "R s' = R s"
  shows "fst (get_nb_bank h DDRCTRL_BASE s') = fst (get_nb_bank h DDRCTRL_BASE s)"
    "fst (get_nb_col h DDRCTRL_BASE s') = fst (get_nb_col h DDRCTRL_BASE s)"
    "fst (get_nb_row h DDRCTRL_BASE s') = fst (get_nb_row h DDRCTRL_BASE s)"
  using assms by (simp_all add: get_nb_bank_def get_nb_col_def get_nb_row_def Let_def split_def)

lemma other_state_geometry [simp]:
  "bist_error_max (snd (get_nb_bytes h ctl s)) = bist_error_max s"
  "bist_error_max (snd (get_nb_bank h ctl s)) = bist_error_max s"
  "bist_error_max (snd (get_nb_col h ctl s)) = bist_error_max s"
  "bist_error_max (snd (get_nb_row h ctl s)) = bist_error_max s"
  "bist_error_max (config_BIST h ctl phy s) = bist_error_max s"
  by (simp_all add: get_nb_bytes_def get_nb_bank_def get_nb_col_def get_nb_row_def config_BIST_def
      Let_def split_def)

lemma config_BIST_R:
  "R (config_BIST h DDRCTRL_BASE DDRPHYC_BASE s) =
     (R s)(DDRPHYC_BASE + phy_bistrr := 0x44008, DDRPHYC_BASE + phy_bistwcr := 0x200,
           DDRPHYC_BASE + phy_bistar0 := 0, DDRPHYC_BASE + phy_bistar1 := 0x80,
           DDRPHYC_BASE + phy_bistar2 :=
             (2 ^ unat (fst (get_nb_col h DDRCTRL_BASE s)) - 1) OR
             push_bit 12 (2 ^ unat (fst (get_nb_row h DDRCTRL_BASE s)) - 1) OR
             push_bit 28 (2 ^ unat (fst (get_nb_bank h DDRCTRL_BASE s)) - 1))"
proof -
  define c r b where "c = fst (get_nb_col h DDRCTRL_BASE s)"
    and "r = fst (get_nb_row h DDRCTRL_BASE s)" and "b = fst (get_nb_bank h DDRCTRL_BASE s)"
  define s1 where "s1 = snd (get_nb_bank h DDRCTRL_BASE s)"
  define s2 where "s2 = snd (get_nb_row h DDRCTRL_BASE s1)"
  define s3 where "s3 = snd (get_nb_col h DDRCTRL_BASE s2)"
  have 1: "get_nb_bank h DDRCTRL_BASE s = (b, s1)" "get_nb_row h DDRCTRL_BASE s1 = (r, s2)"
    "get_nb_col h DDRCTRL_BASE s2 = (c, s3)"
    using geometry_cong [of s1 s] geometry_cong [of s2 s]
    by (simp_all add: prod_eq_iff c_def r_def b_def s1_def s2_def s3_def)
  have R3: "R s3 = R s" by (simp add: s1_def s2_def s3_def)
  have c1: "2 ^ 3 OR 2 ^ 14 OR push_bit 17 2 = (0x44008 :: u32)"
    "0 OR push_bit 12 0 OR push_bit 28 0 = (0 :: u32)"
    "0 OR push_bit 2 0 OR push_bit 4 8 = (0x80 :: u32)"
    by (simp_all add: push_bit_eq_mult)
  have one: "push_bit n 1 = (2 ^ n :: u32)" for n by (simp add: push_bit_eq_mult)
  show ?thesis
    unfolding c_def [symmetric] r_def [symmetric] b_def [symmetric]
    unfolding config_BIST_def Let_def 1 prod.case one c1 R_writel R3 fun_upd_upd ..
qed

lemma phase_delay_R:
  assumes "byte < 4" "p < 7"
  shows "\<exists>s'. DQS_phase_delay h DDRPHYC_BASE byte (of_nat p) s = Some s' \<and>
     R s' = (R s)(DXNDLLCR DDRPHYC_BASE byte := set_phase p (R s (DXNDLLCR DDRPHYC_BASE byte))) \<and>
     bist_error_max s' = bist_error_max s"
proof -
  have "unat (of_nat p :: u8) = p" using assms by (simp add: unat_of_nat)
  then show ?thesis using assms by (simp add: DQS_phase_delay_def dx_dll_phase_def set_phase_def Let_def)
qed

lemma unit_delay_R:
  assumes "byte < 4"
  shows "\<exists>s'. DQS_unit_delay h DDRPHYC_BASE byte u s = Some s' \<and>
     R s' = (R s)(DXNDQSTR DDRPHYC_BASE byte := set_units u (R s (DXNDQSTR DDRPHYC_BASE byte)),
                  DDRPHYC_BASE + phy_pir := 0x11) \<and>
     bist_error_max s' = bist_error_max s"
proof -
  define s1 where "s1 = clrsetbits_le32 h (DXNDQSTR DDRPHYC_BASE byte)
    (DDRPHYC_DXNDQSTR_DQSDLY_MASK OR DDRPHYC_DXNDQSTR_DQSNDLY_MASK)
    (push_bit 20 (u8_to_u32 u) OR push_bit 23 (u8_to_u32 u)) s"
  have "R s1 = (R s)(DXNDQSTR DDRPHYC_BASE byte := set_units u (R s (DXNDQSTR DDRPHYC_BASE byte)))"
    "bist_error_max s1 = bist_error_max s"
    using assms by (simp_all add: s1_def set_units_def)
  moreover have "DDRPHYC_PIR_ITMSRST OR DDRPHYC_PIR_INIT = 0x11" by (simp add: reg_defs)
  ultimately show ?thesis
    using ddrphy_init_returns [of DDRPHYC_PIR_ITMSRST s1]
    by (simp add: DQS_unit_delay_def s1_def [symmetric])
qed

lemma DQ_unit_delay_R [simp]:
  assumes "byte < 4"
  shows "R (set_DQ_unit_delay h DDRPHYC_BASE byte i d s) =
     (R s)(DXNDQTR DDRPHYC_BASE byte := set_dq i d (R s (DXNDQTR DDRPHYC_BASE byte)))"
    "bist_error_max (set_DQ_unit_delay h DDRPHYC_BASE byte i d s) = bist_error_max s"
    "DQ_unit_index h DDRPHYC_BASE byte i s =
       (dq_delay i (R s (DXNDQTR DDRPHYC_BASE byte)), snd (readl h (DXNDQTR DDRPHYC_BASE byte) s))"
  using assms
  by (simp_all add: set_DQ_unit_delay_def set_dq_def DQ_unit_index_def dq_delay_def Let_def split_def)

lemma gating_R [simp]:
  assumes "byte < 4"
  shows "R (set_r0dgsl_delay h DDRPHYC_BASE byte g s) = (R s)(DXNDQSTR DDRPHYC_BASE byte :=
      (R s (DXNDQSTR DDRPHYC_BASE byte) AND NOT DDRPHYC_DXNDQSTR_R0DGSL_MASK) OR u8_to_u32 g)"
    "R (set_r0dgps_delay h DDRPHYC_BASE byte g s) = (R s)(DXNDQSTR DDRPHYC_BASE byte :=
      (R s (DXNDQSTR DDRPHYC_BASE byte) AND NOT DDRPHYC_DXNDQSTR_R0DGPS_MASK) OR push_bit 12 (u8_to_u32 g))"
    "bist_error_max (set_r0dgsl_delay h DDRPHYC_BASE byte g s) = bist_error_max s"
    "bist_error_max (set_r0dgps_delay h DDRPHYC_BASE byte g s) = bist_error_max s"
  using assms by (simp_all add: set_r0dgsl_delay_def set_r0dgps_delay_def)

end

end
