(* ===== verification/DdrLaneContract.thy ===== *)
theory DdrLaneContract
  imports DdrLanes
begin

text \<open>
  The interface between the self test and the searches of the software tuning. \<open>bist_phy\<close>
  is the contract of a PHY whose lanes work exactly within their eye; \<open>lane\<close> is what the
  searches rely on: setting a delay changes that delay only, and the verdict of
  \<open>BIST_test\<close> is a function of the settings. \<open>bist_lane\<close> shows that the first gives the
  second for each byte lane, and \<open>tuning_board\<close> is a device that keeps the contract.
\<close>

definition armed :: "(u32 \<Rightarrow> u32) \<Rightarrow> bool" where
  "armed r \<longleftrightarrow> lane_sel r < 4 \<and> r (DDRPHYC_BASE + phy_bistwcr) < 0x10000"

lemma armed_same: "same_setup r r' \<Longrightarrow> armed r \<Longrightarrow> armed r'"
  by (simp add: same_setup_def armed_def)

text \<open>The contract of the self test: it counts all its words, and finds an error exactly when
  the eye of the selected lane does not contain its present settings (DXNDLLCR, DXNDQTR,
  DXNDQSTR). At least one failing run is asked for.\<close>

locale bist_phy = ddr_regs h regs lag
  for h :: "'d platform" and regs lag +
  fixes eye :: "u8 \<Rightarrow> u32 \<Rightarrow> u32 \<Rightarrow> u32 \<Rightarrow> bool"
  assumes word_count: "regs d (DDRPHYC_BASE + phy_bistwcr) < 0x10000 \<Longrightarrow>
        drop_bit 16 (fst (rd32 h (DDRPHYC_BASE + phy_bistwcsr) d)) =
        regs d (DDRPHYC_BASE + phy_bistwcr)"
    and error_bit: "lane_sel (regs d) < 4 \<Longrightarrow>
        fst (rd32 h (DDRPHYC_BASE + phy_bistgsr) d) AND 4 = 0 \<longleftrightarrow>
        eye (lane_sel (regs d)) (regs d (DXNDLLCR DDRPHYC_BASE (lane_sel (regs d))))
          (regs d (DXNDQTR DDRPHYC_BASE (lane_sel (regs d))))
          (regs d (DXNDQSTR DDRPHYC_BASE (lane_sel (regs d))))"
begin

definition clean :: "(u32 \<Rightarrow> u32) \<Rightarrow> bool" where
  "clean r = eye (lane_sel r) (r (DXNDLLCR DDRPHYC_BASE (lane_sel r)))
     (r (DXNDQTR DDRPHYC_BASE (lane_sel r))) (r (DXNDQSTR DDRPHYC_BASE (lane_sel r)))"

lemma clean_same: "same_setup r r' \<Longrightarrow> armed r \<Longrightarrow> clean r' = clean r"
  by (simp add: same_setup_def clean_def armed_def)

lemma BIST_run_returns:
  assumes sel: "armed (R s)"
  shows "\<exists>s'. BIST_run h DDRPHYC_BASE s = Some (clean (R s), s') \<and> same_setup (R s) (R s') \<and>
     bist_error_max s' = bist_error_max s"
proof -
  let ?rr = "DDRPHYC_BASE + phy_bistrr"
  obtain s1 where s1: "itm_soft_reset h DDRPHYC_BASE s = Some s1"
    "R s1 = (R s)(DDRPHYC_BASE + phy_pir := DDRPHYC_PIR_ITMSRST OR DDRPHYC_PIR_INIT)"
    "bist_error_max s1 = bist_error_max s"
    using ddrphy_init_returns [of DDRPHYC_PIR_ITMSRST s] by (auto simp: itm_soft_reset_def)
  define s2 where "s2 = clrsetbits_le32 h ?rr 7 3 s1"
  obtain seed s3 where s3: "(if bist_seed s2 \<noteq> 0 then (bist_seed s2, s2) else rand s2) = (seed, s3)"
    by fastforce
  have R3: "R s3 = R s2" "bist_error_max s3 = bist_error_max s2"
    using s3 R_rand [of s2] bus_other_state(8) [of s2]
    by (cases "bist_seed s2 = 0"; cases "rand s2"; simp)+
  define s4 where "s4 = clrsetbits_le32 h ?rr 7 1
    (udelay h 10 (writel h seed (DDRPHYC_BASE + phy_bistlsr) s3))"
  obtain v s5 where s5: "readl_poll_timeout h (DDRPHYC_BASE + phy_bistgsr)
      (\<lambda>val. val AND DDRPHYC_BISTGSR_BDDONE \<noteq> 0) 1000 s4 = Some (0, v, s5)"
    "R s5 = R s4" "bist_error_max s5 = bist_error_max s4"
    using poll_returns [of "\<lambda>val. val AND DDRPHYC_BISTGSR_BDDONE \<noteq> 0" "DDRPHYC_BASE + phy_bistgsr"]
      bdone by (metis DDRPHYC_BISTGSR_BDDONE_def)
  have ne: "?rr \<noteq> DDRPHYC_BASE + phy_pir" "?rr \<noteq> DDRPHYC_BASE + phy_bistlsr"
    by (simp_all add: reg_defs)
  have 1: "same_setup (R s) (R s1)"
    using ne by (auto simp: s1 same_setup_def lane_sel_other bist_scratch_def)
  have 2: "same_setup (R s1) (R s2)"
    using lane_sel_low [of 3 "R s1"] by (auto simp: s2_def same_setup_def bist_scratch_def)
  have 4: "same_setup (R s2) (R s4)"
  proof -
    have "same_setup (R s2) ((R s2)(DDRPHYC_BASE + phy_bistlsr := seed))"
      using ne by (auto simp: same_setup_def lane_sel_other bist_scratch_def)
    moreover have "same_setup r (r(?rr := (r ?rr AND NOT 7) OR 1))" for r
      using lane_sel_low [of 1 r] by (auto simp: same_setup_def bist_scratch_def)
    ultimately show ?thesis using R3 by (auto simp: s4_def intro: same_setup_trans simp del: fun_upd_apply)
  qed
  have same: "same_setup (R s) (R s5)"
    using 1 2 4 s5 same_setup_trans by metis
  obtain wcsr s6 where s6: "readl h (DDRPHYC_BASE + phy_bistwcsr) s5 = (wcsr, s6)" by fastforce
  obtain wcr s7 where s7: "readl h (DDRPHYC_BASE + phy_bistwcr) s6 = (wcr, s7)" by fastforce
  obtain gsr s8 where s8: "readl h (DDRPHYC_BASE + phy_bistgsr) s7 = (gsr, s8)" by fastforce
  have R8: "R s6 = R s5" "R s7 = R s6" "R s8 = R s7"
    using R_readl s6 s7 s8 by (metis snd_conv)+
  have e8: "bist_error_max s8 = bist_error_max s"
    using readl_error_max [OF s6] readl_error_max [OF s7] readl_error_max [OF s8] s1(3) R3(2) s5(3)
    by (simp add: s2_def s4_def)
  have "drop_bit 16 wcsr = regs (dev s5) (DDRPHYC_BASE + phy_bistwcr)"
    using word_count [of "dev s5"] armed_same [OF same sel] s6
    by (auto simp: readl_def armed_def R_def Let_def split_def)
  moreover have "wcr = R s6 (DDRPHYC_BASE + phy_bistwcr)"
    using fst_readl [of "DDRPHYC_BASE + phy_bistwcr" s6] s7 by simp
  ultimately have count: "drop_bit 16 wcsr = wcr" using R8 by (simp add: R_def)
  have "gsr AND 4 = 0 \<longleftrightarrow> clean (R s7)"
  proof -
    have "lane_sel (regs (dev s7)) < 4" using same R8 sel by (simp add: same_setup_def armed_def R_def)
    then show ?thesis
      using error_bit [of "dev s7"] s8 by (auto simp: readl_def clean_def R_def Let_def split_def)
  qed
  then have verdict: "gsr AND DDRPHYC_BISTGSR_BDXERR = 0 \<longleftrightarrow> clean (R s)"
    using clean_same [OF same sel] R8 by (simp add: DDRPHYC_BISTGSR_BDXERR_def)
  have "BIST_run h DDRPHYC_BASE s = Some (clean (R s), s8)"
    unfolding BIST_run_def s1(1) Option.bind.bind_lunit Let_def s2_def [symmetric] s3 prod.case
      s4_def [symmetric] s5(1)
    using s6 s7 s8 count verdict by simp
  then show ?thesis using same R8 e8 by auto
qed

lemma bist_runs_clean:
  assumes "armed (R s)"
  shows "\<exists>s'. bist_runs h DDRPHYC_BASE n s = Some (replicate n (clean (R s)), s') \<and>
    same_setup (R s) (R s') \<and> bist_error_max s' = bist_error_max s"
  using assms
proof (induction n arbitrary: s)
  case (Suc n)
  obtain s1 where s1: "BIST_run h DDRPHYC_BASE s = Some (clean (R s), s1)"
    "same_setup (R s) (R s1)" "bist_error_max s1 = bist_error_max s"
    using BIST_run_returns [OF Suc.prems] by blast
  have "armed (R s1)" "clean (R s1) = clean (R s)"
    using s1(2) Suc.prems clean_same armed_same by auto
  then obtain s2 where "bist_runs h DDRPHYC_BASE n s1 = Some (replicate n (clean (R s)), s2)"
    "same_setup (R s1) (R s2)" "bist_error_max s2 = bist_error_max s1"
    using Suc.IH [of s1] by auto
  then show ?case using s1 same_setup_trans by fastforce
qed simp

text \<open>So the verdict of a test is a function of the settings of the selected lane.\<close>

lemma BIST_test_returns:
  assumes "armed (R s)" "0 < bist_error_max s"
  shows "\<exists>s'. BIST_test h DDRPHYC_BASE byte s = Some (clean (R s), s') \<and> same_setup (R s) (R s') \<and>
    bist_error_max s' = bist_error_max s"
proof -
  obtain t where runs: "bist_runs h DDRPHYC_BASE 1000 s = Some (replicate 1000 (clean (R s)), t)"
    using bist_runs_clean [OF assms(1)] by blast
  obtain k s' where k: "k \<le> 1000" "bist_runs h DDRPHYC_BASE k s = Some (take k (replicate 1000 (clean (R s))), s')"
    and test: "BIST_test h DDRPHYC_BASE byte s =
      Some (failures (replicate 1000 (clean (R s))) < unat (bist_error_max s), s')"
    using BIST_test_counts [OF runs] by blast
  have "unat (bist_error_max s) < 2 ^ LENGTH(8)" by (rule unsigned_less)
  moreover have "0 < unat (bist_error_max s)" using assms(2) by (simp add: word_less_nat_alt)
  ultimately have "failures (replicate 1000 (clean (R s))) < unat (bist_error_max s) \<longleftrightarrow> clean (R s)"
    by (cases "clean (R s)") (simp_all add: failures_def)
  then show ?thesis using test bist_runs_clean [OF assms(1), of k] k by auto
qed

end


subsection \<open>What the searches rely on\<close>

text \<open>\<open>at r s\<close>: the lane has the settings \<open>r\<close> in state \<open>s\<close>.\<close>

locale lane =
  fixes h :: "'d platform" and phy :: u32 and byte :: u8
    and at :: "'r \<Rightarrow> 'd sys \<Rightarrow> bool"
    and phase_at :: "nat \<Rightarrow> 'r \<Rightarrow> 'r"
    and unit_at :: "nat \<Rightarrow> 'r \<Rightarrow> 'r"
    and dq_at :: "u32 \<Rightarrow> 'r \<Rightarrow> 'r"
    and dq_of :: "'r \<Rightarrow> u32"
    and pass :: "'r \<Rightarrow> bool"
  assumes phase_law: "at r s \<Longrightarrow> p < 7 \<Longrightarrow>
        \<exists>s'. DQS_phase_delay h phy byte (of_nat p) s = Some s' \<and> at (phase_at p r) s'"
    and unit_law: "at r s \<Longrightarrow> u < 8 \<Longrightarrow>
        \<exists>s'. DQS_unit_delay h phy byte (of_nat u) s = Some s' \<and> at (unit_at u r) s'"
    and dq_law: "at r s \<Longrightarrow> at (dq_at w r) (writel h w (DXNDQTR phy byte) s)"
    and dq_bit_law: "at r s \<Longrightarrow>
        at (dq_at (set_dq i d (dq_of r)) r) (set_DQ_unit_delay h phy byte i d s)"
    and test_law: "at r s \<Longrightarrow> \<exists>s'. BIST_test h phy byte s = Some (pass r, s') \<and> at r s'"
    and key_law: "at r s \<Longrightarrow> \<exists>s'. ctrlc h s = (False, s') \<and> at r s'"
    and phase_phase [simp]: "phase_at p (phase_at p' r) = phase_at p r"
    and unit_unit [simp]: "unit_at u (unit_at u' r) = unit_at u r"
    and unit_phase [simp]: "unit_at u (phase_at p r) = phase_at p (unit_at u r)"
    and dq_dq [simp]: "dq_at w (dq_at w' r) = dq_at w r" "dq_of (dq_at w r) = w"
    and dq_phase [simp]: "dq_at w (phase_at p r) = phase_at p (dq_at w r)"
    and dq_unit [simp]: "dq_at w (unit_at u r) = unit_at u (dq_at w r)"

text \<open>The fields \<open>set_phase\<close> and \<open>set_units\<close> write, for any index.\<close>

definition phase_field :: "nat \<Rightarrow> u32 \<Rightarrow> u32" where
  "phase_field p x = (x AND NOT DDRPHYC_DXNDLLCR_SDPHASE_MASK) OR
     (push_bit 14 (u8_to_u32 (dx_dll_phase ! p)) AND DDRPHYC_DXNDLLCR_SDPHASE_MASK)"

definition unit_fields :: "nat \<Rightarrow> u32 \<Rightarrow> u32" where
  "unit_fields u x =
     (let m = DDRPHYC_DXNDQSTR_DQSDLY_MASK OR DDRPHYC_DXNDQSTR_DQSNDLY_MASK
      in (x AND NOT m) OR
         ((push_bit 20 (u8_to_u32 (of_nat u)) OR push_bit 23 (u8_to_u32 (of_nat u))) AND m))"

lemma set_phase_field: "p < 7 \<Longrightarrow> set_phase p x = phase_field p x"
proof -
  assume "p < 7"
  then have "p \<in> {0, 1, 2, 3, 4, 5, 6}" by auto
  then have "push_bit 14 (u8_to_u32 (dx_dll_phase ! p)) AND DDRPHYC_DXNDLLCR_SDPHASE_MASK =
      push_bit 14 (u8_to_u32 (dx_dll_phase ! p))"
    by (auto simp: dx_dll_phase_def DDRPHYC_DXNDLLCR_SDPHASE_MASK_def)
  then show ?thesis by (simp add: set_phase_def phase_field_def)
qed

lemma set_units_fields: "u < 8 \<Longrightarrow> set_units (of_nat u) x = unit_fields u x"
proof -
  assume "u < 8"
  then have "u \<in> {0, 1, 2, 3, 4, 5, 6, 7}" by auto
  then have "(push_bit 20 (u8_to_u32 (of_nat u)) OR push_bit 23 (u8_to_u32 (of_nat u))) AND
      (DDRPHYC_DXNDQSTR_DQSDLY_MASK OR DDRPHYC_DXNDQSTR_DQSNDLY_MASK) =
      push_bit 20 (u8_to_u32 (of_nat u)) OR push_bit 23 (u8_to_u32 (of_nat u))"
    by (auto simp: DDRPHYC_DXNDQSTR_DQSDLY_MASK_def DDRPHYC_DXNDQSTR_DQSNDLY_MASK_def)
  then show ?thesis by (simp add: set_units_def unit_fields_def Let_def)
qed

lemma field_field: "(((x AND NOT m) OR (v AND m)) AND NOT m) OR (w AND m) = (x AND NOT m) OR (w AND m)"
  for x :: "'a::len word"
  by (rule bit_word_eqI) (auto simp: bit_simps)

lemma lane_not_wcr:
  assumes "byte < 4"
  shows "DXNDLLCR DDRPHYC_BASE byte \<noteq> DDRPHYC_BASE + phy_bistwcr"
    "DXNDQTR DDRPHYC_BASE byte \<noteq> DDRPHYC_BASE + phy_bistwcr"
    "DXNDQSTR DDRPHYC_BASE byte \<noteq> DDRPHYC_BASE + phy_bistwcr"
  using lane_cases [OF assms] by (auto simp: reg_defs)

locale bist_lane = bist_phy h regs lag eye
  for h :: "'d platform" and regs lag eye +
  fixes byte :: u8
  assumes byte_lt: "byte < 4"
begin

definition at :: "(u32 \<Rightarrow> u32) \<Rightarrow> 'd sys \<Rightarrow> bool" where
  "at r s \<longleftrightarrow> same_setup r (R s) \<and> lane_sel r = byte \<and>
     r (DDRPHYC_BASE + phy_bistwcr) < 0x10000 \<and> 0 < bist_error_max s"

definition phase_at :: "nat \<Rightarrow> (u32 \<Rightarrow> u32) \<Rightarrow> u32 \<Rightarrow> u32" where
  "phase_at p r = r(DXNDLLCR DDRPHYC_BASE byte := phase_field p (r (DXNDLLCR DDRPHYC_BASE byte)))"

definition unit_at :: "nat \<Rightarrow> (u32 \<Rightarrow> u32) \<Rightarrow> u32 \<Rightarrow> u32" where
  "unit_at u r = r(DXNDQSTR DDRPHYC_BASE byte := unit_fields u (r (DXNDQSTR DDRPHYC_BASE byte)))"

definition dq_at :: "u32 \<Rightarrow> (u32 \<Rightarrow> u32) \<Rightarrow> u32 \<Rightarrow> u32" where
  "dq_at w r = r(DXNDQTR DDRPHYC_BASE byte := w)"

definition dq_of :: "(u32 \<Rightarrow> u32) \<Rightarrow> u32" where
  "dq_of r = r (DXNDQTR DDRPHYC_BASE byte)"

lemma same_setup_upd:
  assumes "same_setup r r'" "a \<notin> bist_scratch"
  shows "same_setup (r(a := v)) (r'(a := v))"
proof -
  have "a \<noteq> DDRPHYC_BASE + phy_bistrr" using assms(2) by (auto simp: bist_scratch_def)
  then show ?thesis using assms by (simp add: same_setup_def lane_sel_other)
qed

lemma at_upd:
  assumes "at r s" "R s' = (R s)(a := v)" "a \<notin> bist_scratch" "a \<noteq> DDRPHYC_BASE + phy_bistwcr"
    "bist_error_max s' = bist_error_max s"
  shows "at (r(a := v)) s'"
proof -
  have "a \<noteq> DDRPHYC_BASE + phy_bistrr" using assms(3) by (auto simp: bist_scratch_def)
  then show ?thesis using assms same_setup_upd by (simp add: at_def lane_sel_other)
qed

lemma at_reg: "at r s \<Longrightarrow> a \<notin> bist_scratch \<Longrightarrow> R s a = r a"
  by (simp add: at_def same_setup_def)

lemma at_same: "at r s \<Longrightarrow> same_setup (R s) (R s') \<Longrightarrow> bist_error_max s' = bist_error_max s \<Longrightarrow> at r s'"
  using same_setup_trans by (simp add: at_def) blast

end

sublocale bist_lane \<subseteq> tuned: lane h DDRPHYC_BASE byte at phase_at unit_at dq_at dq_of clean
proof
  note ll = lane_not_scratch [OF byte_lt] and wc = lane_not_wcr [OF byte_lt]
  fix r s
  assume at: "at r s"
  show "\<exists>s'. DQS_phase_delay h DDRPHYC_BASE byte (of_nat p) s = Some s' \<and> at (phase_at p r) s'"
    if "p < 7" for p
    using phase_delay_R [OF byte_lt that, of s] at_upd [OF at _ ll(2) wc(1)] at_reg [OF at ll(2)]
    by (auto simp: phase_at_def set_phase_field [OF that])
  show "\<exists>s'. DQS_unit_delay h DDRPHYC_BASE byte (of_nat u) s = Some s' \<and> at (unit_at u r) s'"
    if u8: "u < 8" for u
  proof -
    obtain s' where s': "DQS_unit_delay h DDRPHYC_BASE byte (of_nat u) s = Some s'"
      "R s' = (R s)(DXNDQSTR DDRPHYC_BASE byte := unit_fields u (R s (DXNDQSTR DDRPHYC_BASE byte)),
                  DDRPHYC_BASE + phy_pir := 0x11)" "bist_error_max s' = bist_error_max s"
      using unit_delay_R [OF byte_lt] set_units_fields [OF u8] by metis
    have "same_setup r (R s)" "lane_sel r = byte" "0 < bist_error_max s"
      using at by (simp_all add: at_def)
    then have "same_setup (unit_at u r)
        ((R s)(DXNDQSTR DDRPHYC_BASE byte := unit_fields u (R s (DXNDQSTR DDRPHYC_BASE byte))))"
      using same_setup_upd [OF _ ll(4)] at_reg [OF at ll(4)] by (simp add: unit_at_def)
    moreover have "same_setup x (x(DDRPHYC_BASE + phy_pir := v))" for x v
      by (auto simp: same_setup_def bist_scratch_def lane_sel_def reg_defs)
    ultimately have "same_setup (unit_at u r) (R s')"
      unfolding s'(2) by (rule same_setup_trans)
    moreover have "lane_sel (unit_at u r) = byte"
      using at ll(4) by (auto simp: unit_at_def at_def bist_scratch_def intro: lane_sel_other [THEN trans])
    moreover have "unit_at u r (DDRPHYC_BASE + phy_bistwcr) < 0x10000"
      using at wc by (auto simp: unit_at_def at_def)
    ultimately show ?thesis using s' at by (auto simp: at_def)
  qed
  show "at (dq_at w r) (writel h w (DXNDQTR DDRPHYC_BASE byte) s)" for w
    unfolding dq_at_def by (rule at_upd [OF at _ ll(3) wc(2)]) simp_all
  show "at (dq_at (set_dq i d (dq_of r)) r) (set_DQ_unit_delay h DDRPHYC_BASE byte i d s)" for i d
    unfolding dq_at_def dq_of_def at_reg [OF at ll(3), symmetric]
    by (rule at_upd [OF at _ ll(3) wc(2)]) (simp_all add: byte_lt)
  show "\<exists>s'. BIST_test h DDRPHYC_BASE byte s = Some (clean r, s') \<and> at r s'"
  proof -
    have "same_setup r (R s)" "0 < bist_error_max s" "armed r"
      using at byte_lt by (simp_all add: at_def armed_def)
    then have "armed (R s)" "0 < bist_error_max s" "clean (R s) = clean r"
      using clean_same armed_same by simp_all
    then show ?thesis using BIST_test_returns [of s byte] at_same [OF at] by fastforce
  qed
  show "\<exists>s'. ctrlc h s = (False, s') \<and> at r s'"
  proof -
    have "at r (snd (ctrlc h s))" by (rule at_same [OF at]) simp_all
    then show ?thesis by (metis fst_ctrlc prod.collapse)
  qed
next
  note apart = lane_regs_apart [OF byte_lt byte_lt]
  fix r :: "u32 \<Rightarrow> u32" and p p' u u' :: nat and w w' :: u32
  show "phase_at p (phase_at p' r) = phase_at p r"
    by (simp add: phase_at_def phase_field_def field_field)
  show "unit_at u (unit_at u' r) = unit_at u r"
    by (simp only: unit_at_def unit_fields_def Let_def field_field fun_upd_same fun_upd_upd)
  show "unit_at u (phase_at p r) = phase_at p (unit_at u r)"
    using apart by (simp add: unit_at_def phase_at_def fun_upd_twist)
  show "dq_at w (dq_at w' r) = dq_at w r" "dq_of (dq_at w r) = w"
    by (simp_all add: dq_at_def dq_of_def)
  show "dq_at w (phase_at p r) = phase_at p (dq_at w r)"
    using apart by (simp add: dq_at_def phase_at_def fun_upd_twist)
  show "dq_at w (unit_at u r) = unit_at u (dq_at w r)"
    using apart by (simp add: dq_at_def unit_at_def fun_upd_twist)
qed

subsection \<open>A board\<close>

text \<open>A device that keeps the contract: a register file whose status registers answer at
  once, with a lane that works inside \<open>eye\<close>.\<close>

definition board_read :: "(u8 \<Rightarrow> u32 \<Rightarrow> u32 \<Rightarrow> u32 \<Rightarrow> bool) \<Rightarrow> u32 \<Rightarrow> (u32 \<Rightarrow> u32) \<Rightarrow> u32" where
  "board_read eye a r =
     (if a = DDRPHYC_BASE + phy_pgsr \<or> a = DDRCTRL_BASE + ctl_swstat then 1
      else if a = DDRPHYC_BASE + phy_bistwcsr then push_bit 16 (r (DDRPHYC_BASE + phy_bistwcr))
      else if a = DDRPHYC_BASE + phy_bistgsr
      then let b = lane_sel r
           in if eye b (r (DXNDLLCR DDRPHYC_BASE b)) (r (DXNDQTR DDRPHYC_BASE b)) (r (DXNDQSTR DDRPHYC_BASE b))
              then 1 else 5
      else r a)"

definition tuning_board :: "(u8 \<Rightarrow> u32 \<Rightarrow> u32 \<Rightarrow> u32 \<Rightarrow> bool) \<Rightarrow> (u32 \<Rightarrow> u32) platform" where
  "tuning_board eye =
     \<lparr>rd32 = \<lambda>a r. (board_read eye a r, r),
      wr32 = \<lambda>v a r. r(a := v),
      rd8 = \<lambda>a r. (byte_lane a (board_read eye (a AND NOT 3) r), r),
      wr8 = \<lambda>v a r. r(a AND NOT 3 := set_byte_lane a v (r (a AND NOT 3))),
      ctrlc_key = \<lambda>r. (False, r),
      elapse = \<lambda>_ r. r\<rparr>"

interpretation board: bist_phy "tuning_board eye" "\<lambda>r. r" "\<lambda>_. 0" eye
  for eye
proof
  fix d :: "u32 \<Rightarrow> u32"
  have wcr: "DDRPHYC_BASE + phy_bistwcsr \<noteq> DDRPHYC_BASE + phy_pgsr"
    "DDRPHYC_BASE + phy_bistwcsr \<noteq> DDRCTRL_BASE + ctl_swstat"
    "DDRPHYC_BASE + phy_bistgsr \<noteq> DDRPHYC_BASE + phy_bistwcsr"
    "DDRPHYC_BASE + phy_bistgsr \<noteq> DDRPHYC_BASE + phy_pgsr"
    "DDRPHYC_BASE + phy_bistgsr \<noteq> DDRCTRL_BASE + ctl_swstat"
    by (simp_all add: reg_defs)
  show "drop_bit 16 (fst (rd32 (tuning_board eye) (DDRPHYC_BASE + phy_bistwcsr) d)) =
      d (DDRPHYC_BASE + phy_bistwcr)" if "d (DDRPHYC_BASE + phy_bistwcr) < 0x10000"
  proof -
    have "take_bit 16 (d (DDRPHYC_BASE + phy_bistwcr)) = d (DDRPHYC_BASE + phy_bistwcr)"
      using that by (simp add: take_bit_eq_mod word_unat_eq_iff unat_mod word_less_nat_alt)
    then obtain w where w: "d (DDRPHYC_BASE + phy_bistwcr) = take_bit 16 w" by metis
    have "drop_bit 16 (push_bit 16 (take_bit 16 w)) = take_bit 16 w"
      by (rule bit_word_eqI) (auto simp: bit_simps)
    then show ?thesis using wcr w by (simp add: tuning_board_def board_read_def)
  qed
  show "fst (rd32 (tuning_board eye) (DDRPHYC_BASE + phy_bistgsr) d) AND 4 = 0 \<longleftrightarrow>
      eye (lane_sel d) (d (DXNDLLCR DDRPHYC_BASE (lane_sel d)))
          (d (DXNDQTR DDRPHYC_BASE (lane_sel d))) (d (DXNDQSTR DDRPHYC_BASE (lane_sel d)))"
    using wcr by (simp add: tuning_board_def board_read_def Let_def)
  show "fst (rd32 (tuning_board eye) (DDRPHYC_BASE + phy_bistgsr) d) AND 1 \<noteq> 0 \<or>
      (0 :: nat) < 0" using wcr by (simp add: tuning_board_def board_read_def Let_def)
qed (auto simp: tuning_board_def board_read_def ddr_status_def)

interpretation board_lane: bist_lane "tuning_board eye" "\<lambda>r. r" "\<lambda>_. 0" eye "take_bit 2 b"
  for eye b
proof
  have "unat (take_bit 2 b) < 4"
    by (simp add: take_bit_eq_mod unat_mod)
  then show "take_bit 2 b < 4" by (simp add: word_less_nat_alt)
qed

end
