(* ===== verification/DdrGating.thy ===== *)
theory DdrGating
  imports DdrLaneContract
begin

text \<open>
  The software read DQS gating (ddr/stm32mp1_tuning.c, \<open>read_dqs_gating\<close>): every byte lane
  is tested at all 24 gate positions (system latency \<open>gsl\<close>, phase \<open>gps\<close>), the log of the
  passes is scanned for a fail-pass-fail pattern, and the middle of the passing window is
  programmed.

  The scan and the choice of the midpoint are pure, so they are proved over all windows: the
  chosen gate lies in the window, at most one step from its middle, when the window ends
  before the last position; when it does not, the chosen gate is one that failed.
\<close>

subsection \<open>The scan of the log\<close>

record gating_scan =
  left_bound_idx :: "u8 \<times> u8"
  right_bound_idx :: "u8 \<times> u8"
  left_bound_found :: bool
  right_bound_found :: bool
  intermittent :: bool

definition gating_scan_init :: gating_scan where
  "gating_scan_init =
     \<lparr>left_bound_idx = (0, 0), right_bound_idx = (0, 0),
      left_bound_found = False, right_bound_found = False, intermittent = False\<rparr>"

definition gating_scan_step :: "u8 list list \<Rightarrow> nat \<times> nat \<Rightarrow> gating_scan \<Rightarrow> gating_scan" where
  "gating_scan_step log = (\<lambda>(gsl, gps) g.
     let value = log ! gsl ! gps
     in if value = 1 \<and> \<not> left_bound_found g
        then g\<lparr>left_bound_idx := (of_nat gsl, of_nat gps), left_bound_found := True\<rparr>
        else if value = 0 \<and> left_bound_found g \<and> \<not> right_bound_found g
        then g\<lparr>right_bound_idx :=
                 (if gps = 0 then (of_nat gsl - 1, of_nat MAX_GPS_IDX)
                  else (of_nat gsl, of_nat gps - 1)),
               right_bound_found := True\<rparr>
        else if value = 1 \<and> right_bound_found g
        then g\<lparr>intermittent := True\<rparr>
        else g)"

text \<open>The order of the two nested loops.\<close>

definition gate_positions :: "(nat \<times> nat) list" where
  "gate_positions = concat (map (\<lambda>gsl. map (\<lambda>gps. (gsl, gps)) [0..<4]) [0..<6])"

definition gating_scan :: "u8 list list \<Rightarrow> gating_scan" where
  "gating_scan log =
     (let g = fold (gating_scan_step log) gate_positions gating_scan_init
      in if left_bound_idx g = (0, 0) \<and> right_bound_idx g = (0, 0)
         then g\<lparr>intermittent := True\<rparr> else g)"

subsection \<open>The midpoint\<close>

text \<open>\<open>dqs_gate_values[byte]\<close>, which is not written (\<open>None\<close>) when nothing is found. The sums
  are done in \<open>int\<close>, as C promotes bytes.\<close>

definition half_lost :: "u8 \<Rightarrow> u8 \<Rightarrow> bool" where
  "half_lost r l \<longleftrightarrow> (uint r + uint l) mod 2 = 1"

definition gating_midpoint :: "gating_scan \<Rightarrow> (u8 \<times> u8) option" where
  "gating_midpoint g =
     (if \<not> intermittent g
      then if left_bound_found g \<or> right_bound_found g
           then let (l0, l1) = left_bound_idx g;
                    (r0, r1) = right_bound_idx g;
                    v0 = word_of_int ((uint r0 + uint l0) div 2);
                    v1 = word_of_int ((uint r1 + uint l1) div 2);
                    (v0, v1) =
                      (if half_lost r0 l0 \<and> v1 \<noteq> of_nat MAX_GPS_IDX then (v0, v1 + 1)
                       else if half_lost r0 l0 \<and> v1 = of_nat MAX_GPS_IDX then (v0 + 1, 0)
                       else (v0, v1));
                    (v0, v1) =
                      (if uint r0 - uint l0 = 1
                       then let v1 = word_of_int ((uint l1 + uint r1 + 4) div 2)
                            in if v1 \<ge> 4 then (r0, v1 - 4) else (l0, v1)
                       else (v0, v1))
                in Some (v0, v1)
           else None
      else Some (0, 2))"

text \<open>The value the function returns; its caller drops it.\<close>

definition gating_status :: "gating_scan \<Rightarrow> bool" where
  "gating_status g \<longleftrightarrow> \<not> (intermittent g \<or> (left_bound_found g \<and> right_bound_found g))"

definition set_midpoint_read_dqs_gating ::
  "'d platform \<Rightarrow> u32 \<Rightarrow> u8 \<Rightarrow> u8 list list list \<Rightarrow> 'd sys \<Rightarrow> (bool \<times> 'd sys) option" where
  "set_midpoint_read_dqs_gating h phy byte dqs_gating s =
     (let g = gating_scan (dqs_gating ! unat byte)
      in do { (v0, v1) \<leftarrow> gating_midpoint g;
              let s = set_r0dgsl_delay h phy byte v0 s;
              let s = set_r0dgps_delay h phy byte v1 s;
              Some (gating_status g, s) })"

subsection \<open>The test of all positions\<close>

text \<open>The common start of the three algorithms: no drift compensation, no power down, all byte
  lanes off, the self test configured.\<close>

definition DDRPHYC_PGCR_DFTCMP :: u32 where [reg_defs]: "DDRPHYC_PGCR_DFTCMP = 4"
definition DDRPHYC_PGCR_PDDISDX :: u32 where [reg_defs]: "DDRPHYC_PGCR_PDDISDX = 0x1000000"
definition DDRPHYC_DXNGCR_DXEN :: u32 where [reg_defs]: "DDRPHYC_DXNGCR_DXEN = 1"

definition tuning_prologue :: "'d platform \<Rightarrow> u32 \<Rightarrow> u32 \<Rightarrow> 'd sys \<Rightarrow> 'd sys" where
  "tuning_prologue h ctl phy s =
     (let s = clrbits_le32 h (phy + phy_pgcr) DDRPHYC_PGCR_DFTCMP s;
          s = clrbits_le32 h (phy + phy_pgcr) DDRPHYC_PGCR_PDDISDX s;
          s = clrbits_le32 h (phy + phy_dx0gcr) DDRPHYC_DXNGCR_DXEN s;
          s = clrbits_le32 h (phy + phy_dx1gcr) DDRPHYC_DXNGCR_DXEN s;
          s = clrbits_le32 h (phy + phy_dx2gcr) DDRPHYC_DXNGCR_DXEN s;
          s = clrbits_le32 h (phy + phy_dx3gcr) DDRPHYC_DXNGCR_DXEN s
      in config_BIST h ctl phy s)"

definition log_pass :: "u8 \<Rightarrow> nat \<Rightarrow> nat \<Rightarrow> u8 list list list \<Rightarrow> u8 list list list" where
  "log_pass byte gsl gps log =
     log[unat byte := (log ! unat byte)[gsl := (log ! unat byte ! gsl)[gps := 1]]]"

definition interrupted_at :: "u8 \<Rightarrow> u8 \<Rightarrow> 'd sys \<Rightarrow> 'd sys" where
  "interrupted_at byte nb_bytes s =
     sprintf ''interrupted at byte %d/%d'' [AInt (uint byte + 1), AInt (uint nb_bytes)] s"

definition gating_probe ::
  "'d platform \<Rightarrow> u32 \<Rightarrow> u8 \<Rightarrow> u8 \<Rightarrow> nat \<times> nat \<Rightarrow> u8 list list list \<times> 'd sys \<Rightarrow>
     (test_result option \<times> u8 list list list \<times> 'd sys) option" where
  "gating_probe h phy nb_bytes byte = (\<lambda>(gsl, gps) (log, s).
     let (key, s) = ctrlc h s
     in if key then Some (Some TEST_FAILED, log, interrupted_at byte nb_bytes s)
        else let s = set_r0dgsl_delay h phy byte (of_nat gsl) s;
                 s = set_r0dgps_delay h phy byte (of_nat gps) s
             in do { (success, s) \<leftarrow> BIST_test h phy byte s;
                     let log = (if success then log_pass byte gsl gps log else log);
                     s \<leftarrow> itm_soft_reset h phy s;
                     Some (None, log, s) })"

definition gating_byte ::
  "'d platform \<Rightarrow> u32 \<Rightarrow> u8 \<Rightarrow> u8 \<Rightarrow> u8 list list list \<times> 'd sys \<Rightarrow>
     (test_result option \<times> u8 list list list \<times> 'd sys) option" where
  "gating_byte h phy nb_bytes byte = (\<lambda>(log, s).
     let (key, s) = ctrlc h s
     in if key then Some (Some TEST_FAILED, log, interrupted_at byte nb_bytes s)
        else let s = setbits_le32 h (DXNGCR phy byte) DDRPHYC_DXNGCR_DXEN s;
                 s = BIST_datx8_sel h phy byte s
             in do { (r, log, s) \<leftarrow> for_each_opt (gating_probe h phy nb_bytes byte) gate_positions (log, s);
                     (case r of
                        Some r \<Rightarrow> Some (Some r, log, s)
                      | None \<Rightarrow>
                          do { (_, s) \<leftarrow> set_midpoint_read_dqs_gating h phy byte log s;
                               let (_, s) = readl h 0xC0000000 s;
                               let (_, s) = readl h 0xC0000000 s;
                               Some (None, log, s) }) })"

definition bytes_upto :: "u8 \<Rightarrow> u8 list" where
  "bytes_upto nb_bytes = map of_nat [0..<unat nb_bytes]"

definition read_dqs_gating ::
  "'d platform \<Rightarrow> u32 \<Rightarrow> u32 \<Rightarrow> 'd sys \<Rightarrow> (test_result \<times> 'd sys) option" where
  "read_dqs_gating h ctl phy s =
     (let (nb_bytes, s) = get_nb_bytes h ctl s;
          log = replicate 4 (replicate 6 (replicate 4 0));
          s = tuning_prologue h ctl phy s
      in do { (r, _, s) \<leftarrow> for_each_opt (gating_byte h phy nb_bytes) (bytes_upto nb_bytes) (log, s);
              Some (case r of Some r \<Rightarrow> r | None \<Rightarrow> TEST_PASSED, s) })"

subsection \<open>The midpoint of a window\<close>

text \<open>The gate at place \<open>k\<close> of the order of the loops, and back.\<close>

definition gate_of :: "nat \<Rightarrow> u8 \<times> u8" where
  "gate_of k = (of_nat (k div 4), of_nat (k mod 4))"

definition place_of :: "u8 \<times> u8 \<Rightarrow> nat" where
  "place_of = (\<lambda>(gsl, gps). 4 * unat gsl + unat gps)"

text \<open>The log of a lane that passes from place \<open>L\<close> to place \<open>R\<close>.\<close>

definition window_log :: "u8 list list \<Rightarrow> nat \<Rightarrow> nat \<Rightarrow> bool" where
  "window_log log L R \<longleftrightarrow>
     (\<forall>k<24. log ! (k div 4) ! (k mod 4) = (if L \<le> k \<and> k \<le> R then 1 else 0))"

lemma gate_positions_upt: "gate_positions = map (\<lambda>k. (k div 4, k mod 4)) [0..<24]"
  by (simp add: gate_positions_def upt_rec)

lemma gate_of_eq_0: "k < 24 \<Longrightarrow> gate_of k = (0, 0) \<longleftrightarrow> k = 0"
proof -
  assume k: "k < 24"
  then have "(of_nat (k div 4) :: u8) = 0 \<longleftrightarrow> k div 4 = 0" "(of_nat (k mod 4) :: u8) = 0 \<longleftrightarrow> k mod 4 = 0"
    by (simp_all add: word_unat_eq_iff unat_of_nat)
  then show ?thesis by (auto simp: gate_of_def div_eq_0_iff)
qed

lemma fold_window:
  assumes log: "window_log log L R" and LR: "L \<le> R" "R < 24" and n: "n \<le> 24"
  shows "fold (\<lambda>k. gating_scan_step log (k div 4, k mod 4)) [0..<n] gating_scan_init =
    \<lparr>left_bound_idx = (if L < n then gate_of L else (0, 0)),
     right_bound_idx = (if R + 1 < n then gate_of R else (0, 0)),
     left_bound_found = (L < n), right_bound_found = (R + 1 < n), intermittent = False\<rparr>"
  using n
proof (induction n)
  case (Suc k)
  have v: "log ! (k div 4) ! (k mod 4) = (if L \<le> k \<and> k \<le> R then 1 else 0)"
    using log Suc.prems by (simp add: window_log_def)
  have pred: "(if k mod 4 = 0 then (of_nat (k div 4) - 1, of_nat MAX_GPS_IDX)
      else (of_nat (k div 4), of_nat (k mod 4) - 1)) = gate_of R" if "k = R + 1"
  proof (cases "k mod 4 = 0")
    case True
    then have "R mod 4 = 3" "k div 4 = Suc (R div 4)" using that by presburger+
    then show ?thesis using True by (simp add: gate_of_def MAX_GPS_IDX_def)
  next
    case False
    then have "k mod 4 = Suc (R mod 4)" "k div 4 = R div 4" using that by presburger+
    then show ?thesis by (simp add: gate_of_def)
  qed
  consider "k < L" | "k = L" | "L < k" "k \<le> R" | "k = R + 1" | "R + 1 < k" by linarith
  then show ?case
  proof cases
    case 4
    have "L < k" "\<not> R + 1 < k" "L < Suc k" "R + 1 < Suc k" using 4 LR by simp_all
    moreover have "log ! (k div 4) ! (k mod 4) = 0" using v 4 by simp
    ultimately show ?thesis
      using Suc pred [OF 4] by (simp add: gating_scan_step_def Let_def)
  qed (use Suc LR v in \<open>simp_all add: gating_scan_step_def gate_of_def Let_def\<close>)
qed (simp add: gating_scan_init_def)

lemma gating_scan_window:
  assumes "window_log log L R" "L \<le> R" "R < 24"
  shows "gating_scan log =
    \<lparr>left_bound_idx = gate_of L, right_bound_idx = (if R < 23 then gate_of R else (0, 0)),
     left_bound_found = True, right_bound_found = (R < 23),
     intermittent = (L = 0 \<and> (R = 0 \<or> R = 23))\<rparr>"
proof -
  have "fold (gating_scan_step log) gate_positions gating_scan_init =
      fold (\<lambda>k. gating_scan_step log (k div 4, k mod 4)) [0..<24] gating_scan_init"
    by (simp add: gate_positions_upt fold_map comp_def)
  then show ?thesis
    using fold_window [OF assms, of 24] assms(2,3) gate_of_eq_0 [of L] gate_of_eq_0 [of R]
    by (auto simp: gating_scan_def Let_def)
qed

text \<open>The midpoint of two bounds lies between them, at most one and a half places from the
  middle; that of a window without an end lies before the window.\<close>

definition midpoint_ok :: "nat \<Rightarrow> nat \<Rightarrow> bool" where
  "midpoint_ok L R \<longleftrightarrow>
     (case gating_midpoint \<lparr>left_bound_idx = gate_of L, right_bound_idx = gate_of R,
        left_bound_found = True, right_bound_found = True, intermittent = False\<rparr> of
        None \<Rightarrow> False
      | Some g \<Rightarrow> L \<le> place_of g \<and> place_of g \<le> R \<and> 2 * place_of g \<le> L + R + 3 \<and>
          L + R \<le> 2 * place_of g + 3 \<and> fst g < 6 \<and> snd g < 4)"

definition open_midpoint_low :: "nat \<Rightarrow> bool" where
  "open_midpoint_low L \<longleftrightarrow>
     (case gating_midpoint \<lparr>left_bound_idx = gate_of L, right_bound_idx = (0, 0),
        left_bound_found = True, right_bound_found = False, intermittent = False\<rparr> of
        None \<Rightarrow> False
      | Some g \<Rightarrow> place_of g < L \<and> fst g < 6 \<and> snd g < 4)"

lemma midpoint_table: "list_all (\<lambda>L. list_all (midpoint_ok L) [max L 1..<23]) [0..<23]"
  by code_simp

lemma open_midpoint_table: "list_all open_midpoint_low [1..<24]"
  by code_simp

lemma midpoint_window: "L \<le> R \<Longrightarrow> 0 < R \<Longrightarrow> R < 23 \<Longrightarrow> midpoint_ok L R"
  using midpoint_table unfolding list_all_iff set_upt by auto

lemma open_midpoint_window: "0 < L \<Longrightarrow> L < 24 \<Longrightarrow> open_midpoint_low L"
  using open_midpoint_table unfolding list_all_iff set_upt by auto

subsection \<open>The gate of a lane\<close>

definition set_gate :: "u8 \<times> u8 \<Rightarrow> u32 \<Rightarrow> u32" where
  "set_gate = (\<lambda>(g, p) x.
     (((x AND NOT DDRPHYC_DXNDQSTR_R0DGSL_MASK) OR u8_to_u32 g)
        AND NOT DDRPHYC_DXNDQSTR_R0DGPS_MASK) OR push_bit 12 (u8_to_u32 p))"

definition gate_fields :: "u8 \<times> u8 \<Rightarrow> u32 \<Rightarrow> u32" where
  "gate_fields = (\<lambda>(g, p) x.
     let m = DDRPHYC_DXNDQSTR_R0DGSL_MASK OR DDRPHYC_DXNDQSTR_R0DGPS_MASK
     in (x AND NOT m) OR ((u8_to_u32 g OR push_bit 12 (u8_to_u32 p)) AND m))"

lemma set_gate_fields:
  assumes "g < 8" "p < 4"
  shows "set_gate (g, p) x = gate_fields (g, p) x"
proof -
  have m: "DDRPHYC_DXNDQSTR_R0DGSL_MASK = mask 3" "DDRPHYC_DXNDQSTR_R0DGPS_MASK = push_bit 12 (mask 2)"
    by (simp_all add: reg_defs mask_eq_exp_minus_1)
  have "take_bit 3 g = g" "take_bit 2 p = p"
    using assms by (simp_all add: take_bit_eq_mod word_unat_eq_iff unat_mod word_less_nat_alt)
  then obtain g' p' where gp: "g = take_bit 3 g'" "p = take_bit 2 p'" by metis
  show ?thesis
    unfolding set_gate_def gate_fields_def prod.case Let_def m gp
    by (rule bit_word_eqI) (auto simp: bit_simps)
qed

lemma gate_fields_twice [simp]: "gate_fields g (gate_fields g' x) = gate_fields g x"
  by (simp only: gate_fields_def split_def Let_def field_field)

text \<open>What the search for the gate relies on beyond a lane's delays.\<close>

locale gate_lane = lane h phy byte at phase_at unit_at dq_at dq_of pass
  for h :: "'d platform" and phy byte and at :: "'r \<Rightarrow> 'd sys \<Rightarrow> bool"
    and phase_at unit_at dq_at dq_of pass +
  fixes gate_at :: "u8 \<times> u8 \<Rightarrow> 'r \<Rightarrow> 'r"
  assumes gate_law: "at r s \<Longrightarrow> g < 8 \<Longrightarrow> p < 4 \<Longrightarrow>
        at (gate_at (g, p) r) (set_r0dgps_delay h phy byte p (set_r0dgsl_delay h phy byte g s))"
    and reset_law: "at r s \<Longrightarrow> \<exists>s'. itm_soft_reset h phy s = Some s' \<and> at r s'"
    and read_law: "at r s \<Longrightarrow> at r (snd (readl h a s))"
    and gate_gate [simp]: "gate_at x (gate_at x' r) = gate_at x r"
begin

text \<open>The log of byte \<open>b\<close> after the first \<open>n\<close> places.\<close>

definition logged :: "'r \<Rightarrow> u8 list list list \<Rightarrow> nat \<Rightarrow> u8 list list list \<Rightarrow> bool" where
  "logged r log0 n log \<longleftrightarrow> (\<forall>b. b \<noteq> unat byte \<longrightarrow> log ! b = log0 ! b) \<and> length log = 4 \<and> length (log ! unat byte) = 6 \<and>
     (\<forall>g<6. length (log ! unat byte ! g) = 4) \<and>
     (\<forall>k<24. log ! unat byte ! (k div 4) ! (k mod 4) =
        (if k < n \<and> pass (gate_at (gate_of k) r) then 1 else 0))"

text \<open>The settings of \<open>s\<close> are those of \<open>r\<close>, up to the gate.\<close>

definition near :: "'r \<Rightarrow> 'd sys \<Rightarrow> bool" where
  "near r s \<longleftrightarrow> (\<exists>r'. at r' s \<and> (\<forall>x. gate_at x r' = gate_at x r))"

lemma near_gate: "at (gate_at x r) s \<Longrightarrow> near r s"
  by (auto simp: near_def)

lemma probe:
  assumes near: "near r s" and log: "logged r log0 k log" and k: "k < 24" and b: "unat byte < 4"
  shows "\<exists>log' s'. gating_probe h phy nb_bytes byte (k div 4, k mod 4) (log, s) = Some (None, log', s') \<and>
    at (gate_at (gate_of k) r) s' \<and> logged r log0 (Suc k) log'"
proof -
  obtain r' where at: "at r' s" and r': "\<And>x. gate_at x r' = gate_at x r"
    using near by (auto simp: near_def)
  obtain s1 where s1: "ctrlc h s = (False, s1)" "at r' s1" using key_law [OF at] by blast
  define s2 where "s2 = set_r0dgps_delay h phy byte (of_nat (k mod 4))
    (set_r0dgsl_delay h phy byte (of_nat (k div 4)) s1)"
  have "(of_nat (k div 4) :: u8) < 8" "(of_nat (k mod 4) :: u8) < 4"
    using k by (simp_all add: word_less_nat_alt unat_of_nat)
  then have s2: "at (gate_at (gate_of k) r) s2"
    using gate_law [OF s1(2)] r' by (simp add: s2_def gate_of_def)
  obtain s3 where s3: "BIST_test h phy byte s2 = Some (pass (gate_at (gate_of k) r), s3)"
    "at (gate_at (gate_of k) r) s3" using test_law [OF s2] by blast
  obtain s4 where s4: "itm_soft_reset h phy s3 = Some s4" "at (gate_at (gate_of k) r) s4"
    using reset_law [OF s3(2)] by blast
  define log' where "log' = (if pass (gate_at (gate_of k) r) then log_pass byte (k div 4) (k mod 4) log else log)"
  have "gating_probe h phy nb_bytes byte (k div 4, k mod 4) (log, s) = Some (None, log', s4)"
    by (simp only: gating_probe_def s1 prod.case if_False s2_def [symmetric] Let_def
        s3 s4 Option.bind.bind_lunit log'_def [symmetric])
  moreover have "logged r log0 (Suc k) log'"
  proof -
    have len: "length log = 4" "length (log ! unat byte) = 6" "\<forall>g<6. length (log ! unat byte ! g) = 4"
      and old: "\<And>j. j < 24 \<Longrightarrow> log ! unat byte ! (j div 4) ! (j mod 4) =
        (if j < k \<and> pass (gate_at (gate_of j) r) then 1 else 0)"
      using log by (simp_all add: logged_def)
    have kd: "k div 4 < 6" using k by simp
    have "log' ! unat byte ! (j div 4) ! (j mod 4) =
        (if j < Suc k \<and> pass (gate_at (gate_of j) r) then 1 else 0)" if j: "j < 24" for j
    proof (cases "j = k")
      case True
      then show ?thesis using len kd b old [OF k] by (simp add: log'_def log_pass_def)
    next
      case False
      then have "j div 4 = k div 4 \<Longrightarrow> j mod 4 \<noteq> k mod 4"
        using div_mult_mod_eq [of j 4] div_mult_mod_eq [of k 4] by auto
      then show ?thesis using len kd b old [OF j] False
        by (cases "j div 4 = k div 4") (auto simp: log'_def log_pass_def less_Suc_eq)
    qed
    moreover have "\<forall>b. b \<noteq> unat byte \<longrightarrow> log' ! b = log0 ! b"
      using log by (simp add: logged_def log'_def log_pass_def)
    ultimately show ?thesis using len kd b by (auto simp: logged_def log'_def log_pass_def nth_list_update)
  qed
  ultimately show ?thesis using s4 by blast
qed

lemma probes:
  assumes "near r s" "logged r log0 0 log" "unat byte < 4"
  shows "\<exists>log' s'. for_each_opt (gating_probe h phy nb_bytes byte) gate_positions (log, s) =
      Some (None, log', s') \<and> near r s' \<and> logged r log0 24 log'"
proof -
  have "\<exists>s'. for_each_opt (gating_probe h phy nb_bytes byte) gate_positions (log, s) = Some (None, s') \<and>
    near r (snd s') \<and> logged r log0 (length gate_positions) (fst s')"
  proof (rule for_each_opt_steps [where I = "\<lambda>k ls. near r (snd ls) \<and> logged r log0 k (fst ls)"])
    show "near r (snd (log, s)) \<and> logged r log0 0 (fst (log, s))"
      using assms by simp
    fix k ls assume "k < length gate_positions" and "near r (snd ls) \<and> logged r log0 k (fst ls)"
    then show "\<exists>s'. gating_probe h phy nb_bytes byte (gate_positions ! k) ls = Some (None, s') \<and>
        near r (snd s') \<and> logged r log0 (Suc k) (fst s')"
      using probe [where k = k and log = "fst ls" and s = "snd ls"] assms(3) near_gate
      by (fastforce simp: gate_positions_upt)
  qed
  then show ?thesis by (auto simp: gate_positions_upt)
qed

end

context bist_lane
begin

definition gate_at :: "u8 \<times> u8 \<Rightarrow> (u32 \<Rightarrow> u32) \<Rightarrow> u32 \<Rightarrow> u32" where
  "gate_at g r = r(DXNDQSTR DDRPHYC_BASE byte := gate_fields g (r (DXNDQSTR DDRPHYC_BASE byte)))"

text \<open>Enabling and selecting the lane.\<close>

lemma select_lane:
  assumes "R s (DDRPHYC_BASE + phy_bistwcr) < 0x10000" "0 < bist_error_max s"
    and "s' = BIST_datx8_sel h DDRPHYC_BASE byte (setbits_le32 h (DXNGCR DDRPHYC_BASE byte) DDRPHYC_DXNGCR_DXEN s)"
  shows "at (R s') s'" "a \<notin> bist_scratch \<Longrightarrow> a \<noteq> DXNGCR DDRPHYC_BASE byte \<Longrightarrow> R s' a = R s a"
proof -
  let ?e = "(R s)(DXNGCR DDRPHYC_BASE byte := R s (DXNGCR DDRPHYC_BASE byte) OR DDRPHYC_DXNGCR_DXEN)"
  let ?rr = "DDRPHYC_BASE + phy_bistrr"
  have R: "R s' = ?e(?rr := (?e ?rr AND NOT DDRPHYC_BISTRR_BDXSEL_MASK) OR push_bit 19 (u8_to_u32 byte))"
    using byte_lt by (simp add: assms(3) BIST_datx8_sel_def del: fun_upd_apply)
  have "lane_sel (R s') = byte" unfolding R by (rule lane_sel_datx8 [OF byte_lt])
  moreover have "R s' (DDRPHYC_BASE + phy_bistwcr) < 0x10000"
  proof -
    have "DDRPHYC_BASE + phy_bistwcr \<noteq> DXNGCR DDRPHYC_BASE byte" "DDRPHYC_BASE + phy_bistwcr \<noteq> ?rr"
      using lane_cases [OF byte_lt] by (auto simp: reg_defs)
    then show ?thesis using assms(1) unfolding R by simp
  qed
  moreover have "bist_error_max s' = bist_error_max s" by (simp add: assms(3) BIST_datx8_sel_def)
  ultimately show "at (R s') s'" using assms(2) by (simp add: at_def)
  show "R s' a = R s a" if "a \<notin> bist_scratch" "a \<noteq> DXNGCR DDRPHYC_BASE byte"
    using that unfolding R by (simp add: bist_scratch_def)
qed

end

sublocale bist_lane \<subseteq> gated: gate_lane h DDRPHYC_BASE byte at phase_at unit_at dq_at dq_of clean gate_at
proof
  note ll = lane_not_scratch [OF byte_lt] and wc = lane_not_wcr [OF byte_lt]
  fix r s
  assume at: "at r s"
  show "at (gate_at (g, p) r) (set_r0dgps_delay h DDRPHYC_BASE byte p (set_r0dgsl_delay h DDRPHYC_BASE byte g s))"
    if "g < 8" "p < 4" for g p
  proof -
    have "R (set_r0dgps_delay h DDRPHYC_BASE byte p (set_r0dgsl_delay h DDRPHYC_BASE byte g s)) =
        (R s)(DXNDQSTR DDRPHYC_BASE byte := set_gate (g, p) (R s (DXNDQSTR DDRPHYC_BASE byte)))"
      using byte_lt by (simp add: set_gate_def)
    then show ?thesis
      unfolding gate_at_def set_gate_fields [OF that] at_reg [OF at ll(4)]
      by (rule at_upd [OF at _ ll(4) wc(3)]) (simp add: byte_lt)
  qed
  show "\<exists>s'. itm_soft_reset h DDRPHYC_BASE s = Some s' \<and> at r s'"
  proof -
    obtain s' where "itm_soft_reset h DDRPHYC_BASE s = Some s'"
      "R s' = (R s)(DDRPHYC_BASE + phy_pir := DDRPHYC_PIR_ITMSRST OR DDRPHYC_PIR_INIT)"
      "bist_error_max s' = bist_error_max s"
      using ddrphy_init_returns by (metis itm_soft_reset_def)
    moreover have "same_setup (R s) ((R s)(DDRPHYC_BASE + phy_pir := v))" for v
      by (auto simp: same_setup_def bist_scratch_def lane_sel_def reg_defs)
    ultimately show ?thesis using at_same [OF at] by metis
  qed
  show "at r (snd (readl h a s))" for a by (rule at_same [OF at]) simp_all
next
  fix r :: "u32 \<Rightarrow> u32" and x x'
  show "gate_at x (gate_at x' r) = gate_at x r" by (simp add: gate_at_def)
qed

subsection \<open>One byte lane\<close>

text \<open>What the midpoint of a lane's window is worth.\<close>

definition good_gate :: "(u8 \<times> u8 \<Rightarrow> bool) \<Rightarrow> nat \<Rightarrow> nat \<Rightarrow> u8 \<times> u8 \<Rightarrow> bool" where
  "good_gate ok L R g \<longleftrightarrow> ok g \<and> L \<le> place_of g \<and> place_of g \<le> R \<and>
     2 * place_of g \<le> L + R + 3 \<and> L + R \<le> 2 * place_of g + 3"

definition gate_window :: "(u8 \<times> u8 \<Rightarrow> bool) \<Rightarrow> nat \<Rightarrow> nat \<Rightarrow> bool" where
  "gate_window ok L R \<longleftrightarrow> L \<le> R \<and> 0 < R \<and> R < 23 \<and> (\<forall>k<24. ok (gate_of k) \<longleftrightarrow> L \<le> k \<and> k \<le> R)"

lemma gate_of_place: "fst g < 6 \<Longrightarrow> snd g < 4 \<Longrightarrow> gate_of (place_of g) = g \<and> place_of g < 24"
proof -
  assume "fst g < 6" "snd g < 4"
  then have "unat (fst g) < 6" "unat (snd g) < 4" by (simp_all add: word_less_nat_alt)
  then show ?thesis by (simp add: gate_of_def place_of_def split_def)
qed

lemma window_scan:
  assumes "window_log log L R" "L \<le> R" "0 < R" "R < 23"
  shows "\<exists>g. gating_midpoint (gating_scan log) = Some g \<and> L \<le> place_of g \<and> place_of g \<le> R \<and>
    2 * place_of g \<le> L + R + 3 \<and> L + R \<le> 2 * place_of g + 3 \<and> fst g < 6 \<and> snd g < 4"
  using gating_scan_window [OF assms(1,2)] midpoint_window [OF assms(2-4)] assms(3,4)
  by (cases "gating_midpoint (gating_scan log)") (simp_all add: midpoint_ok_def del: split_paired_Ex)

context bist_lane
begin

definition gate_ok :: "(u32 \<Rightarrow> u32) \<Rightarrow> u8 \<times> u8 \<Rightarrow> bool" where
  "gate_ok r g = eye byte (r (DXNDLLCR DDRPHYC_BASE byte)) (r (DXNDQTR DDRPHYC_BASE byte))
     (gate_fields g (r (DXNDQSTR DDRPHYC_BASE byte)))"

lemma clean_gate: "lane_sel r = byte \<Longrightarrow> clean (gate_at g r) \<longleftrightarrow> gate_ok r g"
proof -
  assume sel: "lane_sel r = byte"
  have "DXNDQSTR DDRPHYC_BASE byte \<noteq> DDRPHYC_BASE + phy_bistrr"
    using lane_cases [OF byte_lt] by (auto simp: reg_defs)
  then have "lane_sel (gate_at g r) = byte" using sel by (simp add: gate_at_def lane_sel_other)
  then show ?thesis
    using lane_regs_apart [OF byte_lt byte_lt] by (simp add: clean_def gate_ok_def gate_at_def)
qed

lemma gating_byte_returns:
  assumes ready: "R s (DDRPHYC_BASE + phy_bistwcr) < 0x10000" "0 < bist_error_max s"
    and log: "length log = 4" "log ! unat byte = replicate 6 (replicate 4 0)"
    and window: "gate_window (gate_ok (R s)) L Rt"
  shows "\<exists>log' s' g. gating_byte h DDRPHYC_BASE nb_bytes byte (log, s) = Some (None, log', s') \<and>
    good_gate (gate_ok (R s)) L Rt g \<and>
    R s' (DXNDQSTR DDRPHYC_BASE byte) = gate_fields g (R s (DXNDQSTR DDRPHYC_BASE byte)) \<and>
    (\<forall>a. a \<notin> bist_scratch \<and> a \<noteq> DXNGCR DDRPHYC_BASE byte \<and> a \<noteq> DXNDQSTR DDRPHYC_BASE byte \<longrightarrow>
       R s' a = R s a) \<and>
    0 < bist_error_max s' \<and> length log' = 4 \<and> (\<forall>b. b \<noteq> unat byte \<longrightarrow> log' ! b = log ! b)"
proof -
  obtain s1 where s1: "ctrlc h s = (False, s1)" by (metis fst_ctrlc prod.collapse)
  have R1: "R s1 = R s" "bist_error_max s1 = bist_error_max s"
    using R_ctrlc [of s] bus_other_state(4) [of h s] s1 by simp_all
  define s2 where "s2 = BIST_datx8_sel h DDRPHYC_BASE byte (setbits_le32 h (DXNGCR DDRPHYC_BASE byte) DDRPHYC_DXNGCR_DXEN s1)"
  have at: "at (R s2) s2" and frame: "\<And>a. a \<notin> bist_scratch \<Longrightarrow> a \<noteq> DXNGCR DDRPHYC_BASE byte \<Longrightarrow> R s2 a = R s a"
    using select_lane [of s1 s2] ready R1 by (simp_all add: s2_def)
  have b: "unat byte < 4" using byte_lt by (simp add: word_less_nat_alt)
  have sel: "lane_sel (R s2) = byte" using at by (simp add: at_def)
  have apart: "DXNDLLCR DDRPHYC_BASE byte \<noteq> DXNGCR DDRPHYC_BASE byte" "DXNDQTR DDRPHYC_BASE byte \<noteq> DXNGCR DDRPHYC_BASE byte"
    "DXNDQSTR DDRPHYC_BASE byte \<noteq> DXNGCR DDRPHYC_BASE byte"
    using lane_regs_apart [OF byte_lt byte_lt] by metis+
  have ok: "gate_ok (R s2) = gate_ok (R s)"
    using frame apart lane_not_scratch [OF byte_lt] by (simp add: gate_ok_def fun_eq_iff)
  have "gated.near (R s2) s2" using at by (auto simp: gated.near_def)
  moreover have "gated.logged (R s2) log 0 log"
    using log b by (auto simp: gated.logged_def)
  ultimately obtain log' s3 where run: "for_each_opt (gating_probe h DDRPHYC_BASE nb_bytes byte) gate_positions (log, s2) =
      Some (None, log', s3)" and near: "gated.near (R s2) s3" and logged: "gated.logged (R s2) log 24 log'"
    using gated.probes b by blast
  have "window_log (log' ! unat byte) L Rt"
    using logged window clean_gate [OF sel] by (simp add: gated.logged_def window_log_def gate_window_def ok)
  then obtain g where g: "gating_midpoint (gating_scan (log' ! unat byte)) = Some g" "L \<le> place_of g" "place_of g \<le> Rt"
    "2 * place_of g \<le> L + Rt + 3" "L + Rt \<le> 2 * place_of g + 3" "fst g < 6" "snd g < 4"
    using window_scan window unfolding gate_window_def by blast
  obtain v0 v1 where gv: "g = (v0, v1)" by fastforce
  define s4 where "s4 = set_r0dgps_delay h DDRPHYC_BASE byte v1 (set_r0dgsl_delay h DDRPHYC_BASE byte v0 s3)"
  have lt: "v0 < 8" "v1 < 4" using g(6,7) gv by (simp_all add: word_less_nat_alt)
  obtain r' where r': "at r' s3" "\<And>x. gate_at x r' = gate_at x (R s2)" using near by (auto simp: gated.near_def)
  have s4: "at (gate_at g (R s2)) s4" using gated.gate_law [OF r'(1) lt] r'(2) by (simp add: s4_def gv)
  define s5 where "s5 = snd (readl h 0xC0000000 (snd (readl h 0xC0000000 s4)))"
  have s5: "at (gate_at g (R s2)) s5" unfolding s5_def by (intro gated.read_law s4)
  have ret: "gating_byte h DDRPHYC_BASE nb_bytes byte (log, s) = Some (None, log', s5)"
    unfolding gating_byte_def s1 prod.case if_False Let_def s2_def [symmetric] run Option.bind.bind_lunit option.case
      set_midpoint_read_dqs_gating_def g(1) gv s4_def [symmetric]
    by (simp add: split_def s5_def)
  have "gate_ok (R s) g"
    using gate_of_place [OF g(6,7)] g(2,3) window by (metis gate_window_def)
  then have gg: "good_gate (gate_ok (R s)) L Rt g" using g by (simp add: good_gate_def)
  have r5: "a \<notin> bist_scratch \<Longrightarrow> R s5 a = gate_at g (R s2) a" for a by (rule at_reg [OF s5])
  have fr: "R s5 (DXNDQSTR DDRPHYC_BASE byte) = gate_fields g (R s (DXNDQSTR DDRPHYC_BASE byte))"
    "\<forall>a. a \<notin> bist_scratch \<and> a \<noteq> DXNGCR DDRPHYC_BASE byte \<and> a \<noteq> DXNDQSTR DDRPHYC_BASE byte \<longrightarrow> R s5 a = R s a"
    using r5 frame apart(3) byte_lt by (simp_all add: gate_at_def)
  show ?thesis
    using ret gg fr s5 logged by (intro exI [of _ log'] exI [of _ s5] exI [of _ g]) (auto simp: at_def gated.logged_def)
qed

end

subsection \<open>All byte lanes\<close>

definition phy_block :: "u32 set" where
  "phy_block = {a. DDRPHYC_BASE \<le> a \<and> a < DDRPHYC_BASE + 0x1000}"

lemma phy_block_scratch: "a \<in> bist_scratch \<Longrightarrow> a \<in> phy_block"
  by (auto simp: bist_scratch_def phy_block_def reg_defs)

lemma phy_block_lane:
  assumes "byte < 4"
  shows "DXNGCR DDRPHYC_BASE byte \<in> phy_block" "DXNDLLCR DDRPHYC_BASE byte \<in> phy_block"
    "DXNDQTR DDRPHYC_BASE byte \<in> phy_block" "DXNDQSTR DDRPHYC_BASE byte \<in> phy_block"
  using lane_cases [OF assms] by (auto simp: phy_block_def reg_defs)

lemma lanes_apart:
  assumes "byte < 4" "byte' < 4" "byte \<noteq> byte'"
  shows "DXNDLLCR DDRPHYC_BASE byte \<noteq> DXNDLLCR DDRPHYC_BASE byte'"
    "DXNDQTR DDRPHYC_BASE byte \<noteq> DXNDQTR DDRPHYC_BASE byte'"
    "DXNDQSTR DDRPHYC_BASE byte \<noteq> DXNDQSTR DDRPHYC_BASE byte'"
  using lane_cases [OF assms(1)] lane_cases [OF assms(2)] assms(3) by (auto simp: reg_defs)

context ddr_regs
begin

lemma nb_bytes_cases: "fst (get_nb_bytes h ctl s) \<in> {1, 2, 4}"
  by (simp add: get_nb_bytes_def Let_def split_def)

definition lane_regs :: "'d sys \<Rightarrow> u8 \<Rightarrow> u32 \<times> u32 \<times> u32" where
  "lane_regs s b = (R s (DXNDLLCR DDRPHYC_BASE b), R s (DXNDQTR DDRPHYC_BASE b), R s (DXNDQSTR DDRPHYC_BASE b))"

lemma tuning_prologue_R:
  "R (tuning_prologue h DDRCTRL_BASE DDRPHYC_BASE s) (DDRPHYC_BASE + phy_bistwcr) = 0x200"
  "b < 4 \<Longrightarrow> lane_regs (tuning_prologue h DDRCTRL_BASE DDRPHYC_BASE s) b = lane_regs s b"
  "a \<notin> phy_block \<Longrightarrow> R (tuning_prologue h DDRCTRL_BASE DDRPHYC_BASE s) a = R s a"
  "bist_error_max (tuning_prologue h DDRCTRL_BASE DDRPHYC_BASE s) = bist_error_max s"
proof -
  define s1 where "s1 = clrbits_le32 h (DDRPHYC_BASE + phy_dx3gcr) DDRPHYC_DXNGCR_DXEN
    (clrbits_le32 h (DDRPHYC_BASE + phy_dx2gcr) DDRPHYC_DXNGCR_DXEN
    (clrbits_le32 h (DDRPHYC_BASE + phy_dx1gcr) DDRPHYC_DXNGCR_DXEN
    (clrbits_le32 h (DDRPHYC_BASE + phy_dx0gcr) DDRPHYC_DXNGCR_DXEN
    (clrbits_le32 h (DDRPHYC_BASE + phy_pgcr) DDRPHYC_PGCR_PDDISDX
    (clrbits_le32 h (DDRPHYC_BASE + phy_pgcr) DDRPHYC_PGCR_DFTCMP s)))))"
  have p: "tuning_prologue h DDRCTRL_BASE DDRPHYC_BASE s = config_BIST h DDRCTRL_BASE DDRPHYC_BASE s1"
    by (simp add: tuning_prologue_def s1_def Let_def)
  let ?W = "{DDRPHYC_BASE + phy_pgcr, DDRPHYC_BASE + phy_dx0gcr, DDRPHYC_BASE + phy_dx1gcr,
     DDRPHYC_BASE + phy_dx2gcr, DDRPHYC_BASE + phy_dx3gcr}"
  let ?B = "{DDRPHYC_BASE + phy_bistrr, DDRPHYC_BASE + phy_bistwcr, DDRPHYC_BASE + phy_bistar0,
     DDRPHYC_BASE + phy_bistar1, DDRPHYC_BASE + phy_bistar2}"
  have clr: "x \<notin> ddr_status \<Longrightarrow> a \<noteq> x \<Longrightarrow> R (clrbits_le32 h x v t) a = R t a" for a x v and t :: "'d sys"
    by simp
  have R1: "a \<notin> ?W \<Longrightarrow> R s1 a = R s a" for a
    by (simp add: s1_def clr del: R_bits)
  have R2: "a \<notin> ?B \<Longrightarrow> R (config_BIST h DDRCTRL_BASE DDRPHYC_BASE s1) a = R s1 a" for a
    by (simp add: config_BIST_R)
  have ne: "DDRPHYC_BASE + phy_bistwcr \<noteq> DDRPHYC_BASE + phy_bistar0"
    "DDRPHYC_BASE + phy_bistwcr \<noteq> DDRPHYC_BASE + phy_bistar1"
    "DDRPHYC_BASE + phy_bistwcr \<noteq> DDRPHYC_BASE + phy_bistar2"
    by (simp_all add: reg_defs)
  show "R (tuning_prologue h DDRCTRL_BASE DDRPHYC_BASE s) (DDRPHYC_BASE + phy_bistwcr) = 0x200"
    unfolding p config_BIST_R by (simp only: fun_upd_apply ne if_False if_True refl)
  show "lane_regs (tuning_prologue h DDRCTRL_BASE DDRPHYC_BASE s) b = lane_regs s b" if "b < 4"
  proof -
    have "a \<notin> ?W \<and> a \<notin> ?B" if "a \<in> {DXNDLLCR DDRPHYC_BASE b, DXNDQTR DDRPHYC_BASE b, DXNDQSTR DDRPHYC_BASE b}" for a
      using that lane_cases [OF \<open>b < 4\<close>] by (auto simp: reg_defs)
    then show ?thesis unfolding p lane_regs_def using R1 R2 by simp
  qed
  show "R (tuning_prologue h DDRCTRL_BASE DDRPHYC_BASE s) a = R s a" if "a \<notin> phy_block"
  proof -
    have "?W \<union> ?B \<subseteq> phy_block" by (simp add: phy_block_def reg_defs)
    then have "a \<notin> ?W" "a \<notin> ?B" using that by blast+
    then show ?thesis unfolding p by (rule R2 [THEN trans, OF _ R1, rotated])
  qed
  show "bist_error_max (tuning_prologue h DDRCTRL_BASE DDRPHYC_BASE s) = bist_error_max s"
    unfolding p s1_def other_state_geometry bus_other_state ..
qed

end

text \<open>The registers of a lane, apart from the others.\<close>

definition lane_block :: "u8 \<Rightarrow> u32 set" where
  "lane_block b = {DXNGCR DDRPHYC_BASE b, DXNDLLCR DDRPHYC_BASE b, DXNDQTR DDRPHYC_BASE b, DXNDQSTR DDRPHYC_BASE b}"

lemma lane_block_phy: "b < 4 \<Longrightarrow> a \<in> lane_block b \<Longrightarrow> a \<in> phy_block"
  using phy_block_lane by (auto simp: lane_block_def)

lemma wcr_not_lane:
  assumes "b < 4"
  shows "DDRPHYC_BASE + phy_bistwcr \<notin> lane_block b"
  using lane_cases [OF assms] by (auto simp: lane_block_def reg_defs)

lemma other_lane:
  assumes "b < 4" "c < 4" "c \<noteq> b"
  shows "DXNDLLCR DDRPHYC_BASE c \<notin> lane_block b" "DXNDQTR DDRPHYC_BASE c \<notin> lane_block b"
    "DXNDQSTR DDRPHYC_BASE c \<notin> lane_block b"
  using lane_cases [OF assms(1)] lane_cases [OF assms(2)] assms(3) by (auto simp: lane_block_def reg_defs)

text \<open>The rule for the loops over the byte lanes: a round that finds its lane as the loop found
  it, does \<open>G\<close> to it and touches no other register leaves every lane with its \<open>G\<close>.\<close>


context ddr_regs
begin

lemma byte_loop:
  fixes f :: "u8 \<Rightarrow> 'x \<times> 'd sys \<Rightarrow> ('r option \<times> 'x \<times> 'd sys) option"
  assumes n: "n \<le> 4"
    and start: "X 0 x0" "R s (DDRPHYC_BASE + phy_bistwcr) = 0x200" "0 < bist_error_max s"
    and round: "\<And>i x t. i < n \<Longrightarrow> X i x \<Longrightarrow> R t (DDRPHYC_BASE + phy_bistwcr) = 0x200 \<Longrightarrow>
        0 < bist_error_max t \<Longrightarrow> lane_regs t (of_nat i) = lane_regs s (of_nat i) \<Longrightarrow>
        \<exists>x' t'. f (of_nat i) (x, t) = Some (None, x', t') \<and> X (Suc i) x' \<and>
          G (of_nat i) (lane_regs t' (of_nat i)) \<and> 0 < bist_error_max t' \<and>
          (\<forall>a. a \<notin> bist_scratch \<and> a \<notin> lane_block (of_nat i) \<longrightarrow> R t' a = R t a)"
  shows "\<exists>x' t'. for_each_opt f (map of_nat [0..<n]) (x0, s) = Some (None, x', t') \<and> X n x' \<and>
    (\<forall>b. unat b < n \<longrightarrow> G b (lane_regs t' b)) \<and> (\<forall>a. a \<notin> phy_block \<longrightarrow> R t' a = R s a) \<and>
    0 < bist_error_max t'"
proof -
  define I :: "nat \<Rightarrow> 'x \<times> 'd sys \<Rightarrow> bool" where
    "I = (\<lambda>i (x, t). X i x \<and> R t (DDRPHYC_BASE + phy_bistwcr) = 0x200 \<and> 0 < bist_error_max t \<and>
       (\<forall>a. a \<notin> phy_block \<longrightarrow> R t a = R s a) \<and>
       (\<forall>b<4. i \<le> unat b \<longrightarrow> lane_regs t b = lane_regs s b) \<and>
       (\<forall>b<4. unat b < i \<longrightarrow> G b (lane_regs t b)))"
  have "\<exists>xt. for_each_opt f (map of_nat [0..<n]) (x0, s) = Some (None, xt) \<and>
      I (length (map of_nat [0..<n] :: u8 list)) xt"
  proof (rule for_each_opt_steps)
    show "I 0 (x0, s)" using start by (simp add: I_def)
    fix i and xt :: "'x \<times> 'd sys"
    assume i: "i < length (map of_nat [0..<n] :: u8 list)" and I: "I i xt"
    obtain x t where xt: "xt = (x, t)" by fastforce
    let ?b = "of_nat i :: u8"
    have i4: "i < n" "i < 4" using i n by simp_all
    have ub: "unat ?b = i" using i4 by (simp add: unat_of_nat)
    have b4: "?b < 4" using ub i4 by (simp add: word_less_nat_alt)
    have J: "X i x" "R t (DDRPHYC_BASE + phy_bistwcr) = 0x200" "0 < bist_error_max t"
      "\<And>a. a \<notin> phy_block \<Longrightarrow> R t a = R s a"
      "\<And>b. b < 4 \<Longrightarrow> i \<le> unat b \<Longrightarrow> lane_regs t b = lane_regs s b"
      "\<And>b. b < 4 \<Longrightarrow> unat b < i \<Longrightarrow> G b (lane_regs t b)"
      using I by (simp_all add: I_def xt)
    obtain x' t' where step: "f ?b (x, t) = Some (None, x', t')" "X (Suc i) x'" "G ?b (lane_regs t' ?b)"
      "0 < bist_error_max t'" and fr: "\<And>a. a \<notin> bist_scratch \<Longrightarrow> a \<notin> lane_block ?b \<Longrightarrow> R t' a = R t a"
      using round [OF i4(1) J(1-3) J(5) [OF b4]] ub by auto
    have other: "lane_regs t' c = lane_regs t c" if "c < 4" "c \<noteq> ?b" for c
      using fr lane_not_scratch [OF that(1)] other_lane [OF b4 that] by (simp add: lane_regs_def)
    have neq: "c \<noteq> ?b \<longleftrightarrow> unat c \<noteq> i" for c :: u8 using ub by (auto simp: word_unat_eq_iff)
    have "R t' (DDRPHYC_BASE + phy_bistwcr) = 0x200"
      using fr [OF phy_not_scratch(1) wcr_not_lane [OF b4]] J(2) by simp
    moreover have "R t' a = R s a" if "a \<notin> phy_block" for a
      using fr J(4) phy_block_scratch lane_block_phy [OF b4] that by metis
    moreover have "lane_regs t' c = lane_regs s c" if "c < 4" "Suc i \<le> unat c" for c
      using other J(5) neq [of c] that by simp
    moreover have "G c (lane_regs t' c)" if "c < 4" "unat c < Suc i" for c
      using other J(6) step(3) neq [of c] that by (cases "c = ?b") (simp_all add: less_Suc_eq)
    ultimately have "I (Suc i) (x', t')" using step by (simp add: I_def)
    then show "\<exists>xt'. f (map of_nat [0..<n] ! i) xt = Some (None, xt') \<and> I (Suc i) xt'"
      using step(1) xt i4(1) by auto
  qed
  then obtain x' t' where run: "for_each_opt f (map of_nat [0..<n]) (x0, s) = Some (None, x', t')"
    and I: "I n (x', t')" by auto
  have "G b (lane_regs t' b)" if "unat b < n" for b
  proof -
    have "b < 4" using that n by (simp add: word_less_nat_alt)
    then show ?thesis using I that by (simp add: I_def)
  qed
  then show ?thesis using run I by (intro exI [of _ x'] exI [of _ t']) (simp add: I_def)
qed

end

context bist_phy
begin

lemma lane_of: "b < 4 \<Longrightarrow> bist_lane h regs lag eye b"
  by unfold_locales

definition gate_passes :: "'d sys \<Rightarrow> u8 \<Rightarrow> u8 \<times> u8 \<Rightarrow> bool" where
  "gate_passes s b g = (case lane_regs s b of (d, q, x) \<Rightarrow> eye b d q (gate_fields g x))"

lemma read_dqs_gating_returns:
  assumes max: "0 < bist_error_max s"
    and windows: "\<And>b. b < fst (get_nb_bytes h DDRCTRL_BASE s) \<Longrightarrow> gate_window (gate_passes s b) (L b) (Rt b)"
  shows "\<exists>s'. read_dqs_gating h DDRCTRL_BASE DDRPHYC_BASE s = Some (TEST_PASSED, s') \<and>
    (\<forall>b<fst (get_nb_bytes h DDRCTRL_BASE s). \<exists>g. good_gate (gate_passes s b) (L b) (Rt b) g \<and>
       lane_regs s' b = (case lane_regs s b of (d, q, x) \<Rightarrow> (d, q, gate_fields g x))) \<and>
    (\<forall>a. a \<notin> phy_block \<longrightarrow> R s' a = R s a) \<and> 0 < bist_error_max s'"
proof -
  define nb where "nb = fst (get_nb_bytes h DDRCTRL_BASE s)"
  define s0 where "s0 = snd (get_nb_bytes h DDRCTRL_BASE s)"
  define s1 where "s1 = tuning_prologue h DDRCTRL_BASE DDRPHYC_BASE s0"
  define log0 :: "u8 list list list" where "log0 = replicate 4 (replicate 6 (replicate 4 0))"
  have nb: "unat nb \<le> 4" using nb_bytes_cases [of DDRCTRL_BASE s] by (auto simp: nb_def)
  have R1: "\<And>b. b < 4 \<Longrightarrow> lane_regs s1 b = lane_regs s b" "\<And>a. a \<notin> phy_block \<Longrightarrow> R s1 a = R s a"
    using tuning_prologue_R(2,3) by (simp_all add: s1_def s0_def lane_regs_def)
  define X :: "nat \<Rightarrow> u8 list list list \<Rightarrow> bool" where
    "X = (\<lambda>i log. length log = 4 \<and> (\<forall>k. i \<le> k \<longrightarrow> k < 4 \<longrightarrow> log ! k = replicate 6 (replicate 4 0)))"
  define G where "G = (\<lambda>b l. \<exists>g. good_gate (gate_passes s b) (L b) (Rt b) g \<and>
    l = (case lane_regs s b of (d, q, x) \<Rightarrow> (d, q, gate_fields g x)))"
  have "\<exists>log t. for_each_opt (gating_byte h DDRPHYC_BASE nb) (map of_nat [0..<unat nb]) (log0, s1) = Some (None, log, t) \<and>
    X (unat nb) log \<and> (\<forall>b. unat b < unat nb \<longrightarrow> G b (lane_regs t b)) \<and>
    (\<forall>a. a \<notin> phy_block \<longrightarrow> R t a = R s1 a) \<and> 0 < bist_error_max t"
  proof (rule byte_loop [OF nb])
    show "X 0 log0" by (simp add: X_def log0_def)
    show "R s1 (DDRPHYC_BASE + phy_bistwcr) = 0x200" by (simp add: s1_def tuning_prologue_R(1))
    show "0 < bist_error_max s1" using max by (simp add: s1_def s0_def tuning_prologue_R(4))
    fix i log t
    assume i: "i < unat nb" and X: "X i log" and wcr: "R t (DDRPHYC_BASE + phy_bistwcr) = 0x200"
      and m: "0 < bist_error_max t" and lr1: "lane_regs t (of_nat i) = lane_regs s1 (of_nat i)"
    let ?b = "of_nat i :: u8"
    have ub: "unat ?b = i" "i < 4" using i nb by (simp_all add: unat_of_nat)
    have b4: "?b < 4" and bnb: "?b < nb" using ub i by (simp_all add: word_less_nat_alt)
    have lr: "lane_regs t ?b = lane_regs s ?b" using lr1 R1(1) [OF b4] by simp
    have "bist_lane.gate_ok eye ?b (R t) = gate_passes s ?b"
      using lr by (auto simp: bist_lane.gate_ok_def [OF lane_of [OF b4]] gate_passes_def lane_regs_def fun_eq_iff)
    then have "gate_window (bist_lane.gate_ok eye ?b (R t)) (L ?b) (Rt ?b)"
      using windows bnb by (simp add: nb_def)
    then obtain log' t' g where step: "gating_byte h DDRPHYC_BASE nb ?b (log, t) = Some (None, log', t')"
      and good: "good_gate (bist_lane.gate_ok eye ?b (R t)) (L ?b) (Rt ?b) g"
      and x: "R t' (DXNDQSTR DDRPHYC_BASE ?b) = gate_fields g (R t (DXNDQSTR DDRPHYC_BASE ?b))"
      and fr: "\<forall>a. a \<notin> bist_scratch \<and> a \<noteq> DXNGCR DDRPHYC_BASE ?b \<and> a \<noteq> DXNDQSTR DDRPHYC_BASE ?b \<longrightarrow>
        R t' a = R t a"
      and m': "0 < bist_error_max t'" and log': "length log' = 4" "\<forall>k. k \<noteq> unat ?b \<longrightarrow> log' ! k = log ! k"
      using bist_lane.gating_byte_returns [OF lane_of [OF b4], of t log "L ?b" "Rt ?b" nb] X ub wcr m
      unfolding X_def by force
    have "G ?b (lane_regs t' ?b)"
      using fr x lr good lane_not_scratch [OF b4] lane_regs_apart [OF b4 b4]
        \<open>bist_lane.gate_ok eye ?b (R t) = gate_passes s ?b\<close>
      unfolding G_def by (intro exI [of _ g]) (auto simp: lane_regs_def)
    moreover have "X (Suc i) log'" using X log' ub by (simp add: X_def)
    ultimately show "\<exists>log' t'. gating_byte h DDRPHYC_BASE nb ?b (log, t) = Some (None, log', t') \<and> X (Suc i) log' \<and>
        G ?b (lane_regs t' ?b) \<and> 0 < bist_error_max t' \<and>
        (\<forall>a. a \<notin> bist_scratch \<and> a \<notin> lane_block ?b \<longrightarrow> R t' a = R t a)"
      using step m' fr by (auto simp: lane_block_def)
  qed
  then obtain log t where run: "for_each_opt (gating_byte h DDRPHYC_BASE nb) (bytes_upto nb) (log0, s1) = Some (None, log, t)"
    and G: "\<And>b. b < nb \<Longrightarrow> G b (lane_regs t b)" and fr: "\<And>a. a \<notin> phy_block \<Longrightarrow> R t a = R s1 a"
    and m: "0 < bist_error_max t"
    by (auto simp: bytes_upto_def word_less_nat_alt)
  have "get_nb_bytes h DDRCTRL_BASE s = (nb, s0)" by (simp add: nb_def s0_def)
  then have "read_dqs_gating h DDRCTRL_BASE DDRPHYC_BASE s = Some (TEST_PASSED, t)"
    using run unfolding read_dqs_gating_def log0_def s1_def by simp
  then show ?thesis using G fr R1(2) m unfolding nb_def [symmetric] G_def by auto
qed

end


end
