(* ===== verification/DdrEye.thy ===== *)
theory DdrEye
  imports DdrGating
begin

text \<open>
  The eye training (ddr/stm32mp1_tuning.c, \<open>eye_training\<close>): for every byte lane, the DQS
  phase and unit delay are moved left and right from a passing setting until the lane
  fails, and set to the middle. The steps of the C function are definitions of their own;
  the local variables a step changes are its results. \<open>eye_training_val\<close> is a local array of
  which only the row of the present byte is used: its two entries are a pair here.
\<close>

definition eye_test ::
  "'d platform \<Rightarrow> u32 \<Rightarrow> u8 \<Rightarrow> int \<Rightarrow> int \<Rightarrow> 'd sys \<Rightarrow> (bool \<times> 'd sys) option" where
  "eye_test h phy byte dqs_unit_delay_index phase_idx s =
     do { s \<leftarrow> DQS_unit_delay h phy byte (word_of_int dqs_unit_delay_index) s;
          s \<leftarrow> DQS_phase_delay h phy byte (word_of_int phase_idx) s;
          BIST_test h phy byte s }"

subsection \<open>Step 0: a setting that passes\<close>

text \<open>Both searches move the index before they use it.\<close>

definition eye_look_left ::
  "'d platform \<Rightarrow> u32 \<Rightarrow> u8 \<Rightarrow> int \<times> bool \<times> 'd sys \<Rightarrow> (int \<times> bool \<times> 'd sys) option" where
  "eye_look_left h phy byte =
     while_opt (\<lambda>(phase_idx, success, s). phase_idx \<ge> 0 \<and> \<not> success)
       (\<lambda>(phase_idx, success, s).
          let phase_idx = phase_idx - 1
          in do { s \<leftarrow> DQS_phase_delay h phy byte (word_of_int phase_idx) s;
                  (success, s) \<leftarrow> BIST_test h phy byte s;
                  Some (phase_idx, success, s) })"

definition eye_look_right ::
  "'d platform \<Rightarrow> u32 \<Rightarrow> u8 \<Rightarrow> int \<times> bool \<times> 'd sys \<Rightarrow> (int \<times> bool \<times> 'd sys) option" where
  "eye_look_right h phy byte =
     while_opt (\<lambda>(phase_idx, success, s). phase_idx \<le> MAX_DQS_PHASE_IDX \<and> \<not> success)
       (\<lambda>(phase_idx, success, s).
          let phase_idx = phase_idx + 1
          in do { s \<leftarrow> DQS_phase_delay h phy byte (word_of_int phase_idx) s;
                  (success, s) \<leftarrow> BIST_test h phy byte s;
                  Some (phase_idx, success, s) })"

definition eye_step0 ::
  "'d platform \<Rightarrow> u32 \<Rightarrow> u8 \<Rightarrow> 'd sys \<Rightarrow> (int \<times> bool \<times> 'd sys) option" where
  "eye_step0 h phy byte s =
     (let phase_idx = idx_90deg; dqs_unit_delay_index = 3
      in do { (success, s) \<leftarrow> eye_test h phy byte dqs_unit_delay_index phase_idx s;
              (phase_idx, success, s) \<leftarrow>
                (if \<not> success then eye_look_left h phy byte (phase_idx, success, s)
                 else Some (phase_idx, success, s));
              (if \<not> success then eye_look_right h phy byte (idx_90deg, success, s)
               else Some (phase_idx, success, s)) })"

subsection \<open>Steps 1 to 4: the bounds\<close>

text \<open>The final index is the phase of the bound, also when the bound is not found.\<close>

definition eye_left_phase ::
  "'d platform \<Rightarrow> u32 \<Rightarrow> u8 \<Rightarrow> int \<Rightarrow> int \<Rightarrow> 'd sys \<Rightarrow> (int \<times> 'd sys) option" where
  "eye_left_phase h phy byte dqs_unit_delay_index phase_idx s =
     do { (phase_idx, found, s) \<leftarrow>
            while_opt (\<lambda>(phase_idx, found, s). phase_idx \<ge> 0 \<and> phase_idx \<le> MAX_DQS_PHASE_IDX \<and> \<not> found)
              (\<lambda>(phase_idx, found, s).
                 do { (success, s) \<leftarrow> eye_test h phy byte dqs_unit_delay_index phase_idx s;
                      Some (if \<not> success then (phase_idx + 1, True, s)
                            else (phase_idx - 1, found, s)) })
              (phase_idx, False, s);
          Some (if \<not> found then 0 else phase_idx, s) }"

text \<open>The unit of the bound, whether it was found, and the index the search stopped at.\<close>

definition eye_left_unit ::
  "'d platform \<Rightarrow> u32 \<Rightarrow> u8 \<Rightarrow> int \<Rightarrow> int \<Rightarrow> 'd sys \<Rightarrow> (int \<times> bool \<times> 'd sys) option" where
  "eye_left_unit h phy byte dqs_unit_delay_index phase_idx s =
     do { (dqs_unit_delay_index, found, s) \<leftarrow>
            while_opt (\<lambda>(u, found, s). u \<ge> 0 \<and> \<not> found)
              (\<lambda>(u, found, s).
                 do { (success, s) \<leftarrow> eye_test h phy byte u phase_idx s;
                      Some (if \<not> success then (u + 1, True, s) else (u - 1, found, s)) })
              (dqs_unit_delay_index, False, s);
          Some (if \<not> found then 0 else dqs_unit_delay_index, found, s) }"

definition eye_right_phase ::
  "'d platform \<Rightarrow> u32 \<Rightarrow> u8 \<Rightarrow> int \<Rightarrow> int \<Rightarrow> 'd sys \<Rightarrow> (int \<times> 'd sys) option" where
  "eye_right_phase h phy byte dqs_unit_delay_index phase_idx s =
     do { (phase_idx, found, s) \<leftarrow>
            while_opt (\<lambda>(phase_idx, found, s). phase_idx \<le> MAX_DQS_PHASE_IDX \<and> \<not> found)
              (\<lambda>(phase_idx, found, s).
                 do { (success, s) \<leftarrow> eye_test h phy byte dqs_unit_delay_index phase_idx s;
                      Some (if \<not> success then (phase_idx - 1, True, s)
                            else (phase_idx + 1, found, s)) })
              (phase_idx, False, s);
          Some (if \<not> found then MAX_DQS_PHASE_IDX else phase_idx, s) }"

definition eye_right_unit ::
  "'d platform \<Rightarrow> u32 \<Rightarrow> u8 \<Rightarrow> int \<Rightarrow> int \<Rightarrow> 'd sys \<Rightarrow> (int \<times> bool \<times> 'd sys) option" where
  "eye_right_unit h phy byte dqs_unit_delay_index phase_idx s =
     do { (dqs_unit_delay_index, found, s) \<leftarrow>
            while_opt (\<lambda>(u, found, s). u \<le> MAX_DQS_UNIT_IDX \<and> \<not> found)
              (\<lambda>(u, found, s).
                 do { (success, s) \<leftarrow> eye_test h phy byte u phase_idx s;
                      Some (if \<not> success then (u - 1, True, s) else (u + 1, found, s)) })
              (dqs_unit_delay_index, False, s);
          Some (if \<not> found then MAX_DQS_UNIT_IDX else dqs_unit_delay_index, found, s) }"

subsection \<open>The middle\<close>

record tuning_bounds =
  left_phase :: u8
  left_unit :: u8
  left_bound_found :: bool
  right_phase :: u8
  right_unit :: u8
  right_bound_found :: bool

definition eye_midpoint :: "tuning_bounds \<Rightarrow> u8 \<times> u8" where
  "eye_midpoint b =
     (if left_bound_found b \<or> right_bound_found b
      then let v0 = word_of_int ((uint (right_phase b) + uint (left_phase b)) div 2);
               v1 = word_of_int ((uint (right_unit b) + uint (left_unit b)) div 2)
           in (v0, if (uint (right_phase b) + uint (left_phase b)) mod 2 = 1 \<and>
                      uint v1 \<noteq> MAX_DQS_UNIT_IDX then v1 + 1 else v1)
      else (3, 3))"

subsection \<open>One byte lane and all of them\<close>

definition interrupted_with :: "u8 \<Rightarrow> u8 \<Rightarrow> u8 \<Rightarrow> 'd sys \<Rightarrow> 'd sys" where
  "interrupted_with byte nb_bytes error s =
     sprintf ''interrupted at byte %d/%d, error=%d''
       [AInt (uint byte + 1), AInt (uint nb_bytes), AInt (uint error)] s"

text \<open>A check for the user's interrupt, and what is done without one.\<close>

definition unless_key ::
  "'d platform \<Rightarrow> u8 \<Rightarrow> u8 \<Rightarrow> u8 \<Rightarrow> ('d sys \<Rightarrow> (test_result option \<times> u8 \<times> 'd sys) option) \<Rightarrow>
     'd sys \<Rightarrow> (test_result option \<times> u8 \<times> 'd sys) option" where
  "unless_key h byte nb_bytes error k s =
     (let (key, s) = ctrlc h s
      in if key then Some (Some TEST_FAILED, error, interrupted_with byte nb_bytes error s) else k s)"

text \<open>Steps 1 to 4 and the midpoint, from the passing phase \<open>phase_idx\<close>.\<close>

definition eye_bounds ::
  "'d platform \<Rightarrow> u32 \<Rightarrow> u8 \<Rightarrow> u8 \<Rightarrow> u8 \<Rightarrow> int \<Rightarrow> 'd sys \<Rightarrow>
     (test_result option \<times> u8 \<times> 'd sys) option" where
  "eye_bounds h phy nb_bytes byte error phase_idx_pass s =
     (let dqs_unit_delay_index_pass = 3
      in do { (lp, s) \<leftarrow> eye_left_phase h phy byte dqs_unit_delay_index_pass phase_idx_pass s;
              unless_key h byte nb_bytes error (\<lambda>s.
              do { (lu, left_found, s) \<leftarrow> eye_left_unit h phy byte dqs_unit_delay_index_pass lp s;
              unless_key h byte nb_bytes error (\<lambda>s.
              do { (rp, s) \<leftarrow> eye_right_phase h phy byte dqs_unit_delay_index_pass phase_idx_pass s;
              unless_key h byte nb_bytes error (\<lambda>s.
              do { (ru, right_found, s) \<leftarrow> eye_right_unit h phy byte dqs_unit_delay_index_pass rp s;
                   let (v0, v1) = eye_midpoint
                         \<lparr>left_phase = word_of_int lp, left_unit = word_of_int lu,
                          left_bound_found = left_found,
                          right_phase = word_of_int rp, right_unit = word_of_int ru,
                          right_bound_found = right_found\<rparr>;
                   s \<leftarrow> DQS_phase_delay h phy byte v0 s;
                   s \<leftarrow> DQS_unit_delay h phy byte v1 s;
                   Some (None, error, s) }) s }) s }) s })"

definition eye_byte ::
  "'d platform \<Rightarrow> u32 \<Rightarrow> u8 \<Rightarrow> u8 \<Rightarrow> u8 \<times> 'd sys \<Rightarrow> (test_result option \<times> u8 \<times> 'd sys) option" where
  "eye_byte h phy nb_bytes byte = (\<lambda>(error, s).
     unless_key h byte nb_bytes error (\<lambda>s.
       let s = setbits_le32 h (DXNGCR phy byte) DDRPHYC_DXNGCR_DXEN s;
           s = BIST_datx8_sel h phy byte s
       in do { (phase_idx, success, s) \<leftarrow> eye_step0 h phy byte s;
               if success
               then unless_key h byte nb_bytes error (eye_bounds h phy nb_bytes byte error phase_idx) s
               else Some (None, error + 1, s) }) s)"

definition tuning_result :: "u8 \<Rightarrow> 'd sys \<Rightarrow> test_result \<times> 'd sys" where
  "tuning_result error s =
     (if error \<noteq> 0 then (TEST_FAILED, sprintf ''error = %d'' [AInt (uint error)] s) else (TEST_PASSED, s))"

definition eye_training ::
  "'d platform \<Rightarrow> u32 \<Rightarrow> u32 \<Rightarrow> 'd sys \<Rightarrow> (test_result \<times> 'd sys) option" where
  "eye_training h ctl phy s =
     (let (nb_bytes, s) = get_nb_bytes h ctl s;
          s = tuning_prologue h ctl phy s
      in do { (r, error, s) \<leftarrow> for_each_opt (eye_byte h phy nb_bytes) (bytes_upto nb_bytes) (0, s);
              Some (case r of Some r \<Rightarrow> (r, s) | None \<Rightarrow> tuning_result error s) })"

subsection \<open>The searches as runs of a predicate\<close>

text \<open>From a passing index, the last one that still passes on the way down (up, over at most
  \<open>k\<close> steps); the first passing index below one that fails.\<close>

fun run_down :: "(nat \<Rightarrow> bool) \<Rightarrow> nat \<Rightarrow> nat" where
  "run_down P 0 = 0"
| "run_down P (Suc n) = (if P n then run_down P n else Suc n)"

fun run_up :: "(nat \<Rightarrow> bool) \<Rightarrow> nat \<Rightarrow> nat \<Rightarrow> nat" where
  "run_up P n 0 = n"
| "run_up P n (Suc k) = (if P (Suc n) then run_up P (Suc n) k else n)"

fun first_below :: "(nat \<Rightarrow> bool) \<Rightarrow> nat \<Rightarrow> nat option" where
  "first_below P 0 = None"
| "first_below P (Suc n) = (if P n then Some n else first_below P n)"

lemma run_down_le: "run_down P n \<le> n"
  by (induction n) auto

lemma run_down_passes: "P n \<Longrightarrow> run_down P n \<le> k \<Longrightarrow> k \<le> n \<Longrightarrow> P k"
  by (induction n) (auto simp: le_Suc_eq split: if_splits)

lemma run_down_stops: "run_down P n \<noteq> 0 \<Longrightarrow> \<not> P (run_down P n - 1)"
  by (induction n) (auto split: if_splits)

lemma run_up_ge: "n \<le> run_up P n k" and run_up_le: "run_up P n k \<le> n + k"
proof -
  show "n \<le> run_up P n k" by (induction k arbitrary: n) (auto dest: Suc_leD)
  have "run_up P n k \<le> n + k"
  proof (induction k arbitrary: n)
    case (Suc k)
    then show ?case using Suc [of "Suc n"] by simp
  qed simp
  then show "run_up P n k \<le> n + k" .
qed

lemma run_up_passes: "P n \<Longrightarrow> n \<le> j \<Longrightarrow> j \<le> run_up P n k \<Longrightarrow> P j"
proof (induction k arbitrary: n)
  case (Suc k)
  then show ?case by (cases "j = n") (auto split: if_splits)
qed simp

lemma run_up_stops: "run_up P n k < n + k \<Longrightarrow> \<not> P (Suc (run_up P n k))"
  by (induction k arbitrary: n) (auto split: if_splits)

lemma first_below_Some: "first_below P n = Some p \<Longrightarrow> p < n \<and> P p \<and> (\<forall>k. p < k \<and> k < n \<longrightarrow> \<not> P k)"
  by (induction n) (auto simp: less_Suc_eq split: if_splits)

lemma first_below_None: "first_below P n = None \<longleftrightarrow> (\<forall>k<n. \<not> P k)"
  by (induction n) (auto simp: less_Suc_eq)

lemma descend:
  assumes "I s" "P n"
    and T: "\<And>p s. I s \<Longrightarrow> p \<le> n \<Longrightarrow> \<exists>s'. t (int p) s = Some (P p, s') \<and> I s'"
    and c: "\<And>p s. \<not> c (p, True, s)" "\<And>p s. p \<le> int n \<Longrightarrow> c (p, False, s) \<longleftrightarrow> 0 \<le> p"
  shows "\<exists>x f s'. while_opt c
      (\<lambda>(p, found, s). do { (ok, s) \<leftarrow> t p s; Some (if \<not> ok then (p + 1, True, s) else (p - 1, found, s)) })
      (int n, False, s) = Some (x, f, s') \<and> I s' \<and>
      (if \<not> f then 0 else x) = int (run_down P n) \<and> (f \<longleftrightarrow> 0 < run_down P n)"
  using assms
proof (induction n arbitrary: s)
  case 0
  obtain s' where s': "t 0 s = Some (True, s')" "I s'" using 0(1,2) 0(3) [of s 0] by auto
  let ?f = "\<lambda>(p, found, s). do { (ok, s) \<leftarrow> t p s; Some (if \<not> ok then (p + 1, True, s) else (p - 1, found, s)) }"
  have "\<not> c (-1, False, s')" "c (0, False, s)" using 0(5) [of "-1" s'] 0(5) [of 0 s] by simp_all
  then have "while_opt c ?f (0, False, s) = Some (-1, False, s')"
    using s' by (subst while_opt_unfold, simp, subst while_opt_unfold) simp
  then show ?case using s'(2) by auto
next
  case (Suc n)
  obtain s' where s': "t (int (Suc n)) s = Some (True, s')" "I s'"
    using Suc.prems(1,2) Suc.prems(3) [of s "Suc n"] by auto
  let ?f = "\<lambda>(p, found, s). do { (ok, s) \<leftarrow> t p s; Some (if \<not> ok then (p + 1, True, s) else (p - 1, found, s)) }"
  have step: "while_opt c ?f (int (Suc n), False, s) = while_opt c ?f (int n, False, s')"
    using s' Suc.prems(5) [of "int (Suc n)"] by (subst while_opt_unfold) simp
  show ?case
  proof (cases "P n")
    case True
    have "\<exists>x f s''. while_opt c ?f (int n, False, s') = Some (x, f, s'') \<and> I s'' \<and>
      (if \<not> f then 0 else x) = int (run_down P n) \<and> (f \<longleftrightarrow> 0 < run_down P n)"
      by (rule Suc.IH) (use s' True Suc.prems in auto)
    then show ?thesis unfolding step using True by (simp del: of_nat_Suc)
  next
    case False
    obtain s'' where s'': "t (int n) s' = Some (False, s'')" "I s''"
      using s'(2) False Suc.prems(3) [of s' n] by auto
    have "while_opt c ?f (int n, False, s') = Some (int n + 1, True, s'')"
      using s'' Suc.prems(4) [of "int n + 1" s''] Suc.prems(5) [of "int n" s']
      by (subst while_opt_unfold, simp, subst while_opt_unfold) simp
    then show ?thesis unfolding step using s'' False by auto
  qed
qed

lemma ascend:
  assumes "I s" "P n"
    and T: "\<And>p s. I s \<Longrightarrow> n \<le> p \<Longrightarrow> p \<le> n + k \<Longrightarrow> \<exists>s'. t (int p) s = Some (P p, s') \<and> I s'"
    and c: "\<And>p s. \<not> c (p, True, s)" "\<And>p s. int n \<le> p \<Longrightarrow> c (p, False, s) \<longleftrightarrow> p \<le> int (n + k)"
  shows "\<exists>x f s'. while_opt c
      (\<lambda>(p, found, s). do { (ok, s) \<leftarrow> t p s; Some (if \<not> ok then (p - 1, True, s) else (p + 1, found, s)) })
      (int n, False, s) = Some (x, f, s') \<and> I s' \<and>
      (if \<not> f then int (n + k) else x) = int (run_up P n k) \<and> (f \<longleftrightarrow> run_up P n k < n + k)"
  using assms
proof (induction k arbitrary: s n)
  case 0
  obtain s' where s': "t (int n) s = Some (True, s')" "I s'" using 0(1,2) 0(3) [of s n] by auto
  let ?f = "\<lambda>(p, found, s). do { (ok, s) \<leftarrow> t p s; Some (if \<not> ok then (p - 1, True, s) else (p + 1, found, s)) }"
  have "\<not> c (int n + 1, False, s')" using 0(5) [of "int n + 1" s'] by simp
  then have "while_opt c ?f (int n, False, s) = Some (int n + 1, False, s')"
    using s' 0(5) [of "int n" s] by (subst while_opt_unfold, simp, subst while_opt_unfold) simp
  then show ?case using s'(2) by auto
next
  case (Suc k)
  obtain s' where s': "t (int n) s = Some (True, s')" "I s'"
    using Suc.prems(1,2) Suc.prems(3) [of s n] by auto
  let ?f = "\<lambda>(p, found, s). do { (ok, s) \<leftarrow> t p s; Some (if \<not> ok then (p - 1, True, s) else (p + 1, found, s)) }"
  have n1: "int n + 1 = int (Suc n)" by simp
  have step: "while_opt c ?f (int n, False, s) = while_opt c ?f (int (Suc n), False, s')"
    using s' Suc.prems(5) [of "int n" s] unfolding n1 [symmetric] by (subst while_opt_unfold) simp
  show ?case
  proof (cases "P (Suc n)")
    case True
    have "\<exists>x f s''. while_opt c ?f (int (Suc n), False, s') = Some (x, f, s'') \<and> I s'' \<and>
      (if \<not> f then int (Suc n + k) else x) = int (run_up P (Suc n) k) \<and> (f \<longleftrightarrow> run_up P (Suc n) k < Suc n + k)"
      by (rule Suc.IH) (use s' True Suc.prems in auto)
    note ih = this
    have eq: "run_up P n (Suc k) = run_up P (Suc n) k" and n2: "n + Suc k = Suc n + k"
      using True by simp_all
    show ?thesis unfolding step eq n2 by (rule ih)
  next
    case False
    obtain s'' where s'': "t (int (Suc n)) s' = Some (False, s'')" "I s''"
      using s'(2) False Suc.prems(3) [of s' "Suc n"] by auto
    have "while_opt c ?f (int (Suc n), False, s') = Some (int (Suc n) - 1, True, s'')"
      using s'' Suc.prems(4) [of "int (Suc n) - 1" s''] Suc.prems(5) [of "int (Suc n)" s']
      by (subst while_opt_unfold, simp, subst while_opt_unfold) simp
    then show ?thesis unfolding step using s'' False by auto
  qed
qed


context lane
begin

text \<open>The verdict at phase \<open>p\<close> and unit \<open>u\<close>, the other settings being those of \<open>r\<close>, and the
  states whose other settings are those of \<open>r\<close>.\<close>

definition V :: "'r \<Rightarrow> nat \<Rightarrow> nat \<Rightarrow> bool" where
  "V r p u = pass (phase_at p (unit_at u r))"

definition tuned :: "'r \<Rightarrow> 'd sys \<Rightarrow> bool" where
  "tuned r s \<longleftrightarrow> (\<exists>r'. at r' s \<and> (\<forall>p u. phase_at p (unit_at u r') = phase_at p (unit_at u r)))"

lemma tunedI: "at r s \<Longrightarrow> tuned r s" "at (phase_at p (unit_at u r)) s \<Longrightarrow> tuned r s"
proof -
  show "at r s \<Longrightarrow> tuned r s" by (auto simp: tuned_def)
  assume "at (phase_at p (unit_at u r)) s"
  moreover have "phase_at p' (unit_at u' (phase_at p (unit_at u r))) = phase_at p' (unit_at u' r)" for p' u'
    by simp
  ultimately show "tuned r s" unfolding tuned_def by blast
qed

lemma eye_test_at:
  assumes "tuned r s" "p < 7" "u < 8"
  shows "\<exists>s'. eye_test h phy byte (int u) (int p) s = Some (V r p u, s') \<and>
     at (phase_at p (unit_at u r)) s'"
proof -
  obtain r' where r': "at r' s" "\<And>p u. phase_at p (unit_at u r') = phase_at p (unit_at u r)"
    using assms(1) by (auto simp: tuned_def)
  obtain s1 where s1: "DQS_unit_delay h phy byte (of_nat u) s = Some s1" "at (unit_at u r') s1"
    using unit_law [OF r'(1) assms(3)] by blast
  obtain s2 where s2: "DQS_phase_delay h phy byte (of_nat p) s1 = Some s2" "at (phase_at p (unit_at u r)) s2"
    using phase_law [OF s1(2) assms(2)] r'(2) by auto
  obtain s3 where "BIST_test h phy byte s2 = Some (pass (phase_at p (unit_at u r)), s3)"
    "at (phase_at p (unit_at u r)) s3" using test_law [OF s2(2)] by blast
  then show ?thesis using s1 s2 by (simp add: eye_test_def V_def)
qed

lemma eye_test_tuned:
  "tuned r s \<Longrightarrow> p < 7 \<Longrightarrow> u < 8 \<Longrightarrow>
     \<exists>s'. eye_test h phy byte (int u) (int p) s = Some (V r p u, s') \<and> tuned r s'"
  using eye_test_at tunedI(2) by blast

lemma left_phase_run:
  assumes "tuned r s" "p < 7" "u < 8" "V r p u"
  shows "\<exists>s'. eye_left_phase h phy byte (int u) (int p) s = Some (int (run_down (\<lambda>p. V r p u) p), s') \<and> tuned r s'"
proof -
  let ?c = "\<lambda>(phase_idx, found, s :: 'd sys). phase_idx \<ge> 0 \<and> phase_idx \<le> MAX_DQS_PHASE_IDX \<and> \<not> found"
  have "\<exists>x f s'. while_opt ?c
      (\<lambda>(p, found, s). do { (ok, s) \<leftarrow> eye_test h phy byte (int u) p s;
                            Some (if \<not> ok then (p + 1, True, s) else (p - 1, found, s)) })
      (int p, False, s) = Some (x, f, s') \<and> tuned r s' \<and>
      (if \<not> f then 0 else x) = int (run_down (\<lambda>p. V r p u) p) \<and> (f \<longleftrightarrow> 0 < run_down (\<lambda>p. V r p u) p)"
    by (rule descend) (use assms eye_test_tuned in \<open>auto simp: MAX_DQS_PHASE_IDX_def\<close>)
  then show ?thesis unfolding eye_left_phase_def by auto
qed

lemma left_unit_run:
  assumes "tuned r s" "p < 7" "u < 8" "V r p u"
  shows "\<exists>s'. eye_left_unit h phy byte (int u) (int p) s =
     Some (int (run_down (V r p) u), 0 < run_down (V r p) u, s') \<and> tuned r s'"
proof -
  have "\<exists>x f s'. while_opt (\<lambda>(u, found, s :: 'd sys). u \<ge> 0 \<and> \<not> found)
      (\<lambda>(u, found, s). do { (ok, s) \<leftarrow> eye_test h phy byte u (int p) s;
                            Some (if \<not> ok then (u + 1, True, s) else (u - 1, found, s)) })
      (int u, False, s) = Some (x, f, s') \<and> tuned r s' \<and>
      (if \<not> f then 0 else x) = int (run_down (V r p) u) \<and> (f \<longleftrightarrow> 0 < run_down (V r p) u)"
    by (rule descend) (use assms eye_test_tuned in auto)
  then show ?thesis unfolding eye_left_unit_def by auto
qed

lemma right_phase_run:
  assumes "tuned r s" "p < 7" "u < 8" "V r p u"
  shows "\<exists>s'. eye_right_phase h phy byte (int u) (int p) s =
     Some (int (run_up (\<lambda>p. V r p u) p (6 - p)), s') \<and> tuned r s'"
proof -
  let ?c = "\<lambda>(phase_idx, found, s :: 'd sys). phase_idx \<le> MAX_DQS_PHASE_IDX \<and> \<not> found"
  have "\<exists>x f s'. while_opt ?c
      (\<lambda>(p, found, s). do { (ok, s) \<leftarrow> eye_test h phy byte (int u) p s;
                            Some (if \<not> ok then (p - 1, True, s) else (p + 1, found, s)) })
      (int p, False, s) = Some (x, f, s') \<and> tuned r s' \<and>
      (if \<not> f then int (p + (6 - p)) else x) = int (run_up (\<lambda>p. V r p u) p (6 - p)) \<and>
      (f \<longleftrightarrow> run_up (\<lambda>p. V r p u) p (6 - p) < p + (6 - p))"
    by (rule ascend) (use assms eye_test_tuned in \<open>auto simp: MAX_DQS_PHASE_IDX_def\<close>)
  moreover have "int (p + (6 - p)) = MAX_DQS_PHASE_IDX" using assms(2) by (simp add: MAX_DQS_PHASE_IDX_def)
  ultimately show ?thesis unfolding eye_right_phase_def by auto
qed

lemma right_unit_run:
  assumes "tuned r s" "p < 7" "u < 8" "V r p u"
  shows "\<exists>s'. eye_right_unit h phy byte (int u) (int p) s =
     Some (int (run_up (V r p) u (7 - u)), run_up (V r p) u (7 - u) < 7, s') \<and> tuned r s'"
proof -
  have "\<exists>x f s'. while_opt (\<lambda>(u, found, s :: 'd sys). u \<le> MAX_DQS_UNIT_IDX \<and> \<not> found)
      (\<lambda>(u, found, s). do { (ok, s) \<leftarrow> eye_test h phy byte u (int p) s;
                            Some (if \<not> ok then (u - 1, True, s) else (u + 1, found, s)) })
      (int u, False, s) = Some (x, f, s') \<and> tuned r s' \<and>
      (if \<not> f then int (u + (7 - u)) else x) = int (run_up (V r p) u (7 - u)) \<and>
      (f \<longleftrightarrow> run_up (V r p) u (7 - u) < u + (7 - u))"
    by (rule ascend) (use assms eye_test_tuned in \<open>auto simp: MAX_DQS_UNIT_IDX_def\<close>)
  moreover have "int (u + (7 - u)) = MAX_DQS_UNIT_IDX" "u + (7 - u) = 7"
    using assms(3) by (simp_all add: MAX_DQS_UNIT_IDX_def)
  ultimately show ?thesis unfolding eye_right_unit_def by auto
qed

end

subsection \<open>Reference definition of the training of a lane\<close>

text \<open>The phase the bounds are searched from, the four bounds and the middle, for the verdict
  \<open>v p u\<close> at phase \<open>p\<close> and unit \<open>u\<close>.\<close>

definition eye_start :: "(nat \<Rightarrow> nat \<Rightarrow> bool) \<Rightarrow> nat option" where
  "eye_start v = (if v 3 3 then Some 3 else first_below (\<lambda>p. v p 3) 3)"

definition eye_centre :: "nat \<Rightarrow> nat \<Rightarrow> nat \<Rightarrow> nat \<Rightarrow> nat \<times> nat" where
  "eye_centre lp lu rp ru =
     (if 0 < lu \<or> ru < 7
      then let m = (ru + lu) div 2
           in ((rp + lp) div 2, if odd (rp + lp) \<and> m \<noteq> 7 then m + 1 else m)
      else (3, 3))"

definition eye_result :: "(nat \<Rightarrow> nat \<Rightarrow> bool) \<Rightarrow> nat \<Rightarrow> nat \<times> nat" where
  "eye_result v p0 =
     (let lp = run_down (\<lambda>p. v p 3) p0;
          lu = run_down (v lp) 3;
          rp = run_up (\<lambda>p. v p 3) p0 (6 - p0);
          ru = run_up (v rp) 3 4
      in eye_centre lp lu rp ru)"

lemma eye_start_Some: "eye_start v = Some p \<Longrightarrow> p \<le> 3 \<and> v p 3"
  by (auto simp: eye_start_def dest: first_below_Some split: if_splits)

lemma eye_midpoint_centre:
  assumes "lp \<le> 6" "rp \<le> 6" "lu \<le> 7" "ru \<le> 7"
  shows "eye_midpoint \<lparr>left_phase = word_of_int (int lp), left_unit = word_of_int (int lu),
      left_bound_found = (0 < lu), right_phase = word_of_int (int rp),
      right_unit = word_of_int (int ru), right_bound_found = (ru < 7)\<rparr> =
    (of_nat (fst (eye_centre lp lu rp ru)), of_nat (snd (eye_centre lp lu rp ru)))"
proof -
  have u: "uint (of_nat n :: u8) = int n" if "n \<le> 7" for n
    using that by (simp add: unsigned_of_nat take_bit_eq_mod)
  have d: "(int a + int b) div 2 = int ((a + b) div 2)" "(int a + int b) mod 2 = 1 \<longleftrightarrow> odd (a + b)" for a b
    by (simp add: zdiv_int, presburger)
  have m: "(ru + lu) div 2 \<le> 7" using assms by simp
  have p: "(of_nat n + 1 :: u8) = of_nat (n + 1)" for n by simp
  show ?thesis
    using assms m by (simp add: eye_midpoint_def eye_centre_def u d Let_def MAX_DQS_UNIT_IDX_def of_nat_diff)
qed

lemma eye_centre_le:
  assumes "lp \<le> 6" "rp \<le> 6" "lu \<le> 7" "ru \<le> 7"
  shows "fst (eye_centre lp lu rp ru) < 7" "snd (eye_centre lp lu rp ru) < 8"
  using assms by (auto simp: eye_centre_def Let_def)

text \<open>One before the first phase is byte 255.\<close>

lemma phase_before_first: "DQS_phase_delay h phy byte (- 1) s = None"
proof -
  have "unat (- 1 :: u8) = 255" by (simp add: unsigned_minus_1_eq_mask mask_eq_exp_minus_1)
  then show ?thesis by (simp add: DQS_phase_delay_def dx_dll_phase_def)
qed

context lane
begin

lemma look_left_run:
  assumes "at (phase_at p (unit_at 3 r)) s" "p \<le> 3"
  shows "case first_below (\<lambda>p. V r p 3) p of
      Some p0 \<Rightarrow> \<exists>s'. eye_look_left h phy byte (int p, False, s) = Some (int p0, True, s') \<and>
        at (phase_at p0 (unit_at 3 r)) s'
    | None \<Rightarrow> eye_look_left h phy byte (int p, False, s) = None"
  using assms
proof (induction p arbitrary: s)
  case 0
  then show ?case
    unfolding eye_look_left_def by (subst while_opt_unfold) (simp add: phase_before_first)
next
  case (Suc p)
  obtain s1 where s1: "DQS_phase_delay h phy byte (of_nat p) s = Some s1"
    "at (phase_at p (phase_at (Suc p) (unit_at 3 r))) s1"
    using phase_law [OF Suc.prems(1), of p] Suc.prems(2) by auto
  then have at1: "at (phase_at p (unit_at 3 r)) s1" by simp
  obtain s2 where s2: "BIST_test h phy byte s1 = Some (V r p 3, s2)" "at (phase_at p (unit_at 3 r)) s2"
    using test_law [OF at1] by (auto simp: V_def)
  have step: "eye_look_left h phy byte (int (Suc p), False, s) = eye_look_left h phy byte (int p, V r p 3, s2)"
    unfolding eye_look_left_def by (subst while_opt_unfold) (simp add: s1 s2)
  show ?case
  proof (cases "V r p 3")
    case True
    have "eye_look_left h phy byte (int p, True, s2) = Some (int p, True, s2)"
      unfolding eye_look_left_def by (subst while_opt_unfold) simp
    then show ?thesis unfolding step using True s2(2) by simp
  next
    case False
    then have no: "V r p 3 = False" by simp
    then show ?thesis unfolding step no using Suc.IH [OF s2(2)] Suc.prems(2) \<open>\<not> V r p 3\<close> by simp
  qed
qed

lemma step0_run:
  assumes "at r s"
  shows "case eye_start (V r) of
      Some p0 \<Rightarrow> \<exists>s'. eye_step0 h phy byte s = Some (int p0, True, s') \<and> tuned r s'
    | None \<Rightarrow> eye_step0 h phy byte s = None"
proof -
  obtain s1 where s1: "eye_test h phy byte (int 3) (int 3) s = Some (V r 3 3, s1)"
    "at (phase_at 3 (unit_at 3 r)) s1"
    using eye_test_at [OF tunedI(1) [OF assms], of 3 3] by auto
  then have t: "eye_test h phy byte 3 idx_90deg s = Some (V r 3 3, s1)" by (simp add: idx_90deg_def)
  have 3: "idx_90deg = int 3" by (simp add: idx_90deg_def)
  show ?thesis
  proof (cases "V r 3 3")
    case True
    then show ?thesis using t s1(2) tunedI(2) [OF s1(2)]
      by (simp add: eye_step0_def eye_start_def idx_90deg_def)
  next
    case False
    have l: "case first_below (\<lambda>p. V r p 3) 3 of
      Some p0 \<Rightarrow> \<exists>s'. eye_look_left h phy byte (idx_90deg, False, s1) = Some (int p0, True, s') \<and>
        at (phase_at p0 (unit_at 3 r)) s'
      | None \<Rightarrow> eye_look_left h phy byte (idx_90deg, False, s1) = None"
      unfolding 3 by (rule look_left_run [OF s1(2) order.refl])
    show ?thesis
    proof (cases "first_below (\<lambda>p. V r p 3) 3")
      case None
      then show ?thesis using l t False by (simp add: eye_step0_def eye_start_def)
    next
      case (Some p0)
      then obtain s' where "eye_look_left h phy byte (idx_90deg, False, s1) = Some (int p0, True, s')"
        "at (phase_at p0 (unit_at 3 r)) s'" using l by auto
      then show ?thesis using t False Some tunedI(2)
        by (fastforce simp: eye_step0_def eye_start_def)
    qed
  qed
qed

lemma unless_key_at:
  assumes "tuned r s"
  shows "unless_key h byte nb_bytes error k s = k (snd (ctrlc h s))" "tuned r (snd (ctrlc h s))"
proof -
  obtain r' where r': "at r' s" "\<And>p u. phase_at p (unit_at u r') = phase_at p (unit_at u r)"
    using assms by (auto simp: tuned_def)
  obtain s' where "ctrlc h s = (False, s')" "at r' s'" using key_law [OF r'(1)] by blast
  then show "unless_key h byte nb_bytes error k s = k (snd (ctrlc h s))" "tuned r (snd (ctrlc h s))"
    using r'(2) by (auto simp: unless_key_def tuned_def)
qed

lemma eye_bounds_run:
  assumes "tuned r s" "p0 \<le> 3" "V r p0 3"
  shows "\<exists>s' g. eye_bounds h phy nb_bytes byte error (int p0) s = Some (None, error, s') \<and>
    eye_result (V r) p0 = g \<and> at (phase_at (fst g) (unit_at (snd g) r)) s'"
proof -
  define lp where "lp = run_down (\<lambda>p. V r p 3) p0"
  define lu where "lu = run_down (V r lp) 3"
  define rp where "rp = run_up (\<lambda>p. V r p 3) p0 (6 - p0)"
  define ru where "ru = run_up (V r rp) 3 4"
  have lp: "lp \<le> p0" "V r lp 3"
    using run_down_le [of "\<lambda>p. V r p 3" p0] run_down_passes [of "\<lambda>p. V r p 3" p0 lp] assms(3)
    by (simp_all add: lp_def)
  have rp: "p0 \<le> rp" "rp \<le> 6" "V r rp 3"
    using run_up_ge [of p0 "\<lambda>p. V r p 3" "6 - p0"] run_up_le [of "\<lambda>p. V r p 3" p0 "6 - p0"]
      run_up_passes [of "\<lambda>p. V r p 3" p0 rp "6 - p0"] assms(2,3)
    by (simp_all add: rp_def)
  have lu: "lu \<le> 3" and ru: "ru \<le> 7"
    using run_down_le [of "V r lp" 3] run_up_le [of "V r rp" 3 4] by (simp_all add: lu_def ru_def)
  let ?k = "\<lambda>s. snd (ctrlc h s)"
  obtain s1 where s1: "eye_left_phase h phy byte 3 (int p0) s = Some (int lp, s1)" "tuned r s1"
    using left_phase_run [OF assms(1), of p0 3] assms(2,3) by (auto simp: lp_def)
  obtain s2 where s2: "eye_left_unit h phy byte 3 (int lp) (?k s1) = Some (int lu, 0 < lu, s2)" "tuned r s2"
    using left_unit_run [OF unless_key_at(2) [OF s1(2)], of lp 3] lp assms(2) by (auto simp: lu_def)
  obtain s3 where s3: "eye_right_phase h phy byte 3 (int p0) (?k s2) = Some (int rp, s3)" "tuned r s3"
    using right_phase_run [OF unless_key_at(2) [OF s2(2)], of p0 3] assms(2,3) by (auto simp: rp_def)
  obtain s4 where s4: "eye_right_unit h phy byte 3 (int rp) (?k s3) = Some (int ru, ru < 7, s4)" "tuned r s4"
    using right_unit_run [OF unless_key_at(2) [OF s3(2)], of rp 3] rp by (auto simp: ru_def)
  have g: "eye_result (V r) p0 = eye_centre lp lu rp ru"
    by (simp add: eye_result_def Let_def lp_def lu_def rp_def ru_def)
  let ?g = "eye_centre lp lu rp ru"
  have le: "lp \<le> 6" "lu \<le> 7" using lp assms(2) lu by simp_all
  have mid: "eye_midpoint \<lparr>left_phase = word_of_int (int lp), left_unit = word_of_int (int lu),
      left_bound_found = (0 < lu), right_phase = word_of_int (int rp),
      right_unit = word_of_int (int ru), right_bound_found = (ru < 7)\<rparr> = (of_nat (fst ?g), of_nat (snd ?g))"
    by (rule eye_midpoint_centre) (use le rp ru in auto)
  have b: "fst ?g < 7" "snd ?g < 8" using eye_centre_le [of lp rp lu ru] le rp ru by auto
  obtain r' where r': "at r' s4" "\<And>p u. phase_at p (unit_at u r') = phase_at p (unit_at u r)"
    using s4(2) by (auto simp: tuned_def)
  obtain s5 where s5: "DQS_phase_delay h phy byte (of_nat (fst ?g)) s4 = Some s5" "at (phase_at (fst ?g) r') s5"
    using phase_law [OF r'(1) b(1)] by blast
  obtain s6 where s6: "DQS_unit_delay h phy byte (of_nat (snd ?g)) s5 = Some s6"
    "at (phase_at (fst ?g) (unit_at (snd ?g) r)) s6"
    using unit_law [OF s5(2) b(2)] r'(2) by auto
  have "eye_bounds h phy nb_bytes byte error (int p0) s = Some (None, error, s6)"
    unfolding eye_bounds_def Let_def s1(1) Option.bind.bind_lunit prod.case unless_key_at(1) [OF s1(2)]
      s2(1) unless_key_at(1) [OF s2(2)] s3(1) unless_key_at(1) [OF s3(2)] s4(1) mid s5(1) s6(1) ..
  then show ?thesis using s6(2) g by blast
qed

text \<open>The whole round of a selected lane. Without a passing phase at or below the nominal one,
  the search indexes \<open>dx_dll_phase\<close> below its first entry.\<close>

definition eye_lane :: "u8 \<Rightarrow> u8 \<Rightarrow> 'd sys \<Rightarrow> (test_result option \<times> u8 \<times> 'd sys) option" where
  "eye_lane nb_bytes error s =
     do { (phase_idx, success, s) \<leftarrow> eye_step0 h phy byte s;
          if success
          then unless_key h byte nb_bytes error (eye_bounds h phy nb_bytes byte error phase_idx) s
          else Some (None, error + 1, s) }"

lemma eye_lane_run:
  assumes "at r s"
  shows "case eye_start (V r) of
      Some p0 \<Rightarrow> \<exists>s'. eye_lane nb_bytes error s = Some (None, error, s') \<and>
        at (phase_at (fst (eye_result (V r) p0)) (unit_at (snd (eye_result (V r) p0)) r)) s'
    | None \<Rightarrow> eye_lane nb_bytes error s = None"
proof (cases "eye_start (V r)")
  case None
  then show ?thesis using step0_run [OF assms] by (simp add: eye_lane_def)
next
  case (Some p0)
  then obtain s1 where s1: "eye_step0 h phy byte s = Some (int p0, True, s1)" "tuned r s1"
    using step0_run [OF assms] by auto
  have "eye_lane nb_bytes error s = eye_bounds h phy nb_bytes byte error (int p0) (snd (ctrlc h s1))"
    using s1 unless_key_at(1) [OF s1(2)] by (simp add: eye_lane_def)
  then show ?thesis
    using eye_bounds_run [OF unless_key_at(2) [OF s1(2)]] eye_start_Some [OF Some] Some by fastforce
qed

end

subsection \<open>What the middle is worth\<close>

text \<open>With an eye that is an interval of the total delay \<open>8 p + u\<close>, the middle passes, unless no
  unit bound was found and the nominal setting is taken instead.\<close>

definition interval_eye :: "nat \<Rightarrow> nat \<Rightarrow> (nat \<Rightarrow> nat \<Rightarrow> bool) \<Rightarrow> bool" where
  "interval_eye a b v \<longleftrightarrow> (\<forall>p<7. \<forall>u<8. v p u \<longleftrightarrow> a \<le> 8 * p + u \<and> 8 * p + u \<le> b)"

lemma eye_result_passes:
  assumes v: "interval_eye a b v" and p0: "eye_start v = Some p0"
  shows "v (fst (eye_result v p0)) (snd (eye_result v p0)) \<or> eye_result v p0 = (3, 3)"
proof -
  define lp where "lp = run_down (\<lambda>p. v p 3) p0"
  define lu where "lu = run_down (v lp) 3"
  define rp where "rp = run_up (\<lambda>p. v p 3) p0 (6 - p0)"
  define ru where "ru = run_up (v rp) 3 4"
  have p: "p0 \<le> 3" "v p0 3" using eye_start_Some [OF p0] by simp_all
  have l: "lp \<le> p0" "v lp 3"
    using run_down_le [of "\<lambda>p. v p 3" p0] run_down_passes [of "\<lambda>p. v p 3" p0 lp] p(2)
    by (simp_all add: lp_def)
  have r: "p0 \<le> rp" "rp \<le> 6" "v rp 3"
    using run_up_ge [of p0 "\<lambda>p. v p 3" "6 - p0"] run_up_le [of "\<lambda>p. v p 3" p0 "6 - p0"]
      run_up_passes [of "\<lambda>p. v p 3" p0 rp "6 - p0"] p
    by (simp_all add: rp_def)
  have lu: "lu \<le> 3" "v lp lu"
    using run_down_le [of "v lp" 3] run_down_passes [of "v lp" 3 lu] l(2) by (simp_all add: lu_def)
  have ru: "3 \<le> ru" "ru \<le> 7" "v rp ru"
    using run_up_ge [of 3 "v rp" 4] run_up_le [of "v rp" 3 4] run_up_passes [of "v rp" 3 ru 4] r(3)
    by (simp_all add: ru_def)
  have res: "eye_result v p0 = eye_centre lp lu rp ru"
    by (simp add: eye_result_def Let_def lp_def lu_def rp_def ru_def)
  have bl: "a \<le> 8 * lp + lu" "8 * rp + ru \<le> b" "8 * rp + 3 \<le> b" "a \<le> 8 * lp + 3"
    using v l lu r ru p(1) by (simp_all add: interval_eye_def)
  show ?thesis
  proof (cases "0 < lu \<or> ru < 7")
    case False
    then show ?thesis by (simp add: res eye_centre_def)
  next
    case True
    define mp where "mp = (rp + lp) div 2"
    define mu where "mu = (if odd (rp + lp) \<and> (ru + lu) div 2 \<noteq> 7 then (ru + lu) div 2 + 1 else (ru + lu) div 2)"
    have c: "eye_result v p0 = (mp, mu)" using True by (simp add: res eye_centre_def mp_def mu_def Let_def)
    have mu: "mu \<le> 7" "lu \<le> mu" using lu(1) ru by (auto simp: mu_def)
    have mp: "lp \<le> mp" "mp \<le> rp" "mp \<le> 6" using l r by (auto simp: mp_def)
    have "a \<le> 8 * mp + mu"
      using bl(1) mp(1) mu(2) by linarith
    moreover have "8 * mp + mu \<le> b"
    proof (cases "mp = rp")
      case True
      then have "lp = rp" using l r by (simp add: mp_def)
      then have "mu \<le> ru" using lu(1) ru by (auto simp: mu_def)
      then show ?thesis using bl(2) True by linarith
    next
      case False
      then have "8 * mp + 8 \<le> 8 * rp" using mp(2) by linarith
      then show ?thesis using bl(3) mu(1) by linarith
    qed
    ultimately have "v mp mu" using v mp(3) mu(1) by (simp add: interval_eye_def)
    then show ?thesis using c by simp
  qed
qed

text \<open>An eye bounded by phases only, below the nominal phase.\<close>

definition phase_eye :: "nat \<Rightarrow> (nat \<Rightarrow> nat \<Rightarrow> bool) \<Rightarrow> bool" where
  "phase_eye last_phase v \<longleftrightarrow> (\<forall>p<7. \<forall>u<8. v p u \<longleftrightarrow> p \<le> last_phase)"

lemma eye_result_phase_eye:
  assumes v: "phase_eye k v" and k: "k < 3"
  shows "eye_start v = Some k" "eye_result v k = (3, 3)" "\<not> v 3 3"
proof -
  have vk: "v p u \<longleftrightarrow> p \<le> k" if "p < 7" "u < 8" for p u using v that by (simp add: phase_eye_def)
  have lu: "run_down (v p) 3 = 0" if "p \<le> k" for p
    using that k by (simp add: numeral_3_eq_3 vk)
  have lp: "run_down (\<lambda>p. v p 3) k \<le> k" by (rule run_down_le)
  have rp: "run_up (\<lambda>p. v p 3) k (6 - k) = k"
    using k vk by (cases "6 - k") simp_all
  have ru: "run_up (v k) 3 4 = 7"
    using k vk by (simp add: numeral_eq_Suc)
  show "eye_result v k = (3, 3)"
    using lu [OF lp] rp ru by (simp add: eye_result_def eye_centre_def)
  show "\<not> v 3 3" using vk k by simp
  have "k \<in> {0, 1, 2}" using k by auto
  then show "eye_start v = Some k" using vk by (auto simp: eye_start_def numeral_3_eq_3)
qed

subsection \<open>All byte lanes\<close>

context bist_phy
begin

text \<open>The verdict of lane \<open>b\<close> at a phase and a unit.\<close>

definition lane_verdict :: "'d sys \<Rightarrow> u8 \<Rightarrow> nat \<Rightarrow> nat \<Rightarrow> bool" where
  "lane_verdict s b p u = (case lane_regs s b of (d, q, x) \<Rightarrow> eye b (phase_field p d) q (unit_fields u x))"

definition trained :: "'d sys \<Rightarrow> u8 \<Rightarrow> u32 \<times> u32 \<times> u32 \<Rightarrow> bool" where
  "trained s b l \<longleftrightarrow>
     (\<exists>p0. eye_start (lane_verdict s b) = Some p0 \<and>
        (let (p, u) = eye_result (lane_verdict s b) p0;
             (d, q, x) = lane_regs s b
         in l = (phase_field p d, q, unit_fields u x)))"

end

context bist_lane
begin

lemma clean_setting:
  assumes "lane_sel r = byte"
  shows "clean (phase_at p (unit_at u r)) = eye byte (phase_field p (r (DXNDLLCR DDRPHYC_BASE byte)))
     (r (DXNDQTR DDRPHYC_BASE byte)) (unit_fields u (r (DXNDQSTR DDRPHYC_BASE byte)))"
proof -
  have "DXNDQSTR DDRPHYC_BASE byte \<noteq> DDRPHYC_BASE + phy_bistrr"
    "DXNDLLCR DDRPHYC_BASE byte \<noteq> DDRPHYC_BASE + phy_bistrr"
    using lane_cases [OF byte_lt] by (auto simp: reg_defs)
  then have "lane_sel (phase_at p (unit_at u r)) = byte"
    using assms by (simp add: phase_at_def unit_at_def lane_sel_other)
  then show ?thesis
    using lane_regs_apart [OF byte_lt byte_lt] by (simp add: clean_def phase_at_def unit_at_def)
qed

lemma eye_byte_run:
  assumes ready: "R s (DDRPHYC_BASE + phy_bistwcr) = 0x200" "0 < bist_error_max s"
  shows "case eye_start (lane_verdict s byte) of
      Some p0 \<Rightarrow> \<exists>s'. eye_byte h DDRPHYC_BASE nb_bytes byte (error, s) = Some (None, error, s') \<and>
        trained s byte (lane_regs s' byte) \<and> 0 < bist_error_max s' \<and>
        (\<forall>a. a \<notin> bist_scratch \<and> a \<notin> lane_block byte \<longrightarrow> R s' a = R s a)
    | None \<Rightarrow> eye_byte h DDRPHYC_BASE nb_bytes byte (error, s) = None"
proof -
  let ?s1 = "snd (ctrlc h s)"
  define s2 where "s2 = BIST_datx8_sel h DDRPHYC_BASE byte (setbits_le32 h (DXNGCR DDRPHYC_BASE byte) DDRPHYC_DXNGCR_DXEN ?s1)"
  have at: "at (R s2) s2" and frame: "\<And>a. a \<notin> bist_scratch \<Longrightarrow> a \<noteq> DXNGCR DDRPHYC_BASE byte \<Longrightarrow> R s2 a = R s a"
    using select_lane [of ?s1 s2] ready by (simp_all add: s2_def)
  have apart: "DXNDLLCR DDRPHYC_BASE byte \<noteq> DXNGCR DDRPHYC_BASE byte" "DXNDQTR DDRPHYC_BASE byte \<noteq> DXNGCR DDRPHYC_BASE byte"
    "DXNDQSTR DDRPHYC_BASE byte \<noteq> DXNGCR DDRPHYC_BASE byte"
    using lane_regs_apart [OF byte_lt byte_lt] by metis+
  have sel: "lane_sel (R s2) = byte" using at by (simp add: at_def)
  have V: "tuned.V (R s2) = lane_verdict s byte"
    using frame apart lane_not_scratch [OF byte_lt]
    by (simp add: fun_eq_iff tuned.V_def lane_verdict_def lane_regs_def clean_setting [OF sel])
  have run: "eye_byte h DDRPHYC_BASE nb_bytes byte (error, s) = tuned.eye_lane nb_bytes error s2"
    using fst_ctrlc [of s] unfolding eye_byte_def prod.case
    by (simp add: unless_key_def tuned.eye_lane_def s2_def split_def Let_def)
  show ?thesis
  proof (cases "eye_start (lane_verdict s byte)")
    case None
    then show ?thesis using tuned.eye_lane_run [OF at] run V by simp
  next
    case (Some p0)
    define g where "g = eye_result (lane_verdict s byte) p0"
    obtain s' where s': "tuned.eye_lane nb_bytes error s2 = Some (None, error, s')"
      "at (phase_at (fst g) (unit_at (snd g) (R s2))) s'"
      using tuned.eye_lane_run [OF at, of nb_bytes error] V Some by (auto simp: g_def)
    have r: "a \<notin> bist_scratch \<Longrightarrow> R s' a = phase_at (fst g) (unit_at (snd g) (R s2)) a" for a
      by (rule at_reg [OF s'(2)])
    have "lane_regs s' byte = (phase_field (fst g) (R s (DXNDLLCR DDRPHYC_BASE byte)),
        R s (DXNDQTR DDRPHYC_BASE byte), unit_fields (snd g) (R s (DXNDQSTR DDRPHYC_BASE byte)))"
      using r frame apart lane_not_scratch [OF byte_lt] lane_regs_apart [OF byte_lt byte_lt]
      by (simp add: lane_regs_def phase_at_def unit_at_def)
    then have "trained s byte (lane_regs s' byte)"
      using Some by (simp add: trained_def g_def split_def Let_def lane_regs_def)
    moreover have "R s' a = R s a" if "a \<notin> bist_scratch" "a \<notin> lane_block byte" for a
      using r frame that by (simp add: lane_block_def phase_at_def unit_at_def)
    ultimately show ?thesis using Some run s' by (auto simp: at_def)
  qed
qed

end

context bist_phy
begin

lemma eye_training_returns:
  assumes max: "0 < bist_error_max s"
    and start: "\<And>b. b < fst (get_nb_bytes h DDRCTRL_BASE s) \<Longrightarrow> eye_start (lane_verdict s b) \<noteq> None"
  shows "\<exists>s'. eye_training h DDRCTRL_BASE DDRPHYC_BASE s = Some (TEST_PASSED, s') \<and>
    (\<forall>b<fst (get_nb_bytes h DDRCTRL_BASE s). trained s b (lane_regs s' b)) \<and>
    (\<forall>a. a \<notin> phy_block \<longrightarrow> R s' a = R s a) \<and> 0 < bist_error_max s'"
proof -
  define nb where "nb = fst (get_nb_bytes h DDRCTRL_BASE s)"
  define s0 where "s0 = snd (get_nb_bytes h DDRCTRL_BASE s)"
  define s1 where "s1 = tuning_prologue h DDRCTRL_BASE DDRPHYC_BASE s0"
  have nb: "unat nb \<le> 4" using nb_bytes_cases [of DDRCTRL_BASE s] by (auto simp: nb_def)
  have R1: "\<And>b. b < 4 \<Longrightarrow> lane_regs s1 b = lane_regs s b" "\<And>a. a \<notin> phy_block \<Longrightarrow> R s1 a = R s a"
    using tuning_prologue_R(2,3) by (simp_all add: s1_def s0_def lane_regs_def)
  have "\<exists>e t. for_each_opt (eye_byte h DDRPHYC_BASE nb) (map of_nat [0..<unat nb]) (0, s1) = Some (None, e, t) \<and>
    e = 0 \<and> (\<forall>b. unat b < unat nb \<longrightarrow> trained s b (lane_regs t b)) \<and>
    (\<forall>a. a \<notin> phy_block \<longrightarrow> R t a = R s1 a) \<and> 0 < bist_error_max t"
  proof (rule byte_loop [OF nb])
    show "(0 :: u8) = 0" ..
    show "R s1 (DDRPHYC_BASE + phy_bistwcr) = 0x200" by (simp add: s1_def tuning_prologue_R(1))
    show "0 < bist_error_max s1" using max by (simp add: s1_def s0_def tuning_prologue_R(4))
    fix i t and e :: u8
    assume i: "i < unat nb" and e: "e = 0" and ready: "R t (DDRPHYC_BASE + phy_bistwcr) = 0x200"
      "0 < bist_error_max t" and lr1: "lane_regs t (of_nat i) = lane_regs s1 (of_nat i)"
    let ?b = "of_nat i :: u8"
    have ub: "unat ?b = i" "i < 4" using i nb by (simp_all add: unat_of_nat)
    have b4: "?b < 4" and bnb: "?b < nb" using ub i by (simp_all add: word_less_nat_alt)
    have lr: "lane_regs t ?b = lane_regs s ?b" using lr1 R1(1) [OF b4] by simp
    have v1: "lane_verdict t ?b = lane_verdict s ?b"
      using lr by (simp add: lane_verdict_def fun_eq_iff)
    have "trained t ?b = trained s ?b"
      by (rule ext) (simp only: trained_def v1 lr)
    note v = v1 this
    obtain p0 where p0: "eye_start (lane_verdict s ?b) = Some p0" using start bnb by (auto simp: nb_def)
    have "\<exists>t'. eye_byte h DDRPHYC_BASE nb ?b (e, t) = Some (None, e, t') \<and>
        trained t ?b (lane_regs t' ?b) \<and> 0 < bist_error_max t' \<and>
        (\<forall>a. a \<notin> bist_scratch \<and> a \<notin> lane_block ?b \<longrightarrow> R t' a = R t a)"
      using bist_lane.eye_byte_run [OF lane_of [OF b4] ready, of nb e] p0 v by simp
    then show "\<exists>e' t'. eye_byte h DDRPHYC_BASE nb ?b (e, t) = Some (None, e', t') \<and> e' = 0 \<and>
        trained s ?b (lane_regs t' ?b) \<and> 0 < bist_error_max t' \<and>
        (\<forall>a. a \<notin> bist_scratch \<and> a \<notin> lane_block ?b \<longrightarrow> R t' a = R t a)"
      using e v by auto
  qed
  then obtain t where run: "for_each_opt (eye_byte h DDRPHYC_BASE nb) (bytes_upto nb) (0, s1) = Some (None, 0, t)"
    and G: "\<And>b. b < nb \<Longrightarrow> trained s b (lane_regs t b)" and fr: "\<And>a. a \<notin> phy_block \<Longrightarrow> R t a = R s1 a"
    and m: "0 < bist_error_max t"
    by (auto simp: bytes_upto_def word_less_nat_alt)
  have "get_nb_bytes h DDRCTRL_BASE s = (nb, s0)" by (simp add: nb_def s0_def)
  then have "eye_training h DDRCTRL_BASE DDRPHYC_BASE s = Some (TEST_PASSED, t)"
    using run unfolding eye_training_def s1_def by (simp add: tuning_result_def)
  then show ?thesis using G fr R1(2) m unfolding nb_def [symmetric] by auto
qed

end

end
