(* ===== verification/DdrDeskew.thy ===== *)
theory DdrDeskew
  imports DdrEye
begin

text \<open>
  The bit de-skew (ddr/stm32mp1_tuning.c, \<open>bit_deskew\<close>): for every byte lane the DQS is
  delayed to the edge of its eye, then the delay of each data bit is reduced until the lane
  fails, and the bit is set to the last delay that passed. The steps of the C function are
  definitions of their own; the rows of \<open>deskew_delay\<close> and \<open>deskew_non_converge\<close> of the
  present byte are lists of 8 bytes, the other rows are not used. \<open>force_stop\<close> and
  \<open>error\<close> live across the bytes.
\<close>

subsection \<open>A passing start\<close>

definition DDRPHYC_DXNDLLCR_DLLSRST :: u32 where [reg_defs]: "DDRPHYC_DXNDLLCR_DLLSRST = 0x40000000"

text \<open>Enable and select the lane, set the initial delays, reset the DLL, test.\<close>

definition deskew_setup ::
  "'d platform \<Rightarrow> u32 \<Rightarrow> u8 \<Rightarrow> 'd sys \<Rightarrow> (bool \<times> 'd sys) option" where
  "deskew_setup h phy datx8 s =
     (let s = setbits_le32 h (DXNGCR phy datx8) DDRPHYC_DXNGCR_DXEN s;
          s = BIST_datx8_sel h phy datx8 s;
          s = writel h 0xAAAAAAAA (DXNDQTR phy datx8) s;
          phase_idx = idx_90deg;
          dqs_unit_delay_index = MAX_DQS_UNIT_IDX
      in do { s \<leftarrow> DQS_unit_delay h phy datx8 (word_of_int dqs_unit_delay_index) s;
              s \<leftarrow> DQS_phase_delay h phy datx8 (word_of_int phase_idx) s;
              let s = clrbits_le32 h (DXNDLLCR phy datx8) DDRPHYC_DXNDLLCR_DLLSRST s;
              let s = setbits_le32 h (DXNDLLCR phy datx8) DDRPHYC_DXNDLLCR_DLLSRST s;
              BIST_test h phy datx8 s })"

text \<open>Step the phase up, or the unit, until the lane passes.\<close>

definition deskew_phase_pass ::
  "'d platform \<Rightarrow> u32 \<Rightarrow> u8 \<Rightarrow> int \<Rightarrow> 'd sys \<Rightarrow> (int \<times> bool \<times> 'd sys) option" where
  "deskew_phase_pass h phy datx8 phase_idx s =
     do { (phase_idx, success, s) \<leftarrow>
            while_opt (\<lambda>(phase_idx, success, s). \<not> success \<and> phase_idx \<le> MAX_DQS_PHASE_IDX)
              (\<lambda>(phase_idx, success, s).
                 do { s \<leftarrow> DQS_phase_delay h phy datx8 (word_of_int phase_idx) s;
                      (success, s) \<leftarrow> BIST_test h phy datx8 s;
                      Some (phase_idx + 1, success, s) })
              (phase_idx, False, s);
          Some (if success then phase_idx - 1 else phase_idx, success, s) }"

definition deskew_unit_pass ::
  "'d platform \<Rightarrow> u32 \<Rightarrow> u8 \<Rightarrow> 'd sys \<Rightarrow> (int \<times> bool \<times> 'd sys) option" where
  "deskew_unit_pass h phy datx8 s =
     (let phase_idx = 0; dqs_unit_delay_index = 0
      in do { s \<leftarrow> DQS_phase_delay h phy datx8 (word_of_int phase_idx) s;
              (dqs_unit_delay_index, success, s) \<leftarrow>
                while_opt (\<lambda>(u, success, s). \<not> success \<and> u \<le> MAX_DQS_UNIT_IDX)
                  (\<lambda>(u, success, s).
                     do { s \<leftarrow> DQS_unit_delay h phy datx8 (word_of_int u) s;
                          (success, s) \<leftarrow> BIST_test h phy datx8 s;
                          Some (u + 1, success, s) })
                  (dqs_unit_delay_index, False, s);
              (if success
               then let u = dqs_unit_delay_index - 1
                    in do { s \<leftarrow> DQS_unit_delay h phy datx8 (word_of_int u) s; Some (u, True, s) }
               else Some (dqs_unit_delay_index, False, s)) })"

subsection \<open>The edge of the eye\<close>

text \<open>Step 1: the first phase that fails.\<close>

definition deskew_phase_fail ::
  "'d platform \<Rightarrow> u32 \<Rightarrow> u8 \<Rightarrow> int \<Rightarrow> 'd sys \<Rightarrow> (int \<times> bool \<times> 'd sys) option" where
  "deskew_phase_fail h phy datx8 phase_idx s =
     while_opt (\<lambda>(phase_idx, success, s). success \<and> phase_idx \<le> MAX_DQS_PHASE_IDX)
       (\<lambda>(phase_idx, success, s).
          do { s \<leftarrow> DQS_phase_delay h phy datx8 (word_of_int phase_idx) s;
               (success, s) \<leftarrow> BIST_test h phy datx8 s;
               Some (phase_idx + 1, success, s) })
       (phase_idx, True, s)"

text \<open>\<open>last_right_ok\<close> as a pair of phase and unit; its \<open>bits_delay\<close> is always all ones.\<close>

definition deskew_unit_back ::
  "'d platform \<Rightarrow> u32 \<Rightarrow> u8 \<Rightarrow> int \<Rightarrow> 'd sys \<Rightarrow> (int \<times> bool \<times> 'd sys) option" where
  "deskew_unit_back h phy datx8 dqs_unit_delay_index s =
     while_opt (\<lambda>(u, success, s). \<not> success \<and> u \<ge> 0)
       (\<lambda>(u, success, s).
          do { s \<leftarrow> DQS_unit_delay h phy datx8 (word_of_int u) s;
               (success, s) \<leftarrow> BIST_test h phy datx8 s;
               Some (u - 1, success, s) })
       (dqs_unit_delay_index, False, s)"

definition deskew_unit_fail ::
  "'d platform \<Rightarrow> u32 \<Rightarrow> u8 \<Rightarrow> 'd sys \<Rightarrow> (int \<times> bool \<times> 'd sys) option" where
  "deskew_unit_fail h phy datx8 s =
     while_opt (\<lambda>(u, success, s). success \<and> u < MAX_DQS_UNIT_IDX)
       (\<lambda>(u, success, s).
          do { s \<leftarrow> DQS_unit_delay h phy datx8 (word_of_int u) s;
               (success, s) \<leftarrow> BIST_test h phy datx8 s;
               Some (u + 1, success, s) })
       (0, True, s)"

definition deskew_last_right ::
  "'d platform \<Rightarrow> u32 \<Rightarrow> u8 \<Rightarrow> int \<Rightarrow> int \<Rightarrow> bool \<Rightarrow> 'd sys \<Rightarrow> ((u8 \<times> u8) \<times> 'd sys) option" where
  "deskew_last_right h phy datx8 phase_idx dqs_unit_delay_index success s =
     (if \<not> success
      then let phase_idx = phase_idx - 1
           in do { (u, success, s) \<leftarrow> deskew_unit_back h phy datx8 dqs_unit_delay_index s;
                   (if success
                    then Some ((word_of_int phase_idx, word_of_int (u + 1)), s)
                    else do { s \<leftarrow> DQS_phase_delay h phy datx8 (word_of_int (phase_idx - 1)) s;
                              (u, success, s) \<leftarrow> deskew_unit_fail h phy datx8 s;
                              Some ((word_of_int (phase_idx - 1),
                                     if \<not> success then word_of_int (u - 1) else 0), s) }) }
      else Some ((word_of_int MAX_DQS_PHASE_IDX, word_of_int MAX_DQS_UNIT_IDX), s))"

subsection \<open>The data bits\<close>

definition deskew_bit_search ::
  "'d platform \<Rightarrow> u32 \<Rightarrow> u8 \<Rightarrow> u8 \<Rightarrow> 'd sys \<Rightarrow> (int \<times> bool \<times> 'd sys) option" where
  "deskew_bit_search h phy datx8 bit_i s =
     while_opt (\<lambda>(d, success, s). d \<ge> 0 \<and> success)
       (\<lambda>(d, success, s).
          let s = set_DQ_unit_delay h phy datx8 bit_i (word_of_int d) s
          in do { (success, s) \<leftarrow> BIST_test h phy datx8 s; Some (d - 1, success, s) })
       (3, True, s)"

text \<open>The enum whose value is the byte \<open>error\<close>; see \<open>deskew_error_stops\<close> for the values it has.\<close>

definition test_result_of :: "u8 \<Rightarrow> test_result" where
  "test_result_of error =
     (if error = 0 then TEST_PASSED else if error = 1 then TEST_FAILED else TEST_ERROR)"

record deskew_row =
  deskew_delay :: "u8 list"
  deskew_non_converge :: "u8 list"
  fail_found :: bool

definition deskew_bit ::
  "'d platform \<Rightarrow> u32 \<Rightarrow> u8 \<Rightarrow> u8 \<Rightarrow> u8 \<Rightarrow> nat \<Rightarrow> deskew_row \<times> 'd sys \<Rightarrow>
     (test_result option \<times> deskew_row \<times> 'd sys) option" where
  "deskew_bit h phy nb_bytes error datx8 bit_i = (\<lambda>(row, s).
     let (key, s) = ctrlc h s
     in if key
        then Some (Some (test_result_of error), row, interrupted_with datx8 nb_bytes error s)
        else let s = writel h 0xFFFFFFFF (DXNDQTR phy datx8) s
             in do { (d, success, s) \<leftarrow> deskew_bit_search h phy datx8 (of_nat bit_i) s;
                     let v = (word_of_int (d + 2) :: u8);
                     let row = (if \<not> success
                                then row\<lparr>deskew_delay := (deskew_delay row)[bit_i := if v > 3 then 3 else v],
                                         fail_found := True\<rparr>
                                else row\<lparr>deskew_delay := (deskew_delay row)[bit_i := 0],
                                         deskew_non_converge := (deskew_non_converge row)[bit_i := 1]\<rparr>);
                     Some (None, row, s) })"

definition apply_deskew_results ::
  "'d platform \<Rightarrow> u32 \<Rightarrow> u8 \<Rightarrow> deskew_row \<Rightarrow> 'd sys \<Rightarrow> 'd sys" where
  "apply_deskew_results h phy byte row s =
     fold (\<lambda>bit_i s.
             let s = set_DQ_unit_delay h phy byte (of_nat bit_i) (deskew_delay row ! bit_i) s
             in snd (DQ_unit_index h phy byte (of_nat bit_i) s)) [0..<8] s"

text \<open>Step 2: from the edge \<open>last_right_ok\<close>.\<close>

definition deskew_bits ::
  "'d platform \<Rightarrow> u32 \<Rightarrow> u8 \<Rightarrow> u8 \<Rightarrow> u8 \<Rightarrow> u8 \<times> u8 \<Rightarrow> 'd sys \<Rightarrow> (test_result option \<times> 'd sys) option" where
  "deskew_bits h phy nb_bytes error datx8 last_right_ok s =
     do { s \<leftarrow> DQS_unit_delay h phy datx8 (snd last_right_ok) s;
          s \<leftarrow> DQS_phase_delay h phy datx8 (fst last_right_ok) s;
          let s = writel h 0xFFFFFFFF (DXNDQTR phy datx8) s;
          let row = \<lparr>deskew_delay = replicate 8 0, deskew_non_converge = replicate 8 0, fail_found = False\<rparr>;
          (r, row, s) \<leftarrow> for_each_opt (deskew_bit h phy nb_bytes error datx8) [0..<8] (row, s);
          (case r of
             Some r \<Rightarrow> Some (Some r, s)
           | None \<Rightarrow>
               let row = (if \<not> fail_found row then row\<lparr>deskew_delay := replicate 8 0\<rparr> else row);
                   s = apply_deskew_results h phy datx8 row s
               in do { s \<leftarrow> DQS_phase_delay h phy datx8 3 s;
                       s \<leftarrow> DQS_unit_delay h phy datx8 3 s;
                       Some (None, clrbits_le32 h (DXNGCR phy datx8) DDRPHYC_DXNGCR_DXEN s) }) }"

subsection \<open>One byte lane and all of them\<close>

text \<open>The variables that live across the bytes are \<open>(force_stop, error)\<close>.\<close>

definition stop_on_key ::
  "'d platform \<Rightarrow> u8 \<Rightarrow> u8 \<Rightarrow> bool \<times> u8 \<Rightarrow>
     ('d sys \<Rightarrow> (test_result option \<times> (bool \<times> u8) \<times> 'd sys) option) \<Rightarrow>
     'd sys \<Rightarrow> (test_result option \<times> (bool \<times> u8) \<times> 'd sys) option" where
  "stop_on_key h datx8 nb_bytes fe k s =
     (let (key, s) = ctrlc h s
      in if key then Some (Some TEST_FAILED, fe, interrupted_with datx8 nb_bytes (snd fe) s) else k s)"

text \<open>From the pass region on.\<close>

definition deskew_lane ::
  "'d platform \<Rightarrow> u32 \<Rightarrow> u8 \<Rightarrow> u8 \<Rightarrow> bool \<times> u8 \<Rightarrow> int \<Rightarrow> int \<Rightarrow> 'd sys \<Rightarrow>
     (test_result option \<times> (bool \<times> u8) \<times> 'd sys) option" where
  "deskew_lane h phy nb_bytes datx8 fe phase_idx dqs_unit_delay_index s =
     do { (phase_idx, success, s) \<leftarrow> deskew_phase_fail h phy datx8 phase_idx s;
          stop_on_key h datx8 nb_bytes fe (\<lambda>s.
            do { (last_right_ok, s) \<leftarrow> deskew_last_right h phy datx8 phase_idx dqs_unit_delay_index success s;
                 (r, s) \<leftarrow> deskew_bits h phy nb_bytes (snd fe) datx8 last_right_ok s;
                 Some (r, fe, s) }) s }"

definition deskew_byte ::
  "'d platform \<Rightarrow> u32 \<Rightarrow> u8 \<Rightarrow> u8 \<Rightarrow> (bool \<times> u8) \<times> 'd sys \<Rightarrow>
     (test_result option \<times> (bool \<times> u8) \<times> 'd sys) option" where
  "deskew_byte h phy nb_bytes datx8 = (\<lambda>((force_stop, error), s).
     stop_on_key h datx8 nb_bytes (force_stop, error) (\<lambda>s.
       do { (success, s) \<leftarrow> deskew_setup h phy datx8 s;
            (phase_idx, success, s) \<leftarrow>
              (if \<not> success then deskew_phase_pass h phy datx8 idx_90deg s
               else Some (idx_90deg, success, s));
            stop_on_key h datx8 nb_bytes (force_stop, error) (\<lambda>s.
              do { (phase_idx, dqs_unit_delay_index, force_stop, s) \<leftarrow>
                     (if \<not> success
                      then do { (u, success, s) \<leftarrow> deskew_unit_pass h phy datx8 s;
                                Some (0, u, force_stop \<or> \<not> success, s) }
                      else Some (phase_idx, MAX_DQS_UNIT_IDX, force_stop, s));
                   (if force_stop
                    then Some (None, (force_stop, error + 1), s)
                    else stop_on_key h datx8 nb_bytes (force_stop, error)
                           (deskew_lane h phy nb_bytes datx8 (force_stop, error)
                              phase_idx dqs_unit_delay_index) s) }) s }) s)"

definition bit_deskew ::
  "'d platform \<Rightarrow> u32 \<Rightarrow> u32 \<Rightarrow> 'd sys \<Rightarrow> (test_result \<times> 'd sys) option" where
  "bit_deskew h ctl phy s =
     (let (nb_bytes, s) = get_nb_bytes h ctl s;
          s = tuning_prologue h ctl phy s
      in do { (r, (_, error), s) \<leftarrow>
                for_each_opt (deskew_byte h phy nb_bytes) (bytes_upto nb_bytes) ((False, 0), s);
              (case r of
                 Some r \<Rightarrow> Some (r, s)
               | None \<Rightarrow>
                   let s = setbits_le32 h (phy + phy_dx0gcr) DDRPHYC_DXNGCR_DXEN s;
                       s = setbits_le32 h (phy + phy_dx1gcr) DDRPHYC_DXNGCR_DXEN s;
                       s = setbits_le32 h (phy + phy_dx2gcr) DDRPHYC_DXNGCR_DXEN s;
                       s = setbits_le32 h (phy + phy_dx3gcr) DDRPHYC_DXNGCR_DXEN s
                   in Some (tuning_result error s)) })"

subsection \<open>The searches over a row of settings\<close>

text \<open>\<open>t p\<close> makes setting \<open>p\<close> and tests it; the search goes on while the verdict is \<open>b\<close>.\<close>

lemma seek_up:
  assumes I: "I s" and nm: "n \<le> m"
    and T: "\<And>p s. I s \<Longrightarrow> n \<le> p \<Longrightarrow> p < m \<Longrightarrow> \<exists>s'. t (int p) s = Some (P p, s') \<and> J p s'"
    and JI: "\<And>p s. J p s \<Longrightarrow> I s"
    and c: "\<And>p ok s. int n \<le> p \<Longrightarrow> c (p, ok, s) \<longleftrightarrow> ok = b \<and> p < int m"
  shows "case find (\<lambda>p. P p \<noteq> b) [n..<m] of
      Some p \<Rightarrow> \<exists>s'. while_opt c (\<lambda>(p, ok, s). do { (ok, s) \<leftarrow> t p s; Some (p + 1, ok, s) }) (int n, b, s) =
        Some (int p + 1, \<not> b, s') \<and> J p s'
    | None \<Rightarrow> \<exists>s'. while_opt c (\<lambda>(p, ok, s). do { (ok, s) \<leftarrow> t p s; Some (p + 1, ok, s) }) (int n, b, s) =
        Some (int m, b, s') \<and> I s'"
  using assms
proof (induction "m - n" arbitrary: n s)
  case 0
  then have "n = m" by simp
  then show ?case using 0(2,6) by (subst while_opt_unfold) auto
next
  case (Suc k)
  let ?f = "\<lambda>(p, ok, s). do { (ok, s) \<leftarrow> t p s; Some (p + 1, ok, s) }"
  have nm: "n < m" using Suc(2) by simp
  obtain s1 where s1: "t (int n) s = Some (P n, s1)" "J n s1" using Suc.prems(3) [OF Suc.prems(1), of n] nm by auto
  have step: "while_opt c ?f (int n, b, s) = while_opt c ?f (int (Suc n), P n, s1)"
    using s1 Suc.prems(5) nm by (subst while_opt_unfold) (simp add: add.commute)
  have upt: "[n..<m] = n # [Suc n..<m]" using nm by (rule upt_conv_Cons)
  show ?case
  proof (cases "P n = b")
    case False
    then have "while_opt c ?f (int (Suc n), P n, s1) = Some (int n + 1, \<not> b, s1)"
      using Suc.prems(5) [of "1 + int n"] by (subst while_opt_unfold) auto
    then show ?thesis using step upt False s1(2) by auto
  next
    case True
    have eq: "find (\<lambda>p. P p \<noteq> b) [n..<m] = find (\<lambda>p. P p \<noteq> b) [Suc n..<m]" using upt True by simp
    show ?thesis unfolding step eq True
      by (rule Suc(1)) (use Suc.hyps(2) Suc.prems nm JI s1(2) in auto)
  qed
qed

lemma seek_down:
  assumes I: "I s"
    and T: "\<And>p s. I s \<Longrightarrow> p < n \<Longrightarrow> \<exists>s'. t (int p) s = Some (P p, s') \<and> J p s'"
    and JI: "\<And>p s. J p s \<Longrightarrow> I s"
    and c: "\<And>p ok s. p < int n \<Longrightarrow> c (p, ok, s) \<longleftrightarrow> ok = b \<and> 0 \<le> p"
  shows "case find (\<lambda>p. P p \<noteq> b) (rev [0..<n]) of
      Some p \<Rightarrow> \<exists>s'. while_opt c (\<lambda>(p, ok, s). do { (ok, s) \<leftarrow> t p s; Some (p - 1, ok, s) }) (int n - 1, b, s) =
        Some (int p - 1, \<not> b, s') \<and> J p s'
    | None \<Rightarrow> \<exists>s'. while_opt c (\<lambda>(p, ok, s). do { (ok, s) \<leftarrow> t p s; Some (p - 1, ok, s) }) (int n - 1, b, s) =
        Some (-1, b, s') \<and> I s'"
  using assms
proof (induction n arbitrary: s)
  case 0
  then show ?case by (subst while_opt_unfold) auto
next
  case (Suc n)
  let ?f = "\<lambda>(p, ok, s). do { (ok, s) \<leftarrow> t p s; Some (p - 1, ok, s) }"
  obtain s1 where s1: "t (int n) s = Some (P n, s1)" "J n s1" using Suc.prems(2) [OF Suc.prems(1), of n] by auto
  have step: "while_opt c ?f (int (Suc n) - 1, b, s) = while_opt c ?f (int n - 1, P n, s1)"
    using s1 Suc.prems(4) by (subst while_opt_unfold) simp
  show ?case
  proof (cases "P n = b")
    case False
    then have "while_opt c ?f (int n - 1, P n, s1) = Some (int n - 1, \<not> b, s1)"
      using Suc.prems(4) [of "int n - 1"] by (subst while_opt_unfold) auto
    then show ?thesis using step False s1(2) by auto
  next
    case True
    have eq: "find (\<lambda>p. P p \<noteq> b) (rev [0..<Suc n]) = find (\<lambda>p. P p \<noteq> b) (rev [0..<n])" using True by simp
    show ?thesis unfolding step eq True
      by (rule Suc(1)) (use Suc.prems JI s1(2) in auto)
  qed
qed

subsection \<open>Reference definition of the de-skew of a lane\<close>

definition deskew_start :: "(nat \<Rightarrow> nat \<Rightarrow> bool) \<Rightarrow> (nat \<times> nat) option" where
  "deskew_start v =
     (if v 3 7 then Some (3, 7)
      else case find (\<lambda>p. v p 7) [3..<7] of
             Some p \<Rightarrow> Some (p, 7)
           | None \<Rightarrow> (case find (v 0) [0..<8] of Some u \<Rightarrow> Some (0, u) | None \<Rightarrow> None))"

definition deskew_edge :: "(nat \<Rightarrow> nat \<Rightarrow> bool) \<Rightarrow> nat \<times> nat \<Rightarrow> nat \<times> nat" where
  "deskew_edge v = (\<lambda>(p, u).
     case find (\<lambda>p. \<not> v p u) [p..<7] of
       None \<Rightarrow> (6, 7)
     | Some f \<Rightarrow>
         (case find (v f) (rev [0..<Suc u]) of
            Some u' \<Rightarrow> (f, u')
          | None \<Rightarrow> (f - 1, case find (\<lambda>u. \<not> v (f - 1) u) [0..<7] of Some w \<Rightarrow> w | None \<Rightarrow> 0)))"

text \<open>The delay of a bit that passes at the delays of \<open>ok\<close>.\<close>

definition bit_choice :: "(nat \<Rightarrow> bool) \<Rightarrow> nat" where
  "bit_choice ok = (case find (\<lambda>d. \<not> ok d) (rev [0..<4]) of Some d \<Rightarrow> min 3 (d + 1) | None \<Rightarrow> 0)"

lemma find_upt: "find P [n..<m] = Some k \<Longrightarrow> n \<le> k \<and> k < m \<and> P k \<and> (\<forall>j. n \<le> j \<and> j < k \<longrightarrow> \<not> P j)"
proof -
  assume "find P [n..<m] = Some k"
  then obtain i where i: "i < m - n" "P (n + i)" "k = n + i" "\<forall>j<i. \<not> P (n + j)"
    by (auto simp: find_Some_iff)
  have "\<not> P j" if "n \<le> j" "j < k" for j
    using i(4) that i(3) by (metis add_diff_inverse_nat add_less_cancel_left not_le)
  then show ?thesis using i by auto
qed

lemma find_rev_upt: "find P (rev [0..<n]) = Some k \<Longrightarrow> k < n \<and> P k \<and> (\<forall>j. k < j \<and> j < n \<longrightarrow> \<not> P j)"
  by (induction n) (auto simp: less_Suc_eq split: if_splits)

lemma find_rev_upt_None: "find P (rev [0..<n]) = None \<longleftrightarrow> (\<forall>k<n. \<not> P k)"
  by (auto simp: find_None_iff)

lemma bit_choice_le: "bit_choice ok \<le> 3"
  by (simp add: bit_choice_def split: option.splits)

text \<open>The chosen delay and every longer one pass, unless the longest one fails already.\<close>

lemma bit_choice_passes:
  assumes "ok 3" "bit_choice ok \<le> d" "d \<le> 3"
  shows "ok d"
proof (cases "find (\<lambda>d. \<not> ok d) (rev [0..<4])")
  case None
  then show ?thesis using assms(3) by (simp add: find_rev_upt_None del: upt_Suc)
next
  case (Some k)
  have "k \<noteq> 3" using find_rev_upt [OF Some] assms(1) by auto
  then show ?thesis using find_rev_upt [OF Some] assms(2,3) Some by (auto simp: bit_choice_def)
qed

lemma deskew_edge_bounds:
  assumes "deskew_start v = Some pu"
  shows "fst (deskew_edge v pu) < 7" "snd (deskew_edge v pu) < 8"
    "fst pu < 7" "snd pu < 8" "v (fst pu) (snd pu)"
proof -
  have b: "fst pu < 7 \<and> snd pu < 8 \<and> v (fst pu) (snd pu)"
    using assms by (auto simp: deskew_start_def split: if_splits option.splits dest: find_upt)
  then show "fst pu < 7" "snd pu < 8" "v (fst pu) (snd pu)" by simp_all
  show "fst (deskew_edge v pu) < 7" "snd (deskew_edge v pu) < 8"
    using b by (auto simp: deskew_edge_def split_def split: option.splits
        dest!: find_upt find_rev_upt simp del: upt_Suc)
qed

subsection \<open>A lane with its DLL and its enable bit\<close>

locale deskew_hw = lane h phy byte at phase_at unit_at dq_at dq_of pass
  for h :: "'d platform" and phy byte and at :: "'r \<Rightarrow> 'd sys \<Rightarrow> bool"
    and phase_at unit_at dq_at dq_of pass +
  fixes dll_at :: "'r \<Rightarrow> 'r" and off_at :: "'r \<Rightarrow> 'r"
  assumes dll_law: "at r s \<Longrightarrow> at (dll_at r)
        (setbits_le32 h (DXNDLLCR phy byte) DDRPHYC_DXNDLLCR_DLLSRST
          (clrbits_le32 h (DXNDLLCR phy byte) DDRPHYC_DXNDLLCR_DLLSRST s))"
    and off_law: "at r s \<Longrightarrow> at (off_at r) (clrbits_le32 h (DXNGCR phy byte) DDRPHYC_DXNGCR_DXEN s)"
    and index_law: "at r s \<Longrightarrow> at r (snd (DQ_unit_index h phy byte i s))"
    and dll_phase [simp]: "dll_at (phase_at p r) = phase_at p (dll_at r)"
    and dll_unit [simp]: "dll_at (unit_at u r) = unit_at u (dll_at r)"
    and dll_dq [simp]: "dll_at (dq_at q r) = dq_at q (dll_at r)"
begin

text \<open>The settings with data delays \<open>q\<close>, and the verdict on them.\<close>

definition setting :: "'r \<Rightarrow> nat \<Rightarrow> nat \<Rightarrow> u32 \<Rightarrow> 'r" where
  "setting r p u q = phase_at p (unit_at u (dq_at q r))"

lemma setting_simps [simp]:
  "phase_at p' (setting r p u q) = setting r p' u q"
  "unit_at u' (setting r p u q) = setting r p u' q"
  "dq_at q' (setting r p u q) = setting r p u q'"
  by (simp_all add: setting_def)

lemma dq_of_setting [simp]: "dq_of (setting r p u q) = q"
  by (metis dq_dq(2) dq_phase dq_unit setting_def)

definition W :: "'r \<Rightarrow> u32 \<Rightarrow> nat \<Rightarrow> nat \<Rightarrow> bool" where
  "W r q p u = pass (setting r p u q)"

lemma phase_test:
  assumes "at (setting r p u q) s" "p' < 7"
  shows "\<exists>s'. (do { s \<leftarrow> DQS_phase_delay h phy byte (of_nat p') s; BIST_test h phy byte s }) =
      Some (W r q p' u, s') \<and> at (setting r p' u q) s'"
  using phase_law [OF assms] test_law by (fastforce simp: W_def)

lemma unit_test:
  assumes "at (setting r p u q) s" "u' < 8"
  shows "\<exists>s'. (do { s \<leftarrow> DQS_unit_delay h phy byte (of_nat u') s; BIST_test h phy byte s }) =
      Some (W r q p u', s') \<and> at (setting r p u' q) s'"
  using unit_law [OF assms] test_law by (fastforce simp: W_def)

lemma setup_run:
  assumes at: "at r s1"
    and s1: "s1 = BIST_datx8_sel h phy byte (setbits_le32 h (DXNGCR phy byte) DDRPHYC_DXNGCR_DXEN s)"
  shows "\<exists>s'. deskew_setup h phy byte s = Some (W (dll_at r) 0xAAAAAAAA 3 7, s') \<and>
    at (setting (dll_at r) 3 7 0xAAAAAAAA) s'"
proof -
  define s2 where "s2 = writel h 0xAAAAAAAA (DXNDQTR phy byte) s1"
  have idx: "word_of_int MAX_DQS_UNIT_IDX = (of_nat 7 :: u8)" "word_of_int idx_90deg = (of_nat 3 :: u8)"
    by (simp_all add: MAX_DQS_UNIT_IDX_def idx_90deg_def)
  have a2: "at (dq_at 0xAAAAAAAA r) s2" unfolding s2_def by (rule dq_law [OF at])
  obtain s3 where s3: "DQS_unit_delay h phy byte (of_nat 7) s2 = Some s3" "at (unit_at 7 (dq_at 0xAAAAAAAA r)) s3"
    using unit_law [OF a2, of 7] by auto
  obtain s4 where s4: "DQS_phase_delay h phy byte (of_nat 3) s3 = Some s4" "at (setting r 3 7 0xAAAAAAAA) s4"
    using phase_law [OF s3(2), of 3] by (auto simp: setting_def)
  define s5 where "s5 = setbits_le32 h (DXNDLLCR phy byte) DDRPHYC_DXNDLLCR_DLLSRST
          (clrbits_le32 h (DXNDLLCR phy byte) DDRPHYC_DXNDLLCR_DLLSRST s4)"
  have a5: "at (setting (dll_at r) 3 7 0xAAAAAAAA) s5"
    using dll_law [OF s4(2)] by (simp add: s5_def setting_def)
  obtain s6 where s6: "BIST_test h phy byte s5 = Some (W (dll_at r) 0xAAAAAAAA 3 7, s6)"
    "at (setting (dll_at r) 3 7 0xAAAAAAAA) s6"
    using test_law [OF a5] by (auto simp: W_def)
  have "deskew_setup h phy byte s = Some (W (dll_at r) 0xAAAAAAAA 3 7, s6)"
    unfolding deskew_setup_def Let_def s1 [symmetric] s2_def [symmetric] idx s3(1) Option.bind.bind_lunit
      s4(1) s5_def [symmetric] s6(1) ..
  then show ?thesis using s6(2) by blast
qed

lemma phase_pass_run:
  assumes "at (setting r p u q) s" "n < 7"
  shows "case find (\<lambda>p. W r q p u) [n..<7] of
      Some p' \<Rightarrow> \<exists>s'. deskew_phase_pass h phy byte (int n) s = Some (int p', True, s') \<and> at (setting r p' u q) s'
    | None \<Rightarrow> \<exists>s'. deskew_phase_pass h phy byte (int n) s = Some (7, False, s') \<and> (\<exists>p. at (setting r p u q) s')"
proof -
  let ?t = "\<lambda>p s. do { s \<leftarrow> DQS_phase_delay h phy byte (word_of_int p) s; BIST_test h phy byte s }"
  let ?c = "\<lambda>(p, ok, s :: 'd sys). \<not> ok \<and> p \<le> MAX_DQS_PHASE_IDX"
  have "case find (\<lambda>p. W r q p u \<noteq> False) [n..<7] of
      Some p \<Rightarrow> \<exists>s'. while_opt ?c (\<lambda>(p, ok, s). do { (ok, s) \<leftarrow> ?t p s; Some (p + 1, ok, s) }) (int n, False, s) =
        Some (int p + 1, \<not> False, s') \<and> at (setting r p u q) s'
    | None \<Rightarrow> \<exists>s'. while_opt ?c (\<lambda>(p, ok, s). do { (ok, s) \<leftarrow> ?t p s; Some (p + 1, ok, s) }) (int n, False, s) =
        Some (int 7, False, s') \<and> (\<exists>p. at (setting r p u q) s')"
    by (rule seek_up) (use assms phase_test in \<open>auto simp: MAX_DQS_PHASE_IDX_def\<close>)
  then show ?thesis
    by (auto simp: deskew_phase_pass_def Option.bind_assoc split: option.splits)
qed

lemma unit_pass_run:
  assumes "at (setting r p u q) s"
  shows "case find (W r q 0) [0..<8] of
      Some u' \<Rightarrow> \<exists>s'. deskew_unit_pass h phy byte s = Some (int u', True, s') \<and> at (setting r 0 u' q) s'
    | None \<Rightarrow> \<exists>x s'. deskew_unit_pass h phy byte s = Some (x, False, s') \<and> (\<exists>u. at (setting r 0 u q) s')"
proof -
  obtain s1 where s1: "DQS_phase_delay h phy byte 0 s = Some s1" "at (setting r 0 u q) s1"
    using phase_law [OF assms, of 0] by auto
  let ?t = "\<lambda>p s. do { s \<leftarrow> DQS_unit_delay h phy byte (word_of_int p) s; BIST_test h phy byte s }"
  let ?c = "\<lambda>(p, ok, s :: 'd sys). \<not> ok \<and> p \<le> MAX_DQS_UNIT_IDX"
  have l: "case find (\<lambda>u. W r q 0 u \<noteq> False) [0..<8] of
      Some u \<Rightarrow> \<exists>s'. while_opt ?c (\<lambda>(p, ok, s). do { (ok, s) \<leftarrow> ?t p s; Some (p + 1, ok, s) }) (int 0, False, s1) =
        Some (int u + 1, \<not> False, s') \<and> at (setting r 0 u q) s'
    | None \<Rightarrow> \<exists>s'. while_opt ?c (\<lambda>(p, ok, s). do { (ok, s) \<leftarrow> ?t p s; Some (p + 1, ok, s) }) (int 0, False, s1) =
        Some (int 8, False, s') \<and> (\<exists>u. at (setting r 0 u q) s')"
    by (rule seek_up) (use s1(2) unit_test in \<open>auto simp: MAX_DQS_UNIT_IDX_def\<close>)
  show ?thesis
  proof (cases "find (W r q 0) [0..<8]")
    case None
    then show ?thesis using l s1(1) by (auto simp: deskew_unit_pass_def Option.bind_assoc)
  next
    case (Some u')
    then obtain s2 where s2: "while_opt ?c (\<lambda>(p, ok, s). do { (ok, s) \<leftarrow> ?t p s; Some (p + 1, ok, s) }) (0, False, s1) =
        Some (int u' + 1, True, s2)" "at (setting r 0 u' q) s2"
      using l by auto
    have "u' < 8" using find_upt [OF Some] by simp
    then obtain s3 where "DQS_unit_delay h phy byte (of_nat u') s2 = Some s3" "at (setting r 0 u' q) s3"
      using unit_law [OF s2(2), of u'] by auto
    then show ?thesis using Some s1(1) s2(1) by (simp add: deskew_unit_pass_def Option.bind_assoc)
  qed
qed

lemma phase_fail_run:
  assumes "at (setting r p u q) s" "n < 7"
  shows "case find (\<lambda>p. \<not> W r q p u) [n..<7] of
      Some f \<Rightarrow> \<exists>s'. deskew_phase_fail h phy byte (int n) s = Some (int f + 1, False, s') \<and> at (setting r f u q) s'
    | None \<Rightarrow> \<exists>s'. deskew_phase_fail h phy byte (int n) s = Some (7, True, s') \<and> (\<exists>p. at (setting r p u q) s')"
proof -
  let ?t = "\<lambda>p s. do { s \<leftarrow> DQS_phase_delay h phy byte (word_of_int p) s; BIST_test h phy byte s }"
  let ?c = "\<lambda>(p, ok, s :: 'd sys). ok \<and> p \<le> MAX_DQS_PHASE_IDX"
  have "case find (\<lambda>p. W r q p u \<noteq> True) [n..<7] of
      Some p \<Rightarrow> \<exists>s'. while_opt ?c (\<lambda>(p, ok, s). do { (ok, s) \<leftarrow> ?t p s; Some (p + 1, ok, s) }) (int n, True, s) =
        Some (int p + 1, \<not> True, s') \<and> at (setting r p u q) s'
    | None \<Rightarrow> \<exists>s'. while_opt ?c (\<lambda>(p, ok, s). do { (ok, s) \<leftarrow> ?t p s; Some (p + 1, ok, s) }) (int n, True, s) =
        Some (int 7, True, s') \<and> (\<exists>p. at (setting r p u q) s')"
    by (rule seek_up) (use assms phase_test in \<open>auto simp: MAX_DQS_PHASE_IDX_def\<close>)
  then show ?thesis by (simp add: deskew_phase_fail_def Option.bind_assoc split: option.splits)
qed

lemma unit_back_run:
  assumes "at (setting r p u q) s" "n < 8"
  shows "case find (W r q p) (rev [0..<Suc n]) of
      Some u' \<Rightarrow> \<exists>s'. deskew_unit_back h phy byte (int n) s = Some (int u' - 1, True, s') \<and> at (setting r p u' q) s'
    | None \<Rightarrow> \<exists>s'. deskew_unit_back h phy byte (int n) s = Some (-1, False, s') \<and> (\<exists>u. at (setting r p u q) s')"
proof -
  let ?t = "\<lambda>p s. do { s \<leftarrow> DQS_unit_delay h phy byte (word_of_int p) s; BIST_test h phy byte s }"
  let ?c = "\<lambda>(p, ok, s :: 'd sys). \<not> ok \<and> p \<ge> 0"
  have "case find (\<lambda>u. W r q p u \<noteq> False) (rev [0..<Suc n]) of
      Some u \<Rightarrow> \<exists>s'. while_opt ?c (\<lambda>(p, ok, s). do { (ok, s) \<leftarrow> ?t p s; Some (p - 1, ok, s) }) (int (Suc n) - 1, False, s) =
        Some (int u - 1, \<not> False, s') \<and> at (setting r p u q) s'
    | None \<Rightarrow> \<exists>s'. while_opt ?c (\<lambda>(p, ok, s). do { (ok, s) \<leftarrow> ?t p s; Some (p - 1, ok, s) }) (int (Suc n) - 1, False, s) =
        Some (-1, False, s') \<and> (\<exists>u. at (setting r p u q) s')"
    by (rule seek_down) (use assms unit_test in \<open>auto\<close>)
  then show ?thesis by (simp add: deskew_unit_back_def Option.bind_assoc split: option.splits del: upt_Suc)
qed

lemma unit_fail_run:
  assumes "at (setting r p u q) s"
  shows "case find (\<lambda>u. \<not> W r q p u) [0..<7] of
      Some w \<Rightarrow> \<exists>s'. deskew_unit_fail h phy byte s = Some (int w + 1, False, s') \<and> at (setting r p w q) s'
    | None \<Rightarrow> \<exists>s'. deskew_unit_fail h phy byte s = Some (7, True, s') \<and> (\<exists>u. at (setting r p u q) s')"
proof -
  let ?t = "\<lambda>p s. do { s \<leftarrow> DQS_unit_delay h phy byte (word_of_int p) s; BIST_test h phy byte s }"
  let ?c = "\<lambda>(p, ok, s :: 'd sys). ok \<and> p < MAX_DQS_UNIT_IDX"
  have "case find (\<lambda>u. W r q p u \<noteq> True) [0..<7] of
      Some u \<Rightarrow> \<exists>s'. while_opt ?c (\<lambda>(p, ok, s). do { (ok, s) \<leftarrow> ?t p s; Some (p + 1, ok, s) }) (int 0, True, s) =
        Some (int u + 1, \<not> True, s') \<and> at (setting r p u q) s'
    | None \<Rightarrow> \<exists>s'. while_opt ?c (\<lambda>(p, ok, s). do { (ok, s) \<leftarrow> ?t p s; Some (p + 1, ok, s) }) (int 0, True, s) =
        Some (int 7, True, s') \<and> (\<exists>u. at (setting r p u q) s')"
    by (rule seek_up) (use assms unit_test in \<open>auto simp: MAX_DQS_UNIT_IDX_def\<close>)
  then show ?thesis by (simp add: deskew_unit_fail_def Option.bind_assoc split: option.splits)
qed

end
context deskew_hw
begin

lemma last_right_run:
  assumes pu: "W r q p u" "p < 7" "u < 8" and at: "at (setting r p' u q) s"
    and f: "find (\<lambda>p. \<not> W r q p u) [p..<7] = Some p'"
  shows "\<exists>s' x y. deskew_last_right h phy byte (int p' + 1) (int u) False s =
      Some ((of_nat (fst (deskew_edge (W r q) (p, u))), of_nat (snd (deskew_edge (W r q) (p, u)))), s') \<and>
    at (setting r x y q) s'"
proof -
  have p': "p < p'" "p' < 7" using find_upt [OF f] pu(1) by (auto simp: le_less)
  then obtain p1 where p1: "p' = Suc p1" by (cases p') auto
  show ?thesis
  proof (cases "find (W r q p') (rev [0..<Suc u])")
    case (Some u')
    then obtain s1 where s1: "deskew_unit_back h phy byte (int u) s = Some (int u' - 1, True, s1)" "at (setting r p' u' q) s1"
      using unit_back_run [OF at pu(3)] by auto
    then show ?thesis using f Some by (auto simp: deskew_last_right_def deskew_edge_def simp del: upt_Suc)
  next
    case None
    then obtain s1 y where s1: "deskew_unit_back h phy byte (int u) s = Some (-1, False, s1)" "at (setting r p' y q) s1"
      using unit_back_run [OF at pu(3)] by auto
    obtain s2 where s2: "DQS_phase_delay h phy byte (of_nat p1) s1 = Some s2" "at (setting r p1 y q) s2"
      using phase_law [OF s1(2), of p1] p' p1 by auto
    have i: "word_of_int (int p' - 1) = (of_nat p1 :: u8)" by (simp add: p1)
    have e: "fst (deskew_edge (W r q) (p, u)) = p1"
      "snd (deskew_edge (W r q) (p, u)) = (case find (\<lambda>u. \<not> W r q p1 u) [0..<7] of Some w \<Rightarrow> w | None \<Rightarrow> 0)"
      using f None by (simp_all add: deskew_edge_def p1 del: upt_Suc)
    show ?thesis
    proof (cases "find (\<lambda>u. \<not> W r q p1 u) [0..<7]")
      case None
      then obtain s3 y where s3: "deskew_unit_fail h phy byte s2 = Some (7, True, s3)" "at (setting r p1 y q) s3"
        using unit_fail_run [OF s2(2)] by auto
      have "deskew_last_right h phy byte (int p' + 1) (int u) False s = Some ((of_nat p1, 0), s3)"
        using s1(1) s2(1) s3(1) i by (simp add: deskew_last_right_def)
      then show ?thesis using s3(2) e None by auto
    next
      case (Some w)
      then obtain s3 where s3: "deskew_unit_fail h phy byte s2 = Some (int w + 1, False, s3)" "at (setting r p1 w q) s3"
        using unit_fail_run [OF s2(2)] by auto
      have "deskew_last_right h phy byte (int p' + 1) (int u) False s = Some ((of_nat p1, of_nat w), s3)"
        using s1(1) s2(1) s3(1) i by (simp add: deskew_last_right_def)
      then show ?thesis using s3(2) e Some by auto
    qed
  qed
qed

text \<open>The verdict with bit \<open>i\<close> delayed by \<open>d\<close>, all the others by the most.\<close>

definition bit_ok :: "'r \<Rightarrow> nat \<Rightarrow> nat \<Rightarrow> nat \<Rightarrow> nat \<Rightarrow> bool" where
  "bit_ok r p u i d = pass (setting r p u (set_dq (of_nat i) (of_nat d) 0xFFFFFFFF))"

lemma set_dq_twice:
  assumes "d' \<le> 3"
  shows "set_dq i d (set_dq i d' w) = set_dq i d w"
proof -
  obtain e where d': "d' = take_bit 2 e" using small_delay [OF assms] by blast
  show ?thesis unfolding d'  set_dq_def dq_masks
    by (intro bit_word_eqI) (auto simp: bit_simps DDRPHYC_DXNDQTR_DQDLY_SHIFT_def)
qed

lemma bit_search_run:
  assumes at: "at (setting r p u 0xFFFFFFFF) s"
  shows "\<exists>s' q. at (setting r p u q) s' \<and>
    (case find (\<lambda>d. \<not> bit_ok r p u i d) (rev [0..<4]) of
       Some d \<Rightarrow> deskew_bit_search h phy byte (of_nat i) s = Some (int d - 1, False, s')
     | None \<Rightarrow> deskew_bit_search h phy byte (of_nat i) s = Some (-1, True, s'))"
proof -
  let ?I = "\<lambda>s. \<exists>q. at (setting r p u q) s \<and> (\<forall>d<4. set_dq (of_nat i) (of_nat d) q = set_dq (of_nat i) (of_nat d) 0xFFFFFFFF)"
  let ?t = "\<lambda>d s. BIST_test h phy byte (set_DQ_unit_delay h phy byte (of_nat i) (word_of_int d) s)"
  let ?c = "\<lambda>(d, ok, s :: 'd sys). d \<ge> 0 \<and> ok"
  have T: "\<exists>s'. ?t (int d) s = Some (bit_ok r p u i d, s') \<and> ?I s'" if IS: "?I s" and d4: "d < 4" for d s
  proof -
    obtain q where q: "at (setting r p u q) s"
      "\<forall>d<4. set_dq (of_nat i) (of_nat d) q = set_dq (of_nat i) (of_nat d) 0xFFFFFFFF"
      using IS by blast
    let ?q = "set_dq (of_nat i) (of_nat d) 0xFFFFFFFF"
    have a: "at (setting r p u ?q) (set_DQ_unit_delay h phy byte (of_nat i) (of_nat d) s)"
      using dq_bit_law [OF q(1), of "of_nat i" "of_nat d"] q(2) d4 by simp
    have "(of_nat d :: u8) \<le> 3" using d4 by (simp add: word_le_nat_alt unat_of_nat)
    then have "\<forall>d'<4. set_dq (of_nat i) (of_nat d') ?q = set_dq (of_nat i) (of_nat d') 0xFFFFFFFF"
      by (simp add: set_dq_twice)
    then show ?thesis using test_law [OF a] by (auto simp: bit_ok_def)
  qed
  have "case find (\<lambda>d. bit_ok r p u i d \<noteq> True) (rev [0..<4]) of
      Some d \<Rightarrow> \<exists>s'. while_opt ?c (\<lambda>(d, ok, s). do { (ok, s) \<leftarrow> ?t d s; Some (d - 1, ok, s) }) (int 4 - 1, True, s) =
        Some (int d - 1, \<not> True, s') \<and> ?I s'
    | None \<Rightarrow> \<exists>s'. while_opt ?c (\<lambda>(d, ok, s). do { (ok, s) \<leftarrow> ?t d s; Some (d - 1, ok, s) }) (int 4 - 1, True, s) =
        Some (-1, True, s') \<and> ?I s'"
  proof (rule seek_down [where I = ?I and J = "\<lambda>_. ?I"])
    show "?I s" using at by auto
  qed (use T in auto)
  then show ?thesis
    by (auto simp: deskew_bit_search_def Let_def split: option.splits simp del: upt_Suc)
qed

end
context deskew_hw
begin

definition choice :: "'r \<Rightarrow> nat \<Rightarrow> nat \<Rightarrow> nat \<Rightarrow> nat" where
  "choice r p u i = bit_choice (bit_ok r p u i)"

lemma deskew_bit_run:
  assumes at: "at (setting r p u q) s" and i: "i < 8"
  shows "\<exists>row' s' q'. deskew_bit h phy nb_bytes error byte i (row, s) = Some (None, row', s') \<and>
    at (setting r p u q') s' \<and> deskew_delay row' = (deskew_delay row)[i := of_nat (choice r p u i)] \<and>
    (fail_found row' \<or> fail_found row' = fail_found row \<and> choice r p u i = 0)"
proof -
  obtain s1 where s1: "ctrlc h s = (False, s1)" "at (setting r p u q) s1" using key_law [OF at] by blast
  define s2 where "s2 = writel h 0xFFFFFFFF (DXNDQTR phy byte) s1"
  have a2: "at (setting r p u 0xFFFFFFFF) s2" using dq_law [OF s1(2)] by (simp add: s2_def)
  obtain s3 q' where a3: "at (setting r p u q') s3"
    and run: "case find (\<lambda>d. \<not> bit_ok r p u i d) (rev [0..<4]) of
       Some d \<Rightarrow> deskew_bit_search h phy byte (of_nat i) s2 = Some (int d - 1, False, s3)
     | None \<Rightarrow> deskew_bit_search h phy byte (of_nat i) s2 = Some (-1, True, s3)"
    using bit_search_run [OF a2] by blast
  show ?thesis
  proof (cases "find (\<lambda>d. \<not> bit_ok r p u i d) (rev [0..<4])")
    case None
    then have "choice r p u i = 0" by (simp add: choice_def bit_choice_def del: upt_Suc)
    then show ?thesis using s1(1) a3 run None
      by (simp add: deskew_bit_def Let_def s2_def [symmetric] del: upt_Suc) blast
  next
    case (Some d)
    have d: "d < 4" using find_rev_upt [OF Some] by simp
    have v: "word_of_int (int d - 1 + 2) = (of_nat (d + 1) :: u8)" by simp
    have m: "(if (of_nat (d + 1) :: u8) > 3 then 3 else of_nat (d + 1)) = (of_nat (choice r p u i) :: u8)"
    proof -
      have c: "choice r p u i = min 3 (d + 1)" using Some by (simp add: choice_def bit_choice_def del: upt_Suc)
      have "d \<in> {0, 1, 2, 3}" using d by auto
      then show ?thesis unfolding c by auto
    qed
    have "deskew_bit h phy nb_bytes error byte i (row, s) =
        Some (None, row\<lparr>deskew_delay := (deskew_delay row)[i := of_nat (choice r p u i)], fail_found := True\<rparr>, s3)"
      using run Some unfolding deskew_bit_def prod.case s1(1) if_False Let_def s2_def [symmetric] m [symmetric] v [symmetric]
      by (simp del: upt_Suc)
    then show ?thesis using a3 by auto
  qed
qed

lemma deskew_bits_loop:
  assumes at: "at (setting r p u q) s" and row: "deskew_delay row = replicate 8 0" "\<not> fail_found row"
  shows "\<exists>row' s' q'. for_each_opt (deskew_bit h phy nb_bytes error byte) [0..<8] (row, s) = Some (None, row', s') \<and>
    at (setting r p u q') s' \<and>
    (if \<not> fail_found row' then replicate 8 0 else deskew_delay row') = map (\<lambda>i. of_nat (choice r p u i)) [0..<8]"
proof -
  define I :: "nat \<Rightarrow> deskew_row \<times> 'd sys \<Rightarrow> bool" where "I = (\<lambda>n (row, s). (\<exists>q. at (setting r p u q) s) \<and> length (deskew_delay row) = 8 \<and>
     (\<forall>i<n. deskew_delay row ! i = of_nat (choice r p u i)) \<and>
     (fail_found row \<or> (\<forall>i<n. choice r p u i = 0)))"
  have "\<exists>x. for_each_opt (deskew_bit h phy nb_bytes error byte) [0..<8] (row, s) = Some (None, x) \<and>
      I (length [0..<8]) x"
  proof (rule for_each_opt_steps)
    show "I 0 (row, s)" using at row by (auto simp: I_def)
    fix i x assume i: "i < length [0..<8]" and I: "I i x"
    obtain rw t where x: "x = (rw, t)" by fastforce
    obtain q where q: "at (setting r p u q) t" using I by (auto simp: I_def x)
    obtain row' s' q' where b: "deskew_bit h phy nb_bytes error byte i (rw, t) = Some (None, row', s')"
      "at (setting r p u q') s'" "deskew_delay row' = (deskew_delay rw)[i := of_nat (choice r p u i)]"
      "fail_found row' \<or> fail_found row' = fail_found rw \<and> choice r p u i = 0"
      using deskew_bit_run [OF q, of i nb_bytes error rw] i by auto
    have "I (Suc i) (row', s')"
      using I b(2-4) i by (auto simp: I_def x less_Suc_eq nth_list_update)
    then show "\<exists>x'. deskew_bit h phy nb_bytes error byte ([0..<8] ! i) x = Some (None, x') \<and> I (Suc i) x'"
      using b(1) i x by (simp del: upt_Suc)
  qed
  then obtain row' s' where run: "for_each_opt (deskew_bit h phy nb_bytes error byte) [0..<8] (row, s) = Some (None, row', s')"
    and I: "I 8 (row', s')" by (auto simp del: upt_Suc)
  have "(if \<not> fail_found row' then replicate 8 0 else deskew_delay row') = map (\<lambda>i. of_nat (choice r p u i)) [0..<8]"
    using I by (intro nth_equalityI) (auto simp: I_def simp del: upt_Suc)
  then show ?thesis using run I unfolding I_def by blast
qed

lemma apply_run:
  assumes at: "at (setting r p u q) s" and small: "\<And>i. i < 8 \<Longrightarrow> deskew_delay row ! i \<le> 3"
  shows "\<exists>q'. at (setting r p u q') (apply_deskew_results h phy byte row s) \<and>
    (\<forall>i<8. dq_delay (of_nat i) q' = deskew_delay row ! i)"
  unfolding apply_deskew_results_def
proof (rule fold_upt_inv [where I = "\<lambda>n s. \<exists>q. at (setting r p u q) s \<and> (\<forall>i<n. dq_delay (of_nat i) q = deskew_delay row ! i)"])
  show "\<exists>q. at (setting r p u q) s \<and> (\<forall>i<0. dq_delay (of_nat i) q = deskew_delay row ! i)" using at by auto
  fix n t assume n: "n < 8" and "\<exists>q. at (setting r p u q) t \<and> (\<forall>i<n. dq_delay (of_nat i) q = deskew_delay row ! i)"
  then obtain q where q: "at (setting r p u q) t" "\<And>i. i < n \<Longrightarrow> dq_delay (of_nat i) q = deskew_delay row ! i" by blast
  let ?q = "set_dq (of_nat n) (deskew_delay row ! n) q"
  have u: "unat (of_nat i :: u8) = i" if "i < 8" for i using that by (simp add: unat_of_nat)
  have "dq_delay (of_nat i) ?q = deskew_delay row ! i" if "i < Suc n" for i
  proof -
    have "(of_nat n :: u8) < 8" "(of_nat i :: u8) < 8" "(of_nat i :: u8) = of_nat n \<longleftrightarrow> i = n"
      using n that u [of n] u [of i] by (simp_all add: word_less_nat_alt word_unat_eq_iff)
    then show ?thesis using small [OF n] q(2) [of i] that by (auto simp: dq_delay_set_dq less_Suc_eq)
  qed
  moreover have "at (setting r p u ?q) (set_DQ_unit_delay h phy byte (of_nat n) (deskew_delay row ! n) t)"
    using dq_bit_law [OF q(1)] by simp
  ultimately show "\<exists>q. at (setting r p u q) (let s = set_DQ_unit_delay h phy byte (of_nat n) (deskew_delay row ! n) t
             in snd (DQ_unit_index h phy byte (of_nat n) s)) \<and> (\<forall>i<Suc n. dq_delay (of_nat i) q = deskew_delay row ! i)"
    unfolding Let_def using index_law by blast
qed

text \<open>What the de-skew leaves in DXNDQTR, for the edge \<open>(p, u)\<close>.\<close>

definition deskewed :: "'r \<Rightarrow> nat \<times> nat \<Rightarrow> u32 \<Rightarrow> bool" where
  "deskewed r = (\<lambda>(p, u) q. \<forall>i<8. dq_delay (of_nat i) q = of_nat (choice r p u i))"

lemma deskew_bits_run:
  assumes at: "at (setting r p' u' q) s" and pu: "p < 7" "u < 8"
  shows "\<exists>s' q'. deskew_bits h phy nb_bytes error byte (of_nat p, of_nat u) s = Some (None, s') \<and>
    at (off_at (setting r 3 3 q')) s' \<and> deskewed r (p, u) q'"
proof -
  obtain s1 where s1: "DQS_unit_delay h phy byte (of_nat u) s = Some s1" "at (setting r p' u q) s1"
    using unit_law [OF at pu(2)] by auto
  obtain s2 where s2: "DQS_phase_delay h phy byte (of_nat p) s1 = Some s2" "at (setting r p u q) s2"
    using phase_law [OF s1(2) pu(1)] by auto
  define s3 where "s3 = writel h 0xFFFFFFFF (DXNDQTR phy byte) s2"
  have a3: "at (setting r p u 0xFFFFFFFF) s3" using dq_law [OF s2(2)] by (simp add: s3_def)
  define row0 where "row0 = \<lparr>deskew_delay = replicate 8 0, deskew_non_converge = replicate 8 0, fail_found = False\<rparr>"
  obtain row s4 q4 where s4: "for_each_opt (deskew_bit h phy nb_bytes error byte) [0..<8] (row0, s3) = Some (None, row, s4)"
    "at (setting r p u q4) s4"
    and d: "(if \<not> fail_found row then replicate 8 0 else deskew_delay row) = map (\<lambda>i. of_nat (choice r p u i)) [0..<8]"
    using deskew_bits_loop [OF a3, of row0 nb_bytes error] by (auto simp: row0_def simp del: upt_Suc)
  define row' where "row' = (if \<not> fail_found row then row\<lparr>deskew_delay := replicate 8 0\<rparr> else row)"
  have row': "deskew_delay row' = map (\<lambda>i. of_nat (choice r p u i)) [0..<8]"
    using d by (auto simp: row'_def split: if_splits simp del: upt_Suc)
  have small: "deskew_delay row' ! i \<le> 3" if "i < 8" for i
  proof -
    have "choice r p u i \<le> 3" by (simp add: choice_def bit_choice_le)
    then show ?thesis using that unfolding row' by (simp add: word_le_nat_alt unat_of_nat del: upt_Suc)
  qed
  define s5 where "s5 = apply_deskew_results h phy byte row' s4"
  obtain q' where q': "at (setting r p u q') s5" "\<forall>i<8. dq_delay (of_nat i) q' = deskew_delay row' ! i"
    using apply_run [OF s4(2) small] by (auto simp: s5_def)
  obtain s6 where s6: "DQS_phase_delay h phy byte (of_nat 3) s5 = Some s6" "at (setting r 3 u q') s6"
    using phase_law [OF q'(1), of 3] by auto
  obtain s7 where s7: "DQS_unit_delay h phy byte (of_nat 3) s6 = Some s7" "at (setting r 3 3 q') s7"
    using unit_law [OF s6(2), of 3] by auto
  have "deskew_bits h phy nb_bytes error byte (of_nat p, of_nat u) s =
      Some (None, clrbits_le32 h (DXNGCR phy byte) DDRPHYC_DXNGCR_DXEN s7)"
    using s6(1) s7(1)
    unfolding deskew_bits_def fst_conv snd_conv s1(1) Option.bind.bind_lunit s2(1) s3_def [symmetric] Let_def
      row0_def [symmetric] s4(1) prod.case option.case row'_def [symmetric] s5_def [symmetric] by simp
  moreover have "deskewed r (p, u) q'"
    using q'(2) row' by (simp add: deskewed_def del: upt_Suc)
  ultimately show ?thesis using off_law [OF s7(2)] by blast
qed

lemma deskew_lane_run:
  assumes at: "at (setting r p u q) s" and W: "W r q p u" and pu: "p < 7" "u < 8"
    and edge: "fst (deskew_edge (W r q) (p, u)) < 7" "snd (deskew_edge (W r q) (p, u)) < 8"
  shows "\<exists>s' q'. deskew_lane h phy nb_bytes byte fe (int p) (int u) s = Some (None, fe, s') \<and>
    at (off_at (setting r 3 3 q')) s' \<and> deskewed r (deskew_edge (W r q) (p, u)) q'"
proof -
  let ?e = "deskew_edge (W r q) (p, u)"
  have key: "stop_on_key h byte nb_bytes fe k t = k (snd (ctrlc h t)) \<and> at x (snd (ctrlc h t))" if "at x t" for k t x
    using key_law [OF that] by (auto simp: stop_on_key_def)
  have "\<exists>s1 x y z. deskew_phase_fail h phy byte (int p) s = Some (x, z, s1) \<and>
     (\<exists>t y' x'. deskew_last_right h phy byte x (int u) z (snd (ctrlc h s1)) =
        Some ((of_nat (fst ?e), of_nat (snd ?e)), t) \<and> at (setting r x' y' q) t) \<and> at y s1"
  proof (cases "find (\<lambda>p. \<not> W r q p u) [p..<7]")
    case None
    then obtain s1 p1 where s1: "deskew_phase_fail h phy byte (int p) s = Some (7, True, s1)" "at (setting r p1 u q) s1"
      using phase_fail_run [OF at pu(1)] by auto
    have "?e = (6, 7)" using None by (simp add: deskew_edge_def)
    then show ?thesis using s1 key [OF s1(2)]
      by (auto simp: deskew_last_right_def MAX_DQS_PHASE_IDX_def MAX_DQS_UNIT_IDX_def)
  next
    case (Some f)
    then obtain s1 where s1: "deskew_phase_fail h phy byte (int p) s = Some (int f + 1, False, s1)" "at (setting r f u q) s1"
      using phase_fail_run [OF at pu(1)] by auto
    have "at (setting r f u q) (snd (ctrlc h s1))" using key [OF s1(2)] by simp
    then show ?thesis using s1 last_right_run [OF W pu _ Some] by blast
  qed
  then obtain s1 x y z t x' y' where s1: "deskew_phase_fail h phy byte (int p) s = Some (x, z, s1)" "at y s1"
    and t: "deskew_last_right h phy byte x (int u) z (snd (ctrlc h s1)) = Some ((of_nat (fst ?e), of_nat (snd ?e)), t)"
      "at (setting r x' y' q) t" by blast
  obtain s' q' where s': "deskew_bits h phy nb_bytes (snd fe) byte (of_nat (fst ?e), of_nat (snd ?e)) t = Some (None, s')"
    "at (off_at (setting r 3 3 q')) s'" "deskewed r (fst ?e, snd ?e) q'"
    using deskew_bits_run [OF t(2) edge] by blast
  then show ?thesis using s1 t(1) key [OF s1(2)] by (auto simp: deskew_lane_def)
qed

end

subsection \<open>The de-skew on the board\<close>

lemma phase_field_dll:
  "phase_field p (x OR DDRPHYC_DXNDLLCR_DLLSRST) = phase_field p x OR DDRPHYC_DXNDLLCR_DLLSRST"
proof -
  have m: "DDRPHYC_DXNDLLCR_SDPHASE_MASK = push_bit 14 (mask 4)" "DDRPHYC_DXNDLLCR_DLLSRST = push_bit 30 1"
    by (simp_all add: reg_defs mask_eq_exp_minus_1 push_bit_eq_mult)
  show ?thesis unfolding phase_field_def m
    by (rule bit_word_eqI) (auto simp: bit_simps simp del: push_bit_of_1)
qed

context bist_lane
begin

definition dll_at :: "(u32 \<Rightarrow> u32) \<Rightarrow> u32 \<Rightarrow> u32" where
  "dll_at r = r(DXNDLLCR DDRPHYC_BASE byte := r (DXNDLLCR DDRPHYC_BASE byte) OR DDRPHYC_DXNDLLCR_DLLSRST)"

definition off_at :: "(u32 \<Rightarrow> u32) \<Rightarrow> u32 \<Rightarrow> u32" where
  "off_at r = r(DXNGCR DDRPHYC_BASE byte := r (DXNGCR DDRPHYC_BASE byte) AND NOT DDRPHYC_DXNGCR_DXEN)"

end

sublocale bist_lane \<subseteq> desk: deskew_hw h DDRPHYC_BASE byte at phase_at unit_at dq_at dq_of clean dll_at off_at
proof
  note ll = lane_not_scratch [OF byte_lt] and wc = lane_not_wcr [OF byte_lt]
  have gw: "DXNGCR DDRPHYC_BASE byte \<noteq> DDRPHYC_BASE + phy_bistwcr"
    using lane_cases [OF byte_lt] by (auto simp: reg_defs)
  fix r s
  assume at: "at r s"
  have or: "(x AND NOT b) OR b = x OR b" for x b :: u32
    by (rule bit_word_eqI) (auto simp: bit_simps)
  show "at (dll_at r) (setbits_le32 h (DXNDLLCR DDRPHYC_BASE byte) DDRPHYC_DXNDLLCR_DLLSRST
          (clrbits_le32 h (DXNDLLCR DDRPHYC_BASE byte) DDRPHYC_DXNDLLCR_DLLSRST s))"
    unfolding dll_at_def at_reg [OF at ll(2), symmetric]
    by (rule at_upd [OF at _ ll(2) wc(1)]) (simp_all add: byte_lt or)
  show "at (off_at r) (clrbits_le32 h (DXNGCR DDRPHYC_BASE byte) DDRPHYC_DXNGCR_DXEN s)"
    unfolding off_at_def at_reg [OF at ll(1), symmetric]
    by (rule at_upd [OF at _ ll(1) gw]) (simp_all add: byte_lt)
  show "at r (snd (DQ_unit_index h DDRPHYC_BASE byte i s))" for i
    unfolding DQ_unit_delay_R(3) [OF byte_lt] snd_conv by (rule gated.read_law [OF at])
next
  note apart = lane_regs_apart [OF byte_lt byte_lt]
  fix r :: "u32 \<Rightarrow> u32" and p u q
  show "dll_at (phase_at p r) = phase_at p (dll_at r)"
    by (simp add: dll_at_def phase_at_def phase_field_dll)
  show "dll_at (unit_at u r) = unit_at u (dll_at r)"
    using apart by (simp add: dll_at_def unit_at_def fun_upd_twist)
  show "dll_at (dq_at q r) = dq_at q (dll_at r)"
    using apart by (simp add: dll_at_def dq_at_def fun_upd_twist)
qed

context bist_phy
begin

text \<open>The verdict of lane \<open>b\<close> with data delays \<open>q\<close> once its DLL has been reset.\<close>

definition reset_verdict :: "'d sys \<Rightarrow> u8 \<Rightarrow> u32 \<Rightarrow> nat \<Rightarrow> nat \<Rightarrow> bool" where
  "reset_verdict s b q p u =
     (case lane_regs s b of (d, _, x) \<Rightarrow>
        eye b (phase_field p (d OR DDRPHYC_DXNDLLCR_DLLSRST)) q (unit_fields u x))"

text \<open>A de-skewed lane: nominal DQS, and every data bit at the delay of its own search.\<close>

definition deskewed_lane :: "'d sys \<Rightarrow> u8 \<Rightarrow> u32 \<times> u32 \<times> u32 \<Rightarrow> bool" where
  "deskewed_lane s b l \<longleftrightarrow>
     (let v = reset_verdict s b 0xAAAAAAAA
      in \<exists>st. deskew_start v = Some st \<and>
         (let (p, u) = deskew_edge v st;
              (d, _, x) = lane_regs s b;
              (d', q', x') = l
          in d' = phase_field 3 (d OR DDRPHYC_DXNDLLCR_DLLSRST) \<and> x' = unit_fields 3 x \<and>
             (\<forall>i<8. dq_delay (of_nat i) q' =
                of_nat (bit_choice (\<lambda>k. reset_verdict s b (set_dq (of_nat i) (of_nat k) 0xFFFFFFFF) p u)))))"

end

context bist_lane
begin

lemma stop_key: "stop_on_key h b nb_bytes fe k s = k (snd (ctrlc h s))"
  by (simp add: stop_on_key_def split_def)

lemma at_key: "at r s \<Longrightarrow> at r (snd (ctrlc h s))"
  by (rule at_same) simp_all

lemma clean_desk:
  assumes "lane_sel r = byte"
  shows "clean (desk.setting r p u q) = eye byte (phase_field p (r (DXNDLLCR DDRPHYC_BASE byte))) q
     (unit_fields u (r (DXNDQSTR DDRPHYC_BASE byte)))"
proof -
  have "DXNDQTR DDRPHYC_BASE byte \<noteq> DDRPHYC_BASE + phy_bistrr"
    using lane_cases [OF byte_lt] by (auto simp: reg_defs)
  then have "lane_sel (dq_at q r) = byte" using assms by (simp add: dq_at_def lane_sel_other)
  then show ?thesis
    using clean_setting [of "dq_at q r"] lane_regs_apart [OF byte_lt byte_lt]
    by (simp add: desk.setting_def dq_at_def)
qed

lemma deskew_byte_run:
  assumes ready: "R s (DDRPHYC_BASE + phy_bistwcr) = 0x200" "0 < bist_error_max s"
    and st: "deskew_start (reset_verdict s byte 0xAAAAAAAA) = Some st"
  shows "\<exists>s'. deskew_byte h DDRPHYC_BASE nb_bytes byte ((False, e), s) = Some (None, (False, e), s') \<and>
    deskewed_lane s byte (lane_regs s' byte) \<and> 0 < bist_error_max s' \<and>
    (\<forall>a. a \<notin> bist_scratch \<and> a \<notin> lane_block byte \<longrightarrow> R s' a = R s a)"
proof -
  let ?k = "\<lambda>s. snd (ctrlc h s)" and ?Q = "0xAAAAAAAA :: u32"
  define s2 where "s2 = BIST_datx8_sel h DDRPHYC_BASE byte (setbits_le32 h (DXNGCR DDRPHYC_BASE byte) DDRPHYC_DXNGCR_DXEN (?k s))"
  have at2: "at (R s2) s2" and frame: "\<And>a. a \<notin> bist_scratch \<Longrightarrow> a \<noteq> DXNGCR DDRPHYC_BASE byte \<Longrightarrow> R s2 a = R s a"
    using select_lane [of "?k s" s2] ready by (simp_all add: s2_def)
  define r where "r = dll_at (R s2)"
  have apart: "DXNDLLCR DDRPHYC_BASE byte \<noteq> DXNGCR DDRPHYC_BASE byte" "DXNDQTR DDRPHYC_BASE byte \<noteq> DXNGCR DDRPHYC_BASE byte"
    "DXNDQSTR DDRPHYC_BASE byte \<noteq> DXNGCR DDRPHYC_BASE byte" "DXNDLLCR DDRPHYC_BASE byte \<noteq> DXNDQSTR DDRPHYC_BASE byte"
    "DXNDLLCR DDRPHYC_BASE byte \<noteq> DXNDQTR DDRPHYC_BASE byte" "DXNDQTR DDRPHYC_BASE byte \<noteq> DXNDQSTR DDRPHYC_BASE byte"
    using lane_regs_apart [OF byte_lt byte_lt] by metis+
  have nrr: "DXNDLLCR DDRPHYC_BASE byte \<noteq> DDRPHYC_BASE + phy_bistrr"
    using lane_cases [OF byte_lt] by (auto simp: reg_defs)
  have sel: "lane_sel r = byte" using at2 nrr by (simp add: at_def r_def dll_at_def lane_sel_other)
  have rd: "r (DXNDLLCR DDRPHYC_BASE byte) = R s (DXNDLLCR DDRPHYC_BASE byte) OR DDRPHYC_DXNDLLCR_DLLSRST"
    "r (DXNDQSTR DDRPHYC_BASE byte) = R s (DXNDQSTR DDRPHYC_BASE byte)"
    using frame apart lane_not_scratch [OF byte_lt] by (simp_all add: r_def dll_at_def)
  have W: "desk.W r q = reset_verdict s byte q" for q
    by (simp add: fun_eq_iff desk.W_def clean_desk [OF sel] reset_verdict_def lane_regs_def rd)
  have bit: "desk.bit_ok r p u i = (\<lambda>k. reset_verdict s byte (set_dq (of_nat i) (of_nat k) 0xFFFFFFFF) p u)" for p u i
    by (simp add: fun_eq_iff desk.bit_ok_def W [symmetric] desk.W_def)
  let ?v = "reset_verdict s byte ?Q"
  note eb = deskew_edge_bounds [OF st]
  obtain s3 where s3: "deskew_setup h DDRPHYC_BASE byte (?k s) = Some (?v 3 7, s3)" "at (desk.setting r 3 7 ?Q) s3"
    using desk.setup_run [OF at2 s2_def] W by (auto simp: r_def)
  have lane: "\<exists>s' q'. deskew_lane h DDRPHYC_BASE nb_bytes byte (False, e) (int (fst st)) (int (snd st)) t = Some (None, (False, e), s') \<and>
    at (off_at (desk.setting r 3 3 q')) s' \<and> desk.deskewed r (deskew_edge ?v st) q'"
    if "at (desk.setting r (fst st) (snd st) ?Q) t" for t
    using desk.deskew_lane_run [OF that, of nb_bytes "(False, e)"] eb by (simp add: W)
  have "\<exists>t. at (desk.setting r (fst st) (snd st) ?Q) t \<and>
      deskew_byte h DDRPHYC_BASE nb_bytes byte ((False, e), s) =
      deskew_lane h DDRPHYC_BASE nb_bytes byte (False, e) (int (fst st)) (int (snd st)) t"
  proof (cases "?v 3 7")
    case True
    then have "st = (3, 7)" using st by (simp add: deskew_start_def)
    then show ?thesis using s3 True at_key [OF at_key [OF s3(2)]]
      by (intro exI [of _ "?k (?k s3)"]) (simp add: deskew_byte_def stop_key idx_90deg_def MAX_DQS_UNIT_IDX_def)
  next
    case no: False
    show ?thesis
    proof (cases "find (\<lambda>p. ?v p 7) [3..<7]")
      case (Some p)
      then obtain s4 where s4: "deskew_phase_pass h DDRPHYC_BASE byte (int 3) s3 = Some (int p, True, s4)" "at (desk.setting r p 7 ?Q) s4"
        using desk.phase_pass_run [OF s3(2), of 3] by (auto simp: W)
      have "st = (p, 7)" using st no Some by (simp add: deskew_start_def)
      then show ?thesis using s3 s4 no at_key [OF at_key [OF s4(2)]]
        by (intro exI [of _ "?k (?k s4)"]) (simp add: deskew_byte_def stop_key idx_90deg_def MAX_DQS_UNIT_IDX_def)
    next
      case None
      then obtain s4 p where s4: "deskew_phase_pass h DDRPHYC_BASE byte (int 3) s3 = Some (7, False, s4)" "at (desk.setting r p 7 ?Q) s4"
        using desk.phase_pass_run [OF s3(2), of 3] by (auto simp: W)
      obtain u where u: "find (?v 0) [0..<8] = Some u" "st = (0, u)"
        using st no None by (auto simp: deskew_start_def split: option.splits)
      obtain s5 where s5: "deskew_unit_pass h DDRPHYC_BASE byte (?k s4) = Some (int u, True, s5)" "at (desk.setting r 0 u ?Q) s5"
        using desk.unit_pass_run [OF at_key [OF s4(2)]] u(1) by (auto simp: W)
      then show ?thesis using s3 s4 no u at_key [OF s5(2)]
        by (intro exI [of _ "?k s5"]) (simp add: deskew_byte_def stop_key idx_90deg_def)
    qed
  qed
  then obtain s' q' where ret: "deskew_byte h DDRPHYC_BASE nb_bytes byte ((False, e), s) = Some (None, (False, e), s')"
    and at': "at (off_at (desk.setting r 3 3 q')) s'" and desk: "desk.deskewed r (deskew_edge ?v st) q'"
    using lane by metis
  have r': "a \<notin> bist_scratch \<Longrightarrow> R s' a = off_at (desk.setting r 3 3 q') a" for a by (rule at_reg [OF at'])
  have lr: "lane_regs s' byte = (phase_field 3 (R s (DXNDLLCR DDRPHYC_BASE byte) OR DDRPHYC_DXNDLLCR_DLLSRST), q',
      unit_fields 3 (R s (DXNDQSTR DDRPHYC_BASE byte)))"
    using r' apart lane_not_scratch [OF byte_lt] rd
    by (simp add: lane_regs_def off_at_def desk.setting_def phase_at_def unit_at_def dq_at_def)
  have "deskewed_lane s byte (lane_regs s' byte)"
    unfolding deskewed_lane_def Let_def lr
    using st desk by (auto simp: lane_regs_def desk.deskewed_def desk.choice_def bit split_def)
  moreover have "R s' a = R s a" if "a \<notin> bist_scratch" "a \<notin> lane_block byte" for a
    using r' [OF that(1)] frame [OF that(1)] that(2)
    by (simp add: lane_block_def off_at_def desk.setting_def phase_at_def unit_at_def dq_at_def r_def dll_at_def)
  ultimately show ?thesis using ret at' by (auto simp: at_def)
qed

end

context ddr_regs
begin

lemma enable_all_R:
  fixes s :: "'d sys"
  defines "s' \<equiv> setbits_le32 h (DDRPHYC_BASE + phy_dx3gcr) DDRPHYC_DXNGCR_DXEN
    (setbits_le32 h (DDRPHYC_BASE + phy_dx2gcr) DDRPHYC_DXNGCR_DXEN
    (setbits_le32 h (DDRPHYC_BASE + phy_dx1gcr) DDRPHYC_DXNGCR_DXEN
    (setbits_le32 h (DDRPHYC_BASE + phy_dx0gcr) DDRPHYC_DXNGCR_DXEN s)))"
  shows "b < 4 \<Longrightarrow> lane_regs s' b = lane_regs s b"
    and "a \<notin> phy_block \<Longrightarrow> R s' a = R s a" and "bist_error_max s' = bist_error_max s"
proof -
  let ?W = "{DDRPHYC_BASE + phy_dx0gcr, DDRPHYC_BASE + phy_dx1gcr, DDRPHYC_BASE + phy_dx2gcr, DDRPHYC_BASE + phy_dx3gcr}"
  have set1: "x \<notin> ddr_status \<Longrightarrow> a \<noteq> x \<Longrightarrow> R (setbits_le32 h x v t) a = R t a" for a x v and t :: "'d sys"
    by simp
  have W: "a \<notin> ?W \<Longrightarrow> R s' a = R s a" for a by (simp add: s'_def set1 del: R_bits)
  show "lane_regs s' b = lane_regs s b" if "b < 4"
  proof -
    have "a \<notin> ?W" if "a \<in> {DXNDLLCR DDRPHYC_BASE b, DXNDQTR DDRPHYC_BASE b, DXNDQSTR DDRPHYC_BASE b}" for a
      using that lane_cases [OF \<open>b < 4\<close>] by (auto simp: reg_defs)
    then show ?thesis unfolding lane_regs_def using W by simp
  qed
  have "?W \<subseteq> phy_block" by (simp add: phy_block_def reg_defs)
  then have "a \<notin> phy_block \<Longrightarrow> a \<notin> ?W" by blast
  then show "a \<notin> phy_block \<Longrightarrow> R s' a = R s a" using W by blast
  show "bist_error_max s' = bist_error_max s" unfolding s'_def bus_other_state ..
qed

end

context bist_phy
begin

lemma bit_deskew_returns:
  assumes max: "0 < bist_error_max s"
    and start: "\<And>b. b < fst (get_nb_bytes h DDRCTRL_BASE s) \<Longrightarrow>
        deskew_start (reset_verdict s b 0xAAAAAAAA) \<noteq> None"
  shows "\<exists>s'. bit_deskew h DDRCTRL_BASE DDRPHYC_BASE s = Some (TEST_PASSED, s') \<and>
    (\<forall>b<fst (get_nb_bytes h DDRCTRL_BASE s). deskewed_lane s b (lane_regs s' b)) \<and>
    (\<forall>a. a \<notin> phy_block \<longrightarrow> R s' a = R s a) \<and> 0 < bist_error_max s'"
proof -
  define nb where "nb = fst (get_nb_bytes h DDRCTRL_BASE s)"
  define s0 where "s0 = snd (get_nb_bytes h DDRCTRL_BASE s)"
  define s1 where "s1 = tuning_prologue h DDRCTRL_BASE DDRPHYC_BASE s0"
  have nb: "unat nb \<le> 4" using nb_bytes_cases [of DDRCTRL_BASE s] by (auto simp: nb_def)
  have R1: "\<And>b. b < 4 \<Longrightarrow> lane_regs s1 b = lane_regs s b" "\<And>a. a \<notin> phy_block \<Longrightarrow> R s1 a = R s a"
    using tuning_prologue_R(2,3) by (simp_all add: s1_def s0_def lane_regs_def)
  have "\<exists>fe t. for_each_opt (deskew_byte h DDRPHYC_BASE nb) (map of_nat [0..<unat nb]) ((False, 0), s1) = Some (None, fe, t) \<and>
    fe = (False, 0) \<and> (\<forall>b. unat b < unat nb \<longrightarrow> deskewed_lane s b (lane_regs t b)) \<and>
    (\<forall>a. a \<notin> phy_block \<longrightarrow> R t a = R s1 a) \<and> 0 < bist_error_max t"
  proof (rule byte_loop [OF nb])
    show "(False, 0 :: u8) = (False, 0)" ..
    show "R s1 (DDRPHYC_BASE + phy_bistwcr) = 0x200" by (simp add: s1_def tuning_prologue_R(1))
    show "0 < bist_error_max s1" using max by (simp add: s1_def s0_def tuning_prologue_R(4))
    fix i t and fe :: "bool \<times> u8"
    assume i: "i < unat nb" and fe: "fe = (False, 0)" and ready: "R t (DDRPHYC_BASE + phy_bistwcr) = 0x200"
      "0 < bist_error_max t" and lr1: "lane_regs t (of_nat i) = lane_regs s1 (of_nat i)"
    let ?b = "of_nat i :: u8"
    have ub: "unat ?b = i" "i < 4" using i nb by (simp_all add: unat_of_nat)
    have b4: "?b < 4" and bnb: "?b < nb" using ub i by (simp_all add: word_less_nat_alt)
    have lr: "lane_regs t ?b = lane_regs s ?b" using lr1 R1(1) [OF b4] by simp
    have v1: "reset_verdict t ?b = reset_verdict s ?b"
      using lr by (simp add: reset_verdict_def fun_eq_iff)
    have v2: "deskewed_lane t ?b = deskewed_lane s ?b"
      by (rule ext) (simp only: deskewed_lane_def v1 lr)
    have "deskew_start (reset_verdict t ?b 0xAAAAAAAA) \<noteq> None"
      unfolding v1 by (rule start) (use bnb in \<open>simp add: nb_def\<close>)
    then obtain st where "deskew_start (reset_verdict t ?b 0xAAAAAAAA) = Some st" by blast
    then show "\<exists>fe' t'. deskew_byte h DDRPHYC_BASE nb ?b (fe, t) = Some (None, fe', t') \<and> fe' = (False, 0) \<and>
        deskewed_lane s ?b (lane_regs t' ?b) \<and> 0 < bist_error_max t' \<and>
        (\<forall>a. a \<notin> bist_scratch \<and> a \<notin> lane_block ?b \<longrightarrow> R t' a = R t a)"
      using bist_lane.deskew_byte_run [OF lane_of [OF b4] ready, of st nb 0] fe v2 by auto
  qed
  then obtain t where run: "for_each_opt (deskew_byte h DDRPHYC_BASE nb) (bytes_upto nb) ((False, 0), s1) = Some (None, (False, 0), t)"
    and G: "\<And>b. b < nb \<Longrightarrow> deskewed_lane s b (lane_regs t b)" and fr: "\<And>a. a \<notin> phy_block \<Longrightarrow> R t a = R s1 a"
    and m: "0 < bist_error_max t"
    by (auto simp: bytes_upto_def word_less_nat_alt)
  define t' where "t' = setbits_le32 h (DDRPHYC_BASE + phy_dx3gcr) DDRPHYC_DXNGCR_DXEN
    (setbits_le32 h (DDRPHYC_BASE + phy_dx2gcr) DDRPHYC_DXNGCR_DXEN
    (setbits_le32 h (DDRPHYC_BASE + phy_dx1gcr) DDRPHYC_DXNGCR_DXEN
    (setbits_le32 h (DDRPHYC_BASE + phy_dx0gcr) DDRPHYC_DXNGCR_DXEN t)))"
  have nbs: "get_nb_bytes h DDRCTRL_BASE s = (nb, s0)" by (simp add: nb_def s0_def)
  have ret: "bit_deskew h DDRCTRL_BASE DDRPHYC_BASE s = Some (TEST_PASSED, t')"
    unfolding bit_deskew_def nbs prod.case Let_def s1_def [symmetric] run Option.bind.bind_lunit
      option.case t'_def [symmetric] by (simp add: tuning_result_def)
  have b4: "b < 4" if "b < nb" for b
    using that nb by (simp add: word_less_nat_alt)
  show ?thesis
    unfolding nb_def [symmetric]
    using ret G fr R1(2) m enable_all_R [where s = t] b4 by (intro exI [of _ t']) (auto simp: t'_def [symmetric])
qed

end

subsection \<open>Once a lane has no pass region\<close>

lemma stop_on_key_Some:
  assumes "stop_on_key h b nb (fs, e) k s = Some (r, fe', s')"
  shows "r = Some TEST_FAILED \<and> fe' = (fs, e) \<or> k (snd (ctrlc h s)) = Some (r, fe', s')"
  using assms by (auto simp: stop_on_key_def split_def Let_def split: if_splits)

text \<open>\<open>force_stop\<close> is never reset: every later lane is given up, whatever its tests say.\<close>

lemma deskew_byte_forced:
  assumes "deskew_byte h phy nb b ((True, e), s) = Some (r, fe', s')"
  shows "r = Some TEST_FAILED \<and> fe' = (True, e) \<or> r = None \<and> fe' = (True, e + 1)"
  using assms
  by (auto simp: deskew_byte_def bind_eq_Some_conv split: if_splits dest!: stop_on_key_Some)

text \<open>So \<open>error\<close> is 0 wherever the bit search can be interrupted.\<close>

definition deskew_error_stops :: "bool \<times> u8 \<Rightarrow> bool" where
  "deskew_error_stops = (\<lambda>(force_stop, error). error \<noteq> 0 \<longrightarrow> force_stop)"

lemma deskew_byte_cases:
  assumes inv: "deskew_error_stops (fs, e)"
    and ret: "deskew_byte h phy nb b ((fs, e), s) = Some (r, fe', s')" and e: "e \<noteq> 0xFF"
  shows "deskew_error_stops fe' \<and> (r = Some TEST_FAILED \<or> r = None \<or> (\<not> fs \<and> e = 0 \<and> fe' = (False, 0)))"
proof (cases fs)
  case True
  then show ?thesis using deskew_byte_forced [of h phy nb b e s r fe' s'] ret by (auto simp: deskew_error_stops_def)
next
  case False
  then have e0: "e = 0" using inv by (simp add: deskew_error_stops_def)
  show ?thesis
    using ret False e0
    by (auto simp: deskew_byte_def deskew_lane_def bind_eq_Some_conv deskew_error_stops_def
        split: if_splits dest!: stop_on_key_Some)
qed

end
