(* ===== verification/DdrBusTests.thy ===== *)
theory DdrBusTests
  imports DdrTestArgs
begin

text \<open>
  The tests of the data bus, of the address bus and of the memory device
  (ddr/stm32mp1_tests.c): \<open>databus\<close>, \<open>addressbus\<close>, \<open>memdevice\<close>, the two 32-word walking
  tests and the simultaneous switching test, each with its command. The lemmas
  characterise the verdict of each on any memory device of the contract \<open>dram\<close>: the cells'
  read behaviour \<open>view\<close> and the address decoder \<open>decode\<close> are arbitrary, so the theorems
  say which faulty memories a test accepts as well as that a sound memory passes.

  The commands' results are options throughout, for the table of commands: only
  \<open>None\<close> of \<open>get_bufsize\<close> and an infinite loop that was asked for give \<open>None\<close>.
\<close>

subsection \<open>Data bus\<close>

function databus_loop :: "'d platform \<Rightarrow> u32 \<Rightarrow> u32 \<Rightarrow> 'd sys \<Rightarrow> u32 \<times> 'd sys" where
  "databus_loop h address pattern s =
     (if pattern \<noteq> 0
      then let s = writel h pattern address s;
               (read_value, s) = readl h address s
           in if read_value \<noteq> pattern then (pattern, s)
              else databus_loop h address (push_bit 1 pattern) s
      else (0, s))"
  by pat_completeness auto
termination
  by (relation "measure (\<lambda>(h, address, pattern, s). shl_steps pattern)")
    (use shl_steps_dec in auto)

declare databus_loop.simps [simp del]

definition databus :: "'d platform \<Rightarrow> u32 \<Rightarrow> 'd sys \<Rightarrow> u32 \<times> 'd sys" where
  "databus h address s = databus_loop h address 1 s"

definition test_databus ::
  "'d platform \<Rightarrow> string list \<Rightarrow> 'd sys \<Rightarrow> (test_result \<times> 'd sys) option" where
  "test_databus h argv s =
     (case get_addr argv 0 s of
        (None, s) \<Rightarrow> Some (TEST_ERROR, s)
      | (Some addr, s) \<Rightarrow>
          let (error, s) = databus h addr s
          in if error \<noteq> 0
             then Some (TEST_FAILED, sprintf ''0x%x: error for bits 0x%x'' [AU32 addr, AU32 error] s)
             else Some (TEST_PASSED, sprintf ''address 0x%x'' [AU32 addr] s))"

subsection \<open>Address bus\<close>

text \<open>The three loops over the power-of-two offsets; \<open>&address[offset]\<close> is
  \<open>address + 4 * offset\<close>.\<close>

function fill_offsets ::
  "'d platform \<Rightarrow> u32 \<Rightarrow> u32 \<Rightarrow> u32 \<Rightarrow> u32 \<Rightarrow> 'd sys \<Rightarrow> 'd sys" where
  "fill_offsets h address msk pattern offset s =
     (if offset AND msk \<noteq> 0
      then fill_offsets h address msk pattern (push_bit 1 offset)
             (writel h pattern (address + 4 * offset) s)
      else s)"
  by pat_completeness auto
termination
proof (relation "measure (\<lambda>(h, address, msk, pattern, offset, s). shl_steps offset)", goal_cases)
  case (2 h address msk pattern offset s)
  then have "offset \<noteq> 0" by auto
  then show ?case using shl_steps_dec by auto
qed simp

function check_high ::
  "'d platform \<Rightarrow> u32 \<Rightarrow> u32 \<Rightarrow> u32 \<Rightarrow> u32 \<Rightarrow> 'd sys \<Rightarrow> u32 option \<times> 'd sys" where
  "check_high h address msk pattern offset s =
     (if offset AND msk \<noteq> 0
      then let (read_value, s) = readl h (address + 4 * offset) s
           in if read_value \<noteq> pattern then (Some (address + 4 * offset), s)
              else check_high h address msk pattern (push_bit 1 offset) s
      else (None, s))"
  by pat_completeness auto
termination
proof (relation "measure (\<lambda>(h, address, msk, pattern, offset, s). shl_steps offset)", goal_cases)
  case (2 h address msk pattern offset s)
  then have "offset \<noteq> 0" by auto
  then show ?case using shl_steps_dec by auto
qed simp

function check_shorted ::
  "'d platform \<Rightarrow> u32 \<Rightarrow> u32 \<Rightarrow> u32 \<Rightarrow> u32 \<Rightarrow> u32 \<Rightarrow> 'd sys \<Rightarrow> u32 option \<times> 'd sys" where
  "check_shorted h address msk pattern test_offset offset s =
     (if offset AND msk \<noteq> 0
      then let (read_value, s) = readl h (address + 4 * offset) s
           in if read_value \<noteq> pattern \<and> offset \<noteq> test_offset
              then (Some (address + 4 * test_offset), s)
              else check_shorted h address msk pattern test_offset (push_bit 1 offset) s
      else (None, s))"
  by pat_completeness auto
termination
proof (relation "measure (\<lambda>(h, address, msk, pattern, test_offset, offset, s). shl_steps offset)",
    goal_cases)
  case (2 h address msk pattern test_offset offset s)
  then have "offset \<noteq> 0" by auto
  then show ?case using shl_steps_dec by auto
qed simp

text \<open>One round of the last loop, for the bit \<open>test_offset\<close>.\<close>

definition check_low_bit ::
  "'d platform \<Rightarrow> u32 \<Rightarrow> u32 \<Rightarrow> u32 \<Rightarrow> u32 \<Rightarrow> u32 \<Rightarrow> 'd sys \<Rightarrow> u32 option \<times> 'd sys" where
  "check_low_bit h address msk pattern antipattern test_offset s =
     (let s = writel h antipattern (address + 4 * test_offset) s;
          (v, s) = readl h address s
      in if v \<noteq> pattern then (Some (address + 4 * test_offset), s)
         else case check_shorted h address msk pattern test_offset 1 s of
                (Some a, s) \<Rightarrow> (Some a, s)
              | (None, s) \<Rightarrow> (None, writel h pattern (address + 4 * test_offset) s))"

function check_low ::
  "'d platform \<Rightarrow> u32 \<Rightarrow> u32 \<Rightarrow> u32 \<Rightarrow> u32 \<Rightarrow> u32 \<Rightarrow> 'd sys \<Rightarrow> u32 option \<times> 'd sys" where
  "check_low h address msk pattern antipattern test_offset s =
     (if test_offset AND msk \<noteq> 0
      then case check_low_bit h address msk pattern antipattern test_offset s of
             (Some a, s) \<Rightarrow> (Some a, s)
           | (None, s) \<Rightarrow> check_low h address msk pattern antipattern (push_bit 1 test_offset) s
      else (None, s))"
  by pat_completeness auto
termination
proof (relation "measure (\<lambda>(h, address, msk, pattern, antipattern, test_offset, s).
    shl_steps test_offset)", goal_cases)
  case (2 h address msk pattern antipattern test_offset s)
  then have "test_offset \<noteq> 0" by auto
  then show ?case using shl_steps_dec by auto
qed simp

declare fill_offsets.simps [simp del] check_high.simps [simp del] check_shorted.simps [simp del]
  check_low.simps [simp del]

text \<open>The result is a pointer: 0 is NULL.\<close>

definition addressbus :: "'d platform \<Rightarrow> u32 \<Rightarrow> u32 \<Rightarrow> 'd sys \<Rightarrow> u32 \<times> 'd sys" where
  "addressbus h address nb_bytes s =
     (let msk = nb_bytes div 4 - 1;
          pattern = 0xAAAAAAAA;
          antipattern = 0x55555555;
          s = fill_offsets h address msk pattern 1 s;
          s = writel h antipattern address s
      in case check_high h address msk pattern 1 s of
           (Some a, s) \<Rightarrow> (a, s)
         | (None, s) \<Rightarrow>
             let s = writel h pattern address s
             in case check_low h address msk pattern antipattern 1 s of
                  (Some a, s) \<Rightarrow> (a, s)
                | (None, s) \<Rightarrow> (0, s))"

definition is_power_of_2 :: "u32 \<Rightarrow> bool" where
  "is_power_of_2 n \<longleftrightarrow> n \<noteq> 0 \<and> n AND (n - 1) = 0"

definition test_addressbus ::
  "'d platform \<Rightarrow> string list \<Rightarrow> 'd sys \<Rightarrow> (test_result \<times> 'd sys) option" where
  "test_addressbus h argv s = do {
     (bufsize, s) \<leftarrow> get_bufsize h argv 0 (4 * 1024) 4 s;
     (case bufsize of
        None \<Rightarrow> Some (TEST_ERROR, s)
      | Some bufsize \<Rightarrow>
          if \<not> is_power_of_2 bufsize
          then Some (TEST_ERROR, sprintf ''size 0x%x is not a power of 2'' [AU32 bufsize] s)
          else case get_addr argv 1 s of
            (None, s) \<Rightarrow> Some (TEST_ERROR, s)
          | (Some addr, s) \<Rightarrow>
              let (error, s) = addressbus h addr bufsize s
              in if error \<noteq> 0
                 then Some (TEST_FAILED,
                        sprintf ''0x%x: error for address 0x%x'' [AU32 addr, AU32 error] s)
                 else Some (TEST_PASSED,
                        sprintf ''address 0x%x, size 0x%x'' [AU32 addr, AU32 bufsize] s))
   }"

subsection \<open>Memory device\<close>

text \<open>\<open>pattern\<close> starts at 1 and is incremented with \<open>offset\<close>. An interrupted test returns
  NULL, as a passed one does.\<close>

definition memdevice_fill :: "'d platform \<Rightarrow> u32 \<Rightarrow> u32 \<Rightarrow> 'd sys \<Rightarrow> u32 option \<times> 'd sys" where
  "memdevice_fill h address offset s =
     (let pattern = offset + 1;
          s = writel h pattern (address + 4 * offset) s;
          (stop, s) = progress h offset s
      in (if stop then Some 0 else None, s))"

definition memdevice_invert :: "'d platform \<Rightarrow> u32 \<Rightarrow> u32 \<Rightarrow> 'd sys \<Rightarrow> u32 option \<times> 'd sys" where
  "memdevice_invert h address offset s =
     (let pattern = offset + 1;
          (v, s) = readl h (address + 4 * offset) s
      in if v \<noteq> pattern then (Some (address + 4 * offset), s)
         else let antipattern = NOT pattern;
                  s = writel h antipattern (address + 4 * offset) s;
                  (stop, s) = progress h offset s
              in (if stop then Some 0 else None, s))"

definition memdevice_check :: "'d platform \<Rightarrow> u32 \<Rightarrow> u32 \<Rightarrow> 'd sys \<Rightarrow> u32 option \<times> 'd sys" where
  "memdevice_check h address offset s =
     (let pattern = offset + 1;
          antipattern = NOT pattern;
          (v, s) = readl h (address + 4 * offset) s
      in if v \<noteq> antipattern then (Some (address + 4 * offset), s)
         else let (stop, s) = progress h offset s
              in (if stop then Some 0 else None, s))"

definition memdevice :: "'d platform \<Rightarrow> u32 \<Rightarrow> u32 \<Rightarrow> 'd sys \<Rightarrow> u32 \<times> 'd sys" where
  "memdevice h address nb_bytes s =
     (let nb_words = nb_bytes div 4
      in case for_each (memdevice_fill h address) (count_by 1 nb_words) s of
           (Some r, s) \<Rightarrow> (r, s)
         | (None, s) \<Rightarrow>
             case for_each (memdevice_invert h address) (count_by 1 nb_words) s of
               (Some r, s) \<Rightarrow> (r, s)
             | (None, s) \<Rightarrow>
                 case for_each (memdevice_check h address) (count_by 1 nb_words) s of
                   (Some r, s) \<Rightarrow> (r, s)
                 | (None, s) \<Rightarrow> (0, s))"

definition test_memdevice ::
  "'d platform \<Rightarrow> string list \<Rightarrow> 'd sys \<Rightarrow> (test_result \<times> 'd sys) option" where
  "test_memdevice h argv s = do {
     (bufsize, s) \<leftarrow> get_bufsize h argv 0 (4 * 1024) 4 s;
     (case bufsize of
        None \<Rightarrow> Some (TEST_ERROR, s)
      | Some bufsize \<Rightarrow>
          case get_addr argv 1 s of
            (None, s) \<Rightarrow> Some (TEST_ERROR, s)
          | (Some addr, s) \<Rightarrow>
              let (error, s) = memdevice h addr bufsize s
              in if error \<noteq> 0
                 then Some (TEST_FAILED,
                        sprintf ''0x%x: error for address 0x%x'' [AU32 addr, AU32 error] s)
                 else Some (TEST_PASSED,
                        sprintf ''address 0x%x, size 0x%x'' [AU32 addr, AU32 bufsize] s))
   }"

subsection \<open>Walking zeroes and ones over 32 words\<close>

text \<open>A round writes the 32 patterns, checks them all, and clears them unless the test ends.
  The state of the loop is \<open>(error, loop, s)\<close>.\<close>

definition databuswalk_check ::
  "'d platform \<Rightarrow> (nat \<Rightarrow> u32) \<Rightarrow> u32 \<Rightarrow> u32 \<times> 'd sys \<Rightarrow> u32 \<times> 'd sys" where
  "databuswalk_check h pat addr =
     fold (\<lambda>i (error, s).
             let (data, s) = readl h (addr + 4 * of_nat i) s
             in (if pat i \<noteq> data then error OR push_bit i 1 else error, s)) [0..<32]"

definition databuswalk_write ::
  "'d platform \<Rightarrow> (nat \<Rightarrow> u32) \<Rightarrow> u32 \<Rightarrow> 'd sys \<Rightarrow> 'd sys" where
  "databuswalk_write h pat addr = fold (\<lambda>i. writel h (pat i) (addr + 4 * of_nat i)) [0..<32]"

definition databuswalk_round ::
  "'d platform \<Rightarrow> (nat \<Rightarrow> u32) \<Rightarrow> u32 \<Rightarrow> u32 \<Rightarrow> u32 \<times> u32 \<times> 'd sys \<Rightarrow>
     (u32 \<times> u32 \<times> 'd sys + u32 \<times> u32 \<times> 'd sys) option" where
  "databuswalk_round h pat addr nb_loop = (\<lambda>(error, cnt, s).
     if error \<noteq> 0 then Some (Inl (error, cnt, s))
     else let s = databuswalk_write h pat addr s;
              (error, s) = databuswalk_check h pat addr (error, s);
              (fin, cnt, s) = test_loop_end h cnt nb_loop 1000 s
          in if fin then Some (Inl (error, cnt, s))
             else Some (Inr (error, cnt, databuswalk_write h (\<lambda>_. 0) addr s)))"

definition databuswalk_report ::
  "u32 \<times> u32 \<times> 'd sys \<Rightarrow> (test_result \<times> 'd sys) option" where
  "databuswalk_report = (\<lambda>(error, cnt, s).
     if error \<noteq> 0
     then Some (TEST_FAILED, sprintf ''loop %d: error for bits 0x%x'' [AU32 cnt, AU32 error] s)
     else Some (TEST_PASSED, sprintf ''no error for %d loops'' [AU32 cnt] s))"

definition databuswalk0 ::
  "'d platform \<Rightarrow> string list \<Rightarrow> 'd sys \<Rightarrow> (test_result \<times> 'd sys) option" where
  "databuswalk0 h argv s =
     (case get_nb_loop argv 0 100 s of
        (None, s) \<Rightarrow> Some (TEST_ERROR, s)
      | (Some nb_loop, s) \<Rightarrow>
          case get_addr argv 1 s of
            (None, s) \<Rightarrow> Some (TEST_ERROR, s)
          | (Some addr, s) \<Rightarrow>
              loop (databuswalk_round h (\<lambda>i. NOT (push_bit i 1)) addr nb_loop) (0, 0, s)
                \<bind> databuswalk_report)"

definition databuswalk1 ::
  "'d platform \<Rightarrow> string list \<Rightarrow> 'd sys \<Rightarrow> (test_result \<times> 'd sys) option" where
  "databuswalk1 h argv s =
     (case get_nb_loop argv 0 100 s of
        (None, s) \<Rightarrow> Some (TEST_ERROR, s)
      | (Some nb_loop, s) \<Rightarrow>
          case get_addr argv 1 s of
            (None, s) \<Rightarrow> Some (TEST_ERROR, s)
          | (Some addr, s) \<Rightarrow>
              loop (databuswalk_round h (\<lambda>i. push_bit i 1) addr nb_loop) (0, 0, s)
                \<bind> databuswalk_report)"

subsection \<open>Simultaneous switching outputs\<close>

definition sso_data :: "nat \<Rightarrow> nat \<Rightarrow> u32" where
  "sso_data i j =
     (if j = 0 \<or> j = 2 then push_bit i 1
      else if j = 3 \<or> j = 5 then NOT (push_bit i 1)
      else if j = 1 then NOT 0
      else 0)"

text \<open>One word: \<open>Some data\<close> is the pattern that failed.\<close>

definition sso_word :: "'d platform \<Rightarrow> u32 \<Rightarrow> 'd sys \<Rightarrow> u32 option \<times> 'd sys" where
  "sso_word h offset =
     for_each (\<lambda>(i, j) s.
       let data = sso_data i j;
           s = writel h data offset s;
           (error, s) = check_addr h offset data s
       in (if error then Some data else None, s))
     [(i, j). i \<leftarrow> [0..<32], j \<leftarrow> [0..<6]]"

text \<open>The loop ends with the failing pattern and its address, or with \<open>None\<close>, also when it
  is interrupted: \<open>goto end\<close> with \<open>error = 0\<close>.\<close>

definition sso_round ::
  "'d platform \<Rightarrow> u32 \<times> u32 \<times> 'd sys \<Rightarrow>
     ((u32 \<times> u32) option \<times> 'd sys + u32 \<times> u32 \<times> 'd sys) option" where
  "sso_round h = (\<lambda>(offset, remaining, s).
     if remaining = 0 then Some (Inl (None, s))
     else case sso_word h offset s of
            (Some data, s) \<Rightarrow> Some (Inl (Some (data, offset), s))
          | (None, s) \<Rightarrow>
              let offset = offset + 4;
                  remaining = remaining - 4;
                  (stop, s) = progress h (push_bit 7 offset) s
              in if stop then Some (Inl (None, s)) else Some (Inr (offset, remaining, s)))"

definition test_sso ::
  "'d platform \<Rightarrow> string list \<Rightarrow> 'd sys \<Rightarrow> (test_result \<times> 'd sys) option" where
  "test_sso h argv s = do {
     (bufsize, s) \<leftarrow> get_bufsize h argv 0 (4 * 1024) 4 s;
     (case bufsize of
        None \<Rightarrow> Some (TEST_ERROR, s)
      | Some bufsize \<Rightarrow>
          case get_addr argv 1 s of
            (None, s) \<Rightarrow> Some (TEST_ERROR, s)
          | (Some addr, s) \<Rightarrow> do {
              (error, s) \<leftarrow> loop (sso_round h) (addr, bufsize, s);
              (case error of
                 Some (data, offset) \<Rightarrow>
                   Some (TEST_FAILED,
                     sprintf ''error for pattern 0x%x @0x%x'' [AU32 data, AU32 offset] s)
               | None \<Rightarrow>
                   Some (TEST_PASSED,
                     sprintf ''no error for sso at 0x%x length 0x%x'' [AU32 addr, AU32 bufsize] s))
            })
   }"

section \<open>What the verdicts mean\<close>

subsection \<open>Data bus\<close>

context dram begin

lemma databus_loop_spec:
  assumes a: "a \<in> region" and "i \<le> 32"
  defines "P \<equiv> \<lambda>i. view (decode a) (2 ^ i) = 2 ^ i"
  shows "fst (databus_loop h a (2 ^ i) s) = 0 \<and> (\<forall>j. i \<le> j \<and> j < 32 \<longrightarrow> P j) \<or>
    (\<exists>j. i \<le> j \<and> j < 32 \<and> fst (databus_loop h a (2 ^ i) s) = 2 ^ j \<and> \<not> P j \<and>
       (\<forall>l. i \<le> l \<and> l < j \<longrightarrow> P l))"
  using \<open>i \<le> 32\<close>
proof (induction i arbitrary: s rule: inc_induct)
  case base
  then show ?case by (subst databus_loop.simps) auto
next
  case (step i)
  let ?s = "snd (readl h a (writel h (2 ^ i) a s))"
  have n: "(2 ^ i :: u32) \<noteq> 0" by (rule pow_nonzero [OF step(2)])
  have "fst (readl h a (writel h (2 ^ i) a s)) = view (decode a) (2 ^ i)"
    using a by simp
  then have u: "fst (databus_loop h a (2 ^ i) s) =
      (if P i then fst (databus_loop h a (2 ^ Suc i) ?s) else 2 ^ i)"
    using n by (subst databus_loop.simps) (simp add: Let_def case_prod_beta P_def mult.commute)
  show ?case
  proof (cases "P i")
    case True
    with u step.IH [of ?s] show ?thesis
      by (metis Suc_leD Suc_leI le_neq_implies_less)
  next
    case False
    then show ?thesis using u step(2) by auto
  qed
qed

lemma databus_spec:
  assumes "a \<in> region"
  shows "fst (databus h a s) = 0 \<and> (\<forall>i<32. view (decode a) (2 ^ i) = 2 ^ i) \<or>
    (\<exists>i<32. fst (databus h a s) = 2 ^ i \<and> view (decode a) (2 ^ i) \<noteq> 2 ^ i \<and>
       (\<forall>j<i. view (decode a) (2 ^ j) = 2 ^ j))"
  using databus_loop_spec [OF assms, of 0 s] by (simp add: databus_def)

end

subsection \<open>Address bus\<close>

text \<open>Sound cells behind an arbitrary decoder. The offsets probed are \<open>2 ^ i\<close> words for
  \<open>i < k\<close>, that is, a buffer of \<open>2 ^ (k + 2)\<close> bytes.\<close>

locale bus_dram = dram h mem sound_cell decode region
  for h :: "'d platform" and mem decode region +
  fixes a :: u32 and k :: nat
  assumes k_bound: "k \<le> 28"
    and probe_base: "a \<in> region"
    and probe: "i < k \<Longrightarrow> a + 4 * 2 ^ i \<in> region"
begin

definition line :: "nat \<Rightarrow> u32" where
  "line i = decode (a + 4 * 2 ^ i)"

lemma fill_offsets_spec:
  "i \<le> k \<Longrightarrow> cells (fill_offsets h a (mask k) p (2 ^ i) s) =
     (cells s)\<lparr>dev := \<lambda>x. if \<exists>j. i \<le> j \<and> j < k \<and> x = line j then p else dev (cells s) x\<rparr>"
proof (induction i arbitrary: s rule: inc_induct)
  case base
  then show ?case using k_bound by (subst fill_offsets.simps) (simp add: pow_and_mask leD cong: conj_cong)
next
  case (step i)
  let ?s = "writel h p (a + 4 * 2 ^ i) s"
  have "fill_offsets h a (mask k) p (2 ^ i) s = fill_offsets h a (mask k) p (2 ^ Suc i) ?s"
    using step(1,2) k_bound pow_nonzero [of i]
    by (subst fill_offsets.simps) (simp add: pow_and_mask mult.commute)
  moreover have "dev (cells ?s) = (dev (cells s))(line i := p)"
    using step(2) probe [of i] by (simp add: line_def del: cells_sel)
  moreover have "(cells ?s)\<lparr>dev := m\<rparr> = (cells s)\<lparr>dev := m\<rparr>" for m
    using step(2) probe [of i] by (simp del: cells_sel)
  ultimately have "cells (fill_offsets h a (mask k) p (2 ^ i) s) = (cells s)\<lparr>dev := \<lambda>x.
      if \<exists>j. Suc i \<le> j \<and> j < k \<and> x = line j then p else ((dev (cells s))(line i := p)) x\<rparr>"
    using step.IH [of ?s] by (simp only:)
  moreover have "(\<lambda>x. if \<exists>j. Suc i \<le> j \<and> j < k \<and> x = line j then p
        else ((dev (cells s))(line i := p)) x) =
      (\<lambda>x. if \<exists>j. i \<le> j \<and> j < k \<and> x = line j then p else dev (cells s) x)"
    using step(2) by (auto simp: fun_eq_iff Suc_le_eq dest: le_neq_implies_less)
  ultimately show ?case by (simp only:)
qed

lemma check_high_spec:
  "i \<le> k \<Longrightarrow> case check_high h a (mask k) p (2 ^ i) s of
     (None, s') \<Rightarrow> cells s' = cells s \<and> (\<forall>j. i \<le> j \<and> j < k \<longrightarrow> dev (cells s) (line j) = p)
   | (Some x, s') \<Rightarrow> \<exists>j. i \<le> j \<and> j < k \<and> x = a + 4 * 2 ^ j \<and> dev (cells s) (line j) \<noteq> p"
proof (induction i arbitrary: s rule: inc_induct)
  case base
  then show ?case using k_bound by (subst check_high.simps) (auto simp: pow_and_mask)
next
  case (step i)
  obtain v s1 where r: "readl h (a + 4 * 2 ^ i) s = (v, s1)" by fastforce
  then have v: "v = dev (cells s) (line i)" and s1: "cells s1 = cells s"
    using fst_readl [OF probe [OF step(2)], of s] cells_readl [OF probe [OF step(2)], of s]
    by (simp_all add: line_def sound_cell_def)
  have "check_high h a (mask k) p (2 ^ i) s =
      (if v \<noteq> p then (Some (a + 4 * 2 ^ i), s1) else check_high h a (mask k) p (2 ^ Suc i) s1)"
    using step(1,2) k_bound pow_nonzero [of i] r
    by (subst check_high.simps) (simp add: pow_and_mask mult.commute)
  then show ?case
    using step.IH [of s1] step(2) v s1
    by (auto simp del: cells_sel split: prod.splits option.splits
        intro: Suc_leD dest: le_neq_implies_less Suc_leI)
qed

lemma check_shorted_spec:
  "i \<le> k \<Longrightarrow> t < k \<Longrightarrow> case check_shorted h a (mask k) p (2 ^ t) (2 ^ i) s of
     (None, s') \<Rightarrow> cells s' = cells s \<and>
       (\<forall>j. i \<le> j \<and> j < k \<and> j \<noteq> t \<longrightarrow> dev (cells s) (line j) = p)
   | (Some x, s') \<Rightarrow> x = a + 4 * 2 ^ t \<and>
       (\<exists>j. i \<le> j \<and> j < k \<and> j \<noteq> t \<and> dev (cells s) (line j) \<noteq> p)"
proof (induction i arbitrary: s rule: inc_induct)
  case base
  then show ?case using k_bound by (subst check_shorted.simps) (auto simp: pow_and_mask)
next
  case (step i)
  obtain v s1 where r: "readl h (a + 4 * 2 ^ i) s = (v, s1)" by fastforce
  then have v: "v = dev (cells s) (line i)" and s1: "cells s1 = cells s"
    using fst_readl [OF probe [OF step(2)], of s] cells_readl [OF probe [OF step(2)], of s]
    by (simp_all add: line_def sound_cell_def)
  have "unat (2 ^ i :: u32) = 2 ^ i" "unat (2 ^ t :: u32) = 2 ^ t"
    using step(2) step.prems k_bound by (simp_all add: unat_pow2)
  then have it: "(2 ^ i :: u32) = 2 ^ t \<longleftrightarrow> i = t"
    by (metis power_inject_exp one_less_numeral_iff semiring_norm(76))
  have "check_shorted h a (mask k) p (2 ^ t) (2 ^ i) s =
      (if v \<noteq> p \<and> i \<noteq> t then (Some (a + 4 * 2 ^ t), s1)
       else check_shorted h a (mask k) p (2 ^ t) (2 ^ Suc i) s1)"
    using step(1,2) k_bound pow_nonzero [of i] r it
    by (subst check_shorted.simps) (simp add: pow_and_mask mult.commute)
  then show ?case
    using step.IH [OF step.prems, of s1] step(2) v s1
    by (auto simp del: cells_sel split: prod.splits option.splits
        intro: Suc_leD dest: le_neq_implies_less Suc_leI)
qed

text \<open>Before each round of the last loop all probed cells hold \<open>pattern\<close>.\<close>

definition filled :: "u32 \<Rightarrow> 'd sys \<Rightarrow> bool" where
  "filled p s \<longleftrightarrow> dev (cells s) (decode a) = p \<and> (\<forall>i<k. dev (cells s) (line i) = p)"

definition alone :: "nat \<Rightarrow> bool" where
  "alone t \<longleftrightarrow> line t \<noteq> decode a \<and> (\<forall>j<k. j \<noteq> t \<longrightarrow> line j \<noteq> line t)"

lemma check_low_bit_spec:
  assumes t: "t < k" and f: "filled p s" and q: "q \<noteq> p"
  shows "case check_low_bit h a (mask k) p q (2 ^ t) s of
     (None, s') \<Rightarrow> alone t \<and> cells s' = cells s
   | (Some x, s') \<Rightarrow> \<not> alone t \<and> x = a + 4 * 2 ^ t"
proof -
  define s1 where "s1 = writel h q (a + 4 * 2 ^ t) s"
  have c1: "cells s1 = (cells s)\<lparr>dev := (dev (cells s))(line t := q)\<rparr>"
    using probe [OF t] by (simp add: s1_def line_def)
  obtain v s2 where r: "readl h a s1 = (v, s2)" by fastforce
  then have v: "v = dev (cells s1) (decode a)" and c2: "cells s2 = cells s1"
    using fst_readl [OF probe_base, of s1] cells_readl [OF probe_base, of s1]
    by (simp_all add: sound_cell_def)
  have base: "v = p \<longleftrightarrow> line t \<noteq> decode a"
    using v c1 f q by (auto simp: filled_def simp del: cells_sel)
  obtain w s3 where sh: "check_shorted h a (mask k) p (2 ^ t) 1 s2 = (w, s3)" by fastforce
  have others: "dev (cells s2) (line j) = p \<longleftrightarrow> line j \<noteq> line t" if "j < k" for j
    using that c1 c2 f q by (auto simp: filled_def simp del: cells_sel)
  have w: "case w of None \<Rightarrow> cells s3 = cells s2 \<and> (\<forall>j<k. j \<noteq> t \<longrightarrow> line j \<noteq> line t)
      | Some x \<Rightarrow> x = a + 4 * 2 ^ t \<and> (\<exists>j<k. j \<noteq> t \<and> line j = line t)"
    using check_shorted_spec [of 0 t s2 p] t sh others by (fastforce split: option.splits)
  have run: "check_low_bit h a (mask k) p q (2 ^ t) s =
      (if v \<noteq> p then (Some (a + 4 * 2 ^ t), s2)
       else case w of Some x \<Rightarrow> (Some x, s3)
            | None \<Rightarrow> (None, writel h p (a + 4 * 2 ^ t) s3))"
    unfolding check_low_bit_def by (simp add: Let_def s1_def [symmetric] r sh split: option.splits)
  show ?thesis
  proof (cases "v = p \<and> w = None")
    case True
    then have "cells (writel h p (a + 4 * 2 ^ t) s3) = cells s"
      using w c1 c2 f t probe [OF t]
      by (auto simp: line_def [symmetric] filled_def fun_upd_idem simp del: cells_sel)
    then show ?thesis using True w run base by (simp add: alone_def)
  next
    case False
    then show ?thesis using w run base by (auto simp: alone_def split: option.splits)
  qed
qed

lemma filled_cells: "cells s' = cells s \<Longrightarrow> filled p s' = filled p s"
  by (simp add: filled_def del: cells_sel)

lemma check_low_spec:
  "t \<le> k \<Longrightarrow> filled p s \<Longrightarrow> q \<noteq> p \<Longrightarrow>
   case check_low h a (mask k) p q (2 ^ t) s of
     (None, s') \<Rightarrow> (\<forall>j. t \<le> j \<and> j < k \<longrightarrow> alone j) \<and> cells s' = cells s
   | (Some x, s') \<Rightarrow> \<exists>j<k. \<not> alone j \<and> x = a + 4 * 2 ^ j"
proof (induction t arbitrary: s rule: inc_induct)
  case base
  then show ?case using k_bound by (subst check_low.simps) (auto simp: pow_and_mask)
next
  case (step i)
  obtain w s1 where b: "check_low_bit h a (mask k) p q (2 ^ i) s = (w, s1)" by fastforce
  note spec = check_low_bit_spec [OF step(2) step.prems, unfolded b]
  have "check_low h a (mask k) p q (2 ^ i) s =
      (case w of Some x \<Rightarrow> (Some x, s1) | None \<Rightarrow> check_low h a (mask k) p q (2 ^ Suc i) s1)"
    using step(1,2) k_bound pow_nonzero [of i] b
    by (subst check_low.simps) (simp add: pow_and_mask mult.commute split: option.splits)
  then show ?case
    using step.IH [of s1] step.prems step(2) spec filled_cells [of s1 s p]
    by (cases w) (auto split: prod.splits option.splits dest: le_neq_implies_less Suc_leI)
qed

lemma addressbus_spec:
  assumes nz: "\<And>i. i < k \<Longrightarrow> a + 4 * 2 ^ i \<noteq> 0"
  shows "fst (addressbus h a (2 ^ (k + 2)) s) = 0 \<longleftrightarrow> distinct (decode a # map line [0..<k])"
    and "fst (addressbus h a (2 ^ (k + 2)) s) \<noteq> 0 \<Longrightarrow>
           \<exists>i<k. fst (addressbus h a (2 ^ (k + 2)) s) = a + 4 * 2 ^ i"
proof -
  define p q :: u32 where "p = 0xAAAAAAAA" and "q = 0x55555555"
  have qp: "q \<noteq> p" by (simp add: p_def q_def)
  have m: "(2 ^ (k + 2) :: u32) div 4 - 1 = mask k"
    using k_bound by (simp add: pow_div_4 power_add mask_eq_exp_minus_1)
  define s1 where "s1 = fill_offsets h a (mask k) p 1 s"
  define s2 where "s2 = writel h q a s1"
  have c1: "cells s1 = (cells s)\<lparr>dev := \<lambda>x. if \<exists>j<k. x = line j then p else dev (cells s) x\<rparr>"
    using fill_offsets_spec [of 0 p s] by (simp add: s1_def del: cells_sel)
  then have c2: "cells s2 = (cells s)\<lparr>dev := (\<lambda>x. if \<exists>j<k. x = line j then p
      else dev (cells s) x)(decode a := q)\<rparr>"
    using probe_base by (simp add: s2_def del: cells_sel)
  obtain w s3 where ch: "check_high h a (mask k) p 1 s2 = (w, s3)" by fastforce
  have slot: "dev (cells s2) (line j) = p \<longleftrightarrow> line j \<noteq> decode a" if "j < k" for j
    using c2 that qp by (auto simp del: cells_sel)
  have w: "case w of None \<Rightarrow> cells s3 = cells s2 \<and> (\<forall>j<k. line j \<noteq> decode a)
      | Some x \<Rightarrow> (\<exists>j<k. x = a + 4 * 2 ^ j \<and> line j = decode a)"
    using check_high_spec [of 0 s2 p] ch slot by (fastforce split: option.splits)
  define s4 where "s4 = writel h p a s3"
  obtain u s5 where cl: "check_low h a (mask k) p q 1 s4 = (u, s5)" by fastforce
  have u: "w = None \<Longrightarrow> (case u of None \<Rightarrow> \<forall>j<k. alone j
      | Some x \<Rightarrow> \<exists>j<k. \<not> alone j \<and> x = a + 4 * 2 ^ j)"
  proof -
    assume "w = None"
    then have "cells s4 = (cells s2)\<lparr>dev := (dev (cells s2))(decode a := p)\<rparr>"
      using w probe_base by (simp add: s4_def del: cells_sel)
    then have "filled p s4" using c2 by (auto simp: filled_def simp del: cells_sel)
    from check_low_spec [of 0, OF _ this qp] cl show ?thesis by (auto split: option.splits)
  qed
  have run: "fst (addressbus h a (2 ^ (k + 2)) s) =
      (case w of Some x \<Rightarrow> x | None \<Rightarrow> case u of Some x \<Rightarrow> x | None \<Rightarrow> 0)"
    unfolding addressbus_def m p_def [symmetric] q_def [symmetric]
    by (simp add: Let_def s1_def [symmetric] s2_def [symmetric] ch s4_def [symmetric] cl
        split: option.splits)
  have d: "distinct (decode a # map line [0..<k]) \<longleftrightarrow> (\<forall>j<k. alone j)"
  proof -
    have "distinct (decode a # map line [0..<k]) \<longleftrightarrow>
        (\<forall>j<k. line j \<noteq> decode a) \<and> (\<forall>i<k. \<forall>j<k. line i = line j \<longrightarrow> i = j)"
      by (simp add: distinct_map inj_on_def) (metis atLeastLessThan_iff imageE imageI zero_le)
    then show ?thesis unfolding alone_def by blast
  qed
  show "fst (addressbus h a (2 ^ (k + 2)) s) = 0 \<longleftrightarrow> distinct (decode a # map line [0..<k])"
    unfolding d run using w u nz by (auto simp: alone_def split: option.splits)
  show "fst (addressbus h a (2 ^ (k + 2)) s) \<noteq> 0 \<Longrightarrow>
      \<exists>i<k. fst (addressbus h a (2 ^ (k + 2)) s) = a + 4 * 2 ^ i"
    unfolding run using w u by (auto split: option.splits)
qed

end

subsection \<open>Memory device\<close>

text \<open>The counter's words as the code writes them.\<close>

definition counter :: "nat \<Rightarrow> u32" where
  "counter i = of_nat i + 1"

context buffer_dram begin

lemma memdevice_fill_pass:
  "case for_each (memdevice_fill h a) (count_by 1 (of_nat n)) s of
     (None, s') \<Rightarrow> (\<forall>i<n. True) \<and> (\<forall>j<n. dev (cells s') (cell j) = counter j)
   | (Some r, s') \<Rightarrow> \<exists>i<n. (\<forall>j<i. True) \<and> \<not> True \<and> False"
  unfolding for_each_count_by unat_n add_diff_cancel_right' div_by_1
proof (rule for_each_first)
  fix i s
  assume "i < n" "\<forall>j<i. dev (cells s) (cell j) = counter j"
  then show "case memdevice_fill h a (of_nat (i * 1)) s of
      (None, s') \<Rightarrow> True \<and> (\<forall>j<Suc i. dev (cells s') (cell j) = counter j)
    | (Some r, s') \<Rightarrow> \<not> True \<and> False"
    by (simp add: memdevice_fill_def Let_def case_prod_beta counter_def less_Suc_eq
        del: cells_sel)
qed simp

lemma memdevice_invert_pass:
  assumes "\<forall>j<n. dev (cells s) (cell j) = counter j"
  shows "case for_each (memdevice_invert h a) (count_by 1 (of_nat n)) s of
     (None, s') \<Rightarrow> (\<forall>j<n. holds j (counter j)) \<and>
       (\<forall>j<n. dev (cells s') (cell j) = (if j < n then NOT (counter j) else counter j))
   | (Some r, s') \<Rightarrow> \<exists>i<n. (\<forall>j<i. holds j (counter j)) \<and> \<not> holds i (counter i) \<and>
       r = a + 4 * of_nat i"
  unfolding for_each_count_by unat_n add_diff_cancel_right' div_by_1
proof (rule for_each_first [where I = "\<lambda>i s. \<forall>j<n. dev (cells s) (cell j) =
    (if j < i then NOT (counter j) else counter j)"])
  fix i s
  assume i: "i < n"
    and inv: "\<forall>j<n. dev (cells s) (cell j) = (if j < i then NOT (counter j) else counter j)"
  have "dev (cells s) (cell i) = counter i" using inv i by simp
  then show "case memdevice_invert h a (of_nat (i * 1)) s of
      (None, s') \<Rightarrow> holds i (counter i) \<and>
        (\<forall>j<n. dev (cells s') (cell j) = (if j < Suc i then NOT (counter j) else counter j))
    | (Some r, s') \<Rightarrow> \<not> holds i (counter i) \<and> r = a + 4 * of_nat i"
    using inv i
    by (simp add: memdevice_invert_def Let_def case_prod_beta counter_def [symmetric] holds_def
        less_Suc_eq del: cells_sel)
qed (use assms in simp)

lemma memdevice_check_pass:
  assumes "\<forall>j<n. dev (cells s) (cell j) = NOT (counter j)"
  shows "case for_each (memdevice_check h a) (count_by 1 (of_nat n)) s of
     (None, s') \<Rightarrow> (\<forall>j<n. holds j (NOT (counter j))) \<and> cells s' = cells s
   | (Some r, s') \<Rightarrow> \<exists>i<n. (\<forall>j<i. holds j (NOT (counter j))) \<and>
       \<not> holds i (NOT (counter i)) \<and> r = a + 4 * of_nat i"
  unfolding for_each_count_by unat_n add_diff_cancel_right' div_by_1
proof (rule for_each_first)
  fix i s'
  assume "i < n" "cells s' = cells s"
  then show "case memdevice_check h a (of_nat (i * 1)) s' of
      (None, s'') \<Rightarrow> holds i (NOT (counter i)) \<and> cells s'' = cells s
    | (Some r, s'') \<Rightarrow> \<not> holds i (NOT (counter i)) \<and> r = a + 4 * of_nat i"
    using assms
    by (simp add: memdevice_check_def Let_def case_prod_beta counter_def [symmetric] holds_def
        del: cells_sel)
qed simp

lemma memdevice_spec:
  shows "fst (memdevice h a (4 * of_nat n) s) = 0 \<longleftrightarrow>
           (\<forall>i<n. holds i (counter i) \<and> holds i (NOT (counter i)))"
    and "fst (memdevice h a (4 * of_nat n) s) \<noteq> 0 \<Longrightarrow>
           \<exists>i<n. fst (memdevice h a (4 * of_nat n) s) = a + 4 * of_nat i \<and>
             \<not> (holds i (counter i) \<and> holds i (NOT (counter i)))"
proof -
  have w: "(4 * of_nat n :: u32) div 4 = of_nat n"
  proof -
    have "unat (of_nat (4 * n) :: u32) = 4 * n"
      using n_bound by (simp add: unat_of_nat del: of_nat_mult)
    then have "unat ((4 * of_nat n :: u32) div 4) = unat (of_nat n :: u32)"
      by (simp add: unat_div)
    then show ?thesis by (simp only: word_unat_eq_iff)
  qed
  obtain r1 s1 where f: "for_each (memdevice_fill h a) (count_by 1 (of_nat n)) s = (r1, s1)"
    by fastforce
  obtain r2 s2 where i: "for_each (memdevice_invert h a) (count_by 1 (of_nat n)) s1 = (r2, s2)"
    by fastforce
  obtain r3 s3 where c: "for_each (memdevice_check h a) (count_by 1 (of_nat n)) s2 = (r3, s3)"
    by fastforce
  have r1: "r1 = None" "\<forall>j<n. dev (cells s1) (cell j) = counter j"
    using memdevice_fill_pass [of s] f by (auto split: option.splits)
  note r2 = memdevice_invert_pass [OF r1(2), unfolded i]
  have r3: "r2 = None \<Longrightarrow> case r3 of None \<Rightarrow> \<forall>j<n. holds j (NOT (counter j))
      | Some r \<Rightarrow> \<exists>j<n. \<not> holds j (NOT (counter j)) \<and> r = a + 4 * of_nat j"
    using memdevice_check_pass [of s2] r2 c by (auto split: option.splits)
  have run: "fst (memdevice h a (4 * of_nat n) s) =
      (case r2 of Some r \<Rightarrow> r | None \<Rightarrow> case r3 of Some r \<Rightarrow> r | None \<Rightarrow> 0)"
    unfolding memdevice_def w by (simp add: f r1 i c del: One_nat_def split: option.splits)
  show "fst (memdevice h a (4 * of_nat n) s) = 0 \<longleftrightarrow>
      (\<forall>i<n. holds i (counter i) \<and> holds i (NOT (counter i)))"
    unfolding run using r2 r3 no_null by (auto split: option.splits)
  show "fst (memdevice h a (4 * of_nat n) s) \<noteq> 0 \<Longrightarrow>
      \<exists>i<n. fst (memdevice h a (4 * of_nat n) s) = a + 4 * of_nat i \<and>
        \<not> (holds i (counter i) \<and> holds i (NOT (counter i)))"
    unfolding run using r2 r3 by (auto split: option.splits)
qed

subsection \<open>Simultaneous switching\<close>

definition sso_ok :: "nat \<Rightarrow> bool" where
  "sso_ok i \<longleftrightarrow> (\<forall>(b, j) \<in> {0..<32} \<times> {0..<6}. holds i (sso_data b j))"

lemma sso_word_spec:
  assumes "i < n"
  shows "case sso_word h (a + 4 * of_nat i) s of
     (None, s') \<Rightarrow> sso_ok i
   | (Some data, s') \<Rightarrow> \<not> sso_ok i \<and> \<not> holds i data"
proof -
  let ?x = "a + 4 * of_nat i"
  let ?xs = "[(b, j). b \<leftarrow> [0..<32], j \<leftarrow> [0..<6]]"
  have xs: "set ?xs = {0..<32} \<times> {0..<6}" by auto
  have "case sso_word h ?x s of
     (None, s') \<Rightarrow> (\<forall>p\<in>set ?xs. holds i (sso_data (fst p) (snd p))) \<and> True
   | (Some data, s') \<Rightarrow> \<exists>p\<in>set ?xs. \<not> holds i (sso_data (fst p) (snd p)) \<and>
       data = sso_data (fst p) (snd p)"
    unfolding sso_word_def
  proof (rule for_each_all)
    fix p s
    assume "p \<in> set ?xs"
    have "fst (check_addr h ?x d (writel h d ?x s)) = (\<not> holds i d)" for d
      using assms in_region by (simp add: holds_def cell_def)
    then show "case (case p of (i, j) \<Rightarrow> \<lambda>s. let data = sso_data i j;
           s = writel h data ?x s; (error, s) = check_addr h ?x data s
         in (if error then Some data else None, s)) s of
        (None, s') \<Rightarrow> holds i (sso_data (fst p) (snd p)) \<and> True
      | (Some r, s') \<Rightarrow> \<not> holds i (sso_data (fst p) (snd p)) \<and> r = sso_data (fst p) (snd p)"
      by (simp add: Let_def case_prod_beta)
  qed simp
  then show ?thesis unfolding sso_ok_def xs
    by (auto split: prod.splits option.splits)
qed

lemma sso_spec:
  "\<exists>r. loop (sso_round h) (a, 4 * of_nat n, s) = Some r \<and>
     (case r of
        (None, s') \<Rightarrow> \<forall>i<n. sso_ok i
      | (Some (data, x), s') \<Rightarrow> \<exists>i<n. x = a + 4 * of_nat i \<and> \<not> sso_ok i \<and> \<not> holds i data)"
proof -
  define J :: "u32 \<times> u32 \<times> 'd sys \<Rightarrow> bool" where
    "J = (\<lambda>(offset, remaining, s). \<exists>i\<le>n. offset = a + 4 * of_nat i \<and>
        remaining = of_nat (4 * (n - i)) \<and> (\<forall>j<i. sso_ok j))"
  define m :: "u32 \<times> u32 \<times> 'd sys \<Rightarrow> nat" where "m = (\<lambda>(offset, remaining, s). unat remaining)"
  define Q :: "(u32 \<times> u32) option \<times> 'd sys \<Rightarrow> bool" where
    "Q = (\<lambda>r. case r of
        (None, s') \<Rightarrow> \<forall>i<n. sso_ok i
      | (Some (data, x), s') \<Rightarrow> \<exists>i<n. x = a + 4 * of_nat i \<and> \<not> sso_ok i \<and> \<not> holds i data)"
  have start: "J (a, 4 * of_nat n, s)" by (auto simp: J_def intro: exI [of _ 0])
  have "(\<exists>r. sso_round h st = Some (Inl r) \<and> Q r) \<or>
      (\<exists>st'. sso_round h st = Some (Inr st') \<and> J st' \<and> m st' < m st)" if "J st" for st
  proof -
  from that obtain i s where st: "st = (a + 4 * of_nat i, of_nat (4 * (n - i)), s)"
    and i: "i \<le> n" "\<forall>j<i. sso_ok j"
    by (cases st) (auto simp: J_def)
  have rem: "unat (of_nat (4 * (n - l)) :: u32) = 4 * (n - l)" for l
    using n_bound by (simp add: unat_of_nat del: of_nat_mult)
  show ?thesis
  proof (cases "i = n")
    case True
    then show ?thesis using i st by (auto simp: sso_round_def Q_def)
  next
    case False
    then have lt: "i < n" using i by simp
    have nz: "(of_nat (4 * (n - i)) :: u32) \<noteq> 0"
      using rem [of i] lt by (metis unat_0 mult_is_0 numeral_neq_zero zero_less_diff less_irrefl)
    have dec: "of_nat (4 * (n - i)) - 4 = (of_nat (4 * (n - Suc i)) :: u32)"
    proof -
      have "4 * (n - i) = 4 * (n - Suc i) + 4" using lt by simp
      then show ?thesis by (metis add_diff_cancel_right' of_nat_add of_nat_numeral)
    qed
    have inc: "a + 4 * of_nat i + 4 = a + 4 * of_nat (Suc i)" by (simp add: algebra_simps)
    obtain w s1 where w: "sso_word h (a + 4 * of_nat i) s = (w, s1)" by fastforce
    show ?thesis
    proof (cases w)
      case None
      then have "sso_ok i" using sso_word_spec [OF lt, of s] w by simp
      then have "\<forall>j<Suc i. sso_ok j" using i by (simp add: less_Suc_eq)
      moreover obtain s2 where "progress h (push_bit 7 (a + 4 * of_nat (Suc i))) s1 = (False, s2)"
        using progress_none(1) [of "push_bit 7 (a + 4 * of_nat (Suc i))" s1]
        by (metis prod.collapse)
      ultimately have "sso_round h st =
          Some (Inr (a + 4 * of_nat (Suc i), of_nat (4 * (n - Suc i)), s2))"
        using None w st nz by (simp add: sso_round_def dec inc Let_def del: of_nat_mult of_nat_Suc)
      then show ?thesis using st rem [of i] rem [of "Suc i"] lt \<open>\<forall>j<Suc i. sso_ok j\<close>
        by (auto simp: J_def m_def simp del: of_nat_mult of_nat_Suc intro!: exI [of _ "Suc i"])
    next
      case (Some data)
      then show ?thesis using sso_word_spec [OF lt, of s] w st nz lt
        by (auto simp: sso_round_def Q_def simp del: of_nat_mult)
    qed
  qed
  qed
  from loop_total [of J, OF start this] show ?thesis by (simp add: Q_def)
qed

subsection \<open>Walking patterns\<close>

definition walk_fails :: "(nat \<Rightarrow> u32) \<Rightarrow> u32 \<Rightarrow> bool" where
  "walk_fails pat e \<longleftrightarrow> (\<forall>b. bit e b \<longleftrightarrow> b < 32 \<and> \<not> holds b (pat b))"

lemma databuswalk_write_spec:
  "32 \<le> n \<Longrightarrow> j < 32 \<Longrightarrow> dev (cells (databuswalk_write h pat a s)) (cell j) = pat j"
proof -
  assume n: "32 \<le> n" and j: "j < 32"
  have "\<forall>j<32. dev (cells (databuswalk_write h pat a s)) (cell j) = pat j"
    unfolding databuswalk_write_def
  proof (rule fold_upt_inv)
    fix i s
    assume "i < 32" "\<forall>j<i. dev (cells s) (cell j) = pat j"
    then show "\<forall>j<Suc i. dev (cells (writel h (pat i) (a + 4 * of_nat i) s)) (cell j) = pat j"
      using n by (simp add: less_Suc_eq del: cells_sel)
  qed simp
  then show ?thesis using j by simp
qed

lemma databuswalk_check_spec:
  assumes n: "32 \<le> n" and w: "\<forall>j<32. dev (cells s) (cell j) = pat j"
  shows "walk_fails pat (fst (databuswalk_check h pat a (0, s)))"
proof -
  have "(\<lambda>(e :: u32, s'). cells s' = cells s \<and>
      (\<forall>b. bit e b \<longleftrightarrow> b < 32 \<and> \<not> holds b (pat b))) (databuswalk_check h pat a (0, s))"
    unfolding databuswalk_check_def
  proof (rule fold_upt_inv [where I = "\<lambda>i (e :: u32, s'). cells s' = cells s \<and>
      (\<forall>b. bit e b \<longleftrightarrow> b < i \<and> \<not> holds b (pat b))"])
    fix i and es :: "u32 \<times> 'd sys"
    assume i: "i < 32"
      and inv: "case es of (e, s') \<Rightarrow> cells s' = cells s \<and>
        (\<forall>b. bit e b \<longleftrightarrow> b < i \<and> \<not> holds b (pat b))"
    obtain e s' where es: "es = (e, s')" by fastforce
    obtain v s1 where r: "readl h (a + 4 * of_nat i) s' = (v, s1)" by fastforce
    then have v: "v = pat i \<longleftrightarrow> holds i (pat i)" and s1: "cells s1 = cells s"
      using read_cell [of i s'] i n w inv es by (auto simp: holds_def simp del: cells_sel)
    have bits: "bit (e OR push_bit i 1) b \<longleftrightarrow> bit e b \<or> b = i" for b
      using i by (auto simp: bit_simps)
    show "case (case es of (error, s) \<Rightarrow> let (data, s) = readl h (a + 4 * of_nat i) s
        in (if pat i \<noteq> data then error OR push_bit i 1 else error, s)) of
      (e, s') \<Rightarrow> cells s' = cells s \<and>
        (\<forall>b. bit e b \<longleftrightarrow> b < Suc i \<and> \<not> holds b (pat b))"
    proof (cases "holds i (pat i)")
      case True
      then show ?thesis using es r v s1 inv by (auto simp: less_Suc_eq)
    next
      case False
      then show ?thesis using es r v s1 inv bits by (auto simp: less_Suc_eq)
    qed
  qed simp
  then show ?thesis unfolding walk_fails_def by (simp add: case_prod_beta)
qed

lemma walk_fails_0: "walk_fails pat e \<Longrightarrow> e = 0 \<longleftrightarrow> (\<forall>i<32. holds i (pat i))"
proof -
  assume w: "walk_fails pat e"
  have "e = 0 \<longleftrightarrow> (\<forall>b. \<not> bit e b)"
    using bit_imp_le_length [of e] by (auto simp: bit_eq_iff)
  then show ?thesis using w by (auto simp: walk_fails_def)
qed

text \<open>With a positive number of rounds the loop ends: after all of them when every pattern
  reads back, and after the first one with the mask of the bad words otherwise.\<close>

lemma databuswalk_spec:
  assumes n: "32 \<le> n" and nb: "nb_loop \<noteq> 0"
  shows "\<exists>error cnt s'. loop (databuswalk_round h pat a nb_loop) (0, 0, s) = Some (error, cnt, s') \<and>
     walk_fails pat error \<and> cnt = (if error = 0 then nb_loop else 1)"
proof -
  define J :: "u32 \<times> u32 \<times> 'd sys \<Rightarrow> bool" where "J = (\<lambda>(error, cnt, s).
     error = 0 \<and> cnt < nb_loop \<and> (cnt = 0 \<or> walk_fails pat 0) \<or>
     error \<noteq> 0 \<and> cnt = 1 \<and> walk_fails pat error)"
  define m :: "u32 \<times> u32 \<times> 'd sys \<Rightarrow> nat" where "m = (\<lambda>(error, cnt, s).
     if error = 0 then Suc (unat nb_loop - unat cnt) else 0)"
  define Q :: "u32 \<times> u32 \<times> 'd sys \<Rightarrow> bool" where "Q = (\<lambda>(error, cnt, s').
     walk_fails pat error \<and> cnt = (if error = 0 then nb_loop else 1))"
  have start: "J (0, 0, s)" using nb by (simp add: J_def word_neq_0_conv)
  have "(\<exists>r. databuswalk_round h pat a nb_loop st = Some (Inl r) \<and> Q r) \<or>
      (\<exists>st'. databuswalk_round h pat a nb_loop st = Some (Inr st') \<and> J st' \<and> m st' < m st)"
    if J: "J st" for st
  proof -
    obtain error cnt s where st: "st = (error, cnt, s)" by (cases st)
    show ?thesis
    proof (cases "error = 0")
      case False
      then show ?thesis using J st by (auto simp: databuswalk_round_def J_def Q_def)
    next
      case True
      then have cnt: "cnt < nb_loop" and first: "cnt = 0 \<or> walk_fails pat 0"
        using J st by (auto simp: J_def)
      let ?s1 = "databuswalk_write h pat a s"
      obtain e s2 where c: "databuswalk_check h pat a (0, ?s1) = (e, s2)" by fastforce
      have e: "walk_fails pat e"
        using databuswalk_check_spec [OF n, of ?s1 pat] databuswalk_write_spec [OF n] c by simp
      obtain fin cnt' s3 where t: "test_loop_end h cnt nb_loop 1000 s2 = (fin, cnt', s3)"
        by (cases "test_loop_end h cnt nb_loop 1000 s2")
      then have fin: "fin \<longleftrightarrow> nb_loop \<le> cnt + 1" and cnt': "cnt' = cnt + 1"
        using test_loop_end_simps(1,2) [of cnt nb_loop 1000 s2] nb by simp_all
      have step: "databuswalk_round h pat a nb_loop st =
          Some (if fin then Inl (e, cnt + 1, s3)
                else Inr (e, cnt + 1, databuswalk_write h (\<lambda>_. 0) a s3))"
        using True st c t cnt' by (simp add: databuswalk_round_def Let_def)
      have first': "e = 0 \<or> cnt = 0"
        using first e walk_fails_0 [of pat 0] walk_fails_0 [of pat e] by auto
      have "cnt + 1 \<le> nb_loop" using cnt by (rule inc_le)
      then have last: "fin \<Longrightarrow> cnt + 1 = nb_loop" using fin by simp
      have succ: "\<not> fin \<Longrightarrow> unat (cnt + 1) = Suc (unat cnt)" "\<not> fin \<Longrightarrow> cnt + 1 < nb_loop"
        using unat_inc [OF cnt] fin by auto
      show ?thesis
        using step True st e first' last succ cnt
        by (auto simp: Q_def J_def m_def word_less_nat_alt)
    qed
  qed
  from loop_total [of J, OF start this] show ?thesis by (auto simp: Q_def)
qed

end

subsection \<open>The verdicts\<close>

text \<open>The data bus test reports exactly the first (lowest) bit whose walking one does not
  read back from the cell, and 0 when there is none.\<close>

theorem databus_verdict:
  assumes "dram h mem view decode region" and "a \<in> region"
  shows "fst (databus h a s) =
    (if \<forall>i<32. view (decode a) (push_bit i 1) = push_bit i 1 then 0
     else push_bit (LEAST i. i < 32 \<and> view (decode a) (push_bit i 1) \<noteq> push_bit i 1) 1)"
proof -
  let ?bad = "\<lambda>i. i < 32 \<and> view (decode a) (2 ^ i) \<noteq> 2 ^ i"
  consider "fst (databus h a s) = 0" "\<forall>i<32. view (decode a) (2 ^ i) = 2 ^ i"
    | i where "?bad i" "fst (databus h a s) = 2 ^ i" "\<forall>j<i. view (decode a) (2 ^ j) = 2 ^ j"
    using dram.databus_spec [OF assms, of s] by blast
  then show ?thesis
  proof cases
    case 1
    then show ?thesis by simp
  next
    case (2 i)
    then have "(LEAST i. ?bad i) = i" by (intro Least_equality) (auto simp: not_less [symmetric])
    then show ?thesis using 2 by auto
  qed
qed

theorem databus_verdict_witness:
  "fst (databus (cell_ram (stuck_bit 0xC0000000 5 False) (\<lambda>x. x)) 0xC0000000
     (boot_state (\<lambda>_. 0))) = 32"
proof -
  let ?view = "stuck_bit 0xC0000000 5 False 0xC0000000"
  have bad: "?view (push_bit 5 1) \<noteq> push_bit 5 1" by code_simp
  have "list_all (\<lambda>i. ?view (push_bit i 1) = push_bit i 1) [0..<5]" by code_simp
  then have good: "\<And>i. i < 5 \<Longrightarrow> ?view (push_bit i 1) = push_bit i 1"
    by (simp add: list_all_iff)
  have l: "(LEAST i. i < 32 \<and> ?view (push_bit i 1) \<noteq> push_bit i 1) = 5"
    using bad good by (intro Least_equality) (auto simp: not_less [symmetric] simp del: push_bit_of_1)
  have n: "\<not> (\<forall>i<32. ?view (push_bit i 1) = push_bit i 1)"
    using bad by (auto intro!: exI [of _ 5] simp del: push_bit_of_1)
  show ?thesis
    unfolding databus_verdict [OF cell_ram.dram_axioms UNIV_I] l using n by simp
qed

text \<open>C26. On sound cells behind any address decoder the address bus test of \<open>2 ^ (k + 2)\<close>
  bytes returns NULL exactly when no two of the base and the power-of-two offsets share a
  cell; otherwise it returns one of the probed addresses.\<close>

theorem addressbus_finds_aliases:
  assumes "bus_dram h mem decode region a k"
    and "\<And>i. i < k \<Longrightarrow> a + 4 * 2 ^ i \<noteq> 0"
  shows "(fst (addressbus h a (2 ^ (k + 2)) s) = 0 \<longleftrightarrow>
            distinct (decode a # map (\<lambda>i. decode (a + 4 * 2 ^ i)) [0..<k])) \<and>
         (fst (addressbus h a (2 ^ (k + 2)) s) = 0 \<or>
            (\<exists>i<k. fst (addressbus h a (2 ^ (k + 2)) s) = a + 4 * 2 ^ i))"
proof -
  have l: "bus_dram.line decode a = (\<lambda>i. decode (a + 4 * 2 ^ i))"
    by (rule ext) (simp add: bus_dram.line_def [OF assms(1)])
  show ?thesis using bus_dram.addressbus_spec [OF assms, of s] unfolding l by blast
qed

interpretation aliased_ram: bus_dram "cell_ram sound_cell decode" "\<lambda>m. m" decode UNIV
    a "min k 28"
  for decode a k
  by unfold_locales simp_all

text \<open>A board whose address line 2 is stuck at 0, and a sound one.\<close>

theorem addressbus_finds_aliases_witness:
  "fst (addressbus (cell_ram sound_cell (\<lambda>x. x AND NOT 16)) 0xC0000000 4096
     (boot_state (\<lambda>_. 0))) \<noteq> 0 \<and>
   fst (addressbus (cell_ram sound_cell (\<lambda>x. x)) 0xC0000000 4096 (boot_state (\<lambda>_. 0))) = 0"
proof -
  have "list_all (\<lambda>i. 0xC0000000 + 4 * 2 ^ i \<noteq> (0 :: u32)) [0..<min 10 28]" by code_simp
  then have nz: "\<And>i. i < min 10 28 \<Longrightarrow> 0xC0000000 + 4 * 2 ^ i \<noteq> (0 :: u32)"
    by (simp add: list_all_iff)
  have "\<not> distinct ((0xC0000000 AND NOT 16 :: u32) #
      map (\<lambda>i. (0xC0000000 + 4 * 2 ^ i) AND NOT 16) [0..<min 10 28])"
    and "distinct ((0xC0000000 :: u32) # map (\<lambda>i. 0xC0000000 + 4 * 2 ^ i) [0..<min 10 28])"
    by code_simp+
  then show ?thesis
    using addressbus_finds_aliases [OF aliased_ram.bus_dram_axioms
        [of "\<lambda>x. x AND NOT 16" "0xC0000000" 10] nz, of "boot_state (\<lambda>_. 0)"]
      addressbus_finds_aliases [OF aliased_ram.bus_dram_axioms
        [of "\<lambda>x. x" "0xC0000000" 10] nz, of "boot_state (\<lambda>_. 0)"]
    by simp
qed

text \<open>C25. The device test of \<open>n\<close> words passes exactly when every word of the buffer reads
  back both its counter value and the complement of it; otherwise it returns the address of
  a word that does not.\<close>

theorem memdevice_verdict:
  assumes "buffer_dram h mem view decode region a n"
  defines "keeps \<equiv> \<lambda>i v. view (decode (a + 4 * of_nat i)) v = v"
  shows "(fst (memdevice h a (4 * of_nat n) s) = 0 \<longleftrightarrow>
            (\<forall>i<n. keeps i (of_nat i + 1) \<and> keeps i (NOT (of_nat i + 1)))) \<and>
         (fst (memdevice h a (4 * of_nat n) s) = 0 \<or>
            (\<exists>i<n. fst (memdevice h a (4 * of_nat n) s) = a + 4 * of_nat i \<and>
               \<not> (keeps i (of_nat i + 1) \<and> keeps i (NOT (of_nat i + 1)))))"
proof -
  have l: "buffer_dram.holds view decode a = keeps"
    by (intro ext) (simp add: buffer_dram.holds_def [OF assms(1)]
        buffer_dram.cell_def [OF assms(1)] keeps_def)
  show ?thesis
    using buffer_dram.memdevice_spec [OF assms(1), of s] unfolding l counter_def by blast
qed

text \<open>"In the process every storage bit in the device is tested as a zero and a one": a bit
  of any word of the buffer that always reads 0, or always 1, is found.\<close>

theorem memdevice_finds_stuck_bit:
  assumes "i < n" "n \<le> 2 ^ 28" "b < 32"
  shows "fst (memdevice (cell_ram (stuck_bit (0xC0000000 + 4 * of_nat i) b v) (\<lambda>x. x)) 0xC0000000
           (4 * of_nat n) s) \<noteq> 0"
proof -
  let ?view = "stuck_bit (0xC0000000 + 4 * of_nat i) b v"
  have b: "buffer_dram (cell_ram ?view (\<lambda>x. x)) (\<lambda>m. m) ?view (\<lambda>x. x) UNIV 0xC0000000 n"
    using flat_ram.buffer_dram_axioms [of ?view n] assms by (simp add: min_absorb1)
  have "\<not> (?view (0xC0000000 + 4 * of_nat i) w = w \<and>
      ?view (0xC0000000 + 4 * of_nat i) (NOT w) = NOT w)" for w
    using assms(3) by (auto simp: stuck_bit_def bit_eq_iff bit_simps split: if_splits)
  then have "\<not> (buffer_dram.holds ?view (\<lambda>x. x) 0xC0000000 i (counter i) \<and>
      buffer_dram.holds ?view (\<lambda>x. x) 0xC0000000 i (NOT (counter i)))"
    by (simp add: buffer_dram.holds_def [OF b] buffer_dram.cell_def [OF b])
  then show ?thesis
    using buffer_dram.memdevice_spec(1) [OF b] assms(1) by blast
qed

theorem memdevice_finds_stuck_bit_witness:
  "fst (memdevice (cell_ram (stuck_bit 0xC000000C 31 True) (\<lambda>x. x)) 0xC0000000 64
     (boot_state (\<lambda>_. 0))) \<noteq> 0"
  using memdevice_finds_stuck_bit [of 3 16 31 True "boot_state (\<lambda>_. 0)"] by simp

theorem memdevice_verdict_witness:
  "fst (memdevice (cell_ram sound_cell (\<lambda>x. x)) 0xC0000000 64 (boot_state (\<lambda>_. 0))) = 0"
  using memdevice_verdict [OF flat_ram.buffer_dram_axioms [of sound_cell 16],
      of "boot_state (\<lambda>_. 0)"]
  by (simp add: sound_cell_def)

text \<open>The simultaneous switching test of a buffer ends, and passes exactly when each of its
  words reads back, for each bit, the bit alone, its complement, all ones and all zeroes.
  Otherwise the message names a word and a pattern that it does not keep.\<close>

theorem sso_verdict:
  assumes "buffer_dram h mem view decode region a n"
  defines "keeps \<equiv> \<lambda>i v. view (decode (a + 4 * of_nat i)) v = v"
  shows "\<exists>r s'. loop (sso_round h) (a, 4 * of_nat n, s) = Some (r, s') \<and>
     (r = None \<longleftrightarrow> (\<forall>i<n. \<forall>b<32. keeps i 0 \<and> keeps i (NOT 0) \<and>
        keeps i (push_bit b 1) \<and> keeps i (NOT (push_bit b 1)))) \<and>
     (\<forall>data x. r = Some (data, x) \<longrightarrow> (\<exists>i<n. x = a + 4 * of_nat i \<and> \<not> keeps i data))"
proof -
  have l: "buffer_dram.holds view decode a = keeps"
    by (intro ext) (simp add: buffer_dram.holds_def [OF assms(1)]
        buffer_dram.cell_def [OF assms(1)] keeps_def)
  have six: "{0..<6 :: nat} = {0, 1, 2, 3, 4, 5}" by auto
  have ok: "buffer_dram.sso_ok view decode a i \<longleftrightarrow> (\<forall>b<32. keeps i 0 \<and> keeps i (NOT 0) \<and>
      keeps i (push_bit b 1) \<and> keeps i (NOT (push_bit b 1)))" for i
  proof -
    have "(\<forall>j\<in>{0..<6}. keeps i (sso_data b j)) \<longleftrightarrow> keeps i 0 \<and> keeps i (NOT 0) \<and>
        keeps i (push_bit b 1) \<and> keeps i (NOT (push_bit b 1))" for b
      unfolding six by (auto simp: sso_data_def)
    then show ?thesis by (auto simp: buffer_dram.sso_ok_def [OF assms(1)] l)
  qed
  obtain p where run: "loop (sso_round h) (a, 4 * of_nat n, s) = Some p"
    and p: "case p of (None, s') \<Rightarrow> \<forall>i<n. buffer_dram.sso_ok view decode a i
      | (Some (data, x), s') \<Rightarrow> \<exists>i<n. x = a + 4 * of_nat i \<and>
          \<not> buffer_dram.sso_ok view decode a i \<and> \<not> keeps i data"
    using buffer_dram.sso_spec [OF assms(1), of s] unfolding l by blast
  obtain r s' where rs: "p = (r, s')" by (rule prod.exhaust)
  have "(r = None \<longleftrightarrow> (\<forall>i<n. buffer_dram.sso_ok view decode a i)) \<and>
     (\<forall>data x. r = Some (data, x) \<longrightarrow> (\<exists>i<n. x = a + 4 * of_nat i \<and> \<not> keeps i data))"
    using p unfolding rs by (cases r) auto
  then show ?thesis unfolding ok using run rs by blast
qed

theorem sso_verdict_witness:
  "\<exists>s'. loop (sso_round (cell_ram sound_cell (\<lambda>x. x))) (0xC0000000, 64, boot_state (\<lambda>_. 0)) =
     Some (None, s')"
  using sso_verdict [OF flat_ram.buffer_dram_axioms [of sound_cell 16],
      of "boot_state (\<lambda>_. 0)"]
  by (auto simp: sound_cell_def)

text \<open>The two walking tests over 32 words, run with a positive number of rounds: they end;
  bit \<open>b\<close> of the reported mask is set exactly when word \<open>b\<close> does not keep its pattern
  (\<open>~(1 << b)\<close>, resp. \<open>1 << b\<close>); they pass, after all the rounds, exactly when the mask is
  0, and fail in the first round otherwise.\<close>

theorem databuswalk_verdict:
  assumes "buffer_dram h mem view decode region a n" and "32 \<le> n" and "nb_loop \<noteq> 0"
    and "get_nb_loop argv 0 100 s = (Some nb_loop, s)" and "get_addr argv 1 s = (Some a, s)"
  shows "\<forall>(walk, pat) \<in> {(databuswalk0 h, \<lambda>b. NOT (push_bit b 1)), (databuswalk1 h, \<lambda>b. push_bit b 1)}.
     \<exists>error s'.
       walk argv s = Some (if error = 0 then TEST_PASSED else TEST_FAILED, s') \<and>
       (\<forall>b. bit error b \<longleftrightarrow> b < 32 \<and> view (decode (a + 4 * of_nat b)) (pat b) \<noteq> pat b) \<and>
       result_msg s' = Some (if error = 0 then Sprintf ''no error for %d loops'' [AU32 nb_loop]
         else Sprintf ''loop %d: error for bits 0x%x'' [AU32 1, AU32 error])"
proof -
  have l: "buffer_dram.holds view decode a b v \<longleftrightarrow> view (decode (a + 4 * of_nat b)) v = v" for b v
    by (simp add: buffer_dram.holds_def [OF assms(1)] buffer_dram.cell_def [OF assms(1)])
  have "\<exists>error s'. loop (databuswalk_round h pat a nb_loop) (0, 0, s) \<bind> databuswalk_report =
         Some (if error = 0 then TEST_PASSED else TEST_FAILED, s') \<and>
       (\<forall>b. bit error b \<longleftrightarrow> b < 32 \<and> view (decode (a + 4 * of_nat b)) (pat b) \<noteq> pat b) \<and>
       result_msg s' = Some (if error = 0 then Sprintf ''no error for %d loops'' [AU32 nb_loop]
         else Sprintf ''loop %d: error for bits 0x%x'' [AU32 1, AU32 error])" for pat
  proof -
    obtain error cnt s' where
      "loop (databuswalk_round h pat a nb_loop) (0, 0, s) = Some (error, cnt, s')"
      "buffer_dram.walk_fails view decode a pat error" "cnt = (if error = 0 then nb_loop else 1)"
      using buffer_dram.databuswalk_spec [OF assms(1-3), of pat s] by blast
    moreover define msg where
      "msg = (if error = 0 then Sprintf ''no error for %d loops'' [AU32 nb_loop]
         else Sprintf ''loop %d: error for bits 0x%x'' [AU32 1, AU32 error])"
    moreover have "databuswalk_report (error, cnt, s') =
        Some (if error = 0 then TEST_PASSED else TEST_FAILED, s'\<lparr>result_msg := Some msg\<rparr>)"
      using \<open>cnt = (if error = 0 then nb_loop else 1)\<close>
      by (simp add: databuswalk_report_def msg_def sprintf_def)
    ultimately show ?thesis
      unfolding buffer_dram.walk_fails_def [OF assms(1)] l
      by (intro exI [of _ error] exI [of _ "s'\<lparr>result_msg := Some msg\<rparr>"]) simp
  qed
  moreover have "databuswalk0 h argv s =
      loop (databuswalk_round h (\<lambda>b. NOT (push_bit b 1)) a nb_loop) (0, 0, s) \<bind> databuswalk_report"
    and "databuswalk1 h argv s =
      loop (databuswalk_round h (\<lambda>b. push_bit b 1) a nb_loop) (0, 0, s) \<bind> databuswalk_report"
    by (simp_all only: databuswalk0_def databuswalk1_def assms(4,5) prod.case option.case)
  ultimately show ?thesis by (simp only: ball_simps insert_iff empty_iff prod.case)
qed

theorem databuswalk_verdict_witness:
  "\<exists>s'. databuswalk0 (cell_ram sound_cell (\<lambda>x. x)) [''2''] (boot_state (\<lambda>_. 0)) =
     Some (TEST_PASSED, s')"
proof -
  have "strict_strtoul ''2'' 0 = Some 2" by code_simp
  then have "get_nb_loop [''2''] 0 100 (boot_state (\<lambda>_. 0)) = (Some 2, boot_state (\<lambda>_. 0))"
    and "get_addr [''2''] 1 (boot_state (\<lambda>_. 0)) = (Some 0xC0000000, boot_state (\<lambda>_. 0))"
    by (simp_all add: get_nb_loop_def get_addr_def reg_defs)
  from databuswalk_verdict [OF flat_ram.buffer_dram_axioms [of sound_cell 32] _ _ this]
  obtain error s' where r: "databuswalk0 (cell_ram sound_cell (\<lambda>x. x)) [''2''] (boot_state (\<lambda>_. 0)) =
       Some (if error = 0 then TEST_PASSED else TEST_FAILED, s')" and e: "\<forall>b. \<not> bit (error :: u32) b"
    by (auto simp: sound_cell_def)
  from e have "error = 0" by (auto simp: bit_eq_iff)
  with r show ?thesis by simp
qed

end
