(* ===== verification/DdrPatternTests.thy ===== *)
theory DdrPatternTests
  imports DdrTestArgs
begin

text \<open>
  The pattern tests of the DDR (ddr/stm32mp1_tests.c, second part): noise, noise burst,
  random, the frequency patterns with their assembly loop, the five tests built on
  \<open>test_loop_size\<close>, and the two endless access tests. The assembly is translated
  instruction by instruction; registers saved by \<open>push\<close>/\<open>pop\<close> are local values.

  \<open>None\<close> is a test that does not return: an endless one, or one that was asked to loop for
  ever, or \<open>test_loop\<close> on a buffer above 16 MB that is not a multiple of it.
\<close>

subsection \<open>Noise\<close>

text \<open>\<open>stmia a!, {regs}\<close>.\<close>

fun stmia :: "'d platform \<Rightarrow> u32 list \<Rightarrow> u32 \<times> 'd sys \<Rightarrow> u32 \<times> 'd sys" where
  "stmia h [] (a, s) = (a, s)"
| "stmia h (r # regs) (a, s) = stmia h regs (a + 4, writel h r a s)"

definition str_ldr :: "'d platform \<Rightarrow> u32 \<Rightarrow> u32 \<Rightarrow> 'd sys \<Rightarrow> u32 \<times> 'd sys" where
  "str_ldr h v a s = readl h a (writel h v a s)"

definition do_noise :: "'d platform \<Rightarrow> u32 \<Rightarrow> u32 \<Rightarrow> u32 \<Rightarrow> 'd sys \<Rightarrow> 'd sys" where
  "do_noise h addr pattern result s =
     (let r1 = pattern; r2 = NOT r1;
          (r3, s) = str_ldr h r1 addr s; (r4, s) = str_ldr h r2 addr s;
          (r5, s) = str_ldr h r1 addr s; (r6, s) = str_ldr h r2 addr s;
          (r7, s) = str_ldr h r1 addr s; (r8, s) = str_ldr h r2 addr s;
          (r9, s) = str_ldr h r1 addr s; (r10, s) = str_ldr h r2 addr s
      in snd (stmia h [r3, r4, r5, r6, r7, r8, r9, r10] (result, s)))"

definition noise_check ::
  "'d platform \<Rightarrow> u32 \<Rightarrow> u32 \<Rightarrow> nat \<Rightarrow> test_result \<times> 'd sys \<Rightarrow> test_result \<times> 'd sys" where
  "noise_check h result pattern i = (\<lambda>(res, s).
     let (e, s) = check_addr h (result + 4 * of_nat i) pattern s;
         res = (if e then TEST_FAILED else res);
         (e, s) = check_addr h (result + 4 * of_nat (i + 1)) (NOT pattern) s
     in (if e then TEST_FAILED else res, s))"

text \<open>\<open>result\<close> is the address of the local array \<open>u32 result[8]\<close>.\<close>

definition test_noise ::
  "u32 \<Rightarrow> 'd platform \<Rightarrow> string list \<Rightarrow> 'd sys \<Rightarrow> (test_result \<times> 'd sys) option" where
  "test_noise result h argv s =
     (case get_pattern argv 0 0xFFFFFFFF s of
        (None, s) \<Rightarrow> Some (TEST_ERROR, s)
      | (Some pattern, s) \<Rightarrow>
          case get_addr argv 1 s of
            (None, s) \<Rightarrow> Some (TEST_ERROR, s)
          | (Some addr, s) \<Rightarrow>
              let s = do_noise h addr pattern result s
              in Some (fold (noise_check h result pattern) [0, 2, 4, 6] (TEST_PASSED, s)))"

subsection \<open>Bursts\<close>

text \<open>Four \<open>stmia a!, {regs}\<close>, then \<open>subs r, r, #128\<close> and \<open>bge\<close>: the loop goes on
  exactly when the value of \<open>r\<close> before the subtraction is, signed, at least 128.\<close>

definition stmia4 :: "'d platform \<Rightarrow> u32 list \<Rightarrow> u32 \<times> 'd sys \<Rightarrow> u32 \<times> 'd sys" where
  "stmia4 h regs p = stmia h regs (stmia h regs (stmia h regs (stmia h regs p)))"

lemma burst_decreases: "128 \<le>s (r :: u32) \<Longrightarrow> unat (r - 128) < unat r"
  using sle_imp_le [of 128 r] by (simp add: unat_sub word_le_nat_alt)

function burst_loop :: "'d platform \<Rightarrow> u32 list \<Rightarrow> u32 \<Rightarrow> u32 \<times> 'd sys \<Rightarrow> u32 \<times> 'd sys" where
  "burst_loop h regs r p =
     (let p = stmia4 h regs p
      in if 128 \<le>s r then burst_loop h regs (r - 128) p else p)"
  by pat_completeness auto
termination
  by (relation "measure (\<lambda>(h, regs, r, p). unat r)") (use burst_decreases in auto)

declare burst_loop.simps [simp del]

definition do_noise_burst :: "'d platform \<Rightarrow> u32 \<Rightarrow> u32 \<Rightarrow> u32 \<Rightarrow> 'd sys \<Rightarrow> 'd sys" where
  "do_noise_burst h addr pattern bufsize s =
     (let r1 = pattern; r2 = NOT r1
      in snd (burst_loop h [r1, r2, r1, r2, r1, r2, r1, r2] bufsize (addr, s)))"

definition CHUNK_SIZE :: u32 where
  "CHUNK_SIZE = 0x8000000"

text \<open>Leaves the loop with whether it was interrupted.\<close>

definition noise_burst_round ::
  "'d platform \<Rightarrow> u32 \<Rightarrow> u32 \<times> u32 \<times> u32 \<times> 'd sys \<Rightarrow>
     (bool \<times> 'd sys + u32 \<times> u32 \<times> u32 \<times> 'd sys) option" where
  "noise_burst_round h pattern = (\<lambda>(offset, remaining, sz, s).
     if remaining = 0 then Some (Inl (False, s))
     else let sz = (if remaining < sz then remaining else sz);
              s = do_noise_burst h offset pattern sz s;
              remaining = remaining - sz;
              offset = offset + sz;
              (stop, s) = progress h offset s
          in if stop then Some (Inl (True, s)) else Some (Inr (offset, remaining, sz, s)))"

definition noise_burst_check ::
  "'d platform \<Rightarrow> u32 \<Rightarrow> u32 \<Rightarrow> u32 \<Rightarrow> test_result \<times> 'd sys \<Rightarrow>
     unit option \<times> test_result \<times> 'd sys" where
  "noise_burst_check h addr pattern i = (\<lambda>(res, s).
     let (e, s) = check_addr h (addr + i) pattern s;
         res = (if e then TEST_FAILED else res);
         i = i + 4;
         (e, s) = check_addr h (addr + i) (NOT pattern) s;
         res = (if e then TEST_FAILED else res);
         i = i + 4;
         (stop, s) = progress h i s
     in if stop then (Some (), TEST_FAILED, s) else (None, res, s))"

definition test_noise_burst ::
  "'d platform \<Rightarrow> string list \<Rightarrow> 'd sys \<Rightarrow> (test_result \<times> 'd sys) option" where
  "test_noise_burst h argv s = do {
     (bufsize, s) \<leftarrow> get_bufsize h argv 0 (4 * 1024) 128 s;
     (case bufsize of
        None \<Rightarrow> Some (TEST_ERROR, s)
      | Some bufsize \<Rightarrow>
          case get_pattern argv 1 0xFFFFFFFF s of
            (None, s) \<Rightarrow> Some (TEST_ERROR, s)
          | (Some pattern, s) \<Rightarrow>
              case get_addr argv 2 s of
                (None, s) \<Rightarrow> Some (TEST_ERROR, s)
              | (Some addr, s) \<Rightarrow> do {
                  (stopped, s) \<leftarrow>
                    loop (noise_burst_round h pattern) (addr, bufsize, CHUNK_SIZE, s);
                  (if stopped then Some (TEST_FAILED, s)
                   else Some (snd (for_each (noise_burst_check h addr pattern)
                                    (count_by 8 bufsize) (TEST_PASSED, s))))
                })
   }"

subsection \<open>Random\<close>

definition random_check ::
  "'d platform \<Rightarrow> u32 \<Rightarrow> u32 \<Rightarrow> u32 \<Rightarrow> u32 \<Rightarrow> u32 \<times> u32 \<times> 'd sys \<Rightarrow>
     bool option \<times> u32 \<times> u32 \<times> 'd sys" where
  "random_check h addr bufsize seed offset = (\<lambda>(_, _, s).
     let s = (if offset = bufsize then srand seed s else s);
         (value, s) = rand s;
         (error, s) = check_addr h (addr + offset) value s
     in if error then (Some True, offset, value, s)
        else let (stop, s) = progress h offset s
             in (if stop then Some False else None, offset, value, s))"

text \<open>One round: fill with random words, copy, read back both halves against the repeated
  sequence. The loop ends with \<open>None\<close> when it was interrupted (\<open>return TEST_FAILED\<close>), else
  with the mismatch, if any: its offset and the expected value.\<close>

definition random_round ::
  "'d platform \<Rightarrow> u32 \<Rightarrow> u32 \<Rightarrow> u32 \<Rightarrow> (u32 \<times> u32) option \<times> u32 \<times> 'd sys \<Rightarrow>
     (((u32 \<times> u32) option \<times> u32) option \<times> 'd sys + (u32 \<times> u32) option \<times> u32 \<times> 'd sys) option"
  where
  "random_round h addr bufsize nb_loop = (\<lambda>(error, cnt, s).
     if error \<noteq> None then Some (Inl (Some (error, cnt), s))
     else let (seed, s) = rand s;
              s = fold (\<lambda>offset s. let (v, s) = rand s in writel h v (addr + offset) s)
                    (count_by 4 bufsize) s;
              s = memcpy h (addr + bufsize) addr bufsize s;
              s = srand seed s;
              (r, offset, value, s) =
                for_each (random_check h addr bufsize seed) (count_by 4 (2 * bufsize)) (0, 0, s)
          in if r = Some False then Some (Inl (None, s))
             else let error = (if r = Some True then Some (offset, value) else None);
                      (fin, cnt, s) = test_loop_end h cnt nb_loop 100 s
                  in if fin then Some (Inl (Some (error, cnt), s)) else Some (Inr (error, cnt, s)))"

definition test_random ::
  "'d platform \<Rightarrow> string list \<Rightarrow> 'd sys \<Rightarrow> (test_result \<times> 'd sys) option" where
  "test_random h argv s = do {
     (bufsize, s) \<leftarrow> get_bufsize h argv 0 (4 * 1024) 8 s;
     (case bufsize of
        None \<Rightarrow> Some (TEST_ERROR, s)
      | Some bufsize \<Rightarrow>
          case get_nb_loop argv 1 1 s of
            (None, s) \<Rightarrow> Some (TEST_ERROR, s)
          | (Some nb_loop, s) \<Rightarrow>
              case get_addr argv 2 s of
                (None, s) \<Rightarrow> Some (TEST_ERROR, s)
              | (Some addr, s) \<Rightarrow> do {
                  let bufsize = bufsize div 2;
                  (r, s) \<leftarrow> loop (random_round h addr bufsize nb_loop) (None, 0, s);
                  (case r of
                     None \<Rightarrow> Some (TEST_FAILED, s)
                   | Some (Some (offset, value), cnt) \<Rightarrow>
                       let (v, s) = readl h offset s
                       in Some (TEST_FAILED,
                            sprintf ''loop %d: error for address 0x%x: 0x%x expected 0x%x''
                              [AU32 cnt, AU32 offset, AU32 v, AU32 value] s)
                   | Some (None, cnt) \<Rightarrow>
                       Some (TEST_PASSED,
                         sprintf ''no error for %d loops, size 0x%x'' [AU32 cnt, AU32 bufsize] s))
                })
   }"

subsection \<open>Frequency patterns\<close>

text \<open>The assembly loop of \<open>test_loop\<close>: \<open>testsize\<close> is computed from \<open>bufsize\<close>, not from
  what remains.\<close>

definition test_loop_round ::
  "'d platform \<Rightarrow> u32 list \<Rightarrow> u32 \<Rightarrow> u32 \<times> u32 \<times> 'd sys \<Rightarrow>
     (bool \<times> 'd sys + u32 \<times> u32 \<times> 'd sys) option" where
  "test_loop_round h pattern bufsize = (\<lambda>(offset, remaining, s).
     if remaining = 0 then Some (Inl (False, s))
     else let testsize = (if bufsize > 0x1000000 then 0x1000000 else bufsize);
              s = snd (burst_loop h pattern testsize (offset, s));
              offset = offset + testsize;
              remaining = remaining - testsize;
              (stop, s) = progress h offset s
          in if stop then Some (Inl (True, s)) else Some (Inr (offset, remaining, s)))"

text \<open>The check of one pattern's worth of words; \<open>Some ()\<close> is \<open>goto end\<close> with
  \<open>TEST_FAILED\<close>.\<close>

definition check_block ::
  "'d platform \<Rightarrow> u32 list \<Rightarrow> u32 \<Rightarrow> u32 \<times> 'd sys \<Rightarrow> unit option \<times> u32 \<times> 'd sys" where
  "check_block h pattern i = (\<lambda>(address, s).
     case for_each (\<lambda>v (address, s).
              let (e, s) = check_addr h address v s
              in (if e then Some () else None, address + 4, s))
            pattern (address, s) of
       (Some _, address, s) \<Rightarrow> (Some (), address, s)
     | (None, address, s) \<Rightarrow>
         let (stop, s) = progress h i s
         in (if stop then Some () else None, address, s))"

definition test_loop ::
  "'d platform \<Rightarrow> u32 list \<Rightarrow> u32 \<Rightarrow> u32 \<Rightarrow> 'd sys \<Rightarrow> (test_result \<times> 'd sys) option" where
  "test_loop h pattern address bufsize s = do {
     (stopped, s) \<leftarrow> loop (test_loop_round h pattern bufsize) (address, bufsize, s);
     (if stopped then Some (TEST_FAILED, s)
      else case for_each (check_block h pattern) (count_by 32 bufsize) (address, s) of
             (Some _, _, s) \<Rightarrow> Some (TEST_FAILED, s)
           | (None, _, s) \<Rightarrow> Some (TEST_PASSED, s))
   }"

definition pattern_div1_x16 :: "u32 list" where
  "pattern_div1_x16 =
     [0x0000FFFF, 0x0000FFFF, 0x0000FFFF, 0x0000FFFF,
      0x0000FFFF, 0x0000FFFF, 0x0000FFFF, 0x0000FFFF]"

definition pattern_div2_x16 :: "u32 list" where
  "pattern_div2_x16 =
     [0xFFFFFFFF, 0x00000000, 0xFFFFFFFF, 0x00000000,
      0xFFFFFFFF, 0x00000000, 0xFFFFFFFF, 0x00000000]"

definition pattern_div4_x16 :: "u32 list" where
  "pattern_div4_x16 =
     [0xFFFFFFFF, 0xFFFFFFFF, 0x00000000, 0x00000000,
      0xFFFFFFFF, 0xFFFFFFFF, 0x00000000, 0x00000000]"

definition pattern_div4_x32 :: "u32 list" where
  "pattern_div4_x32 =
     [0xFFFFFFFF, 0xFFFFFFFF, 0xFFFFFFFF, 0xFFFFFFFF,
      0x00000000, 0x00000000, 0x00000000, 0x00000000]"

definition pattern_mostly_zero_x16 :: "u32 list" where
  "pattern_mostly_zero_x16 =
     [0x00000000, 0x00000000, 0x00000000, 0x0000FFFF,
      0x00000000, 0x00000000, 0x00000000, 0x00000000]"

definition pattern_mostly_zero_x32 :: "u32 list" where
  "pattern_mostly_zero_x32 =
     [0x00000000, 0x00000000, 0x00000000, 0xFFFFFFFF,
      0x00000000, 0x00000000, 0x00000000, 0x00000000]"

definition pattern_mostly_one_x16 :: "u32 list" where
  "pattern_mostly_one_x16 =
     [0xFFFFFFFF, 0xFFFFFFFF, 0xFFFFFFFF, 0x0000FFFF,
      0xFFFFFFFF, 0xFFFFFFFF, 0xFFFFFFFF, 0xFFFFFFFF]"

definition pattern_mostly_one_x32 :: "u32 list" where
  "pattern_mostly_one_x32 =
     [0xFFFFFFFF, 0xFFFFFFFF, 0xFFFFFFFF, 0x00000000,
      0xFFFFFFFF, 0xFFFFFFFF, 0xFFFFFFFF, 0xFFFFFFFF]"

definition patterns_x16 :: "u32 list list" where
  "patterns_x16 = [pattern_div1_x16, pattern_div2_x16, pattern_div4_x16,
     pattern_mostly_zero_x16, pattern_mostly_one_x16]"

definition patterns_x32 :: "u32 list list" where
  "patterns_x32 = [pattern_div2_x16, pattern_div4_x16, pattern_div4_x32,
     pattern_mostly_zero_x32, pattern_mostly_one_x32]"

text \<open>\<open>ctl\<close> is the address of the controller's registers; \<open>mstr\<close> is the first.\<close>

definition test_freq_pattern ::
  "'d platform \<Rightarrow> u32 \<Rightarrow> string list \<Rightarrow> 'd sys \<Rightarrow> (test_result \<times> 'd sys) option" where
  "test_freq_pattern h ctl argv s = do {
     (bufsize, s) \<leftarrow> get_bufsize h argv 0 (4 * 1024) 128 s;
     (case bufsize of
        None \<Rightarrow> Some (TEST_ERROR, s)
      | Some bufsize \<Rightarrow> do {
          let (mstr, s) = readl h ctl s;
          let width = mstr AND 0x3000;
          let bus_width = (if width = 0x1000 \<or> width = 0x2000 then 16 else 32 :: int);
          (r, s) \<leftarrow> for_each_opt
             (\<lambda>pattern s. do {
                (res, s) \<leftarrow> test_loop h pattern STM32_DDR_BASE bufsize s;
                Some (if res \<noteq> TEST_PASSED then Some res else None, s) })
             (if bus_width = 16 then patterns_x16 else patterns_x32) s;
          Some (case r of Some res \<Rightarrow> res | None \<Rightarrow> TEST_PASSED, s)
        })
   }"

subsection \<open>Patterns of any size\<close>

definition write_block ::
  "'d platform \<Rightarrow> u32 list \<Rightarrow> u32 \<Rightarrow> u32 \<times> 'd sys \<Rightarrow> unit option \<times> u32 \<times> 'd sys" where
  "write_block h pattern i = (\<lambda>(p, s).
     let (p, s) = fold (\<lambda>v (p, s). (p + 4, writel h v p s)) pattern (p, s);
         (stop, s) = progress h i s
     in (if stop then Some () else None, p, s))"

text \<open>\<open>size\<close> of the code is the length of the pattern in every call.\<close>

definition test_loop_size ::
  "'d platform \<Rightarrow> u32 list \<Rightarrow> u32 \<Rightarrow> u32 \<Rightarrow> 'd sys \<Rightarrow> test_result \<times> 'd sys" where
  "test_loop_size h pattern address bufsize s =
     (case for_each (write_block h pattern) (count_by (length pattern * 4) bufsize) (address, s) of
        (Some _, _, s) \<Rightarrow> (TEST_FAILED, s)
      | (None, _, s) \<Rightarrow>
          case for_each (check_block h pattern) (count_by (length pattern * 4) bufsize)
                 (address, s) of
            (Some _, _, s) \<Rightarrow> (TEST_FAILED, s)
          | (None, _, s) \<Rightarrow> (TEST_PASSED, s))"

text \<open>The common frame of the five tests: rounds over a list of patterns until one fails
  (\<open>return res\<close>) or \<open>test_loop_end\<close> says so.\<close>

definition pattern_round ::
  "'d platform \<Rightarrow> u32 list list \<Rightarrow> u32 \<Rightarrow> u32 \<Rightarrow> u32 \<Rightarrow> u32 \<times> 'd sys \<Rightarrow>
     (test_result \<times> u32 \<times> 'd sys + u32 \<times> 'd sys) option" where
  "pattern_round h pats addr bufsize nb_loop = (\<lambda>(cnt, s).
     case for_each (\<lambda>pattern s.
              let (res, s) = test_loop_size h pattern addr bufsize s
              in (if res \<noteq> TEST_PASSED then Some res else None, s)) pats s of
       (Some res, s) \<Rightarrow> Some (Inl (res, cnt, s))
     | (None, s) \<Rightarrow>
         let (fin, cnt, s) = test_loop_end h cnt nb_loop 1 s
         in if fin then Some (Inl (TEST_PASSED, cnt, s)) else Some (Inr (cnt, s)))"

definition pattern_test ::
  "u32 \<Rightarrow> u32 list list \<Rightarrow> 'd platform \<Rightarrow> string list \<Rightarrow> 'd sys \<Rightarrow> (test_result \<times> 'd sys) option"
  where
  "pattern_test min_size pats h argv s = do {
     (bufsize, s) \<leftarrow> get_bufsize h argv 0 (4 * 1024) min_size s;
     (case bufsize of
        None \<Rightarrow> Some (TEST_ERROR, s)
      | Some bufsize \<Rightarrow>
          case get_nb_loop argv 1 1 s of
            (None, s) \<Rightarrow> Some (TEST_ERROR, s)
          | (Some nb_loop, s) \<Rightarrow>
              case get_addr argv 2 s of
                (None, s) \<Rightarrow> Some (TEST_ERROR, s)
              | (Some addr, s) \<Rightarrow> do {
                  (res, cnt, s) \<leftarrow> loop (pattern_round h pats addr bufsize nb_loop) (0, s);
                  Some (res,
                    if res \<noteq> TEST_PASSED then s
                    else sprintf ''no error for %d loops at 0x%08x length 0x%x''
                           [AU32 cnt, AU32 addr, AU32 bufsize] s)
                })
   }"

text \<open>The array is complemented after each of the two passes of a round, so every round
  starts from the initial one.\<close>

definition checkboard :: "u32 list" where
  "checkboard = [0x55555555, 0xAAAAAAAA]"

definition test_checkboard ::
  "'d platform \<Rightarrow> string list \<Rightarrow> 'd sys \<Rightarrow> (test_result \<times> 'd sys) option" where
  "test_checkboard = pattern_test 8 [checkboard, map (\<lambda>w. NOT w) checkboard]"

definition blockseq_patterns :: "u32 list list" where
  "blockseq_patterns =
     map (\<lambda>i. let i = of_nat i in [i OR push_bit 8 i OR push_bit 16 i OR push_bit 24 i]) [0..<256]"

definition test_blockseq ::
  "'d platform \<Rightarrow> string list \<Rightarrow> 'd sys \<Rightarrow> (test_result \<times> 'd sys) option" where
  "test_blockseq = pattern_test 4 blockseq_patterns"

definition walkbit_value :: "nat \<Rightarrow> u32" where
  "walkbit_value i = (if i < 32 then push_bit i 1 else push_bit (63 - i) 1)"

definition test_walkbit0 ::
  "'d platform \<Rightarrow> string list \<Rightarrow> 'd sys \<Rightarrow> (test_result \<times> 'd sys) option" where
  "test_walkbit0 = pattern_test 4 (map (\<lambda>i. [walkbit_value i]) [0..<64])"

definition test_walkbit1 ::
  "'d platform \<Rightarrow> string list \<Rightarrow> 'd sys \<Rightarrow> (test_result \<times> 'd sys) option" where
  "test_walkbit1 = pattern_test 4 (map (\<lambda>i. [NOT (walkbit_value i)]) [0..<64])"

text \<open>\<open>i < 32\<close> always holds in the code of \<open>test_bitspread\<close>.\<close>

definition bitspread_patterns :: "u32 list list" where
  "bitspread_patterns =
     [let v = push_bit i 1 OR push_bit j 1 in [v, v, NOT v, NOT v]. i \<leftarrow> [1..<32], j \<leftarrow> [0..<i]]"

definition test_bitspread ::
  "'d platform \<Rightarrow> string list \<Rightarrow> 'd sys \<Rightarrow> (test_result \<times> 'd sys) option" where
  "test_bitspread = pattern_test 32 bitspread_patterns"

definition bitflip_patterns :: "u32 list list" where
  "bitflip_patterns = map (\<lambda>i. let v = push_bit i 1 in [v, v, NOT v, NOT v]) [0..<32]"

definition test_bitflip ::
  "'d platform \<Rightarrow> string list \<Rightarrow> 'd sys \<Rightarrow> (test_result \<times> 'd sys) option" where
  "test_bitflip = pattern_test 32 bitflip_patterns"

subsection \<open>Endless accesses\<close>

definition random_ddr_addr :: "'d sys \<Rightarrow> u32 \<times> 'd sys" where
  "random_ddr_addr s =
     (let (r, s) = rand s
      in (STM32_DDR_BASE + (r AND (STM32_DDR_SIZE - 1) AND NOT 3), s))"

definition read_access :: "'d platform \<Rightarrow> bool \<Rightarrow> u32 \<times> u32 \<times> 'd sys \<Rightarrow> u32 \<times> u32 \<times> 'd sys" where
  "read_access h random = (\<lambda>(addr, data, s).
     let (addr, s) = (if random then random_ddr_addr s else (addr, s));
         (data, s) = readl h addr s
     in (addr, data, s))"

definition write_access :: "'d platform \<Rightarrow> bool \<Rightarrow> u32 \<times> u32 \<times> 'd sys \<Rightarrow> u32 \<times> u32 \<times> 'd sys" where
  "write_access h random = (\<lambda>(addr, data, s).
     let (addr, data, s) =
           (if random
            then let (addr, s) = random_ddr_addr s; (data, s) = rand s in (addr, data, s)
            else (addr, data, s))
     in (addr, data, writel h data addr s))"

definition access_round ::
  "'d platform \<Rightarrow> (u32 \<times> u32 \<times> 'd sys \<Rightarrow> u32 \<times> u32 \<times> 'd sys) \<Rightarrow> u32 \<times> u32 \<times> u32 \<times> 'd sys \<Rightarrow>
     (u32 \<times> u32 \<times> u32 \<times> 'd sys + u32 \<times> u32 \<times> u32 \<times> 'd sys) option" where
  "access_round h access = (\<lambda>(cnt, addr, data, s).
     let (addr, data, s) = (access ^^ (1024 * 1024)) (addr, data, s);
         (fin, cnt, s) = test_loop_end h cnt 0 1 s
     in if fin then Some (Inl (cnt, addr, data, s)) else Some (Inr (cnt, addr, data, s)))"

definition access_report ::
  "bool \<Rightarrow> u32 \<times> u32 \<times> u32 \<times> 'd sys \<Rightarrow> (test_result \<times> 'd sys) option" where
  "access_report random = (\<lambda>(cnt, addr, data, s).
     Some (TEST_PASSED,
       if random then sprintf ''%d loops random'' [AU32 cnt] s
       else sprintf ''%d loops at 0x%x: %x'' [AU32 cnt, AU32 addr, AU32 data] s))"

definition test_read ::
  "'d platform \<Rightarrow> string list \<Rightarrow> 'd sys \<Rightarrow> (test_result \<times> 'd sys) option" where
  "test_read h argv s =
     (case get_addr argv 0 s of
        (None, s) \<Rightarrow> Some (TEST_ERROR, s)
      | (Some addr, s) \<Rightarrow>
          case get_pattern argv 1 0xA5A5AA55 s of
            (None, s) \<Rightarrow> Some (TEST_ERROR, s)
          | (Some data, s) \<Rightarrow>
              let random = (addr = ADDR_INVALID);
                  s = (if random then s else writel h data addr s)
              in loop (access_round h (read_access h random)) (0, addr, data, s)
                   \<bind> access_report random)"

definition test_write ::
  "'d platform \<Rightarrow> string list \<Rightarrow> 'd sys \<Rightarrow> (test_result \<times> 'd sys) option" where
  "test_write h argv s =
     (case get_addr argv 0 s of
        (None, s) \<Rightarrow> Some (TEST_ERROR, s)
      | (Some addr, s) \<Rightarrow>
          case get_pattern argv 1 0xA5A5AA55 s of
            (None, s) \<Rightarrow> Some (TEST_ERROR, s)
          | (Some data, s) \<Rightarrow>
              let random = (addr = ADDR_INVALID)
              in loop (access_round h (write_access h random)) (0, addr, data, s)
                   \<bind> access_report random)"

section \<open>What the tests write and what they accept\<close>

lemma fold_is_stmia: "fold (\<lambda>v (p, s). (p + 4, writel h v p s)) vs q = stmia h vs q"
  by (induction vs arbitrary: q) (auto split: prod.splits)

lemma stmia_append: "stmia h (xs @ ys) q = stmia h ys (stmia h xs q)"
  by (induction h xs q rule: stmia.induct) simp_all

lemma stmia4_is_stmia: "stmia4 h regs q = stmia h (concat (replicate 4 regs)) q"
  by (simp add: stmia4_def stmia_append numeral_eq_Suc)

text \<open>The rounds of \<open>for (i = 0; i < bufsize; i += size * 4)\<close>: a last partial block counts.\<close>

definition blocks :: "u32 \<Rightarrow> nat \<Rightarrow> nat" where
  "blocks bufsize sz = (unat bufsize + sz * 4 - 1) div (sz * 4)"

text \<open>The words the assembly loops store.\<close>

definition burst_words :: "u32 \<Rightarrow> nat" where
  "burst_words bufsize = 32 * (unat bufsize div 128 + 1)"

text \<open>The words that follow a seed.\<close>

definition rnd :: "u32 \<Rightarrow> nat \<Rightarrow> u32" where
  "rnd seed k = (rand_r ^^ k) seed"

lemma rnd_simps [simp]: "rnd seed 0 = seed" "rand_r (rnd seed k) = rnd seed (Suc k)"
  by (simp_all add: rnd_def)

context buffer_dram begin

lemma next_word: "a + 4 * of_nat i + 4 = a + 4 * of_nat (Suc i)"
  by (simp add: algebra_simps)

lemma stmia_spec:
  "i + length vs \<le> n \<Longrightarrow>
     fst (stmia h vs (a + 4 * of_nat i, s)) = a + 4 * of_nat (i + length vs) \<and>
     (\<forall>j<n. word (snd (stmia h vs (a + 4 * of_nat i, s))) j =
        (if i \<le> j \<and> j < i + length vs then vs ! (j - i) else word s j))"
proof (induction vs arbitrary: i s)
  case (Cons v vs)
  have "stmia h (v # vs) (a + 4 * of_nat i, s) =
      stmia h vs (a + 4 * of_nat (Suc i), writel h v (a + 4 * of_nat i) s)"
    by (simp only: stmia.simps next_word)
  moreover have "(if Suc i \<le> j \<and> j < Suc i + length vs then vs ! (j - Suc i)
      else word (writel h v (a + 4 * of_nat i) s) j) =
    (if i \<le> j \<and> j < i + length (v # vs) then (v # vs) ! (j - i) else word s j)" if "j < n" for j
    using that Cons.prems by (auto simp: word_write nth_Cons' not_le less_Suc_eq_le)
  ultimately show ?case
    using Cons.IH [of "Suc i" "writel h v (a + 4 * of_nat i) s"] Cons.prems
    by (simp del: of_nat_Suc stmia.simps)
qed auto

text \<open>The loop of the assembly stores one block of 128 bytes more than its count.\<close>

lemma burst_loop_spec:
  assumes "length regs = 8"
  shows "r < 0x80000000 \<Longrightarrow> i + 32 * (unat r div 128 + 1) \<le> n \<Longrightarrow>
     (\<forall>j<n. word (snd (burst_loop h regs r (a + 4 * of_nat i, s))) j =
        (if i \<le> j \<and> j < i + 32 * (unat r div 128 + 1) then regs ! ((j - i) mod 8) else word s j))"
proof (induction "unat r" arbitrary: r i s rule: less_induct)
  case less
  define q where "q = stmia4 h regs (a + 4 * of_nat i, s)"
  have len: "length (concat (replicate 4 regs)) = 32"
    using assms by (simp add: numeral_eq_Suc)
  have nth: "concat (replicate 4 regs) ! k = regs ! (k mod 8)" if "k < 32" for k
    using nth_concat_replicate [of k 4 regs] assms that by simp
  have q: "fst q = a + 4 * of_nat (i + 32)"
    "\<And>j. j < n \<Longrightarrow> word (snd q) j =
       (if i \<le> j \<and> j < i + 32 then regs ! ((j - i) mod 8) else word s j)"
  proof -
    note spec = stmia_spec [of i "concat (replicate 4 regs)" s, unfolded len,
        folded stmia4_is_stmia, folded q_def]
    then show "fst q = a + 4 * of_nat (i + 32)" using less.prems by simp
    fix j assume j: "j < n"
    then have "word (snd q) j =
        (if i \<le> j \<and> j < i + 32 then concat (replicate 4 regs) ! (j - i) else word s j)"
      using spec less.prems by simp
    moreover have "i \<le> j \<Longrightarrow> j < i + 32 \<Longrightarrow>
        concat (replicate 4 regs) ! (j - i) = regs ! ((j - i) mod 8)"
      by (rule nth) simp
    ultimately show "word (snd q) j =
        (if i \<le> j \<and> j < i + 32 then regs ! ((j - i) mod 8) else word s j)"
      by simp
  qed
  show ?case
  proof (cases "128 \<le>s r")
    case False
    then have "\<not> 128 \<le> r" using sle_iff_le [of 128 r] less.prems by simp
    then have "unat r < 128" by (simp add: word_le_nat_alt)
    then show ?thesis using False q
      by (subst burst_loop.simps) (simp add: q_def [symmetric])
  next
    case True
    then have "128 \<le> r" using sle_imp_le [of 128 r] by simp
    then have u: "unat (r - 128) = unat r - 128" "128 \<le> unat r"
      by (simp_all add: unat_sub word_le_nat_alt)
    then have d: "unat r div 128 = unat (r - 128) div 128 + 1"
      by (simp add: le_div_geq)
    have lt: "r - 128 < 0x80000000" "unat (r - 128) < unat r"
      using u less.prems by (simp_all add: word_less_nat_alt)
    have "burst_loop h regs r (a + 4 * of_nat i, s) = burst_loop h regs (r - 128) q"
      using True by (subst burst_loop.simps) (simp add: q_def)
    also have "\<dots> = burst_loop h regs (r - 128) (a + 4 * of_nat (i + 32), snd q)"
      using q(1) by (metis prod.collapse)
    finally have run: "burst_loop h regs r (a + 4 * of_nat i, s) =
        burst_loop h regs (r - 128) (a + 4 * of_nat (i + 32), snd q)" .
    have "\<forall>j<n. word (snd (burst_loop h regs (r - 128) (a + 4 * of_nat (i + 32), snd q))) j =
        (if i + 32 \<le> j \<and> j < i + 32 + 32 * (unat (r - 128) div 128 + 1)
         then regs ! ((j - (i + 32)) mod 8) else word (snd q) j)"
      using less.hyps [OF lt(2) lt(1), of "i + 32" "snd q"] less.prems d by simp
    moreover have "(j - (i + 32)) mod 8 = (j - i) mod 8" if "i + 32 \<le> j" for j
    proof -
      have "j - i = (j - (i + 32)) + 8 * 4" using that by simp
      then show ?thesis by (metis mod_mult_self2)
    qed
    ultimately show ?thesis unfolding run d using q(2) by auto
  qed
qed

text \<open>A run of comparisons against the words from \<open>i\<close> on.\<close>

definition check_run ::
  "u32 list \<Rightarrow> u32 \<times> 'd sys \<Rightarrow> unit option \<times> u32 \<times> 'd sys" where
  "check_run vs = for_each (\<lambda>v (address, s).
     let (e, s) = check_addr h address v s in (if e then Some () else None, address + 4, s)) vs"

lemma check_run_spec:
  "i + length vs \<le> n \<Longrightarrow> (\<forall>j<length vs. word s (i + j) = vs ! j) \<Longrightarrow>
     case check_run vs (a + 4 * of_nat i, s) of
       (None, x, s') \<Rightarrow> x = a + 4 * of_nat (i + length vs) \<and> cells s' = cells s \<and>
         (\<forall>j<length vs. holds (i + j) (vs ! j))
     | (Some _, x, s') \<Rightarrow> \<not> (\<forall>j<length vs. holds (i + j) (vs ! j))"
proof (induction vs arbitrary: i s)
  case Nil
  then show ?case by (simp add: check_run_def)
next
  case (Cons v vs)
  obtain e s1 where c: "check_addr h (a + 4 * of_nat i) v s = (e, s1)" by fastforce
  have "word s i = v" using Cons.prems(2) by force
  then have e: "e \<longleftrightarrow> \<not> holds i v" and s1: "cells s1 = cells s"
    using check_word(1) [where i = i and s = s and v = v] check_word(2) [where i = i and s = s and v = v] Cons.prems(1) c by simp_all
  have tail: "\<forall>j<length vs. word s1 (Suc i + j) = vs ! j"
    using Cons.prems(2) word_cells [OF s1] by auto
  have run: "check_run (v # vs) (a + 4 * of_nat i, s) =
      (if e then (Some (), a + 4 * of_nat (Suc i), s1) else check_run vs (a + 4 * of_nat (Suc i), s1))"
    by (simp add: check_run_def c next_word)
  have all: "(\<forall>j<length (v # vs). holds (i + j) ((v # vs) ! j)) \<longleftrightarrow>
      holds i v \<and> (\<forall>j<length vs. holds (Suc i + j) (vs ! j))"
    by (auto simp: nth_Cons' less_Suc_eq_0_disj)
  show ?case
    unfolding run all using Cons.IH [OF _ tail] Cons.prems(1) e s1
    by (auto simp: algebra_simps split: prod.splits option.splits)
qed

lemma check_block_spec:
  assumes "i + length vs \<le> n" "\<forall>j<length vs. word s (i + j) = vs ! j"
  shows "case check_block h vs off (a + 4 * of_nat i, s) of
       (None, x, s') \<Rightarrow> x = a + 4 * of_nat (i + length vs) \<and> cells s' = cells s \<and>
         (\<forall>j<length vs. holds (i + j) (vs ! j))
     | (Some _, x, s') \<Rightarrow> \<not> (\<forall>j<length vs. holds (i + j) (vs ! j))"
proof -
  obtain r x s1 where c: "check_run vs (a + 4 * of_nat i, s) = (r, x, s1)"
    by (cases "check_run vs (a + 4 * of_nat i, s)")
  obtain s2 where p: "progress h off s1 = (False, s2)" and s2: "cells s2 = cells s1"
    using progress_none [of off s1] by (metis prod.collapse)
  have "check_block h vs off (a + 4 * of_nat i, s) =
      (case r of Some _ \<Rightarrow> (Some (), x, s1) | None \<Rightarrow> (None, x, s2))"
    unfolding check_block_def using c [unfolded check_run_def] p
    by (simp split: option.splits)
  then show ?thesis using check_run_spec [OF assms] c s2 by (auto split: option.splits)
qed

text \<open>The check phase of both pattern loops, over \<open>b\<close> blocks.\<close>

definition pattern_ok :: "u32 list \<Rightarrow> nat \<Rightarrow> bool" where
  "pattern_ok vs b \<longleftrightarrow> (\<forall>i<b. \<forall>j<length vs. holds (i * length vs + j) (vs ! j))"

lemma check_blocks_spec:
  assumes "b * length vs \<le> n"
    and "\<forall>i<b. \<forall>j<length vs. word s (i * length vs + j) = vs ! j"
  shows "case for_each (\<lambda>i. check_block h vs (f i)) [0..<b] (a, s) of
       (None, x, s') \<Rightarrow> pattern_ok vs b
     | (Some _, x, s') \<Rightarrow> \<not> pattern_ok vs b"
proof -
  let ?p = "length vs"
  have le: "i * ?p + ?p \<le> n" if "i < b" for i
  proof -
    have "Suc i * ?p \<le> b * ?p" using that by (intro mult_right_mono) auto
    then show ?thesis using assms(1) by simp
  qed
  have "case for_each (\<lambda>i. check_block h vs (f i)) [0..<b] (a, s) of
       (None, st) \<Rightarrow> (\<forall>i<b. \<forall>j<?p. holds (i * ?p + j) (vs ! j)) \<and>
         fst st = a + 4 * of_nat (b * ?p) \<and> cells (snd st) = cells s
     | (Some _, st) \<Rightarrow> \<exists>i<b. (\<forall>k<i. \<forall>j<?p. holds (k * ?p + j) (vs ! j)) \<and>
         \<not> (\<forall>j<?p. holds (i * ?p + j) (vs ! j)) \<and> True"
  proof (rule for_each_first)
    fix i and st :: "u32 \<times> 'd sys"
    assume i: "i < b" and st: "fst st = a + 4 * of_nat (i * ?p) \<and> cells (snd st) = cells s"
    then have "\<forall>j<?p. word (snd st) (i * ?p + j) = vs ! j"
      using assms(2) word_cells [of "snd st" s] by simp
    from check_block_spec [OF le [OF i] this, of "f i"]
    show "case check_block h vs (f i) st of
        (None, st') \<Rightarrow> (\<forall>j<?p. holds (i * ?p + j) (vs ! j)) \<and>
          fst st' = a + 4 * of_nat (Suc i * ?p) \<and> cells (snd st') = cells s
      | (Some _, st') \<Rightarrow> \<not> (\<forall>j<?p. holds (i * ?p + j) (vs ! j)) \<and> True"
      using st by (cases st) (auto simp: algebra_simps split: prod.splits option.splits)
  qed simp
  then show ?thesis
    unfolding pattern_ok_def by (auto split: prod.splits option.splits)
qed

lemma write_block_spec:
  assumes "i + length vs \<le> n"
  shows "fst (write_block h vs off (a + 4 * of_nat i, s)) = None"
    "fst (snd (write_block h vs off (a + 4 * of_nat i, s))) = a + 4 * of_nat (i + length vs)"
    "j < n \<Longrightarrow> word (snd (snd (write_block h vs off (a + 4 * of_nat i, s)))) j =
       (if i \<le> j \<and> j < i + length vs then vs ! (j - i) else word s j)"
proof -
  obtain x s1 where st: "stmia h vs (a + 4 * of_nat i, s) = (x, s1)" by fastforce
  obtain s2 where p: "progress h off s1 = (False, s2)" and s2: "cells s2 = cells s1"
    using progress_none [of off s1] by (metis prod.collapse)
  have run: "write_block h vs off (a + 4 * of_nat i, s) = (None, x, s2)"
    by (simp add: write_block_def fold_is_stmia st p)
  note spec = stmia_spec [OF assms, of s, unfolded st fst_conv snd_conv, folded word_cells [OF s2]]
  show "fst (write_block h vs off (a + 4 * of_nat i, s)) = None"
    "fst (snd (write_block h vs off (a + 4 * of_nat i, s))) = a + 4 * of_nat (i + length vs)"
    "j < n \<Longrightarrow> word (snd (snd (write_block h vs off (a + 4 * of_nat i, s)))) j =
       (if i \<le> j \<and> j < i + length vs then vs ! (j - i) else word s j)"
    using spec by (simp_all add: run)
qed

lemma write_blocks_spec:
  assumes "b * length vs \<le> n"
  shows "case for_each (\<lambda>i. write_block h vs (f i)) [0..<b] (a, s) of (r, x, s') \<Rightarrow>
     r = None \<and> (\<forall>k<b. \<forall>j<length vs. word s' (k * length vs + j) = vs ! j)"
proof -
  let ?p = "length vs"
  have "case for_each (\<lambda>i. write_block h vs (f i)) [0..<b] (a, s) of
       (None, st) \<Rightarrow> (\<forall>i<b. True) \<and> fst st = a + 4 * of_nat (b * ?p) \<and>
         (\<forall>k<b. \<forall>j<?p. word (snd st) (k * ?p + j) = vs ! j)
     | (Some _, st) \<Rightarrow> \<exists>i<b. (\<forall>k<i. True) \<and> \<not> True \<and> True"
  proof (rule for_each_first)
    fix i and st :: "u32 \<times> 'd sys"
    assume i: "i < b" and st: "fst st = a + 4 * of_nat (i * ?p) \<and>
      (\<forall>k<i. \<forall>j<?p. word (snd st) (k * ?p + j) = vs ! j)"
    have le: "k * ?p + j < i * ?p" if "k < i" "j < ?p" for k j
    proof -
      have "Suc k * ?p \<le> i * ?p" using that by (intro mult_right_mono) auto
      then show ?thesis using that by simp
    qed
    have "Suc i * ?p \<le> b * ?p" using i by (intro mult_right_mono) auto
    then have bound: "i * ?p + ?p \<le> n" using assms by simp
    obtain s where s: "st = (a + 4 * of_nat (i * ?p), s)" using st by (cases st) auto
    obtain s' where w: "write_block h vs (f i) st = (None, a + 4 * of_nat (i * ?p + ?p), s')"
      using write_block_spec(1,2) [OF bound, of "f i" s] s by (metis prod.collapse)
    have "word s' (k * ?p + j) = vs ! j" if "k < Suc i" "j < ?p" for k j
    proof (cases "k = i")
      case True
      then show ?thesis
        using write_block_spec(3) [OF bound, of "i * ?p + j" "f i" s] w s that bound by simp
    next
      case False
      then have k: "k < i" using that by simp
      have "k * ?p + j < n" using le [OF k that(2)] bound by simp
      then show ?thesis
        using write_block_spec(3) [OF bound, of "k * ?p + j" "f i" s] w s st le [OF k that(2)] k that(2)
        by simp
    qed
    then show "case write_block h vs (f i) st of
        (None, st') \<Rightarrow> True \<and> fst st' = a + 4 * of_nat (Suc i * ?p) \<and>
          (\<forall>k<Suc i. \<forall>j<?p. word (snd st') (k * ?p + j) = vs ! j)
      | (Some _, st') \<Rightarrow> \<not> True \<and> True"
      using w by (simp add: algebra_simps)
  qed simp
  then show ?thesis by (auto split: prod.splits option.splits)
qed

lemma test_loop_size_spec:
  assumes "blocks bufsize (length vs) * length vs \<le> n"
  shows "fst (test_loop_size h vs a bufsize s) =
    (if pattern_ok vs (blocks bufsize (length vs)) then TEST_PASSED else TEST_FAILED)"
proof -
  let ?b = "blocks bufsize (length vs)"
  let ?f = "\<lambda>i. of_nat (i * (length vs * 4)) :: u32"
  obtain x s1 where w: "for_each (\<lambda>i. write_block h vs (?f i)) [0..<?b] (a, s) = (None, x, s1)"
    and s1: "\<forall>k<?b. \<forall>j<length vs. word s1 (k * length vs + j) = vs ! j"
    using write_blocks_spec [OF assms, of ?f s] by (auto split: prod.splits)
  obtain r y s2 where c: "for_each (\<lambda>i. check_block h vs (?f i)) [0..<?b] (a, s1) = (r, y, s2)"
    by (cases "for_each (\<lambda>i. check_block h vs (?f i)) [0..<?b] (a, s1)")
  show ?thesis
    using check_blocks_spec [OF assms s1, of ?f] w c
    unfolding test_loop_size_def for_each_count_by blocks_def [symmetric]
    by (simp split: option.splits)
qed

lemma pattern_rounds_spec:
  assumes fit: "\<And>vs. vs \<in> set pats \<Longrightarrow> blocks bufsize (length vs) * length vs \<le> n"
    and nb: "nb_loop \<noteq> 0"
  defines "all_ok \<equiv> \<forall>vs\<in>set pats. pattern_ok vs (blocks bufsize (length vs))"
  shows "\<exists>cnt s'. loop (pattern_round h pats a bufsize nb_loop) (0, s) =
     Some (if all_ok then TEST_PASSED else TEST_FAILED, cnt, s') \<and> (all_ok \<longrightarrow> cnt = nb_loop)"
proof -
  define J :: "u32 \<times> 'd sys \<Rightarrow> bool" where "J = (\<lambda>(cnt, s). cnt < nb_loop)"
  define m :: "u32 \<times> 'd sys \<Rightarrow> nat" where "m = (\<lambda>(cnt, s). unat nb_loop - unat cnt)"
  define Q :: "test_result \<times> u32 \<times> 'd sys \<Rightarrow> bool" where "Q = (\<lambda>(r, cnt, s').
     r = (if all_ok then TEST_PASSED else TEST_FAILED) \<and> (all_ok \<longrightarrow> cnt = nb_loop))"
  have start: "J (0, s)" using nb by (simp add: J_def word_neq_0_conv)
  have "(\<exists>r. pattern_round h pats a bufsize nb_loop st = Some (Inl r) \<and> Q r) \<or>
      (\<exists>st'. pattern_round h pats a bufsize nb_loop st = Some (Inr st') \<and> J st' \<and> m st' < m st)"
    if J: "J st" for st
  proof -
    obtain cnt s where st: "st = (cnt, s)" by (cases st)
    then have cnt: "cnt < nb_loop" using J by (simp add: J_def)
    let ?body = "\<lambda>pattern s. let (res, s) = test_loop_size h pattern a bufsize s
              in (if res \<noteq> TEST_PASSED then Some res else None, s)"
    obtain r s1 where l: "for_each ?body pats s = (r, s1)" by fastforce
    have "case for_each ?body pats s of
        (None, s') \<Rightarrow> (\<forall>vs\<in>set pats. pattern_ok vs (blocks bufsize (length vs))) \<and> True
      | (Some r, s') \<Rightarrow> \<exists>vs\<in>set pats. \<not> pattern_ok vs (blocks bufsize (length vs)) \<and> r = TEST_FAILED"
      by (rule for_each_all)
        (use test_loop_size_spec [OF fit] in \<open>auto simp: Let_def case_prod_beta\<close>)
    then have r: "r = (if all_ok then None else Some TEST_FAILED)"
      using l by (auto simp: all_ok_def split: option.splits)
    obtain fin cnt' s3 where t: "test_loop_end h cnt nb_loop 1 s1 = (fin, cnt', s3)"
      by (cases "test_loop_end h cnt nb_loop 1 s1")
    then have fin: "fin \<longleftrightarrow> nb_loop \<le> cnt + 1" and cnt': "cnt' = cnt + 1"
      using test_loop_end_simps(1,2) [of cnt nb_loop 1 s1] nb by simp_all
    have step: "pattern_round h pats a bufsize nb_loop st = Some (
        if \<not> all_ok then Inl (TEST_FAILED, cnt, s1)
        else if fin then Inl (TEST_PASSED, cnt + 1, s3) else Inr (cnt + 1, s3))"
      unfolding pattern_round_def st using l r t cnt' by simp
    have "cnt + 1 \<le> nb_loop" using cnt by (rule inc_le)
    then have "fin \<Longrightarrow> cnt + 1 = nb_loop" "\<not> fin \<Longrightarrow> cnt + 1 < nb_loop" using fin by auto
    then show ?thesis
      using step st cnt unat_inc [OF cnt]
      by (cases all_ok; cases fin) (auto simp: Q_def J_def m_def word_less_nat_alt)
  qed
  from loop_total [of J, OF start this] show ?thesis by (auto simp: Q_def)
qed

subsubsection \<open>The assembly loop\<close>

lemma blocks_le_burst: "blocks r 8 * 8 \<le> burst_words r"
proof -
  define q where "q = unat r div 128"
  have "unat r < 128 * q + 128" unfolding q_def by (simp add: dividend_less_times_div)
  then have "(unat r + 31) div 32 < 4 * q + 5" by (simp add: div_less_iff_less_mult)
  then have "(unat r + 31) div 32 * 8 \<le> 32 * (unat r div 128 + 1)" by (simp add: q_def)
  then show ?thesis by (simp add: blocks_def burst_words_def add.commute)
qed

lemma test_loop_spec:
  assumes vs: "length vs = 8" and b: "bufsize \<noteq> 0" "bufsize \<le> 0x1000000"
    and fit: "burst_words bufsize \<le> n"
  shows "\<exists>s'. test_loop h vs a bufsize s =
    Some (if pattern_ok vs (blocks bufsize 8) then TEST_PASSED else TEST_FAILED, s')"
proof -
  define s1 where "s1 = snd (burst_loop h vs bufsize (a, s))"
  have lt: "bufsize < 0x80000000" using b(2) by (simp add: word_le_nat_alt word_less_nat_alt)
  have s1: "word s1 j = vs ! (j mod 8)" if "j < burst_words bufsize" for j
    using burst_loop_spec [OF vs lt, of 0 s] fit that
    by (simp add: s1_def burst_words_def)
  obtain s2 where p: "progress h (a + bufsize) s1 = (False, s2)" and s2: "cells s2 = cells s1"
    using progress_none [of "a + bufsize" s1] by (metis prod.collapse)
  have "test_loop_round h vs bufsize (a, bufsize, s) = Some (Inr (a + bufsize, 0, s2))"
    using b p by (simp add: test_loop_round_def s1_def [symmetric] Let_def not_less [symmetric])
  moreover have "test_loop_round h vs bufsize (a + bufsize, 0, s2) = Some (Inl (False, s2))"
    by (simp add: test_loop_round_def)
  ultimately have fill: "loop (test_loop_round h vs bufsize) (a, bufsize, s) = Some (False, s2)"
    by (simp add: loop_Inr)
  have le: "blocks bufsize 8 * length vs \<le> n"
    using blocks_le_burst [of bufsize] fit vs by simp
  have "word s2 (i * length vs + j) = vs ! j" if "i < blocks bufsize 8" "j < length vs" for i j
  proof -
    have "Suc i * 8 \<le> blocks bufsize 8 * 8" using that(1) by (intro mult_right_mono) auto
    then have "i * 8 + j < burst_words bufsize"
      using that(2) vs blocks_le_burst [of bufsize] by simp
    then show ?thesis using s1 word_cells [OF s2] vs that by simp
  qed
  then have w: "\<forall>i<blocks bufsize 8. \<forall>j<length vs. word s2 (i * length vs + j) = vs ! j" by blast
  let ?f = "\<lambda>i. of_nat (i * 32) :: u32"
  obtain r y s3 where c: "for_each (\<lambda>i. check_block h vs (?f i)) [0..<blocks bufsize 8] (a, s2) = (r, y, s3)"
    by (cases "for_each (\<lambda>i. check_block h vs (?f i)) [0..<blocks bufsize 8] (a, s2)")
  have bl: "(unat bufsize + 32 - 1) div 32 = blocks bufsize 8" by (simp add: blocks_def)
  show ?thesis
    using check_blocks_spec [OF le w, of ?f] c
    unfolding test_loop_def for_each_count_by bl fill
    by (auto split: option.splits)
qed

end

context dram begin

text \<open>What remains keeps the same low 24 bits, so it never becomes 0.\<close>

lemma test_loop_spins:
  assumes "0x1000000 < bufsize" "unat bufsize mod 0x1000000 \<noteq> 0"
  shows "test_loop h vs x bufsize s = None"
proof -
  have "loop (test_loop_round h vs bufsize) (x, bufsize, s) = None"
  proof (rule loop_diverges [where I = "\<lambda>(off, remaining, s). unat remaining mod 0x1000000 \<noteq> 0"])
    fix st :: "u32 \<times> u32 \<times> 'd sys"
    assume I: "case st of (off, remaining, s) \<Rightarrow> unat remaining mod 0x1000000 \<noteq> 0"
    obtain off remaining s where st: "st = (off, remaining, s)" by (cases st)
    have nz: "remaining \<noteq> 0" using I st by auto
    let ?s1 = "snd (burst_loop h vs 0x1000000 (off, s))"
    obtain s2 where p: "progress h (off + 0x1000000) ?s1 = (False, s2)"
      using progress_none(1) [of "off + 0x1000000" ?s1] by (metis prod.collapse)
    have "unat (remaining - 0x1000000) mod 0x1000000 = unat remaining mod 0x1000000"
      by (rule low24_sub)
    then show "\<exists>st'. test_loop_round h vs bufsize st = Some (Inr st') \<and>
        (case st' of (off, remaining, s) \<Rightarrow> unat remaining mod 0x1000000 \<noteq> 0)"
      using st nz p I assms(1) by (simp add: test_loop_round_def Let_def)
  qed (use assms(2) in simp)
  then show ?thesis by (simp add: test_loop_def)
qed

lemma access_spins: "loop (access_round h access) (cnt, x, data, s) = None"
proof (rule loop_diverges [where I = "\<lambda>_. True"])
  fix st :: "u32 \<times> u32 \<times> u32 \<times> 'd sys"
  obtain cnt x data s where st: "st = (cnt, x, data, s)" by (cases st)
  obtain x' data' s' where a: "(access ^^ (1024 * 1024)) (x, data, s) = (x', data', s')"
    by (cases "(access ^^ (1024 * 1024)) (x, data, s)")
  obtain cnt' s'' where "test_loop_end h cnt 0 1 s' = (False, cnt', s'')"
    using test_loop_end_simps(1) [of cnt 0 1 s'] by (cases "test_loop_end h cnt 0 1 s'") auto
  then show "\<exists>st'. access_round h access st = Some (Inr st') \<and> True"
    unfolding access_round_def st using a by simp
qed simp

lemma str_ldr_spec:
  "x \<in> region \<Longrightarrow> fst (str_ldr h v x s) = view (decode x) v"
  by (simp add: str_ldr_def)

end

context buffer_dram begin

subsubsection \<open>Noise: \<open>a\<close> is the local array of eight words\<close>

definition noise_word :: "u32 \<Rightarrow> nat \<Rightarrow> u32" where
  "noise_word p i = (if even i then p else NOT p)"

lemma noise_spec:
  assumes n: "n = 8" and x: "x \<in> region"
  shows "fst (fold (noise_check h a p) [0, 2, 4, 6] (TEST_PASSED, do_noise h x p a s)) =
    (if \<forall>i<8. view (cell i) (view (decode x) (noise_word p i)) = noise_word p i
     then TEST_PASSED else TEST_FAILED)"
proof -
  define regs where "regs = map (\<lambda>i. view (decode x) (noise_word p i)) [0..<8]"
  have rd: "str_ldr h v x s = (view (decode x) v, snd (str_ldr h v x s))" for v s
    using str_ldr_spec [OF x, of v s] by (metis prod.collapse)
  have "\<exists>s'. do_noise h x p a s = snd (stmia h regs (a, s'))"
    unfolding do_noise_def
    by (subst rd, simp only: prod.case Let_def)+
      (simp add: regs_def noise_word_def upt_rec, blast)
  then obtain s0 where "do_noise h x p a s = snd (stmia h regs (a, s0))" by blast
  then have w: "word (do_noise h x p a s) j = regs ! j" if "j < 8" for j
    using stmia_spec [of 0 regs s0] that n by (simp add: regs_def)
  define good where "good i = (view (cell i) (regs ! i) = noise_word p i)" for i
  have pair: "\<exists>s'. noise_check h a p i (r, s1) =
        (if good i \<and> good (i + 1) then r else TEST_FAILED, s') \<and> word s' = word s1"
    if "i + 1 < 8" "even i" "\<forall>j<8. word s1 j = regs ! j" for i r s1
  proof -
    obtain e s2 where c1: "check_addr h (a + 4 * of_nat i) p s1 = (e, s2)" by fastforce
    obtain e' s3 where c2: "check_addr h (a + 4 * of_nat (i + 1)) (NOT p) s2 = (e', s3)" by fastforce
    have reg: "a + 4 * of_nat i \<in> region" "a + 4 * of_nat (i + 1) \<in> region"
      using in_region [of i] in_region [of "i + 1"] n that(1) by simp_all
    have cl: "cells s2 = cells s1" "cells s3 = cells s2"
      using check_addr_reads(2) [OF reg(1), of p s1, unfolded c1]
        check_addr_reads(2) [OF reg(2), of "NOT p" s2, unfolded c2] by (simp_all only: snd_conv)
    have "e \<longleftrightarrow> \<not> good i"
      using check_addr_reads(1) [OF reg(1), of p s1, unfolded c1] that n
      by (simp add: good_def noise_word_def word_def cell_def del: cells_sel)
    moreover have "e' \<longleftrightarrow> \<not> good (i + 1)"
    proof -
      have "word s1 (i + 1) = regs ! (i + 1)" using that by blast
      then show ?thesis
        using check_addr_reads(1) [OF reg(2), of "NOT p" s2, unfolded c2] cl(1) that(2)
        unfolding good_def noise_word_def word_def cell_def by (simp del: cells_sel)
    qed
    ultimately show ?thesis
      using c1 c2 cl word_cells [of s3 s1] by (simp add: noise_check_def del: of_nat_Suc of_nat_add)
  qed
  have all: "(\<forall>i<8. view (cell i) (view (decode x) (noise_word p i)) = noise_word p i) \<longleftrightarrow>
      good 0 \<and> good 1 \<and> good 2 \<and> good 3 \<and> good 4 \<and> good 5 \<and> good 6 \<and> good 7"
  proof -
    have "(\<forall>i<8. good i) \<longleftrightarrow>
        good 0 \<and> good 1 \<and> good 2 \<and> good 3 \<and> good 4 \<and> good 5 \<and> good 6 \<and> good 7"
    proof -
      have "{..<8 :: nat} = {0, 1, 2, 3, 4, 5, 6, 7}" by (auto simp: lessThan_def)
      then have "(\<forall>i\<in>{..<8}. good i) \<longleftrightarrow> (\<forall>i\<in>{0, 1, 2, 3, 4, 5, 6, 7}. good i)" by simp
      then show ?thesis by (simp only: ball_simps lessThan_iff [symmetric]) (simp add: Ball_def)
    qed
    then show ?thesis by (simp add: good_def regs_def)
  qed
  let ?s = "do_noise h x p a s"
  obtain r1 s1 where a1: "noise_check h a p 0 (TEST_PASSED, ?s) = (r1, s1)"
    "r1 = (if good 0 \<and> good 1 then TEST_PASSED else TEST_FAILED)" "word s1 = word ?s"
    using pair [of 0 ?s TEST_PASSED] w by auto
  obtain r2 s2 where a2: "noise_check h a p 2 (r1, s1) = (r2, s2)"
    "r2 = (if good 2 \<and> good 3 then r1 else TEST_FAILED)" "word s2 = word ?s"
    using pair [of 2 s1 r1] w a1(3) by auto
  obtain r3 s3 where a3: "noise_check h a p 4 (r2, s2) = (r3, s3)"
    "r3 = (if good 4 \<and> good 5 then r2 else TEST_FAILED)" "word s3 = word ?s"
    using pair [of 4 s2 r2] w a2(3) by auto
  obtain r4 s4 where a4: "noise_check h a p 6 (r3, s3) = (r4, s4)"
    "r4 = (if good 6 \<and> good 7 then r3 else TEST_FAILED)"
    using pair [of 6 s3 r3] w a3(3) by auto
  have "fold (noise_check h a p) [0, 2, 4, 6] (TEST_PASSED, ?s) = (r4, s4)"
    by (simp add: a1(1) a2(1) a3(1) a4(1))
  then show ?thesis unfolding all using a1(2) a2(2) a3(2) a4(2) by simp
qed

subsubsection \<open>Random: two halves of \<open>m\<close> words\<close>

lemma rand_y_keeps [simp]:
  "rand_y (writel h v x s) = rand_y s"
  "rand_y (s\<lparr>rand_y := y\<rparr>) = y"
  by (simp_all add: writel_def)

lemma word_rand_y [simp]: "word (s\<lparr>rand_y := y\<rparr>) = word s"
  by (simp add: word_def fun_eq_iff)

lemma random_fill:
  assumes "m \<le> n" "rand_y s = seed"
  shows "\<forall>j<m. word (fold (\<lambda>i s. let (v, s) = rand s in writel h v (a + of_nat (i * 4)) s) [0..<m] s) j =
    rnd seed (Suc j)"
proof -
  have "(\<lambda>s. rand_y s = rnd seed m \<and> (\<forall>j<m. word s j = rnd seed (Suc j)))
    (fold (\<lambda>i s. let (v, s) = rand s in writel h v (a + of_nat (i * 4)) s) [0..<m] s)"
  proof (rule fold_upt_inv [where I = "\<lambda>i s. rand_y s = rnd seed i \<and> (\<forall>j<i. word s j = rnd seed (Suc j))"])
    fix i s
    assume i: "i < m" and inv: "rand_y s = rnd seed i \<and> (\<forall>j<i. word s j = rnd seed (Suc j))"
    have "(let (v, s) = rand s in writel h v (a + of_nat (i * 4)) s) =
        writel h (rnd seed (Suc i)) (a + 4 * of_nat i) (s\<lparr>rand_y := rnd seed (Suc i)\<rparr>)"
      using inv by (simp add: rand_def Let_def mult.commute)
    then show "rand_y (let (v, s) = rand s in writel h v (a + of_nat (i * 4)) s) = rnd seed (Suc i) \<and>
        (\<forall>j<Suc i. word (let (v, s) = rand s in writel h v (a + of_nat (i * 4)) s) j = rnd seed (Suc j))"
      using inv i assms(1) by (auto simp: word_write less_Suc_eq)
  qed (use assms in simp)
  then show ?thesis by simp
qed

lemma copy_words_spec:
  assumes sound: "\<And>i v. i < n \<Longrightarrow> view (cell i) v = v" and n: "n = 2 * m"
  shows "i + k = m \<Longrightarrow> j < n \<Longrightarrow>
    word (copy_words h (a + 4 * of_nat (m + i)) (a + 4 * of_nat i) k s) j =
      (if m + i \<le> j then word s (j - m) else word s j)"
proof (induction k arbitrary: i s j)
  case 0
  then show ?case using n by auto
next
  case (Suc k)
  have i: "i < n" "m + i < n" using Suc.prems n by simp_all
  define s1 where "s1 = copy_word h (a + 4 * of_nat (m + i)) (a + 4 * of_nat i) s"
  obtain v s0 where r: "readl h (a + 4 * of_nat i) s = (v, s0)" by fastforce
  then have v: "v = word s i" and s0: "cells s0 = cells s"
    using fst_read_word [OF i(1), of s] read_cell(2) [OF i(1), of s] sound [OF i(1)] by simp_all
  have w1: "word s1 l = (if l = m + i then word s i else word s l)" if "l < n" for l
    using word_write [OF i(2) that, of v s0] word_cells [OF s0]
    by (simp add: s1_def copy_word_def r v del: of_nat_add)
  have "copy_words h (a + 4 * of_nat (m + i)) (a + 4 * of_nat i) (Suc k) s =
      copy_words h (a + 4 * of_nat (m + Suc i)) (a + 4 * of_nat (Suc i)) k s1"
    by (simp add: s1_def algebra_simps)
  moreover have "word (copy_words h (a + 4 * of_nat (m + Suc i)) (a + 4 * of_nat (Suc i)) k s1) j =
      (if m + Suc i \<le> j then word s1 (j - m) else word s1 j)"
    using Suc.IH [of "Suc i" j s1] Suc.prems by simp
  moreover consider "j < m + i" | "j = m + i" | "m + Suc i \<le> j" by linarith
  then have "(if m + Suc i \<le> j then word s1 (j - m) else word s1 j) =
      (if m + i \<le> j then word s (j - m) else word s j)"
  proof cases
    case 3
    then have "j - m < n" "j - m \<noteq> m + i" using Suc.prems(2) n by auto
    then show ?thesis using w1 [of "j - m"] 3 by simp
  qed (use w1 [OF Suc.prems(2)] in simp_all)
  ultimately show ?case by simp
qed

lemma memcpy_spec:
  assumes "\<And>i v. i < n \<Longrightarrow> view (cell i) v = v" "n = 2 * m" "0 < m" "a AND 3 = 0" "j < n"
  shows "word (memcpy h (a + 4 * of_nat m) a (4 * of_nat m) s) j = word s (j mod m)"
proof -
  have u: "unat (4 * of_nat m :: u32) = 4 * m"
  proof -
    have "unat (of_nat (4 * m) :: u32) = 4 * m"
      using n_bound assms(2) by (simp add: unat_of_nat del: of_nat_mult)
    then show ?thesis by simp
  qed
  then have "(4 * of_nat m :: u32) \<noteq> 0" using assms(3) by (metis unat_0 mult_is_0 numeral_neq_zero less_irrefl)
  moreover have "(a + 4 * of_nat m OR a) AND 3 = 0"
    using aligned_add [OF assms(4)] assms(4) by (simp add: bit.conj_disj_distrib2)
  ultimately have "memcpy h (a + 4 * of_nat m) a (4 * of_nat m) s =
      copy_words h (a + 4 * of_nat (m + 0)) (a + 4 * of_nat 0) m s"
    by (simp add: memcpy_def u)
  then show ?thesis
    using copy_words_spec [OF assms(1,2), of 0 m j s] assms(2,3,5)
    by (simp add: le_mod_geq)
qed

lemma random_check_spec:
  assumes sound: "\<And>i v. i < n \<Longrightarrow> view (cell i) v = v" and n: "n = 2 * m" "0 < m"
    and w: "\<forall>j<n. word s j = rnd seed (Suc (j mod m))" and y: "rand_y s = seed"
  shows "fst (for_each (\<lambda>i. random_check h a (4 * of_nat m) seed (of_nat (i * 4))) [0..<n] (x, v, s)) = None"
proof -
  let ?at = "\<lambda>i. if i \<le> m then i else i - m"
  let ?f = "\<lambda>i. random_check h a (4 * of_nat m) seed (of_nat (i * 4))"
  have eq: "(of_nat (i * 4) = (4 * of_nat m :: u32)) \<longleftrightarrow> i = m" if "i < n" for i
  proof
    assume "of_nat (i * 4) = (4 * of_nat m :: u32)"
    then have "unat (of_nat (i * 4) :: u32) = unat (of_nat (m * 4) :: u32)" by (simp add: mult.commute)
    then show "i = m" using n_bound n that by (simp add: unat_of_nat del: of_nat_mult)
  qed (simp add: mult.commute)
  have "case for_each ?f [0..<n] (x, v, s) of
      (None, st) \<Rightarrow> (\<forall>i<n. True) \<and> rand_y (snd (snd st)) = rnd seed (?at n) \<and>
        word (snd (snd st)) = word s
    | (Some _, st) \<Rightarrow> \<exists>i<n. (\<forall>j<i. True) \<and> \<not> True \<and> True"
  proof (rule for_each_first [where I = "\<lambda>i st. rand_y (snd (snd st)) = rnd seed (?at i) \<and>
        word (snd (snd st)) = word s"])
    fix i and st :: "u32 \<times> u32 \<times> 'd sys"
    assume i: "i < n" and inv: "rand_y (snd (snd st)) = rnd seed (?at i) \<and> word (snd (snd st)) = word s"
    obtain p q s0 where st: "st = (p, q, s0)" by (cases st)
    define s1 where "s1 = (if i = m then srand seed s0 else s0)"
    have s1: "rand_y s1 = rnd seed (i mod m)" "word s1 = word s"
    proof -
      have "i mod m = i - m" if "m < i" using that i n by (simp add: le_mod_geq)
      then show "rand_y s1 = rnd seed (i mod m)"
        using inv st n by (auto simp: s1_def srand_def)
      show "word s1 = word s" using inv st by (simp add: s1_def srand_def)
    qed
    let ?v = "rnd seed (Suc (i mod m))"
    let ?s2 = "s1\<lparr>rand_y := ?v\<rparr>"
    have rand: "rand s1 = (?v, ?s2)" by (simp add: rand_def s1 Let_def)
    have "word ?s2 i = ?v" using s1(2) w i by simp
    then obtain s3 where c: "check_addr h (a + 4 * of_nat i) ?v ?s2 = (False, s3)"
      and s3: "cells s3 = cells ?s2"
      using check_word_passes [OF i] sound [OF i] by (metis holds_def)
    obtain s4 where p: "progress h (of_nat (i * 4)) s3 = (False, s4)" and s4: "cells s4 = cells s3"
      using progress_none [of "of_nat (i * 4)" s3] by (metis prod.collapse)
    have run: "?f i st = (None, of_nat (i * 4), ?v, s4)"
      using rand c p eq [OF i] unfolding random_check_def st
      by (simp add: s1_def [symmetric] Let_def mult.commute)
    have "rand_y s4 = ?v" using s3 s4 by (metis cells_sel(2) rand_y_keeps(2))
    moreover have "Suc (i mod m) = ?at (Suc i)"
      using i n by (cases "i < m") (auto simp: le_mod_geq)
    moreover have "word s4 = word s" using s3 s4 s1(2) word_cells [of s4 ?s2] by simp
    ultimately show "case ?f i st of
        (None, st') \<Rightarrow> True \<and> rand_y (snd (snd st')) = rnd seed (?at (Suc i)) \<and>
          word (snd (snd st')) = word s
      | (Some _, st') \<Rightarrow> \<not> True \<and> True"
      using run by simp
  qed (use y in simp)
  then show ?thesis by (auto split: prod.splits option.splits)
qed

lemma random_rounds_spec:
  assumes sound: "\<And>i v. i < n \<Longrightarrow> view (cell i) v = v" and n: "n = 2 * m" "0 < m"
    and al: "a AND 3 = 0" and nb: "nb_loop \<noteq> 0"
  shows "\<exists>s'. loop (random_round h a (4 * of_nat m) nb_loop) (None, 0, s) =
    Some (Some (None, nb_loop), s')"
proof -
  define J :: "(u32 \<times> u32) option \<times> u32 \<times> 'd sys \<Rightarrow> bool" where
    "J = (\<lambda>(error, cnt, s). error = None \<and> cnt < nb_loop)"
  define meas :: "(u32 \<times> u32) option \<times> u32 \<times> 'd sys \<Rightarrow> nat" where
    "meas = (\<lambda>(error, cnt, s). unat nb_loop - unat cnt)"
  define Q :: "((u32 \<times> u32) option \<times> u32) option \<times> 'd sys \<Rightarrow> bool" where
    "Q = (\<lambda>(r, s'). r = Some (None, nb_loop))"
  have u: "unat (of_nat (4 * k) :: u32) = 4 * k" if "k \<le> n" for k
    using n_bound that by (simp add: unat_of_nat del: of_nat_mult)
  have c1: "(unat (4 * of_nat m :: u32) + 4 - 1) div 4 = m"
    and c2: "(unat (2 * (4 * of_nat m) :: u32) + 4 - 1) div 4 = n"
    using u [of m] u [of n] n by (simp_all add: mult.commute mult.left_commute)
  have "(\<exists>r. random_round h a (4 * of_nat m) nb_loop st = Some (Inl r) \<and> Q r) \<or>
      (\<exists>st'. random_round h a (4 * of_nat m) nb_loop st = Some (Inr st') \<and> J st' \<and> meas st' < meas st)"
    if J: "J st" for st
  proof -
    obtain cnt s where st: "st = (None, cnt, s)" and cnt: "cnt < nb_loop"
      using J by (cases st) (auto simp: J_def)
    obtain seed s1 where r: "rand s = (seed, s1)" by fastforce
    then have y1: "rand_y s1 = seed" by (auto simp: rand_def Let_def)
    define s2 where "s2 = fold (\<lambda>i s. let (v, s) = rand s in writel h v (a + of_nat (i * 4)) s) [0..<m] s1"
    define s3 where "s3 = srand seed (memcpy h (a + 4 * of_nat m) a (4 * of_nat m) s2)"
    have w2: "\<forall>j<m. word s2 j = rnd seed (Suc j)"
      unfolding s2_def using n y1 by (intro random_fill) auto
    have "word s3 j = rnd seed (Suc (j mod m))" if "j < n" for j
      using memcpy_spec [OF sound n(1,2) al that, of s2] w2 n(2)
      by (simp add: s3_def srand_def)
    then have w3: "\<forall>j<n. word s3 j = rnd seed (Suc (j mod m))" by blast
    have "rand_y s3 = seed" by (simp add: s3_def srand_def)
    then have "fst (for_each (\<lambda>i. random_check h a (4 * of_nat m) seed (of_nat (i * 4))) [0..<n] (0, 0, s3)) = None"
      by (intro random_check_spec n w3 sound)
    then obtain x v s4 where chk:
      "for_each (\<lambda>i. random_check h a (4 * of_nat m) seed (of_nat (i * 4))) [0..<n] (0, 0, s3) = (None, x, v, s4)"
      by (metis prod.collapse)
    obtain fin cnt' s5 where t: "test_loop_end h cnt nb_loop 100 s4 = (fin, cnt', s5)"
      by (cases "test_loop_end h cnt nb_loop 100 s4")
    then have fin: "fin \<longleftrightarrow> nb_loop \<le> cnt + 1" and cnt': "cnt' = cnt + 1"
      using test_loop_end_simps(1,2) [of cnt nb_loop 100 s4] nb by simp_all
    have fill: "fold (\<lambda>offset s. let (v, s) = rand s in writel h v (a + offset) s)
        (count_by 4 (4 * of_nat m)) s1 = s2"
      unfolding count_by_def c1 s2_def by (simp add: fold_map o_def)
    have step: "random_round h a (4 * of_nat m) nb_loop st =
        Some (if fin then Inl (Some (None, cnt + 1), s5) else Inr (None, cnt + 1, s5))"
      unfolding random_round_def st prod.case r fill [unfolded Let_def] Let_def for_each_count_by c2
        s3_def [symmetric] chk t
      by (simp add: cnt')
    have "cnt + 1 \<le> nb_loop" using cnt by (rule inc_le)
    then have "fin \<Longrightarrow> cnt + 1 = nb_loop" "\<not> fin \<Longrightarrow> cnt + 1 < nb_loop" using fin by auto
    then show ?thesis
      using step st cnt unat_inc [OF cnt]
      by (cases fin) (auto simp: Q_def J_def meas_def word_less_nat_alt)
  qed
  moreover have "J (None, 0, s)" using nb by (simp add: J_def word_neq_0_conv)
  ultimately show ?thesis using loop_total [of J _ _ Q meas] by (fastforce simp: Q_def)
qed

end

subsubsection \<open>The noise burst test on sound memory\<close>

context buffer_dram begin

lemma noise_burst_check_spec:
  assumes sound: "\<And>i v. i < n \<Longrightarrow> view (cell i) v = v" and le: "2 * b \<le> n"
    and w: "\<forall>j<2 * b. word s j = noise_word p j"
  shows "\<exists>s'. for_each (\<lambda>i. noise_burst_check h a p (of_nat (i * 8))) [0..<b] (TEST_PASSED, s) =
    (None, TEST_PASSED, s')"
proof -
  let ?f = "\<lambda>i. noise_burst_check h a p (of_nat (i * 8))"
  have "fst (for_each ?f [0..<b] (TEST_PASSED, s)) = None \<and>
      (\<lambda>(r, s'). r = TEST_PASSED \<and> cells s' = cells s) (snd (for_each ?f [0..<b] (TEST_PASSED, s)))"
  proof (rule for_each_inv)
    fix i and st :: "test_result \<times> 'd sys"
    assume i: "i \<in> set [0..<b]" and st: "case st of (r, s') \<Rightarrow> r = TEST_PASSED \<and> cells s' = cells s"
    obtain s1 where s1: "st = (TEST_PASSED, s1)" "cells s1 = cells s" using st by (cases st) auto
    have lt: "2 * i < n" "2 * i + 1 < n" "2 * i < 2 * b" "2 * i + 1 < 2 * b" using i le by auto
    have at: "a + of_nat (i * 8) = a + 4 * of_nat (2 * i)"
      "a + 4 * of_nat (2 * i) + 4 = a + 4 * of_nat (2 * i + 1)" by (simp_all add: algebra_simps)
    have "word s1 (2 * i) = p" "word s1 (2 * i + 1) = NOT p"
      using w lt word_cells [OF s1(2)] by (simp_all add: noise_word_def)
    moreover have "holds k v" if "k < n" for k v using sound [OF that] by (simp add: holds_def)
    ultimately obtain s2 s3 where c1: "check_addr h (a + 4 * of_nat (2 * i)) p s1 = (False, s2)"
      and s2: "cells s2 = cells s1"
      and c2: "check_addr h (a + 4 * of_nat (2 * i + 1)) (NOT p) s2 = (False, s3)"
      and s3: "cells s3 = cells s2"
      using lt by (metis check_word_passes)
    obtain s4 where pr: "progress h (of_nat (i * 8) + 4 + 4) s3 = (False, s4)" and s4: "cells s4 = cells s3"
      using progress_none [of "of_nat (i * 8) + 4 + 4" s3] by (metis prod.collapse)
    have "?f i st = (None, TEST_PASSED, s4)"
      unfolding noise_burst_check_def s1 prod.case Let_def
      by (simp only: at add.assoc [of a, symmetric] c1 c2 pr prod.case if_False)
    then show "fst (?f i st) = None \<and>
        (case snd (?f i st) of (r, s') \<Rightarrow> r = TEST_PASSED \<and> cells s' = cells s)"
      using s1 s2 s3 s4 by simp
  qed simp
  then show ?thesis
    by (cases "for_each ?f [0..<b] (TEST_PASSED, s)") auto
qed

lemma noise_burst_loop:
  assumes b: "bufsize \<noteq> 0" "bufsize \<le> CHUNK_SIZE" and fit: "burst_words bufsize \<le> n"
  shows "\<exists>s'. loop (noise_burst_round h p) (a, bufsize, CHUNK_SIZE, s) = Some (False, s') \<and>
    (\<forall>j<burst_words bufsize. word s' j = noise_word p j)"
proof -
  define s1 where "s1 = do_noise_burst h a p bufsize s"
  let ?regs = "[p, NOT p, p, NOT p, p, NOT p, p, NOT p]"
  have lt: "bufsize < 0x80000000"
    using b(2) by (simp add: CHUNK_SIZE_def word_le_nat_alt word_less_nat_alt)
  have regs: "?regs ! (k mod 8) = noise_word p k" for k
  proof -
    have "k mod 8 < 8" by simp
    then consider "k mod 8 = 0" | "k mod 8 = 1" | "k mod 8 = 2" | "k mod 8 = 3" | "k mod 8 = 4"
      | "k mod 8 = 5" | "k mod 8 = 6" | "k mod 8 = 7" by linarith
    moreover have "even k \<longleftrightarrow> even (k mod 8)" by presburger
    ultimately show ?thesis by cases (simp_all add: noise_word_def)
  qed
  have s1: "word s1 j = noise_word p j" if "j < burst_words bufsize" for j
    using burst_loop_spec [of ?regs bufsize 0 s] lt fit that
    by (simp add: s1_def do_noise_burst_def Let_def burst_words_def regs)
  obtain s2 where pr: "progress h (a + bufsize) s1 = (False, s2)" and s2: "cells s2 = cells s1"
    using progress_none [of "a + bufsize" s1] by (metis prod.collapse)
  define sz where "sz = (if bufsize < CHUNK_SIZE then bufsize else CHUNK_SIZE)"
  have sz: "sz = bufsize" using b(2) by (auto simp: sz_def)
  have "noise_burst_round h p (a, bufsize, CHUNK_SIZE, s) = Some (Inr (a + bufsize, 0, bufsize, s2))"
    unfolding noise_burst_round_def prod.case
    using b(1) pr s1_def by (simp add: sz_def [symmetric] sz Let_def)
  moreover have "noise_burst_round h p (a + bufsize, 0, bufsize, s2) = Some (Inl (False, s2))"
    by (simp add: noise_burst_round_def)
  ultimately have "loop (noise_burst_round h p) (a, bufsize, CHUNK_SIZE, s) = Some (False, s2)"
    by (simp add: loop_Inr)
  then show ?thesis using s1 word_cells [OF s2] by auto
qed

end

section \<open>The verdicts\<close>

text \<open>What the noise burst writes: with a chunk of \<open>bufsize\<close> bytes, the alternating pattern
  in \<open>32 * (bufsize div 128 + 1)\<close> words. The branch after \<open>subs r9, r9, #128\<close> is \<open>bge\<close>, so a
  chunk that is a multiple of 128 bytes is overrun by 128 bytes.\<close>

theorem noise_burst_overruns:
  assumes "buffer_dram h mem view decode region a n"
    and "bufsize < 0x80000000" and "32 * (unat bufsize div 128 + 1) \<le> n" and "j < n"
  shows "mem (dev (do_noise_burst h a pattern bufsize s)) (decode (a + 4 * of_nat j)) =
    (if j < 32 * (unat bufsize div 128 + 1)
     then if even j then pattern else NOT pattern
     else mem (dev s) (decode (a + 4 * of_nat j)))"
proof -
  let ?regs = "[pattern, NOT pattern, pattern, NOT pattern, pattern, NOT pattern, pattern, NOT pattern]"
  have w: "buffer_dram.word mem decode a s' i = mem (dev s') (decode (a + 4 * of_nat i))" for s' i
    by (simp add: buffer_dram.word_def [OF assms(1)] buffer_dram.cell_def [OF assms(1)]
        dram.cells_sel [OF buffer_dram.axioms(1) [OF assms(1)]])
  have regs: "?regs ! (k mod 8) = (if even k then pattern else NOT pattern)" for k
  proof -
    have "k mod 8 < 8" by simp
    then consider "k mod 8 = 0" | "k mod 8 = 1" | "k mod 8 = 2" | "k mod 8 = 3" | "k mod 8 = 4"
      | "k mod 8 = 5" | "k mod 8 = 6" | "k mod 8 = 7" by linarith
    moreover have "even k \<longleftrightarrow> even (k mod 8)" by presburger
    ultimately show ?thesis by cases simp_all
  qed
  have "buffer_dram.word mem decode a (do_noise_burst h a pattern bufsize s) j =
      (if j < 32 * (unat bufsize div 128 + 1) then ?regs ! (j mod 8)
       else buffer_dram.word mem decode a s j)"
    using buffer_dram.burst_loop_spec [OF assms(1), of ?regs bufsize 0 s] assms(2-4)
    by (simp add: do_noise_burst_def Let_def)
  then show ?thesis unfolding w regs .
qed

theorem noise_burst_overruns_witness:
  "dev (do_noise_burst (cell_ram sound_cell (\<lambda>x. x)) 0xC0000000 0xFFFFFFFF 128 (boot_state (\<lambda>_. 7)))
     0xC0000080 = 0xFFFFFFFF"
  using noise_burst_overruns [OF flat_ram.buffer_dram_axioms [of sound_cell 64], of 128 32
      "0xFFFFFFFF" "boot_state (\<lambda>_. 7)"] by simp

text \<open>\<open>test_loop\<close> on a buffer of up to 16 MB returns, and passes exactly when each word of
  the buffer keeps its word of the pattern. The memory must be there for one block of 128
  bytes more than the buffer.\<close>

theorem test_loop_verdict:
  assumes "buffer_dram h mem view decode region a n"
    and "length pattern = 8" "bufsize \<noteq> 0" "bufsize \<le> 0x1000000"
    and "32 * (unat bufsize div 128 + 1) \<le> n"
  shows "\<exists>s'. test_loop h pattern a bufsize s = Some (
    if \<forall>i<(unat bufsize + 31) div 32. \<forall>j<8.
         view (decode (a + 4 * of_nat (i * 8 + j))) (pattern ! j) = pattern ! j
    then TEST_PASSED else TEST_FAILED, s')"
  using buffer_dram.test_loop_spec [OF assms(1-4), of s] assms(2,5)
  by (simp add: buffer_dram.pattern_ok_def [OF assms(1)] buffer_dram.holds_def [OF assms(1)]
      buffer_dram.cell_def [OF assms(1)] blocks_def burst_words_def add.commute)

theorem test_loop_verdict_witness:
  "\<exists>s'. test_loop (cell_ram sound_cell (\<lambda>x. x)) pattern_div2_x16 0xC0000000 0x1000
     (boot_state (\<lambda>_. 0)) = Some (TEST_PASSED, s')"
  using test_loop_verdict [OF flat_ram.buffer_dram_axioms [of sound_cell 2048],
      of pattern_div2_x16 "0x1000" "boot_state (\<lambda>_. 0)"]
  by (simp add: sound_cell_def pattern_div2_x16_def)

text \<open>C33. \<open>testsize\<close> is recomputed from \<open>bufsize\<close> in every round, so on a larger buffer that
  is not a multiple of 16 MB the count that remains never becomes 0: with nobody at the
  console the test does not return.\<close>

theorem test_loop_never_returns:
  assumes "dram h mem view decode region"
    and "0x1000000 < bufsize" "unat bufsize mod 0x1000000 \<noteq> 0"
  shows "test_loop h pattern address bufsize s = None"
  by (rule dram.test_loop_spins [OF assms])

theorem test_loop_never_returns_witness:
  "test_loop (cell_ram sound_cell (\<lambda>x. x)) pattern_div1_x16 0xC0000000 0x1800000
     (boot_state (\<lambda>_. 0)) = None"
  using test_loop_never_returns [OF cell_ram.dram_axioms, of "0x1800000"] by simp

text \<open>C32. The tests built on \<open>test_loop_size\<close> (checkerboard, block sequential, walking ones and
  zeroes, bit spread, bit flip), with a positive number of rounds: the command returns; it
  passes, after all the rounds, exactly when every word of the buffer keeps its word of
  every pattern, and fails otherwise. The buffer is rounded up to whole patterns.\<close>

theorem pattern_test_verdict:
  assumes "buffer_dram h mem view decode region a n"
    and "get_bufsize h argv 0 (4 * 1024) min_size s = Some (Some bufsize, s)"
    and "get_nb_loop argv 1 1 s = (Some nb_loop, s)" "nb_loop \<noteq> 0"
    and "get_addr argv 2 s = (Some a, s)"
    and "\<And>vs. vs \<in> set pats \<Longrightarrow> blocks bufsize (length vs) * length vs \<le> n"
  shows "\<exists>s'. pattern_test min_size pats h argv s = Some (
    if \<forall>vs\<in>set pats. \<forall>i<blocks bufsize (length vs). \<forall>j<length vs.
         view (decode (a + 4 * of_nat (i * length vs + j))) (vs ! j) = vs ! j
    then TEST_PASSED else TEST_FAILED, s')"
proof -
  let ?ok = "\<forall>vs\<in>set pats. \<forall>i<blocks bufsize (length vs). \<forall>j<length vs.
         view (decode (a + 4 * of_nat (i * length vs + j))) (vs ! j) = vs ! j"
  have ok: "buffer_dram.pattern_ok view decode a vs b \<longleftrightarrow> (\<forall>i<b. \<forall>j<length vs.
      view (decode (a + 4 * of_nat (i * length vs + j))) (vs ! j) = vs ! j)" for vs b
    by (simp add: buffer_dram.pattern_ok_def [OF assms(1)] buffer_dram.holds_def [OF assms(1)]
        buffer_dram.cell_def [OF assms(1)])
  obtain cnt s' where run: "loop (pattern_round h pats a bufsize nb_loop) (0, s) =
      Some (if ?ok then TEST_PASSED else TEST_FAILED, cnt, s')"
    using buffer_dram.pattern_rounds_spec [OF assms(1,6,4), of pats s] unfolding ok by blast
  define r where "r = (if ?ok then TEST_PASSED else TEST_FAILED)"
  show ?thesis
    using run assms(2,3,5) unfolding r_def [symmetric]
    by (simp add: pattern_test_def)
qed

theorem pattern_test_verdict_witness:
  "\<exists>s'. test_blockseq (cell_ram sound_cell (\<lambda>x. x)) [] (boot_state (\<lambda>_. 0)) = Some (TEST_PASSED, s')"
proof -
  let ?s = "boot_state (\<lambda>_. 0) :: (u32 \<Rightarrow> u32) sys"
  have args: "get_bufsize (cell_ram sound_cell (\<lambda>x. x)) [] 0 (4 * 1024) 4 ?s = Some (Some 4096, ?s)"
    "get_nb_loop [] 1 1 ?s = (Some 1, ?s)" "get_addr [] 2 ?s = (Some 0xC0000000, ?s)"
    by (simp_all add: get_bufsize_def get_nb_loop_def get_addr_def reg_defs)
  have "\<And>vs. vs \<in> set blockseq_patterns \<Longrightarrow> blocks 4096 (length vs) * length vs \<le> min 1024 (2 ^ 28)"
    by (auto simp: blockseq_patterns_def blocks_def Let_def)
  from pattern_test_verdict [OF flat_ram.buffer_dram_axioms [of sound_cell 1024] args(1,2) _ args(3) this]
  show ?thesis by (simp add: test_blockseq_def sound_cell_def)
qed

text \<open>The random test with a positive number of rounds on sound memory of \<open>8 * m\<close> bytes
  passes: the words written from the seed are copied to the second half, and both halves
  are compared with the sequence repeated from the same seed.\<close>

theorem test_random_passes:
  assumes "buffer_dram h mem view decode region a (2 * m)" and "0 < m" and "a AND 3 = 0"
    and "\<And>i v. i < 2 * m \<Longrightarrow> view (decode (a + 4 * of_nat i)) v = v"
    and "get_bufsize h argv 0 (4 * 1024) 8 s = Some (Some (of_nat (8 * m)), s)"
    and "get_nb_loop argv 1 1 s = (Some nb_loop, s)" "nb_loop \<noteq> 0"
    and "get_addr argv 2 s = (Some a, s)"
  shows "\<exists>s'. test_random h argv s = Some (TEST_PASSED, s') \<and>
    result_msg s' =
      Some (Sprintf ''no error for %d loops, size 0x%x'' [AU32 nb_loop, AU32 (of_nat (4 * m))])"
proof -
  have half: "(of_nat (8 * m) :: u32) div 2 = 4 * of_nat m"
  proof -
    have b: "8 * m \<le> 2 ^ 31" using buffer_dram.n_bound [OF assms(1)] by simp
    have "unat (of_nat (8 * m) :: u32) = 8 * m" "unat (of_nat (4 * m) :: u32) = 4 * m"
      using b by (simp_all add: unat_of_nat del: of_nat_mult)
    then have "unat ((of_nat (8 * m) :: u32) div 2) = unat (of_nat (4 * m) :: u32)"
      by (simp add: unat_div del: of_nat_mult)
    then show ?thesis by (simp add: word_unat_eq_iff)
  qed
  have sound: "view (buffer_dram.cell decode a i) v = v" if "i < 2 * m" for i v
    using assms(4) that by (simp add: buffer_dram.cell_def [OF assms(1)])
  obtain s' where run: "loop (random_round h a (4 * of_nat m) nb_loop) (None, 0, s) =
      Some (Some (None, nb_loop), s')"
    using buffer_dram.random_rounds_spec [OF assms(1) sound refl assms(2,3,7)] by blast
  have "test_random h argv s = Some (TEST_PASSED,
      sprintf ''no error for %d loops, size 0x%x'' [AU32 nb_loop, AU32 (4 * of_nat m)] s')"
    unfolding test_random_def
    by (simp only: assms(5,6,8) Option.bind.bind_lunit prod.case option.case Let_def half run)
  then show ?thesis by (simp add: sprintf_def)
qed

text \<open>A size that is a multiple of 4 but not of 8 is accepted, and then fails on sound
  memory: half of it is not a whole number of words, so the seed is never set back and the
  copy overlaps the words compared.\<close>

theorem test_random_odd_half:
  "map_option fst (test_random (list_ram 0xC0000000) [''12''] (boot_state (replicate 3 0))) =
     Some TEST_FAILED"
proof -
  let ?h = "list_ram 0xC0000000" and ?s = "boot_state (replicate 3 0) :: u32 list sys"
  have rand_rs: "rand_r 1 = 0x42021" "rand_r 0x42021 = 0x4080601" "rand_r 0x4080601 = 0x9DCCA8C5"
    by (simp_all add: rand_r_def Let_def)
  have ct: "count_by 4 6 = [0, 4]" "count_by 4 12 = [0, 4, 8]"
    by (simp_all add: count_by_def upt_rec)
  have cp: "memcpy ?h 0xC0000006 0xC0000000 6 (?s\<lparr>dev := [0x4080601, 0x9DCCA8C5, 0], rand_y := 0x9DCCA8C5\<rparr>) =
      ?s\<lparr>dev := [0x4080601, 0x601A8C5, 0xA8C50408], rand_y := 0x9DCCA8C5\<rparr>"
  proof -
    have rec: "copy_bytes h d x k st = (if k = 0 then st
        else copy_bytes h (d + 1) (x + 1) (k - 1) (copy_byte h d x st))" for h d x k and st :: "'z sys"
      by (cases k) simp_all
    show ?thesis
      by (simp add: memcpy_def copy_byte_def list_ram_def byte_lane_def set_byte_lane_def
          boot_state_def Let_def rec)
  qed
  have "\<exists>off v c s'. random_round ?h 0xC0000000 6 1 (None, 0, ?s) =
      Some (Inl (Some (Some (off, v), c), s'))"
    unfolding random_round_def prod.case
    by (simp add: rand_def rand_rs ct cp [unfolded boot_state_def, simplified] boot_state_def
        list_ram_simps Let_def srand_def random_check_def check_addr_def progress_def
        test_loop_end_def numeral_3_eq_3)
  then obtain off v c s' where "random_round ?h 0xC0000000 6 1 (None, 0, ?s) =
      Some (Inl (Some (Some (off, v), c), s'))"
    by blast
  then have run: "loop (random_round ?h 0xC0000000 6 1) (None, 0, ?s) =
      Some (Some (Some (off, v), c), s')"
    by simp
  have "strict_strtoul ''12'' 0 = Some 12" by code_simp
  then have args: "get_bufsize ?h [''12''] 0 (4 * 1024) 8 ?s = Some (Some 12, ?s)"
    "get_nb_loop [''12''] 1 1 ?s = (Some 1, ?s)" "get_addr [''12''] 2 ?s = (Some 0xC0000000, ?s)"
    by (simp_all add: get_bufsize_def get_nb_loop_def get_addr_def reg_defs)
  have half: "(12 :: u32) div 2 = 6" by simp
  show ?thesis
    unfolding test_random_def
    by (simp only: args Option.bind.bind_lunit prod.case option.case Let_def half run)
      (simp add: case_prod_beta)
qed

text \<open>The noise test passes exactly when what the word at \<open>addr\<close> returned for the pattern
  and its complement, four times each, reads back from the local array as written.\<close>

theorem noise_verdict:
  assumes "buffer_dram h mem view decode region result 8"
    and "addr \<in> region" "get_pattern argv 0 0xFFFFFFFF s = (Some pattern, s)"
    and "get_addr argv 1 s = (Some addr, s)"
  shows "\<exists>s'. test_noise result h argv s = Some (
    if \<forall>i<8. let v = (if even i then pattern else NOT pattern)
         in view (decode (result + 4 * of_nat i)) (view (decode addr) v) = v
    then TEST_PASSED else TEST_FAILED, s')"
proof -
  obtain r s' where f: "fold (noise_check h result pattern) [0, 2, 4, 6]
      (TEST_PASSED, do_noise h addr pattern result s) = (r, s')" by fastforce
  have r: "r = (if \<forall>i<8. let v = (if even i then pattern else NOT pattern)
         in view (decode (result + 4 * of_nat i)) (view (decode addr) v) = v
      then TEST_PASSED else TEST_FAILED)"
    using buffer_dram.noise_spec [OF assms(1) refl assms(2), of pattern s]
    by (simp only: f fst_conv buffer_dram.noise_word_def [OF assms(1)]
        buffer_dram.cell_def [OF assms(1)] Let_def)
  have "test_noise result h argv s = Some (r, s')"
    unfolding test_noise_def by (simp only: assms(3,4) prod.case option.case Let_def f)
  then show ?thesis unfolding r by blast
qed

text \<open>The endless tests are endless: with nobody at the console neither the read nor the
  write test returns, whatever address and pattern they are given.\<close>

theorem endless_tests:
  assumes "dram h mem view decode region"
    and "get_addr argv 0 s = (Some a, s)" "get_pattern argv 1 0xA5A5AA55 s = (Some data, s)"
  shows "test_read h argv s = None \<and> test_write h argv s = None"
  unfolding test_read_def test_write_def
  by (simp only: assms(2,3) prod.case option.case Let_def dram.access_spins [OF assms(1)] bind.bind_lzero)

theorem noise_verdict_witness:
  "\<exists>s'. test_noise 0xC0000000 (cell_ram (stuck_bit 0xC8000000 3 False) (\<lambda>x. x)) [''FFFFFFFF'', ''C8000000'']
     (boot_state (\<lambda>_. 0)) = Some (TEST_FAILED, s')"
proof -
  let ?s = "boot_state (\<lambda>_. 0) :: (u32 \<Rightarrow> u32) sys" and ?v = "stuck_bit 0xC8000000 3 False"
  let ?args = "[''FFFFFFFF'', ''C8000000'']"
  have "strict_strtoul ''FFFFFFFF'' 16 = Some 0xFFFFFFFF" "strict_strtoul ''C8000000'' 16 = Some 0xC8000000"
    by code_simp+
  then have args: "get_pattern ?args 0 0xFFFFFFFF ?s = (Some 0xFFFFFFFF, ?s)"
    "get_addr ?args 1 ?s = (Some 0xC8000000, ?s)"
    by (simp_all add: get_pattern_def get_addr_def reg_defs)
  have b: "buffer_dram (cell_ram ?v (\<lambda>x. x)) (\<lambda>m. m) ?v (\<lambda>x. x) UNIV 0xC0000000 8"
    using flat_ram.buffer_dram_axioms [of ?v 8] by simp
  have "?v (0xC0000000 + 4 * of_nat 0) (?v 0xC8000000 0xFFFFFFFF) \<noteq> 0xFFFFFFFF" by code_simp
  then have "(\<forall>i<8. let v = (if even i then 0xFFFFFFFF else NOT 0xFFFFFFFF)
      in ?v (0xC0000000 + 4 * of_nat i) (?v 0xC8000000 v) = v) = False"
    by (auto simp: Let_def intro!: exI [of _ 0])
  with noise_verdict [OF b UNIV_I args] show ?thesis by (simp only: if_False)
qed

theorem endless_tests_witness:
  "test_read (cell_ram sound_cell (\<lambda>x. x)) [] (boot_state (\<lambda>_. 0)) = None"
proof -
  have "get_addr [] 0 (boot_state (\<lambda>_. 0)) = (Some 0xC0000000, boot_state (\<lambda>_. 0))"
    "get_pattern [] 1 0xA5A5AA55 (boot_state (\<lambda>_. 0)) = (Some 0xA5A5AA55, boot_state (\<lambda>_. 0))"
    by (simp_all add: get_addr_def get_pattern_def reg_defs)
  from endless_tests [OF cell_ram.dram_axioms this] show ?thesis by blast
qed

theorem test_random_passes_witness:
  "\<exists>s'. test_random (cell_ram sound_cell (\<lambda>x. x)) [] (boot_state (\<lambda>_. 0)) = Some (TEST_PASSED, s')"
proof -
  let ?s = "boot_state (\<lambda>_. 0) :: (u32 \<Rightarrow> u32) sys"
  have args: "get_bufsize (cell_ram sound_cell (\<lambda>x. x)) [] 0 (4 * 1024) 8 ?s =
      Some (Some (of_nat (8 * 512)), ?s)"
    "get_nb_loop [] 1 1 ?s = (Some 1, ?s)" "get_addr [] 2 ?s = (Some 0xC0000000, ?s)"
    by (simp_all add: get_bufsize_def get_nb_loop_def get_addr_def reg_defs)
  have b: "buffer_dram (cell_ram sound_cell (\<lambda>x. x)) (\<lambda>m. m) sound_cell (\<lambda>x. x) UNIV 0xC0000000 (2 * 512)"
    using flat_ram.buffer_dram_axioms [of sound_cell 1024] by simp
  from test_random_passes [OF b _ _ _ args(1,2) _ args(3)] show ?thesis
    by (auto simp: sound_cell_def)
qed

end
