(* ===== verification/DdrTestAll.thy ===== *)
theory DdrTestAll
  imports DdrBusTests DdrPatternTests
begin

text \<open>
  The table of the DDR tests and the command that runs them all (end of
  ddr/stm32mp1_tests.c). Every command takes the platform, the addresses of the controller
  and of the PHY, its arguments and the state; only the frequency test reads a register of
  the controller. \<open>result\<close> is the address of the local array of the noise test.

  The theorem is the composition of the verdicts: on sound memory the command returns with
  \<open>TEST_PASSED\<close>.
\<close>

type_synonym 'd test_fun =
  "'d platform \<Rightarrow> u32 \<Rightarrow> u32 \<Rightarrow> string list \<Rightarrow> 'd sys \<Rightarrow> (test_result \<times> 'd sys) option"

record 'd test_desc =
  fct :: "'d test_fun"
  name :: string
  usage :: string
  help_text :: string
  max_args :: u8

definition plain ::
  "('d platform \<Rightarrow> string list \<Rightarrow> 'd sys \<Rightarrow> (test_result \<times> 'd sys) option) \<Rightarrow> 'd test_fun" where
  "plain f h ctl phy = f h"

text \<open>The table without its first entry, \<open>test_all\<close> itself.\<close>

definition test_entries :: "u32 \<Rightarrow> 'd test_desc list" where
  "test_entries result =
    [\<lparr>fct = plain test_databus, name = ''Simple DataBus'', usage = ''[addr]'',
      help_text = ''Verifies each data line by walking 1 on fixed address'', max_args = 1\<rparr>,
     \<lparr>fct = plain databuswalk0, name = ''DataBusWalking0'', usage = ''[loop] [addr]'',
      help_text = ''Verifies each data bus signal can be driven low (32 word burst)'', max_args = 2\<rparr>,
     \<lparr>fct = plain databuswalk1, name = ''DataBusWalking1'', usage = ''[loop] [addr]'',
      help_text = ''Verifies each data bus signal can be driven high (32 word burst)'', max_args = 2\<rparr>,
     \<lparr>fct = plain test_addressbus, name = ''AddressBus'', usage = ''[size] [addr]'',
      help_text = ''Verifies each relevant bits of the address and checking for aliasing'',
      max_args = 2\<rparr>,
     \<lparr>fct = plain test_memdevice, name = ''MemDevice'', usage = ''[size] [addr]'',
      help_text = ''Test the integrity of a physical memory (test every storage bit in the region)'',
      max_args = 2\<rparr>,
     \<lparr>fct = plain test_sso, name = ''SimultaneousSwitchingOutput'', usage = ''[size] [addr] '',
      help_text = ''Stress the data bus over an address range'', max_args = 2\<rparr>,
     \<lparr>fct = plain (test_noise result), name = ''Noise'', usage = ''[pattern] [addr]'',
      help_text = ''Verifies r/w while forcing switching of all data bus lines.'', max_args = 3\<rparr>,
     \<lparr>fct = plain test_noise_burst, name = ''NoiseBurst'', usage = ''[size] [pattern] [addr]'',
      help_text = ''burst transfers while forcing switching of the data bus lines'', max_args = 3\<rparr>,
     \<lparr>fct = plain test_random, name = ''Random'', usage = ''[size] [loop] [addr]'',
      help_text = ''Verifies r/w and memcopy(burst for pseudo random value.'', max_args = 3\<rparr>,
     \<lparr>fct = \<lambda>h ctl phy. test_freq_pattern h ctl, name = ''FrequencySelectivePattern'',
      usage = ''[size]'', help_text = ''write & test patterns: Mostly Zero, Mostly One and F/n'',
      max_args = 1\<rparr>,
     \<lparr>fct = plain test_blockseq, name = ''BlockSequential'', usage = ''[size] [loop] [addr]'',
      help_text = ''test incremental pattern'', max_args = 3\<rparr>,
     \<lparr>fct = plain test_checkboard, name = ''Checkerboard'', usage = ''[size] [loop] [addr]'',
      help_text = ''test checker pattern'', max_args = 3\<rparr>,
     \<lparr>fct = plain test_bitspread, name = ''BitSpread'', usage = ''[size] [loop] [addr]'',
      help_text = ''test Bit Spread pattern'', max_args = 3\<rparr>,
     \<lparr>fct = plain test_bitflip, name = ''BitFlip'', usage = ''[size] [loop] [addr]'',
      help_text = ''test Bit Flip pattern'', max_args = 3\<rparr>,
     \<lparr>fct = plain test_walkbit0, name = ''WalkingOnes'', usage = ''[size] [loop] [addr]'',
      help_text = ''test Walking Ones pattern'', max_args = 3\<rparr>,
     \<lparr>fct = plain test_walkbit1, name = ''WalkingZeroes'', usage = ''[size] [loop] [addr]'',
      help_text = ''test Walking Zeroes pattern'', max_args = 3\<rparr>,
     \<lparr>fct = plain test_read, name = ''infinite read'', usage = ''[addr] [pattern]'',
      help_text = ''basic test : infinite read access (random: addr=0xFFFFFFFF)'', max_args = 2\<rparr>,
     \<lparr>fct = plain test_write, name = ''infinite write'', usage = ''[addr] [pattern]'',
      help_text = ''basic test : infinite write access (random: addr=0xFFFFFFFF)'', max_args = 2\<rparr>]"

definition NB_TEST_INFINITE :: nat where
  "NB_TEST_INFINITE = 2"

definition test_nb :: nat where
  "test_nb = 19"

text \<open>One test of a round; the state is \<open>(nb_error, res, s)\<close>.\<close>

definition test_all_one ::
  "'d platform \<Rightarrow> u32 \<Rightarrow> u32 \<Rightarrow> 'd test_desc \<Rightarrow> int \<times> test_result \<times> 'd sys \<Rightarrow>
     (unit option \<times> int \<times> test_result \<times> 'd sys) option" where
  "test_all_one h ctl phy t = (\<lambda>(nb_error, res, s). do {
     (result, s) \<leftarrow> fct t h ctl phy [] s;
     (if result \<noteq> TEST_PASSED then Some (None, nb_error + 1, TEST_FAILED, s)
      else Some (None, nb_error, res, s)) })"

definition test_all_round ::
  "u32 \<Rightarrow> 'd platform \<Rightarrow> u32 \<Rightarrow> u32 \<Rightarrow> u32 \<Rightarrow> int \<times> u32 \<times> test_result \<times> 'd sys \<Rightarrow>
     (int \<times> u32 \<times> test_result \<times> 'd sys + int \<times> u32 \<times> test_result \<times> 'd sys) option" where
  "test_all_round result h ctl phy nb_loop = (\<lambda>(nb_error, cnt, res, s).
     if nb_error \<noteq> 0 then Some (Inl (nb_error, cnt, res, s))
     else do {
       (_, nb_error, res, s) \<leftarrow>
         for_each_opt (test_all_one h ctl phy)
           (take (test_nb - NB_TEST_INFINITE - 1) (test_entries result)) (nb_error, res, s);
       let (fin, cnt, s) = test_loop_end h cnt nb_loop 1 s;
       Some (if fin then Inl (nb_error, cnt, res, s) else Inr (nb_error, cnt, res, s))
     })"

definition test_all :: "u32 \<Rightarrow> 'd test_fun" where
  "test_all result h ctl phy argv s =
     (case get_nb_loop argv 0 1 s of
        (None, s) \<Rightarrow> Some (TEST_ERROR, s)
      | (Some nb_loop, s) \<Rightarrow> do {
          (nb_error, cnt, res, s) \<leftarrow>
            loop (test_all_round result h ctl phy nb_loop) (0, 0, TEST_PASSED, s);
          Some (res,
            if res \<noteq> TEST_PASSED
            then sprintf ''loop %d: %d/%d test failed''
                   [AU32 cnt, AInt nb_error, AInt (int (test_nb - NB_TEST_INFINITE))] s
            else sprintf ''loop %d: %d tests passed''
                   [AU32 cnt, AInt (int (test_nb - NB_TEST_INFINITE))] s)
        })"

definition test_table :: "u32 \<Rightarrow> 'd test_desc list" where
  "test_table result =
     \<lparr>fct = test_all result, name = ''All'', usage = ''[loop]'', help_text = ''Execute all tests'',
      max_args = 1\<rparr> # test_entries result"

lemma test_table_length: "length (test_table result) = test_nb"
  by (simp add: test_table_def test_entries_def test_nb_def)

section \<open>All the tests on a sound board\<close>

text \<open>Sound DDR of at least the default test size (4 KB, and the 128 bytes the assembly loops
  store beyond it), and eight sound words of stack for the noise test.\<close>

locale sound_board =
  ddr: buffer_dram h mem sound_cell decode region STM32_DDR_BASE 1056 +
  stack: buffer_dram h mem sound_cell decode region result 8
  for h :: "'d platform" and mem decode region result
begin

definition passes :: "('d sys \<Rightarrow> (test_result \<times> 'd sys) option) \<Rightarrow> bool" where
  "passes f \<longleftrightarrow> (\<forall>s. \<exists>s'. f s = Some (TEST_PASSED, s'))"

lemma defaults:
  "get_addr [] k s = (Some STM32_DDR_BASE, s)"
  "get_nb_loop [] k nb s = (Some nb, s)"
  "get_pattern [] k p s = (Some p, s)"
  "get_bufsize h [] k (4 * 1024) mn s = Some (Some (4 * 1024), s)"
  by (simp_all add: get_addr_def get_nb_loop_def get_pattern_def get_bufsize_def reg_defs)

lemma words_1024: "buffer_dram h mem sound_cell decode region STM32_DDR_BASE 1024"
  by (rule buffer_dram_le [OF ddr.buffer_dram_axioms]) simp

lemma base_in_region: "STM32_DDR_BASE \<in> region"
  using ddr.in_region [of 0] by simp

lemma size_1024: "4 * of_nat 1024 = (4 * 1024 :: u32)"
  by simp

lemma databus_passes: "passes (test_databus h [])"
proof -
  have "fst (databus h STM32_DDR_BASE s) = 0" for s
    using ddr.databus_spec [OF base_in_region, of s] by (simp add: sound_cell_def)
  then show ?thesis
    unfolding passes_def test_databus_def defaults
    by (simp add: Let_def case_prod_beta)
qed

lemma ddr_holds [simp]: "ddr.holds i v" "stack.holds i v"
  by (simp_all add: ddr.holds_def stack.holds_def sound_cell_def)

lemma ddr_pattern_ok [simp]: "ddr.pattern_ok vs b"
  by (simp add: ddr.pattern_ok_def)

lemma walk_passes: "passes (databuswalk0 h [])" "passes (databuswalk1 h [])"
proof -
  have w: "\<exists>s'. loop (databuswalk_round h pat STM32_DDR_BASE 100) (0, 0, s) \<bind> databuswalk_report =
      Some (TEST_PASSED, s')" for pat s
  proof -
    obtain error cnt s' where
      "loop (databuswalk_round h pat STM32_DDR_BASE 100) (0, 0, s) = Some (error, cnt, s')"
      "ddr.walk_fails pat error"
      using ddr.databuswalk_spec [of 100 pat s] by auto
    then show ?thesis
      using ddr.walk_fails_0 [of pat error] by (simp add: databuswalk_report_def)
  qed
  show "passes (databuswalk0 h [])" "passes (databuswalk1 h [])"
    unfolding passes_def databuswalk0_def databuswalk1_def defaults prod.case option.case
    using w by blast+
qed

lemma addressbus_passes: "passes (test_addressbus h [])"
proof -
  have off: "4 * 2 ^ i = (4 * of_nat (2 ^ i) :: u32)" for i by simp
  have lt: "(2 :: nat) ^ i < 1056" if "i < 10" for i
  proof -
    have "(2 :: nat) ^ i \<le> 2 ^ 10" using that by (intro power_increasing) auto
    then show ?thesis by simp
  qed
  have bus: "bus_dram h mem decode region STM32_DDR_BASE 10"
  proof -
    have "STM32_DDR_BASE + 4 * 2 ^ i \<in> region" if "i < 10" for i
      using ddr.in_region [OF lt [OF that]] by simp
    then show ?thesis
      using ddr.dram_axioms base_in_region by (simp add: bus_dram_def bus_dram_axioms_def)
  qed
  have inj: "i = j" if "i < 10" "j < 10"
    "decode (STM32_DDR_BASE + 4 * 2 ^ i) = decode (STM32_DDR_BASE + 4 * 2 ^ j)" for i j
    using ddr.own_cell [OF lt [OF that(1)] lt [OF that(2)]] that(3) by simp
  have nb: "decode STM32_DDR_BASE \<noteq> decode (STM32_DDR_BASE + 4 * 2 ^ i)" if "i < 10" for i
    using ddr.own_cell [OF _ lt [OF that], of 0] by auto
  have line: "bus_dram.line decode STM32_DDR_BASE = (\<lambda>i. decode (STM32_DDR_BASE + 4 * 2 ^ i))"
    by (rule ext) (simp add: bus_dram.line_def [OF bus])
  have "decode STM32_DDR_BASE \<notin> set (map (bus_dram.line decode STM32_DDR_BASE) [0..<10])"
  proof
    assume "decode STM32_DDR_BASE \<in> set (map (bus_dram.line decode STM32_DDR_BASE) [0..<10])"
    then obtain i where "i < 10" "decode STM32_DDR_BASE = decode (STM32_DDR_BASE + 4 * 2 ^ i)"
      unfolding line by auto
    with nb show False by blast
  qed
  moreover have "inj_on (bus_dram.line decode STM32_DDR_BASE) {0..<10}"
    unfolding line by (rule inj_onI) (rule inj, simp_all)
  ultimately have "distinct (decode STM32_DDR_BASE # map (bus_dram.line decode STM32_DDR_BASE) [0..<10])"
    by (simp add: distinct_map)
  then have "fst (addressbus h STM32_DDR_BASE (4 * 1024) s) = 0" for s
  proof -
    have "STM32_DDR_BASE + 4 * 2 ^ i \<noteq> 0" if "i < 10" for i
      using ddr.no_null [OF lt [OF that]] by simp
    then show ?thesis using bus_dram.addressbus_spec(1) [OF bus, of s] \<open>distinct _\<close> by simp
  qed
  moreover have "is_power_of_2 (4 * 1024)" by code_simp
  ultimately show ?thesis
    unfolding passes_def test_addressbus_def defaults
    by (simp add: Let_def case_prod_beta)
qed

lemma memdevice_passes: "passes (test_memdevice h [])"
proof -
  have "fst (memdevice h STM32_DDR_BASE (4 * of_nat 1024) s) = 0" for s
    using buffer_dram.memdevice_spec(1) [OF words_1024, of s]
    by (simp add: buffer_dram.holds_def [OF words_1024] sound_cell_def)
  then have "fst (memdevice h STM32_DDR_BASE (4 * 1024) s) = 0" for s
    unfolding size_1024 .
  then show ?thesis
    unfolding passes_def test_memdevice_def defaults
    by (simp add: Let_def case_prod_beta)
qed

lemma sso_passes: "passes (test_sso h [])"
proof -
  have "\<exists>s'. loop (sso_round h) (STM32_DDR_BASE, 4 * of_nat 1024, s) = Some (None, s')" for s
  proof -
    obtain r s' where l: "loop (sso_round h) (STM32_DDR_BASE, 4 * of_nat 1024, s) = Some (r, s')"
      and r: "case r of None \<Rightarrow> True
        | Some (data, x) \<Rightarrow> \<exists>i<1024. \<not> buffer_dram.holds sound_cell decode STM32_DDR_BASE i data"
      using buffer_dram.sso_spec [OF words_1024, of s] by (fastforce split: option.splits)
    have "r = None"
      using r by (cases r) (auto simp: buffer_dram.holds_def [OF words_1024] sound_cell_def)
    then show ?thesis using l by simp
  qed
  then have "\<exists>s'. loop (sso_round h) (STM32_DDR_BASE, 4 * 1024, s) = Some (None, s')" for s
    unfolding size_1024 .
  then show ?thesis
    unfolding passes_def
  proof (intro allI)
    fix s
    obtain s' where "loop (sso_round h) (STM32_DDR_BASE, 4 * 1024, s) = Some (None, s')"
      using \<open>\<And>s. \<exists>s'. loop (sso_round h) (STM32_DDR_BASE, 4 * 1024, s) = Some (None, s')\<close> by blast
    then show "\<exists>s'. test_sso h [] s = Some (TEST_PASSED, s')"
      unfolding test_sso_def defaults by simp
  qed
qed

lemma noise_passes: "passes (test_noise result h [])"
proof -
  have "fst (fold (noise_check h result p) [0, 2, 4, 6] (TEST_PASSED, do_noise h STM32_DDR_BASE p result s))
      = TEST_PASSED" for p s
    using stack.noise_spec [OF refl base_in_region, of p s] by (simp add: sound_cell_def)
  then have "\<exists>s'. fold (noise_check h result p) [0, 2, 4, 6]
      (TEST_PASSED, do_noise h STM32_DDR_BASE p result s) = (TEST_PASSED, s')" for p s
    by (metis prod.collapse)
  then show ?thesis
    unfolding passes_def test_noise_def defaults prod.case option.case Let_def by simp
qed

lemma noise_burst_passes: "passes (test_noise_burst h [])"
  unfolding passes_def
proof (intro allI)
  fix s
  obtain s1 where l: "loop (noise_burst_round h 0xFFFFFFFF) (STM32_DDR_BASE, 4 * 1024, CHUNK_SIZE, s) =
      Some (False, s1)"
    and w: "\<forall>j<burst_words (4 * 1024). ddr.word s1 j = ddr.noise_word 0xFFFFFFFF j"
    using ddr.noise_burst_loop [of "4 * 1024" "0xFFFFFFFF" s]
    by (auto simp: CHUNK_SIZE_def burst_words_def)
  have "\<forall>j<2 * 512. ddr.word s1 j = ddr.noise_word 0xFFFFFFFF j"
    using w by (simp add: burst_words_def)
  from ddr.noise_burst_check_spec [OF _ _ this]
  obtain s2 where "for_each (\<lambda>i. noise_burst_check h STM32_DDR_BASE 0xFFFFFFFF (of_nat (i * 8))) [0..<512]
      (TEST_PASSED, s1) = (None, TEST_PASSED, s2)"
    by (auto simp: sound_cell_def)
  moreover have "(unat (4 * 1024 :: u32) + 8 - 1) div 8 = 512" by simp
  ultimately have "for_each (noise_burst_check h STM32_DDR_BASE 0xFFFFFFFF) (count_by 8 (4 * 1024))
      (TEST_PASSED, s1) = (None, TEST_PASSED, s2)"
    by (simp only: for_each_count_by)
  then show "\<exists>s'. test_noise_burst h [] s = Some (TEST_PASSED, s')"
    unfolding test_noise_burst_def
    by (simp only: defaults Option.bind.bind_lunit prod.case option.case l if_False snd_conv) simp
qed

lemma random_passes: "passes (test_random h [])"
  unfolding passes_def
proof (intro allI)
  fix s
  have "\<exists>s'. loop (random_round h STM32_DDR_BASE (4 * of_nat 512) 1) (None, 0, s) =
      Some (Some (None, 1), s')"
    by (rule buffer_dram.random_rounds_spec [OF words_1024]) (simp_all add: sound_cell_def reg_defs)
  then obtain s' where "loop (random_round h STM32_DDR_BASE (4 * of_nat 512) 1) (None, 0, s) =
      Some (Some (None, 1), s')"
    by blast
  moreover have "(4 * 1024 :: u32) div 2 = 4 * of_nat 512" by simp
  ultimately show "\<exists>s'. test_random h [] s = Some (TEST_PASSED, s')"
    unfolding test_random_def
    by (simp only: defaults Option.bind.bind_lunit prod.case option.case Let_def) simp
qed

lemma test_loop_passes: "length vs = 8 \<Longrightarrow>
    \<exists>s'. test_loop h vs STM32_DDR_BASE (4 * 1024) s = Some (TEST_PASSED, s')"
  using ddr.test_loop_spec [of vs "4 * 1024" s] by (simp add: burst_words_def)

lemma freq_pattern_passes: "passes (test_freq_pattern h ctl [])"
  unfolding passes_def
proof (intro allI)
  fix s
  let ?body = "\<lambda>pattern s. do {
                (res, s) \<leftarrow> test_loop h pattern STM32_DDR_BASE (4 * 1024) s;
                Some (if res \<noteq> TEST_PASSED then Some res else None, s) }"
  have run: "(\<forall>vs\<in>set vss. length vs = 8) \<Longrightarrow> \<exists>s'. for_each_opt ?body vss s = Some (None, s')" for vss s
  proof (induction vss arbitrary: s)
    case (Cons vs vss)
    from Cons.prems test_loop_passes [of vs s]
    obtain s1 where "test_loop h vs STM32_DDR_BASE (4 * 1024) s = Some (TEST_PASSED, s1)" by auto
    then show ?case using Cons.IH [of s1] Cons.prems by simp
  qed simp
  have len: "\<forall>vs\<in>set patterns_x16. length vs = 8" "\<forall>vs\<in>set patterns_x32. length vs = 8"
    by (simp_all add: patterns_x16_def patterns_x32_def pattern_div1_x16_def pattern_div2_x16_def
        pattern_div4_x16_def pattern_div4_x32_def pattern_mostly_zero_x16_def
        pattern_mostly_zero_x32_def pattern_mostly_one_x16_def pattern_mostly_one_x32_def)
  obtain v s1 where r: "readl h ctl s = (v, s1)" by fastforce
  let ?c = "(if v AND 0x3000 = 0x1000 \<or> v AND 0x3000 = 0x2000 then 16 else 32 :: int) = 16"
  have "\<forall>vs\<in>set (if ?c then patterns_x16 else patterns_x32). length vs = 8"
    using len by simp
  from run [OF this, of s1]
  obtain s2 where l: "for_each_opt ?body (if ?c then patterns_x16 else patterns_x32) s1 = Some (None, s2)"
    by blast
  have "test_freq_pattern h ctl [] s = Some (TEST_PASSED, s2)"
    unfolding test_freq_pattern_def
    by (simp only: defaults Option.bind.bind_lunit prod.case option.case Let_def r l)
  then show "\<exists>s'. test_freq_pattern h ctl [] s = Some (TEST_PASSED, s')" by blast
qed

lemma pattern_test_passes:
  assumes "\<And>vs. vs \<in> set pats \<Longrightarrow> blocks (4 * 1024) (length vs) * length vs \<le> 1056"
  shows "passes (pattern_test mn pats h [])"
  unfolding passes_def
proof (intro allI)
  fix s
  obtain s' where "loop (pattern_round h pats STM32_DDR_BASE (4 * 1024) 1) (0, s) = Some (TEST_PASSED, 1, s')"
    using ddr.pattern_rounds_spec [OF assms, of pats 1 s] by auto
  then show "\<exists>s'. pattern_test mn pats h [] s = Some (TEST_PASSED, s')"
    unfolding pattern_test_def
    by (simp only: defaults Option.bind.bind_lunit prod.case option.case) simp
qed

lemma size_patterns_pass:
  "passes (test_blockseq h [])" "passes (test_checkboard h [])" "passes (test_bitspread h [])"
  "passes (test_bitflip h [])" "passes (test_walkbit0 h [])" "passes (test_walkbit1 h [])"
  unfolding test_blockseq_def test_checkboard_def test_bitspread_def test_bitflip_def
    test_walkbit0_def test_walkbit1_def
  by (rule pattern_test_passes; auto simp: blocks_def blockseq_patterns_def checkboard_def
      bitspread_patterns_def bitflip_patterns_def Let_def)+

lemma all_entries_pass:
  "t \<in> set (take 16 (test_entries result)) \<Longrightarrow> passes (fct t h ctl phy [])"
  by (auto simp: test_entries_def plain_def databus_passes walk_passes addressbus_passes
      memdevice_passes sso_passes noise_passes noise_burst_passes random_passes
      freq_pattern_passes size_patterns_pass)

lemma all_entries_loop:
  "(\<forall>t\<in>set ts. passes (fct t h ctl phy [])) \<Longrightarrow>
     \<exists>s'. for_each_opt (test_all_one h ctl phy) ts (e, r, s) = Some (None, e, r, s')"
proof (induction ts arbitrary: s)
  case (Cons t ts)
  then have "passes (fct t h ctl phy [])" by simp
  then obtain s1 where "fct t h ctl phy [] s = Some (TEST_PASSED, s1)"
    unfolding passes_def by blast
  then show ?case using Cons.IH [of s1] Cons.prems by (simp add: test_all_one_def)
qed simp

lemma test_all_loop:
  assumes "nb_loop \<noteq> 0"
  shows "\<exists>s'. loop (test_all_round result h ctl phy nb_loop) (0, 0, TEST_PASSED, s) =
    Some (0, nb_loop, TEST_PASSED, s')"
proof -
  define J :: "int \<times> u32 \<times> test_result \<times> 'd sys \<Rightarrow> bool" where
    "J = (\<lambda>(e, cnt, r, s). e = 0 \<and> r = TEST_PASSED \<and> cnt < nb_loop)"
  define m :: "int \<times> u32 \<times> test_result \<times> 'd sys \<Rightarrow> nat" where
    "m = (\<lambda>(e, cnt, r, s). unat nb_loop - unat cnt)"
  define Q :: "int \<times> u32 \<times> test_result \<times> 'd sys \<Rightarrow> bool" where
    "Q = (\<lambda>(e, cnt, r, s). e = 0 \<and> cnt = nb_loop \<and> r = TEST_PASSED)"
  have "(\<exists>r. test_all_round result h ctl phy nb_loop st = Some (Inl r) \<and> Q r) \<or>
      (\<exists>st'. test_all_round result h ctl phy nb_loop st = Some (Inr st') \<and> J st' \<and> m st' < m st)"
    if J: "J st" for st
  proof -
    obtain cnt s where st: "st = (0, cnt, TEST_PASSED, s)" and cnt: "cnt < nb_loop"
      using J by (cases st) (auto simp: J_def)
    obtain s1 where l: "for_each_opt (test_all_one h ctl phy)
        (take (test_nb - NB_TEST_INFINITE - 1) (test_entries result)) (0, TEST_PASSED, s) =
        Some (None, 0, TEST_PASSED, s1)"
      using all_entries_loop [of "take 16 (test_entries result)" ctl phy 0 TEST_PASSED s]
        all_entries_pass [of _ ctl phy] by (auto simp: test_nb_def NB_TEST_INFINITE_def)
    obtain fin cnt' s2 where t: "test_loop_end h cnt nb_loop 1 s1 = (fin, cnt', s2)"
      by (cases "test_loop_end h cnt nb_loop 1 s1")
    then have fin: "fin \<longleftrightarrow> nb_loop \<le> cnt + 1" and cnt': "cnt' = cnt + 1"
      using ddr.test_loop_end_simps(1,2) [of cnt nb_loop 1 s1] assms by simp_all
    have step: "test_all_round result h ctl phy nb_loop st =
        Some (if fin then Inl (0, cnt + 1, TEST_PASSED, s2) else Inr (0, cnt + 1, TEST_PASSED, s2))"
      unfolding test_all_round_def st prod.case l by (simp add: t cnt')
    have "cnt + 1 \<le> nb_loop" using cnt by (rule inc_le)
    then have "fin \<Longrightarrow> cnt + 1 = nb_loop" "\<not> fin \<Longrightarrow> cnt + 1 < nb_loop" using fin by auto
    then show ?thesis
      using step st cnt unat_inc [OF cnt]
      by (cases fin) (auto simp: Q_def J_def m_def word_less_nat_alt)
  qed
  moreover have "J (0, 0, TEST_PASSED, s)" using assms by (simp add: J_def word_neq_0_conv)
  ultimately show ?thesis using loop_total [of J _ _ Q m] by (fastforce simp: Q_def)
qed

end

text \<open>A flat memory, with the local array of the noise test at \<open>0xC8000000\<close>.\<close>

interpretation flat_board: sound_board "cell_ram sound_cell (\<lambda>x. x)" "\<lambda>m. m" "\<lambda>x. x" UNIV
    "0xC8000000"
proof unfold_locales
  fix i j :: nat
  show "1056 \<le> (2 :: nat) ^ 28" "8 \<le> (2 :: nat) ^ 28" by simp_all
  { fix n and b :: u32
    assume i: "i < n" and b: "unat b + 4 * n < 2 ^ 32" "0 < unat b"
    have "unat (b + 4 * of_nat i) = unat b + 4 * i"
    proof -
      have "b + 4 * of_nat i = of_nat (unat b + 4 * i)" by simp
      then show ?thesis using i b by (simp add: unat_of_nat del: of_nat_add of_nat_mult)
    qed
    then have "b + 4 * of_nat i \<noteq> 0" using b by auto }
  note nz = this
  show "i < 1056 \<Longrightarrow> STM32_DDR_BASE + 4 * of_nat i \<noteq> 0"
    using nz [of 1056 STM32_DDR_BASE] by (simp add: reg_defs)
  show "i < 8 \<Longrightarrow> 0xC8000000 + 4 * of_nat i \<noteq> (0 :: u32)"
    using nz [of 8 "0xC8000000"] by simp
  show "i < 1056 \<Longrightarrow> j < 1056 \<Longrightarrow>
      STM32_DDR_BASE + 4 * of_nat i = STM32_DDR_BASE + 4 * of_nat j \<Longrightarrow> i = j"
    by (rule word_offset_inj) simp_all
  show "i < 8 \<Longrightarrow> j < 8 \<Longrightarrow> 0xC8000000 + 4 * of_nat i = (0xC8000000 + 4 * of_nat j :: u32) \<Longrightarrow> i = j"
    by (rule word_offset_inj) simp_all
qed simp_all

text \<open>C24. "Execute all tests" on a board with sound memory returns \<open>TEST_PASSED\<close> after exactly
  the rounds asked for: each of the sixteen tests returns and passes from any state the
  others leave, whatever the controller's register holds.\<close>

theorem test_all_passes:
  assumes "sound_board h mem decode region result"
    and "get_nb_loop argv 0 1 s = (Some nb_loop, s)" "nb_loop \<noteq> 0"
  shows "\<exists>s'. test_all result h ctl phy argv s = Some (TEST_PASSED, s') \<and>
    result_msg s' = Some (Sprintf ''loop %d: %d tests passed'' [AU32 nb_loop, AInt 17])"
proof -
  obtain s' where "loop (test_all_round result h ctl phy nb_loop) (0, 0, TEST_PASSED, s) =
      Some (0, nb_loop, TEST_PASSED, s')"
    using sound_board.test_all_loop [OF assms(1,3)] by blast
  then show ?thesis
    unfolding test_all_def assms(2) by (simp add: sprintf_def test_nb_def NB_TEST_INFINITE_def)
qed

theorem test_all_passes_witness:
  "\<exists>s'. test_all 0xC8000000 (cell_ram sound_cell (\<lambda>x. x)) 0x5A003000 0x5A004000 [] (boot_state (\<lambda>_. 0)) =
     Some (TEST_PASSED, s')"
proof -
  have "get_nb_loop [] 0 1 (boot_state (\<lambda>_. 0)) = (Some 1, boot_state (\<lambda>_. 0))"
    by (simp add: get_nb_loop_def)
  from test_all_passes [OF flat_board.sound_board_axioms this] show ?thesis by auto
qed

end
