(* ===== verification/DdrTuning.thy ===== *)
theory DdrTuning
  imports DdrDeskew DdrTestAll
begin

text \<open>
  The commands of the software tuning (ddr/stm32mp1_tuning.c, last part): the three
  algorithms run with the automatic refresh off and the registers of the controller put
  back afterwards, the display of the lanes' registers, the parameters of the self test, and
  the table of the commands.
\<close>

subsection \<open>Commands\<close>

text \<open>What \<open>do_read_dqs_gating\<close>, \<open>do_bit_deskew\<close> and \<open>do_eye_training\<close> do around their
  algorithm.\<close>

definition refresh_off_while ::
  "'d platform \<Rightarrow> u32 \<Rightarrow> ('d sys \<Rightarrow> (test_result \<times> 'd sys) option) \<Rightarrow> 'd sys \<Rightarrow>
     (test_result \<times> 'd sys) option" where
  "refresh_off_while h ctl algorithm s =
     (let (rfshctl3, s) = readl h (ctl + ctl_rfshctl3) s;
          (pwrctl, s) = readl h (ctl + ctl_pwrctl) s;
          (derateen, s) = readl h (ctl + ctl_derateen) s;
          s = writel h 0 (ctl + ctl_derateen) s
      in do { s \<leftarrow> stm32mp1_refresh_disable h ctl s;
              (res, s) \<leftarrow> algorithm s;
              s \<leftarrow> stm32mp1_refresh_restore h ctl rfshctl3 pwrctl s;
              Some (res, writel h derateen (ctl + ctl_derateen) s) })"

definition do_read_dqs_gating :: "'d test_fun" where
  "do_read_dqs_gating h ctl phy argv s = refresh_off_while h ctl (read_dqs_gating h ctl phy) s"

definition do_bit_deskew :: "'d test_fun" where
  "do_bit_deskew h ctl phy argv s = refresh_off_while h ctl (bit_deskew h ctl phy) s"

definition do_eye_training :: "'d test_fun" where
  "do_eye_training h ctl phy argv s = refresh_off_while h ctl (eye_training h ctl phy) s"

text \<open>The reads of the display; what it prints is not modelled.\<close>

definition display_reg_results :: "'d platform \<Rightarrow> u32 \<Rightarrow> u8 \<Rightarrow> 'd sys \<Rightarrow> 'd sys" where
  "display_reg_results h phy byte s =
     (let s = fold (\<lambda>i s. snd (DQ_unit_index h phy byte (of_nat i) s)) [0..<8] s;
          (_, s) = readl h (DXNDLLCR phy byte) s;
          (_, s) = readl h (DXNDQSTR phy byte) s;
          (_, s) = readl h (DXNDQTR phy byte) s
      in s)"

definition do_display :: "'d test_fun" where
  "do_display h ctl phy argv s =
     (let (nb_bytes, s) = get_nb_bytes h ctl s;
          s = fold (\<lambda>byte. display_reg_results h phy byte) (bytes_upto nb_bytes) s
      in Some (TEST_PASSED, s))"

text \<open>The number of errors is kept in a byte.\<close>

definition do_bist_config :: "'d test_fun" where
  "do_bist_config h ctl phy argv s =
     (let argc = length argv;
          after_seed = (\<lambda>s.
            if argc > 1
            then (case strict_strtoul (argv ! 1) 0 of
                    None \<Rightarrow> Some (TEST_FAILED, sprintf ''invalid Seed %s'' [AStr (argv ! 1)] s)
                  | Some value \<Rightarrow> Some (TEST_PASSED, s\<lparr>bist_seed := value\<rparr>))
            else Some (TEST_PASSED, s))
      in if argc > 0
         then (case strict_strtoul (argv ! 0) 0 of
                 None \<Rightarrow> Some (TEST_FAILED, sprintf ''invalid nbErr %s'' [AStr (argv ! 0)] s)
               | Some value \<Rightarrow> after_seed (s\<lparr>bist_error_max := ucast value\<rparr>))
         else after_seed s)"

definition tuning :: "'d test_desc list" where
  "tuning =
    [\<lparr>fct = do_read_dqs_gating, name = ''Read DQS gating'', usage = ''software read DQS Gating'',
      help_text = '''', max_args = 0\<rparr>,
     \<lparr>fct = do_bit_deskew, name = ''Bit de-skew'', usage = '''', help_text = '''', max_args = 0\<rparr>,
     \<lparr>fct = do_eye_training, name = ''Eye Training'', usage = ''or DQS training'', help_text = '''',
      max_args = 0\<rparr>,
     \<lparr>fct = do_display, name = ''Display registers'', usage = '''', help_text = '''', max_args = 0\<rparr>,
     \<lparr>fct = do_bist_config, name = ''Bist config'', usage = ''[nbErr] [seed]'',
      help_text = ''configure Bist test'', max_args = 2\<rparr>]"

definition tuning_nb :: nat where
  "tuning_nb = length (tuning :: unit test_desc list)"

subsection \<open>The controller is put back\<close>

text \<open>The registers of the controller after a command: as before, but for two flags that the
  update protocol leaves set.\<close>

definition put_back :: "(u32 \<Rightarrow> u32) \<Rightarrow> u32 \<Rightarrow> u32" where
  "put_back r = r(DDRCTRL_BASE + ctl_dfimisc := r (DDRCTRL_BASE + ctl_dfimisc) OR 1,
                  DDRCTRL_BASE + ctl_swctl := r (DDRCTRL_BASE + ctl_swctl) OR 1)"

definition ctl_saved :: "u32 set" where
  "ctl_saved = {DDRCTRL_BASE + ctl_derateen, DDRCTRL_BASE + ctl_rfshctl3, DDRCTRL_BASE + ctl_pwrctl,
     DDRCTRL_BASE + ctl_dfimisc, DDRCTRL_BASE + ctl_swctl}"

lemma ctl_saved_not_phy: "a \<in> ctl_saved \<Longrightarrow> a \<notin> phy_block"
  by (auto simp: ctl_saved_def phy_block_def reg_defs)

lemma ctl_saved_not_lane:
  assumes "b < 4" "a \<in> ctl_saved"
  shows "a \<notin> lane_block b"
  using lane_block_phy [OF assms(1)] ctl_saved_not_phy [OF assms(2)] by blast

context ddr_regs
begin

text \<open>What the algorithm finds: the five registers changed, nothing else.\<close>

definition quiet :: "'d sys \<Rightarrow> 'd sys \<Rightarrow> bool" where
  "quiet s t \<longleftrightarrow> (\<forall>a. a \<notin> ctl_saved \<longrightarrow> R t a = R s a) \<and> bist_error_max t = bist_error_max s"

lemma refresh_off_while_returns:
  assumes alg: "\<And>t. quiet s t \<Longrightarrow> \<exists>t'. algorithm t = Some (res, t') \<and> P t' \<and>
      (\<forall>a. a \<notin> phy_block \<longrightarrow> R t' a = R t a)"
    and P: "\<And>t t'. P t \<Longrightarrow> (\<forall>a. a \<notin> ctl_saved \<longrightarrow> R t' a = R t a) \<Longrightarrow> P t'"
  shows "\<exists>s'. refresh_off_while h DDRCTRL_BASE algorithm s = Some (res, s') \<and> P s' \<and>
    (\<forall>a. a \<notin> phy_block \<longrightarrow> R s' a = put_back (R s) a)"
proof -
  let ?c = "DDRCTRL_BASE"
  let ?rf = "R s (?c + ctl_rfshctl3)" and ?pw = "R s (?c + ctl_pwrctl)" and ?de = "R s (?c + ctl_derateen)"
  have next_state: "\<exists>t'. readl h a t = (R t a, t') \<and> R t' = R t \<and> bist_error_max t' = bist_error_max t"
    if "a \<notin> ddr_status" for a and t :: "'d sys"
    using that by (metis R_readl bus_other_state(1) fst_readl prod.collapse)
  obtain s1 where r1: "readl h (?c + ctl_rfshctl3) s = (?rf, s1)" "R s1 = R s"
    "bist_error_max s1 = bist_error_max s"
    using next_state [OF ctl_not_status(4)] by blast
  obtain s2 where r2: "readl h (?c + ctl_pwrctl) s1 = (?pw, s2)" "R s2 = R s"
    "bist_error_max s2 = bist_error_max s"
    using next_state [OF ctl_not_status(3), of s1] r1 by metis
  obtain s3 where r3: "readl h (?c + ctl_derateen) s2 = (?de, s3)" "R s3 = R s"
    "bist_error_max s3 = bist_error_max s"
    using next_state [OF ctl_not_status(2), of s2] r2 by metis
  note rd = r1(1) r2(1) r3(1)
  define s4 where "s4 = writel h 0 (?c + ctl_derateen) s3"
  have R4: "R s4 = (R s)(?c + ctl_derateen := 0)" "bist_error_max s4 = bist_error_max s"
    by (simp_all add: s4_def r3)
  obtain s5 where s5: "stm32mp1_refresh_disable h ?c s4 = Some s5"
    "R s5 = (R s4)(?c + ctl_rfshctl3 := R s4 (?c + ctl_rfshctl3) OR 1,
                  ?c + ctl_pwrctl := R s4 (?c + ctl_pwrctl) AND NOT (2 OR 1),
                  ?c + ctl_dfimisc := R s4 (?c + ctl_dfimisc) AND NOT 1,
                  ?c + ctl_swctl := R s4 (?c + ctl_swctl) OR 1)"
    "bist_error_max s5 = bist_error_max s4"
    using refresh_disable_returns by blast
  have "quiet s s5" using s5(2,3) R4 by (simp add: quiet_def ctl_saved_def)
  then obtain s6 where s6: "algorithm s5 = Some (res, s6)" "P s6"
    "\<And>a. a \<notin> phy_block \<Longrightarrow> R s6 a = R s5 a"
    using alg by blast
  obtain s7 where s7: "stm32mp1_refresh_restore h ?c ?rf ?pw s6 = Some s7"
     "R s7 = (R s6)(?c + ctl_rfshctl3 :=
                    (if ?rf AND 1 = 0 then R s6 (?c + ctl_rfshctl3) AND NOT 1 else R s6 (?c + ctl_rfshctl3)),
                  ?c + ctl_pwrctl := (R s6 (?c + ctl_pwrctl) OR (?pw AND 2)) OR (?pw AND 1),
                  ?c + ctl_dfimisc := R s6 (?c + ctl_dfimisc) OR 1,
                  ?c + ctl_swctl := R s6 (?c + ctl_swctl) OR 1)"
    using refresh_restore_returns by blast
  define s8 where "s8 = writel h ?de (?c + ctl_derateen) s7"
  have ret: "refresh_off_while h ?c algorithm s = Some (res, s8)"
    unfolding refresh_off_while_def rd Let_def prod.case s4_def [symmetric] s5(1) Option.bind.bind_lunit s6(1) s7(1)
    by (simp add: s8_def)
  have R8: "R s8 = (R s7)(?c + ctl_derateen := ?de)" by (simp add: s8_def)
  have off: "R s8 a = R s6 a" if "a \<notin> ctl_saved" for a
    using that R8 s7(2) by (simp add: ctl_saved_def)
  have np: "?c + ctl_derateen \<notin> phy_block" "?c + ctl_rfshctl3 \<notin> phy_block" "?c + ctl_pwrctl \<notin> phy_block"
    "?c + ctl_dfimisc \<notin> phy_block" "?c + ctl_swctl \<notin> phy_block"
    by (auto intro!: ctl_saved_not_phy simp: ctl_saved_def)
  have ne: "ctl_swctl \<noteq> ctl_rfshctl3" "ctl_swctl \<noteq> ctl_pwrctl" "ctl_swctl \<noteq> ctl_dfimisc" "ctl_swctl \<noteq> ctl_derateen"
    "ctl_rfshctl3 \<noteq> ctl_pwrctl" "ctl_rfshctl3 \<noteq> ctl_dfimisc" "ctl_rfshctl3 \<noteq> ctl_derateen"
    "ctl_pwrctl \<noteq> ctl_dfimisc" "ctl_pwrctl \<noteq> ctl_derateen" "ctl_dfimisc \<noteq> ctl_derateen"
    by (simp_all add: reg_defs)
  note ne2 = ne ne [symmetric]
  have r5: "R s5 (?c + ctl_rfshctl3) = ?rf OR 1" "R s5 (?c + ctl_pwrctl) = ?pw AND NOT (2 OR 1)"
    "R s5 (?c + ctl_dfimisc) = R s (?c + ctl_dfimisc) AND NOT 1" "R s5 (?c + ctl_swctl) = R s (?c + ctl_swctl) OR 1"
    using s5(2) R4(1) ne2 by (simp_all del: and_numerals or_numerals)
  have b: "R s8 (?c + ctl_derateen) = ?de" using R8 by simp
  have c: "R s8 (?c + ctl_rfshctl3) = ?rf"
  proof -
    have "R s8 (?c + ctl_rfshctl3) =
        (if ?rf AND 1 = 0 then R s6 (?c + ctl_rfshctl3) AND NOT 1 else R s6 (?c + ctl_rfshctl3))"
      using R8 s7(2) ne2 by (simp split del: if_split)
    then show ?thesis unfolding s6(3) [OF np(2)] r5(1) by (simp only: put_back_set [OF single_bits(1)])
  qed
  have d: "R s8 (?c + ctl_pwrctl) = ?pw"
    using R8 s7(2) s6(3) [OF np(3)] r5(2) ne2 put_back_clear [of ?pw 2 1]
    by (simp del: and_numerals or_numerals and_one_eq)
  have e: "R s8 (?c + ctl_dfimisc) = R s (?c + ctl_dfimisc) OR 1"
  proof -
    have "(x AND NOT 1) OR 1 = x OR 1" for x :: u32 by (rule bit_word_eqI) (auto simp: bit_simps)
    then show ?thesis using R8 s7(2) s6(3) [OF np(4)] r5(3) ne2 by simp
  qed
  have f: "R s8 (?c + ctl_swctl) = R s (?c + ctl_swctl) OR 1"
    using R8 s7(2) s6(3) [OF np(5)] r5(4) ne2 by (simp add: or.assoc)
  have "R s8 a = put_back (R s) a" if "a \<notin> phy_block" for a
  proof (cases "a \<in> ctl_saved")
    case True
    then show ?thesis using b c d e f ne2 by (auto simp: ctl_saved_def put_back_def)
  next
    case False
    then have "R s5 a = R s a" using \<open>quiet s s5\<close> by (simp add: quiet_def)
    then show ?thesis using off [OF False] s6(3) [OF that] False by (simp add: put_back_def ctl_saved_def)
  qed
  then show ?thesis using ret P [OF s6(2) ] off by blast
qed

lemma quiet_facts:
  assumes "quiet s t"
  shows "b < 4 \<Longrightarrow> lane_regs t b = lane_regs s b"
    "fst (get_nb_bytes h DDRCTRL_BASE t) = fst (get_nb_bytes h DDRCTRL_BASE s)"
proof -
  have q: "a \<notin> ctl_saved \<Longrightarrow> R t a = R s a" for a using assms by (simp add: quiet_def)
  show "lane_regs t b = lane_regs s b" if b: "b < 4"
    unfolding lane_regs_def using q ctl_saved_not_phy phy_block_lane [OF b] by (metis prod.inject)
  have "DDRCTRL_BASE + ctl_mstr \<notin> ctl_saved" by (simp add: ctl_saved_def reg_defs)
  then show "fst (get_nb_bytes h DDRCTRL_BASE t) = fst (get_nb_bytes h DDRCTRL_BASE s)"
    using q by (simp add: get_nb_bytes_def Let_def split_def)
qed

lemma lane_regs_off_ctl:
  "\<forall>a. a \<notin> ctl_saved \<longrightarrow> R t' a = R t a \<Longrightarrow> b < 4 \<Longrightarrow> lane_regs t' b = lane_regs t b"
  unfolding lane_regs_def using ctl_saved_not_phy phy_block_lane by (metis prod.inject)

lemma nb_lt_4: "b < fst (get_nb_bytes h ctl s) \<Longrightarrow> b < 4"
  using nb_bytes_cases [of ctl s] by (auto simp: word_less_nat_alt)

end

context bist_phy
begin

lemma eye_command_returns:
  assumes max: "0 < bist_error_max s"
    and start: "\<And>b. b < fst (get_nb_bytes h DDRCTRL_BASE s) \<Longrightarrow> eye_start (lane_verdict s b) \<noteq> None"
  shows "\<exists>s'. do_eye_training h DDRCTRL_BASE DDRPHYC_BASE argv s = Some (TEST_PASSED, s') \<and>
    (\<forall>b<fst (get_nb_bytes h DDRCTRL_BASE s). trained s b (lane_regs s' b)) \<and>
    (\<forall>a. a \<notin> phy_block \<longrightarrow> R s' a = put_back (R s) a)"
  unfolding do_eye_training_def
proof (rule refresh_off_while_returns)
  fix t assume q: "quiet s t"
  have lr: "lane_regs t b = lane_regs s b" if "b < fst (get_nb_bytes h DDRCTRL_BASE s)" for b
    using quiet_facts(1) [OF q] nb_lt_4 that by blast
  then have v: "lane_verdict t b = lane_verdict s b" if "b < fst (get_nb_bytes h DDRCTRL_BASE s)" for b
    using that by (simp add: lane_verdict_def fun_eq_iff)
  have nb: "fst (get_nb_bytes h DDRCTRL_BASE t) = fst (get_nb_bytes h DDRCTRL_BASE s)"
    by (rule quiet_facts(2) [OF q])
  have "trained t b = trained s b" if "b < fst (get_nb_bytes h DDRCTRL_BASE s)" for b
    by (rule ext) (simp only: trained_def v [OF that] lr [OF that])
  then show "\<exists>t'. eye_training h DDRCTRL_BASE DDRPHYC_BASE t = Some (TEST_PASSED, t') \<and>
      (\<forall>b<fst (get_nb_bytes h DDRCTRL_BASE s). trained s b (lane_regs t' b)) \<and>
      (\<forall>a. a \<notin> phy_block \<longrightarrow> R t' a = R t a)"
    using eye_training_returns [of t] max q start v nb by (auto simp: quiet_def)
qed (use lane_regs_off_ctl nb_lt_4 in metis)

lemma deskew_command_returns:
  assumes max: "0 < bist_error_max s"
    and start: "\<And>b. b < fst (get_nb_bytes h DDRCTRL_BASE s) \<Longrightarrow>
        deskew_start (reset_verdict s b 0xAAAAAAAA) \<noteq> None"
  shows "\<exists>s'. do_bit_deskew h DDRCTRL_BASE DDRPHYC_BASE argv s = Some (TEST_PASSED, s') \<and>
    (\<forall>b<fst (get_nb_bytes h DDRCTRL_BASE s). deskewed_lane s b (lane_regs s' b)) \<and>
    (\<forall>a. a \<notin> phy_block \<longrightarrow> R s' a = put_back (R s) a)"
  unfolding do_bit_deskew_def
proof (rule refresh_off_while_returns)
  fix t assume q: "quiet s t"
  have lr: "lane_regs t b = lane_regs s b" if "b < fst (get_nb_bytes h DDRCTRL_BASE s)" for b
    using quiet_facts(1) [OF q] nb_lt_4 that by blast
  then have v: "reset_verdict t b = reset_verdict s b" if "b < fst (get_nb_bytes h DDRCTRL_BASE s)" for b
    using that by (simp add: reset_verdict_def fun_eq_iff)
  have nb: "fst (get_nb_bytes h DDRCTRL_BASE t) = fst (get_nb_bytes h DDRCTRL_BASE s)"
    by (rule quiet_facts(2) [OF q])
  have "deskewed_lane t b = deskewed_lane s b" if "b < fst (get_nb_bytes h DDRCTRL_BASE s)" for b
    by (rule ext) (simp only: deskewed_lane_def v [OF that] lr [OF that])
  then show "\<exists>t'. bit_deskew h DDRCTRL_BASE DDRPHYC_BASE t = Some (TEST_PASSED, t') \<and>
      (\<forall>b<fst (get_nb_bytes h DDRCTRL_BASE s). deskewed_lane s b (lane_regs t' b)) \<and>
      (\<forall>a. a \<notin> phy_block \<longrightarrow> R t' a = R t a)"
    using bit_deskew_returns [of t] max q start v nb by (auto simp: quiet_def)
qed (use lane_regs_off_ctl nb_lt_4 in metis)

lemma gating_command_returns:
  assumes max: "0 < bist_error_max s"
    and windows: "\<And>b. b < fst (get_nb_bytes h DDRCTRL_BASE s) \<Longrightarrow> gate_window (gate_passes s b) (L b) (Rt b)"
  shows "\<exists>s'. do_read_dqs_gating h DDRCTRL_BASE DDRPHYC_BASE argv s = Some (TEST_PASSED, s') \<and>
    (\<forall>b<fst (get_nb_bytes h DDRCTRL_BASE s). \<exists>g. good_gate (gate_passes s b) (L b) (Rt b) g \<and>
       lane_regs s' b = (case lane_regs s b of (d, q, x) \<Rightarrow> (d, q, gate_fields g x))) \<and>
    (\<forall>a. a \<notin> phy_block \<longrightarrow> R s' a = put_back (R s) a)"
  unfolding do_read_dqs_gating_def
proof (rule refresh_off_while_returns)
  fix t assume q: "quiet s t"
  have lr: "lane_regs t b = lane_regs s b" if "b < fst (get_nb_bytes h DDRCTRL_BASE s)" for b
    using quiet_facts(1) [OF q] nb_lt_4 that by blast
  then have v: "gate_passes t b = gate_passes s b" if "b < fst (get_nb_bytes h DDRCTRL_BASE s)" for b
    using that by (simp add: gate_passes_def fun_eq_iff)
  have nb: "fst (get_nb_bytes h DDRCTRL_BASE t) = fst (get_nb_bytes h DDRCTRL_BASE s)"
    by (rule quiet_facts(2) [OF q])
  obtain t' where t': "read_dqs_gating h DDRCTRL_BASE DDRPHYC_BASE t = Some (TEST_PASSED, t')"
    "\<forall>b<fst (get_nb_bytes h DDRCTRL_BASE t). \<exists>g. good_gate (gate_passes t b) (L b) (Rt b) g \<and>
       lane_regs t' b = (case lane_regs t b of (d, q, x) \<Rightarrow> (d, q, gate_fields g x))"
    "\<forall>a. a \<notin> phy_block \<longrightarrow> R t' a = R t a"
    using read_dqs_gating_returns [of t L Rt] max q windows v nb by (auto simp: quiet_def)
  then show "\<exists>t'. read_dqs_gating h DDRCTRL_BASE DDRPHYC_BASE t = Some (TEST_PASSED, t') \<and>
      (\<forall>b<fst (get_nb_bytes h DDRCTRL_BASE s). \<exists>g. good_gate (gate_passes s b) (L b) (Rt b) g \<and>
         lane_regs t' b = (case lane_regs s b of (d, q, x) \<Rightarrow> (d, q, gate_fields g x))) \<and>
      (\<forall>a. a \<notin> phy_block \<longrightarrow> R t' a = R t a)"
    using v lr nb by metis
next
  fix t t' :: "'d sys"
  assume P: "\<forall>b<fst (get_nb_bytes h DDRCTRL_BASE s). \<exists>g. good_gate (gate_passes s b) (L b) (Rt b) g \<and>
       lane_regs t b = (case lane_regs s b of (d, q, x) \<Rightarrow> (d, q, gate_fields g x))"
    and off: "\<forall>a. a \<notin> ctl_saved \<longrightarrow> R t' a = R t a"
  have "lane_regs t' b = lane_regs t b" if "b < fst (get_nb_bytes h DDRCTRL_BASE s)" for b
    using lane_regs_off_ctl [OF off] nb_lt_4 that by blast
  then show "\<forall>b<fst (get_nb_bytes h DDRCTRL_BASE s). \<exists>g. good_gate (gate_passes s b) (L b) (Rt b) g \<and>
       lane_regs t' b = (case lane_regs s b of (d, q, x) \<Rightarrow> (d, q, gate_fields g x))"
    using P by simp
qed

end

end
