(* ===== verification/DdrTuningResults.thy ===== *)
theory DdrTuningResults
  imports DdrTuning
begin

text \<open>
  What the software tuning achieves, stated of the commands and their registers. The hardware is
  any device with \<open>bist_phy h regs lag eye\<close> (DdrLaneContract): \<open>regs\<close> is its register file, and
  \<open>eye b d q x\<close> says whether lane \<open>b\<close> works with DXNDLLCR, DXNDQTR and DXNDQSTR at \<open>d\<close>,
  \<open>q\<close>, \<open>x\<close>.
\<close>

subsection \<open>Settings of a lane\<close>

definition lane_settings :: "('d \<Rightarrow> u32 \<Rightarrow> u32) \<Rightarrow> 'd sys \<Rightarrow> u8 \<Rightarrow> u32 \<times> u32 \<times> u32" where
  "lane_settings regs s b =
     (regs (dev s) (DXNDLLCR DDRPHYC_BASE b), regs (dev s) (DXNDQTR DDRPHYC_BASE b),
      regs (dev s) (DXNDQSTR DDRPHYC_BASE b))"

definition dqs_set :: "nat \<Rightarrow> nat \<Rightarrow> u32 \<times> u32 \<times> u32 \<Rightarrow> u32 \<times> u32 \<times> u32" where
  "dqs_set p u = (\<lambda>(d, q, x). (phase_field p d, q, unit_fields u x))"

definition gate_set :: "u8 \<times> u8 \<Rightarrow> u32 \<times> u32 \<times> u32 \<Rightarrow> u32 \<times> u32 \<times> u32" where
  "gate_set g = (\<lambda>(d, q, x). (d, q, gate_fields g x))"

text \<open>The settings of the de-skew: the DLL kept in reset, all data delays at \<open>q\<close>.\<close>

definition deskew_set :: "u32 \<Rightarrow> nat \<Rightarrow> nat \<Rightarrow> u32 \<times> u32 \<times> u32 \<Rightarrow> u32 \<times> u32 \<times> u32" where
  "deskew_set q p u = (\<lambda>(d, _, x). (phase_field p (d OR DDRPHYC_DXNDLLCR_DLLSRST), q, unit_fields u x))"

definition works :: "(u8 \<Rightarrow> u32 \<Rightarrow> u32 \<Rightarrow> u32 \<Rightarrow> bool) \<Rightarrow> u8 \<Rightarrow> u32 \<times> u32 \<times> u32 \<Rightarrow> bool" where
  "works eye b = (\<lambda>(d, q, x). eye b d q x)"

definition nb_lanes :: "'d platform \<Rightarrow> 'd sys \<Rightarrow> u8" where
  "nb_lanes h s = fst (get_nb_bytes h DDRCTRL_BASE s)"

context bist_phy
begin

lemma lane_terms:
  "lane_regs = lane_settings regs"
  "lane_verdict s b = (\<lambda>p u. works eye b (dqs_set p u (lane_settings regs s b)))"
  "gate_passes s b = (\<lambda>g. works eye b (gate_set g (lane_settings regs s b)))"
  "reset_verdict s b = (\<lambda>q p u. works eye b (deskew_set q p u (lane_settings regs s b)))"
proof -
  show lr: "lane_regs = lane_settings regs"
    by (intro ext) (simp add: lane_regs_def lane_settings_def R_def)
  show "lane_verdict s b = (\<lambda>p u. works eye b (dqs_set p u (lane_settings regs s b)))"
    "gate_passes s b = (\<lambda>g. works eye b (gate_set g (lane_settings regs s b)))"
    "reset_verdict s b = (\<lambda>q p u. works eye b (deskew_set q p u (lane_settings regs s b)))"
    by (intro ext; simp add: lane_verdict_def gate_passes_def reset_verdict_def lr works_def dqs_set_def
        gate_set_def deskew_set_def split_def)+
qed

lemma trained_terms:
  "trained s b l \<longleftrightarrow> (\<exists>p0. eye_start (lane_verdict s b) = Some p0 \<and>
     l = dqs_set (fst (eye_result (lane_verdict s b) p0)) (snd (eye_result (lane_verdict s b) p0))
           (lane_settings regs s b))"
  by (simp add: trained_def lane_terms(1) dqs_set_def split_def Let_def)

end

lemma eye_result_bounds:
  assumes "eye_start v = Some p0"
  shows "fst (eye_result v p0) < 7" "snd (eye_result v p0) < 8"
proof -
  have p0: "p0 \<le> 3" using eye_start_Some [OF assms] by simp
  have "run_down (\<lambda>p. v p 3) p0 \<le> 6" using run_down_le [of "\<lambda>p. v p 3" p0] p0 by simp
  moreover have "run_up (\<lambda>p. v p 3) p0 (6 - p0) \<le> 6"
    using run_up_le [of "\<lambda>p. v p 3" p0 "6 - p0"] p0 by simp
  moreover have "run_down (v k) 3 \<le> 7" "run_up (v k) 3 4 \<le> 7" for k
    using run_down_le [of "v k" 3] run_up_le [of "v k" 3 4] by simp_all
  ultimately show "fst (eye_result v p0) < 7" "snd (eye_result v p0) < 8"
    unfolding eye_result_def Let_def by (rule eye_centre_le; assumption)+
qed

lemma eye_start_None: "eye_start v = None \<longleftrightarrow> (\<forall>p\<le>3. \<not> v p 3)"
  by (auto simp: eye_start_def first_below_None le_less)

lemma bit_choice_edge:
  assumes "ok 3" "0 < bit_choice ok"
  shows "\<not> ok (bit_choice ok - 1)"
proof (cases "find (\<lambda>d. \<not> ok d) (rev [0..<4])")
  case None
  then show ?thesis using assms(2) by (simp add: bit_choice_def)
next
  case (Some k)
  have "k < 4" "\<not> ok k" using find_rev_upt [OF Some] by simp_all
  moreover from this have "k \<noteq> 3" using assms(1) by auto
  ultimately have "bit_choice ok = k + 1" using Some by (simp add: bit_choice_def)
  then show ?thesis using \<open>\<not> ok k\<close> by simp
qed

text \<open>A board for the witnesses: the place of a lane in phases and units, read back from its
  registers.\<close>

definition place_of_lane :: "u32 \<Rightarrow> u32 \<Rightarrow> nat" where
  "place_of_lane d x =
     (case find (\<lambda>p. dx_dll_phase ! p = ucast (drop_bit 14 d AND 0xF)) [0..<7] of
        None \<Rightarrow> 99 | Some p \<Rightarrow> 8 * p + unat (drop_bit 20 x AND 7))"

definition range_board :: "nat \<Rightarrow> nat \<Rightarrow> (u32 \<Rightarrow> u32) platform" where
  "range_board lo hi = tuning_board (\<lambda>b d q x. lo \<le> place_of_lane d x \<and> place_of_lane d x \<le> hi)"

definition board_state :: "(u32 \<Rightarrow> u32) sys" where
  "board_state = \<lparr>dev = \<lambda>_. 0, rand_y = 1, bist_error_max = 1, bist_seed = 0, result_msg = None\<rparr>"

lemma place_table: "list_all (\<lambda>p. list_all (\<lambda>u. place_of_lane (phase_field p 0) (unit_fields u 0) = 8 * p + u) [0..<8]) [0..<7]"
  by code_simp

lemma board_works:
  assumes "p < 7" "u < 8"
  shows "works (\<lambda>b d q x. lo \<le> place_of_lane d x \<and> place_of_lane d x \<le> hi) b
      (dqs_set p u (lane_settings (\<lambda>r. r) board_state b)) \<longleftrightarrow> lo \<le> 8 * p + u \<and> 8 * p + u \<le> hi"
  using place_table assms
  by (simp add: works_def dqs_set_def lane_settings_def board_state_def list_all_iff)

subsection \<open>Eye training\<close>


text \<open>C34. The fallback of the eye training. On lanes that work with any unit exactly up to a phase
  below the nominal one, no unit bound is ever found: \<open>do_eye_training\<close> returns TEST_PASSED
  and leaves each lane at the nominal setting, at which it does not work.\<close>

theorem eye_training_can_break_lanes:
  assumes hw: "bist_phy h regs lag eye"
    and max: "0 < bist_error_max s"
    and eyes: "\<And>b. b < nb_lanes h s \<Longrightarrow> k b < 3 \<and>
        phase_eye (k b) (\<lambda>p u. works eye b (dqs_set p u (lane_settings regs s b)))"
  shows "\<exists>s'. do_eye_training h DDRCTRL_BASE DDRPHYC_BASE argv s = Some (TEST_PASSED, s') \<and>
    (\<forall>b<nb_lanes h s. lane_settings regs s' b = dqs_set 3 3 (lane_settings regs s b) \<and>
       \<not> works eye b (lane_settings regs s' b))"
proof -
  let ?v = "\<lambda>b p u. works eye b (dqs_set p u (lane_settings regs s b))"
  note terms = bist_phy.lane_terms [OF hw]
  have res: "eye_start (?v b) = Some (k b)" "eye_result (?v b) (k b) = (3, 3)" "\<not> ?v b 3 3"
    if "b < nb_lanes h s" for b
    using eye_result_phase_eye [of "k b" "?v b"] eyes [OF that] by simp_all
  obtain s' where run: "do_eye_training h DDRCTRL_BASE DDRPHYC_BASE argv s = Some (TEST_PASSED, s')"
    and tr: "\<And>b. b < nb_lanes h s \<Longrightarrow> bist_phy.trained regs eye s b (lane_settings regs s' b)"
    using bist_phy.eye_command_returns [OF hw max, of argv] res(1)
    by (auto simp: terms nb_lanes_def)
  have "lane_settings regs s' b = dqs_set 3 3 (lane_settings regs s b)" if "b < nb_lanes h s" for b
    using tr [OF that] res [OF that] by (simp add: bist_phy.trained_terms [OF hw] terms)
  then show ?thesis using run res(3) by auto
qed

text \<open>The search for a first passing phase is not bounded below: on a lane that passes at
  unit 3 of no phase up to the nominal one, \<open>eye_byte\<close> has no result; the loop asks for the
  phase before the first, outside \<open>dx_dll_phase\<close>.\<close>

theorem eye_search_leaves_table:
  assumes hw: "bist_phy h regs lag eye" and b: "b < 4"
    and ready: "regs (dev s) (DDRPHYC_BASE + phy_bistwcr) = 0x200" "0 < bist_error_max s"
    and dead: "\<And>p. p \<le> 3 \<Longrightarrow> \<not> works eye b (dqs_set p 3 (lane_settings regs s b))"
  shows "eye_byte h DDRPHYC_BASE nb_bytes b (error, s) = None"
proof -
  note terms = bist_phy.lane_terms [OF hw]
  have none: "eye_start (bist_phy.lane_verdict regs eye s b) = None"
    using dead by (simp add: eye_start_None terms)
  have "ddr_regs.R regs s (DDRPHYC_BASE + phy_bistwcr) = 0x200"
    using ready by (simp add: ddr_regs.R_def [OF bist_phy.axioms(1) [OF hw]])
  from bist_lane.eye_byte_run [OF bist_phy.lane_of [OF hw b] this ready(2), of nb_bytes error] none
  show ?thesis by simp
qed


theorem eye_training_can_break_lanes_witness:
  "\<exists>s'. do_eye_training (range_board 0 23) DDRCTRL_BASE DDRPHYC_BASE [] board_state = Some (TEST_PASSED, s') \<and>
    (\<forall>b<nb_lanes (range_board 0 23) board_state.
       lane_settings (\<lambda>r. r) s' b = dqs_set 3 3 (lane_settings (\<lambda>r. r) board_state b) \<and>
       \<not> works (\<lambda>b d q x. 0 \<le> place_of_lane d x \<and> place_of_lane d x \<le> 23) b (lane_settings (\<lambda>r. r) s' b))"
proof -
  have "8 * p + u \<le> 23 \<longleftrightarrow> p \<le> 2" if "u < 8" for p u :: nat using that by auto
  note * = this
  have "phase_eye 2 (\<lambda>p u. works (\<lambda>b d q x. 0 \<le> place_of_lane d x \<and> place_of_lane d x \<le> 23) b
      (dqs_set p u (lane_settings (\<lambda>r. r) board_state b)))" for b
    unfolding phase_eye_def by (intro allI impI, subst board_works) (simp_all add: *)
  moreover have "(2 :: nat) < 3" "0 < bist_error_max board_state" by (simp_all add: board_state_def)
  ultimately show ?thesis
    unfolding range_board_def
    by (intro eye_training_can_break_lanes [OF board.bist_phy_axioms, where k = "\<lambda>_. 2"]) simp_all
qed

theorem eye_search_leaves_table_witness:
  "eye_byte (range_board 32 55) DDRPHYC_BASE 4 1 (0, board_state\<lparr>dev := (\<lambda>_. 0)(DDRPHYC_BASE + phy_bistwcr := 0x200)\<rparr>) = None"
proof -
  let ?s = "board_state\<lparr>dev := (\<lambda>_. 0)(DDRPHYC_BASE + phy_bistwcr := 0x200)\<rparr>"
  have "lane_settings (\<lambda>r. r) ?s 1 = lane_settings (\<lambda>r. r) board_state 1"
    using lane_not_wcr [of 1] by (simp add: lane_settings_def board_state_def)
  then have "\<not> works (\<lambda>b d q x. 32 \<le> place_of_lane d x \<and> place_of_lane d x \<le> 55) 1
      (dqs_set p 3 (lane_settings (\<lambda>r. r) ?s 1))" if "p \<le> 3" for p
    using that by (simp add: board_works)
  then show ?thesis
    unfolding range_board_def
    by (intro eye_search_leaves_table [OF board.bist_phy_axioms]) (simp_all add: board_state_def)
qed

subsection \<open>Bit de-skew\<close>


text \<open>The stop flag of the bit de-skew is sticky. It is declared once before the loop over the
  lanes and never cleared: from a lane with no passing setting on, each remaining lane is
  counted as an error whatever its tests say, unless a key ends the run.\<close>

theorem deskew_stop_is_sticky:
  "case for_each_opt (deskew_byte h phy nb) bytes ((True, e), s) of
     None \<Rightarrow> True
   | Some (r, (stop, e'), s') \<Rightarrow>
       r = Some TEST_FAILED \<or> (r = None \<and> stop \<and> e' = e + of_nat (length bytes))"
proof (induction bytes arbitrary: e s)
  case (Cons b bytes)
  show ?case
  proof (cases "deskew_byte h phy nb b ((True, e), s)")
    case (Some x)
    obtain r1 fe1 s1 where x: "x = (r1, fe1, s1)" by (cases x) auto
    from deskew_byte_forced [OF Some [unfolded x]] Cons.IH [of "e + 1" s1] show ?thesis
      using Some x by (auto simp: add.assoc split: option.splits)
  qed simp
qed simp

text \<open>A board whose lanes bear more DQS delay with more delay on the first data bit.\<close>

definition skew_eye :: "u8 \<Rightarrow> u32 \<Rightarrow> u32 \<Rightarrow> u32 \<Rightarrow> bool" where
  "skew_eye b d q x \<longleftrightarrow> place_of_lane d x \<le> 37 + unat (q AND 3)"


subsection \<open>Read DQS gating\<close>


text \<open>A gate window that is open to the right: positions \<open>L\<close> to 23 of the log pass, the
  first ones fail. The right bound then stays (0, 0), and the midpoint lies before the window,
  at a position that failed.\<close>

theorem open_gate_window_missed:
  assumes "window_log log L 23" "0 < L" "L < 24"
  shows "\<exists>g. gating_midpoint (gating_scan log) = Some g \<and> place_of g < L"
  using gating_scan_window [OF assms(1), of ] open_midpoint_window [OF assms(2,3)] assms(2,3)
  by (simp add: open_midpoint_low_def split: option.splits del: split_paired_Ex)

definition gate_eye :: "u8 \<Rightarrow> u32 \<Rightarrow> u32 \<Rightarrow> u32 \<Rightarrow> bool" where
  "gate_eye b d q x \<longleftrightarrow> (let k = 4 * unat (x AND 7) + unat (drop_bit 12 x AND 3) in 5 \<le> k \<and> k \<le> 11)"

lemma gate_eye_table:
  "list_all (\<lambda>k. gate_eye 0 0 0 (gate_fields (gate_of k) 0) \<longleftrightarrow> 5 \<le> k \<and> k \<le> 11) [0..<24]"
  by code_simp


theorem open_gate_window_missed_witness:
  "let log = [[0, 0, 0, 0], [0, 0, 0, 0], [0, 0, 1, 1], [1, 1, 1, 1], [1, 1, 1, 1], [1, 1, 1, 1]]
   in \<exists>g. gating_midpoint (gating_scan log) = Some g \<and> place_of g < 10"
proof -
  have "list_all (\<lambda>k. [[0 :: u8, 0, 0, 0], [0, 0, 0, 0], [0, 0, 1, 1], [1, 1, 1, 1], [1, 1, 1, 1], [1, 1, 1, 1]]
      ! (k div 4) ! (k mod 4) = (if 10 \<le> k \<and> k \<le> 23 then 1 else 0)) [0..<24]"
    by code_simp
  then have "window_log [[0, 0, 0, 0], [0, 0, 0, 0], [0, 0, 1, 1], [1, 1, 1, 1], [1, 1, 1, 1], [1, 1, 1, 1]] 10 23"
    unfolding window_log_def list_all_iff by auto
  from open_gate_window_missed [OF this] show ?thesis unfolding Let_def by simp
qed

subsection \<open>The self test, delays and handshakes\<close>

text \<open>The verdict of the self test. Whenever 1000 runs in a row would return, with the results
  \<open>rs\<close>, \<open>BIST_test\<close> returns after at most that many, and its verdict is whether fewer of the
  1000 than \<open>BIST_error_max\<close> fail; stopping early never changes it. With the maximum 0, which
  \<open>do_bist_config\<close> accepts, it fails whatever the results.\<close>

theorem BIST_test_verdict:
  assumes "bist_runs h phy 1000 s = Some (rs, t)"
  shows "\<exists>k s'. 0 < k \<and> k \<le> 1000 \<and> bist_runs h phy k s = Some (take k rs, s') \<and>
    BIST_test h phy byte s = Some (failures rs < unat (bist_error_max s), s') \<and>
    (bist_error_max s = 0 \<longrightarrow> BIST_test h phy byte s = Some (False, s'))"
  using BIST_test_counts [OF assms, of byte] by fastforce

text \<open>Round trip of the data delays. The delay \<open>d\<close> of at most 3 that
  \<open>set_DQ_unit_delay\<close> writes for a data bit is what \<open>DQ_unit_index\<close> reads back for it, and the
  delays of the seven other bits stay as they were.\<close>

theorem DQ_delay_round_trip:
  assumes hw: "ddr_regs h regs lag" and b: "b < 4" and small: "i < 8" "j < 8" "d \<le> 3"
  shows "fst (DQ_unit_index h DDRPHYC_BASE b j (set_DQ_unit_delay h DDRPHYC_BASE b i d s)) =
    (if j = i then d else fst (DQ_unit_index h DDRPHYC_BASE b j s))"
  using dq_delay_set_dq [OF small] by (simp add: ddr_regs.DQ_unit_delay_R [OF hw b])

text \<open>The address range of the self test. \<open>config_BIST\<close> leaves in BISTAR2 the largest column,
  row and bank of the address map, each whole in its field: the numbers of address bits
  counted from the map never overflow a field.\<close>

theorem config_BIST_limits:
  assumes hw: "ddr_regs h regs lag"
  shows "let w = regs (dev (config_BIST h DDRCTRL_BASE DDRPHYC_BASE s)) (DDRPHYC_BASE + phy_bistar2)
    in take_bit 12 w = 2 ^ unat (fst (get_nb_col h DDRCTRL_BASE s)) - 1 \<and>
       take_bit 16 (drop_bit 12 w) = 2 ^ unat (fst (get_nb_row h DDRCTRL_BASE s)) - 1 \<and>
       drop_bit 28 w = 2 ^ unat (fst (get_nb_bank h DDRCTRL_BASE s)) - 1"
proof -
  have "regs (dev (config_BIST h DDRCTRL_BASE DDRPHYC_BASE s)) (DDRPHYC_BASE + phy_bistar2) =
      (2 ^ unat (fst (get_nb_col h DDRCTRL_BASE s)) - 1) OR
      push_bit 12 (2 ^ unat (fst (get_nb_row h DDRCTRL_BASE s)) - 1) OR
      push_bit 28 (2 ^ unat (fst (get_nb_bank h DDRCTRL_BASE s)) - 1)"
    using ddr_regs.config_BIST_R [OF hw, of s] by (simp add: ddr_regs.R_def [OF hw])
  then show ?thesis
    unfolding Let_def
    by (simp only: bistar2_fields [OF get_nb_col_bounds get_nb_row_le get_nb_bank_le] simp_thms)
qed

text \<open>The refresh is restored. \<open>stm32mp1_refresh_restore\<close> with the values RFSHCTL3 and PWRCTL
  had before \<open>stm32mp1_refresh_disable\<close> undoes it: both calls return, in between automatic refresh
  is off and self refresh and power down are disabled, and afterwards every register is as before,
  but for the two flags of \<open>put_back\<close>.\<close>

theorem refresh_round_trip:
  assumes hw: "ddr_regs h regs lag"
  shows "\<exists>s1 s2. stm32mp1_refresh_disable h DDRCTRL_BASE s = Some s1 \<and>
    regs (dev s1) (DDRCTRL_BASE + ctl_rfshctl3) AND 1 \<noteq> 0 \<and>
    regs (dev s1) (DDRCTRL_BASE + ctl_pwrctl) AND 3 = 0 \<and>
    stm32mp1_refresh_restore h DDRCTRL_BASE (regs (dev s) (DDRCTRL_BASE + ctl_rfshctl3))
      (regs (dev s) (DDRCTRL_BASE + ctl_pwrctl)) s1 = Some s2 \<and>
    regs (dev s2) = put_back (regs (dev s))"
proof -
  let ?c = DDRCTRL_BASE
  note R = ddr_regs.R_def [OF hw]
  obtain s1 where s1: "stm32mp1_refresh_disable h ?c s = Some s1"
    "regs (dev s1) = (regs (dev s))(?c + ctl_rfshctl3 := regs (dev s) (?c + ctl_rfshctl3) OR 1,
                  ?c + ctl_pwrctl := regs (dev s) (?c + ctl_pwrctl) AND NOT (2 OR 1),
                  ?c + ctl_dfimisc := regs (dev s) (?c + ctl_dfimisc) AND NOT 1,
                  ?c + ctl_swctl := regs (dev s) (?c + ctl_swctl) OR 1)"
    using ddr_regs.refresh_disable_returns [OF hw, of s] unfolding R by blast
  let ?rf = "regs (dev s) (?c + ctl_rfshctl3)" and ?pw = "regs (dev s) (?c + ctl_pwrctl)"
  obtain s2 where s2: "stm32mp1_refresh_restore h ?c ?rf ?pw s1 = Some s2"
    "regs (dev s2) = (regs (dev s1))(?c + ctl_rfshctl3 :=
                    (if ?rf AND 1 = 0 then regs (dev s1) (?c + ctl_rfshctl3) AND NOT 1
                     else regs (dev s1) (?c + ctl_rfshctl3)),
                  ?c + ctl_pwrctl := (regs (dev s1) (?c + ctl_pwrctl) OR (?pw AND 2)) OR (?pw AND 1),
                  ?c + ctl_dfimisc := regs (dev s1) (?c + ctl_dfimisc) OR 1,
                  ?c + ctl_swctl := regs (dev s1) (?c + ctl_swctl) OR 1)"
    using ddr_regs.refresh_restore_returns [OF hw, of ?rf ?pw s1] unfolding R by blast
  have ne: "ctl_swctl \<noteq> ctl_rfshctl3" "ctl_swctl \<noteq> ctl_pwrctl" "ctl_swctl \<noteq> ctl_dfimisc"
    "ctl_rfshctl3 \<noteq> ctl_pwrctl" "ctl_rfshctl3 \<noteq> ctl_dfimisc" "ctl_pwrctl \<noteq> ctl_dfimisc"
    by (simp_all add: reg_defs)
  note ne2 = ne ne [symmetric]
  have 1: "(x OR 1) AND 1 \<noteq> 0" "(x AND NOT (2 OR 1)) AND 3 = 0" "(x AND NOT 1) OR 1 = x OR 1"
    "(x OR 1) OR 1 = x OR 1" for x :: u32
  proof -
    have m: "(3 :: u32) = mask 2" "(2 OR 1 :: u32) = mask 2" by (simp_all add: mask_eq_exp_minus_1)
    show "(x AND NOT (2 OR 1)) AND 3 = 0" unfolding m by (rule bit_word_eqI) (auto simp: bit_simps)
    show "(x AND NOT 1) OR 1 = x OR 1" "(x OR 1) OR 1 = x OR 1"
      by (rule bit_word_eqI; auto simp: bit_simps)+
    have "(x OR 1) AND 1 = 1" by (rule bit_word_eqI) (auto simp: bit_simps)
    then show "(x OR 1) AND 1 \<noteq> 0" by simp
  qed
  have r1: "regs (dev s1) (?c + ctl_rfshctl3) = ?rf OR 1" "regs (dev s1) (?c + ctl_pwrctl) = ?pw AND NOT (2 OR 1)"
    using s1(2) ne2 by (simp_all del: and_numerals or_numerals)
  have "regs (dev s2) a = put_back (regs (dev s)) a" for a
    using put_back_set [OF single_bits(1), of ?rf] put_back_clear [of ?pw 2 1] ne2 1(3,4)
    unfolding s2(2) s1(2) put_back_def
    by (simp only: fun_upd_apply add_left_cancel simp_thms if_True if_False split: if_splits) auto
  then show ?thesis using s1(1) s2(1) r1 1(1,2) by (metis ext)
qed

text \<open>Polls never time out. \<open>time_after\<close> is the constant 0: a poll that returns has met its
  condition and returns 0, never \<open>-ETIMEDOUT\<close>, whatever the timeout; and when no read meets the
  condition, it does not return. So the failing branches of its callers (\<open>panic\<close>, the interrupted
  self test) are never taken.\<close>

theorem polls_never_time_out:
  "(case readl_poll_timeout h a cond t s of None \<Rightarrow> True | Some (ret, v, s') \<Rightarrow> ret = 0 \<and> cond v) \<and>
   ((\<forall>s. \<not> cond (fst (readl h a s))) \<longrightarrow> readl_poll_timeout h a cond t s = None)"
proof (intro conjI impI)
  show "case readl_poll_timeout h a cond t s of None \<Rightarrow> True | Some (ret, v, s') \<Rightarrow> ret = 0 \<and> cond v"
  proof (cases "readl_poll_timeout h a cond t s")
    case (Some r)
    have "case r of (ret, v, s') \<Rightarrow> ret = 0 \<and> cond v"
      by (rule loop_partial [OF Some [unfolded readl_poll_timeout_def Let_def], where I = "\<lambda>_. True"])
        (auto simp: time_after_def split: if_splits prod.splits)
    then show ?thesis using Some by simp
  qed simp
  assume never: "\<forall>s. \<not> cond (fst (readl h a s))"
  show "readl_poll_timeout h a cond t s = None"
    unfolding readl_poll_timeout_def Let_def
    by (rule loop_diverges [where I = "\<lambda>_. True"])
      (use never in \<open>auto simp: time_after_def split_def\<close>)
qed

theorem BIST_test_verdict_witness:
  "\<exists>rs. \<exists>k s'. 0 < k \<and> k \<le> 1000 \<and>
     bist_runs (range_board 17 37) DDRPHYC_BASE k board_state = Some (take k rs, s') \<and>
     BIST_test (range_board 17 37) DDRPHYC_BASE 0 board_state = Some (failures rs < 1, s')"
proof -
  have "bist_phy (range_board 17 37) (\<lambda>r. r) (\<lambda>_. 0) (\<lambda>b d q x. 17 \<le> place_of_lane d x \<and> place_of_lane d x \<le> 37)"
    unfolding range_board_def by (rule board.bist_phy_axioms)
  moreover have "armed (ddr_regs.R (\<lambda>r. r) board_state)"
    by (simp add: armed_def board.R_def board_state_def lane_sel_def)
  ultimately obtain rs t where "bist_runs (range_board 17 37) DDRPHYC_BASE 1000 board_state = Some (rs, t)"
    using bist_phy.bist_runs_clean by blast
  from BIST_test_verdict [OF this, of 0] show ?thesis by (auto simp: board_state_def)
qed

theorem DQ_delay_round_trip_witness:
  "fst (DQ_unit_index (range_board 17 37) DDRPHYC_BASE 1 6
      (set_DQ_unit_delay (range_board 17 37) DDRPHYC_BASE 1 6 2 board_state)) = 2"
  unfolding range_board_def
  by (subst DQ_delay_round_trip [OF board.ddr_regs_axioms]) simp_all

theorem config_BIST_limits_witness:
  "take_bit 12 (dev (config_BIST (range_board 17 37) DDRCTRL_BASE DDRPHYC_BASE board_state) (DDRPHYC_BASE + phy_bistar2)) =
    2 ^ unat (fst (get_nb_col (range_board 17 37) DDRCTRL_BASE board_state)) - 1"
  using config_BIST_limits [OF board.ddr_regs_axioms
      [of "\<lambda>b d q x. 17 \<le> place_of_lane d x \<and> place_of_lane d x \<le> 37"], of board_state]
  by (simp only: range_board_def Let_def)

theorem refresh_round_trip_witness:
  "\<exists>s1 s2. stm32mp1_refresh_disable (range_board 17 37) DDRCTRL_BASE board_state = Some s1 \<and>
    stm32mp1_refresh_restore (range_board 17 37) DDRCTRL_BASE 0 0 s1 = Some s2 \<and>
    dev s2 = put_back (\<lambda>_. 0)"
  using refresh_round_trip [OF board.ddr_regs_axioms
      [of "\<lambda>b d q x. 17 \<le> place_of_lane d x \<and> place_of_lane d x \<le> 37"], of board_state]
  unfolding range_board_def [symmetric] by (auto simp: board_state_def)

theorem polls_never_time_out_witness:
  "readl_poll_timeout (range_board 17 37) DDRCTRL_BASE (\<lambda>v. False) 1000 board_state = None"
  using polls_never_time_out [where cond = "\<lambda>v. False" and h = "range_board 17 37" and a = DDRCTRL_BASE
      and t = 1000 and s = board_state]
  by simp

end
