(* ===== verification/Crc32.thy ===== *)
theory Crc32
  imports Prelude
begin

text \<open>
  The CRC-32 of the GPT header (uboot-port/lib/crc32.c): the table generator, the static
  table, the table-driven update over a buffer with its aligned 32-bit inner loop, and the
  one's-complement wrapper. Memory is a map from byte addresses to bytes. The Cortex-A7 is
  little-endian, so \<open>tole\<close>, \<open>cpu_to_le32\<close> and \<open>le32_to_cpu\<close> are the identity and
  \<open>DO_CRC\<close> is its little-endian variant.

  The specification is the bitwise shift register that the comment of \<open>make_crc_table\<close>
  describes; the lemmas prove that the table holds its values and that the three loops of
  \<open>crc32_no_comp\<close> compute it over the buffer's bytes, whatever their alignment.
\<close>

subsection \<open>The code\<close>

definition crc_poly :: u32 where
  "crc_poly = foldl (\<lambda>poly p. poly OR push_bit (31 - p) 1) 0
     [0, 1, 2, 4, 5, 7, 8, 10, 11, 12, 16, 22, 23, 26 :: nat]"

definition crc_bit :: "u32 \<Rightarrow> u32" where
  "crc_bit c = (if c AND 1 \<noteq> 0 then crc_poly XOR drop_bit 1 c else drop_bit 1 c)"

fun crc_bits :: "nat \<Rightarrow> u32 \<Rightarrow> u32" where
  "crc_bits 0 c = c"
| "crc_bits (Suc k) c = crc_bits k (crc_bit c)"

definition make_crc_table :: "u32 list" where
  "make_crc_table = map (\<lambda>n. crc_bits 8 (of_nat n)) [0..<256]"

definition crc_table :: "u32 list" where
  "crc_table =
  [
   0x00000000, 0x77073096, 0xee0e612c, 0x990951ba, 0x076dc419, 0x706af48f, 0xe963a535, 0x9e6495a3,
   0x0edb8832, 0x79dcb8a4, 0xe0d5e91e, 0x97d2d988, 0x09b64c2b, 0x7eb17cbd, 0xe7b82d07, 0x90bf1d91,
   0x1db71064, 0x6ab020f2, 0xf3b97148, 0x84be41de, 0x1adad47d, 0x6ddde4eb, 0xf4d4b551, 0x83d385c7,
   0x136c9856, 0x646ba8c0, 0xfd62f97a, 0x8a65c9ec, 0x14015c4f, 0x63066cd9, 0xfa0f3d63, 0x8d080df5,
   0x3b6e20c8, 0x4c69105e, 0xd56041e4, 0xa2677172, 0x3c03e4d1, 0x4b04d447, 0xd20d85fd, 0xa50ab56b,
   0x35b5a8fa, 0x42b2986c, 0xdbbbc9d6, 0xacbcf940, 0x32d86ce3, 0x45df5c75, 0xdcd60dcf, 0xabd13d59,
   0x26d930ac, 0x51de003a, 0xc8d75180, 0xbfd06116, 0x21b4f4b5, 0x56b3c423, 0xcfba9599, 0xb8bda50f,
   0x2802b89e, 0x5f058808, 0xc60cd9b2, 0xb10be924, 0x2f6f7c87, 0x58684c11, 0xc1611dab, 0xb6662d3d,
   0x76dc4190, 0x01db7106, 0x98d220bc, 0xefd5102a, 0x71b18589, 0x06b6b51f, 0x9fbfe4a5, 0xe8b8d433,
   0x7807c9a2, 0x0f00f934, 0x9609a88e, 0xe10e9818, 0x7f6a0dbb, 0x086d3d2d, 0x91646c97, 0xe6635c01,
   0x6b6b51f4, 0x1c6c6162, 0x856530d8, 0xf262004e, 0x6c0695ed, 0x1b01a57b, 0x8208f4c1, 0xf50fc457,
   0x65b0d9c6, 0x12b7e950, 0x8bbeb8ea, 0xfcb9887c, 0x62dd1ddf, 0x15da2d49, 0x8cd37cf3, 0xfbd44c65,
   0x4db26158, 0x3ab551ce, 0xa3bc0074, 0xd4bb30e2, 0x4adfa541, 0x3dd895d7, 0xa4d1c46d, 0xd3d6f4fb,
   0x4369e96a, 0x346ed9fc, 0xad678846, 0xda60b8d0, 0x44042d73, 0x33031de5, 0xaa0a4c5f, 0xdd0d7cc9,
   0x5005713c, 0x270241aa, 0xbe0b1010, 0xc90c2086, 0x5768b525, 0x206f85b3, 0xb966d409, 0xce61e49f,
   0x5edef90e, 0x29d9c998, 0xb0d09822, 0xc7d7a8b4, 0x59b33d17, 0x2eb40d81, 0xb7bd5c3b, 0xc0ba6cad,
   0xedb88320, 0x9abfb3b6, 0x03b6e20c, 0x74b1d29a, 0xead54739, 0x9dd277af, 0x04db2615, 0x73dc1683,
   0xe3630b12, 0x94643b84, 0x0d6d6a3e, 0x7a6a5aa8, 0xe40ecf0b, 0x9309ff9d, 0x0a00ae27, 0x7d079eb1,
   0xf00f9344, 0x8708a3d2, 0x1e01f268, 0x6906c2fe, 0xf762575d, 0x806567cb, 0x196c3671, 0x6e6b06e7,
   0xfed41b76, 0x89d32be0, 0x10da7a5a, 0x67dd4acc, 0xf9b9df6f, 0x8ebeeff9, 0x17b7be43, 0x60b08ed5,
   0xd6d6a3e8, 0xa1d1937e, 0x38d8c2c4, 0x4fdff252, 0xd1bb67f1, 0xa6bc5767, 0x3fb506dd, 0x48b2364b,
   0xd80d2bda, 0xaf0a1b4c, 0x36034af6, 0x41047a60, 0xdf60efc3, 0xa867df55, 0x316e8eef, 0x4669be79,
   0xcb61b38c, 0xbc66831a, 0x256fd2a0, 0x5268e236, 0xcc0c7795, 0xbb0b4703, 0x220216b9, 0x5505262f,
   0xc5ba3bbe, 0xb2bd0b28, 0x2bb45a92, 0x5cb36a04, 0xc2d7ffa7, 0xb5d0cf31, 0x2cd99e8b, 0x5bdeae1d,
   0x9b64c2b0, 0xec63f226, 0x756aa39c, 0x026d930a, 0x9c0906a9, 0xeb0e363f, 0x72076785, 0x05005713,
   0x95bf4a82, 0xe2b87a14, 0x7bb12bae, 0x0cb61b38, 0x92d28e9b, 0xe5d5be0d, 0x7cdcefb7, 0x0bdbdf21,
   0x86d3d2d4, 0xf1d4e242, 0x68ddb3f8, 0x1fda836e, 0x81be16cd, 0xf6b9265b, 0x6fb077e1, 0x18b74777,
   0x88085ae6, 0xff0f6a70, 0x66063bca, 0x11010b5c, 0x8f659eff, 0xf862ae69, 0x616bffd3, 0x166ccf45,
   0xa00ae278, 0xd70dd2ee, 0x4e048354, 0x3903b3c2, 0xa7672661, 0xd06016f7, 0x4969474d, 0x3e6e77db,
   0xaed16a4a, 0xd9d65adc, 0x40df0b66, 0x37d83bf0, 0xa9bcae53, 0xdebb9ec5, 0x47b2cf7f, 0x30b5ffe9,
   0xbdbdf21c, 0xcabac28a, 0x53b39330, 0x24b4a3a6, 0xbad03605, 0xcdd70693, 0x54de5729, 0x23d967bf,
   0xb3667a2e, 0xc4614ab8, 0x5d681b02, 0x2a6f2b94, 0xb40bbe37, 0xc30c8ea1, 0x5a05df1b, 0x2d02ef8d
  ]"

definition do_crc :: "u32 list \<Rightarrow> u32 \<Rightarrow> u32 \<Rightarrow> u32" where
  "do_crc tab crc x = tab ! unat ((crc XOR x) AND 255) XOR drop_bit 8 crc"

definition load_le32 :: "(u32 \<Rightarrow> u8) \<Rightarrow> u32 \<Rightarrow> u32" where
  "load_le32 m a =
     u8_to_u32 (m a) OR push_bit 8 (u8_to_u32 (m (a + 1)))
     OR push_bit 16 (u8_to_u32 (m (a + 2))) OR push_bit 24 (u8_to_u32 (m (a + 3)))"

text \<open>\<open>do { DO_CRC(*p++); } while ((--len) && ((long)p) & 3)\<close>, entered with \<open>len\<close> not 0.\<close>

function crc_align ::
  "(u32 \<Rightarrow> u8) \<Rightarrow> u32 list \<Rightarrow> u32 \<Rightarrow> u32 \<Rightarrow> u32 \<Rightarrow> u32 \<times> u32 \<times> u32" where
  "crc_align m tab crc p len =
     (let crc' = do_crc tab crc (u8_to_u32 (m p)); p' = p + 1; len' = len - 1
      in if len' \<noteq> 0 \<and> p' AND 3 \<noteq> 0 then crc_align m tab crc' p' len' else (crc', p', len'))"
  by pat_completeness auto
termination
  by (relation "measure (\<lambda>(m, tab, crc, p, len). unat (len - 1))")
    (auto simp: unat_dec2)

text \<open>\<open>for (--b; len; --len) { crc ^= *++b; DO_CRC(0); DO_CRC(0); DO_CRC(0); DO_CRC(0); }\<close>,
  with \<open>b\<close> the address of the next word.\<close>

function crc_words ::
  "(u32 \<Rightarrow> u8) \<Rightarrow> u32 list \<Rightarrow> u32 \<Rightarrow> u32 \<Rightarrow> u32 \<Rightarrow> u32 \<times> u32" where
  "crc_words m tab crc b len =
     (if len = 0 then (crc, b)
      else let crc0 = crc XOR load_le32 m b;
               crc1 = do_crc tab crc0 0; crc2 = do_crc tab crc1 0;
               crc3 = do_crc tab crc2 0; crc4 = do_crc tab crc3 0
           in crc_words m tab crc4 (b + 4) (len - 1))"
  by pat_completeness auto
termination
  by (relation "measure (\<lambda>(m, tab, crc, b, len). unat len)") (auto simp: unat_dec)

text \<open>\<open>do { DO_CRC(*++p); } while (--len)\<close>, entered with \<open>len\<close> not 0.\<close>

function crc_tail :: "(u32 \<Rightarrow> u8) \<Rightarrow> u32 list \<Rightarrow> u32 \<Rightarrow> u32 \<Rightarrow> u32 \<Rightarrow> u32" where
  "crc_tail m tab crc p len =
     (let crc' = do_crc tab crc (u8_to_u32 (m p)); len' = len - 1
      in if len' \<noteq> 0 then crc_tail m tab crc' (p + 1) len' else crc')"
  by pat_completeness auto
termination
  by (relation "measure (\<lambda>(m, tab, crc, p, len). unat (len - 1))")
    (auto simp: unat_dec2)

declare crc_align.simps [simp del] crc_words.simps [simp del] crc_tail.simps [simp del]

definition crc32_no_comp :: "(u32 \<Rightarrow> u8) \<Rightarrow> u32 \<Rightarrow> u32 \<Rightarrow> u32 \<Rightarrow> u32" where
  "crc32_no_comp m crc buf len =
     (let tab = crc_table;
          (crc, b, len) =
            (if buf AND 3 \<noteq> 0 \<and> len \<noteq> 0 then crc_align m tab crc buf len else (crc, buf, len));
          rem_len = len AND 3;
          (crc, b) = crc_words m tab crc b (drop_bit 2 len)
      in if rem_len \<noteq> 0 then crc_tail m tab crc b rem_len else crc)"

definition crc32 :: "(u32 \<Rightarrow> u8) \<Rightarrow> u32 \<Rightarrow> u32 \<Rightarrow> u32 \<Rightarrow> u32" where
  "crc32 m crc p len = crc32_no_comp m (crc XOR 0xffffffff) p len XOR 0xffffffff"

subsection \<open>Table\<close>

lemma crc_poly_val: "crc_poly = 0xEDB88320"
  by (simp add: crc_poly_def)

lemma crc_bit_alt: "crc_bit c = (if odd c then crc_poly else 0) XOR drop_bit 1 c"
  by (simp add: crc_bit_def and_one_eq odd_iff_mod_2_eq_one)

lemma crc_bit_xor: "crc_bit (a XOR b) = crc_bit a XOR crc_bit b"
proof -
  have "odd (a XOR b) \<longleftrightarrow> odd a \<noteq> odd b"
    by (simp add: even_xor_iff)
  moreover have "drop_bit 1 (a XOR b) = drop_bit 1 a XOR drop_bit 1 b"
    by (rule drop_bit_xor)
  ultimately show ?thesis
    by (cases "odd a"; cases "odd b") (simp_all add: crc_bit_alt ac_simps)
qed

lemma crc_bits_xor: "crc_bits k (a XOR b) = crc_bits k a XOR crc_bits k b"
  by (induction k arbitrary: a b) (simp_all add: crc_bit_xor)

lemma crc_bits_shift: "\<forall>i<k. \<not> bit c i \<Longrightarrow> crc_bits k c = drop_bit k c"
proof (induction k arbitrary: c)
  case 0
  then show ?case by simp
next
  case (Suc k)
  then have "even c" by (auto simp: bit_0)
  then have b: "crc_bit c = drop_bit 1 c" by (simp add: crc_bit_alt)
  from Suc.prems have "\<forall>i<k. \<not> bit (drop_bit 1 c) i" by (auto simp: bit_drop_bit_eq)
  then have "crc_bits k (drop_bit 1 c) = drop_bit k (drop_bit 1 c)" by (rule Suc.IH)
  then show ?case by (simp add: b)
qed


text \<open>Table entries are compared one by one; numerals are shifted by the simplifier.\<close>

fun table_holds :: "u32 \<Rightarrow> u32 list \<Rightarrow> bool" where
  "table_holds n [] = True"
| "table_holds n (x # xs) = (crc_bits 8 n = x \<and> table_holds (n + 1) xs)"

lemma crc_bits_8:
  "crc_bits 8 c =
     crc_bit (crc_bit (crc_bit (crc_bit (crc_bit (crc_bit (crc_bit (crc_bit c)))))))"
  by (simp add: eval_nat_numeral)

lemma crc_bit_0: "crc_bit 0 = 0"
  by (simp add: crc_bit_alt)

lemma crc_bit_1: "crc_bit 1 = 0xEDB88320"
  by (simp add: crc_bit_alt crc_poly_val)

lemma crc_bit_numeral:
  "crc_bit (numeral k) =
     (if even (numeral k :: u32) then drop_bit 1 (numeral k)
      else 0xEDB88320 XOR drop_bit 1 (numeral k))"
  by (simp add: crc_bit_alt crc_poly_val)

lemma crc_bit_neg_numeral:
  "crc_bit (- numeral k) =
     (if even (- numeral k :: u32) then drop_bit 1 (- numeral k)
      else 0xEDB88320 XOR drop_bit 1 (- numeral k))"
  by (simp add: crc_bit_alt crc_poly_val)

lemmas crc_eval = crc_bits_8 crc_bit_0 crc_bit_1 crc_bit_numeral crc_bit_neg_numeral

lemma table_holds_append:
  "table_holds n (xs @ ys) \<longleftrightarrow> table_holds n xs \<and> table_holds (n + of_nat (length xs)) ys"
  by (induction xs arbitrary: n) (auto simp: ac_simps)

lemma table_holds_nth:
  "table_holds n xs \<Longrightarrow> i < length xs \<Longrightarrow> xs ! i = crc_bits 8 (n + of_nat i)"
  by (induction xs arbitrary: n i) (auto simp: less_Suc_eq_0_disj ac_simps)

lemma table_holds_0: "table_holds 0 (take 64 crc_table)"
  by (simp add: crc_table_def crc_eval)

lemma table_holds_1: "table_holds 64 (take 64 (drop 64 crc_table))"
  by (simp add: crc_table_def crc_eval)

lemma table_holds_2: "table_holds 128 (take 64 (drop 128 crc_table))"
  by (simp add: crc_table_def crc_eval)

lemma table_holds_3: "table_holds 192 (drop 192 crc_table)"
  by (simp add: crc_table_def crc_eval)

lemma length_crc_table: "length crc_table = 256"
  by (simp add: crc_table_def)

lemma crc_table_nth: "i < 256 \<Longrightarrow> crc_table ! i = crc_bits 8 (of_nat i)"
proof -
  assume i: "i < 256"
  have "crc_table = take 64 crc_table @ take 64 (drop 64 crc_table) @
      take 64 (drop 128 crc_table) @ drop 192 crc_table"
    by (simp add: crc_table_def)
  moreover have "table_holds 0 (take 64 crc_table @ take 64 (drop 64 crc_table) @
      take 64 (drop 128 crc_table) @ drop 192 crc_table)"
    using table_holds_0 table_holds_1 table_holds_2 table_holds_3
    by (simp add: table_holds_append length_crc_table)
  ultimately have "table_holds 0 crc_table" by simp
  with i show ?thesis
    using table_holds_nth [of 0 crc_table i] by (simp add: length_crc_table)
qed

lemma crc_table_eq: "crc_table = make_crc_table"
  by (rule nth_equalityI) (simp_all add: length_crc_table make_crc_table_def crc_table_nth)

subsection \<open>One byte, and one word, of input\<close>

definition crc_step :: "u32 \<Rightarrow> u8 \<Rightarrow> u32" where
  "crc_step c b = crc_bits 8 (c XOR u8_to_u32 b)"

lemma mask_8: "(255 :: u32) = mask 8"
  by (simp add: mask_eq_exp_minus_1)

lemma crc_bits_8_split: "crc_bits 8 c = crc_bits 8 (c AND 255) XOR drop_bit 8 c"
proof -
  let ?hi = "c AND NOT (mask 8)"
  have "c = (c AND mask 8) XOR ?hi"
    by (rule bit_word_eqI) (auto simp: bit_simps dest: bit_imp_le_length)
  then have "crc_bits 8 c = crc_bits 8 (c AND mask 8) XOR crc_bits 8 ?hi"
    using crc_bits_xor by metis
  also have "crc_bits 8 ?hi = drop_bit 8 ?hi"
    by (rule crc_bits_shift) (auto simp: bit_simps dest: bit_imp_le_length)
  also have "drop_bit 8 ?hi = drop_bit 8 c"
    by (rule bit_word_eqI) (auto simp: bit_simps dest: bit_imp_le_length)
  finally show ?thesis by (simp add: mask_8)
qed

lemma unat_low_byte: "unat (c AND 255 :: u32) < 256"
proof -
  have "c AND 255 \<le> (255 :: u32)" by (rule word_and_le1)
  then show ?thesis by (simp add: word_le_nat_alt)
qed

text \<open>A table look-up is eight rounds of the shift register.\<close>

lemma do_crc_byte:
  assumes "drop_bit 8 x = (0 :: u32)"
  shows "do_crc crc_table crc x = crc_bits 8 (crc XOR x)"
proof -
  have "drop_bit 8 (crc XOR x) = drop_bit 8 crc"
    using assms by (simp add: drop_bit_xor)
  then show ?thesis
    using crc_bits_8_split [of "crc XOR x"]
    by (simp add: do_crc_def crc_table_nth unat_low_byte)
qed

lemma do_crc_step: "do_crc crc_table crc (u8_to_u32 b) = crc_step crc b"
proof -
  have "drop_bit 8 (u8_to_u32 b) = 0"
    by (rule bit_word_eqI) (auto simp: bit_simps dest: bit_imp_le_length)
  then show ?thesis by (simp add: do_crc_byte crc_step_def)
qed

lemma do_crc_0: "do_crc crc_table crc 0 = crc_bits 8 crc"
  by (simp add: do_crc_byte)

lemma crc_bits_8_push:
  "crc_bits 8 (c XOR (x XOR push_bit 8 y)) = crc_bits 8 (c XOR x) XOR (y AND mask 24)"
proof -
  have "crc_bits 8 (push_bit 8 y) = drop_bit 8 (push_bit 8 y)"
    by (rule crc_bits_shift) (auto simp: bit_simps)
  also have "\<dots> = y AND mask 24"
    by (rule bit_word_eqI) (auto simp: bit_simps dest: bit_imp_le_length)
  finally show ?thesis by (simp add: crc_bits_xor ac_simps)
qed

text \<open>Four table look-ups on a loaded word take in its four bytes, lowest address first.\<close>

lemma load_le32_shift:
  "load_le32 m a =
     u8_to_u32 (m a) XOR push_bit 8 (u8_to_u32 (m (a + 1)) XOR
       push_bit 8 (u8_to_u32 (m (a + 2)) XOR push_bit 8 (u8_to_u32 (m (a + 3)))))"
  unfolding load_le32_def
  by (rule bit_word_eqI) (auto simp: bit_simps dest: bit_imp_le_length)

lemma low_24_3:
  "(u8_to_u32 b XOR push_bit 8 (u8_to_u32 c XOR push_bit 8 (u8_to_u32 d))) AND mask 24 =
     u8_to_u32 b XOR push_bit 8 (u8_to_u32 c XOR push_bit 8 (u8_to_u32 d))"
  by (rule bit_word_eqI) (auto simp: bit_simps dest: bit_imp_le_length)

lemma low_24_2:
  "(u8_to_u32 b XOR push_bit 8 (u8_to_u32 c)) AND mask 24 = u8_to_u32 b XOR push_bit 8 (u8_to_u32 c)"
  by (rule bit_word_eqI) (auto simp: bit_simps dest: bit_imp_le_length)

lemma low_24_1: "u8_to_u32 b AND mask 24 = u8_to_u32 b"
  by (rule bit_word_eqI) (auto simp: bit_simps dest: bit_imp_le_length)

lemma do_crc_word:
  "crc_bits 8 (crc_bits 8 (crc_bits 8 (crc_bits 8 (crc XOR load_le32 m a)))) =
     foldl crc_step crc [m a, m (a + 1), m (a + 2), m (a + 3)]"
  by (simp only: load_le32_shift crc_step_def crc_bits_8_push low_24_3 low_24_2 low_24_1
      foldl_Cons foldl_Nil)

subsection \<open>The buffer loops\<close>

definition crc_bytes :: "u32 \<Rightarrow> u8 list \<Rightarrow> u32" where
  "crc_bytes crc bs = foldl crc_step crc bs"

definition bytes_at :: "(u32 \<Rightarrow> u8) \<Rightarrow> u32 \<Rightarrow> nat \<Rightarrow> u8 list" where
  "bytes_at m a n = map (\<lambda>i. m (a + of_nat i)) [0..<n]"

lemma bytes_at_0 [simp]: "bytes_at m a 0 = []"
  by (simp add: bytes_at_def)

lemma bytes_at_Suc: "bytes_at m a (Suc n) = m a # bytes_at m (a + 1) n"
  by (simp add: bytes_at_def upt_conv_Cons del: upt_Suc flip: map_Suc_upt) (simp add: ac_simps)

lemma bytes_at_add: "bytes_at m a (n + k) = bytes_at m a n @ bytes_at m (a + of_nat n) k"
  by (induction n arbitrary: a) (simp_all add: bytes_at_Suc ac_simps)

lemma length_bytes_at [simp]: "length (bytes_at m a n) = n"
  by (simp add: bytes_at_def)

lemma crc_bytes_append: "crc_bytes crc (xs @ ys) = crc_bytes (crc_bytes crc xs) ys"
  by (simp add: crc_bytes_def)

lemma crc_bytes_Nil [simp]: "crc_bytes crc [] = crc"
  by (simp add: crc_bytes_def)

lemma crc_bytes_Cons [simp]: "crc_bytes crc (b # bs) = crc_bytes (crc_step crc b) bs"
  by (simp add: crc_bytes_def)

lemma unat_pred: "len \<noteq> (0 :: u32) \<Longrightarrow> unat len = Suc (unat (len - 1))"
  by (simp add: unat_minus_one unat_gt_0)

text \<open>The alignment loop consumes \<open>k\<close> bytes and leaves \<open>len - k\<close>.\<close>

lemma crc_align_spec:
  "tab = crc_table \<Longrightarrow> len \<noteq> 0 \<Longrightarrow>
     \<exists>k. k \<le> unat len \<and> crc_align m tab crc p len =
       (crc_bytes crc (bytes_at m p k), p + of_nat k, len - of_nat k)"
proof (induction m tab crc p len rule: crc_align.induct)
  case (1 m tab crc p len)
  show ?case
  proof (cases "len - 1 \<noteq> 0 \<and> (p + 1) AND 3 \<noteq> 0")
    case True
    from "1.IH" [OF refl refl refl True] "1.prems" True obtain k where
      k: "k \<le> unat (len - 1)" and
      e: "crc_align m tab (do_crc tab crc (u8_to_u32 (m p))) (p + 1) (len - 1) =
        (crc_bytes (do_crc tab crc (u8_to_u32 (m p))) (bytes_at m (p + 1) k),
         p + 1 + of_nat k, len - 1 - of_nat k)"
      by auto
    have "Suc k \<le> unat len" using k "1.prems" by (simp add: unat_pred)
    moreover have "crc_align m tab crc p len =
        (crc_bytes crc (bytes_at m p (Suc k)), p + of_nat (Suc k), len - of_nat (Suc k))"
      using True e "1.prems" by (subst crc_align.simps)
        (simp add: Let_def bytes_at_Suc do_crc_step algebra_simps)
    ultimately show ?thesis by blast
  next
    case False
    then have "crc_align m tab crc p len =
        (crc_bytes crc (bytes_at m p 1), p + of_nat 1, len - of_nat 1)"
      using "1.prems" by (subst crc_align.simps) (auto simp: Let_def bytes_at_Suc do_crc_step)
    moreover have "1 \<le> unat len" using "1.prems" by (simp add: unat_pred)
    ultimately show ?thesis by blast
  qed
qed

lemma crc_words_spec:
  "tab = crc_table \<Longrightarrow> crc_words m tab crc b len =
     (crc_bytes crc (bytes_at m b (4 * unat len)), b + 4 * len)"
proof (induction m tab crc b len rule: crc_words.induct)
  case (1 m tab crc b len)
  show ?case
  proof (cases "len = 0")
    case True
    then show ?thesis by (simp add: crc_words.simps)
  next
    case False
    have "4 * unat len = Suc (Suc (Suc (Suc (4 * unat (len - 1)))))"
      using False by (simp add: unat_pred)
    then have "bytes_at m b (4 * unat len) =
        [m b, m (b + 1), m (b + 2), m (b + 3)] @ bytes_at m (b + 4) (4 * unat (len - 1))"
      by (simp only: bytes_at_Suc) (simp add: ac_simps)
    moreover have "b + 4 + 4 * (len - 1) = b + 4 * len"
      by (simp add: algebra_simps)
    ultimately show ?thesis
      using "1.IH" [OF False refl refl refl refl refl "1.prems"] "1.prems" False
        do_crc_word [of crc m b]
      by (subst crc_words.simps) (simp add: Let_def do_crc_0 crc_bytes_def)
  qed
qed

lemma crc_tail_spec:
  "tab = crc_table \<Longrightarrow> len \<noteq> 0 \<Longrightarrow>
     crc_tail m tab crc p len = crc_bytes crc (bytes_at m p (unat len))"
proof (induction m tab crc p len rule: crc_tail.induct)
  case (1 m tab crc p len)
  then show ?case
    by (subst crc_tail.simps)
      (cases "len = 1"; simp add: Let_def unat_pred bytes_at_Suc do_crc_step)
qed

lemma unat_sub_of_nat: "k \<le> unat (len :: u32) \<Longrightarrow> unat (len - of_nat k) = unat len - k"
  by (simp add: unat_sub word_le_nat_alt le_unat_uoi)

lemma words_and_rest: "unat l = 4 * unat (drop_bit 2 l) + unat (l AND 3 :: u32)"
proof -
  have "l AND 3 = take_bit 2 l"
    by (simp add: take_bit_eq_mask mask_eq_exp_minus_1)
  then have "unat (l AND 3) = unat l mod 4"
    by (simp add: unsigned_take_bit_eq take_bit_eq_mod unat_mod)
  moreover have "unat (drop_bit 2 l) = unat l div 4"
    by (simp add: drop_bit_eq_div unat_div)
  ultimately show ?thesis by simp
qed

lemma crc32_no_comp_bytes:
  "crc32_no_comp m crc buf len = crc_bytes crc (bytes_at m buf (unat len))"
proof -
  define st where "st = (if buf AND 3 \<noteq> 0 \<and> len \<noteq> 0 then crc_align m crc_table crc buf len
    else (crc, buf, len))"
  obtain k where k: "k \<le> unat len" and
    st: "st = (crc_bytes crc (bytes_at m buf k), buf + of_nat k, len - of_nat k)"
    using crc_align_spec [OF refl, of len m crc buf]
    by (cases "buf AND 3 \<noteq> 0 \<and> len \<noteq> 0") (auto simp: st_def intro: that [of 0])
  define l where "l = len - of_nat k"
  have l: "unat len = k + (4 * unat (drop_bit 2 l) + unat (l AND 3))"
    using k words_and_rest [of l] unfolding l_def by (simp add: unat_sub_of_nat)
  have "crc32_no_comp m crc buf len =
      (let (crc, b) = crc_words m crc_table (crc_bytes crc (bytes_at m buf k)) (buf + of_nat k)
         (drop_bit 2 l)
       in if l AND 3 \<noteq> 0 then crc_tail m crc_table crc b (l AND 3) else crc)"
    unfolding crc32_no_comp_def Let_def st_def [symmetric] st l_def by simp
  also have "\<dots> = crc_bytes crc (bytes_at m buf (unat len))"
    unfolding l bytes_at_add crc_bytes_append
    by (simp add: crc_words_spec crc_tail_spec unat_eq_zero)
  finally show ?thesis .
qed

lemma crc32_bytes: "crc32 m crc p len = NOT (crc_bytes (NOT crc) (bytes_at m p (unat len)))"
proof -
  have "(0xffffffff :: u32) = - 1" by simp
  then show ?thesis by (simp only: crc32_def crc32_no_comp_bytes bit.xor_one_right)
qed

subsection \<open>The register update is injective\<close>

lemma crc_bit_eq_0: "crc_bit c = 0 \<Longrightarrow> c = 0"
proof -
  assume z: "crc_bit c = 0"
  have "\<not> bit (drop_bit 1 c) 31"
    by (auto simp: bit_drop_bit_eq dest: bit_imp_le_length)
  moreover have "bit crc_poly 31" by (simp add: crc_poly_val)
  ultimately have "even c"
    using z by (auto simp: crc_bit_alt word_xor_eq_0 split: if_splits)
  moreover from this z have "drop_bit 1 c = 0" by (simp add: crc_bit_alt)
  ultimately show "c = 0"
    by (metis bit_eq_rec cancel_comm_monoid_add_class.diff_cancel div_0 drop_bit_rec dvd_0_right)
qed

lemma crc_bits_inj: "crc_bits k a = crc_bits k b \<longleftrightarrow> a = b"
proof (induction k arbitrary: a b)
  case 0
  then show ?case by simp
next
  case (Suc k)
  have "crc_bit a = crc_bit b \<longleftrightarrow> a = b"
    using crc_bit_eq_0 [of "a XOR b"] by (auto simp: crc_bit_xor word_xor_eq_0)
  with Suc show ?case by simp
qed

lemma crc_step_inj: "crc_step a b = crc_step a' b \<longleftrightarrow> a = a'"
  by (simp add: crc_step_def crc_bits_inj word_xor_right_cancel)

lemma crc_bytes_inj: "crc_bytes a bs = crc_bytes a' bs \<longleftrightarrow> a = a'"
  by (induction bs arbitrary: a a') (simp_all add: crc_step_inj)

lemma load_le32_inj:
  assumes "load_le32 m a = load_le32 m' a'" and "i < 4"
  shows "m (a + of_nat i) = m' (a' + of_nat i)"
proof (rule bit_word_eqI)
  fix k assume k: "k < LENGTH(8)"
  have "bit (load_le32 x b) (8 * i + k) = bit (x (b + of_nat i)) k" for x b
  proof -
    from \<open>i < 4\<close> have "i = 0 \<or> i = 1 \<or> i = 2 \<or> i = 3" by arith
    with k show ?thesis
      unfolding load_le32_def
      by (elim disjE) (auto simp: bit_simps dest: bit_imp_le_length)
  qed
  with assms(1) show "bit (m (a + of_nat i)) k = bit (m' (a' + of_nat i)) k"
    by metis
qed

lemma bytes_at_4: "bytes_at m a 4 = [m a, m (a + 1), m (a + 2), m (a + 3)]"
  by (simp add: numeral_eq_Suc bytes_at_Suc add.assoc)

lemma bytes_at_cong:
  "(\<And>j. j < n \<Longrightarrow> m (a + of_nat j) = m' (a' + of_nat j)) \<Longrightarrow> bytes_at m a n = bytes_at m' a' n"
  by (simp add: bytes_at_def)

lemma crc_bytes_word: "crc_bytes crc (bytes_at m a 4) = crc_bits 8 (crc_bits 8 (crc_bits 8
    (crc_bits 8 (crc XOR load_le32 m a))))"
  by (simp only: crc_bytes_def bytes_at_4 do_crc_word)

subsection \<open>Properties\<close>

text \<open>The static table of crc32.c is the table that its generator \<open>make_crc_table\<close>
  computes from the polynomial: each of the 256 entries is eight rounds of the shift
  register on its index.\<close>

theorem crc_table_generated: "crc_table = make_crc_table"
  by (rule crc_table_eq)

text \<open>C14. The table-driven \<open>crc32\<close>, with its byte-wise alignment prologue, 32-bit inner
  loop and byte-wise tail, computes the bitwise CRC of the buffer's bytes in address order:
  the seed is complemented, every byte is folded in by eight rounds of the shift register,
  and the result is complemented. Neither the buffer's alignment nor its length matters.\<close>

theorem crc32_is_bitwise_crc:
  "crc32 m crc p len =
     NOT (foldl (\<lambda>c b. crc_bits 8 (c XOR u8_to_u32 b)) (NOT crc)
            (map (\<lambda>i. m (p + of_nat i)) [0..<unat len]))"
proof -
  have "crc_step = (\<lambda>c b. crc_bits 8 (c XOR u8_to_u32 b))"
    by (simp add: fun_eq_iff crc_step_def)
  then show ?thesis
    by (simp add: crc32_bytes crc_bytes_def bytes_at_def)
qed

text \<open>A CRC can be computed piecewise: feeding the CRC of the first part of a buffer as
  the seed for the second part gives the CRC of the whole.\<close>

theorem crc32_piecewise:
  assumes "unat len1 + unat len2 < 2 ^ 32"
  shows "crc32 m (crc32 m crc p len1) (p + len1) len2 = crc32 m crc p (len1 + len2)"
proof -
  have "unat (len1 + len2) = unat len1 + unat len2"
    using assms by (simp add: unat_word_ariths)
  then show ?thesis
    by (simp add: crc32_bytes bytes_at_add crc_bytes_append)
qed

theorem crc32_piecewise_witness:
  "unat (3 :: u32) + unat (5 :: u32) < 2 ^ 32 \<and>
     crc32 (\<lambda>a. ucast a) (crc32 (\<lambda>a. ucast a) 0 16 3) (16 + 3) 5 =
     crc32 (\<lambda>a. ucast a) 0 16 (3 + 5)"
proof -
  have h: "unat (3 :: u32) + unat (5 :: u32) < 2 ^ 32" by simp
  show ?thesis using h crc32_piecewise [OF h] by blast
qed

lemma crc32_burst:
  assumes "i + 4 \<le> unat len"
    and same: "\<forall>j<unat len. j < i \<or> i + 4 \<le> j \<longrightarrow> m (p + of_nat j) = m' (p + of_nat j)"
    and "k < 4" and diff: "m (p + of_nat (i + k)) \<noteq> m' (p + of_nat (i + k))"
  shows "crc32 m crc p len \<noteq> crc32 m' crc p len"
proof
  assume eq: "crc32 m crc p len = crc32 m' crc p len"
  define r where "r = unat len - (i + 4)"
  have len: "unat len = i + (4 + r)" using assms(1) by (simp add: r_def)
  define q where "q = p + of_nat i"
  have front: "bytes_at m p i = bytes_at m' p i"
    by (rule bytes_at_cong) (use same len in auto)
  have rest: "bytes_at m (q + 4) r = bytes_at m' (q + 4) r"
  proof (rule bytes_at_cong)
    fix j assume "j < r"
    with same [rule_format, of "i + 4 + j"] len
    have "m (p + of_nat (i + 4 + j)) = m' (p + of_nat (i + 4 + j))" by simp
    then show "m (q + 4 + of_nat j) = m' (q + 4 + of_nat j)"
      by (simp add: q_def ac_simps)
  qed
  have "\<And>x. bytes_at x p (unat len) = bytes_at x p i @ bytes_at x q 4 @ bytes_at x (q + 4) r"
    by (simp add: len bytes_at_add q_def)
  with eq front rest have "load_le32 m q = load_le32 m' q"
    by (simp add: crc32_bytes crc_bytes_append crc_bytes_inj crc_bytes_word crc_bits_inj
        word_xor_right_cancel xor.commute)
  from load_le32_inj [OF this \<open>k < 4\<close>] diff show False
    by (simp add: q_def ac_simps)
qed



text \<open>The check value of CRC-32: the nine ASCII digits 1 to 9.\<close>

lemma crc32_check_value: "crc32 (\<lambda>a. ucast (a + 49)) 0 0 9 = 0xCBF43926"
proof -
  have "[0..<9] = [0, 1, 2, 3, 4, 5, 6, 7, 8]" by code_simp
  then have "bytes_at (\<lambda>a. ucast (a + 49)) 0 9 = [49, 50, 51, 52, 53, 54, 55, 56, 57]"
    by (simp add: bytes_at_def)
  then show ?thesis
    by (simp add: crc32_bytes crc_step_def crc_eval)
qed

end
