(* ===== verification/Gpt.thy ===== *)
theory Gpt
  imports Crc32
begin

text \<open>
  GPT headers and partition entries (gpt/gpt.cc, gpt/part_efi.h). A packed struct is a record
  with two functions, from its fields to its bytes and back; the byte order is that of the CPU,
  little-endian. \<open>layout\<close> is the contract of such a pair, which the reader of the SD card (a
  template over the type read) relies on. \<open>lbaint_t\<close> is \<open>unsigned long\<close>, 32 bits.
\<close>

subsection \<open>Integers in memory\<close>

fun le_bytes :: "nat \<Rightarrow> 'a::len word \<Rightarrow> u8 list" where
  "le_bytes 0 w = []"
| "le_bytes (Suc n) w = ucast w # le_bytes n (drop_bit 8 w)"

fun le_val :: "u8 list \<Rightarrow> 'a::len word" where
  "le_val [] = 0"
| "le_val (b # bs) = ucast b OR push_bit 8 (le_val bs)"

definition part :: "nat \<Rightarrow> nat \<Rightarrow> 'b list \<Rightarrow> 'b list" where
  "part off n bs = take n (drop off bs)"

lemma length_le_bytes [simp]: "length (le_bytes n w) = n"
  by (induction n arbitrary: w) simp_all

lemma length_part [simp]: "length (part off n bs) = min n (length bs - off)"
  by (simp add: part_def)

lemma le_val_le_bytes: "le_val (le_bytes n w) = take_bit (8 * n) (w :: 'a::len word)"
proof (induction n arbitrary: w)
  case (Suc n)
  show ?case
    unfolding le_bytes.simps le_val.simps Suc.IH
    by (rule bit_word_eqI) (auto simp: bit_simps)
qed simp

lemma le_val_bytes [simp]: "LENGTH('a) \<le> 8 * n \<Longrightarrow> le_val (le_bytes n w) = (w :: 'a::len word)"
  by (simp add: le_val_le_bytes take_bit_word_eq_self)

lemma le_bytes_cong:
  "(\<And>i. i < 8 * n \<Longrightarrow> bit x i = bit y i) \<Longrightarrow> le_bytes n x = le_bytes n (y :: 'a::len word)"
proof (induction n arbitrary: x y)
  case (Suc n)
  have "ucast x = (ucast y :: u8)"
    by (rule bit_word_eqI) (simp add: bit_ucast_iff Suc.prems)
  moreover have "le_bytes n (drop_bit 8 x) = le_bytes n (drop_bit 8 y)"
    by (rule Suc.IH) (simp add: bit_drop_bit_eq Suc.prems)
  ultimately show ?case by simp
qed simp

lemma le_bytes_val: "8 * length bs \<le> LENGTH('a) \<Longrightarrow> le_bytes (length bs) (le_val bs :: 'a::len word) = bs"
proof (induction bs)
  case (Cons b bs)
  have "(ucast (ucast b OR push_bit 8 (le_val bs) :: 'a word) :: u8) = b"
  proof (rule bit_word_eqI)
    fix i assume "i < LENGTH(8)"
    then show "bit (ucast (ucast b OR push_bit 8 (le_val bs) :: 'a word) :: u8) i = bit b i"
      using Cons.prems by (simp add: bit_ucast_iff bit_or_iff bit_push_bit_iff)
  qed
  moreover have "le_bytes (length bs) (drop_bit 8 (ucast b OR push_bit 8 (le_val bs) :: 'a word)) =
      le_bytes (length bs) (le_val bs :: 'a word)"
  proof (rule le_bytes_cong)
    fix i assume "i < 8 * length bs"
    moreover have "\<not> bit b (8 + i)" by (simp add: bit_word.rep_eq)
    ultimately show "bit (drop_bit 8 (ucast b OR push_bit 8 (le_val bs) :: 'a word)) i = bit (le_val bs :: 'a word) i"
      using Cons.prems by (simp add: bit_drop_bit_eq bit_ucast_iff bit_or_iff bit_push_bit_iff)
  qed
  ultimately show ?case using Cons by simp
qed simp

lemma le_bytes_part:
  "off + n \<le> length bs \<Longrightarrow> 8 * n \<le> LENGTH('a) \<Longrightarrow>
   le_bytes n (le_val (part off n bs) :: 'a::len word) = part off n bs"
  using le_bytes_val [of "part off n bs", where ?'a = 'a] by simp

lemma part_join: "off + n = m \<Longrightarrow> part off n bs @ drop m bs = drop off bs"
  by (metis add.commute append_take_drop_id drop_drop part_def)

lemma part_last: "off + n = length bs \<Longrightarrow> part off n bs = drop off bs"
  by (simp add: part_def)

lemma part_all: "length bs = n \<Longrightarrow> part 0 n bs = bs"
  by (simp add: part_def)

lemma part_append:
  "off + n \<le> length xs \<Longrightarrow> part off n (xs @ ys) = part off n xs"
  "length xs \<le> off \<Longrightarrow> part off n (xs @ ys) = part (off - length xs) n ys"
  by (simp_all add: part_def)

subsection \<open>Layout of a struct\<close>

locale layout =
  fixes size_of :: nat
    and to_bytes :: "'r \<Rightarrow> u8 list"
    and of_bytes :: "u8 list \<Rightarrow> 'r"
    and wf :: "'r \<Rightarrow> bool"
  assumes bytes_length: "wf r \<Longrightarrow> length (to_bytes r) = size_of"
    and bytes_back: "wf r \<Longrightarrow> of_bytes (to_bytes r) = r"
    and bytes_any: "length bs = size_of \<Longrightarrow> to_bytes (of_bytes bs) = bs"
    and bytes_wf: "length bs = size_of \<Longrightarrow> wf (of_bytes bs)"
begin

lemma of_bytes_inj: "length bs = size_of \<Longrightarrow> length bs' = size_of \<Longrightarrow> of_bytes bs = of_bytes bs' \<longleftrightarrow> bs = bs'"
  by (metis bytes_any)

lemma of_block: "wf r \<Longrightarrow> of_bytes (take size_of (to_bytes r @ rest)) = r"
  by (simp add: bytes_length bytes_back)

end

subsection \<open>The structs of part\_efi.h\<close>

record gpt_header =
  signature :: u64
  revision :: u32
  header_size :: u32
  header_crc32 :: u32
  reserved1 :: u32
  my_lba :: u64
  alternate_lba :: u64
  first_usable_lba :: u64
  last_usable_lba :: u64
  disk_guid :: "u8 list"
  partition_entry_lba :: u64
  num_partition_entries :: u32
  sizeof_partition_entry :: u32
  partition_entry_array_crc32 :: u32

definition gpt_header_bytes :: "gpt_header \<Rightarrow> u8 list" where
  "gpt_header_bytes g =
     le_bytes 8 (signature g) @ le_bytes 4 (revision g) @ le_bytes 4 (header_size g) @
     le_bytes 4 (header_crc32 g) @ le_bytes 4 (reserved1 g) @ le_bytes 8 (my_lba g) @
     le_bytes 8 (alternate_lba g) @ le_bytes 8 (first_usable_lba g) @ le_bytes 8 (last_usable_lba g) @
     disk_guid g @ le_bytes 8 (partition_entry_lba g) @ le_bytes 4 (num_partition_entries g) @
     le_bytes 4 (sizeof_partition_entry g) @ le_bytes 4 (partition_entry_array_crc32 g)"

definition gpt_header_of :: "u8 list \<Rightarrow> gpt_header" where
  "gpt_header_of b =
     \<lparr>signature = le_val (part 0 8 b), revision = le_val (part 8 4 b),
      header_size = le_val (part 12 4 b), header_crc32 = le_val (part 16 4 b),
      reserved1 = le_val (part 20 4 b), my_lba = le_val (part 24 8 b),
      alternate_lba = le_val (part 32 8 b), first_usable_lba = le_val (part 40 8 b),
      last_usable_lba = le_val (part 48 8 b), disk_guid = part 56 16 b,
      partition_entry_lba = le_val (part 72 8 b), num_partition_entries = le_val (part 80 4 b),
      sizeof_partition_entry = le_val (part 84 4 b), partition_entry_array_crc32 = le_val (part 88 4 b)\<rparr>"

text \<open>\<open>attributes\<close> is the \<open>raw\<close> member of the union.\<close>

record gpt_entry =
  partition_type_guid :: "u8 list"
  unique_partition_guid :: "u8 list"
  starting_lba :: u64
  ending_lba :: u64
  attributes :: u64
  partition_name :: "u8 list"

definition gpt_entry_bytes :: "gpt_entry \<Rightarrow> u8 list" where
  "gpt_entry_bytes e =
     partition_type_guid e @ unique_partition_guid e @ le_bytes 8 (starting_lba e) @
     le_bytes 8 (ending_lba e) @ le_bytes 8 (attributes e) @ partition_name e"

definition gpt_entry_of :: "u8 list \<Rightarrow> gpt_entry" where
  "gpt_entry_of b =
     \<lparr>partition_type_guid = part 0 16 b, unique_partition_guid = part 16 16 b,
      starting_lba = le_val (part 32 8 b), ending_lba = le_val (part 40 8 b),
      attributes = le_val (part 48 8 b), partition_name = part 56 72 b\<rparr>"

definition gpt_header_wf :: "gpt_header \<Rightarrow> bool" where
  "gpt_header_wf g \<longleftrightarrow> length (disk_guid g) = 16"

definition gpt_entry_wf :: "gpt_entry \<Rightarrow> bool" where
  "gpt_entry_wf e \<longleftrightarrow> length (partition_type_guid e) = 16 \<and> length (unique_partition_guid e) = 16 \<and>
     length (partition_name e) = 72"

interpretation header: layout 92 gpt_header_bytes gpt_header_of gpt_header_wf
proof
  fix g assume "gpt_header_wf g"
  then have l: "length (disk_guid g) = 16" by (simp add: gpt_header_wf_def)
  then show "length (gpt_header_bytes g) = 92" by (simp add: gpt_header_bytes_def)
  show "gpt_header_of (gpt_header_bytes g) = g"
    unfolding gpt_header_of_def gpt_header_bytes_def by (simp add: part_append part_all l)
next
  fix b :: "u8 list" assume l: "length b = 92"
  show "gpt_header_bytes (gpt_header_of b) = b"
    unfolding gpt_header_of_def gpt_header_bytes_def
    by (simp add: l le_bytes_part) (simp add: l part_last part_join)
  show "gpt_header_wf (gpt_header_of b)" by (simp add: gpt_header_wf_def gpt_header_of_def l)
qed

interpretation entry: layout 128 gpt_entry_bytes gpt_entry_of gpt_entry_wf
proof
  fix g assume "gpt_entry_wf g"
  then have l: "length (partition_type_guid g) = 16" "length (unique_partition_guid g) = 16" "length (partition_name g) = 72"
    by (simp_all add: gpt_entry_wf_def)
  then show "length (gpt_entry_bytes g) = 128" by (simp add: gpt_entry_bytes_def)
  show "gpt_entry_of (gpt_entry_bytes g) = g"
    unfolding gpt_entry_of_def gpt_entry_bytes_def by (simp add: part_append part_all l)
next
  fix b :: "u8 list" assume l: "length b = 128"
  show "gpt_entry_bytes (gpt_entry_of b) = b"
    unfolding gpt_entry_of_def gpt_entry_bytes_def
    by (simp add: l le_bytes_part) (simp add: l part_last part_join)
  show "gpt_entry_wf (gpt_entry_of b)" by (simp add: gpt_entry_wf_def gpt_entry_of_def l)
qed

subsection \<open>Validation (gpt.cc)\<close>

definition GPT_HEADER_SIGNATURE_UBOOT :: u64 where "GPT_HEADER_SIGNATURE_UBOOT = 0x5452415020494645"
definition GPT_HEADER_CHROMEOS_IGNORE :: u64 where "GPT_HEADER_CHROMEOS_IGNORE = 0x454d45524f4e4749"

definition le32_to_cpu :: "u32 \<Rightarrow> u32" where "le32_to_cpu x = x"
definition le64_to_cpu :: "u64 \<Rightarrow> u64" where "le64_to_cpu x = x"

text \<open>The buffer of \<open>efi_crc32\<close> is an object of which the bytes are given; a length beyond its end
  has no defined result. The object lies at an aligned address.\<close>

definition efi_crc32 :: "u8 list \<Rightarrow> u32 \<Rightarrow> u32 option" where
  "efi_crc32 buf len =
     (if unat len \<le> length buf then Some (crc32 (\<lambda>a. buf ! unat a) 0 0 len) else None)"

definition validate_gpt_header :: "gpt_header \<Rightarrow> u32 \<Rightarrow> u32 \<Rightarrow> bool option" where
  "validate_gpt_header g lba lastlba =
     (if le64_to_cpu (signature g) \<noteq> GPT_HEADER_SIGNATURE_UBOOT then Some False
      else do {
        calc_crc32 \<leftarrow> efi_crc32 (gpt_header_bytes (g\<lparr>header_crc32 := 0\<rparr>)) (le32_to_cpu (header_size g));
        if calc_crc32 \<noteq> le32_to_cpu (header_crc32 g) then Some False
        else if le64_to_cpu (my_lba g) \<noteq> ucast lba then Some False
        else if le64_to_cpu (first_usable_lba g) > ucast lastlba then Some False
        else if le64_to_cpu (last_usable_lba g) > ucast lastlba then Some False
        else if le64_to_cpu (partition_entry_lba g) > ucast lastlba then Some False
        else if le64_to_cpu (signature g) = GPT_HEADER_CHROMEOS_IGNORE then Some False
        else Some True })"

definition validate_partition_entry :: "gpt_entry \<Rightarrow> bool" where
  "validate_partition_entry pte =
     fold (\<lambda>i valid_guid. if partition_type_guid pte ! i \<noteq> 0 then True else valid_guid) [0..<16] False"

lemma fold_flag: "fold (\<lambda>i f. if P i then True else f) is f \<longleftrightarrow> f \<or> (\<exists>i\<in>set is. P i)"
  by (induction "is" arbitrary: f) auto

lemma validate_partition_entry_iff:
  "length (partition_type_guid pte) = 16 \<Longrightarrow>
   validate_partition_entry pte \<longleftrightarrow> (\<exists>b\<in>set (partition_type_guid pte). b \<noteq> 0)"
  unfolding validate_partition_entry_def fold_flag by (auto simp: in_set_conv_nth atLeast0LessThan intro: bexI [OF _ nth_mem])


subsection \<open>What the checks accept\<close>

lemma le_bytes_fields:
  "le_bytes 4 w = [ucast w, ucast (drop_bit 8 w), ucast (drop_bit 16 w), ucast (drop_bit 24 w)]"
  "le_bytes 8 w = [ucast w, ucast (drop_bit 8 w), ucast (drop_bit 16 w), ucast (drop_bit 24 w),
     ucast (drop_bit 32 w), ucast (drop_bit 40 w), ucast (drop_bit 48 w), ucast (drop_bit 56 w)]"
  by (simp_all add: numeral_eq_Suc)

lemma bytes_at_object:
  assumes "n \<le> length buf" "length buf < 2 ^ 32"
  shows "bytes_at (\<lambda>a. buf ! unat a) 0 n = take n buf"
proof (rule nth_equalityI)
  fix i assume i: "i < length (bytes_at (\<lambda>a. buf ! unat a) 0 n)"
  then have "unat (of_nat i :: u32) = i" using assms by (simp add: unat_of_nat take_bit_nat_eq_self)
  then show "bytes_at (\<lambda>a. buf ! unat a) 0 n ! i = take n buf ! i"
    using i assms by (simp add: bytes_at_def)
qed (use assms in simp)

definition crc_of :: "u8 list \<Rightarrow> u32" where
  "crc_of bs = NOT (crc_bytes (NOT 0) bs)"

lemma efi_crc32_value:
  assumes "length buf < 2 ^ 32"
  shows "efi_crc32 buf len = (if unat len \<le> length buf then Some (crc_of (take (unat len) buf)) else None)"
  using assms by (simp add: efi_crc32_def crc32_bytes bytes_at_object crc_of_def)

definition gpt_header_ok :: "gpt_header \<Rightarrow> u32 \<Rightarrow> u32 \<Rightarrow> bool" where
  "gpt_header_ok g lba lastlba \<longleftrightarrow>
     signature g = GPT_HEADER_SIGNATURE_UBOOT \<and>
     crc_of (take (unat (header_size g)) (gpt_header_bytes (g\<lparr>header_crc32 := 0\<rparr>))) = header_crc32 g \<and>
     my_lba g = ucast lba \<and> first_usable_lba g \<le> ucast lastlba \<and> last_usable_lba g \<le> ucast lastlba \<and>
     partition_entry_lba g \<le> ucast lastlba"

lemma zero_crc_wf: "gpt_header_wf (g\<lparr>header_crc32 := c\<rparr>) = gpt_header_wf g"
  by (simp add: gpt_header_wf_def)

lemma validate_gpt_header_cases:
  assumes "gpt_header_wf g"
  shows "validate_gpt_header g lba lastlba =
    (if signature g = GPT_HEADER_SIGNATURE_UBOOT \<and> 92 < header_size g then None
     else Some (gpt_header_ok g lba lastlba))"
proof -
  let ?b = "gpt_header_bytes (g\<lparr>header_crc32 := 0\<rparr>)"
  have l: "length ?b = 92" using header.bytes_length assms zero_crc_wf by blast
  have "efi_crc32 ?b (header_size g) =
      (if 92 < header_size g then None else Some (crc_of (take (unat (header_size g)) ?b)))"
    by (auto simp: efi_crc32_value l word_less_nat_alt)
  then show ?thesis
    by (auto simp: validate_gpt_header_def le64_to_cpu_def le32_to_cpu_def gpt_header_ok_def
      GPT_HEADER_SIGNATURE_UBOOT_def GPT_HEADER_CHROMEOS_IGNORE_def linorder_not_less)
qed


definition sample_header :: gpt_header where
  "sample_header =
     \<lparr>signature = 0x5452415020494645, revision = 0x10000, header_size = 92, header_crc32 = 0xFA2A81E6,
      reserved1 = 0, my_lba = 1, alternate_lba = 0xFFF, first_usable_lba = 34, last_usable_lba = 0xFDE,
      disk_guid = [1, 2, 3, 4, 5, 6, 7, 8, 9, 10, 11, 12, 13, 14, 15, 16], partition_entry_lba = 2,
      num_partition_entries = 128, sizeof_partition_entry = 128, partition_entry_array_crc32 = 0xA5A5A5A5\<rparr>"

lemma sample_header_ok: "gpt_header_ok sample_header 1 0x1000"
proof -
  have "gpt_header_bytes (sample_header\<lparr>header_crc32 := 0\<rparr>) = [69, 70, 73, 32, 80, 65, 82, 84, 0, 0, 1, 0, 92, 0, 0, 0, 0, 0, 0, 0, 0, 0, 0, 0, 1, 0, 0, 0, 0, 0, 0, 0, 255, 15, 0, 0, 0, 0, 0, 0, 34, 0, 0, 0, 0, 0, 0, 0, 222, 15, 0, 0, 0, 0, 0, 0, 1, 2, 3, 4, 5, 6, 7, 8, 9, 10, 11, 12, 13, 14, 15, 16, 2, 0, 0, 0, 0, 0, 0, 0, 128, 0, 0, 0, 128, 0, 0, 0, 165, 165, 165, 165]"
    by (simp add: sample_header_def gpt_header_bytes_def le_bytes_fields)
  then have "crc_of (take 92 (gpt_header_bytes (sample_header\<lparr>header_crc32 := 0\<rparr>))) = 0xFA2A81E6"
    by (simp add: crc_of_def crc_step_def crc_eval)
  then show ?thesis
    by (simp add: gpt_header_ok_def sample_header_def GPT_HEADER_SIGNATURE_UBOOT_def)
qed

lemma sample_header_wf: "gpt_header_wf sample_header"
  by (simp add: gpt_header_wf_def sample_header_def)


text \<open>C8. The header check has a defined result unless the signature is right and the size field
  exceeds the 92 bytes of the struct: then the CRC runs past the end of the object. Otherwise it
  accepts exactly the headers with the signature, with the CRC-32 (bit by bit) of their first
  \<open>header_size\<close> bytes, the CRC field zeroed, in the CRC field, with their own block as \<open>my_lba\<close>
  and with the three other block numbers not beyond the last block.\<close>

theorem gpt_header_verdict:
  assumes "gpt_header_wf g"
  shows "(validate_gpt_header g lba lastlba = None \<longleftrightarrow>
      signature g = GPT_HEADER_SIGNATURE_UBOOT \<and> 92 < header_size g) \<and>
    (validate_gpt_header g lba lastlba = Some True \<longleftrightarrow>
      signature g = GPT_HEADER_SIGNATURE_UBOOT \<and> header_size g \<le> 92 \<and>
      NOT (crc_bytes (NOT 0) (take (unat (header_size g)) (gpt_header_bytes (g\<lparr>header_crc32 := 0\<rparr>)))) = header_crc32 g \<and>
      my_lba g = ucast lba \<and> first_usable_lba g \<le> ucast lastlba \<and> last_usable_lba g \<le> ucast lastlba \<and>
      partition_entry_lba g \<le> ucast lastlba)"
  unfolding validate_gpt_header_cases [OF assms] gpt_header_ok_def crc_of_def by auto

theorem gpt_header_verdict_witness:
  "validate_gpt_header sample_header 1 0x1000 = Some True \<and>
   validate_gpt_header (sample_header\<lparr>header_size := 93\<rparr>) 1 0x1000 = None"
proof -
  have "gpt_header_wf (sample_header\<lparr>header_size := 93\<rparr>)" by (simp add: gpt_header_wf_def sample_header_def)
  then show ?thesis
    using gpt_header_verdict [OF sample_header_wf, of 1 "0x1000"]
      gpt_header_verdict [of "sample_header\<lparr>header_size := 93\<rparr>" 1 "0x1000"] sample_header_ok
    by (auto simp: gpt_header_ok_def crc_of_def sample_header_def)
qed

lemma gpt_header_ok_signature: "gpt_header_ok g lba lim \<Longrightarrow> signature g = GPT_HEADER_SIGNATURE_UBOOT"
  by (simp add: gpt_header_ok_def)

lemma corrupt_crc:
  assumes "length b = 92" "length b' = 92" "n \<le> 92" "i + 4 \<le> n" "b \<noteq> b'"
    and "\<forall>j<92. j < i \<or> i + 4 \<le> j \<longrightarrow> b ! j = b' ! j"
  shows "crc_of (take n b) \<noteq> crc_of (take n b')"
proof -
  let ?m = "\<lambda>b (a :: u32). b ! unat a :: u8"
  have u: "unat (of_nat j :: u32) = j" if "j < 92" for j using that by (simp add: unat_of_nat)
  have n: "unat (of_nat n :: u32) = n" using assms(3) by (simp add: unat_of_nat)
  obtain j where j: "j < 92" "b ! j \<noteq> b' ! j" using assms(1,2,5) nth_equalityI [of b b'] by auto
  with assms(6) have "i \<le> j" "j < i + 4" by (metis linorder_not_le)+
  then obtain k where k: "k < 4" "j = i + k" by (metis add_less_cancel_left le_Suc_ex)
  have s: "unat (of_nat i + of_nat k :: u32) = i + k" using u [of "i + k"] j(1) k(2) by simp
  have "crc32 (?m b) 0 0 (of_nat n) \<noteq> crc32 (?m b') 0 0 (of_nat n)"
    using assms(3,4,6) j k u by (intro crc32_burst [where i = i and k = k]) (auto simp: n s)
  then show ?thesis
    using assms(1-3) by (simp add: crc32_bytes n bytes_at_object crc_of_def)
qed



end
