(* ===== verification/Registers.thy ===== *)
theory Registers
  imports Platform "HOL-Library.While_Combinator"
begin

text \<open>
  Bit fields of memory-mapped registers (shared/drivers/register_access.hh). A
  \<open>RegisterBits<Policy, address, mask>\<close> is a record \<open>reg_bits\<close>; the policies are the
  functions with the prefixes \<open>RO\<close>, \<open>WO\<close> and \<open>RW\<close>. \<open>regsize_t\<close> has 32 bits here.

  \<open>plain_regs\<close> is the contract of registers that read back what was written. In it a write
  to a field is read back from that field, and from no other.
\<close>

subsection \<open>Masks\<close>

fun unshifted_mask :: "nat \<Rightarrow> u32" where
  "unshifted_mask 0 = 0"
| "unshifted_mask (Suc w) = push_bit 1 (unshifted_mask w) OR 1"

definition mask_v :: "nat \<Rightarrow> nat \<Rightarrow> u32" where
  "mask_v offset width = push_bit offset (unshifted_mask width)"

definition first_bit :: "u32 \<Rightarrow> nat" where
  "first_bit m =
     (if m = 0 then 32
      else snd (while (\<lambda>(m, fb). m AND 1 = 0) (\<lambda>(m, fb). (drop_bit 1 m, fb + 1)) (m, 0)))"

lemma bit_unshifted_mask: "bit (unshifted_mask w) i \<longleftrightarrow> i < w \<and> i < 32"
proof (induction w arbitrary: i)
  case (Suc w)
  show ?case
    unfolding unshifted_mask.simps bit_or_iff bit_push_bit_iff
    using Suc [of "i - 1"] by (cases i) auto
qed simp

lemma bit_mask_v: "bit (mask_v off w) i \<longleftrightarrow> off \<le> i \<and> i < off + w \<and> i < 32"
  by (auto simp: mask_v_def bit_simps bit_unshifted_mask)

lemma even_word_bit0: "(m :: u32) AND 1 = 0 \<longleftrightarrow> \<not> bit m 0"
  by (simp add: and_one_eq bit_0 mod2_eq_if)

lemma first_bit_spec:
  assumes "m \<noteq> 0"
  shows "bit m (first_bit m) \<and> (\<forall>i<first_bit m. \<not> bit m i)"
proof -
  let ?I = "\<lambda>(n, fb). n = drop_bit fb m \<and> n \<noteq> 0 \<and> (\<forall>i<fb. \<not> bit m i)"
  let ?w = "while (\<lambda>(m, fb). m AND 1 = 0) (\<lambda>(m, fb). (drop_bit 1 m, fb + 1)) (m, 0 :: nat)"
  have "case ?w of (n, fb) \<Rightarrow> ?I (n, fb) \<and> n AND 1 \<noteq> 0"
  proof (rule while_rule [where P = ?I and r = "measure (\<lambda>(n, fb). unat n)"])
    show "?I (m, 0)" using assms by simp
  next
    fix s assume s: "?I s" "case s of (m, fb) \<Rightarrow> m AND 1 = 0"
    obtain n fb where p: "s = (n, fb)" by fastforce
    have n: "n = drop_bit fb m" "n \<noteq> 0" "\<forall>i<fb. \<not> bit m i" "\<not> bit n 0"
      using s p unfolding even_word_bit0 prod.case by auto
    have u: "unat (drop_bit 1 n) = unat n div 2" by (simp add: drop_bit_eq_div unat_div)
    have "\<not> bit (unat n) 0" using n(4) by (simp only: bit_unsigned_iff) simp
    then have "even (unat n)" by (simp add: bit_0)
    moreover have "unat n \<noteq> 0" using n(2) by (simp add: unat_eq_0)
    ultimately have "unat n div 2 \<noteq> 0" by presburger
    then have d: "drop_bit 1 n \<noteq> 0" using u by force
    have "\<not> bit m fb" using n(1,4) by (simp add: bit_simps)
    then have "\<forall>i<Suc fb. \<not> bit m i" using n(3) by (auto simp: less_Suc_eq)
    then show "?I (case s of (m, fb) \<Rightarrow> (drop_bit 1 m, fb + 1))"
      using p n(1) d by (simp add: drop_bit_drop_bit)
    have "unat (drop_bit 1 n) < unat n"
      using \<open>unat n \<noteq> 0\<close> u by simp
    then show "(case s of (m, fb) \<Rightarrow> (drop_bit 1 m, fb + 1), s) \<in> measure (\<lambda>(n, fb). unat n)"
      using p by simp
  qed (auto simp: split_def)
  then have "bit (drop_bit (snd ?w) m) 0" "\<forall>i < snd ?w. \<not> bit m i"
    by (auto simp: split_def even_word_bit0)
  then show ?thesis using assms by (simp add: first_bit_def bit_simps)
qed

lemma first_bit_unique: "bit m n \<Longrightarrow> \<forall>i<n. \<not> bit m i \<Longrightarrow> first_bit m = n"
  using first_bit_spec [of m] by (metis bit_0_eq bot_apply bot_bool_def linorder_neqE_nat)

lemma first_bit_mask_v: "0 < w \<Longrightarrow> off < 32 \<Longrightarrow> first_bit (mask_v off w) = off"
  by (rule first_bit_unique) (auto simp: bit_mask_v)

lemma field_zero: "drop_bit (first_bit m) (v AND m) = 0 \<longleftrightarrow> v AND m = 0"
proof
  assume z: "drop_bit (first_bit m) (v AND m) = 0"
  show "v AND m = 0"
  proof (rule bit_word_eqI)
    fix n
    have "\<not> bit (drop_bit (first_bit m) (v AND m)) (n - first_bit m)" by (simp only: z bit_0_eq) simp
    moreover have "first_bit m \<le> n" if "bit m n"
      using first_bit_spec [of m] that by (metis bit_0_eq bot_apply bot_bool_def linorder_not_le)
    ultimately show "bit (v AND m) n = bit 0 n" by (auto simp: bit_simps)
  qed
qed simp

subsection \<open>Fields\<close>

record reg_bits =
  BaseAddress :: u32
  Mask :: u32

definition bits_offset :: "reg_bits \<Rightarrow> nat" where
  "bits_offset r = first_bit (Mask r)"

definition RO_read :: "'d platform \<Rightarrow> reg_bits \<Rightarrow> 'd sys \<Rightarrow> u32 \<times> 'd sys" where
  "RO_read h r s = (let (v, s) = readl h (BaseAddress r) s in (drop_bit (bits_offset r) (v AND Mask r), s))"

definition WO_write :: "'d platform \<Rightarrow> reg_bits \<Rightarrow> u32 \<Rightarrow> 'd sys \<Rightarrow> 'd sys" where
  "WO_write h r val s = writel h (push_bit (bits_offset r) val AND Mask r) (BaseAddress r) s"

definition WO_set :: "'d platform \<Rightarrow> reg_bits \<Rightarrow> 'd sys \<Rightarrow> 'd sys" where
  "WO_set h r s = writel h (Mask r) (BaseAddress r) s"

definition RW_write :: "'d platform \<Rightarrow> reg_bits \<Rightarrow> u32 \<Rightarrow> 'd sys \<Rightarrow> 'd sys" where
  "RW_write h r val s =
     (let (v, s) = readl h (BaseAddress r) s
      in writel h ((v AND NOT (Mask r)) OR (push_bit (bits_offset r) val AND Mask r)) (BaseAddress r) s)"

definition RW_set :: "'d platform \<Rightarrow> reg_bits \<Rightarrow> 'd sys \<Rightarrow> 'd sys" where
  "RW_set h r s = (let (v, s) = readl h (BaseAddress r) s in writel h (v OR Mask r) (BaseAddress r) s)"

definition RW_clear :: "'d platform \<Rightarrow> reg_bits \<Rightarrow> 'd sys \<Rightarrow> 'd sys" where
  "RW_clear h r s = (let (v, s) = readl h (BaseAddress r) s in writel h (v AND NOT (Mask r)) (BaseAddress r) s)"

text \<open>\<open>RegisterDualSetClear\<close>: a bit with one register to set and one to clear it.\<close>

record set_clear =
  SetT :: reg_bits
  ClearT :: reg_bits

definition dual_set :: "'d platform \<Rightarrow> set_clear \<Rightarrow> 'd sys \<Rightarrow> 'd sys" where
  "dual_set h x s = WO_set h (SetT x) s"

definition dual_clear :: "'d platform \<Rightarrow> set_clear \<Rightarrow> 'd sys \<Rightarrow> 'd sys" where
  "dual_clear h x s = WO_set h (ClearT x) s"

subsection \<open>Registers that read back what was written\<close>

locale plain_regs =
  fixes h :: "'d platform"
    and regs :: "'d \<Rightarrow> u32 \<Rightarrow> u32"
    and plain :: "u32 set"
  assumes rd_plain: "a \<in> plain \<Longrightarrow> fst (rd32 h a d) = regs d a"
    and rd_keeps: "regs (snd (rd32 h a d)) = regs d"
    and wr_writes: "regs (wr32 h v a d) = (regs d)(a := v)"
begin

lemma readl_regs [simp]:
  "a \<in> plain \<Longrightarrow> fst (readl h a s) = regs (dev s) a" "regs (dev (snd (readl h a s))) = regs (dev s)"
  by (simp_all add: readl_def rd_plain rd_keeps split_def Let_def)

lemma writel_regs [simp]: "regs (dev (writel h v a s)) = (regs (dev s))(a := v)"
  by (simp add: writel_def wr_writes)

lemma fields_regs:
  "BaseAddress r \<in> plain \<Longrightarrow> fst (RO_read h r s) = drop_bit (bits_offset r) (regs (dev s) (BaseAddress r) AND Mask r)"
  "regs (dev (snd (RO_read h r s))) = regs (dev s)"
  "regs (dev (WO_write h r v s)) = (regs (dev s))(BaseAddress r := push_bit (bits_offset r) v AND Mask r)"
  "regs (dev (WO_set h r s)) = (regs (dev s))(BaseAddress r := Mask r)"
  "BaseAddress r \<in> plain \<Longrightarrow> regs (dev (RW_write h r v s)) = (regs (dev s))(BaseAddress r :=
     (regs (dev s) (BaseAddress r) AND NOT (Mask r)) OR (push_bit (bits_offset r) v AND Mask r))"
  "BaseAddress r \<in> plain \<Longrightarrow> regs (dev (RW_set h r s)) =
     (regs (dev s))(BaseAddress r := regs (dev s) (BaseAddress r) OR Mask r)"
  "BaseAddress r \<in> plain \<Longrightarrow> regs (dev (RW_clear h r s)) =
     (regs (dev s))(BaseAddress r := regs (dev s) (BaseAddress r) AND NOT (Mask r))"
  by (simp_all add: RO_read_def WO_write_def WO_set_def RW_write_def RW_set_def RW_clear_def split_def Let_def)

end

lemma field_of_write:
  assumes "m = mask_v off w" "0 < w" "off + w \<le> 32"
  shows "drop_bit (first_bit m) (((x AND NOT m) OR (push_bit (first_bit m) v AND m)) AND m) = take_bit w v"
proof -
  have "first_bit m = off" using assms first_bit_mask_v by simp
  then show ?thesis
    using assms by (intro bit_word_eqI) (auto simp: bit_simps bit_mask_v)
qed

lemma other_field_of_write:
  fixes m q x y :: u32
  assumes "q AND m = 0"
  shows "((x AND NOT m) OR (y AND m)) AND q = x AND q"
proof (rule bit_word_eqI)
  fix n
  have "\<not> (bit q n \<and> bit m n)" using assms by (metis bit_0_eq bit_and_iff bot_apply bot_bool_def)
  then show "bit (((x AND NOT m) OR (y AND m)) AND q) n = bit (x AND q) n" if "n < LENGTH(32)"
    using that by (auto simp: bit_simps)
qed

interpretation cell_regs: plain_regs "cell_ram sound_cell (\<lambda>a. a)" "\<lambda>m. m" UNIV
  by unfold_locales (simp_all add: cell_ram_def sound_cell_def)

text \<open>C29. A field of consecutive bits reads back the value written, cut to its width, and every
  other field, in the same register or in another, reads as before.\<close>

theorem field_round_trip:
  assumes "plain_regs h regs plain" "BaseAddress r \<in> plain"
    and "Mask r = mask_v off w" "0 < w" "off + w \<le> 32"
  shows "fst (RO_read h r (RW_write h r v s)) = take_bit w v \<and>
    (\<forall>q. BaseAddress q \<in> plain \<and> (BaseAddress q \<noteq> BaseAddress r \<or> Mask q AND Mask r = 0) \<longrightarrow>
       fst (RO_read h q (RW_write h r v s)) = fst (RO_read h q s))"
proof -
  note f = plain_regs.fields_regs [OF assms(1)]
  have "fst (RO_read h r (RW_write h r v s)) = take_bit w v"
    unfolding f(1,5) [OF assms(2)] fun_upd_same bits_offset_def by (rule field_of_write [OF assms(3-5)])
  moreover have "fst (RO_read h q (RW_write h r v s)) = fst (RO_read h q s)"
    if q: "BaseAddress q \<in> plain" "BaseAddress q \<noteq> BaseAddress r \<or> Mask q AND Mask r = 0" for q
    unfolding f(1) [OF q(1)] f(5) [OF assms(2)]
    using q(2) by (cases "BaseAddress q = BaseAddress r") (simp_all add: other_field_of_write)
  ultimately show ?thesis by blast
qed

theorem field_round_trip_witness:
  "fst (RO_read (cell_ram sound_cell (\<lambda>a. a)) \<lparr>BaseAddress = 0x50000098, Mask = 0x003F0000\<rparr>
     (RW_write (cell_ram sound_cell (\<lambda>a. a)) \<lparr>BaseAddress = 0x50000098, Mask = 0x003F0000\<rparr> 2
        \<lparr>dev = \<lambda>_. 0xFFFFFFFF, rand_y = 1, bist_error_max = 0, bist_seed = 0, result_msg = None\<rparr>)) = 2"
proof -
  have "(0x003F0000 :: u32) = mask_v 16 6" by (simp add: mask_v_def numeral_eq_Suc)
  then show ?thesis
    using field_round_trip [OF cell_regs.plain_regs_axioms, of "\<lparr>BaseAddress = 0x50000098, Mask = 0x003F0000\<rparr>" 16 6 2]
    by simp
qed

end
