(* ===== verification/DdrRegs.thy ===== *)
theory DdrRegs
  imports DdrCtrl
begin

text \<open>
  The register files of the DDR controller and of its PHY as the C structs of
  ddr/stm32mp1_ddr_regs.h lay them out: the members in order with their sizes in bytes.
  \<open>offsetof\<close> is what the compiler computes from them. The constants of DdrCtrl and the
  \<open>DXN\<close> macros, which the header writes as numbers, agree with the structs.
\<close>

type_synonym layout = "(string \<times> int) list"

fun offsetof :: "layout \<Rightarrow> string \<Rightarrow> int option" where
  "offsetof [] x = None"
| "offsetof ((y, k) # l) x = (if x = y then Some 0 else map_option ((+) k) (offsetof l x))"

definition sizeof :: "layout \<Rightarrow> int" where
  "sizeof l = sum_list (map snd l)"

definition stm32mp1_ddrctl :: layout where
  "stm32mp1_ddrctl =
    [(''mstr'', 4), (''stat'', 4), (''reserved008'', 8), (''mrctrl0'', 4), (''mrctrl1'', 4),
     (''mrstat'', 4), (''reserved01c'', 4), (''derateen'', 4), (''derateint'', 4),
     (''reserved028'', 8), (''pwrctl'', 4), (''pwrtmg'', 4), (''hwlpctl'', 4),
     (''reserved03c'', 0x14), (''rfshctl0'', 4), (''reserved054'', 4), (''reserved058'', 4),
     (''reserved05C'', 4), (''rfshctl3'', 4), (''rfshtmg'', 4), (''reserved068'', 0x58),
     (''crcparctl0'', 4), (''reserved0c4'', 4), (''reserved0c8'', 4), (''crcparstat'', 4),
     (''init0'', 4), (''init1'', 4), (''init2'', 4), (''init3'', 4), (''init4'', 4),
     (''init5'', 4), (''reserved0e8'', 4), (''reserved0ec'', 4), (''dimmctl'', 4),
     (''reserved0f4'', 12), (''dramtmg0'', 4), (''dramtmg1'', 4), (''dramtmg2'', 4),
     (''dramtmg3'', 4), (''dramtmg4'', 4), (''dramtmg5'', 4), (''dramtmg6'', 4),
     (''dramtmg7'', 4), (''dramtmg8'', 4), (''reserved124'', 0x14), (''dramtmg14'', 4),
     (''dramtmg15'', 4), (''reserved140'', 0x40), (''zqctl0'', 4), (''zqctl1'', 4),
     (''zqctl2'', 4), (''zqstat'', 4), (''dfitmg0'', 4), (''dfitmg1'', 4), (''dfilpcfg0'', 4),
     (''reserved19c'', 4), (''dfiupd0'', 4), (''dfiupd1'', 4), (''dfiupd2'', 4),
     (''reserved1ac'', 4), (''dfimisc'', 4), (''reserved1b4'', 8), (''dfistat'', 4),
     (''reserved1c0'', 4), (''dfiphymstr'', 4), (''reserved1c8'', 0x3c), (''addrmap1'', 4),
     (''addrmap2'', 4), (''addrmap3'', 4), (''addrmap4'', 4), (''addrmap5'', 4),
     (''addrmap6'', 4), (''reserved21c'', 8), (''addrmap9'', 4), (''addrmap10'', 4),
     (''addrmap11'', 4), (''reserved230'', 16), (''odtcfg'', 4), (''odtmap'', 4),
     (''reserved248'', 8), (''sched'', 4), (''sched1'', 4), (''reserved258'', 4),
     (''perfhpr1'', 4), (''reserved260'', 4), (''perflpr1'', 4), (''reserved268'', 4),
     (''perfwr1'', 4), (''reserved27c'', 0x90), (''dbg0'', 4), (''dbg1'', 4), (''dbgcam'', 4),
     (''dbgcmd'', 4), (''dbgstat'', 4), (''reserved314'', 12), (''swctl'', 4),
     (''swstat'', 4), (''reserved328'', 0x44), (''poisoncfg'', 4), (''poisonstat'', 4),
     (''reserved374'', 0x88), (''pstat'', 4), (''pccfg'', 4), (''pcfgr_0'', 4),
     (''pcfgw_0'', 4), (''reserved40c'', 0x84), (''pctrl_0'', 4), (''pcfgqos0_0'', 4),
     (''pcfgqos1_0'', 4), (''pcfgwqos0_0'', 4), (''pcfgwqos1_0'', 4), (''reserved4a4'', 16),
     (''pcfgr_1'', 4), (''pcfgw_1'', 4), (''reserved4bc'', 0x84), (''pctrl_1'', 4),
     (''pcfgqos0_1'', 4), (''pcfgqos1_1'', 4), (''pcfgwqos0_1'', 4), (''pcfgwqos1_1'', 4)]"

definition stm32mp1_ddrphy :: layout where
  "stm32mp1_ddrphy =
    [(''ridr'', 4), (''pir'', 4), (''pgcr'', 4), (''pgsr'', 4), (''dllgcr'', 4),
     (''acdllcr'', 4), (''ptr0'', 4), (''ptr1'', 4), (''ptr2'', 4), (''aciocr'', 4),
     (''dxccr'', 4), (''dsgcr'', 4), (''dcr'', 4), (''dtpr0'', 4), (''dtpr1'', 4),
     (''dtpr2'', 4), (''mr0'', 4), (''mr1'', 4), (''mr2'', 4), (''mr3'', 4), (''odtcr'', 4),
     (''dtar'', 4), (''dtdr0'', 4), (''dtdr1'', 4), (''res1'', 0x60), (''dcuar'', 4),
     (''dcudr'', 4), (''dcurr'', 4), (''dculr'', 4), (''dcugcr'', 4), (''dcutpr'', 4),
     (''dcusr0'', 4), (''dcusr1'', 4), (''res2'', 0x20), (''bistrr'', 4), (''bistmskr0'', 4),
     (''bistmskr1'', 4), (''bistwcr'', 4), (''bistlsr'', 4), (''bistar0'', 4),
     (''bistar1'', 4), (''bistar2'', 4), (''bistupdr'', 4), (''bistgsr'', 4),
     (''bistwer'', 4), (''bistber0'', 4), (''bistber1'', 4), (''bistber2'', 4),
     (''bistwcsr'', 4), (''bistfwr0'', 4), (''bistfwr1'', 4), (''res3'', 0x34), (''gpr0'', 4),
     (''gpr1'', 4), (''zq0cr0'', 4), (''zq0cr1'', 4), (''zq0sr0'', 4), (''zq0sr1'', 4),
     (''res4'', 0x30), (''dx0gcr'', 4), (''dx0gsr0'', 4), (''dx0gsr1'', 4), (''dx0dllcr'', 4),
     (''dx0dqtr'', 4), (''dx0dqstr'', 4), (''res5'', 0x28), (''dx1gcr'', 4), (''dx1gsr0'', 4),
     (''dx1gsr1'', 4), (''dx1dllcr'', 4), (''dx1dqtr'', 4), (''dx1dqstr'', 4),
     (''res6'', 0x28), (''dx2gcr'', 4), (''dx2gsr0'', 4), (''dx2gsr1'', 4), (''dx2dllcr'', 4),
     (''dx2dqtr'', 4), (''dx2dqstr'', 4), (''res7'', 0x28), (''dx3gcr'', 4), (''dx3gsr0'', 4),
     (''dx3gsr1'', 4), (''dx3dllcr'', 4), (''dx3dqtr'', 4), (''dx3dqstr'', 4)]"

text \<open>One layout. Every register offset that the code writes as a number is the offset of
  the member of that name in its struct, the \<open>DXN\<close> macros address the members of byte lane
  0 to 3, and the structs end where the last comment says.\<close>

theorem register_layout:
  "list_all (\<lambda>(x, a). map_option word_of_int (offsetof stm32mp1_ddrctl x) = Some a)
     [(''mstr'', ctl_mstr), (''stat'', ctl_stat), (''derateen'', ctl_derateen), (''pwrctl'', ctl_pwrctl),
      (''rfshctl3'', ctl_rfshctl3), (''dfimisc'', ctl_dfimisc), (''addrmap1'', ctl_addrmap1),
      (''addrmap2'', ctl_addrmap2), (''addrmap3'', ctl_addrmap3), (''addrmap4'', ctl_addrmap4),
      (''addrmap5'', ctl_addrmap5), (''addrmap6'', ctl_addrmap6), (''swctl'', ctl_swctl),
      (''swstat'', ctl_swstat)] \<and>
   list_all (\<lambda>(x, a). map_option word_of_int (offsetof stm32mp1_ddrphy x) = Some a)
     [(''pir'', phy_pir), (''pgcr'', phy_pgcr), (''pgsr'', phy_pgsr), (''bistrr'', phy_bistrr),
      (''bistwcr'', phy_bistwcr), (''bistlsr'', phy_bistlsr), (''bistar0'', phy_bistar0),
      (''bistar1'', phy_bistar1), (''bistar2'', phy_bistar2), (''bistgsr'', phy_bistgsr),
      (''bistwcsr'', phy_bistwcsr),
      (''dx0gcr'', DXNGCR 0 0), (''dx0dllcr'', DXNDLLCR 0 0), (''dx0dqtr'', DXNDQTR 0 0), (''dx0dqstr'', DXNDQSTR 0 0),
      (''dx1gcr'', DXNGCR 0 1), (''dx1dllcr'', DXNDLLCR 0 1), (''dx1dqtr'', DXNDQTR 0 1), (''dx1dqstr'', DXNDQSTR 0 1),
      (''dx2gcr'', DXNGCR 0 2), (''dx2dllcr'', DXNDLLCR 0 2), (''dx2dqtr'', DXNDQTR 0 2), (''dx2dqstr'', DXNDQSTR 0 2),
      (''dx3gcr'', DXNGCR 0 3), (''dx3dllcr'', DXNDLLCR 0 3), (''dx3dqtr'', DXNDQTR 0 3), (''dx3dqstr'', DXNDQSTR 0 3)] \<and>
   sizeof stm32mp1_ddrctl = 0x554 \<and> sizeof stm32mp1_ddrphy = 0x298"
  by code_simp

end
