(* ===== verification/DdrConfig.thy ===== *)
theory DdrConfig
  imports DdrRegs
begin

text \<open>
  The configuration of the DDR (ddr/stm32mp1_ddr.h, ddr/stm32mp1_ddr.cc,
  ddr/stm32mp1_ram.cc): the parameter structs, the tables that say which register takes
  which parameter, and the configuration of the OSD32MP15x-BRK board, whose values are the
  macros of stm32mp15-osd32mp1-ddr3-1x4Gb.dtsi.

  A parameter struct is a record; \<open>..._words\<close> is its memory, a word for each member in
  order, and \<open>..._fields\<close> the names of the members, for \<open>offsetof\<close>.
\<close>

subsection \<open>The parameter structs\<close>

record stm32mp1_ddrctrl_reg =
  mstr :: u32
  mrctrl0 :: u32
  mrctrl1 :: u32
  derateen :: u32
  derateint :: u32
  pwrctl :: u32
  pwrtmg :: u32
  hwlpctl :: u32
  rfshctl0 :: u32
  rfshctl3 :: u32
  crcparctl0 :: u32
  zqctl0 :: u32
  dfitmg0 :: u32
  dfitmg1 :: u32
  dfilpcfg0 :: u32
  dfiupd0 :: u32
  dfiupd1 :: u32
  dfiupd2 :: u32
  dfiphymstr :: u32
  odtmap :: u32
  dbg0 :: u32
  dbg1 :: u32
  dbgcmd :: u32
  poisoncfg :: u32
  pccfg :: u32

record stm32mp1_ddrctrl_timing =
  rfshtmg :: u32
  dramtmg0 :: u32
  dramtmg1 :: u32
  dramtmg2 :: u32
  dramtmg3 :: u32
  dramtmg4 :: u32
  dramtmg5 :: u32
  dramtmg6 :: u32
  dramtmg7 :: u32
  dramtmg8 :: u32
  dramtmg14 :: u32
  odtcfg :: u32

record stm32mp1_ddrctrl_map =
  addrmap1 :: u32
  addrmap2 :: u32
  addrmap3 :: u32
  addrmap4 :: u32
  addrmap5 :: u32
  addrmap6 :: u32
  addrmap9 :: u32
  addrmap10 :: u32
  addrmap11 :: u32

record stm32mp1_ddrctrl_perf =
  sched :: u32
  sched1 :: u32
  perfhpr1 :: u32
  perflpr1 :: u32
  perfwr1 :: u32
  pcfgr_0 :: u32
  pcfgw_0 :: u32
  pcfgqos0_0 :: u32
  pcfgqos1_0 :: u32
  pcfgwqos0_0 :: u32
  pcfgwqos1_0 :: u32
  pcfgr_1 :: u32
  pcfgw_1 :: u32
  pcfgqos0_1 :: u32
  pcfgqos1_1 :: u32
  pcfgwqos0_1 :: u32
  pcfgwqos1_1 :: u32

record stm32mp1_ddrphy_reg =
  pgcr :: u32
  aciocr :: u32
  dxccr :: u32
  dsgcr :: u32
  dcr :: u32
  odtcr :: u32
  zq0cr1 :: u32
  dx0gcr :: u32
  dx1gcr :: u32
  dx2gcr :: u32
  dx3gcr :: u32

record stm32mp1_ddrphy_timing =
  ptr0 :: u32
  ptr1 :: u32
  ptr2 :: u32
  dtpr0 :: u32
  dtpr1 :: u32
  dtpr2 :: u32
  mr0 :: u32
  mr1 :: u32
  mr2 :: u32
  mr3 :: u32

record stm32mp1_ddrphy_cal =
  dx0dllcr :: u32
  dx0dqtr :: u32
  dx0dqstr :: u32
  dx1dllcr :: u32
  dx1dqtr :: u32
  dx1dqstr :: u32
  dx2dllcr :: u32
  dx2dqtr :: u32
  dx2dqstr :: u32
  dx3dllcr :: u32
  dx3dqtr :: u32
  dx3dqstr :: u32

record stm32mp1_ddr_info =
  mem_name :: string
  mem_speed :: u32   \<comment> \<open>in kHz\<close>
  mem_size :: u32

record stm32mp1_ddr_config =
  info :: stm32mp1_ddr_info
  c_reg :: stm32mp1_ddrctrl_reg
  c_timing :: stm32mp1_ddrctrl_timing
  c_map :: stm32mp1_ddrctrl_map
  c_perf :: stm32mp1_ddrctrl_perf
  p_reg :: stm32mp1_ddrphy_reg
  p_timing :: stm32mp1_ddrphy_timing
  p_cal :: stm32mp1_ddrphy_cal
  p_cal_present :: bool

definition stm32mp1_ddrctrl_reg_fields :: "string list" where
  "stm32mp1_ddrctrl_reg_fields =
     [''mstr'', ''mrctrl0'', ''mrctrl1'', ''derateen'', ''derateint'', ''pwrctl'',
      ''pwrtmg'', ''hwlpctl'', ''rfshctl0'', ''rfshctl3'', ''crcparctl0'', ''zqctl0'',
      ''dfitmg0'', ''dfitmg1'', ''dfilpcfg0'', ''dfiupd0'', ''dfiupd1'', ''dfiupd2'',
      ''dfiphymstr'', ''odtmap'', ''dbg0'', ''dbg1'', ''dbgcmd'', ''poisoncfg'', ''pccfg'']"

definition stm32mp1_ddrctrl_timing_fields :: "string list" where
  "stm32mp1_ddrctrl_timing_fields =
     [''rfshtmg'', ''dramtmg0'', ''dramtmg1'', ''dramtmg2'', ''dramtmg3'', ''dramtmg4'',
      ''dramtmg5'', ''dramtmg6'', ''dramtmg7'', ''dramtmg8'', ''dramtmg14'', ''odtcfg'']"

definition stm32mp1_ddrctrl_map_fields :: "string list" where
  "stm32mp1_ddrctrl_map_fields =
     [''addrmap1'', ''addrmap2'', ''addrmap3'', ''addrmap4'', ''addrmap5'', ''addrmap6'',
      ''addrmap9'', ''addrmap10'', ''addrmap11'']"

definition stm32mp1_ddrctrl_perf_fields :: "string list" where
  "stm32mp1_ddrctrl_perf_fields =
     [''sched'', ''sched1'', ''perfhpr1'', ''perflpr1'', ''perfwr1'', ''pcfgr_0'',
      ''pcfgw_0'', ''pcfgqos0_0'', ''pcfgqos1_0'', ''pcfgwqos0_0'', ''pcfgwqos1_0'',
      ''pcfgr_1'', ''pcfgw_1'', ''pcfgqos0_1'', ''pcfgqos1_1'', ''pcfgwqos0_1'',
      ''pcfgwqos1_1'']"

definition stm32mp1_ddrphy_reg_fields :: "string list" where
  "stm32mp1_ddrphy_reg_fields =
     [''pgcr'', ''aciocr'', ''dxccr'', ''dsgcr'', ''dcr'', ''odtcr'', ''zq0cr1'',
      ''dx0gcr'', ''dx1gcr'', ''dx2gcr'', ''dx3gcr'']"

definition stm32mp1_ddrphy_timing_fields :: "string list" where
  "stm32mp1_ddrphy_timing_fields =
     [''ptr0'', ''ptr1'', ''ptr2'', ''dtpr0'', ''dtpr1'', ''dtpr2'', ''mr0'', ''mr1'',
      ''mr2'', ''mr3'']"

definition stm32mp1_ddrphy_cal_fields :: "string list" where
  "stm32mp1_ddrphy_cal_fields =
     [''dx0dllcr'', ''dx0dqtr'', ''dx0dqstr'', ''dx1dllcr'', ''dx1dqtr'', ''dx1dqstr'',
      ''dx2dllcr'', ''dx2dqtr'', ''dx2dqstr'', ''dx3dllcr'', ''dx3dqtr'', ''dx3dqstr'']"

definition stm32mp1_ddrctrl_reg_words :: "stm32mp1_ddrctrl_reg \<Rightarrow> u32 list" where
  "stm32mp1_ddrctrl_reg_words x =
     [mstr x, mrctrl0 x, mrctrl1 x, derateen x, derateint x, pwrctl x, pwrtmg x, hwlpctl x,
      rfshctl0 x, rfshctl3 x, crcparctl0 x, zqctl0 x, dfitmg0 x, dfitmg1 x, dfilpcfg0 x,
      dfiupd0 x, dfiupd1 x, dfiupd2 x, dfiphymstr x, odtmap x, dbg0 x, dbg1 x, dbgcmd x,
      poisoncfg x, pccfg x]"

definition stm32mp1_ddrctrl_timing_words :: "stm32mp1_ddrctrl_timing \<Rightarrow> u32 list" where
  "stm32mp1_ddrctrl_timing_words x =
     [rfshtmg x, dramtmg0 x, dramtmg1 x, dramtmg2 x, dramtmg3 x, dramtmg4 x, dramtmg5 x,
      dramtmg6 x, dramtmg7 x, dramtmg8 x, dramtmg14 x, odtcfg x]"

definition stm32mp1_ddrctrl_map_words :: "stm32mp1_ddrctrl_map \<Rightarrow> u32 list" where
  "stm32mp1_ddrctrl_map_words x =
     [addrmap1 x, addrmap2 x, addrmap3 x, addrmap4 x, addrmap5 x, addrmap6 x, addrmap9 x,
      addrmap10 x, addrmap11 x]"

definition stm32mp1_ddrctrl_perf_words :: "stm32mp1_ddrctrl_perf \<Rightarrow> u32 list" where
  "stm32mp1_ddrctrl_perf_words x =
     [sched x, sched1 x, perfhpr1 x, perflpr1 x, perfwr1 x, pcfgr_0 x, pcfgw_0 x,
      pcfgqos0_0 x, pcfgqos1_0 x, pcfgwqos0_0 x, pcfgwqos1_0 x, pcfgr_1 x, pcfgw_1 x,
      pcfgqos0_1 x, pcfgqos1_1 x, pcfgwqos0_1 x, pcfgwqos1_1 x]"

definition stm32mp1_ddrphy_reg_words :: "stm32mp1_ddrphy_reg \<Rightarrow> u32 list" where
  "stm32mp1_ddrphy_reg_words x =
     [pgcr x, aciocr x, dxccr x, dsgcr x, dcr x, odtcr x, zq0cr1 x, dx0gcr x, dx1gcr x,
      dx2gcr x, dx3gcr x]"

definition stm32mp1_ddrphy_timing_words :: "stm32mp1_ddrphy_timing \<Rightarrow> u32 list" where
  "stm32mp1_ddrphy_timing_words x =
     [ptr0 x, ptr1 x, ptr2 x, dtpr0 x, dtpr1 x, dtpr2 x, mr0 x, mr1 x, mr2 x, mr3 x]"

definition stm32mp1_ddrphy_cal_words :: "stm32mp1_ddrphy_cal \<Rightarrow> u32 list" where
  "stm32mp1_ddrphy_cal_words x =
     [dx0dllcr x, dx0dqtr x, dx0dqstr x, dx1dllcr x, dx1dqtr x, dx1dqstr x, dx2dllcr x,
      dx2dqtr x, dx2dqstr x, dx3dllcr x, dx3dqtr x, dx3dqstr x]"

text \<open>A struct of words.\<close>

definition words_of :: "string list \<Rightarrow> layout" where
  "words_of fs = map (\<lambda>x. (x, 4)) fs"

subsection \<open>The tables of registers\<close>

record reg_desc =
  reg_name :: string
  reg_offset :: "16 word"
  par_offset :: u8

definition INVALID_OFFSET :: u8 where "INVALID_OFFSET = 0xFF"

definition DDRCTL_REG :: "string \<Rightarrow> layout \<Rightarrow> reg_desc" where
  "DDRCTL_REG x y = \<lparr>reg_name = x, reg_offset = word_of_int (the (offsetof stm32mp1_ddrctl x)),
     par_offset = word_of_int (the (offsetof y x))\<rparr>"

definition DDRPHY_REG :: "string \<Rightarrow> layout \<Rightarrow> reg_desc" where
  "DDRPHY_REG x y = \<lparr>reg_name = x, reg_offset = word_of_int (the (offsetof stm32mp1_ddrphy x)),
     par_offset = word_of_int (the (offsetof y x))\<rparr>"

definition DDR_REG_DYN :: "string \<Rightarrow> reg_desc" where
  "DDR_REG_DYN x = \<lparr>reg_name = x, reg_offset = word_of_int (the (offsetof stm32mp1_ddrctl x)),
     par_offset = INVALID_OFFSET\<rparr>"

definition DDRPHY_REG_DYN :: "string \<Rightarrow> reg_desc" where
  "DDRPHY_REG_DYN x = \<lparr>reg_name = x, reg_offset = word_of_int (the (offsetof stm32mp1_ddrphy x)),
     par_offset = INVALID_OFFSET\<rparr>"

definition ddr_reg :: "reg_desc list" where
  "ddr_reg = map (\<lambda>x. DDRCTL_REG x (words_of stm32mp1_ddrctrl_reg_fields))
     [''mstr'', ''mrctrl0'', ''mrctrl1'', ''derateen'', ''derateint'', ''pwrctl'',
      ''pwrtmg'', ''hwlpctl'', ''rfshctl0'', ''rfshctl3'', ''crcparctl0'', ''zqctl0'',
      ''dfitmg0'', ''dfitmg1'', ''dfilpcfg0'', ''dfiupd0'', ''dfiupd1'', ''dfiupd2'',
      ''dfiphymstr'', ''odtmap'', ''dbg0'', ''dbg1'', ''dbgcmd'', ''poisoncfg'', ''pccfg'']"

definition ddr_timing :: "reg_desc list" where
  "ddr_timing = map (\<lambda>x. DDRCTL_REG x (words_of stm32mp1_ddrctrl_timing_fields))
     [''rfshtmg'', ''dramtmg0'', ''dramtmg1'', ''dramtmg2'', ''dramtmg3'', ''dramtmg4'',
      ''dramtmg5'', ''dramtmg6'', ''dramtmg7'', ''dramtmg8'', ''dramtmg14'', ''odtcfg'']"

definition ddr_map :: "reg_desc list" where
  "ddr_map = map (\<lambda>x. DDRCTL_REG x (words_of stm32mp1_ddrctrl_map_fields))
     [''addrmap1'', ''addrmap2'', ''addrmap3'', ''addrmap4'', ''addrmap5'', ''addrmap6'',
      ''addrmap9'', ''addrmap10'', ''addrmap11'']"

definition ddr_perf :: "reg_desc list" where
  "ddr_perf = map (\<lambda>x. DDRCTL_REG x (words_of stm32mp1_ddrctrl_perf_fields))
     [''sched'', ''sched1'', ''perfhpr1'', ''perflpr1'', ''perfwr1'', ''pcfgr_0'',
      ''pcfgw_0'', ''pcfgqos0_0'', ''pcfgqos1_0'', ''pcfgwqos0_0'', ''pcfgwqos1_0'',
      ''pcfgr_1'', ''pcfgw_1'', ''pcfgqos0_1'', ''pcfgqos1_1'', ''pcfgwqos0_1'',
      ''pcfgwqos1_1'']"

definition ddrphy_reg :: "reg_desc list" where
  "ddrphy_reg = map (\<lambda>x. DDRPHY_REG x (words_of stm32mp1_ddrphy_reg_fields))
     [''pgcr'', ''aciocr'', ''dxccr'', ''dsgcr'', ''dcr'', ''odtcr'', ''zq0cr1'',
      ''dx0gcr'', ''dx1gcr'', ''dx2gcr'', ''dx3gcr'']"

definition ddrphy_timing :: "reg_desc list" where
  "ddrphy_timing = map (\<lambda>x. DDRPHY_REG x (words_of stm32mp1_ddrphy_timing_fields))
     [''ptr0'', ''ptr1'', ''ptr2'', ''dtpr0'', ''dtpr1'', ''dtpr2'', ''mr0'', ''mr1'',
      ''mr2'', ''mr3'']"

definition ddrphy_cal :: "reg_desc list" where
  "ddrphy_cal = map (\<lambda>x. DDRPHY_REG x (words_of stm32mp1_ddrphy_cal_fields))
     [''dx0dllcr'', ''dx0dqtr'', ''dx0dqstr'', ''dx1dllcr'', ''dx1dqtr'', ''dx1dqstr'',
      ''dx2dllcr'', ''dx2dqtr'', ''dx2dqstr'', ''dx3dllcr'', ''dx3dqtr'', ''dx3dqstr'']"

text \<open>Only for the interactive mode.\<close>

definition ddr_dyn :: "reg_desc list" where
  "ddr_dyn = map DDR_REG_DYN
     [''stat'', ''init0'', ''dfimisc'', ''dfistat'', ''swctl'', ''swstat'', ''pctrl_0'',
      ''pctrl_1'']"

definition ddrphy_dyn :: "reg_desc list" where
  "ddrphy_dyn = map DDRPHY_REG_DYN
     [''pir'', ''pgsr'', ''zq0sr0'', ''zq0sr1'', ''dx0gsr0'', ''dx0gsr1'', ''dx1gsr0'',
      ''dx1gsr1'', ''dx2gsr0'', ''dx2gsr1'', ''dx3gsr0'', ''dx3gsr1'']"

datatype reg_type =
  REG_REG | REG_TIMING | REG_PERF | REG_MAP | REGPHY_REG | REGPHY_TIMING | REGPHY_CAL |
  REG_DYN | REGPHY_DYN

datatype base_type = DDR_BASE | DDRPHY_BASE | NONE_BASE

record ddr_reg_info =
  info_name :: string
  desc :: "reg_desc list"
  base :: base_type

fun ddr_registers :: "reg_type \<Rightarrow> ddr_reg_info" where
  "ddr_registers REG_REG = \<lparr>info_name = ''static'', desc = ddr_reg, base = DDR_BASE\<rparr>"
| "ddr_registers REG_TIMING = \<lparr>info_name = ''timing'', desc = ddr_timing, base = DDR_BASE\<rparr>"
| "ddr_registers REG_PERF = \<lparr>info_name = ''perf'', desc = ddr_perf, base = DDR_BASE\<rparr>"
| "ddr_registers REG_MAP = \<lparr>info_name = ''map'', desc = ddr_map, base = DDR_BASE\<rparr>"
| "ddr_registers REGPHY_REG = \<lparr>info_name = ''static'', desc = ddrphy_reg, base = DDRPHY_BASE\<rparr>"
| "ddr_registers REGPHY_TIMING = \<lparr>info_name = ''timing'', desc = ddrphy_timing, base = DDRPHY_BASE\<rparr>"
| "ddr_registers REGPHY_CAL = \<lparr>info_name = ''cal'', desc = ddrphy_cal, base = DDRPHY_BASE\<rparr>"
| "ddr_registers REG_DYN = \<lparr>info_name = ''dyn'', desc = ddr_dyn, base = DDR_BASE\<rparr>"
| "ddr_registers REGPHY_DYN = \<lparr>info_name = ''dyn'', desc = ddrphy_dyn, base = DDRPHY_BASE\<rparr>"

subsection \<open>The board\<close>

definition DDR_MEM_SPEED :: u32 where "DDR_MEM_SPEED = 533000"
definition DDR_MEM_SIZE :: u32 where "DDR_MEM_SIZE = 0x20000000"

text \<open>\<open>p_cal_present\<close> is not set here; the caller does.\<close>

definition stm32mp1_ddr_get_config :: "stm32mp1_ddr_config \<Rightarrow> stm32mp1_ddr_config" where
  "stm32mp1_ddr_get_config cfg = cfg
     \<lparr>info := \<lparr>mem_name = ''DDR3-DDR3L 16bits 533000Khz'', mem_speed = DDR_MEM_SPEED,
        mem_size = DDR_MEM_SIZE\<rparr>,
      c_reg :=
        \<lparr>mstr = 0x00041401, mrctrl0 = 0x00000010, mrctrl1 = 0x00000000,
         derateen = 0x00000000, derateint = 0x00800000, pwrctl = 0x00000000,
         pwrtmg = 0x00400010, hwlpctl = 0x00000000, rfshctl0 = 0x00210000,
         rfshctl3 = 0x00000000, crcparctl0 = 0x00000000, zqctl0 = 0xC2000040,
         dfitmg0 = 0x02060105, dfitmg1 = 0x00000202, dfilpcfg0 = 0x07000000,
         dfiupd0 = 0xC0400003, dfiupd1 = 0x00000000, dfiupd2 = 0x00000000,
         dfiphymstr = 0x00000000, odtmap = 0x00000001, dbg0 = 0x00000000, dbg1 = 0x00000000,
         dbgcmd = 0x00000000, poisoncfg = 0x00000000, pccfg = 0x00000010\<rparr>,
      c_timing :=
        \<lparr>rfshtmg = 0x0081008B, dramtmg0 = 0x121B2414, dramtmg1 = 0x000A041C,
         dramtmg2 = 0x0608090F, dramtmg3 = 0x0050400C, dramtmg4 = 0x08040608,
         dramtmg5 = 0x06060403, dramtmg6 = 0x02020002, dramtmg7 = 0x00000202,
         dramtmg8 = 0x00001005, dramtmg14 = 0x000000A0, odtcfg = 0x06000600\<rparr>,
      c_map :=
        \<lparr>addrmap1 = 0x00070707, addrmap2 = 0x00000000, addrmap3 = 0x1F000000,
         addrmap4 = 0x00001F1F, addrmap5 = 0x06060606, addrmap6 = 0x0F060606,
         addrmap9 = 0x00000000, addrmap10 = 0x00000000, addrmap11 = 0x00000000\<rparr>,
      c_perf :=
        \<lparr>sched = 0x00000C01, sched1 = 0x00000000, perfhpr1 = 0x01000001,
         perflpr1 = 0x08000200, perfwr1 = 0x08000400, pcfgr_0 = 0x00010000,
         pcfgw_0 = 0x00000000, pcfgqos0_0 = 0x02100C03, pcfgqos1_0 = 0x00800100,
         pcfgwqos0_0 = 0x01100C03, pcfgwqos1_0 = 0x01000200, pcfgr_1 = 0x00010000,
         pcfgw_1 = 0x00000000, pcfgqos0_1 = 0x02100C03, pcfgqos1_1 = 0x00800040,
         pcfgwqos0_1 = 0x01100C03, pcfgwqos1_1 = 0x01000200\<rparr>,
      p_reg :=
        \<lparr>pgcr = 0x01442E02, aciocr = 0x10400812, dxccr = 0x00000C40, dsgcr = 0xF200011F,
         dcr = 0x0000000B, odtcr = 0x00010000, zq0cr1 = 0x00000038, dx0gcr = 0x0000CE81,
         dx1gcr = 0x0000CE81, dx2gcr = 0x0000CE80, dx3gcr = 0x0000CE80\<rparr>,
      p_timing :=
        \<lparr>ptr0 = 0x0022AA5B, ptr1 = 0x04841104, ptr2 = 0x042DA068, dtpr0 = 0x38D488D0,
         dtpr1 = 0x098B00D8, dtpr2 = 0x10023600, mr0 = 0x00000840, mr1 = 0x00000000,
         mr2 = 0x00000208, mr3 = 0x00000000\<rparr>,
      p_cal :=
        \<lparr>dx0dllcr = 0x40000000, dx0dqtr = 0xFFFFFFFF, dx0dqstr = 0x3DB02000,
         dx1dllcr = 0x40000000, dx1dqtr = 0xFFFFFFFF, dx1dqstr = 0x3DB02000,
         dx2dllcr = 0x40000000, dx2dqtr = 0xFFFFFFFF, dx2dqstr = 0x3DB02000,
         dx3dllcr = 0x40000000, dx3dqtr = 0xFFFFFFFF, dx3dqstr = 0x3DB02000\<rparr>\<rparr>"

definition stm32mp1_ddr_get_size :: u32 where
  "stm32mp1_ddr_get_size = DDR_MEM_SIZE"

subsection \<open>The tables in numbers\<close>

text \<open>Evaluated once; all that follows works with the numbers. The parameters of a table are the
  words of its struct in order.\<close>

lemma offsets_ddr_reg:
  "map reg_offset ddr_reg =
     [0x0, 0x10, 0x14, 0x20, 0x24, 0x30, 0x34, 0x38, 0x50, 0x60, 0xC0, 0x180, 0x190, 0x194,
      0x198, 0x1A0, 0x1A4, 0x1A8, 0x1C4, 0x244, 0x300, 0x304, 0x30C, 0x36C, 0x400]"
  "map par_offset ddr_reg = [0, 4, 8, 12, 16, 20, 24, 28, 32, 36, 40, 44, 48, 52, 56, 60, 64, 68, 72, 76, 80, 84,
      88, 92, 96]"
  by code_simp+

lemma offsets_ddr_timing:
  "map reg_offset ddr_timing =
     [0x64, 0x100, 0x104, 0x108, 0x10C, 0x110, 0x114, 0x118, 0x11C, 0x120, 0x138, 0x240]"
  "map par_offset ddr_timing = [0, 4, 8, 12, 16, 20, 24, 28, 32, 36, 40, 44]"
  by code_simp+

lemma offsets_ddr_map:
  "map reg_offset ddr_map =
     [0x204, 0x208, 0x20C, 0x210, 0x214, 0x218, 0x224, 0x228, 0x22C]"
  "map par_offset ddr_map = [0, 4, 8, 12, 16, 20, 24, 28, 32]"
  by code_simp+

lemma offsets_ddr_perf:
  "map reg_offset ddr_perf =
     [0x250, 0x254, 0x25C, 0x264, 0x26C, 0x404, 0x408, 0x494, 0x498, 0x49C, 0x4A0, 0x4B4, 0x4B8,
      0x544, 0x548, 0x54C, 0x550]"
  "map par_offset ddr_perf = [0, 4, 8, 12, 16, 20, 24, 28, 32, 36, 40, 44, 48, 52, 56, 60, 64]"
  by code_simp+

lemma offsets_ddrphy_reg:
  "map reg_offset ddrphy_reg =
     [0x8, 0x24, 0x28, 0x2C, 0x30, 0x50, 0x184, 0x1C0, 0x200, 0x240, 0x280]"
  "map par_offset ddrphy_reg = [0, 4, 8, 12, 16, 20, 24, 28, 32, 36, 40]"
  by code_simp+

lemma offsets_ddrphy_timing:
  "map reg_offset ddrphy_timing =
     [0x18, 0x1C, 0x20, 0x34, 0x38, 0x3C, 0x40, 0x44, 0x48, 0x4C]"
  "map par_offset ddrphy_timing = [0, 4, 8, 12, 16, 20, 24, 28, 32, 36]"
  by code_simp+

lemma offsets_ddrphy_cal:
  "map reg_offset ddrphy_cal =
     [0x1CC, 0x1D0, 0x1D4, 0x20C, 0x210, 0x214, 0x24C, 0x250, 0x254, 0x28C, 0x290, 0x294]"
  "map par_offset ddrphy_cal = [0, 4, 8, 12, 16, 20, 24, 28, 32, 36, 40, 44]"
  by code_simp+

lemmas table_offsets =
  offsets_ddr_reg offsets_ddr_timing offsets_ddr_map offsets_ddr_perf
  offsets_ddrphy_reg offsets_ddrphy_timing offsets_ddrphy_cal

end
