(* ===== verification/DdrInit.thy ===== *)
theory DdrInit
  imports DdrConfig DdrLaneContract
begin

text \<open>
  Bringing up the DDR (ddr/stm32mp1_ddr.cc, ddr/stm32mp1_ram.cc): clocks and resets, the
  parameters written to the controller and the PHY, the initialisation by the PHY, the training
  of the DQS gate, and the size check of the RAM.

  \<open>stm32mp1_ddr_interactive\<close> and \<open>board_ddr_power_init\<close> are the weak definitions of the
  source. \<open>panic\<close> ends in an endless loop: \<open>None\<close>, as is a poll that is never answered.
  \<open>debug\<close> prints nothing, but evaluates its arguments.
\<close>

subsection \<open>Bits and state\<close>

definition RCC_BASE :: u32 where [reg_defs]: "RCC_BASE = 0x50000000"
definition RCC_PLL2CFGR1 :: u32 where [reg_defs]: "RCC_PLL2CFGR1 = 0x98"
definition RCC_PLL2CFGR2 :: u32 where [reg_defs]: "RCC_PLL2CFGR2 = 0x9C"
definition RCC_DDRITFCR :: u32 where [reg_defs]: "RCC_DDRITFCR = 0xD8"

definition RCC_DDRITFCR_DDRCAPBRST :: u32 where [reg_defs]: "RCC_DDRITFCR_DDRCAPBRST = 2 ^ 14"
definition RCC_DDRITFCR_DDRCAXIRST :: u32 where [reg_defs]: "RCC_DDRITFCR_DDRCAXIRST = 2 ^ 15"
definition RCC_DDRITFCR_DDRCORERST :: u32 where [reg_defs]: "RCC_DDRITFCR_DDRCORERST = 2 ^ 16"
definition RCC_DDRITFCR_DPHYAPBRST :: u32 where [reg_defs]: "RCC_DDRITFCR_DPHYAPBRST = 2 ^ 17"
definition RCC_DDRITFCR_DPHYRST :: u32 where [reg_defs]: "RCC_DDRITFCR_DPHYRST = 2 ^ 18"
definition RCC_DDRITFCR_DPHYCTLRST :: u32 where [reg_defs]: "RCC_DDRITFCR_DPHYCTLRST = 2 ^ 19"

definition ctl_init0 :: u32 where [reg_defs]: "ctl_init0 = 0xD0"
definition ctl_pctrl_0 :: u32 where [reg_defs]: "ctl_pctrl_0 = 0x490"
definition ctl_pctrl_1 :: u32 where [reg_defs]: "ctl_pctrl_1 = 0x540"

definition DDRCTRL_MSTR_DDR3 :: u32 where [reg_defs]: "DDRCTRL_MSTR_DDR3 = 1"
definition DDRCTRL_MSTR_LPDDR2 :: u32 where [reg_defs]: "DDRCTRL_MSTR_LPDDR2 = 4"
definition DDRCTRL_MSTR_LPDDR3 :: u32 where [reg_defs]: "DDRCTRL_MSTR_LPDDR3 = 8"
definition DDRCTRL_STAT_OPERATING_MODE_MASK :: u32 where [reg_defs]: "DDRCTRL_STAT_OPERATING_MODE_MASK = 7"
definition DDRCTRL_STAT_OPERATING_MODE_NORMAL :: u32 where [reg_defs]: "DDRCTRL_STAT_OPERATING_MODE_NORMAL = 1"
definition DDRCTRL_STAT_OPERATING_MODE_SR :: u32 where [reg_defs]: "DDRCTRL_STAT_OPERATING_MODE_SR = 3"
definition DDRCTRL_STAT_SELFREF_TYPE_MASK :: u32 where [reg_defs]: "DDRCTRL_STAT_SELFREF_TYPE_MASK = 0x30"
definition DDRCTRL_STAT_SELFREF_TYPE_ASR :: u32 where [reg_defs]: "DDRCTRL_STAT_SELFREF_TYPE_ASR = 0x30"
definition DDRCTRL_STAT_SELFREF_TYPE_SR :: u32 where [reg_defs]: "DDRCTRL_STAT_SELFREF_TYPE_SR = 0x20"
definition DDRCTRL_INIT0_SKIP_DRAM_INIT_MASK :: u32 where [reg_defs]: "DDRCTRL_INIT0_SKIP_DRAM_INIT_MASK = 0xC0000000"
definition DDRCTRL_INIT0_SKIP_DRAM_INIT_NORMAL :: u32 where [reg_defs]: "DDRCTRL_INIT0_SKIP_DRAM_INIT_NORMAL = 0x40000000"
definition DDRCTRL_PCTRL_N_PORT_EN :: u32 where [reg_defs]: "DDRCTRL_PCTRL_N_PORT_EN = 1"

definition DDRPHYC_PIR_DLLSRST :: u32 where [reg_defs]: "DDRPHYC_PIR_DLLSRST = 2"
definition DDRPHYC_PIR_DLLLOCK :: u32 where [reg_defs]: "DDRPHYC_PIR_DLLLOCK = 4"
definition DDRPHYC_PIR_ZCAL :: u32 where [reg_defs]: "DDRPHYC_PIR_ZCAL = 8"
definition DDRPHYC_PIR_DRAMRST :: u32 where [reg_defs]: "DDRPHYC_PIR_DRAMRST = 0x20"
definition DDRPHYC_PIR_DRAMINIT :: u32 where [reg_defs]: "DDRPHYC_PIR_DRAMINIT = 0x40"
definition DDRPHYC_PIR_QSTRN :: u32 where [reg_defs]: "DDRPHYC_PIR_QSTRN = 0x80"
definition DDRPHYC_PIR_ICPC :: u32 where [reg_defs]: "DDRPHYC_PIR_ICPC = 0x10000"

definition EINVAL :: int where "EINVAL = 22"

text \<open>The members of \<open>struct ddr_info\<close> that are used.\<close>

record ddr_info =
  ram_base :: u32
  ram_size :: u32
  ddr_ctl :: u32
  ddr_phy :: u32
  ddr_rcc :: u32

datatype interact_step = STEP_DDR_RESET | STEP_CTL_INIT | STEP_PHY_INIT | STEP_DDR_READY | STEP_RUN

datatype ddr_type = STM32MP_DDR3 | STM32MP_LPDDR2_16 | STM32MP_LPDDR2_32 | STM32MP_LPDDR3_16 | STM32MP_LPDDR3_32

subsection \<open>Parameters\<close>

definition get_base_addr :: "ddr_info \<Rightarrow> base_type \<Rightarrow> u32" where
  "get_base_addr priv b = (if b = DDRPHY_BASE then ddr_phy priv else ddr_ctl priv)"

text \<open>\<open>param\<close> is the memory of the parameter struct.\<close>

definition set_reg :: "'d platform \<Rightarrow> ddr_info \<Rightarrow> reg_type \<Rightarrow> u32 list \<Rightarrow> 'd sys \<Rightarrow> 'd sys" where
  "set_reg h priv type param s =
     (let base_addr = get_base_addr priv (base (ddr_registers type))
      in fold (\<lambda>d s. if par_offset d = INVALID_OFFSET then s
                     else writel h (param ! (unat (par_offset d) div 4)) (base_addr + ucast (reg_offset d)) s)
           (desc (ddr_registers type)) s)"

definition wait_operating_mode :: "'d platform \<Rightarrow> ddr_info \<Rightarrow> u32 \<Rightarrow> 'd sys \<Rightarrow> 'd sys option" where
  "wait_operating_mode h priv mode s =
     (let mask = DDRCTRL_STAT_OPERATING_MODE_MASK;
          val = mode;
          (mask, val, mask2, val2) =
            (if mode = DDRCTRL_STAT_OPERATING_MODE_SR
             then (mask OR DDRCTRL_STAT_SELFREF_TYPE_MASK, val OR DDRCTRL_STAT_SELFREF_TYPE_SR, 0, 0)
             else if mode = DDRCTRL_STAT_OPERATING_MODE_NORMAL
             then (mask, val, DDRCTRL_STAT_OPERATING_MODE_MASK OR DDRCTRL_STAT_SELFREF_TYPE_MASK,
                   DDRCTRL_STAT_OPERATING_MODE_SR OR DDRCTRL_STAT_SELFREF_TYPE_ASR)
             else (mask, val, 0, 0))
      in do { (ret, _, s) \<leftarrow> readl_poll_timeout h (ddr_ctl priv + ctl_stat)
                (\<lambda>stat. stat AND mask = val \<or> (mask2 \<noteq> 0 \<and> stat AND mask2 = val2)) 1000000 s;
              if ret \<noteq> 0 then None else Some s })"

definition stm32mp1_ddr_interactive :: "interact_step \<Rightarrow> bool" where
  "stm32mp1_ddr_interactive step = False"

definition board_ddr_power_init :: "ddr_type \<Rightarrow> int" where
  "board_ddr_power_init t = 0"

subsection \<open>The clock\<close>

definition RCC_DDRITFCR_clocks :: u32 where
  "RCC_DDRITFCR_clocks = 1 OR 2 OR 4 OR 8 OR 0x10 OR 0x20 OR 0x200 OR 0x80 OR 0x40 OR 0x400"

text \<open>\<open>RegisterBits::read\<close>.\<close>

definition read_field :: "'d platform \<Rightarrow> u32 \<Rightarrow> u32 \<Rightarrow> nat \<Rightarrow> 'd sys \<Rightarrow> u32 \<times> 'd sys" where
  "read_field h a msk offset s = (let (v, s) = readl h a s in (drop_bit offset (v AND msk), s))"

text \<open>The frequency of the R output of PLL2 in Hz; 24 MHz are assumed for the HSE.\<close>

definition pll2r :: "u32 \<Rightarrow> u32 \<Rightarrow> u32 \<Rightarrow> u32" where
  "pll2r n m r = (24000000 * (n + 1)) div ((m + 1) * (r + 1))"

text \<open>The difference of the signed values; where it leaves the range of \<open>int\<close> the behaviour
  is undefined.\<close>

definition clock_delta :: "u32 \<Rightarrow> u32 \<Rightarrow> u32 option" where
  "clock_delta clk khz =
     (let want = sint khz * 1000; d = sint clk - want
      in if \<bar>want\<bar> < 2 ^ 31 \<and> \<bar>d\<bar> < 2 ^ 31 then Some (word_of_int \<bar>d\<bar>) else None)"

definition stm32mp1_ddr_clk_enable :: "'d platform \<Rightarrow> u32 \<Rightarrow> 'd sys \<Rightarrow> (int \<times> 'd sys) option" where
  "stm32mp1_ddr_clk_enable h speed s =
     (let s = setbits_le32 h (RCC_BASE + RCC_DDRITFCR) RCC_DDRITFCR_clocks s;
          (n, s) = read_field h (RCC_BASE + RCC_PLL2CFGR1) 0x1FF 0 s;
          (m, s) = read_field h (RCC_BASE + RCC_PLL2CFGR1) 0x3F0000 16 s;
          (r, s) = read_field h (RCC_BASE + RCC_PLL2CFGR2) 0x7F0000 16 s;
          ddrphy_clk = pll2r n m r
      in do { ddr_clk \<leftarrow> clock_delta ddrphy_clk speed;
              Some (if ddr_clk > speed * 100 then - EINVAL else 0, s) })"

subsection \<open>stm32mp1_ddr_init\<close>

definition ddr_power :: "stm32mp1_ddr_config \<Rightarrow> int" where
  "ddr_power config =
     (let m = mstr (c_reg config);
          bus_width = (let w = m AND DDRCTRL_MSTR_DATA_BUS_WIDTH_MASK
                       in if w = DDRCTRL_MSTR_DATA_BUS_WIDTH_QUARTER then 8
                          else if w = DDRCTRL_MSTR_DATA_BUS_WIDTH_HALF then 16 else 32 :: nat)
      in if m AND DDRCTRL_MSTR_DDR3 \<noteq> 0 then board_ddr_power_init STM32MP_DDR3
         else if m AND DDRCTRL_MSTR_LPDDR2 \<noteq> 0
         then board_ddr_power_init (if bus_width = 32 then STM32MP_LPDDR2_32 else STM32MP_LPDDR2_16)
         else if m AND DDRCTRL_MSTR_LPDDR3 \<noteq> 0
         then board_ddr_power_init (if bus_width = 32 then STM32MP_LPDDR3_32 else STM32MP_LPDDR3_16)
         else - EINVAL)"

text \<open>1.1: all resets asserted; 1.3: those of the PHY and the APB released.\<close>

definition ddr_reset :: "'d platform \<Rightarrow> ddr_info \<Rightarrow> u32 list \<Rightarrow> 'd sys \<Rightarrow> 'd sys" where
  "ddr_reset h priv rsts s = fold (setbits_le32 h (ddr_rcc priv + RCC_DDRITFCR)) rsts s"

definition ddr_release :: "'d platform \<Rightarrow> ddr_info \<Rightarrow> u32 list \<Rightarrow> 'd sys \<Rightarrow> 'd sys" where
  "ddr_release h priv rsts s = fold (clrbits_le32 h (ddr_rcc priv + RCC_DDRITFCR)) rsts s"

text \<open>Parts 1.5 to 3: the parameters.\<close>

definition ddr_ctl_params :: "'d platform \<Rightarrow> ddr_info \<Rightarrow> stm32mp1_ddr_config \<Rightarrow> 'd sys \<Rightarrow> 'd sys" where
  "ddr_ctl_params h priv config s =
     (let s = clrbits_le32 h (ddr_ctl priv + ctl_dfimisc) DDRCTRL_DFIMISC_DFI_INIT_COMPLETE_EN s;
          (_, s) = readl h (ddr_ctl priv + ctl_dfimisc) s;
          s = set_reg h priv REG_REG (stm32mp1_ddrctrl_reg_words (c_reg config)) s;
          s = set_reg h priv REG_TIMING (stm32mp1_ddrctrl_timing_words (c_timing config)) s;
          s = set_reg h priv REG_MAP (stm32mp1_ddrctrl_map_words (c_map config)) s;
          s = clrsetbits_le32 h (ddr_ctl priv + ctl_init0) DDRCTRL_INIT0_SKIP_DRAM_INIT_MASK
                DDRCTRL_INIT0_SKIP_DRAM_INIT_NORMAL s
      in set_reg h priv REG_PERF (stm32mp1_ddrctrl_perf_words (c_perf config)) s)"

definition ddr_phy_params :: "'d platform \<Rightarrow> ddr_info \<Rightarrow> stm32mp1_ddr_config \<Rightarrow> 'd sys \<Rightarrow> 'd sys" where
  "ddr_phy_params h priv config s =
     (let s = set_reg h priv REGPHY_REG (stm32mp1_ddrphy_reg_words (p_reg config)) s;
          s = set_reg h priv REGPHY_TIMING (stm32mp1_ddrphy_timing_words (p_timing config)) s
      in if p_cal_present config then set_reg h priv REGPHY_CAL (stm32mp1_ddrphy_cal_words (p_cal config)) s
         else s)"

text \<open>Parts 8 to 12: the training of the gate.\<close>

definition ddr_training :: "'d platform \<Rightarrow> ddr_info \<Rightarrow> stm32mp1_ddr_config \<Rightarrow> 'd sys \<Rightarrow> 'd sys option" where
  "ddr_training h priv config s =
     do { s \<leftarrow> stm32mp1_refresh_disable h (ddr_ctl priv) s;
          s \<leftarrow> stm32mp1_ddrphy_init h (ddr_phy priv) DDRPHYC_PIR_QSTRN s;
          s \<leftarrow> ddrphy_idone_wait h (ddr_phy priv) s;
          stm32mp1_refresh_restore h (ddr_ctl priv) (rfshctl3 (c_reg config)) (pwrctl (c_reg config)) s }"

definition ddr_pir :: "stm32mp1_ddr_config \<Rightarrow> u32" where
  "ddr_pir config =
     (let pir = DDRPHYC_PIR_DLLSRST OR DDRPHYC_PIR_DLLLOCK OR DDRPHYC_PIR_ZCAL OR DDRPHYC_PIR_ITMSRST OR
            DDRPHYC_PIR_DRAMINIT OR DDRPHYC_PIR_ICPC
      in if mstr (c_reg config) AND DDRCTRL_MSTR_DDR3 \<noteq> 0 then pir OR DDRPHYC_PIR_DRAMRST else pir)"

text \<open>Parts 4 to 7.\<close>

definition ddr_dram_init :: "'d platform \<Rightarrow> ddr_info \<Rightarrow> stm32mp1_ddr_config \<Rightarrow> 'd sys \<Rightarrow> 'd sys option" where
  "ddr_dram_init h priv config s =
     do { s \<leftarrow> ddrphy_idone_wait h (ddr_phy priv) s;
          s \<leftarrow> stm32mp1_ddrphy_init h (ddr_phy priv) (ddr_pir config) s;
          let s = start_sw_done h (ddr_ctl priv) s;
          let s = setbits_le32 h (ddr_ctl priv + ctl_dfimisc) DDRCTRL_DFIMISC_DFI_INIT_COMPLETE_EN s;
          s \<leftarrow> wait_sw_done_ack h (ddr_ctl priv) s;
          wait_operating_mode h priv DDRCTRL_STAT_OPERATING_MODE_NORMAL s }"

text \<open>One pass from the label \<open>ddr_start\<close>; \<open>Inr\<close> goes back to it.\<close>

definition ddr_start :: "'d platform \<Rightarrow> ddr_info \<Rightarrow> stm32mp1_ddr_config \<Rightarrow> 'd sys \<Rightarrow> ('d sys + 'd sys) option" where
  "ddr_start h priv config s =
     (let s = ddr_reset h priv [RCC_DDRITFCR_DDRCAPBRST, RCC_DDRITFCR_DDRCAXIRST, RCC_DDRITFCR_DDRCORERST,
                RCC_DDRITFCR_DPHYAPBRST, RCC_DDRITFCR_DPHYRST, RCC_DDRITFCR_DPHYCTLRST] s
      in do { (err, s) \<leftarrow> stm32mp1_ddr_clk_enable h (mem_speed (info config)) s;
              if err \<noteq> 0 then None
              else let s = ddr_release h priv [RCC_DDRITFCR_DPHYRST, RCC_DDRITFCR_DPHYCTLRST, RCC_DDRITFCR_DDRCAPBRST] s;
                       s = udelay h 2 s
              in if stm32mp1_ddr_interactive STEP_DDR_RESET then Some (Inr s)
              else let s = ddr_ctl_params h priv config s
              in if stm32mp1_ddr_interactive STEP_CTL_INIT then Some (Inr s)
              else let s = ddr_release h priv [RCC_DDRITFCR_DDRCORERST, RCC_DDRITFCR_DDRCAXIRST, RCC_DDRITFCR_DPHYAPBRST] s;
                       s = ddr_phy_params h priv config s
              in if stm32mp1_ddr_interactive STEP_PHY_INIT then Some (Inr s)
              else do { s \<leftarrow> ddr_dram_init h priv config s;
                        s \<leftarrow> (if p_cal_present config then Some s else ddr_training h priv config s);
                        let s = setbits_le32 h (ddr_ctl priv + ctl_pctrl_0) DDRCTRL_PCTRL_N_PORT_EN s;
                        let s = setbits_le32 h (ddr_ctl priv + ctl_pctrl_1) DDRCTRL_PCTRL_N_PORT_EN s;
                        Some (if stm32mp1_ddr_interactive STEP_DDR_READY then Inr s else Inl s) } })"

definition stm32mp1_ddr_init :: "'d platform \<Rightarrow> ddr_info \<Rightarrow> stm32mp1_ddr_config \<Rightarrow> 'd sys \<Rightarrow> 'd sys option" where
  "stm32mp1_ddr_init h priv config s =
     (if ddr_power config \<noteq> 0 then None else loop (ddr_start h priv config) s)"

subsection \<open>stm32mp1_ddr_setup\<close>

definition RCC_DDRITFCR_DDRCKMOD_Msk :: u32 where "RCC_DDRITFCR_DDRCKMOD_Msk = 0x700000"
definition RCC_DDRITFCR_AXIDCGEN :: u32 where "RCC_DDRITFCR_AXIDCGEN = 0x100"

text \<open>\<open>priv0\<close> and \<open>config0\<close> are what the stack holds.\<close>

definition stm32mp1_ddr_setup ::
  "'d platform \<Rightarrow> ddr_info \<Rightarrow> stm32mp1_ddr_config \<Rightarrow> 'd sys \<Rightarrow> (int \<times> 'd sys) option" where
  "stm32mp1_ddr_setup h priv0 config0 s =
     (let priv = priv0\<lparr>ddr_ctl := DDRCTRL_BASE, ddr_phy := DDRPHYC_BASE, ddr_rcc := RCC_BASE,
            ram_base := 0xC0000000, ram_size := 0\<rparr>;
          config = (stm32mp1_ddr_get_config config0)\<lparr>p_cal_present := False\<rparr>;
          (v, s) = readl h (RCC_BASE + RCC_DDRITFCR) s;
          s = writel h ((v AND NOT RCC_DDRITFCR_DDRCKMOD_Msk) OR 0) (RCC_BASE + RCC_DDRITFCR) s;
          s = clrbits_le32 h (RCC_BASE + RCC_DDRITFCR) RCC_DDRITFCR_AXIDCGEN s
      in do { s \<leftarrow> stm32mp1_ddr_init h priv config s;
              let s = setbits_le32 h (RCC_BASE + RCC_DDRITFCR) RCC_DDRITFCR_AXIDCGEN s;
              (n, s) \<leftarrow> get_ram_size h (ram_base priv) DDR_MEM_SIZE s;
              Some (if mem_size (info config) \<noteq> n then - EINVAL else 0, s) })"

end
