(* ===== verification/Rcc.thy ===== *)
theory Rcc
  imports Registers DdrInit
begin

text \<open>
  The fields of the reset and clock controller (shared/drivers/rcc.hh): the enable bits of the
  peripherals with the handling of the GPIO ports, and the fields of the clock tree. Names of
  nested namespaces are joined (\<open>PLL1::DIVN\<close> is \<open>PLL1_DIVN\<close>, \<open>SSCG\<close> stands for
  \<open>SpreadSpectrumClockGen\<close>). Offsets and masks are those of the device header.
\<close>

named_theorems rcc_fields

definition RCC_bits :: "u32 \<Rightarrow> u32 \<Rightarrow> reg_bits" where [rcc_fields]:
  "RCC_bits off m = \<lparr>BaseAddress = RCC_BASE + off, Mask = m\<rparr>"

subsection \<open>Enable bits\<close>

text \<open>Name, offset of the register and mask, in the order of the source.\<close>

definition RCC_Enable :: "(string \<times> u32 \<times> u32) list" where
  "RCC_Enable =
     [(''ADC12'', 0xA18, 0x20), (''ADFSDM'', 0xA08, 0x200000), (''BKPSRAM'', 0x210, 0x100),
      (''BSEC'', 0x208, 0x10000), (''CEC'', 0xA00, 0x8000000), (''CRC1'', 0x218, 0x100000),
      (''CRC2'', 0xA20, 0x80), (''CRYP1'', 0x210, 0x10), (''CRYP2'', 0xA20, 0x10),
      (''DAC12'', 0xA00, 0x20000000), (''DCMI'', 0xA20, 0x1), (''DDRPERFM'', 0x200, 0x100),
      (''DFSDM'', 0xA08, 0x100000), (''DMA1'', 0xA18, 0x1), (''DMA2'', 0xA18, 0x2),
      (''DMAMUX'', 0xA18, 0x4), (''DSI'', 0x200, 0x10), (''DTS'', 0xA10, 0x10000),
      (''ETHCK'', 0x218, 0x80), (''ETHMAC'', 0x218, 0x400), (''ETHRX'', 0x218, 0x200),
      (''ETHSTP'', 0x318, 0x800), (''ETHTX'', 0x218, 0x100), (''FDCAN'', 0xA08, 0x1000000),
      (''FMC'', 0x218, 0x1000), (''GPIOA'', 0xA28, 0x1), (''GPIOB'', 0xA28, 0x2),
      (''GPIOC'', 0xA28, 0x4), (''GPIOD'', 0xA28, 0x8), (''GPIOE'', 0xA28, 0x10),
      (''GPIOF'', 0xA28, 0x20), (''GPIOG'', 0xA28, 0x40), (''GPIOH'', 0xA28, 0x80),
      (''GPIOI'', 0xA28, 0x100), (''GPIOJ'', 0xA28, 0x200), (''GPIOK'', 0xA28, 0x400),
      (''GPIOZ'', 0x210, 0x1), (''GPU'', 0x218, 0x20), (''HASH1'', 0x210, 0x20),
      (''HASH2'', 0xA20, 0x20), (''HDP'', 0xA10, 0x100000), (''HSEM'', 0xA20, 0x800),
      (''I2C1'', 0xA00, 0x200000), (''I2C2'', 0xA00, 0x400000), (''I2C3'', 0xA00, 0x800000),
      (''I2C4'', 0x208, 0x4), (''I2C5'', 0xA00, 0x1000000), (''I2C6'', 0x208, 0x8),
      (''IPCC'', 0xA20, 0x1000), (''IWDG1APB'', 0x208, 0x8000), (''IWDG2APB'', 0x200, 0x8000),
      (''LPTIM1'', 0xA00, 0x200), (''LPTIM2'', 0xA10, 0x1), (''LPTIM3'', 0xA10, 0x2),
      (''LPTIM4'', 0xA10, 0x4), (''LPTIM5'', 0xA10, 0x8), (''LTDC'', 0x200, 0x1),
      (''MDIOS'', 0xA00, 0x80000000), (''MDMA'', 0x218, 0x1), (''QSPI'', 0x218, 0x4000),
      (''RETRAM'', 0xA38, 0x10), (''RNG1'', 0x210, 0x40), (''RNG2'', 0xA20, 0x40),
      (''RTCAPB'', 0x208, 0x100), (''SAI1'', 0xA08, 0x10000), (''SAI2'', 0xA08, 0x20000),
      (''SAI3'', 0xA08, 0x40000), (''SAI4'', 0xA10, 0x100), (''SDMMC1'', 0x218, 0x10000),
      (''SDMMC2'', 0x218, 0x20000), (''SDMMC3'', 0xA18, 0x10000), (''SPDIF'', 0xA00, 0x4000000),
      (''SPI1'', 0xA08, 0x100), (''SPI2'', 0xA00, 0x800), (''SPI3'', 0xA00, 0x1000),
      (''SPI4'', 0xA08, 0x200), (''SPI5'', 0xA08, 0x400), (''SPI6'', 0x208, 0x1),
      (''STGENROSTP'', 0x300, 0x200000), (''STGENRO'', 0x200, 0x100000),
      (''STGENSTP'', 0x308, 0x200000), (''STGEN'', 0x208, 0x100000), (''SYSCFG'', 0xA10, 0x800),
      (''TIM1'', 0xA08, 0x1), (''TIM2'', 0xA00, 0x1), (''TIM3'', 0xA00, 0x2),
      (''TIM4'', 0xA00, 0x4), (''TIM5'', 0xA00, 0x8), (''TIM6'', 0xA00, 0x10),
      (''TIM7'', 0xA00, 0x20), (''TIM8'', 0xA08, 0x2), (''TIM12'', 0xA00, 0x40),
      (''TIM13'', 0xA00, 0x80), (''TIM14'', 0xA00, 0x100), (''TIM15'', 0xA08, 0x4),
      (''TIM16'', 0xA08, 0x8), (''TIM17'', 0xA08, 0x10), (''TZC1'', 0x208, 0x800),
      (''TZC2'', 0x208, 0x1000), (''TZPC'', 0x208, 0x2000), (''UART4'', 0xA00, 0x10000),
      (''UART5'', 0xA00, 0x20000), (''UART7'', 0xA00, 0x40000), (''UART8'', 0xA00, 0x80000),
      (''USART1'', 0x208, 0x10), (''USART2'', 0xA00, 0x4000), (''USART3'', 0xA00, 0x8000),
      (''USART6'', 0xA08, 0x2000), (''USBH'', 0x218, 0x1000000), (''USBO'', 0xA18, 0x100),
      (''USBPHY'', 0x200, 0x10000), (''VREF'', 0xA10, 0x2000)]"

definition RCC_Enable_bits :: "string \<Rightarrow> reg_bits option" where
  "RCC_Enable_bits x = map_option (\<lambda>(off, m). RCC_bits off m) (map_of RCC_Enable x)"

definition RCC_MP_AHB4ENSETR :: u32 where [reg_defs]: "RCC_MP_AHB4ENSETR = 0xA28"
definition GPIOZ :: u32 where [reg_defs]: "GPIOZ = 0x54004000"

definition GPIOZ_bits :: reg_bits where "GPIOZ_bits = RCC_bits 0x210 1"

definition get_gpio_bit :: "u32 \<Rightarrow> u32" where
  "get_gpio_bit periph = push_bit (unat ((drop_bit 12 periph - 2) AND 0xF)) 1"

definition GPIO_is_enabled :: "'d platform \<Rightarrow> u32 \<Rightarrow> 'd sys \<Rightarrow> bool \<times> 'd sys" where
  "GPIO_is_enabled h periph s =
     (if periph = GPIOZ then let (v, s) = RO_read h GPIOZ_bits s in (v \<noteq> 0, s)
      else let (v, s) = readl h (RCC_BASE + RCC_MP_AHB4ENSETR) s in (v AND get_gpio_bit periph \<noteq> 0, s))"

definition GPIO_enable :: "'d platform \<Rightarrow> u32 \<Rightarrow> 'd sys \<Rightarrow> 'd sys" where
  "GPIO_enable h periph s =
     (let s = (if periph = GPIOZ then RW_set h GPIOZ_bits s
               else setbits_le32 h (RCC_BASE + RCC_MP_AHB4ENSETR) (get_gpio_bit periph) s)
      in snd (GPIO_is_enabled h periph s))"

definition GPIO_disable :: "'d platform \<Rightarrow> u32 \<Rightarrow> 'd sys \<Rightarrow> 'd sys" where
  "GPIO_disable h periph s =
     (let s = (if periph = GPIOZ then RW_clear h GPIOZ_bits s
               else clrbits_le32 h (RCC_BASE + RCC_MP_AHB4ENSETR) (get_gpio_bit periph) s)
      in snd (GPIO_is_enabled h periph s))"

subsection \<open>The clock tree\<close>

definition MPUClockSrcReady :: reg_bits where [rcc_fields]:
  "MPUClockSrcReady = RCC_bits 0x20 0x80000000"
definition MPUClockSrc :: reg_bits where [rcc_fields]: "MPUClockSrc = RCC_bits 0x20 0x3"
definition AXISClockSrcReady :: reg_bits where [rcc_fields]:
  "AXISClockSrcReady = RCC_bits 0x20 0x80000000"
definition AXISClockSrc :: reg_bits where [rcc_fields]: "AXISClockSrc = RCC_bits 0x24 0x7"
definition AXIDiv :: reg_bits where [rcc_fields]: "AXIDiv = RCC_bits 0x30 0x7"
definition AXIDivReady :: reg_bits where [rcc_fields]: "AXIDivReady = RCC_bits 0x30 0x80000000"
definition OscEnableSetHSION :: reg_bits where [rcc_fields]:
  "OscEnableSetHSION = RCC_bits 0xC 0x1"
definition OscEnableSetHSIKERON :: reg_bits where [rcc_fields]:
  "OscEnableSetHSIKERON = RCC_bits 0xC 0x2"
definition OscEnableSetCSION :: reg_bits where [rcc_fields]:
  "OscEnableSetCSION = RCC_bits 0xC 0x10"
definition OscEnableSetCSIKERON :: reg_bits where [rcc_fields]:
  "OscEnableSetCSIKERON = RCC_bits 0xC 0x20"
definition OscEnableSetDIGBYP :: reg_bits where [rcc_fields]:
  "OscEnableSetDIGBYP = RCC_bits 0xC 0x80"
definition OscEnableSetHSEON :: reg_bits where [rcc_fields]:
  "OscEnableSetHSEON = RCC_bits 0xC 0x100"
definition OscEnableSetHSEKERON :: reg_bits where [rcc_fields]:
  "OscEnableSetHSEKERON = RCC_bits 0xC 0x200"
definition OscEnableSetHSEBYP :: reg_bits where [rcc_fields]:
  "OscEnableSetHSEBYP = RCC_bits 0xC 0x400"
definition OscEnableSetHSECSSON :: reg_bits where [rcc_fields]:
  "OscEnableSetHSECSSON = RCC_bits 0xC 0x800"
definition OscEnableClearHSION :: reg_bits where [rcc_fields]:
  "OscEnableClearHSION = RCC_bits 0x10 0x1"
definition OscEnableClearHSIKERON :: reg_bits where [rcc_fields]:
  "OscEnableClearHSIKERON = RCC_bits 0x10 0x2"
definition OscEnableClearCSION :: reg_bits where [rcc_fields]:
  "OscEnableClearCSION = RCC_bits 0x10 0x10"
definition OscEnableClearCSIKERON :: reg_bits where [rcc_fields]:
  "OscEnableClearCSIKERON = RCC_bits 0x10 0x20"
definition OscEnableClearDIGBYP :: reg_bits where [rcc_fields]:
  "OscEnableClearDIGBYP = RCC_bits 0x10 0x80"
definition OscEnableClearHSEON :: reg_bits where [rcc_fields]:
  "OscEnableClearHSEON = RCC_bits 0x10 0x100"
definition OscEnableClearHSEKERON :: reg_bits where [rcc_fields]:
  "OscEnableClearHSEKERON = RCC_bits 0x10 0x200"
definition OscEnableClearHSEBYP :: reg_bits where [rcc_fields]:
  "OscEnableClearHSEBYP = RCC_bits 0x10 0x400"
definition OscEnableHSION :: set_clear where [rcc_fields]:
  "OscEnableHSION = \<lparr>SetT = OscEnableSetHSION, ClearT = OscEnableClearHSION\<rparr>"
definition OscEnableHSIKERON :: set_clear where [rcc_fields]:
  "OscEnableHSIKERON = \<lparr>SetT = OscEnableSetHSIKERON, ClearT = OscEnableClearHSIKERON\<rparr>"
definition OscEnableCSION :: set_clear where [rcc_fields]:
  "OscEnableCSION = \<lparr>SetT = OscEnableSetCSION, ClearT = OscEnableClearCSION\<rparr>"
definition OscEnableCSIKERON :: set_clear where [rcc_fields]:
  "OscEnableCSIKERON = \<lparr>SetT = OscEnableSetCSIKERON, ClearT = OscEnableClearCSIKERON\<rparr>"
definition OscEnableDIGBYP :: set_clear where [rcc_fields]:
  "OscEnableDIGBYP = \<lparr>SetT = OscEnableSetDIGBYP, ClearT = OscEnableClearDIGBYP\<rparr>"
definition OscEnableHSEON :: set_clear where [rcc_fields]:
  "OscEnableHSEON = \<lparr>SetT = OscEnableSetHSEON, ClearT = OscEnableClearHSEON\<rparr>"
definition OscEnableHSEKERON :: set_clear where [rcc_fields]:
  "OscEnableHSEKERON = \<lparr>SetT = OscEnableSetHSEKERON, ClearT = OscEnableClearHSEKERON\<rparr>"
definition OscEnableHSEBYP :: set_clear where [rcc_fields]:
  "OscEnableHSEBYP = \<lparr>SetT = OscEnableSetHSEBYP, ClearT = OscEnableClearHSEBYP\<rparr>"
definition AXISClockReady :: reg_bits where [rcc_fields]:
  "AXISClockReady = RCC_bits 0x808 0x1000000"
definition ClockRestoreReady :: reg_bits where [rcc_fields]:
  "ClockRestoreReady = RCC_bits 0x808 0x2000000"
definition CSIClockReady :: reg_bits where [rcc_fields]: "CSIClockReady = RCC_bits 0x808 0x10"
definition HSEClockReady :: reg_bits where [rcc_fields]: "HSEClockReady = RCC_bits 0x808 0x100"
definition HSIDividerReady :: reg_bits where [rcc_fields]: "HSIDividerReady = RCC_bits 0x808 0x4"
definition HSIClockReady :: reg_bits where [rcc_fields]: "HSIClockReady = RCC_bits 0x808 0x1"
definition MPUClockReady :: reg_bits where [rcc_fields]: "MPUClockReady = RCC_bits 0x808 0x800000"
definition PLL12Source :: reg_bits where [rcc_fields]: "PLL12Source = RCC_bits 0x28 0x3"
definition PLL12SourceReady :: reg_bits where [rcc_fields]:
  "PLL12SourceReady = RCC_bits 0x28 0x80000000"
definition PLL1_Enable :: reg_bits where [rcc_fields]: "PLL1_Enable = RCC_bits 0x80 0x1"
definition PLL1_Ready :: reg_bits where [rcc_fields]: "PLL1_Ready = RCC_bits 0x80 0x2"
definition PLL1_DIVPEnable :: reg_bits where [rcc_fields]: "PLL1_DIVPEnable = RCC_bits 0x80 0x10"
definition PLL1_DIVQEnable :: reg_bits where [rcc_fields]: "PLL1_DIVQEnable = RCC_bits 0x80 0x20"
definition PLL1_DIVREnable :: reg_bits where [rcc_fields]: "PLL1_DIVREnable = RCC_bits 0x80 0x40"
definition PLL1_DIVM1 :: reg_bits where [rcc_fields]: "PLL1_DIVM1 = RCC_bits 0x84 0x3F0000"
definition PLL1_DIVN :: reg_bits where [rcc_fields]: "PLL1_DIVN = RCC_bits 0x84 0x1FF"
definition PLL1_DIVP :: reg_bits where [rcc_fields]: "PLL1_DIVP = RCC_bits 0x88 0x7F"
definition PLL1_DIVQ :: reg_bits where [rcc_fields]: "PLL1_DIVQ = RCC_bits 0x88 0x7F00"
definition PLL1_DIVR :: reg_bits where [rcc_fields]: "PLL1_DIVR = RCC_bits 0x88 0x7F0000"
definition PLL1_FRACValue :: reg_bits where [rcc_fields]: "PLL1_FRACValue = RCC_bits 0x8C 0xFFF8"
definition PLL1_FRACLatch :: reg_bits where [rcc_fields]: "PLL1_FRACLatch = RCC_bits 0x8C 0x10000"
definition PLL1_SSCG_Enable :: reg_bits where [rcc_fields]: "PLL1_SSCG_Enable = RCC_bits 0x80 0x4"
definition PLL1_SSCG_ModPeriod :: reg_bits where [rcc_fields]:
  "PLL1_SSCG_ModPeriod = RCC_bits 0x90 0x1FFF"
definition PLL1_SSCG_IncStep :: reg_bits where [rcc_fields]:
  "PLL1_SSCG_IncStep = RCC_bits 0x90 0x7FFF0000"
definition PLL1_SSCG_DitheringRPDFDisable :: reg_bits where [rcc_fields]:
  "PLL1_SSCG_DitheringRPDFDisable = RCC_bits 0x90 0x4000"
definition PLL1_SSCG_ModeCenterDown :: reg_bits where [rcc_fields]:
  "PLL1_SSCG_ModeCenterDown = RCC_bits 0x90 0x8000"
definition PLL1_SSCG_DitheringTPDFDisable :: reg_bits where [rcc_fields]:
  "PLL1_SSCG_DitheringTPDFDisable = RCC_bits 0x90 0x2000"
definition PLL2_Enable :: reg_bits where [rcc_fields]: "PLL2_Enable = RCC_bits 0x94 0x1"
definition PLL2_Ready :: reg_bits where [rcc_fields]: "PLL2_Ready = RCC_bits 0x94 0x2"
definition PLL2_DIVPEnable :: reg_bits where [rcc_fields]: "PLL2_DIVPEnable = RCC_bits 0x94 0x10"
definition PLL2_DIVQEnable :: reg_bits where [rcc_fields]: "PLL2_DIVQEnable = RCC_bits 0x94 0x20"
definition PLL2_DIVREnable :: reg_bits where [rcc_fields]: "PLL2_DIVREnable = RCC_bits 0x94 0x40"
definition PLL2_DIVM2 :: reg_bits where [rcc_fields]: "PLL2_DIVM2 = RCC_bits 0x98 0x3F0000"
definition PLL2_DIVN :: reg_bits where [rcc_fields]: "PLL2_DIVN = RCC_bits 0x98 0x1FF"
definition PLL2_DIVP :: reg_bits where [rcc_fields]: "PLL2_DIVP = RCC_bits 0x9C 0x7F"
definition PLL2_DIVQ :: reg_bits where [rcc_fields]: "PLL2_DIVQ = RCC_bits 0x9C 0x7F00"
definition PLL2_DIVR :: reg_bits where [rcc_fields]: "PLL2_DIVR = RCC_bits 0x9C 0x7F0000"
definition PLL2_FRACValue :: reg_bits where [rcc_fields]: "PLL2_FRACValue = RCC_bits 0xA0 0xFFF8"
definition PLL2_FRACLatch :: reg_bits where [rcc_fields]: "PLL2_FRACLatch = RCC_bits 0xA0 0x10000"
definition PLL2_SSCG_Enable :: reg_bits where [rcc_fields]: "PLL2_SSCG_Enable = RCC_bits 0x94 0x4"
definition PLL2_SSCG_ModPeriod :: reg_bits where [rcc_fields]:
  "PLL2_SSCG_ModPeriod = RCC_bits 0xA4 0x1FFF"
definition PLL2_SSCG_IncStep :: reg_bits where [rcc_fields]:
  "PLL2_SSCG_IncStep = RCC_bits 0xA4 0x7FFF0000"
definition PLL2_SSCG_DitheringRPDFDisable :: reg_bits where [rcc_fields]:
  "PLL2_SSCG_DitheringRPDFDisable = RCC_bits 0xA4 0x4000"
definition PLL2_SSCG_ModeCenterDown :: reg_bits where [rcc_fields]:
  "PLL2_SSCG_ModeCenterDown = RCC_bits 0xA4 0x8000"
definition PLL2_SSCG_DitheringTPDFDisable :: reg_bits where [rcc_fields]:
  "PLL2_SSCG_DitheringTPDFDisable = RCC_bits 0xA4 0x2000"

definition MPUClockSrcHSI :: u32 where "MPUClockSrcHSI = 0"
definition MPUClockSrcPLL1 :: u32 where "MPUClockSrcPLL1 = 2"
definition AXISClockSrcHSI :: u32 where "AXISClockSrcHSI = 0"
definition AXISClockSrcPLL2 :: u32 where "AXISClockSrcPLL2 = 2"
definition AXIDivOff :: u32 where "AXIDivOff = 0"
definition PLL12SourceHSE :: u32 where "PLL12SourceHSE = 1"

lemmas clock_sources =
  MPUClockSrcHSI_def MPUClockSrcPLL1_def AXISClockSrcHSI_def AXISClockSrcPLL2_def AXIDivOff_def PLL12SourceHSE_def

subsection \<open>Results\<close>

definition gpio_port :: "nat \<Rightarrow> u32" where
  "gpio_port n = 0x50002000 + 0x1000 * of_nat n"


text \<open>The enable registers of the device are set registers: a one written sets the bit, a zero
  has no effect, and a read returns the bits that are set.\<close>

locale set_registers =
  fixes h :: "'d platform"
    and en :: "'d \<Rightarrow> u32 \<Rightarrow> u32"
    and A :: "u32 set"
  assumes rd_set: "a \<in> A \<Longrightarrow> rd32 h a d = (en d a, d)"
    and wr_set: "a \<in> A \<Longrightarrow> en (wr32 h v a d) = (en d)(a := en d a OR v)"
begin

lemma update_set:
  assumes "a \<in> A"
  shows "en (dev (setbits_le32 h a m s)) = (en (dev s))(a := en (dev s) a OR m)"
    "en (dev (clrbits_le32 h a m s)) = en (dev s)"
proof -
  have "x OR (x AND NOT m) = x" for x by (rule bit_word_eqI) (auto simp: bit_simps)
  then show "en (dev (setbits_le32 h a m s)) = (en (dev s))(a := en (dev s) a OR m)"
    "en (dev (clrbits_le32 h a m s)) = en (dev s)"
    using assms by (simp_all add: setbits_le32_def clrbits_le32_def readl_def writel_def rd_set wr_set or.assoc [symmetric])
qed

lemma update_bits:
  assumes "BaseAddress r \<in> A"
  shows "en (dev (RW_set h r s)) = (en (dev s))(BaseAddress r := en (dev s) (BaseAddress r) OR Mask r)"
    "en (dev (RW_clear h r s)) = en (dev s)"
  using update_set [OF assms, of "Mask r" s]
  by (simp_all add: RW_set_def RW_clear_def setbits_le32_def clrbits_le32_def)

lemma enabled_set:
  assumes "GPIOZ \<noteq> p \<Longrightarrow> RCC_BASE + RCC_MP_AHB4ENSETR \<in> A" "GPIOZ = p \<Longrightarrow> BaseAddress GPIOZ_bits \<in> A"
  shows "GPIO_is_enabled h p s =
    ((if p = GPIOZ then en (dev s) (BaseAddress GPIOZ_bits) AND Mask GPIOZ_bits
      else en (dev s) (RCC_BASE + RCC_MP_AHB4ENSETR) AND get_gpio_bit p) \<noteq> 0, s)"
  using assms
  by (auto simp: GPIO_is_enabled_def readl_def rd_set RO_read_def bits_offset_def field_zero simp del: drop_bit_and)

end

definition set_board :: "(u32 \<Rightarrow> u32) platform" where
  "set_board =
     \<lparr>rd32 = \<lambda>a d. (d a, d), wr32 = \<lambda>v a d. d(a := d a OR v), rd8 = \<lambda>a d. (0, d), wr8 = \<lambda>v a d. d,
      ctrlc_key = \<lambda>d. (False, d), elapse = \<lambda>_ d. d\<rparr>"

interpretation enable_registers: set_registers set_board "\<lambda>d. d" UNIV
  by unfold_locales (simp_all add: set_board_def)

lemma gpio_bit_nz: "get_gpio_bit p \<noteq> 0"
proof -
  have "(drop_bit 12 p - 2 :: u32) AND 0xF < 16"
    using and_mask_less_size [of 4 "drop_bit 12 p - 2 :: u32"] by (simp add: mask_eq_exp_minus_1 word_size)
  then have "unat ((drop_bit 12 p - 2 :: u32) AND 0xF) < 32" by (simp add: word_less_nat_alt)
  then show ?thesis by (simp add: get_gpio_bit_def push_bit_eq_mult)
qed

text \<open>C21. On set registers \<open>GPIO::enable\<close> sets the bit of its port and no other, and the port is
  then enabled; \<open>GPIO::disable\<close> changes nothing, so an enabled port stays enabled.\<close>

theorem gpio_disable_has_no_effect:
  assumes "set_registers h en {RCC_BASE + 0xA28, RCC_BASE + 0x210}"
  shows "fst (GPIO_is_enabled h p (GPIO_enable h p s)) \<and>
    en (dev (GPIO_enable h p s)) =
      (if p = GPIOZ then (en (dev s))(RCC_BASE + 0x210 := en (dev s) (RCC_BASE + 0x210) OR 1)
       else (en (dev s))(RCC_BASE + 0xA28 := en (dev s) (RCC_BASE + 0xA28) OR get_gpio_bit p)) \<and>
    en (dev (GPIO_disable h p s)) = en (dev s) \<and>
    fst (GPIO_is_enabled h p (GPIO_disable h p s)) = fst (GPIO_is_enabled h p s)"
proof -
  note e = set_registers.enabled_set [OF assms]
    and u = set_registers.update_set [OF assms] set_registers.update_bits [OF assms]
  have a: "RCC_BASE + RCC_MP_AHB4ENSETR = RCC_BASE + 0xA28" by (simp add: RCC_MP_AHB4ENSETR_def)
  have z: "BaseAddress GPIOZ_bits = RCC_BASE + 0x210" "Mask GPIOZ_bits = 1" by (simp_all add: GPIOZ_bits_def RCC_bits_def)
  have nz: "(x OR 1) AND 1 \<noteq> (0 :: u32)" "(x OR get_gpio_bit p) AND get_gpio_bit p \<noteq> 0" for x
    using gpio_bit_nz [of p] by (simp_all add: bit.conj_disj_distrib2)
  show ?thesis
    using nz by (cases "p = GPIOZ") (simp_all add: GPIO_enable_def GPIO_disable_def Let_def e u z a)
qed

theorem gpio_disable_has_no_effect_witness:
  "fst (GPIO_is_enabled set_board 0x50003000 (GPIO_disable set_board 0x50003000
     (GPIO_enable set_board 0x50003000
       \<lparr>dev = \<lambda>_. 0, rand_y = 1, bist_error_max = 0, bist_seed = 0, result_msg = None\<rparr>)))"
proof -
  have "set_registers set_board (\<lambda>d. d) {RCC_BASE + 0xA28, RCC_BASE + 0x210}"
    by unfold_locales (simp_all add: set_board_def)
  note g = gpio_disable_has_no_effect [OF this, of "0x50003000"]
  show ?thesis using g by blast
qed

end
