(* ===== verification/Pins.thy ===== *)
theory Pins
  imports Rcc
begin

text \<open>
  Pin configuration (shared/drivers/pinconf.hh) over the inline functions of the vendor's
  stm32mp1xx\_ll\_gpio.h, which multiply masks by powers of the pin's bit. A \<open>PinNum\<close> is the
  word with the pin's bit, as in the source. \<open>init\<close> ignores its polarity argument, which is
  left out.
\<close>

subsection \<open>Ports, pins and their options\<close>

datatype GPIO = GPIO_A | GPIO_B | GPIO_C | GPIO_D | GPIO_E | GPIO_F | GPIO_G | GPIO_H | GPIO_I | GPIO_J | GPIO_K | GPIO_Z

fun GPIO_base :: "GPIO \<Rightarrow> u32" where
  "GPIO_base GPIO_A = 0x50002000"
| "GPIO_base GPIO_B = 0x50003000"
| "GPIO_base GPIO_C = 0x50004000"
| "GPIO_base GPIO_D = 0x50005000"
| "GPIO_base GPIO_E = 0x50006000"
| "GPIO_base GPIO_F = 0x50007000"
| "GPIO_base GPIO_G = 0x50008000"
| "GPIO_base GPIO_H = 0x50009000"
| "GPIO_base GPIO_I = 0x5000A000"
| "GPIO_base GPIO_J = 0x5000B000"
| "GPIO_base GPIO_K = 0x5000C000"
| "GPIO_base GPIO_Z = 0x54004000"

definition PinNum :: "nat \<Rightarrow> u16" where "PinNum n = push_bit n 1"

datatype PinMode = Input | Output | Analog | Alt
datatype PinPull = PullUp | PullDown | PullNone
datatype PinSpeed = SpeedLow | SpeedMedium | SpeedHigh | SpeedVeryHigh
datatype PinOType = PushPull | OpenDrain

fun PinMode_val :: "PinMode \<Rightarrow> u32" where
  "PinMode_val Input = 0" | "PinMode_val Output = 1" | "PinMode_val Analog = 3" | "PinMode_val Alt = 2"

fun PinPull_val :: "PinPull \<Rightarrow> u32" where
  "PinPull_val PullUp = 1" | "PinPull_val PullDown = 2" | "PinPull_val PullNone = 0"

fun PinSpeed_val :: "PinSpeed \<Rightarrow> u32" where
  "PinSpeed_val SpeedLow = 0" | "PinSpeed_val SpeedMedium = 1" | "PinSpeed_val SpeedHigh = 2" | "PinSpeed_val SpeedVeryHigh = 3"

fun PinOType_val :: "PinOType \<Rightarrow> u32" where
  "PinOType_val PushPull = 0" | "PinOType_val OpenDrain = 1"

record PinConf =
  gpio :: GPIO
  pin :: u16
  af :: u32

subsection \<open>The vendor's access functions\<close>

definition LL_GPIO_SetPinMode :: "'d platform \<Rightarrow> u32 \<Rightarrow> u32 \<Rightarrow> u32 \<Rightarrow> 'd sys \<Rightarrow> 'd sys" where
  "LL_GPIO_SetPinMode h g Pin Mode s = clrsetbits_le32 h (g + 0x00) ((Pin * Pin) * 3) ((Pin * Pin) * Mode) s"

definition LL_GPIO_SetPinOutputType :: "'d platform \<Rightarrow> u32 \<Rightarrow> u32 \<Rightarrow> u32 \<Rightarrow> 'd sys \<Rightarrow> 'd sys" where
  "LL_GPIO_SetPinOutputType h g PinMask OutputType s = clrsetbits_le32 h (g + 0x04) PinMask (PinMask * OutputType) s"

definition LL_GPIO_SetPinSpeed :: "'d platform \<Rightarrow> u32 \<Rightarrow> u32 \<Rightarrow> u32 \<Rightarrow> 'd sys \<Rightarrow> 'd sys" where
  "LL_GPIO_SetPinSpeed h g Pin Speed s = clrsetbits_le32 h (g + 0x08) ((Pin * Pin) * 3) ((Pin * Pin) * Speed) s"

definition LL_GPIO_SetPinPull :: "'d platform \<Rightarrow> u32 \<Rightarrow> u32 \<Rightarrow> u32 \<Rightarrow> 'd sys \<Rightarrow> 'd sys" where
  "LL_GPIO_SetPinPull h g Pin Pull s = clrsetbits_le32 h (g + 0x0C) ((Pin * Pin) * 3) ((Pin * Pin) * Pull) s"

definition LL_GPIO_SetAFPin_0_7 :: "'d platform \<Rightarrow> u32 \<Rightarrow> u32 \<Rightarrow> u32 \<Rightarrow> 'd sys \<Rightarrow> 'd sys" where
  "LL_GPIO_SetAFPin_0_7 h g Pin Alternate s =
     clrsetbits_le32 h (g + 0x20) ((((Pin * Pin) * Pin) * Pin) * 0xF) ((((Pin * Pin) * Pin) * Pin) * Alternate) s"

definition LL_GPIO_SetAFPin_8_15 :: "'d platform \<Rightarrow> u32 \<Rightarrow> u32 \<Rightarrow> u32 \<Rightarrow> 'd sys \<Rightarrow> 'd sys" where
  "LL_GPIO_SetAFPin_8_15 h g Pin Alternate s =
     clrsetbits_le32 h (g + 0x24)
       ((((drop_bit 8 Pin * drop_bit 8 Pin) * drop_bit 8 Pin) * drop_bit 8 Pin) * 0xF)
       ((((drop_bit 8 Pin * drop_bit 8 Pin) * drop_bit 8 Pin) * drop_bit 8 Pin) * Alternate) s"

definition LL_GPIO_IsInputPinSet :: "'d platform \<Rightarrow> u32 \<Rightarrow> u32 \<Rightarrow> 'd sys \<Rightarrow> bool \<times> 'd sys" where
  "LL_GPIO_IsInputPinSet h g PinMask s =
     (let (v, s) = readl h (g + 0x10) s in (v AND PinMask = PinMask, s))"

definition LL_GPIO_SetOutputPin :: "'d platform \<Rightarrow> u32 \<Rightarrow> u32 \<Rightarrow> 'd sys \<Rightarrow> 'd sys" where
  "LL_GPIO_SetOutputPin h g PinMask s = writel h PinMask (g + 0x18) s"

definition LL_GPIO_ResetOutputPin :: "'d platform \<Rightarrow> u32 \<Rightarrow> u32 \<Rightarrow> 'd sys \<Rightarrow> 'd sys" where
  "LL_GPIO_ResetOutputPin h g PinMask s = writel h (push_bit 16 PinMask) (g + 0x18) s"

definition LL_GPIO_TogglePin :: "'d platform \<Rightarrow> u32 \<Rightarrow> u32 \<Rightarrow> 'd sys \<Rightarrow> 'd sys" where
  "LL_GPIO_TogglePin h g PinMask s =
     (let (v, s) = readl h (g + 0x14) s in writel h (v XOR PinMask) (g + 0x14) s)"

subsection \<open>PinConf\<close>

definition PinConf_init ::
  "'d platform \<Rightarrow> PinConf \<Rightarrow> PinMode \<Rightarrow> PinPull \<Rightarrow> PinSpeed \<Rightarrow> PinOType \<Rightarrow> 'd sys \<Rightarrow> 'd sys" where
  "PinConf_init h c mode pull speed otype s =
     (let port = GPIO_base (gpio c);
          pn = ucast (pin c) :: u32;
          s = GPIO_enable h port s;
          s = LL_GPIO_SetPinMode h port pn (PinMode_val mode) s;
          s = LL_GPIO_SetPinPull h port pn (PinPull_val pull) s;
          s = LL_GPIO_SetPinSpeed h port pn (PinSpeed_val speed) s;
          s = (if mode = Alt \<or> mode = Output then LL_GPIO_SetPinOutputType h port pn (PinOType_val otype) s else s)
      in if mode = Alt
         then if pn \<ge> 0x100 then LL_GPIO_SetAFPin_8_15 h port pn (af c) s
              else LL_GPIO_SetAFPin_0_7 h port pn (af c) s
         else s)"

text \<open>\<open>init(mode)\<close> with the default arguments.\<close>

definition PinConf_init_default :: "'d platform \<Rightarrow> PinConf \<Rightarrow> PinMode \<Rightarrow> 'd sys \<Rightarrow> 'd sys" where
  "PinConf_init_default h c mode s = PinConf_init h c mode PullNone SpeedHigh PushPull s"

text \<open>The overload with the output type as second argument.\<close>

definition PinConf_init_otype :: "'d platform \<Rightarrow> PinConf \<Rightarrow> PinMode \<Rightarrow> PinOType \<Rightarrow> 'd sys \<Rightarrow> 'd sys" where
  "PinConf_init_otype h c mode otype s = PinConf_init h c mode PullNone SpeedHigh otype s"

definition PinConf_low :: "'d platform \<Rightarrow> PinConf \<Rightarrow> 'd sys \<Rightarrow> 'd sys" where
  "PinConf_low h c s = LL_GPIO_ResetOutputPin h (GPIO_base (gpio c)) (ucast (pin c)) s"

definition PinConf_high :: "'d platform \<Rightarrow> PinConf \<Rightarrow> 'd sys \<Rightarrow> 'd sys" where
  "PinConf_high h c s = LL_GPIO_SetOutputPin h (GPIO_base (gpio c)) (ucast (pin c)) s"

definition PinConf_toggle :: "'d platform \<Rightarrow> PinConf \<Rightarrow> 'd sys \<Rightarrow> 'd sys" where
  "PinConf_toggle h c s = LL_GPIO_TogglePin h (GPIO_base (gpio c)) (ucast (pin c)) s"

definition PinConf_read :: "'d platform \<Rightarrow> PinConf \<Rightarrow> 'd sys \<Rightarrow> bool \<times> 'd sys" where
  "PinConf_read h c s = LL_GPIO_IsInputPinSet h (GPIO_base (gpio c)) (ucast (pin c)) s"

definition bit_to_num :: "u16 \<Rightarrow> u32" where
  "bit_to_num p =
     (if p = PinNum 0 then 0 else if p = PinNum 1 then 1 else if p = PinNum 2 then 2 else if p = PinNum 3 then 3
      else if p = PinNum 4 then 4 else if p = PinNum 5 then 5 else if p = PinNum 6 then 6 else if p = PinNum 7 then 7
      else if p = PinNum 8 then 8 else if p = PinNum 9 then 9 else if p = PinNum 10 then 10
      else if p = PinNum 11 then 11 else if p = PinNum 12 then 12 else if p = PinNum 13 then 13
      else if p = PinNum 14 then 14 else if p = PinNum 15 then 15 else 0)"


subsection \<open>Fields of the port registers\<close>

definition gpio_field :: "u32 \<Rightarrow> nat \<Rightarrow> nat \<Rightarrow> u32" where
  "gpio_field v w i = take_bit w (drop_bit (w * i) v)"

lemma field_slots:
  assumes "i \<noteq> (j :: nat)" "0 < w" "k < w"
  shows "\<not> (w * i \<le> w * j + k \<and> w * j + k < w * i + w)"
proof
  assume a: "w * i \<le> w * j + k \<and> w * j + k < w * i + w"
  then have "w * i < w * (j + 1)" "w * j < w * (i + 1)" using assms(3) by auto
  then have "i < j + 1" "j < i + 1" using assms(2) by (simp_all only: mult_less_cancel1)
  then show False using assms(1) by simp
qed

lemma gpio_field_set:
  assumes "0 < w" "w * i + w \<le> 32" "w * j + w \<le> 32" "take_bit w v = v"
  shows "gpio_field ((x AND NOT (push_bit (w * i) (mask w))) OR push_bit (w * i) v) w j =
    (if i = j then v else gpio_field x w j)"
proof (rule bit_word_eqI)
  fix k assume "k < LENGTH(32)"
  have v: "bit v m \<longleftrightarrow> m < w \<and> bit v m" for m using assms(4) by (metis bit_take_bit_iff)
  show "bit (gpio_field ((x AND NOT (push_bit (w * i) (mask w))) OR push_bit (w * i) v) w j) k =
    bit (if i = j then v else gpio_field x w j) k"
  proof (cases "k < w")
    case True
    show ?thesis
    proof (cases "i = j")
      case True
      then show ?thesis using \<open>k < w\<close> assms v [of k] by (simp add: gpio_field_def bit_simps)
    next
      case False
      then have "\<not> (w * i \<le> w * j + k \<and> w * j + k < w * i + w)"
        using field_slots [of i j w k] assms(1) True by blast
      then have "\<not> (w * i \<le> w * j + k \<and> bit v (w * j + k - w * i))" "\<not> (w * i \<le> w * j + k \<and> w * j + k - w * i < w)"
        using v [of "w * j + k - w * i"] by auto
      then show ?thesis using False True assms by (auto simp: gpio_field_def bit_simps)
    qed
  next
    case False
    then show ?thesis using v [of k] by (simp add: gpio_field_def bit_simps)
  qed
qed

lemma not_256: "\<not> (0x100 :: u32) \<le> 1"
  by (simp add: word_le_nat_alt)

lemma pin_powers:
  assumes "n < 16"
  shows "(ucast (PinNum n) :: u32) = 2 ^ n" "(2 ^ n :: u32) \<ge> 0x100 \<longleftrightarrow> 8 \<le> n"
    "8 \<le> n \<Longrightarrow> drop_bit 8 (2 ^ n :: u32) = 2 ^ (n - 8)"
proof -
  have "n = 0 \<or> n = 1 \<or> n = 2 \<or> n = 3 \<or> n = 4 \<or> n = 5 \<or> n = 6 \<or> n = 7 \<or> n = 8 \<or> n = 9 \<or>
      n = 10 \<or> n = 11 \<or> n = 12 \<or> n = 13 \<or> n = 14 \<or> n = 15"
    using assms by arith
  then show "(ucast (PinNum n) :: u32) = 2 ^ n" "(2 ^ n :: u32) \<ge> 0x100 \<longleftrightarrow> 8 \<le> n"
    "8 \<le> n \<Longrightarrow> drop_bit 8 (2 ^ n :: u32) = 2 ^ (n - 8)"
    using not_256 by (auto simp: PinNum_def push_bit_eq_mult)
qed

lemma pow_fields:
  "2 ^ n * 2 ^ n * v = push_bit (2 * n) (v :: u32)" "2 ^ n * v = push_bit (1 * n) (v :: u32)"
  "2 ^ n * 2 ^ n * 2 ^ n * 2 ^ n * v = push_bit (4 * n) (v :: u32)"
  by (simp_all add: push_bit_eq_mult power_mult mult.commute [of v] flip: power_mult_distrib)

lemma field_masks: "(3 :: u32) = mask 2" "(1 :: u32) = mask 1" "(0xF :: u32) = mask 4"
  by (simp_all add: mask_eq_exp_minus_1)

definition enable_reg :: "u32 \<Rightarrow> u32" where
  "enable_reg p = (if p = GPIOZ then RCC_BASE + 0x210 else RCC_BASE + 0xA28)"

definition enable_bit :: "u32 \<Rightarrow> u32" where
  "enable_bit p = (if p = GPIOZ then 1 else get_gpio_bit p)"

definition port_regs :: "u32 \<Rightarrow> u32 set" where
  "port_regs g = {g, g + 4, g + 8, g + 0xC, g + 0x20, g + 0x24}"

definition put_field :: "u32 \<Rightarrow> nat \<Rightarrow> nat \<Rightarrow> u32 \<Rightarrow> u32" where
  "put_field v w i x = (v AND NOT (push_bit (w * i) (mask w))) OR push_bit (w * i) x"

lemma enable_not_port: "enable_reg (GPIO_base p) \<notin> port_regs (GPIO_base q)"
  by (cases q) (simp_all add: port_regs_def enable_reg_def reg_defs)

context plain_regs
begin

lemma clrset_regs:
  "a \<in> plain \<Longrightarrow> regs (dev (clrsetbits_le32 h a c b s)) = (regs (dev s))(a := (regs (dev s) a AND NOT c) OR b)"
  by (simp add: clrsetbits_le32_def split_def Let_def)

lemma set_regs: "a \<in> plain \<Longrightarrow> regs (dev (setbits_le32 h a b s)) = (regs (dev s))(a := regs (dev s) a OR b)"
  by (simp add: setbits_le32_def split_def Let_def)

lemma enable_regs:
  assumes "enable_reg p \<in> plain"
  shows "regs (dev (GPIO_enable h p s)) = (regs (dev s))(enable_reg p := regs (dev s) (enable_reg p) OR enable_bit p)"
  using assms
  by (auto simp: GPIO_enable_def GPIO_is_enabled_def enable_reg_def enable_bit_def Let_def split_def RO_read_def
    fields_regs set_regs GPIOZ_bits_def RCC_bits_def RCC_MP_AHB4ENSETR_def)

lemma init_regs:
  assumes "insert (enable_reg g) (port_regs g) \<subseteq> plain" "g = GPIO_base (gpio c)" "n < 16" "pin c = PinNum n"
  shows "regs (dev (PinConf_init h c mode pull speed otype s)) =
    (let r = (regs (dev s))(enable_reg g := regs (dev s) (enable_reg g) OR enable_bit g);
         r = r(g := put_field (r g) 2 n (PinMode_val mode));
         r = r(g + 0xC := put_field (r (g + 0xC)) 2 n (PinPull_val pull));
         r = r(g + 8 := put_field (r (g + 8)) 2 n (PinSpeed_val speed));
         r = (if mode = Alt \<or> mode = Output then r(g + 4 := put_field (r (g + 4)) 1 n (PinOType_val otype)) else r);
         afr = (if 8 \<le> n then g + 0x24 else g + 0x20)
     in if mode = Alt then r(afr := put_field (r afr) 4 (n mod 8) (af c)) else r)"
proof -
  have P: "enable_reg g \<in> plain" "g \<in> plain" "g + 4 \<in> plain" "g + 8 \<in> plain" "g + 0xC \<in> plain"
    "g + 0x20 \<in> plain" "g + 0x24 \<in> plain"
    using assms(1) by (auto simp: port_regs_def)
  have n: "n mod 8 = (if 8 \<le> n then n - 8 else n)" using assms(3) by (auto simp: le_mod_geq)
  have f: "2 ^ n * 2 ^ n * 3 = push_bit (2 * n) (mask 2 :: u32)" "(2 ^ n :: u32) = push_bit (1 * n) (mask 1)"
    "2 ^ k * 2 ^ k * 2 ^ k * 2 ^ k * 0xF = push_bit (4 * k) (mask 4 :: u32)" for k
    unfolding pow_fields(1) [of n 3] pow_fields(3) [of k 15] by (simp_all add: mask_eq_exp_minus_1 push_bit_eq_mult)
  note p = pin_powers [OF assms(3)]
  have t: "LL_GPIO_SetPinOutputType h g (2 ^ n) v s = clrsetbits_le32 h (g + 4) (push_bit (1 * n) (mask 1)) (push_bit (1 * n) v) s" for v s
    unfolding LL_GPIO_SetPinOutputType_def by (simp only: f(2) [symmetric] pow_fields(2))
  have m: "LL_GPIO_SetPinMode h g (2 ^ n) v s = clrsetbits_le32 h g (push_bit (2 * n) (mask 2)) (push_bit (2 * n) v) s"
    "LL_GPIO_SetPinPull h g (2 ^ n) v s = clrsetbits_le32 h (g + 0xC) (push_bit (2 * n) (mask 2)) (push_bit (2 * n) v) s"
    "LL_GPIO_SetPinSpeed h g (2 ^ n) v s = clrsetbits_le32 h (g + 8) (push_bit (2 * n) (mask 2)) (push_bit (2 * n) v) s" for v s
    unfolding LL_GPIO_SetPinMode_def LL_GPIO_SetPinPull_def LL_GPIO_SetPinSpeed_def f(1) pow_fields(1)
    by (simp_all add: mask_eq_exp_minus_1)
  have a: "(if 0x100 \<le> (2 ^ n :: u32) then LL_GPIO_SetAFPin_8_15 h g (2 ^ n) v s else LL_GPIO_SetAFPin_0_7 h g (2 ^ n) v s) =
    clrsetbits_le32 h (if 8 \<le> n then g + 0x24 else g + 0x20) (push_bit (4 * (n mod 8)) (mask 4)) (push_bit (4 * (n mod 8)) v) s" for v s
    unfolding LL_GPIO_SetAFPin_0_7_def LL_GPIO_SetAFPin_8_15_def
    by (cases "8 \<le> n") (simp_all only: p(2,3) n if_True if_False pow_fields(3) field_masks(3) not_False_eq_True simp_thms)
  have afr: "(if 8 \<le> n then g + 0x24 else g + 0x20) \<in> plain" using P by simp
  show ?thesis
    unfolding PinConf_init_def assms(2) [symmetric] assms(4) p(1) Let_def t m a
    using P afr by (cases mode) (simp_all add: clrset_regs enable_regs put_field_def)
qed

end

lemma field_small:
  "take_bit 2 (PinMode_val m) = PinMode_val m" "take_bit 2 (PinPull_val p) = PinPull_val p"
  "take_bit 2 (PinSpeed_val v) = PinSpeed_val v" "take_bit 1 (PinOType_val y) = PinOType_val y"
  by (cases m; cases p; cases v; cases y; simp)+

lemma put_field_get:
  assumes "0 < w" "w * i + w \<le> 32" "w * j + w \<le> 32" "take_bit w x = x"
  shows "gpio_field (put_field v w i x) w j = (if i = j then x else gpio_field v w j)"
  unfolding put_field_def by (rule gpio_field_set [OF assms])

lemma put_bit_get:
  "i < 32 \<Longrightarrow> j < 32 \<Longrightarrow>
   gpio_field (put_field v (Suc 0) i (PinOType_val y)) (Suc 0) j = (if i = j then PinOType_val y else gpio_field v (Suc 0) j)"
  using put_field_get [of 1 i j "PinOType_val y" v] field_small(4) [of y] by simp

text \<open>C22. \<open>PinConf::init\<close> leaves in the fields of its pin the mode, pull and speed asked for, for an
  output or alternate function the output type, and for an alternate function its number, and
  the port enabled. The fields of the other fifteen pins and all other registers are unchanged.\<close>

theorem pin_init_configures:
  assumes "plain_regs h regs plain" "insert (enable_reg g) (port_regs g) \<subseteq> plain"
    and "g = GPIO_base (gpio c)" "n < 16" "pin c = PinNum n" "af c < 16"
  shows "let r = regs (dev s); r' = regs (dev (PinConf_init h c mode pull speed otype s)) in
    gpio_field (r' g) 2 n = PinMode_val mode \<and> gpio_field (r' (g + 0xC)) 2 n = PinPull_val pull \<and>
    gpio_field (r' (g + 8)) 2 n = PinSpeed_val speed \<and>
    (mode = Alt \<or> mode = Output \<longrightarrow> gpio_field (r' (g + 4)) 1 n = PinOType_val otype) \<and>
    (mode = Alt \<longrightarrow> gpio_field (r' (if 8 \<le> n then g + 0x24 else g + 0x20)) 4 (n mod 8) = af c) \<and>
    r' (enable_reg g) = r (enable_reg g) OR enable_bit g \<and>
    (\<forall>i<16. i \<noteq> n \<longrightarrow> (\<forall>a\<in>{g, g + 8, g + 0xC}. gpio_field (r' a) 2 i = gpio_field (r a) 2 i) \<and>
       gpio_field (r' (g + 4)) 1 i = gpio_field (r (g + 4)) 1 i) \<and>
    (\<forall>i<16. i \<noteq> n \<longrightarrow> (let afr = if 8 \<le> i then g + 0x24 else g + 0x20
       in gpio_field (r' afr) 4 (i mod 8) = gpio_field (r afr) 4 (i mod 8))) \<and>
    (\<forall>a. a \<notin> insert (enable_reg g) (port_regs g) \<longrightarrow> r' a = r a)"
proof -
  have e: "enable_reg g \<notin> port_regs g" using enable_not_port assms(3) by simp
  then have e: "enable_reg g \<noteq> g" "enable_reg g \<noteq> g + 4" "enable_reg g \<noteq> g + 8" "enable_reg g \<noteq> g + 0xC"
    "enable_reg g \<noteq> g + 0x20" "enable_reg g \<noteq> g + 0x24" "g \<noteq> enable_reg g" "g + 4 \<noteq> enable_reg g"
    "g + 8 \<noteq> enable_reg g" "g + 0xC \<noteq> enable_reg g" "g + 0x20 \<noteq> enable_reg g" "g + 0x24 \<noteq> enable_reg g"
    by (auto simp: port_regs_def)
  have a: "take_bit 4 (af c) = af c"
    using assms(6) less_mask_eq [of "af c" 4] by (simp add: take_bit_eq_mask)
  have m: "4 * (i mod 8) + 4 \<le> 32" for i :: nat using mod_less_divisor [of 8 i] by linarith
  have ne: "i mod 8 \<noteq> n mod 8" if "i < 16" "i \<noteq> n" "(8 \<le> i) = (8 \<le> n)" for i
    using that assms(4) by (cases "8 \<le> i") (auto simp: le_mod_geq)
  note r = plain_regs.init_regs [OF assms(1,2,3,4,5), of mode pull speed otype s]
  show ?thesis
    unfolding r Let_def using assms(4) e a m
    by (auto simp: ne ne [THEN not_sym] put_field_get put_bit_get field_small port_regs_def)
qed

theorem pin_init_configures_witness:
  "\<forall>s. gpio_field (dev (PinConf_init (cell_ram sound_cell (\<lambda>a. a)) \<lparr>gpio = GPIO_C, pin = PinNum 8, af = 12\<rparr> Alt
     PullNone SpeedHigh PushPull s) 0x50004024) 4 0 = 12"
proof
  fix s :: "(u32 \<Rightarrow> u32) sys"
  let ?c = "\<lparr>gpio = GPIO_C, pin = PinNum 8, af = 12\<rparr>"
  have "gpio_field (dev (PinConf_init (cell_ram sound_cell (\<lambda>a. a)) ?c Alt PullNone SpeedHigh PushPull s)
      (if 8 \<le> (8 :: nat) then 0x50004000 + 0x24 else 0x50004000 + 0x20)) 4 (8 mod 8) = af ?c"
    by (rule pin_init_configures [OF cell_regs.plain_regs_axioms, unfolded Let_def, where mode = Alt,
        THEN conjunct2, THEN conjunct2, THEN conjunct2, THEN conjunct2, THEN conjunct1, THEN mp]) simp_all
  then show "gpio_field (dev (PinConf_init (cell_ram sound_cell (\<lambda>a. a)) ?c Alt PullNone SpeedHigh PushPull s)
      0x50004024) 4 0 = 12"
    by simp
qed

end
