(* ===== verification/Qspi.thy ===== *)
theory Qspi
  imports Registers
begin

text \<open>
  The QSPI flash interface (norflash/qspi\_ll.h, qspi\_ll.c, qspi\_norflash\_read.c). Registers are
  at the addresses of the device header; a data pointer is an address of the memory that
  \<open>rd8\<close> and \<open>wr8\<close> access. The constants are the values of the macros of qspi\_ll.h. Endless polls
  have the value \<open>None\<close> when the flag never shows; the polls with a time-out count down a word.
\<close>

named_theorems qspi_defs

subsection \<open>Constants (qspi\_ll.h)\<close>

definition RESET_ENABLE_CMD :: u32 where [qspi_defs]: "RESET_ENABLE_CMD = 0x66"
definition RESET_CMD :: u32 where [qspi_defs]: "RESET_CMD = 0x99"
definition DEEP_POWER_DOWN_CMD :: u32 where [qspi_defs]: "DEEP_POWER_DOWN_CMD = 0xB9"
definition READ_ID_CMD :: u32 where [qspi_defs]: "READ_ID_CMD = 0x9F"
definition READ_MANUF_RELEASE_DP :: u32 where [qspi_defs]: "READ_MANUF_RELEASE_DP = 0xAB"
definition READ_UID :: u32 where [qspi_defs]: "READ_UID = 0x4B"
definition READ_SERIAL_FLASH_DISCO_PARAM_CMD :: u32 where [qspi_defs]:
  "READ_SERIAL_FLASH_DISCO_PARAM_CMD = 0x5A"
definition READ_CMD :: u32 where [qspi_defs]: "READ_CMD = 3"
definition FAST_READ_CMD :: u32 where [qspi_defs]: "FAST_READ_CMD = 0xB"
definition DUAL_OUT_FAST_READ_CMD :: u32 where [qspi_defs]: "DUAL_OUT_FAST_READ_CMD = 0x3B"
definition DUAL_INOUT_FAST_READ_CMD :: u32 where [qspi_defs]: "DUAL_INOUT_FAST_READ_CMD = 0xBB"
definition QUAD_OUT_FAST_READ_CMD :: u32 where [qspi_defs]: "QUAD_OUT_FAST_READ_CMD = 0x6B"
definition QUAD_INOUT_FAST_READ_CMD :: u32 where [qspi_defs]: "QUAD_INOUT_FAST_READ_CMD = 0xEB"
definition READ_STATUS_REG_CMD :: u32 where [qspi_defs]: "READ_STATUS_REG_CMD = 5"
definition WRITE_STATUS_REG_CMD :: u32 where [qspi_defs]: "WRITE_STATUS_REG_CMD = 1"
definition READ_FUNCTION_REG_CMD :: u32 where [qspi_defs]: "READ_FUNCTION_REG_CMD = 0x48"
definition WRITE_FUNCTION_REG_CMD :: u32 where [qspi_defs]: "WRITE_FUNCTION_REG_CMD = 0x42"
definition READ_INFO_ROW :: u32 where [qspi_defs]: "READ_INFO_ROW = 0x62"
definition PROG_INFO_ROW :: u32 where [qspi_defs]: "PROG_INFO_ROW = 0x68"
definition SECTOR_UNLOCK :: u32 where [qspi_defs]: "SECTOR_UNLOCK = 0x26"
definition SECTOR_LOCK :: u32 where [qspi_defs]: "SECTOR_LOCK = 0x24"
definition WRITE_ENABLE_CMD :: u32 where [qspi_defs]: "WRITE_ENABLE_CMD = 6"
definition PAGE_PROG_CMD :: u32 where [qspi_defs]: "PAGE_PROG_CMD = 2"
definition QUAD_IN_FAST_PROG_CMD :: u32 where [qspi_defs]: "QUAD_IN_FAST_PROG_CMD = 0x38"
definition SECTOR_ERASE_CMD :: u32 where [qspi_defs]: "SECTOR_ERASE_CMD = 0x20"
definition BLOCK_ERASE_32K_CMD :: u32 where [qspi_defs]: "BLOCK_ERASE_32K_CMD = 0x52"
definition BLOCK_ERASE_64K_CMD :: u32 where [qspi_defs]: "BLOCK_ERASE_64K_CMD = 0xD8"
definition BULK_ERASE_CMD :: u32 where [qspi_defs]: "BULK_ERASE_CMD = 0xC7"
definition PROG_ERASE_RESUME_CMD :: u32 where [qspi_defs]: "PROG_ERASE_RESUME_CMD = 0x30"
definition PROG_ERASE_SUSPEND_CMD :: u32 where [qspi_defs]: "PROG_ERASE_SUSPEND_CMD = 0xB0"
definition QSPI_SR_WIP :: u32 where [qspi_defs]: "QSPI_SR_WIP = 1"
definition QSPI_SR_WREN :: u32 where [qspi_defs]: "QSPI_SR_WREN = 2"
definition QSPI_SR_BLOCKPR :: u32 where [qspi_defs]: "QSPI_SR_BLOCKPR = 0x5C"
definition QSPI_SR_PRBOTTOM :: u32 where [qspi_defs]: "QSPI_SR_PRBOTTOM = 0x20"
definition QSPI_SR_QUADEN :: u32 where [qspi_defs]: "QSPI_SR_QUADEN = 0x40"
definition QSPI_SR_SRWREN :: u32 where [qspi_defs]: "QSPI_SR_SRWREN = 0x80"
definition QSPI_FUNCTIONAL_MODE_INDIRECT_WRITE :: u32 where [qspi_defs]:
  "QSPI_FUNCTIONAL_MODE_INDIRECT_WRITE = 0"
definition QSPI_FUNCTIONAL_MODE_INDIRECT_READ :: u32 where [qspi_defs]:
  "QSPI_FUNCTIONAL_MODE_INDIRECT_READ = 0x4000000"
definition QSPI_FUNCTIONAL_MODE_AUTO_POLLING :: u32 where [qspi_defs]:
  "QSPI_FUNCTIONAL_MODE_AUTO_POLLING = 0x8000000"
definition QSPI_FUNCTIONAL_MODE_MEMORY_MAPPED :: u32 where [qspi_defs]:
  "QSPI_FUNCTIONAL_MODE_MEMORY_MAPPED = 0xC000000"
definition QSPI_SAMPLE_SHIFTING_NONE :: u32 where [qspi_defs]: "QSPI_SAMPLE_SHIFTING_NONE = 0"
definition QSPI_SAMPLE_SHIFTING_HALFCYCLE :: u32 where [qspi_defs]: "QSPI_SAMPLE_SHIFTING_HALFCYCLE = 0x10"
definition QSPI_CS_HIGH_TIME_1_CYCLE :: u32 where [qspi_defs]: "QSPI_CS_HIGH_TIME_1_CYCLE = 0"
definition QSPI_CS_HIGH_TIME_2_CYCLE :: u32 where [qspi_defs]: "QSPI_CS_HIGH_TIME_2_CYCLE = 0x100"
definition QSPI_CS_HIGH_TIME_3_CYCLE :: u32 where [qspi_defs]: "QSPI_CS_HIGH_TIME_3_CYCLE = 0x200"
definition QSPI_CS_HIGH_TIME_4_CYCLE :: u32 where [qspi_defs]: "QSPI_CS_HIGH_TIME_4_CYCLE = 0x300"
definition QSPI_CS_HIGH_TIME_5_CYCLE :: u32 where [qspi_defs]: "QSPI_CS_HIGH_TIME_5_CYCLE = 0x400"
definition QSPI_CS_HIGH_TIME_6_CYCLE :: u32 where [qspi_defs]: "QSPI_CS_HIGH_TIME_6_CYCLE = 0x500"
definition QSPI_CS_HIGH_TIME_7_CYCLE :: u32 where [qspi_defs]: "QSPI_CS_HIGH_TIME_7_CYCLE = 0x600"
definition QSPI_CS_HIGH_TIME_8_CYCLE :: u32 where [qspi_defs]: "QSPI_CS_HIGH_TIME_8_CYCLE = 0x700"
definition QSPI_CLOCK_MODE_0 :: u32 where [qspi_defs]: "QSPI_CLOCK_MODE_0 = 0"
definition QSPI_CLOCK_MODE_3 :: u32 where [qspi_defs]: "QSPI_CLOCK_MODE_3 = 1"
definition QSPI_FLASH_ID_1 :: u32 where [qspi_defs]: "QSPI_FLASH_ID_1 = 0"
definition QSPI_FLASH_ID_2 :: u32 where [qspi_defs]: "QSPI_FLASH_ID_2 = 0x80"
definition QSPI_DUALFLASH_ENABLE :: u32 where [qspi_defs]: "QSPI_DUALFLASH_ENABLE = 0x40"
definition QSPI_DUALFLASH_DISABLE :: u32 where [qspi_defs]: "QSPI_DUALFLASH_DISABLE = 0"
definition QSPI_ADDRESSSIZE_NONE :: u32 where [qspi_defs]: "QSPI_ADDRESSSIZE_NONE = 0"
definition QSPI_ADDRESS_8_BITS :: u32 where [qspi_defs]: "QSPI_ADDRESS_8_BITS = 0"
definition QSPI_ADDRESS_16_BITS :: u32 where [qspi_defs]: "QSPI_ADDRESS_16_BITS = 0x1000"
definition QSPI_ADDRESS_24_BITS :: u32 where [qspi_defs]: "QSPI_ADDRESS_24_BITS = 0x2000"
definition QSPI_ADDRESS_32_BITS :: u32 where [qspi_defs]: "QSPI_ADDRESS_32_BITS = 0x3000"
definition QSPI_ALTERNATE_BYTES_SIZE_NONE :: u32 where [qspi_defs]: "QSPI_ALTERNATE_BYTES_SIZE_NONE = 0"
definition QSPI_ALTERNATE_BYTES_8_BITS :: u32 where [qspi_defs]: "QSPI_ALTERNATE_BYTES_8_BITS = 0"
definition QSPI_ALTERNATE_BYTES_16_BITS :: u32 where [qspi_defs]: "QSPI_ALTERNATE_BYTES_16_BITS = 0x10000"
definition QSPI_ALTERNATE_BYTES_24_BITS :: u32 where [qspi_defs]: "QSPI_ALTERNATE_BYTES_24_BITS = 0x20000"
definition QSPI_ALTERNATE_BYTES_32_BITS :: u32 where [qspi_defs]: "QSPI_ALTERNATE_BYTES_32_BITS = 0x30000"
definition QSPI_INSTRUCTION_NONE :: u32 where [qspi_defs]: "QSPI_INSTRUCTION_NONE = 0"
definition QSPI_INSTRUCTION_1_LINE :: u32 where [qspi_defs]: "QSPI_INSTRUCTION_1_LINE = 0x100"
definition QSPI_INSTRUCTION_2_LINES :: u32 where [qspi_defs]: "QSPI_INSTRUCTION_2_LINES = 0x200"
definition QSPI_INSTRUCTION_4_LINES :: u32 where [qspi_defs]: "QSPI_INSTRUCTION_4_LINES = 0x300"
definition QSPI_ADDRESS_NONE :: u32 where [qspi_defs]: "QSPI_ADDRESS_NONE = 0"
definition QSPI_ADDRESS_1_LINE :: u32 where [qspi_defs]: "QSPI_ADDRESS_1_LINE = 0x400"
definition QSPI_ADDRESS_2_LINES :: u32 where [qspi_defs]: "QSPI_ADDRESS_2_LINES = 0x800"
definition QSPI_ADDRESS_4_LINES :: u32 where [qspi_defs]: "QSPI_ADDRESS_4_LINES = 0xC00"
definition QSPI_ALTERNATE_BYTES_NONE :: u32 where [qspi_defs]: "QSPI_ALTERNATE_BYTES_NONE = 0"
definition QSPI_ALTERNATE_BYTES_1_LINE :: u32 where [qspi_defs]: "QSPI_ALTERNATE_BYTES_1_LINE = 0x4000"
definition QSPI_ALTERNATE_BYTES_2_LINES :: u32 where [qspi_defs]: "QSPI_ALTERNATE_BYTES_2_LINES = 0x8000"
definition QSPI_ALTERNATE_BYTES_4_LINES :: u32 where [qspi_defs]: "QSPI_ALTERNATE_BYTES_4_LINES = 0xC000"
definition QSPI_DATA_NONE :: u32 where [qspi_defs]: "QSPI_DATA_NONE = 0"
definition QSPI_DATA_1_LINE :: u32 where [qspi_defs]: "QSPI_DATA_1_LINE = 0x1000000"
definition QSPI_DATA_2_LINES :: u32 where [qspi_defs]: "QSPI_DATA_2_LINES = 0x2000000"
definition QSPI_DATA_4_LINES :: u32 where [qspi_defs]: "QSPI_DATA_4_LINES = 0x3000000"
definition QSPI_DDR_MODE_DISABLE :: u32 where [qspi_defs]: "QSPI_DDR_MODE_DISABLE = 0"
definition QSPI_DDR_MODE_ENABLE :: u32 where [qspi_defs]: "QSPI_DDR_MODE_ENABLE = 0x80000000"
definition QSPI_DDR_HHC_ANALOG_DELAY :: u32 where [qspi_defs]: "QSPI_DDR_HHC_ANALOG_DELAY = 0"
definition QSPI_DDR_HHC_HALF_CLK_DELAY :: u32 where [qspi_defs]: "QSPI_DDR_HHC_HALF_CLK_DELAY = 0x40000000"
definition QSPI_SIOO_INST_EVERY_CMD :: u32 where [qspi_defs]: "QSPI_SIOO_INST_EVERY_CMD = 0"
definition QSPI_SIOO_INST_ONLY_FIRST_CMD :: u32 where [qspi_defs]:
  "QSPI_SIOO_INST_ONLY_FIRST_CMD = 0x10000000"
definition QSPI_MATCH_MODE_AND :: u32 where [qspi_defs]: "QSPI_MATCH_MODE_AND = 0"
definition QSPI_MATCH_MODE_OR :: u32 where [qspi_defs]: "QSPI_MATCH_MODE_OR = 0x800000"
definition QSPI_AUTOMATIC_STOP_DISABLE :: u32 where [qspi_defs]: "QSPI_AUTOMATIC_STOP_DISABLE = 0"
definition QSPI_AUTOMATIC_STOP_ENABLE :: u32 where [qspi_defs]: "QSPI_AUTOMATIC_STOP_ENABLE = 0x400000"
definition QSPI_TIMEOUT_COUNTER_DISABLE :: u32 where [qspi_defs]: "QSPI_TIMEOUT_COUNTER_DISABLE = 0"
definition QSPI_TIMEOUT_COUNTER_ENABLE :: u32 where [qspi_defs]: "QSPI_TIMEOUT_COUNTER_ENABLE = 8"
definition QSPI_FLAG_BUSY :: u32 where [qspi_defs]: "QSPI_FLAG_BUSY = 0x20"
definition QSPI_FLAG_TO :: u32 where [qspi_defs]: "QSPI_FLAG_TO = 0x10"
definition QSPI_FLAG_SM :: u32 where [qspi_defs]: "QSPI_FLAG_SM = 8"
definition QSPI_FLAG_FT :: u32 where [qspi_defs]: "QSPI_FLAG_FT = 4"
definition QSPI_FLAG_TC :: u32 where [qspi_defs]: "QSPI_FLAG_TC = 2"
definition QSPI_FLAG_TE :: u32 where [qspi_defs]: "QSPI_FLAG_TE = 1"
definition QSPI_IT_TO :: u32 where [qspi_defs]: "QSPI_IT_TO = 0x100000"
definition QSPI_IT_SM :: u32 where [qspi_defs]: "QSPI_IT_SM = 0x80000"
definition QSPI_IT_FT :: u32 where [qspi_defs]: "QSPI_IT_FT = 0x40000"
definition QSPI_IT_TC :: u32 where [qspi_defs]: "QSPI_IT_TC = 0x20000"
definition QSPI_IT_TE :: u32 where [qspi_defs]: "QSPI_IT_TE = 0x10000"

subsection \<open>Registers\<close>

definition QUADSPI :: u32 where [qspi_defs]: "QUADSPI = 0x58003000"
definition QUADSPI_CR :: u32 where [qspi_defs]: "QUADSPI_CR = QUADSPI"
definition QUADSPI_DCR :: u32 where [qspi_defs]: "QUADSPI_DCR = QUADSPI + 0x04"
definition QUADSPI_SR :: u32 where [qspi_defs]: "QUADSPI_SR = QUADSPI + 0x08"
definition QUADSPI_FCR :: u32 where [qspi_defs]: "QUADSPI_FCR = QUADSPI + 0x0C"
definition QUADSPI_DLR :: u32 where [qspi_defs]: "QUADSPI_DLR = QUADSPI + 0x10"
definition QUADSPI_CCR :: u32 where [qspi_defs]: "QUADSPI_CCR = QUADSPI + 0x14"
definition QUADSPI_AR :: u32 where [qspi_defs]: "QUADSPI_AR = QUADSPI + 0x18"
definition QUADSPI_ABR :: u32 where [qspi_defs]: "QUADSPI_ABR = QUADSPI + 0x1C"
definition QUADSPI_DR :: u32 where [qspi_defs]: "QUADSPI_DR = QUADSPI + 0x20"
definition QUADSPI_PSMKR :: u32 where [qspi_defs]: "QUADSPI_PSMKR = QUADSPI + 0x24"
definition QUADSPI_PSMAR :: u32 where [qspi_defs]: "QUADSPI_PSMAR = QUADSPI + 0x28"
definition QUADSPI_PIR :: u32 where [qspi_defs]: "QUADSPI_PIR = QUADSPI + 0x2C"

definition QUADSPI_CCR_FMODE :: u32 where [qspi_defs]: "QUADSPI_CCR_FMODE = 0xC000000"
definition QUADSPI_CR_PMM :: u32 where [qspi_defs]: "QUADSPI_CR_PMM = 0x800000"
definition QUADSPI_CR_APMS :: u32 where [qspi_defs]: "QUADSPI_CR_APMS = 0x400000"
definition QUADSPI_SR_FTF :: u32 where [qspi_defs]: "QUADSPI_SR_FTF = 4"
definition QUADSPI_SR_TCF :: u32 where [qspi_defs]: "QUADSPI_SR_TCF = 2"
definition QUADSPI_FCR_CTCF :: u32 where [qspi_defs]: "QUADSPI_FCR_CTCF = 2"

subsection \<open>qspi\_ll.c\<close>

definition LL_QPSI_SetAltBytes :: "'d platform \<Rightarrow> u32 \<Rightarrow> 'd sys \<Rightarrow> 'd sys" where
  "LL_QPSI_SetAltBytes h AlternateBytes s = writel h AlternateBytes QUADSPI_ABR s"

definition LL_QPSI_SetDataLength :: "'d platform \<Rightarrow> u32 \<Rightarrow> 'd sys \<Rightarrow> 'd sys" where
  "LL_QPSI_SetDataLength h NbData s = writel h (NbData - 1) QUADSPI_DLR s"

definition LL_QSPI_SetAddress :: "'d platform \<Rightarrow> u32 \<Rightarrow> 'd sys \<Rightarrow> 'd sys" where
  "LL_QSPI_SetAddress h address s = writel h address QUADSPI_AR s"

definition LL_QSPI_WaitNotBusy :: "'d platform \<Rightarrow> 'd sys \<Rightarrow> 'd sys option" where
  "LL_QSPI_WaitNotBusy h s =
     loop (\<lambda>s. let (v, s) = readl h QUADSPI_SR s in Some (if v AND QSPI_FLAG_BUSY \<noteq> 0 then Inr s else Inl s)) s"

text \<open>\<open>while (--timeout && ((QUADSPI->SR & flag) == 0)) {}\<close>, then \<open>return timeout\<close>.\<close>

function wait_flag_loop :: "'d platform \<Rightarrow> u32 \<Rightarrow> u32 \<Rightarrow> 'd sys \<Rightarrow> u32 \<times> 'd sys" where
  "wait_flag_loop h flag timeout s =
     (let timeout = timeout - 1
      in if timeout = 0 then (0, s)
         else let (v, s) = readl h QUADSPI_SR s
              in if v AND flag = 0 then wait_flag_loop h flag timeout s else (timeout, s))"
  by pat_completeness auto
termination
  by (relation "measure (\<lambda>(h, flag, timeout, s). unat (timeout - 1))") (auto simp: unat_dec2)

declare wait_flag_loop.simps [simp del]

definition LL_QSPI_WaitFlagTimeout :: "'d platform \<Rightarrow> u32 \<Rightarrow> 'd sys \<Rightarrow> u32 \<times> 'd sys" where
  "LL_QSPI_WaitFlagTimeout h flag s = wait_flag_loop h flag 0x00FFFFFF s"

definition LL_QSPI_WaitFlag :: "'d platform \<Rightarrow> u32 \<Rightarrow> 'd sys \<Rightarrow> 'd sys option" where
  "LL_QSPI_WaitFlag h flag s =
     loop (\<lambda>s. let (v, s) = readl h QUADSPI_SR s in Some (if v AND flag = 0 then Inr s else Inl s)) s"

definition LL_QSPI_ClearFlag :: "'d platform \<Rightarrow> u32 \<Rightarrow> 'd sys \<Rightarrow> 'd sys" where
  "LL_QSPI_ClearFlag h flag s = writel h flag QUADSPI_FCR s"

definition LL_QSPI_SetCommConfig :: "'d platform \<Rightarrow> u32 \<Rightarrow> 'd sys \<Rightarrow> 'd sys" where
  "LL_QSPI_SetCommConfig h commconfig s = writel h commconfig QUADSPI_CCR s"

definition LL_QSPI_SendInstructionNoDataNoAddress :: "'d platform \<Rightarrow> u32 \<Rightarrow> 'd sys \<Rightarrow> (u32 \<times> 'd sys) option" where
  "LL_QSPI_SendInstructionNoDataNoAddress h instruction s =
     do { s \<leftarrow> LL_QSPI_WaitNotBusy h s;
          let s = LL_QSPI_SetCommConfig h
            (QSPI_DDR_MODE_DISABLE OR QSPI_DDR_HHC_ANALOG_DELAY OR QSPI_SIOO_INST_EVERY_CMD OR
             QSPI_INSTRUCTION_1_LINE OR QSPI_DATA_NONE OR push_bit 18 0 OR QSPI_ALTERNATE_BYTES_SIZE_NONE OR
             QSPI_ALTERNATE_BYTES_NONE OR QSPI_ADDRESSSIZE_NONE OR QSPI_ADDRESS_NONE OR instruction OR
             QSPI_FUNCTIONAL_MODE_INDIRECT_WRITE) s;
          let (t, s) = LL_QSPI_WaitFlagTimeout h QSPI_FLAG_TC s;
          Some (if t = 0 then (0, s) else (1, LL_QSPI_ClearFlag h QSPI_FLAG_TC s)) }"

text \<open>\<open>*(__IO uint8_t *)data_reg = *pData++\<close> and its reverse are \<open>copy_byte\<close> with one pointer fixed.\<close>

function transmit_loop :: "'d platform \<Rightarrow> u32 \<Rightarrow> u32 \<Rightarrow> u32 \<Rightarrow> 'd sys \<Rightarrow> u32 \<times> 'd sys" where
  "transmit_loop h cnt pData ok s =
     (if cnt = 0 then (ok, s)
      else let (ok, s) = LL_QSPI_WaitFlagTimeout h QSPI_FLAG_FT s
           in if ok = 0 then (ok, s)
              else transmit_loop h (cnt - 1) (pData + 1) ok (copy_byte h QUADSPI_DR pData s))"
  by pat_completeness auto
termination
  by (relation "measure (\<lambda>(h, cnt, pData, ok, s). unat cnt)") (auto simp: unat_dec)

declare transmit_loop.simps [simp del]

definition LL_QSPI_Transmit :: "'d platform \<Rightarrow> u32 \<Rightarrow> 'd sys \<Rightarrow> u32 \<times> 'd sys" where
  "LL_QSPI_Transmit h pData s =
     (let (dlr, s) = readl h QUADSPI_DLR s;
          cnt = dlr + 1;
          s = clrsetbits_le32 h QUADSPI_CCR QUADSPI_CCR_FMODE QSPI_FUNCTIONAL_MODE_INDIRECT_WRITE s;
          (ok, s) = transmit_loop h cnt pData 1 s
      in if ok \<noteq> 0
         then let (ok, s) = LL_QSPI_WaitFlagTimeout h QSPI_FLAG_TC s in (ok, LL_QSPI_ClearFlag h QSPI_FLAG_TC s)
         else (ok, s))"

function receive_loop :: "'d platform \<Rightarrow> u32 \<Rightarrow> u32 \<Rightarrow> u32 \<Rightarrow> 'd sys \<Rightarrow> u32 \<times> 'd sys" where
  "receive_loop h cnt pData ok s =
     (if cnt = 0 then (ok, s)
      else let (ok, s) = LL_QSPI_WaitFlagTimeout h (QUADSPI_SR_FTF OR QUADSPI_SR_TCF) s
           in if ok = 0 then (ok, s)
              else receive_loop h (cnt - 1) (pData + 1) ok (copy_byte h pData QUADSPI_DR s))"
  by pat_completeness auto
termination
  by (relation "measure (\<lambda>(h, cnt, pData, ok, s). unat cnt)") (auto simp: unat_dec)

declare receive_loop.simps [simp del]

definition LL_QSPI_Receive :: "'d platform \<Rightarrow> u32 \<Rightarrow> 'd sys \<Rightarrow> u32 \<times> 'd sys" where
  "LL_QSPI_Receive h pData s =
     (let (addr_reg, s) = readl h QUADSPI_AR s;
          (dlr, s) = readl h QUADSPI_DLR s;
          cnt = dlr + 1;
          s = clrsetbits_le32 h QUADSPI_CCR QUADSPI_CCR_FMODE QSPI_FUNCTIONAL_MODE_INDIRECT_READ s;
          s = writel h addr_reg QUADSPI_AR s;
          (ok, s) = receive_loop h cnt pData 1 s
      in if ok \<noteq> 0
         then let (ok, s) = LL_QSPI_WaitFlagTimeout h QUADSPI_SR_TCF s in (ok, LL_QSPI_ClearFlag h QUADSPI_FCR_CTCF s)
         else (ok, s))"

definition LL_QSPI_StartAutoPoll :: "'d platform \<Rightarrow> u32 \<Rightarrow> u32 \<Rightarrow> u32 \<Rightarrow> u32 \<Rightarrow> 'd sys \<Rightarrow> 'd sys option" where
  "LL_QSPI_StartAutoPoll h mtch msk interval match_mode s =
     do { s \<leftarrow> LL_QSPI_WaitNotBusy h s;
          let s = writel h mtch QUADSPI_PSMAR s;
          let s = writel h msk QUADSPI_PSMKR s;
          let s = writel h interval QUADSPI_PIR s;
          let s = clrsetbits_le32 h QUADSPI_CR (QUADSPI_CR_PMM OR QUADSPI_CR_APMS) (match_mode OR QSPI_AUTOMATIC_STOP_ENABLE) s;
          let s = LL_QPSI_SetDataLength h 1 s;
          Some (writel h
            (QSPI_DDR_MODE_DISABLE OR QSPI_DDR_HHC_ANALOG_DELAY OR QSPI_SIOO_INST_EVERY_CMD OR QSPI_INSTRUCTION_1_LINE OR
             QSPI_DATA_1_LINE OR push_bit 18 0 OR QSPI_ALTERNATE_BYTES_SIZE_NONE OR QSPI_ALTERNATE_BYTES_NONE OR
             QSPI_ADDRESSSIZE_NONE OR QSPI_ADDRESS_NONE OR READ_STATUS_REG_CMD OR QSPI_FUNCTIONAL_MODE_AUTO_POLLING)
            QUADSPI_CCR s) }"

definition LL_QSPI_WriteEnable :: "'d platform \<Rightarrow> 'd sys \<Rightarrow> (u32 \<times> 'd sys) option" where
  "LL_QSPI_WriteEnable h s =
     do { s \<leftarrow> LL_QSPI_WaitNotBusy h s;
          let s = writel h
            (QSPI_DDR_MODE_DISABLE OR QSPI_DDR_HHC_ANALOG_DELAY OR QSPI_SIOO_INST_EVERY_CMD OR QSPI_INSTRUCTION_1_LINE OR
             QSPI_DATA_NONE OR push_bit 18 0 OR QSPI_ALTERNATE_BYTES_SIZE_NONE OR QSPI_ALTERNATE_BYTES_NONE OR
             QSPI_ADDRESSSIZE_NONE OR QSPI_ADDRESS_NONE OR WRITE_ENABLE_CMD OR QSPI_FUNCTIONAL_MODE_INDIRECT_WRITE)
            QUADSPI_CCR s;
          let (ok, s) = LL_QSPI_WaitFlagTimeout h QSPI_FLAG_TC s;
          let s = LL_QSPI_ClearFlag h QSPI_FLAG_TC s;
          if ok \<noteq> 0
          then do { s \<leftarrow> LL_QSPI_StartAutoPoll h QSPI_SR_WREN QSPI_SR_WREN 0x10 QSPI_MATCH_MODE_AND s;
                    let (ok, s) = LL_QSPI_WaitFlagTimeout h QSPI_FLAG_SM s;
                    Some (ok, LL_QSPI_ClearFlag h QSPI_FLAG_SM s) }
          else Some (ok, s) }"

subsection \<open>qspi\_norflash\_read.c\<close>

definition RCC_QSPICKSELR :: u32 where [qspi_defs]: "RCC_QSPICKSELR = 0x50000900"
definition RCC_AHB2RSTSETR :: u32 where [qspi_defs]: "RCC_AHB2RSTSETR = 0x50000998"
definition RCC_AHB2RSTCLRR :: u32 where [qspi_defs]: "RCC_AHB2RSTCLRR = 0x5000099C"
definition RCC_AHB6RSTSETR_QSPIRST :: u32 where [qspi_defs]: "RCC_AHB6RSTSETR_QSPIRST = 0x4000"
definition RCC_AHB6RSTCLRR_QSPIRST :: u32 where [qspi_defs]: "RCC_AHB6RSTCLRR_QSPIRST = 0x4000"

definition QSPI_DUMMY_CYCLES_READ :: u32 where [qspi_defs]: "QSPI_DUMMY_CYCLES_READ = 0"

definition QSPI_init :: "'d platform \<Rightarrow> 'd sys \<Rightarrow> 'd sys" where
  "QSPI_init h s =
     (let s = writel h 0 RCC_QSPICKSELR s;
          s = writel h 0 QUADSPI_CR s;
          s = writel h RCC_AHB6RSTSETR_QSPIRST RCC_AHB2RSTSETR s;
          s = writel h RCC_AHB6RSTCLRR_QSPIRST RCC_AHB2RSTCLRR s;
          s = writel h (push_bit 24 3 OR push_bit 8 2 OR 0x10 OR 1) QUADSPI_CR s;
          s = writel h (push_bit 16 23 OR push_bit 8 2) QUADSPI_DCR s;
          dummy_cycles = 6;
          s = LL_QSPI_SetCommConfig h
            (QSPI_SIOO_INST_EVERY_CMD OR QSPI_INSTRUCTION_1_LINE OR QSPI_DATA_4_LINES OR push_bit 18 dummy_cycles OR
             QSPI_ALTERNATE_BYTES_NONE OR QSPI_ALTERNATE_BYTES_4_LINES OR QSPI_ADDRESS_24_BITS OR QSPI_ADDRESS_1_LINE OR
             QUAD_OUT_FAST_READ_CMD OR QSPI_FUNCTIONAL_MODE_MEMORY_MAPPED) s
      in LL_QPSI_SetAltBytes h 0 s)"

text \<open>\<open>while (num_bytes--) *pData++ = *src++;\<close> is the byte loop \<open>copy_bytes\<close>.\<close>

definition QSPI_read_MM :: "'d platform \<Rightarrow> u32 \<Rightarrow> u32 \<Rightarrow> u32 \<Rightarrow> 'd sys \<Rightarrow> u32 \<times> 'd sys" where
  "QSPI_read_MM h pData read_addr num_bytes s = (1, copy_bytes h pData (0x70000000 + read_addr) (unat num_bytes) s)"

text \<open>The same loop into a local object, of which the bytes read are the new contents.\<close>

fun read_bytes :: "'d platform \<Rightarrow> u32 \<Rightarrow> nat \<Rightarrow> 'd sys \<Rightarrow> u8 list \<times> 'd sys" where
  "read_bytes h src 0 s = ([], s)"
| "read_bytes h src (Suc n) s =
     (let (v, d) = rd8 h src (dev s); (vs, s) = read_bytes h (src + 1) n (s\<lparr>dev := d\<rparr>) in (v # vs, s))"

definition QSPI_read_MM_object :: "'d platform \<Rightarrow> u32 \<Rightarrow> u32 \<Rightarrow> 'd sys \<Rightarrow> u32 \<times> u8 list \<times> 'd sys" where
  "QSPI_read_MM_object h read_addr num_bytes s =
     (let (buf, s) = read_bytes h (0x70000000 + read_addr) (unat num_bytes) s in (1, buf, s))"

definition QSPI_read_SIO :: "'d platform \<Rightarrow> u32 \<Rightarrow> u32 \<Rightarrow> u32 \<Rightarrow> 'd sys \<Rightarrow> (u32 \<times> 'd sys) option" where
  "QSPI_read_SIO h pData read_addr num_bytes s =
     do { s \<leftarrow> LL_QSPI_WaitNotBusy h s;
          let s = LL_QPSI_SetDataLength h num_bytes s;
          let s = LL_QSPI_SetCommConfig h
            (QSPI_DDR_MODE_DISABLE OR QSPI_DDR_HHC_ANALOG_DELAY OR QSPI_SIOO_INST_EVERY_CMD OR QSPI_INSTRUCTION_1_LINE OR
             QSPI_DATA_1_LINE OR push_bit 18 QSPI_DUMMY_CYCLES_READ OR QSPI_ALTERNATE_BYTES_8_BITS OR
             QSPI_ALTERNATE_BYTES_1_LINE OR QSPI_ADDRESS_24_BITS OR QSPI_ADDRESS_1_LINE OR FAST_READ_CMD OR
             QSPI_FUNCTIONAL_MODE_INDIRECT_READ) s;
          let s = LL_QPSI_SetAltBytes h 0 s;
          let s = LL_QSPI_SetAddress h read_addr s;
          Some (LL_QSPI_Receive h pData s) }"

end
