(* ===== verification/BootMedia.thy ===== *)
theory BootMedia
  imports Gpt Pins Qspi
begin

text \<open>
  The boot media (bootloaders/mp1-boot/boot\_image\_def.hh, boot\_loader.hh, boot\_sd.hh, boot\_nor.hh,
  boot\_detect.hh, boot\_media\_loader.hh). The vendor's SD driver is the record \<open>sd_hal\<close>: a read
  returns its status and what its destination holds afterwards, about which nothing is assumed
  when the status is an error. A read into a local object yields the object; a read into memory
  stores the bytes with \<open>wr8\<close>, after the transfer. \<open>None\<close> is an access outside an object or a division
  by zero. Log messages are not modelled.

  The virtual class \<open>BootLoader\<close> is the type \<open>loader\<close> with the dispatching functions
  \<open>loader_read_header\<close> and \<open>loader_load_image\<close>; its contract is the locale \<open>boot_loader\<close> of
  theory BootLoad.
\<close>

subsection \<open>boot\_image\_def.hh\<close>

definition NorFlashSSBLAddr :: u32 where "NorFlashSSBLAddr = 0x80000"
definition SDCardSSBLPartition :: u32 where "SDCardSSBLPartition = 3"
definition IH_MAGIC :: u32 where "IH_MAGIC = 0x27051956"
definition IH_NMLEN :: nat where "IH_NMLEN = 32"

record image_header =
  ih_magic :: u32
  ih_hcrc :: u32
  ih_time :: u32
  ih_size :: u32
  ih_load :: u32
  ih_ep :: u32
  ih_dcrc :: u32
  ih_os :: u8
  ih_arch :: u8
  ih_type :: u8
  ih_comp :: u8
  ih_name :: "u8 list"

definition HeaderSize :: u32 where "HeaderSize = 64"

definition image_header_bytes :: "image_header \<Rightarrow> u8 list" where
  "image_header_bytes x =
     le_bytes 4 (ih_magic x) @ le_bytes 4 (ih_hcrc x) @ le_bytes 4 (ih_time x) @ le_bytes 4 (ih_size x) @
     le_bytes 4 (ih_load x) @ le_bytes 4 (ih_ep x) @ le_bytes 4 (ih_dcrc x) @ le_bytes 1 (ih_os x) @
     le_bytes 1 (ih_arch x) @ le_bytes 1 (ih_type x) @ le_bytes 1 (ih_comp x) @ ih_name x"

definition image_header_of :: "u8 list \<Rightarrow> image_header" where
  "image_header_of b =
     \<lparr>ih_magic = le_val (part 0 4 b), ih_hcrc = le_val (part 4 4 b), ih_time = le_val (part 8 4 b),
      ih_size = le_val (part 12 4 b), ih_load = le_val (part 16 4 b), ih_ep = le_val (part 20 4 b),
      ih_dcrc = le_val (part 24 4 b), ih_os = le_val (part 28 1 b), ih_arch = le_val (part 29 1 b),
      ih_type = le_val (part 30 1 b), ih_comp = le_val (part 31 1 b), ih_name = part 32 32 b\<rparr>"

definition image_header_wf :: "image_header \<Rightarrow> bool" where
  "image_header_wf x \<longleftrightarrow> length (ih_name x) = IH_NMLEN"

text \<open>The value of \<open>return {}\<close> and of \<open>header{}\<close>.\<close>

definition empty_header :: image_header where
  "empty_header = image_header_of (replicate 64 0)"

interpretation image: layout 64 image_header_bytes image_header_of image_header_wf
proof
  fix g assume "image_header_wf g"
  then have l: "length (ih_name g) = 32" by (simp add: image_header_wf_def IH_NMLEN_def)
  then show "length (image_header_bytes g) = 64" by (simp add: image_header_bytes_def)
  show "image_header_of (image_header_bytes g) = g"
    unfolding image_header_of_def image_header_bytes_def
    by (simp add: part_append part_all l del: One_nat_def)
next
  fix b :: "u8 list" assume l: "length b = 64"
  show "image_header_bytes (image_header_of b) = b"
    unfolding image_header_of_def image_header_bytes_def
    by (simp add: l le_bytes_part del: One_nat_def) (simp add: l part_last part_join)
  show "image_header_wf (image_header_of b)" by (simp add: image_header_wf_def image_header_of_def l IH_NMLEN_def)
qed

text \<open>compiler.h: \<open>be32_to_cpu\<close> on a little-endian CPU.\<close>

definition uswap_32 :: "u32 \<Rightarrow> u32" where
  "uswap_32 x =
     drop_bit 24 (x AND 0xff000000) OR drop_bit 8 (x AND 0x00ff0000) OR
     push_bit 8 (x AND 0x0000ff00) OR push_bit 24 (x AND 0x000000ff)"

definition be32_to_cpu :: "u32 \<Rightarrow> u32" where
  "be32_to_cpu x = uswap_32 x"

subsection \<open>boot\_detect.hh\<close>

definition BOOTROM_PARAM_ADDR :: u32 where [reg_defs]: "BOOTROM_PARAM_ADDR = 0x2FFC0078"
definition BOOTROM_MODE_MASK :: u32 where "BOOTROM_MODE_MASK = 0x0000FFFF"
definition BOOTROM_MODE_SHIFT :: nat where "BOOTROM_MODE_SHIFT = 0"
definition BOOTROM_INSTANCE_MASK :: u32 where "BOOTROM_INSTANCE_MASK = 0xFFFF0000"
definition BOOTROM_INSTANCE_SHIFT :: nat where "BOOTROM_INSTANCE_SHIFT = 16"
definition BOOT_TYPE_MASK :: u32 where "BOOT_TYPE_MASK = 0xF0"
definition BOOT_TYPE_SHIFT :: nat where "BOOT_TYPE_SHIFT = 4"
definition BOOT_INSTANCE_MASK :: u32 where "BOOT_INSTANCE_MASK = 0x0F"
definition BOOT_INSTANCE_SHIFT :: nat where "BOOT_INSTANCE_SHIFT = 0"

datatype BootMethod =
  BOOT_UNKNOWN | BOOT_SDCARD | BOOT_EMMC | BOOT_NAND | BOOT_NOR | BOOT_UART | BOOT_USB | BOOT_SPINAND

text \<open>The cast of a number below \<open>NUM_BOOT_METHODS\<close>.\<close>

definition BootMethod_of :: "u32 \<Rightarrow> BootMethod" where
  "BootMethod_of n =
     [BOOT_UNKNOWN, BOOT_SDCARD, BOOT_EMMC, BOOT_NAND, BOOT_NOR, BOOT_UART, BOOT_USB, BOOT_SPINAND] ! unat n"

definition NUM_BOOT_METHODS :: u32 where "NUM_BOOT_METHODS = 8"

definition BootDeviceInstance :: "(string \<times> u32) list" where
  "BootDeviceInstance =
     [(''BOOT_DEVICE_UNKNOWN'', 0x0F), (''BOOT_FLASH_SD'', 0x10), (''BOOT_FLASH_SD_1'', 0x11),
      (''BOOT_FLASH_SD_2'', 0x12), (''BOOT_FLASH_SD_3'', 0x13), (''BOOT_FLASH_EMMC'', 0x20),
      (''BOOT_FLASH_EMMC_1'', 0x21), (''BOOT_FLASH_EMMC_2'', 0x22), (''BOOT_FLASH_EMMC_3'', 0x23),
      (''BOOT_FLASH_NAND'', 0x30), (''BOOT_FLASH_NAND_FMC'', 0x31), (''BOOT_FLASH_NOR'', 0x40),
      (''BOOT_FLASH_NOR_QSPI'', 0x41), (''BOOT_SERIAL_UART'', 0x50), (''BOOT_SERIAL_UART_1'', 0x51),
      (''BOOT_SERIAL_UART_2'', 0x52), (''BOOT_SERIAL_UART_3'', 0x53), (''BOOT_SERIAL_UART_4'', 0x54),
      (''BOOT_SERIAL_UART_5'', 0x55), (''BOOT_SERIAL_UART_6'', 0x56), (''BOOT_SERIAL_UART_7'', 0x57),
      (''BOOT_SERIAL_UART_8'', 0x58), (''BOOT_SERIAL_USB'', 0x60), (''BOOT_SERIAL_USB_OTG'', 0x62),
      (''BOOT_FLASH_SPINAND'', 0x70), (''BOOT_FLASH_SPINAND_1'', 0x71), (''NUM_BOOT_DEVICE_INSTANCES'', 0x72)]"

definition read_raw_bootrom_itf :: "'d platform \<Rightarrow> 'd sys \<Rightarrow> u32 \<times> 'd sys" where
  "read_raw_bootrom_itf h s = readl h BOOTROM_PARAM_ADDR s"

definition read_boot_method :: "'d platform \<Rightarrow> 'd sys \<Rightarrow> BootMethod \<times> 'd sys" where
  "read_boot_method h s =
     (let (bootrom_itf, s) = read_raw_bootrom_itf h s;
          bootrom_device = drop_bit BOOTROM_MODE_SHIFT (bootrom_itf AND BOOTROM_MODE_MASK);
          boot_method = bootrom_device AND 0x0F
      in (if boot_method < NUM_BOOT_METHODS then BootMethod_of boot_method else BOOT_UNKNOWN, s))"

text \<open>The value of the enumeration; casts keep values that have no name.\<close>

definition read_boot_device :: "'d platform \<Rightarrow> 'd sys \<Rightarrow> u32 \<times> 'd sys" where
  "read_boot_device h s =
     (let (bootrom_itf, s) = read_raw_bootrom_itf h s;
          bootrom_device = drop_bit BOOTROM_MODE_SHIFT (bootrom_itf AND BOOTROM_MODE_MASK);
          bootrom_instance = drop_bit BOOTROM_INSTANCE_SHIFT (bootrom_itf AND BOOTROM_INSTANCE_MASK);
          boot_device = (push_bit BOOT_TYPE_SHIFT bootrom_device AND BOOT_TYPE_MASK) OR
            (push_bit BOOT_INSTANCE_SHIFT bootrom_instance AND BOOT_INSTANCE_MASK)
      in (if boot_device < 0x72 \<and> boot_device > 0x0F then boot_device else 0x0F, s))"

fun bootmethod_string :: "BootMethod \<Rightarrow> string" where
  "bootmethod_string BOOT_SDCARD = ''SD Card''"
| "bootmethod_string BOOT_EMMC = ''EMMC''"
| "bootmethod_string BOOT_NAND = ''NAND''"
| "bootmethod_string BOOT_NOR = ''NOR''"
| "bootmethod_string BOOT_UART = ''UART''"
| "bootmethod_string BOOT_USB = ''USB''"
| "bootmethod_string BOOT_SPINAND = ''SPI NAND''"
| "bootmethod_string BOOT_UNKNOWN = ''Unknown''"

subsection \<open>boot\_sd.hh\<close>

datatype HAL_StatusTypeDef = HAL_OK | HAL_ERROR | HAL_BUSY | HAL_TIMEOUT

record SD_InitTypeDef =
  ClockEdge :: u32
  ClockPowerSave :: u32
  BusWide :: u32
  HardwareFlowControl :: u32
  ClockDiv :: u32

text \<open>The functions of stm32mp1xx\_hal\_sd.h that are called: \<open>HAL_SD_Init\<close> returns the status and the
  \<open>BlockNbr\<close> and \<open>BlockSize\<close> of \<open>SdCard\<close>; \<open>HAL_SD_ReadBlocks\<close> takes the block, the number of
  blocks and the time-out.\<close>

record 'd sd_hal =
  HAL_SD_DeInit :: "'d \<Rightarrow> 'd"
  HAL_SD_Init :: "SD_InitTypeDef \<Rightarrow> 'd \<Rightarrow> HAL_StatusTypeDef \<times> u32 \<times> u32 \<times> 'd"
  HAL_SD_ReadBlocks :: "u32 \<Rightarrow> u32 \<Rightarrow> u32 \<Rightarrow> 'd \<Rightarrow> HAL_StatusTypeDef \<times> u8 list \<times> 'd"

record BootSDLoader =
  BlockNbr :: u32
  BlockSize :: u32
  ssbl_blockaddr :: u64
  has_error :: bool

definition ssbl_part_num :: u32 where "ssbl_part_num = SDCardSSBLPartition - 1"
definition InvalidPartitionNum :: u32 where "InvalidPartitionNum = 0xFFFFFFFF"
definition RCC_SDMMC12CKSELR :: u32 where [reg_defs]: "RCC_SDMMC12CKSELR = 0x8F4"

definition sd_init_config :: SD_InitTypeDef where
  "sd_init_config = \<lparr>ClockEdge = 0, ClockPowerSave = 0, BusWide = 0x4000, HardwareFlowControl = 0, ClockDiv = 2\<rparr>"

definition sd_pins :: "PinConf list" where
  "sd_pins =
     [\<lparr>gpio = GPIO_C, pin = PinNum 9, af = 12\<rparr>, \<lparr>gpio = GPIO_C, pin = PinNum 10, af = 12\<rparr>,
      \<lparr>gpio = GPIO_C, pin = PinNum 11, af = 12\<rparr>, \<lparr>gpio = GPIO_C, pin = PinNum 8, af = 12\<rparr>,
      \<lparr>gpio = GPIO_C, pin = PinNum 12, af = 12\<rparr>, \<lparr>gpio = GPIO_D, pin = PinNum 2, af = 12\<rparr>]"

definition BootSDLoader_new :: "'d platform \<Rightarrow> 'd sd_hal \<Rightarrow> 'd sys \<Rightarrow> BootSDLoader \<times> 'd sys" where
  "BootSDLoader_new h sd s =
     (let s = writel h 3 (RCC_BASE + RCC_SDMMC12CKSELR) s;
          s = s\<lparr>dev := HAL_SD_DeInit sd (dev s)\<rparr>;
          s = fold (\<lambda>c. PinConf_init_default h c Alt) sd_pins s;
          (ok, nbr, bsize, d) = HAL_SD_Init sd sd_init_config (dev s)
      in (\<lparr>BlockNbr = nbr, BlockSize = bsize, ssbl_blockaddr = 0, has_error = (ok \<noteq> HAL_OK)\<rparr>, s\<lparr>dev := d\<rparr>))"

text \<open>The template \<open>read(data, block)\<close>, for an object of \<open>n\<close> bytes, up to 512.\<close>

definition sd_read ::
  "'d sd_hal \<Rightarrow> nat \<Rightarrow> (u8 list \<Rightarrow> 'r) \<Rightarrow> u32 \<Rightarrow> BootSDLoader \<Rightarrow> 'd sys \<Rightarrow> 'r \<times> BootSDLoader \<times> 'd sys" where
  "sd_read sd n of_bytes block l s =
     (let (err, buf, d) = HAL_SD_ReadBlocks sd block 1 0xFFFFFF (dev s)
      in (of_bytes (take n buf), if err \<noteq> HAL_OK then l\<lparr>has_error := True\<rparr> else l, s\<lparr>dev := d\<rparr>))"

definition gpt_entries_of :: "u8 list \<Rightarrow> gpt_entry list" where
  "gpt_entries_of b = map (\<lambda>i. gpt_entry_of (part (128 * i) 128 b)) [0..<4]"

definition get_gpt_partition_startaddr ::
  "'d sd_hal \<Rightarrow> gpt_header \<Rightarrow> BootSDLoader \<Rightarrow> 'd sys \<Rightarrow> u64 \<times> BootSDLoader \<times> 'd sys" where
  "get_gpt_partition_startaddr sd gpt_hdr l s =
     (let l = (if BlockSize l \<noteq> 512 then l\<lparr>has_error := True\<rparr> else l);
          part_lba = ucast (partition_entry_lba gpt_hdr + ucast (ssbl_part_num div 4)) :: u32;
          (ptes, l, s) = sd_read sd 512 gpt_entries_of part_lba l s;
          pte = ptes ! unat (ssbl_part_num mod 4)
      in (if validate_partition_entry pte then starting_lba pte else ucast InvalidPartitionNum, l, s))"

fun find_ssbl :: "'d sd_hal \<Rightarrow> u32 \<Rightarrow> u32 list \<Rightarrow> BootSDLoader \<Rightarrow> 'd sys \<Rightarrow> (BootSDLoader \<times> 'd sys) option" where
  "find_ssbl sd last_block [] l s = Some (l, s)"
| "find_ssbl sd last_block (blockaddr # gpt_addrs) l s =
     (let (gpt_hdr, l, s) = sd_read sd 92 gpt_header_of blockaddr l s
      in do { valid \<leftarrow> validate_gpt_header gpt_hdr blockaddr last_block;
              if valid
              then let (addr, l, s) = get_gpt_partition_startaddr sd gpt_hdr l s;
                       l = l\<lparr>ssbl_blockaddr := addr\<rparr>
                   in if ssbl_blockaddr l \<noteq> ucast InvalidPartitionNum then Some (l, s)
                      else find_ssbl sd last_block gpt_addrs l s
              else find_ssbl sd last_block gpt_addrs l s })"

definition sd_read_image_header ::
  "'d sd_hal \<Rightarrow> BootSDLoader \<Rightarrow> 'd sys \<Rightarrow> (image_header \<times> BootSDLoader \<times> 'd sys) option" where
  "sd_read_image_header sd l s =
     (let last_block = BlockNbr l
      in do { (l, s) \<leftarrow> find_ssbl sd last_block [1, last_block - 1] l s;
              Some (if ssbl_blockaddr l = ucast InvalidPartitionNum then (empty_header, l, s)
                    else sd_read sd 64 image_header_of (ucast (ssbl_blockaddr l)) l s) })"

fun store_bytes :: "'d platform \<Rightarrow> u32 \<Rightarrow> u8 list \<Rightarrow> 'd sys \<Rightarrow> 'd sys" where
  "store_bytes h a [] s = s"
| "store_bytes h a (b # bs) s = store_bytes h (a + 1) bs (s\<lparr>dev := wr8 h b a (dev s)\<rparr>)"

definition sd_load_image ::
  "'d platform \<Rightarrow> 'd sd_hal \<Rightarrow> u32 \<Rightarrow> u32 \<Rightarrow> BootSDLoader \<Rightarrow> 'd sys \<Rightarrow> (bool \<times> 'd sys) option" where
  "sd_load_image h sd dst sz l s =
     (if BlockSize l = 0 then None
      else let num_blocks = (sz + BlockSize l - 1) div BlockSize l;
               (err, buf, d) = HAL_SD_ReadBlocks sd (ucast (ssbl_blockaddr l)) num_blocks 0xFFFFFF (dev s)
           in Some (err = HAL_OK, store_bytes h dst buf (s\<lparr>dev := d\<rparr>)))"

subsection \<open>boot\_nor.hh\<close>

definition BootNorLoader_new :: "'d platform \<Rightarrow> 'd sys \<Rightarrow> 'd sys" where
  "BootNorLoader_new h s =
     (let s = PinConf_init_default h \<lparr>gpio = GPIO_F, pin = PinNum 7, af = 9\<rparr> Alt s;
          s = PinConf_init_default h \<lparr>gpio = GPIO_A, pin = PinNum 1, af = 9\<rparr> Alt s
      in QSPI_init h s)"

definition nor_read_image_header :: "'d platform \<Rightarrow> 'd sys \<Rightarrow> image_header \<times> 'd sys" where
  "nor_read_image_header h s =
     (let (ok, buf, s) = QSPI_read_MM_object h NorFlashSSBLAddr HeaderSize s
      in (if ok = 0 then empty_header else image_header_of buf, s))"

definition nor_load_image :: "'d platform \<Rightarrow> u32 \<Rightarrow> u32 \<Rightarrow> 'd sys \<Rightarrow> bool \<times> 'd sys" where
  "nor_load_image h dst sz s =
     (let (ok, s) = QSPI_read_MM h dst NorFlashSSBLAddr sz s in (ok \<noteq> 0, s))"

subsection \<open>boot\_loader.hh\<close>

datatype loader = NorLoader | SDLoader BootSDLoader

definition loader_read_header ::
  "'d platform \<Rightarrow> 'd sd_hal \<Rightarrow> loader \<Rightarrow> 'd sys \<Rightarrow> (image_header \<times> loader \<times> 'd sys) option" where
  "loader_read_header h sd l s =
     (case l of
        NorLoader \<Rightarrow> (let (hd, s) = nor_read_image_header h s in Some (hd, NorLoader, s))
      | SDLoader x \<Rightarrow> do { (hd, x, s) \<leftarrow> sd_read_image_header sd x s; Some (hd, SDLoader x, s) })"

definition loader_load_image ::
  "'d platform \<Rightarrow> 'd sd_hal \<Rightarrow> u32 \<Rightarrow> u32 \<Rightarrow> loader \<Rightarrow> 'd sys \<Rightarrow> (bool \<times> 'd sys) option" where
  "loader_load_image h sd dst sz l s =
     (case l of
        NorLoader \<Rightarrow> Some (nor_load_image h dst sz s)
      | SDLoader x \<Rightarrow> sd_load_image h sd dst sz x s)"

subsection \<open>boot\_media\_loader.hh\<close>

record AppImageInfo =
  load_addr :: u32
  entry_point :: u32
  image_size :: u32

record BootMediaLoader =
  image_loaded :: bool
  image_info :: AppImageInfo
  loader_of :: "loader option"

definition get_boot_loader :: "'d platform \<Rightarrow> 'd sd_hal \<Rightarrow> BootMethod \<Rightarrow> 'd sys \<Rightarrow> loader option \<times> 'd sys" where
  "get_boot_loader h sd m s =
     (if m = BOOT_NOR then (Some NorLoader, BootNorLoader_new h s)
      else if m = BOOT_SDCARD then let (x, s) = BootSDLoader_new h sd s in (Some (SDLoader x), s)
      else (None, s))"

definition set_bootmethod ::
  "'d platform \<Rightarrow> 'd sd_hal \<Rightarrow> BootMethod \<Rightarrow> BootMediaLoader \<Rightarrow> 'd sys \<Rightarrow> bool \<times> BootMediaLoader \<times> 'd sys" where
  "set_bootmethod h sd m b s =
     (let (l, s) = get_boot_loader h sd m s in (l \<noteq> None, b\<lparr>loader_of := l\<rparr>, s))"

definition BootMediaLoader_new :: "'d platform \<Rightarrow> 'd sd_hal \<Rightarrow> BootMethod \<Rightarrow> 'd sys \<Rightarrow> BootMediaLoader \<times> 'd sys" where
  "BootMediaLoader_new h sd m s =
     snd (set_bootmethod h sd m
       \<lparr>image_loaded = False, image_info = \<lparr>load_addr = 0, entry_point = 0, image_size = 0\<rparr>, loader_of = None\<rparr> s)"

definition parse_header :: "image_header \<Rightarrow> AppImageInfo option" where
  "parse_header header =
     (let magic = be32_to_cpu (ih_magic header)
      in if magic = IH_MAGIC
         then if ih_load header = 0
              then Some \<lparr>load_addr = be32_to_cpu (ih_load header), entry_point = be32_to_cpu (ih_ep header),
                         image_size = be32_to_cpu (ih_size header)\<rparr>
              else let entry = be32_to_cpu (ih_load header)
                   in Some \<lparr>load_addr = entry - HeaderSize, entry_point = entry,
                            image_size = be32_to_cpu (ih_size header) + HeaderSize\<rparr>
         else None)"

text \<open>\<open>load_image\<close> over the two virtual functions of the loader.\<close>

definition load_image_with ::
  "(loader \<Rightarrow> 'd sys \<Rightarrow> (image_header \<times> loader \<times> 'd sys) option) \<Rightarrow>
   (u32 \<Rightarrow> u32 \<Rightarrow> loader \<Rightarrow> 'd sys \<Rightarrow> (bool \<times> 'd sys) option) \<Rightarrow>
   BootMediaLoader \<Rightarrow> 'd sys \<Rightarrow> (bool \<times> BootMediaLoader \<times> 'd sys) option" where
  "load_image_with read_header load_to b s =
     (case loader_of b of
        None \<Rightarrow> Some (False, b, s)
      | Some l \<Rightarrow> do {
          (header, l, s) \<leftarrow> read_header l s;
          let b = b\<lparr>loader_of := Some l\<rparr>;
          case parse_header header of
            None \<Rightarrow> Some (False, b, s)
          | Some ai \<Rightarrow> do {
              let b = b\<lparr>image_info := ai\<rparr>;
              (ok, s) \<leftarrow> load_to (load_addr ai) (image_size ai) l s;
              Some (if ok then (True, b\<lparr>image_loaded := True\<rparr>, s) else (False, b, s)) } })"

definition BootMediaLoader_load_image ::
  "'d platform \<Rightarrow> 'd sd_hal \<Rightarrow> BootMediaLoader \<Rightarrow> 'd sys \<Rightarrow> (bool \<times> BootMediaLoader \<times> 'd sys) option" where
  "BootMediaLoader_load_image h sd = load_image_with (loader_read_header h sd) (loader_load_image h sd)"

text \<open>The call of the image's entry point does not return: \<open>JumpTo\<close> its address.\<close>

datatype boot_outcome = JumpTo u32 | Returned

definition boot_image ::
  "'d platform \<Rightarrow> 'd sd_hal \<Rightarrow> BootMediaLoader \<Rightarrow> 'd sys \<Rightarrow> (boot_outcome \<times> BootMediaLoader \<times> 'd sys) option" where
  "boot_image h sd b s =
     do { (ok, b, s) \<leftarrow> (if \<not> image_loaded b then BootMediaLoader_load_image h sd b s else Some (True, b, s));
          Some (if ok then (JumpTo (entry_point (image_info b)), b, s) else (Returned, b, s)) }"

end
