(* ===== verification/BootLoad.thy ===== *)
theory BootLoad
  imports BootMedia
begin

text \<open>
  What the loaders promise. \<open>boot_loader\<close> is the contract of the virtual class \<open>BootLoader\<close> with
  respect to an image, the bytes on the medium: \<open>read_image_header\<close> returns its first 64 bytes,
  and after it \<open>load_image\<close> copies as many bytes as asked for. The loading of the application is
  verified against this contract. \<open>sd_board\<close> and \<open>nor_board\<close> are the contracts of the
  two media; each gives \<open>boot_loader\<close>.
\<close>

subsection \<open>The contract of a loader\<close>

text \<open>\<open>img\<close> starts with the header of an image of \<open>n\<close> bytes for address \<open>e\<close>, which with its header, and
  what a transfer in whole blocks adds, lies in \<open>ram\<close>.\<close>

definition image_at :: "u8 list \<Rightarrow> u32 set \<Rightarrow> u32 \<Rightarrow> nat \<Rightarrow> bool" where
  "image_at img ram e n \<longleftrightarrow>
     (let hdr = image_header_of (take 64 img)
      in be32_to_cpu (ih_magic hdr) = IH_MAGIC \<and> ih_load hdr \<noteq> 0 \<and> e = be32_to_cpu (ih_load hdr) \<and>
         n = unat (be32_to_cpu (ih_size hdr)) \<and> 64 + n \<le> length img \<and> n + 575 < 2 ^ 32 \<and>
         (\<forall>i < n + 575. e - 64 + of_nat i \<in> ram))"

locale boot_loader =
  fixes rih :: "loader \<Rightarrow> 'd sys \<Rightarrow> (image_header \<times> loader \<times> 'd sys) option"
    and ldi :: "u32 \<Rightarrow> u32 \<Rightarrow> loader \<Rightarrow> 'd sys \<Rightarrow> (bool \<times> 'd sys) option"
    and mem8 :: "'d \<Rightarrow> u32 \<Rightarrow> u8"
    and ram :: "u32 set"
    and img :: "u8 list"
    and started :: "loader \<Rightarrow> 'd sys \<Rightarrow> bool"
    and ready :: "loader \<Rightarrow> 'd sys \<Rightarrow> bool"
  assumes header_read: "started l s \<Longrightarrow> \<exists>l' s'. rih l s = Some (image_header_of (take 64 img), l', s') \<and> ready l' s'"
    and load_reads: "ready l s \<Longrightarrow> unat sz \<le> length img \<Longrightarrow> unat sz + 511 < 2 ^ 32 \<Longrightarrow>
      \<forall>i < unat sz + 511. a + of_nat i \<in> ram \<Longrightarrow>
      \<exists>s'. ldi a sz l s = Some (True, s') \<and> (\<forall>i < unat sz. mem8 (dev s') (a + of_nat i) = img ! i)"
begin

lemma image_loads:
  assumes "loader_of b = Some l" "started l s" "image_at img ram e n"
  shows "\<exists>b' s'. load_image_with rih ldi b s = Some (True, b', s') \<and> image_loaded b' \<and>
    entry_point (image_info b') = e \<and> (\<forall>i < n. mem8 (dev s') (e + of_nat i) = img ! (64 + i))"
proof -
  define hdr where "hdr = image_header_of (take 64 img)"
  have hdr: "be32_to_cpu (ih_magic hdr) = IH_MAGIC" "ih_load hdr \<noteq> 0" "e = be32_to_cpu (ih_load hdr)"
    "n = unat (be32_to_cpu (ih_size hdr))" "64 + n \<le> length img" "n + 575 < 2 ^ 32"
    "\<forall>i < n + 575. e - 64 + of_nat i \<in> ram"
    using assms(3) unfolding image_at_def hdr_def Let_def by blast+
  obtain l' s' where r: "rih l s = Some (hdr, l', s')" "ready l' s'"
    using header_read [OF assms(2)] by (auto simp: hdr_def)
  define sz where "sz = be32_to_cpu (ih_size hdr) + HeaderSize"
  have "unat sz = n + 64"
    using hdr(4,6) by (simp add: sz_def HeaderSize_def unat_word_ariths)
  then obtain s'' where s'': "ldi (e - HeaderSize) sz l' s' = Some (True, s'')"
    "\<forall>i < n + 64. mem8 (dev s'') (e - HeaderSize + of_nat i) = img ! i"
    using load_reads [OF r(2), of sz "e - HeaderSize"] hdr(5-7) by (auto simp: HeaderSize_def)
  have "mem8 (dev s'') (e + of_nat i) = img ! (64 + i)" if "i < n" for i
  proof -
    have "e - HeaderSize + of_nat (64 + i) = e + of_nat i" by (simp add: HeaderSize_def)
    then show ?thesis using s''(2) [rule_format, of "64 + i"] that by simp
  qed
  then show ?thesis
    using assms(1) hdr(1-3) r(1) s''(1) by (simp add: load_image_with_def parse_header_def Let_def sz_def)
qed

lemma image_rejected:
  assumes "loader_of b = Some l" "started l s"
    and "be32_to_cpu (ih_magic (image_header_of (take 64 img))) \<noteq> IH_MAGIC"
  shows "\<exists>b' s'. load_image_with rih ldi b s = Some (False, b', s') \<and> image_loaded b' = image_loaded b"
  using header_read [OF assms(2)] assms(1,3) by (auto simp: load_image_with_def parse_header_def Let_def)

end

subsection \<open>The SD card\<close>

text \<open>Where the table of the card puts the third partition: the header in block \<open>b\<close>, if it passes the
  checks and its third entry is used.\<close>

definition gpt_lookup :: "(u32 \<Rightarrow> u8 list) \<Rightarrow> u32 \<Rightarrow> u32 \<Rightarrow> u64 option" where
  "gpt_lookup blk nbr b =
     (let g = gpt_header_of (take 92 (blk b))
      in if gpt_header_ok g b nbr
         then let e = gpt_entry_of (part 256 128 (blk (ucast (partition_entry_lba g))))
              in if \<exists>x\<in>set (partition_type_guid e). x \<noteq> 0 then Some (starting_lba e) else None
         else None)"

definition gpt_readable :: "(u32 \<Rightarrow> u8 list) \<Rightarrow> u32 \<Rightarrow> u32 \<Rightarrow> bool" where
  "gpt_readable blk nbr b \<longleftrightarrow>
     (let g = gpt_header_of (take 92 (blk b))
      in (signature g = GPT_HEADER_SIGNATURE_UBOOT \<longrightarrow> header_size g \<le> 92) \<and>
         (gpt_header_ok g b nbr \<longrightarrow> partition_entry_lba g < ucast nbr))"

definition ssbl_block :: "(u32 \<Rightarrow> u8 list) \<Rightarrow> u32 \<Rightarrow> u64 option" where
  "ssbl_block blk nbr =
     (case gpt_lookup blk nbr 1 of
        Some a \<Rightarrow> if a \<noteq> 0xFFFFFFFF then Some a else gpt_lookup blk nbr (nbr - 1)
      | None \<Rightarrow> gpt_lookup blk nbr (nbr - 1))"

lemma of_nat_nonzero: "0 < n \<Longrightarrow> n < 2 ^ 32 \<Longrightarrow> (of_nat n :: u32) \<noteq> 0"
  using unat_of_nat [of n, where ?'a = 32] by auto

lemma store_bytes_mem:
  assumes "\<And>a v d. a \<in> ram \<Longrightarrow> m (wr8 h v a d) = (m d)(a := v)"
    and "\<forall>i < length bs. a + of_nat i \<in> ram" "length bs \<le> 2 ^ 32" "i < length bs"
  shows "m (dev (store_bytes h a bs s)) (a + of_nat i) = (bs ! i :: u8)"
proof -
  have keep: "m (dev (store_bytes h a bs s)) x = m (dev s) x"
    if "\<forall>i < length bs. a + of_nat i \<in> ram \<and> a + of_nat i \<noteq> x" for a bs s x
    using that
  proof (induction bs arbitrary: a s)
    case (Cons b bs)
    have "\<forall>i < length bs. a + 1 + of_nat i \<in> ram \<and> a + 1 + of_nat i \<noteq> x"
      using Cons.prems by (auto simp: algebra_simps dest: spec [of _ "Suc _"])
    then show ?case
      using Cons.IH [of "a + 1" "s\<lparr>dev := wr8 h b a (dev s)\<rparr>"] Cons.prems [rule_format, of 0] assms(1) by auto
  qed simp
  show ?thesis
    using assms(2-4)
  proof (induction bs arbitrary: a s i)
    case (Cons b bs)
    let ?s = "s\<lparr>dev := wr8 h b a (dev s)\<rparr>"
    have r: "a \<in> ram" "\<forall>i < length bs. a + 1 + of_nat i \<in> ram"
      using Cons.prems(1) [rule_format, of 0] Cons.prems(1) by (auto simp: algebra_simps dest: spec [of _ "Suc _"])
    show ?case
    proof (cases i)
      case 0
      have "\<forall>j < length bs. a + 1 + of_nat j \<in> ram \<and> a + 1 + of_nat j \<noteq> a"
      proof (intro allI impI conjI)
        fix j assume j: "j < length bs"
        then show "a + 1 + of_nat j \<in> ram" using r(2) by blast
        have "(of_nat (Suc j) :: u32) \<noteq> 0"
          using of_nat_nonzero [of "Suc j"] j Cons.prems(2) by simp
        then show "a + 1 + of_nat j \<noteq> a" by (simp add: add.assoc)
      qed
      then show ?thesis using keep [of bs "a + 1" a ?s] assms(1) r(1) 0 by simp
    next
      case (Suc k)
      then show ?thesis
        using Cons.IH [of "a + 1" k ?s] r(2) Cons.prems(2,3) by (simp add: algebra_simps)
    qed
  qed simp
qed


lemma unat_bound: "unat (x :: u32) < 2 ^ 32"
proof -
  have "(unsigned x :: nat) < 2 ^ LENGTH(32)" by (rule unsigned_less)
  then show ?thesis by simp
qed

lemma unat_up: "unat (ucast (x :: u32) :: u64) = unat x"
  using unat_bound [of x] by (simp add: unsigned_ucast_eq unsigned_take_bit_eq take_bit_nat_eq_self)

lemma unat_down: "unat (y :: u64) < 2 ^ 32 \<Longrightarrow> unat (ucast y :: u32) = unat y"
  by (simp add: unsigned_ucast_eq unsigned_take_bit_eq take_bit_nat_eq_self)

lemma ucast_down_up: "(ucast (ucast (x :: u32) :: u64) :: u32) = x"
  by (rule bit_word_eqI) (simp add: bit_simps)

lemma ucast_not_top:
  assumes "(x :: u32) < y"
  shows "(ucast x :: u64) \<noteq> 0xFFFFFFFF"
proof
  assume "(ucast x :: u64) = 0xFFFFFFFF"
  then have "unat (ucast x :: u64) = unat (0xFFFFFFFF :: u64)" by simp
  then have "unat x = 0xFFFFFFFF" by (simp only: unat_up) simp
  then show False using assms unat_bound [of y] by (simp add: word_less_nat_alt)
qed

definition card_image :: "(u32 \<Rightarrow> u8 list) \<Rightarrow> u32 \<Rightarrow> u32 \<Rightarrow> u8 list" where
  "card_image blk nbr L = concat (map (\<lambda>i. blk (L + of_nat i)) [0..<unat nbr - unat L])"

locale sd_board =
  fixes h :: "'d platform"
    and sd :: "'d sd_hal"
    and mem8 :: "'d \<Rightarrow> u32 \<Rightarrow> u8"
    and ram :: "u32 set"
    and blk :: "u32 \<Rightarrow> u8 list"
    and nbr L :: u32
  assumes block_length: "length (blk b) = 512"
    and sd_inits: "\<exists>d'. HAL_SD_Init sd cfg d = (HAL_OK, nbr, 512, d')"
    and sd_reads: "unat b + unat n \<le> unat nbr \<Longrightarrow>
      \<exists>d'. HAL_SD_ReadBlocks sd b n t d = (HAL_OK, concat (map (\<lambda>i. blk (b + of_nat i)) [0..<unat n]), d')"
    and sd_stores: "a \<in> ram \<Longrightarrow> mem8 (wr8 h v a d) = (mem8 d)(a := v)"
    and gpt_blocks: "1 < nbr" "gpt_readable blk nbr 1" "gpt_readable blk nbr (nbr - 1)"
    and ssbl_at: "ssbl_block blk nbr = Some (ucast L)" "L < nbr"
begin

abbreviation sd_image :: "u8 list" where
  "sd_image \<equiv> card_image blk nbr L"

definition sd_started :: "loader \<Rightarrow> 'd sys \<Rightarrow> bool" where
  "sd_started l s \<longleftrightarrow> (\<exists>x. l = SDLoader x \<and> BlockNbr x = nbr \<and> BlockSize x = 512)"

definition sd_ready :: "loader \<Rightarrow> 'd sys \<Rightarrow> bool" where
  "sd_ready l s \<longleftrightarrow> (\<exists>x. l = SDLoader x \<and> BlockSize x = 512 \<and> ssbl_blockaddr x = ucast L)"

lemma read_block:
  assumes "b < nbr"
  shows "\<exists>d'. sd_read sd n f b l s = (f (take n (blk b)), l, s\<lparr>dev := d'\<rparr>)"
proof -
  have "unat b + unat (1 :: u32) \<le> unat nbr" using assms by (simp add: word_less_nat_alt)
  from sd_reads [OF this, of "0xFFFFFF" "dev s"] show ?thesis by (auto simp: sd_read_def)
qed

lemma third_entry: "gpt_entries_of (take 512 (blk b)) ! 2 = gpt_entry_of (part 256 128 (blk b))"
  by (simp add: gpt_entries_of_def block_length upt_rec)

lemma lookup_entry:
  assumes "partition_entry_lba g < ucast nbr" "BlockSize l = 512"
    and "e = gpt_entry_of (part 256 128 (blk (ucast (partition_entry_lba g))))"
  shows "\<exists>d'. get_gpt_partition_startaddr sd g l s =
    (if \<exists>x\<in>set (partition_type_guid e). x \<noteq> 0 then starting_lba e else 0xFFFFFFFF, l, s\<lparr>dev := d'\<rparr>)"
proof -
  let ?b = "ucast (partition_entry_lba g) :: u32"
  have "unat (partition_entry_lba g) < unat nbr"
    using assms(1) by (simp add: word_less_nat_alt unat_up)
  then have "?b < nbr"
    using unat_bound [of nbr] by (simp add: word_less_nat_alt unat_down)
  moreover have "length (partition_type_guid e) = 16"
    by (simp add: assms(3) gpt_entry_of_def block_length)
  ultimately show ?thesis
    using read_block [of ?b 512 gpt_entries_of l s] assms(2,3)
    by (auto simp: get_gpt_partition_startaddr_def ssbl_part_num_def SDCardSSBLPartition_def InvalidPartitionNum_def
      third_entry validate_partition_entry_iff Let_def)
qed

lemma header_step:
  assumes "b < nbr" "gpt_readable blk nbr b" "BlockSize l = 512"
  shows "\<exists>s'. find_ssbl sd nbr (b # bs) l s =
    (case gpt_lookup blk nbr b of
       Some a \<Rightarrow> if a \<noteq> 0xFFFFFFFF then Some (l\<lparr>ssbl_blockaddr := a\<rparr>, s')
                 else find_ssbl sd nbr bs (l\<lparr>ssbl_blockaddr := a\<rparr>) s'
     | None \<Rightarrow> find_ssbl sd nbr bs (if gpt_header_ok (gpt_header_of (take 92 (blk b))) b nbr
                                   then l\<lparr>ssbl_blockaddr := 0xFFFFFFFF\<rparr> else l) s')"
proof -
  define g where "g = gpt_header_of (take 92 (blk b))"
  obtain d where rd: "sd_read sd 92 gpt_header_of b l s = (g, l, s\<lparr>dev := d\<rparr>)"
    using read_block [OF assms(1), of 92 gpt_header_of l s] by (auto simp: g_def)
  have "gpt_header_wf g" by (simp add: g_def header.bytes_wf block_length)
  then have v: "validate_gpt_header g b nbr = Some (gpt_header_ok g b nbr)"
    using assms(2) by (auto simp: validate_gpt_header_cases gpt_readable_def g_def Let_def)
  show ?thesis
  proof (cases "gpt_header_ok g b nbr")
    case False
    then show ?thesis using rd v by (auto simp: gpt_lookup_def g_def Let_def)
  next
    case True
    then have "partition_entry_lba g < ucast nbr"
      using assms(2) by (simp add: gpt_readable_def g_def Let_def)
    from lookup_entry [OF this assms(3) refl, of "s\<lparr>dev := d\<rparr>"] obtain d2 where
      "get_gpt_partition_startaddr sd g l (s\<lparr>dev := d\<rparr>) =
        (if \<exists>x\<in>set (partition_type_guid (gpt_entry_of (part 256 128 (blk (ucast (partition_entry_lba g)))))). x \<noteq> 0
         then starting_lba (gpt_entry_of (part 256 128 (blk (ucast (partition_entry_lba g))))) else 0xFFFFFFFF, l, s\<lparr>dev := d2\<rparr>)"
      by auto
    then show ?thesis
      using rd v True by (auto simp: gpt_lookup_def g_def [symmetric] Let_def InvalidPartitionNum_def)
  qed
qed

lemma find_ssbl_finds:
  assumes "BlockSize l = 512"
  shows "\<exists>s'. find_ssbl sd nbr [1, nbr - 1] l s = Some (l\<lparr>ssbl_blockaddr := ucast L\<rparr>, s')"
proof -
  note nL = ucast_not_top [OF ssbl_at(2)]
  have "nbr \<noteq> 0" using gpt_blocks(1) by auto
  then have b: "1 < nbr" "nbr - 1 < nbr"
    using gpt_blocks(1) unat_minus_one [of nbr] by (simp_all add: word_less_nat_alt)
  obtain s1 where s1: "find_ssbl sd nbr [1, nbr - 1] l s =
    (case gpt_lookup blk nbr 1 of
       Some a \<Rightarrow> if a \<noteq> 0xFFFFFFFF then Some (l\<lparr>ssbl_blockaddr := a\<rparr>, s1)
                 else find_ssbl sd nbr [nbr - 1] (l\<lparr>ssbl_blockaddr := a\<rparr>) s1
     | None \<Rightarrow> find_ssbl sd nbr [nbr - 1] (if gpt_header_ok (gpt_header_of (take 92 (blk 1))) 1 nbr
                                   then l\<lparr>ssbl_blockaddr := 0xFFFFFFFF\<rparr> else l) s1)"
    using header_step [OF b(1) gpt_blocks(2) assms, of "[nbr - 1]" s] ..
  have second: "\<exists>s'. find_ssbl sd nbr [nbr - 1] x s1 = Some (x\<lparr>ssbl_blockaddr := ucast L\<rparr>, s')"
    if g2: "gpt_lookup blk nbr (nbr - 1) = Some (ucast L)" and bs: "BlockSize x = 512" for x
  proof -
    obtain s' where "find_ssbl sd nbr [nbr - 1] x s1 = Some (x\<lparr>ssbl_blockaddr := ucast L\<rparr>, s')"
      using header_step [OF b(2) gpt_blocks(3) bs, of "[]" s1] unfolding g2 option.case if_P [OF nL] by blast
    then show ?thesis by blast
  qed
  show ?thesis
  proof (cases "gpt_lookup blk nbr 1")
    case None
    then have "gpt_lookup blk nbr (nbr - 1) = Some (ucast L)" using ssbl_at(1) by (simp add: ssbl_block_def)
    note n2 = second [OF this]
    show ?thesis
      using s1 None n2 [of l] n2 [of "l\<lparr>ssbl_blockaddr := 0xFFFFFFFF\<rparr>"] assms
      by (simp del: find_ssbl.simps split: if_splits)
  next
    case (Some a)
    show ?thesis
    proof (cases "a = 0xFFFFFFFF")
      case True
      then have "gpt_lookup blk nbr (nbr - 1) = Some (ucast L)" using ssbl_at(1) Some by (simp add: ssbl_block_def)
      from second [OF this, of "l\<lparr>ssbl_blockaddr := 0xFFFFFFFF\<rparr>"] show ?thesis
        using s1 Some True assms by (simp del: find_ssbl.simps)
    next
      case False
      then have "a = ucast L" using ssbl_at(1) Some by (simp add: ssbl_block_def)
      then show ?thesis using s1 Some False by (simp del: find_ssbl.simps)
    qed
  qed
qed

lemma concat_blocks:
  "length (concat (map (\<lambda>i. blk (b + of_nat i)) [0..<n])) = 512 * n"
  by (induction n) (simp_all add: block_length)

lemma concat_prefix:
  assumes "i < 512 * n" "n \<le> m"
  shows "concat (map (\<lambda>i. blk (b + of_nat i)) [0..<m]) ! i = concat (map (\<lambda>i. blk (b + of_nat i)) [0..<n]) ! i"
proof -
  have "[0..<m] = [0..<n] @ [n..<m]" using assms(2) by (metis le_add_diff_inverse upt_add_eq_append zero_le)
  then show ?thesis using assms(1) concat_blocks [of b n] by (simp add: nth_append)
qed

lemma image_head: "take 64 sd_image = take 64 (blk L)" "length sd_image = 512 * (unat nbr - unat L)"
  "i < 512 \<Longrightarrow> sd_image ! i = blk L ! i"
proof -
  have lt: "unat L < unat nbr" using ssbl_at(2) by (simp add: word_less_nat_alt)
  then have "[0..<unat nbr - unat L] = 0 # [1..<unat nbr - unat L]" by (simp add: upt_conv_Cons)
  then show "take 64 sd_image = take 64 (blk L)" "i < 512 \<Longrightarrow> sd_image ! i = blk L ! i"
    by (simp_all add: card_image_def block_length nth_append)
  show "length sd_image = 512 * (unat nbr - unat L)" by (simp add: card_image_def concat_blocks)
qed

lemma sd_header_read:
  assumes "sd_started l s"
  shows "\<exists>l' s'. loader_read_header h sd l s = Some (image_header_of (take 64 sd_image), l', s') \<and> sd_ready l' s'"
proof -
  obtain x where x: "l = SDLoader x" "BlockNbr x = nbr" "BlockSize x = 512"
    using assms by (auto simp: sd_started_def)
  obtain s1 where s1: "find_ssbl sd nbr [1, nbr - 1] x s = Some (x\<lparr>ssbl_blockaddr := ucast L\<rparr>, s1)"
    using find_ssbl_finds [OF x(3), of s] by auto
  obtain d where d: "sd_read sd 64 image_header_of L (x\<lparr>ssbl_blockaddr := ucast L\<rparr>) s1 =
      (image_header_of (take 64 (blk L)), x\<lparr>ssbl_blockaddr := ucast L\<rparr>, s1\<lparr>dev := d\<rparr>)"
    using read_block [OF ssbl_at(2)] by blast
  note img = image_head(1)
  have nL: "(ucast L :: u64) \<noteq> ucast InvalidPartitionNum"
    using ucast_not_top [OF ssbl_at(2)] by (simp add: InvalidPartitionNum_def)
  note u = ucast_down_up [of L]
  show ?thesis
    using x s1 d nL img u
    by (simp add: loader_read_header_def sd_read_image_header_def Let_def sd_ready_def)
qed

lemma sd_load_reads:
  assumes "sd_ready l s" "unat sz \<le> length sd_image" "unat sz + 511 < 2 ^ 32"
    and "\<forall>i < unat sz + 511. a + of_nat i \<in> ram"
  shows "\<exists>s'. loader_load_image h sd a sz l s = Some (True, s') \<and>
    (\<forall>i < unat sz. mem8 (dev s') (a + of_nat i) = sd_image ! i)"
proof -
  obtain x where x: "l = SDLoader x" "BlockSize x = 512" "ssbl_blockaddr x = ucast L"
    using assms(1) by (auto simp: sd_ready_def)
  define n where "n = (sz + 512 - 1) div 512"
  have n: "unat n = (unat sz + 511) div 512"
    using assms(3) by (simp add: n_def unat_div unat_word_ariths)
  note len = image_head(2)
  have le: "unat n \<le> unat nbr - unat L" using assms(2) len n by linarith
  have b: "unat L + unat n \<le> unat nbr"
    using le ssbl_at(2) by (simp add: word_less_nat_alt)
  define buf where "buf = concat (map (\<lambda>i. blk (L + of_nat i)) [0..<unat n])"
  obtain d where d: "HAL_SD_ReadBlocks sd L n 0xFFFFFF (dev s) = (HAL_OK, buf, d)"
    using sd_reads [OF b, of "0xFFFFFF" "dev s"] by (auto simp: buf_def)
  have lb: "length buf = 512 * unat n" by (simp add: buf_def concat_blocks)
  note u = ucast_down_up [of L]
  have fits: "\<forall>i < length buf. a + of_nat i \<in> ram" "length buf \<le> 2 ^ 32"
    using assms(3,4) lb n by auto
  have "mem8 (dev (store_bytes h a buf (s\<lparr>dev := d\<rparr>))) (a + of_nat i) = sd_image ! i" if "i < unat sz" for i
  proof -
    have i: "i < length buf" using that lb n by linarith
    have "sd_image ! i = buf ! i"
      unfolding card_image_def buf_def by (rule concat_prefix) (use i lb le in auto)
    then show ?thesis
      using store_bytes_mem [where m = mem8 and h = h, OF sd_stores fits i] by simp
  qed
  then show ?thesis
    using x d u by (auto simp: loader_load_image_def sd_load_image_def Let_def n_def)
qed

lemma sd_is_loader:
  "boot_loader (loader_read_header h sd) (loader_load_image h sd) mem8 ram sd_image sd_started sd_ready"
  by unfold_locales (rule sd_header_read, assumption, rule sd_load_reads, assumption+)

lemma sd_new_started: "\<exists>l s'. get_boot_loader h sd BOOT_SDCARD s = (Some l, s') \<and> sd_started l s'"
proof -
  obtain x s' where n: "BootSDLoader_new h sd s = (x, s')" by fastforce
  then have "BlockNbr x = nbr \<and> BlockSize x = 512"
    using sd_inits [of sd_init_config] unfolding BootSDLoader_new_def Let_def
    by (auto split: prod.splits) (metis fst_conv snd_conv)+
  then show ?thesis using n by (auto simp: get_boot_loader_def sd_started_def)
qed

end

sublocale sd_board \<subseteq> sd_loader: boot_loader "loader_read_header h sd" "loader_load_image h sd" mem8 ram sd_image sd_started sd_ready
  by (rule sd_is_loader)

subsection \<open>The NOR flash\<close>

text \<open>The flash can be read in the QSPI window when the interface is enabled and its communication
  register selects memory-mapped mode with the quad output read command, one line for the
  instruction and for the 24 bits of the address, and four lines for the data.\<close>

definition qspi_mapped :: "(u32 \<Rightarrow> u32) \<Rightarrow> bool" where
  "qspi_mapped r \<longleftrightarrow> r QUADSPI_CR AND 1 = 1 \<and> r QUADSPI_CCR AND 0x0F003FFF = 0x0F00256B"

definition flash_image :: "(u32 \<Rightarrow> u8) \<Rightarrow> u8 list" where
  "flash_image flash = map (\<lambda>i. flash (0x80000 + of_nat i)) [0..<0xF80000]"

locale nor_board = plain_regs h regs plain
  for h :: "'d platform" and regs plain +
  fixes mem8 :: "'d \<Rightarrow> u32 \<Rightarrow> u8"
    and ram :: "u32 set"
    and flash :: "u32 \<Rightarrow> u8"
  assumes rd8_flash: "qspi_mapped (regs d) \<Longrightarrow> i < 0x1000000 \<Longrightarrow> fst (rd8 h (0x70000000 + i) d) = flash i"
    and rd8_keeps: "regs (snd (rd8 h a d)) = regs d" "mem8 (snd (rd8 h a d)) = mem8 d"
    and wr8_stores: "a \<in> ram \<Longrightarrow> mem8 (wr8 h v a d) = (mem8 d)(a := v)" "a \<in> ram \<Longrightarrow> regs (wr8 h v a d) = regs d"
begin

abbreviation nor_image :: "u8 list" where
  "nor_image \<equiv> flash_image flash"

definition nor_started :: "loader \<Rightarrow> 'd sys \<Rightarrow> bool" where
  "nor_started l s \<longleftrightarrow> l = NorLoader \<and> qspi_mapped (regs (dev s))"

lemma read_bytes_flash:
  assumes "qspi_mapped (regs (dev s))" "unat i + n \<le> 0x1000000"
  shows "\<exists>s'. read_bytes h (0x70000000 + i) n s = (map (\<lambda>j. flash (i + of_nat j)) [0..<n], s') \<and>
    regs (dev s') = regs (dev s)"
  using assms
proof (induction n arbitrary: i s)
  case (Suc n)
  obtain v d where d: "rd8 h (0x70000000 + i) (dev s) = (v, d)" by fastforce
  then have r: "regs d = regs (dev s)" using rd8_keeps(1) by (metis snd_conv)
  have i: "i < 0x1000000" using Suc.prems(2) by (simp add: word_less_nat_alt)
  have v: "v = flash i" using rd8_flash [OF Suc.prems(1) i] d by simp
  have "unat (i + 1) + n \<le> 0x1000000" using Suc.prems(2) i by (simp add: unat_inc)
  then obtain s' where "read_bytes h (0x70000000 + (i + 1)) n (s\<lparr>dev := d\<rparr>) =
      (map (\<lambda>j. flash (i + 1 + of_nat j)) [0..<n], s')" "regs (dev s') = regs d"
    using Suc.IH [of "s\<lparr>dev := d\<rparr>" "i + 1"] Suc.prems(1) r by auto
  then show ?case
    using d v r by (simp add: add.assoc upt_conv_Cons del: upt_Suc flip: map_Suc_upt)
qed simp

lemma copy_bytes_flash:
  assumes "qspi_mapped (regs (dev s))" "unat i + n \<le> 0x1000000" "\<forall>j < n. a + of_nat j \<in> ram"
  shows "(\<forall>j < n. mem8 (dev (copy_bytes h a (0x70000000 + i) n s)) (a + of_nat j) = flash (i + of_nat j)) \<and>
    (\<forall>x. (\<forall>j < n. a + of_nat j \<noteq> x) \<longrightarrow> mem8 (dev (copy_bytes h a (0x70000000 + i) n s)) x = mem8 (dev s) x)"
  using assms
proof (induction n arbitrary: i a s)
  case (Suc n)
  obtain v d where d: "rd8 h (0x70000000 + i) (dev s) = (v, d)" by fastforce
  then have r: "regs d = regs (dev s)" "mem8 d = mem8 (dev s)" using rd8_keeps by (metis snd_conv)+
  have i: "i < 0x1000000" using Suc.prems(2) by (simp add: word_less_nat_alt)
  have v: "v = flash i" using rd8_flash [OF Suc.prems(1) i] d by simp
  define s1 where "s1 = copy_byte h a (0x70000000 + i) s"
  have a: "a \<in> ram" "\<forall>j < n. a + 1 + of_nat j \<in> ram"
    using Suc.prems(3) [rule_format, of 0] Suc.prems(3) by (auto simp: algebra_simps dest: spec [of _ "Suc _"])
  have s1: "regs (dev s1) = regs (dev s)" "mem8 (dev s1) = (mem8 (dev s))(a := flash i)"
    using d r v a(1) wr8_stores by (simp_all add: s1_def copy_byte_def)
  have u: "unat (i + 1) + n \<le> 0x1000000" using Suc.prems(2) i by (simp add: unat_inc)
  have c: "copy_bytes h a (0x70000000 + i) (Suc n) s = copy_bytes h (a + 1) (0x70000000 + (i + 1)) n s1"
    by (simp add: s1_def add.assoc)
  note IH = Suc.IH [of s1 "i + 1" "a + 1", OF _ u a(2)]
  have IH: "\<forall>j < n. mem8 (dev (copy_bytes h (a + 1) (0x70000000 + (i + 1)) n s1)) (a + 1 + of_nat j) = flash (i + 1 + of_nat j)"
    "\<And>x. \<forall>j < n. a + 1 + of_nat j \<noteq> x \<Longrightarrow> mem8 (dev (copy_bytes h (a + 1) (0x70000000 + (i + 1)) n s1)) x = mem8 (dev s1) x"
    using IH Suc.prems(1) s1(1) by auto
  have ne: "\<forall>j < n. a + 1 + of_nat j \<noteq> a"
  proof (intro allI impI)
    fix j assume "j < n"
    then show "a + 1 + of_nat j \<noteq> a" using of_nat_nonzero [of "Suc j"] Suc.prems(2) by (simp add: add.assoc)
  qed
  show ?case
    unfolding c
  proof (intro conjI allI impI)
    fix j assume j: "j < Suc n"
    show "mem8 (dev (copy_bytes h (a + 1) (0x70000000 + (i + 1)) n s1)) (a + of_nat j) = flash (i + of_nat j)"
    proof (cases j)
      case 0
      then show ?thesis using IH(2) [OF ne] s1(2) by simp
    next
      case (Suc k)
      then show ?thesis using IH(1) j by (auto simp: algebra_simps)
    qed
  next
    fix x assume x: "\<forall>j < Suc n. a + of_nat j \<noteq> x"
    then have "\<forall>j < n. a + 1 + of_nat j \<noteq> x" "x \<noteq> a"
      by (auto simp: algebra_simps dest: spec [of _ "Suc _"] spec [of _ 0])
    then show "mem8 (dev (copy_bytes h (a + 1) (0x70000000 + (i + 1)) n s1)) x = mem8 (dev s) x"
      using IH(2) s1(2) by simp
  qed
qed simp

lemma nor_header_read:
  assumes "nor_started l s"
  shows "\<exists>l' s'. loader_read_header h sd l s = Some (image_header_of (take 64 nor_image), l', s') \<and> nor_started l' s'"
proof -
  have "unat (0x80000 :: u32) + 64 \<le> 0x1000000" by simp
  from read_bytes_flash [OF _ this] assms obtain s' where
    "read_bytes h (0x70000000 + 0x80000) 64 s = (map (\<lambda>j. flash (0x80000 + of_nat j)) [0..<64], s')"
    "regs (dev s') = regs (dev s)"
    by (auto simp: nor_started_def)
  moreover have "take 64 nor_image = map (\<lambda>j. flash (0x80000 + of_nat j)) [0..<64]"
    by (simp add: flash_image_def take_map)
  ultimately show ?thesis
    using assms by (simp add: loader_read_header_def nor_read_image_header_def QSPI_read_MM_object_def
      NorFlashSSBLAddr_def HeaderSize_def nor_started_def)
qed

lemma nor_load_reads:
  assumes "nor_started l s" "unat sz \<le> length nor_image" "\<forall>i < unat sz + 511. a + of_nat i \<in> ram"
  shows "\<exists>s'. loader_load_image h sd a sz l s = Some (True, s') \<and>
    (\<forall>i < unat sz. mem8 (dev s') (a + of_nat i) = nor_image ! i)"
proof -
  have "unat (0x80000 :: u32) + unat sz \<le> 0x1000000" using assms(2) by (simp add: flash_image_def)
  from copy_bytes_flash [OF _ this, of s a] assms(1,3)
  have "\<forall>j < unat sz. mem8 (dev (copy_bytes h a (0x70000000 + 0x80000) (unat sz) s)) (a + of_nat j) = flash (0x80000 + of_nat j)"
    by (simp add: nor_started_def)
  then show ?thesis
    using assms(1,2) by (simp add: loader_load_image_def nor_load_image_def QSPI_read_MM_def NorFlashSSBLAddr_def
      nor_started_def flash_image_def)
qed

lemma nor_is_loader:
  "boot_loader (loader_read_header h sd) (loader_load_image h sd) mem8 ram nor_image nor_started nor_started"
  by unfold_locales (rule nor_header_read, assumption, rule nor_load_reads, assumption+)

lemma qspi_init_regs:
  "regs (dev (QSPI_init h s)) = (regs (dev s))(RCC_QSPICKSELR := 0, RCC_AHB2RSTSETR := 0x4000, RCC_AHB2RSTCLRR := 0x4000,
     QUADSPI_CR := 0x03000211, QUADSPI_DCR := 0x00170200, QUADSPI_CCR := 0x0F18E56B, QUADSPI_ABR := 0)"
  by (simp add: QSPI_init_def Let_def LL_QSPI_SetCommConfig_def LL_QPSI_SetAltBytes_def qspi_defs fun_eq_iff)

lemma nor_new_started: "\<exists>s'. get_boot_loader h sd BOOT_NOR s = (Some NorLoader, s') \<and> nor_started NorLoader s'"
  by (simp add: get_boot_loader_def BootNorLoader_new_def Let_def nor_started_def qspi_mapped_def qspi_init_regs)
    (simp add: qspi_defs)

end

sublocale nor_board \<subseteq> nor_loader: boot_loader "loader_read_header h sd" "loader_load_image h sd" mem8 ram nor_image nor_started nor_started
  for sd
  by (rule nor_is_loader)

end
