(* ===== verification/DdrInitRun.thy ===== *)
theory DdrInitRun
  imports DdrInit DdrTuning
begin

text \<open>
  What bringing up the DDR achieves. \<open>program\<close> is the effect of a list of writes on a register
  file; the tables of DdrConfig write each register once (\<open>table_addrs_distinct\<close>), apart from
  the registers of the procedure itself (\<open>init_regs\<close>). \<open>ddr_board\<close> extends the contract of
  DdrCtrl by a controller that reaches the normal mode; in it the run is computed
  (\<open>ddr_init_R\<close>): the register file ends as \<open>ddr_ready\<close>. \<open>setup_board\<close> is a device with
  registers and a RAM that keeps the contract.
\<close>

subsection \<open>What a run writes\<close>

definition program :: "(u32 \<times> u32) list \<Rightarrow> (u32 \<Rightarrow> u32) \<Rightarrow> u32 \<Rightarrow> u32" where
  "program = fold (\<lambda>(a, v) r. r(a := v))"

lemma program_other: "a \<notin> fst ` set ws \<Longrightarrow> program ws r a = r a"
  unfolding program_def by (induction ws arbitrary: r) auto

lemma program_at: "distinct (map fst ws) \<Longrightarrow> (a, v) \<in> set ws \<Longrightarrow> program ws r a = v"
proof (induction ws arbitrary: r)
  case (Cons w ws)
  show ?case
  proof (cases "w = (a, v)")
    case True
    then have "a \<notin> fst ` set ws" using Cons.prems(1) by simp
    then show ?thesis using True program_other [of a ws] by (simp add: program_def)
  next
    case False
    then show ?thesis using Cons by (simp add: program_def split_def)
  qed
qed simp

lemma program_append: "program (us @ ws) r = program ws (program us r)"
  by (simp add: program_def)

lemma program_commute:
  "a \<notin> fst ` set ws \<Longrightarrow> program ws (r(a := v)) = (program ws r)(a := v)"
  unfolding program_def by (induction ws arbitrary: r) (auto simp: fun_upd_twist split_def)

text \<open>The registers of a table with their parameters.\<close>

definition reg_writes :: "u32 \<Rightarrow> reg_desc list \<Rightarrow> u32 list \<Rightarrow> (u32 \<times> u32) list" where
  "reg_writes a ds param =
     map (\<lambda>d. (a + ucast (reg_offset d), param ! (unat (par_offset d) div 4)))
       (filter (\<lambda>d. par_offset d \<noteq> INVALID_OFFSET) ds)"

definition ctl_writes :: "stm32mp1_ddr_config \<Rightarrow> (u32 \<times> u32) list" where
  "ctl_writes config =
     reg_writes DDRCTRL_BASE ddr_reg (stm32mp1_ddrctrl_reg_words (c_reg config)) @
     reg_writes DDRCTRL_BASE ddr_timing (stm32mp1_ddrctrl_timing_words (c_timing config)) @
     reg_writes DDRCTRL_BASE ddr_map (stm32mp1_ddrctrl_map_words (c_map config)) @
     reg_writes DDRCTRL_BASE ddr_perf (stm32mp1_ddrctrl_perf_words (c_perf config))"

definition phy_writes :: "stm32mp1_ddr_config \<Rightarrow> (u32 \<times> u32) list" where
  "phy_writes config =
     reg_writes DDRPHYC_BASE ddrphy_reg (stm32mp1_ddrphy_reg_words (p_reg config)) @
     reg_writes DDRPHYC_BASE ddrphy_timing (stm32mp1_ddrphy_timing_words (p_timing config)) @
     (if p_cal_present config then reg_writes DDRPHYC_BASE ddrphy_cal (stm32mp1_ddrphy_cal_words (p_cal config)) else [])"

text \<open>The addresses do not depend on the parameters.\<close>

definition table_addrs :: "u32 list" where
  "table_addrs =
     map (\<lambda>d. DDRCTRL_BASE + ucast (reg_offset d)) (ddr_reg @ ddr_timing @ ddr_map @ ddr_perf) @
     map (\<lambda>d. DDRPHYC_BASE + ucast (reg_offset d)) (ddrphy_reg @ ddrphy_timing @ ddrphy_cal)"

text \<open>The registers the initialisation itself works with.\<close>

definition init_regs :: "u32 list" where
  "init_regs = [DDRCTRL_BASE + ctl_dfimisc, DDRCTRL_BASE + ctl_swctl, DDRCTRL_BASE + ctl_init0,
     DDRCTRL_BASE + ctl_pctrl_0, DDRCTRL_BASE + ctl_pctrl_1, DDRPHYC_BASE + phy_pir,
     RCC_BASE + RCC_DDRITFCR]"

lemma table_addrs_offsets:
  "table_addrs =
     map (\<lambda>n. DDRCTRL_BASE + ucast n)
       (map reg_offset ddr_reg @ map reg_offset ddr_timing @ map reg_offset ddr_map @ map reg_offset ddr_perf) @
     map (\<lambda>n. DDRPHYC_BASE + ucast n)
       (map reg_offset ddrphy_reg @ map reg_offset ddrphy_timing @ map reg_offset ddrphy_cal)"
  by (simp add: table_addrs_def)

lemma table_addrs_distinct: "distinct (table_addrs @ init_regs)"
  by (rule distinct_addrs) (unfold table_addrs_offsets table_offsets init_regs_def, code_simp)

lemma params_valid:
  "list_all (\<lambda>n. n \<noteq> INVALID_OFFSET)
     (map par_offset (ddr_reg @ ddr_timing @ ddr_map @ ddr_perf @ ddrphy_reg @ ddrphy_timing @ ddrphy_cal))"
  unfolding map_append table_offsets by (simp add: INVALID_OFFSET_def)

lemma reg_writes_valid:
  "list_all (\<lambda>n. n \<noteq> INVALID_OFFSET) (map par_offset ds) \<Longrightarrow>
     map fst (reg_writes a ds param) = map (\<lambda>d. a + ucast (reg_offset d)) ds"
  by (induction ds) (auto simp: reg_writes_def)

lemma writes_table:
  "\<exists>rest. table_addrs = map fst (ctl_writes config @ phy_writes config) @ rest"
proof -
  note v = params_valid [unfolded map_append list_all_append]
  show ?thesis
    using v
    by (intro exI [of _ "if p_cal_present config then [] else map (\<lambda>d. DDRPHYC_BASE + ucast (reg_offset d)) ddrphy_cal"])
      (simp add: ctl_writes_def phy_writes_def reg_writes_valid table_addrs_def del: map_map)
qed

lemma writes_distinct: "distinct (map fst (ctl_writes config @ phy_writes config))"
  using writes_table [of config] table_addrs_distinct by (metis distinct_append)

lemma writes_in_tables: "fst ` set (ctl_writes config @ phy_writes config) \<subseteq> set table_addrs"
proof -
  obtain rest where "table_addrs = map fst (ctl_writes config @ phy_writes config) @ rest"
    using writes_table by blast
  then show ?thesis by (metis Un_upper1 set_append set_map)
qed

lemma writes_not_init: "a \<in> set init_regs \<Longrightarrow> a \<notin> fst ` set (ctl_writes config @ phy_writes config)"
  using writes_in_tables table_addrs_distinct unfolding distinct_append by blast
subsection \<open>The run on the hardware\<close>

text \<open>The output of PLL2 as its registers set it.\<close>

definition pll_setting :: "(u32 \<Rightarrow> u32) \<Rightarrow> u32" where
  "pll_setting r = pll2r (r (RCC_BASE + RCC_PLL2CFGR1) AND 0x1FF)
     (drop_bit 16 (r (RCC_BASE + RCC_PLL2CFGR1) AND 0x3F0000)) (drop_bit 16 (r (RCC_BASE + RCC_PLL2CFGR2) AND 0x7F0000))"

text \<open>The contract of DdrCtrl, and a controller that reaches the normal mode.\<close>

locale ddr_board = ddr_regs +
  assumes normal_mode: "fst (rd32 h (DDRCTRL_BASE + ctl_stat) d) AND 7 = 1 \<or>
        lag (snd (rd32 h (DDRCTRL_BASE + ctl_stat) d)) < lag d"
begin

lemma set_reg_fold:
  "R (fold (\<lambda>d s. if par_offset d = INVALID_OFFSET then s
        else writel h (param ! (unat (par_offset d) div 4)) (a + ucast (reg_offset d)) s) ds s) =
     program (reg_writes a ds param) (R s)"
  by (induction ds arbitrary: s) (simp_all add: program_def reg_writes_def)

lemma set_reg_R:
  "R (set_reg h priv t param s) =
     program (reg_writes (get_base_addr priv (base (ddr_registers t))) (desc (ddr_registers t)) param) (R s)"
  by (simp add: set_reg_def set_reg_fold)

lemma rcc_not_status [simp]: "RCC_BASE + RCC_DDRITFCR \<notin> ddr_status" "RCC_BASE + RCC_PLL2CFGR1 \<notin> ddr_status"
  "RCC_BASE + RCC_PLL2CFGR2 \<notin> ddr_status" "DDRCTRL_BASE + ctl_init0 \<notin> ddr_status"
  "DDRCTRL_BASE + ctl_pctrl_0 \<notin> ddr_status" "DDRCTRL_BASE + ctl_pctrl_1 \<notin> ddr_status"
  by (simp_all add: ddr_status_def reg_defs)

lemma wait_normal_returns:
  assumes "ddr_ctl priv = DDRCTRL_BASE"
  shows "\<exists>s'. wait_operating_mode h priv DDRCTRL_STAT_OPERATING_MODE_NORMAL s = Some s' \<and> R s' = R s"
proof -
  define c where "c = (\<lambda>stat :: u32. stat AND 7 = 1 \<or> ((7 OR 0x30 :: u32) \<noteq> 0 \<and> stat AND (7 OR 0x30) = 3 OR 0x30))"
  have c: "c (fst (rd32 h (DDRCTRL_BASE + ctl_stat) d)) \<or> lag (snd (rd32 h (DDRCTRL_BASE + ctl_stat) d)) < lag d" for d
    using normal_mode [of d] by (auto simp: c_def)
  obtain v s' where "readl_poll_timeout h (DDRCTRL_BASE + ctl_stat) c 1000000 s = Some (0, v, s')" "R s' = R s"
    using poll_returns [of c "DDRCTRL_BASE + ctl_stat", OF c] by blast
  moreover have "wait_operating_mode h priv DDRCTRL_STAT_OPERATING_MODE_NORMAL s =
      do { (ret, _, s) \<leftarrow> readl_poll_timeout h (DDRCTRL_BASE + ctl_stat) c 1000000 s;
           if ret \<noteq> 0 then None else Some s }"
    by (simp only: wait_operating_mode_def assms Let_def prod.case c_def
        DDRCTRL_STAT_OPERATING_MODE_MASK_def DDRCTRL_STAT_SELFREF_TYPE_MASK_def DDRCTRL_STAT_OPERATING_MODE_SR_def
        DDRCTRL_STAT_OPERATING_MODE_NORMAL_def DDRCTRL_STAT_SELFREF_TYPE_ASR_def)
      (simp add: DDRCTRL_STAT_OPERATING_MODE_NORMAL_def DDRCTRL_STAT_OPERATING_MODE_SR_def)
  ultimately show ?thesis by simp
qed

lemma bits_fold_R:
  "A \<notin> ddr_status \<Longrightarrow> R (fold (setbits_le32 h A) vs s) = (R s)(A := fold (\<lambda>v x. x OR v) vs (R s A))"
  "A \<notin> ddr_status \<Longrightarrow> R (fold (clrbits_le32 h A) vs s) = (R s)(A := fold (\<lambda>v x. x AND NOT v) vs (R s A))"
  by (induction vs arbitrary: s) simp_all

lemma clk_enable_R:
  assumes "clock_delta (pll_setting (R s)) khz = Some d" "d \<le> khz * 100"
  shows "\<exists>s'. stm32mp1_ddr_clk_enable h khz s = Some (0, s') \<and>
    R s' = (R s)(RCC_BASE + RCC_DDRITFCR := R s (RCC_BASE + RCC_DDRITFCR) OR RCC_DDRITFCR_clocks)"
proof -
  let ?A = "RCC_BASE + RCC_DDRITFCR"
  define s1 where "s1 = setbits_le32 h ?A RCC_DDRITFCR_clocks s"
  have ne: "RCC_BASE + RCC_PLL2CFGR1 \<noteq> ?A" "RCC_BASE + RCC_PLL2CFGR2 \<noteq> ?A" by (simp_all add: reg_defs)
  have next_field: "\<exists>t'. read_field h a msk k t = (drop_bit k (R t a AND msk), t') \<and> R t' = R t"
    if "a \<notin> ddr_status" for a msk k and t :: "'a sys"
    using that by (auto simp: read_field_def split_def Let_def)
  obtain s2 where s2: "read_field h (RCC_BASE + RCC_PLL2CFGR1) 0x1FF 0 s1 =
      (drop_bit 0 (R s1 (RCC_BASE + RCC_PLL2CFGR1) AND 0x1FF), s2)" "R s2 = R s1"
    using next_field [OF rcc_not_status(2)] by blast
  obtain s3 where s3: "read_field h (RCC_BASE + RCC_PLL2CFGR1) 0x3F0000 16 s2 =
      (drop_bit 16 (R s2 (RCC_BASE + RCC_PLL2CFGR1) AND 0x3F0000), s3)" "R s3 = R s2"
    using next_field [OF rcc_not_status(2)] by blast
  obtain s4 where s4: "read_field h (RCC_BASE + RCC_PLL2CFGR2) 0x7F0000 16 s3 =
      (drop_bit 16 (R s3 (RCC_BASE + RCC_PLL2CFGR2) AND 0x7F0000), s4)" "R s4 = R s3"
    using next_field [OF rcc_not_status(3)] by blast
  have "pll2r (drop_bit 0 (R s1 (RCC_BASE + RCC_PLL2CFGR1) AND 0x1FF)) (drop_bit 16 (R s2 (RCC_BASE + RCC_PLL2CFGR1) AND 0x3F0000))
      (drop_bit 16 (R s3 (RCC_BASE + RCC_PLL2CFGR2) AND 0x7F0000)) = pll_setting (R s)"
    using ne s2(2) s3(2) by (simp add: pll_setting_def s1_def)
  then have "stm32mp1_ddr_clk_enable h khz s = Some (0, s4)"
    using assms unfolding stm32mp1_ddr_clk_enable_def s1_def [symmetric] s2(1) s3(1) s4(1) Let_def prod.case
    by (simp add: linorder_not_less [symmetric])
  then show ?thesis using s2(2) s3(2) s4(2) by (simp add: s1_def)
qed

end

text \<open>The registers of the initialisation, apart from the tables and from each other.\<close>

lemma init_regs_apart:
  "distinct init_regs" "DDRCTRL_BASE + ctl_dfimisc \<in> set init_regs" "DDRCTRL_BASE + ctl_swctl \<in> set init_regs"
  "DDRCTRL_BASE + ctl_init0 \<in> set init_regs" "DDRCTRL_BASE + ctl_pctrl_0 \<in> set init_regs"
  "DDRCTRL_BASE + ctl_pctrl_1 \<in> set init_regs" "DDRPHYC_BASE + phy_pir \<in> set init_regs"
  "RCC_BASE + RCC_DDRITFCR \<in> set init_regs"
  using table_addrs_distinct by (simp_all add: init_regs_def)

lemma not_tables:
  assumes "a \<in> set init_regs"
  shows "a \<notin> fst ` set (ctl_writes config)" "a \<notin> fst ` set (phy_writes config)"
  using writes_not_init [OF assms, of config] by auto

context ddr_board
begin

lemma ctl_params_R:
  assumes "ddr_ctl priv = DDRCTRL_BASE"
  shows "R (ddr_ctl_params h priv config s) = (program (ctl_writes config) (R s))
     (DDRCTRL_BASE + ctl_dfimisc := R s (DDRCTRL_BASE + ctl_dfimisc) AND NOT 1,
      DDRCTRL_BASE + ctl_init0 := (R s (DDRCTRL_BASE + ctl_init0) AND NOT DDRCTRL_INIT0_SKIP_DRAM_INIT_MASK) OR
         DDRCTRL_INIT0_SKIP_DRAM_INIT_NORMAL)"
proof -
  let ?f = "DDRCTRL_BASE + ctl_dfimisc" and ?i = "DDRCTRL_BASE + ctl_init0"
  let ?x = "R s ?f AND NOT 1"
  let ?u = "reg_writes DDRCTRL_BASE ddr_reg (stm32mp1_ddrctrl_reg_words (c_reg config))"
  let ?v = "reg_writes DDRCTRL_BASE ddr_timing (stm32mp1_ddrctrl_timing_words (c_timing config))"
  let ?w = "reg_writes DDRCTRL_BASE ddr_map (stm32mp1_ddrctrl_map_words (c_map config))"
  let ?p = "reg_writes DDRCTRL_BASE ddr_perf (stm32mp1_ddrctrl_perf_words (c_perf config))"
  define r1 where "r1 = program (?u @ ?v @ ?w) ((R s)(?f := ?x))"
  have n: "a \<notin> fst ` set ?p" "a \<notin> fst ` set (?u @ ?v @ ?w)" if "a \<in> set init_regs" for a
    using not_tables(1) [OF that, of config] by (auto simp: ctl_writes_def)
  note nf = n [OF init_regs_apart(2)] and ni = n [OF init_regs_apart(4)]
  have ne: "?f \<noteq> ?i" by (simp add: reg_defs)
  have "R (ddr_ctl_params h priv config s) =
      program ?p (r1(?i := (r1 ?i AND NOT DDRCTRL_INIT0_SKIP_DRAM_INIT_MASK) OR DDRCTRL_INIT0_SKIP_DRAM_INIT_NORMAL))"
    using assms
    by (simp add: ddr_ctl_params_def Let_def split_def set_reg_R get_base_addr_def r1_def program_append
        DDRCTRL_DFIMISC_DFI_INIT_COMPLETE_EN_def)
  also have "\<dots> = (program ?p r1)(?i := (r1 ?i AND NOT DDRCTRL_INIT0_SKIP_DRAM_INIT_MASK) OR DDRCTRL_INIT0_SKIP_DRAM_INIT_NORMAL)"
    by (rule program_commute [OF ni(1)])
  also have "program ?p r1 = (program (ctl_writes config) (R s))(?f := ?x)"
    using program_commute [OF nf(2)] program_commute [OF nf(1)]
    by (simp add: r1_def ctl_writes_def program_append)
  also have "r1 ?i = R s ?i"
    using program_other [OF ni(2)] ne by (simp add: r1_def)
  finally show ?thesis .
qed

lemma phy_params_R:
  assumes "ddr_phy priv = DDRPHYC_BASE"
  shows "R (ddr_phy_params h priv config s) = program (phy_writes config) (R s)"
  using assms by (simp add: ddr_phy_params_def Let_def set_reg_R get_base_addr_def phy_writes_def program_append program_def)

lemma dram_init_R:
  assumes "ddr_ctl priv = DDRCTRL_BASE" "ddr_phy priv = DDRPHYC_BASE"
  shows "\<exists>s'. ddr_dram_init h priv config s = Some s' \<and> R s' = (R s)
     (DDRPHYC_BASE + phy_pir := ddr_pir config OR DDRPHYC_PIR_INIT,
      DDRCTRL_BASE + ctl_dfimisc := R s (DDRCTRL_BASE + ctl_dfimisc) OR 1,
      DDRCTRL_BASE + ctl_swctl := R s (DDRCTRL_BASE + ctl_swctl) OR 1)"
proof -
  obtain s1 where s1: "ddrphy_idone_wait h DDRPHYC_BASE s = Some s1" "R s1 = R s"
    using idone_wait_returns by blast
  obtain s2 where s2: "stm32mp1_ddrphy_init h DDRPHYC_BASE (ddr_pir config) s1 = Some s2"
    "R s2 = (R s1)(DDRPHYC_BASE + phy_pir := ddr_pir config OR DDRPHYC_PIR_INIT)"
    using ddrphy_init_returns by blast
  define s3 where "s3 = setbits_le32 h (DDRCTRL_BASE + ctl_dfimisc) 1 (start_sw_done h DDRCTRL_BASE s2)"
  obtain s4 where s4: "wait_sw_done_ack h DDRCTRL_BASE s3 = Some s4"
    "R s4 = (R s3)(DDRCTRL_BASE + ctl_swctl := R s3 (DDRCTRL_BASE + ctl_swctl) OR 1)"
    using wait_sw_done_ack_returns by blast
  obtain s5 where s5: "wait_operating_mode h priv DDRCTRL_STAT_OPERATING_MODE_NORMAL s4 = Some s5" "R s5 = R s4"
    using wait_normal_returns [OF assms(1)] by blast
  have sw: "(x AND NOT 1) OR 1 = x OR 1" for x :: u32
    by (rule bit_word_eqI) (auto simp: bit_simps)
  have ne: "DDRCTRL_BASE + ctl_swctl \<noteq> DDRCTRL_BASE + ctl_dfimisc" "DDRCTRL_BASE + ctl_swctl \<noteq> DDRPHYC_BASE + phy_pir"
    "DDRCTRL_BASE + ctl_dfimisc \<noteq> DDRPHYC_BASE + phy_pir"
    by (simp_all add: reg_defs)
  have "R s3 = (R s2)(DDRCTRL_BASE + ctl_swctl := R s2 (DDRCTRL_BASE + ctl_swctl) AND NOT 1,
      DDRCTRL_BASE + ctl_dfimisc := R s2 (DDRCTRL_BASE + ctl_dfimisc) OR 1)"
    using ne(1) by (simp add: s3_def start_sw_done_def DDRCTRL_SWCTL_SW_DONE_def)
  then have "R s5 = (R s)(DDRPHYC_BASE + phy_pir := ddr_pir config OR DDRPHYC_PIR_INIT,
      DDRCTRL_BASE + ctl_dfimisc := R s (DDRCTRL_BASE + ctl_dfimisc) OR 1,
      DDRCTRL_BASE + ctl_swctl := R s (DDRCTRL_BASE + ctl_swctl) OR 1)"
    using s1(2) s2(2) s4(2) s5(2) ne sw by (simp add: fun_eq_iff)
  moreover have "ddr_dram_init h priv config s = Some s5"
    unfolding ddr_dram_init_def assms s1(1) Option.bind.bind_lunit s2(1) Let_def
      DDRCTRL_DFIMISC_DFI_INIT_COMPLETE_EN_def s3_def [symmetric] s4(1) s5(1) ..
  ultimately show ?thesis by blast
qed

end

context ddr_board
begin

text \<open>The training leaves PIR, the two flags and, where the two registers had their parameters
  before it, nothing else changed.\<close>

lemma training_R:
  assumes "ddr_ctl priv = DDRCTRL_BASE" "ddr_phy priv = DDRPHYC_BASE"
    and rf: "R s (DDRCTRL_BASE + ctl_rfshctl3) = rfshctl3 (c_reg config)"
    and pw: "R s (DDRCTRL_BASE + ctl_pwrctl) = pwrctl (c_reg config)"
  shows "\<exists>s'. ddr_training h priv config s = Some s' \<and> R s' = (R s)
     (DDRPHYC_BASE + phy_pir := DDRPHYC_PIR_QSTRN OR DDRPHYC_PIR_INIT,
      DDRCTRL_BASE + ctl_dfimisc := R s (DDRCTRL_BASE + ctl_dfimisc) OR 1,
      DDRCTRL_BASE + ctl_swctl := R s (DDRCTRL_BASE + ctl_swctl) OR 1)"
proof -
  let ?c = "DDRCTRL_BASE" and ?pir = "DDRPHYC_BASE + phy_pir"
  let ?rf = "rfshctl3 (c_reg config)" and ?pw = "pwrctl (c_reg config)"
  obtain s1 where s1: "stm32mp1_refresh_disable h ?c s = Some s1"
    "R s1 = (R s)(?c + ctl_rfshctl3 := R s (?c + ctl_rfshctl3) OR 1,
                  ?c + ctl_pwrctl := R s (?c + ctl_pwrctl) AND NOT (2 OR 1),
                  ?c + ctl_dfimisc := R s (?c + ctl_dfimisc) AND NOT 1,
                  ?c + ctl_swctl := R s (?c + ctl_swctl) OR 1)"
    using refresh_disable_returns by blast
  obtain s2 where s2: "stm32mp1_ddrphy_init h DDRPHYC_BASE DDRPHYC_PIR_QSTRN s1 = Some s2"
    "R s2 = (R s1)(?pir := DDRPHYC_PIR_QSTRN OR DDRPHYC_PIR_INIT)"
    using ddrphy_init_returns by blast
  obtain s3 where s3: "ddrphy_idone_wait h DDRPHYC_BASE s2 = Some s3" "R s3 = R s2"
    using idone_wait_returns by blast
  obtain s4 where s4: "stm32mp1_refresh_restore h ?c ?rf ?pw s3 = Some s4"
    "R s4 = (R s3)(?c + ctl_rfshctl3 :=
                    (if ?rf AND 1 = 0 then R s3 (?c + ctl_rfshctl3) AND NOT 1 else R s3 (?c + ctl_rfshctl3)),
                  ?c + ctl_pwrctl := (R s3 (?c + ctl_pwrctl) OR (?pw AND 2)) OR (?pw AND 1),
                  ?c + ctl_dfimisc := R s3 (?c + ctl_dfimisc) OR 1,
                  ?c + ctl_swctl := R s3 (?c + ctl_swctl) OR 1)"
    using refresh_restore_returns by blast
  have ne: "?c + ctl_swctl \<noteq> ?pir" "?c + ctl_rfshctl3 \<noteq> ?pir" "?c + ctl_pwrctl \<noteq> ?pir" "?c + ctl_dfimisc \<noteq> ?pir"
    "ctl_swctl \<noteq> ctl_rfshctl3" "ctl_swctl \<noteq> ctl_pwrctl" "ctl_swctl \<noteq> ctl_dfimisc"
    "ctl_rfshctl3 \<noteq> ctl_pwrctl" "ctl_rfshctl3 \<noteq> ctl_dfimisc" "ctl_pwrctl \<noteq> ctl_dfimisc"
    by (simp_all add: reg_defs)
  note ne2 = ne ne [symmetric]
  have b: "(x AND NOT 1) OR 1 = x OR 1" "(x OR 1) OR 1 = x OR 1" for x :: u32
    by (rule bit_word_eqI; auto simp: bit_simps)+
  have "R s4 a = ((R s)(?pir := DDRPHYC_PIR_QSTRN OR DDRPHYC_PIR_INIT,
      ?c + ctl_dfimisc := R s (?c + ctl_dfimisc) OR 1, ?c + ctl_swctl := R s (?c + ctl_swctl) OR 1)) a" for a
    using put_back_set [OF single_bits(1), of ?rf] put_back_clear [of ?pw 2 1] ne2 b rf pw
    unfolding s4(2) s3(2) s2(2) s1(2)
    by (simp only: fun_upd_apply add_left_cancel simp_thms if_True if_False split: if_splits) auto
  then have "R s4 = (R s)(?pir := DDRPHYC_PIR_QSTRN OR DDRPHYC_PIR_INIT,
      ?c + ctl_dfimisc := R s (?c + ctl_dfimisc) OR 1, ?c + ctl_swctl := R s (?c + ctl_swctl) OR 1)"
    by (rule ext)
  moreover have "ddr_training h priv config s = Some s4"
    unfolding ddr_training_def assms(1,2) s1(1) Option.bind.bind_lunit s2(1) s3(1) s4(1) ..
  ultimately show ?thesis by blast
qed

end

text \<open>The registers after the initialisation.\<close>

definition all_resets :: u32 where
  "all_resets = RCC_DDRITFCR_DDRCAPBRST OR RCC_DDRITFCR_DDRCAXIRST OR RCC_DDRITFCR_DDRCORERST OR
     RCC_DDRITFCR_DPHYAPBRST OR RCC_DDRITFCR_DPHYRST OR RCC_DDRITFCR_DPHYCTLRST"

definition init_pir :: "stm32mp1_ddr_config \<Rightarrow> u32" where
  "init_pir config = (if p_cal_present config then ddr_pir config else DDRPHYC_PIR_QSTRN) OR DDRPHYC_PIR_INIT"

definition ddr_ready :: "stm32mp1_ddr_config \<Rightarrow> (u32 \<Rightarrow> u32) \<Rightarrow> u32 \<Rightarrow> u32" where
  "ddr_ready config r = (program (ctl_writes config @ phy_writes config) r)
     (DDRCTRL_BASE + ctl_dfimisc := r (DDRCTRL_BASE + ctl_dfimisc) OR 1,
      DDRCTRL_BASE + ctl_swctl := r (DDRCTRL_BASE + ctl_swctl) OR 1,
      DDRCTRL_BASE + ctl_init0 := (r (DDRCTRL_BASE + ctl_init0) AND NOT DDRCTRL_INIT0_SKIP_DRAM_INIT_MASK) OR
        DDRCTRL_INIT0_SKIP_DRAM_INIT_NORMAL,
      DDRCTRL_BASE + ctl_pctrl_0 := r (DDRCTRL_BASE + ctl_pctrl_0) OR 1,
      DDRCTRL_BASE + ctl_pctrl_1 := r (DDRCTRL_BASE + ctl_pctrl_1) OR 1,
      DDRPHYC_BASE + phy_pir := init_pir config,
      RCC_BASE + RCC_DDRITFCR := (r (RCC_BASE + RCC_DDRITFCR) OR RCC_DDRITFCR_clocks) AND NOT all_resets)"

lemma reg_writes_zip:
  assumes "map par_offset ds = map (\<lambda>i. of_nat (4 * i)) [0..<n]" "length param = n" "n \<le> 25"
  shows "reg_writes a ds param = zip (map (\<lambda>d. a + ucast (reg_offset d)) ds) param"
proof -
  have len: "length ds = n" using assms(1) by (metis length_map diff_zero length_upt)
  have po: "par_offset (ds ! i) = of_nat (4 * i)" if "i < n" for i
    using arg_cong [OF assms(1), of "\<lambda>xs. xs ! i"] that len by simp
  have u: "unat (of_nat (4 * i) :: u8) = 4 * i" if "i < n" for i
    using that assms(3) by (simp add: unat_of_nat del: of_nat_mult)
  have "filter (\<lambda>d. par_offset d \<noteq> INVALID_OFFSET) ds = ds"
  proof (rule filter_True, rule ballI)
    fix d assume "d \<in> set ds"
    then obtain i where i: "i < n" "d = ds ! i" using len by (metis in_set_conv_nth)
    then have "unat (par_offset d) = 4 * i" using po u by simp
    then have "unat (par_offset d) \<noteq> unat INVALID_OFFSET" using i assms(3) by (simp add: INVALID_OFFSET_def)
    then show "par_offset d \<noteq> INVALID_OFFSET" by metis
  qed
  then show ?thesis
    unfolding reg_writes_def
    by (intro nth_equalityI) (simp_all add: len assms(2) po u del: of_nat_mult)
qed

lemma tables_in_order:
  "map par_offset ddr_reg = map (\<lambda>i. of_nat (4 * i)) [0..<25]"
  "map par_offset ddr_timing = map (\<lambda>i. of_nat (4 * i)) [0..<12]"
  "map par_offset ddr_map = map (\<lambda>i. of_nat (4 * i)) [0..<9]"
  "map par_offset ddr_perf = map (\<lambda>i. of_nat (4 * i)) [0..<17]"
  "map par_offset ddrphy_reg = map (\<lambda>i. of_nat (4 * i)) [0..<11]"
  "map par_offset ddrphy_timing = map (\<lambda>i. of_nat (4 * i)) [0..<10]"
  "map par_offset ddrphy_cal = map (\<lambda>i. of_nat (4 * i)) [0..<12]"
  unfolding table_offsets by (simp_all add: upt_rec)

lemmas words_defs =
  stm32mp1_ddrctrl_reg_words_def stm32mp1_ddrctrl_timing_words_def stm32mp1_ddrctrl_map_words_def
  stm32mp1_ddrctrl_perf_words_def stm32mp1_ddrphy_reg_words_def stm32mp1_ddrphy_timing_words_def
  stm32mp1_ddrphy_cal_words_def

lemmas reg_writes_tables = tables_in_order [THEN reg_writes_zip]

lemma rfsh_pwr_written:
  "(DDRCTRL_BASE + ctl_rfshctl3, rfshctl3 (c_reg config)) \<in> set (ctl_writes config)"
  "(DDRCTRL_BASE + ctl_pwrctl, pwrctl (c_reg config)) \<in> set (ctl_writes config)"
proof -
  let ?w = "stm32mp1_ddrctrl_reg_words (c_reg config)"
  have "reg_writes DDRCTRL_BASE ddr_reg ?w = zip (map (\<lambda>n. DDRCTRL_BASE + ucast n) (map reg_offset ddr_reg)) ?w"
    using reg_writes_tables(1) [of ?w DDRCTRL_BASE] by (simp add: words_defs comp_def)
  then show "(DDRCTRL_BASE + ctl_rfshctl3, rfshctl3 (c_reg config)) \<in> set (ctl_writes config)"
    "(DDRCTRL_BASE + ctl_pwrctl, pwrctl (c_reg config)) \<in> set (ctl_writes config)"
    unfolding ctl_writes_def set_append table_offsets words_defs by (simp_all add: reg_defs)
qed
lemma init_regs_ne:
  "ctl_dfimisc \<noteq> ctl_swctl" "ctl_dfimisc \<noteq> ctl_init0"
  "ctl_dfimisc \<noteq> ctl_pctrl_0" "ctl_dfimisc \<noteq> ctl_pctrl_1"
  "DDRCTRL_BASE + ctl_dfimisc \<noteq> DDRPHYC_BASE + phy_pir"
  "DDRCTRL_BASE + ctl_dfimisc \<noteq> RCC_BASE + RCC_DDRITFCR" "ctl_swctl \<noteq> ctl_dfimisc"
  "ctl_swctl \<noteq> ctl_init0" "ctl_swctl \<noteq> ctl_pctrl_0" "ctl_swctl \<noteq> ctl_pctrl_1"
  "DDRCTRL_BASE + ctl_swctl \<noteq> DDRPHYC_BASE + phy_pir"
  "DDRCTRL_BASE + ctl_swctl \<noteq> RCC_BASE + RCC_DDRITFCR" "ctl_init0 \<noteq> ctl_dfimisc"
  "ctl_init0 \<noteq> ctl_swctl" "ctl_init0 \<noteq> ctl_pctrl_0" "ctl_init0 \<noteq> ctl_pctrl_1"
  "DDRCTRL_BASE + ctl_init0 \<noteq> DDRPHYC_BASE + phy_pir"
  "DDRCTRL_BASE + ctl_init0 \<noteq> RCC_BASE + RCC_DDRITFCR" "ctl_pctrl_0 \<noteq> ctl_dfimisc"
  "ctl_pctrl_0 \<noteq> ctl_swctl" "ctl_pctrl_0 \<noteq> ctl_init0"
  "ctl_pctrl_0 \<noteq> ctl_pctrl_1" "DDRCTRL_BASE + ctl_pctrl_0 \<noteq> DDRPHYC_BASE + phy_pir"
  "DDRCTRL_BASE + ctl_pctrl_0 \<noteq> RCC_BASE + RCC_DDRITFCR" "ctl_pctrl_1 \<noteq> ctl_dfimisc"
  "ctl_pctrl_1 \<noteq> ctl_swctl" "ctl_pctrl_1 \<noteq> ctl_init0"
  "ctl_pctrl_1 \<noteq> ctl_pctrl_0" "DDRCTRL_BASE + ctl_pctrl_1 \<noteq> DDRPHYC_BASE + phy_pir"
  "DDRCTRL_BASE + ctl_pctrl_1 \<noteq> RCC_BASE + RCC_DDRITFCR"
  "DDRPHYC_BASE + phy_pir \<noteq> DDRCTRL_BASE + ctl_dfimisc"
  "DDRPHYC_BASE + phy_pir \<noteq> DDRCTRL_BASE + ctl_swctl"
  "DDRPHYC_BASE + phy_pir \<noteq> DDRCTRL_BASE + ctl_init0"
  "DDRPHYC_BASE + phy_pir \<noteq> DDRCTRL_BASE + ctl_pctrl_0"
  "DDRPHYC_BASE + phy_pir \<noteq> DDRCTRL_BASE + ctl_pctrl_1"
  "DDRPHYC_BASE + phy_pir \<noteq> RCC_BASE + RCC_DDRITFCR"
  "RCC_BASE + RCC_DDRITFCR \<noteq> DDRCTRL_BASE + ctl_dfimisc"
  "RCC_BASE + RCC_DDRITFCR \<noteq> DDRCTRL_BASE + ctl_swctl"
  "RCC_BASE + RCC_DDRITFCR \<noteq> DDRCTRL_BASE + ctl_init0"
  "RCC_BASE + RCC_DDRITFCR \<noteq> DDRCTRL_BASE + ctl_pctrl_0"
  "RCC_BASE + RCC_DDRITFCR \<noteq> DDRCTRL_BASE + ctl_pctrl_1"
  "RCC_BASE + RCC_DDRITFCR \<noteq> DDRPHYC_BASE + phy_pir"
  by (simp_all add: reg_defs)

lemma program_cong:
  assumes "\<And>b. b \<notin> B \<Longrightarrow> r b = r' b" "\<And>b. b \<in> B \<Longrightarrow> b \<notin> fst ` set ws" "a \<notin> B"
  shows "program ws r a = program ws r' a"
  using assms(1,2)
proof (induction ws arbitrary: r r')
  case Nil
  then show ?case using assms(3) by (simp add: program_def)
next
  case (Cons w ws)
  have "program ws (r(fst w := snd w)) a = program ws (r'(fst w := snd w)) a"
    by (rule Cons.IH) (use Cons.prems in auto)
  then show ?case by (simp add: program_def split_def)
qed

context ddr_board
begin

lemma ddr_init_R:
  assumes priv: "ddr_ctl priv = DDRCTRL_BASE" "ddr_phy priv = DDRPHYC_BASE" "ddr_rcc priv = RCC_BASE"
    and power: "ddr_power config = 0"
    and clock: "clock_delta (pll_setting (R s)) (mem_speed (info config)) = Some d" "d \<le> mem_speed (info config) * 100"
  shows "\<exists>s'. stm32mp1_ddr_init h priv config s = Some s' \<and> R s' = ddr_ready config (R s)"
proof -
  let ?c = "DDRCTRL_BASE" and ?p = "DDRPHYC_BASE" and ?A = "RCC_BASE + RCC_DDRITFCR"
  let ?khz = "mem_speed (info config)"
  define s1 where "s1 = ddr_reset h priv [RCC_DDRITFCR_DDRCAPBRST, RCC_DDRITFCR_DDRCAXIRST, RCC_DDRITFCR_DDRCORERST,
                RCC_DDRITFCR_DPHYAPBRST, RCC_DDRITFCR_DPHYRST, RCC_DDRITFCR_DPHYCTLRST] s"
  have R1: "R s1 = (R s)(?A := R s1 ?A)"
    using priv by (simp add: s1_def ddr_reset_def bits_fold_R del: fold_simps)
  have A1: "R s1 ?A = fold (\<lambda>v x. x OR v) [RCC_DDRITFCR_DDRCAPBRST, RCC_DDRITFCR_DDRCAXIRST, RCC_DDRITFCR_DDRCORERST,
                RCC_DDRITFCR_DPHYAPBRST, RCC_DDRITFCR_DPHYRST, RCC_DDRITFCR_DPHYCTLRST] (R s ?A)"
    using priv by (simp add: s1_def ddr_reset_def bits_fold_R del: fold_simps)
  have ne: "RCC_BASE + RCC_PLL2CFGR1 \<noteq> ?A" "RCC_BASE + RCC_PLL2CFGR2 \<noteq> ?A" by (simp_all add: reg_defs)
  have "pll_setting (R s1) = pll_setting (R s)" using ne by (subst R1) (simp add: pll_setting_def)
  then obtain s2 where s2: "stm32mp1_ddr_clk_enable h ?khz s1 = Some (0, s2)"
    "R s2 = (R s1)(?A := R s1 ?A OR RCC_DDRITFCR_clocks)"
    using clk_enable_R [of s1 ?khz d] clock by auto
  define s3 where "s3 = udelay h 2 (ddr_release h priv [RCC_DDRITFCR_DPHYRST, RCC_DDRITFCR_DPHYCTLRST, RCC_DDRITFCR_DDRCAPBRST] s2)"
  define s4 where "s4 = ddr_ctl_params h priv config s3"
  define s5 where "s5 = ddr_release h priv [RCC_DDRITFCR_DDRCORERST, RCC_DDRITFCR_DDRCAXIRST, RCC_DDRITFCR_DPHYAPBRST] s4"
  define s6 where "s6 = ddr_phy_params h priv config s5"
  obtain s7 where s7: "ddr_dram_init h priv config s6 = Some s7"
    "R s7 = (R s6)(?p + phy_pir := ddr_pir config OR DDRPHYC_PIR_INIT, ?c + ctl_dfimisc := R s6 (?c + ctl_dfimisc) OR 1,
      ?c + ctl_swctl := R s6 (?c + ctl_swctl) OR 1)"
    using dram_init_R [OF priv(1,2)] by blast
  have R3: "R s3 = (R s2)(?A := R s3 ?A)"
    using priv by (simp add: s3_def ddr_release_def bits_fold_R del: fold_simps)
  have A3: "R s3 ?A = fold (\<lambda>v x. x AND NOT v) [RCC_DDRITFCR_DPHYRST, RCC_DDRITFCR_DPHYCTLRST, RCC_DDRITFCR_DDRCAPBRST] (R s2 ?A)"
    using priv by (simp add: s3_def ddr_release_def bits_fold_R del: fold_simps)
  have R5: "R s5 = (R s4)(?A := R s5 ?A)"
    using priv by (simp add: s5_def ddr_release_def bits_fold_R del: fold_simps)
  have A5: "R s5 ?A = fold (\<lambda>v x. x AND NOT v) [RCC_DDRITFCR_DDRCORERST, RCC_DDRITFCR_DDRCAXIRST, RCC_DDRITFCR_DPHYAPBRST] (R s4 ?A)"
    using priv by (simp add: s5_def ddr_release_def bits_fold_R del: fold_simps)
  note R4 = ctl_params_R [OF priv(1), of config s3, folded s4_def]
  note R6 = phy_params_R [OF priv(2), of config s5, folded s6_def]
  note nt = not_tables [OF init_regs_apart(2)] not_tables [OF init_regs_apart(3)] not_tables [OF init_regs_apart(4)]
    not_tables [OF init_regs_apart(5)] not_tables [OF init_regs_apart(6)] not_tables [OF init_regs_apart(7)]
    not_tables [OF init_regs_apart(8)]
  let ?I = "(R s ?A OR RCC_DDRITFCR_clocks) AND NOT all_resets"
  note at = fun_upd_apply init_regs_ne add_left_cancel if_True if_False simp_thms
  have A4: "R s4 ?A = R s3 ?A" unfolding R4 by (simp only: at program_other [OF nt(13)])
  have A: "R s5 ?A = ?I"
    unfolding A5 A4 A3 by (simp add: s2(2) A1 all_resets_def) (rule bit_word_eqI; auto simp: bit_simps)
  have 3: "R s3 a = R s a" if "a \<noteq> ?A" for a
    using that by (subst R3, subst s2(2), subst R1) simp
  have 6: "R s6 a = program (ctl_writes config @ phy_writes config) (R s) a"
    if "a \<notin> {?c + ctl_dfimisc, ?c + ctl_init0, ?A}" for a
  proof -
    let ?B = "{?c + ctl_dfimisc, ?c + ctl_init0, ?A}"
    have B: "b \<notin> fst ` set (ctl_writes config) \<and> b \<notin> fst ` set (phy_writes config)" if "b \<in> ?B" for b
    proof -
      have "b \<in> set init_regs" using that by (auto simp: init_regs_def)
      then show ?thesis using not_tables by blast
    qed
    have 5: "R s5 b = program (ctl_writes config) (R s3) b" if "b \<notin> ?B" for b
      using that by (subst R5, subst R4) simp
    have "R s6 a = program (phy_writes config) (program (ctl_writes config) (R s3)) a"
      unfolding R6 by (rule program_cong [of ?B]) (use 5 that B in blast)+
    also have "program (ctl_writes config) (R s3) b = program (ctl_writes config) (R s) b" if "b \<notin> ?B" for b
      by (rule program_cong [of ?B]) (use 3 that B in blast)+
    then have "program (phy_writes config) (program (ctl_writes config) (R s3)) a =
        program (phy_writes config) (program (ctl_writes config) (R s)) a"
      by (rule program_cong [of ?B]) (use that B in blast)+
    finally show ?thesis by (simp add: program_append)
  qed
  have s6_init: "R s6 b = R s5 b" if "b \<in> set init_regs" for b
    unfolding R6 using not_tables(2) [OF that] by (rule program_other)
  have R6': "R s6 = (program (ctl_writes config @ phy_writes config) (R s))
     (?c + ctl_dfimisc := R s (?c + ctl_dfimisc) AND NOT 1,
      ?c + ctl_init0 := (R s (?c + ctl_init0) AND NOT DDRCTRL_INIT0_SKIP_DRAM_INIT_MASK) OR
         DDRCTRL_INIT0_SKIP_DRAM_INIT_NORMAL, ?A := ?I)" (is "_ = ?R6")
  proof
    fix a
    have "R s6 (?c + ctl_dfimisc) = R s (?c + ctl_dfimisc) AND NOT 1"
      unfolding s6_init [OF init_regs_apart(2)]
      by (subst R5, subst R4) (simp only: at 3 not_False_eq_True)
    moreover have "R s6 (?c + ctl_init0) = (R s (?c + ctl_init0) AND NOT DDRCTRL_INIT0_SKIP_DRAM_INIT_MASK) OR
         DDRCTRL_INIT0_SKIP_DRAM_INIT_NORMAL"
      unfolding s6_init [OF init_regs_apart(4)]
      by (subst R5, subst R4) (simp only: at 3 not_False_eq_True)
    ultimately show "R s6 a = ?R6 a"
      using 6 [of a] A s6_init [OF init_regs_apart(8)] by auto
  qed
  have or1: "(x OR 1) OR 1 = x OR 1" "(x AND NOT 1) OR 1 = x OR 1" for x :: u32
    by (rule bit_word_eqI; auto simp: bit_simps)+
  obtain s8 where s8: "(if p_cal_present config then Some s7 else ddr_training h priv config s7) = Some s8"
    "R s8 = (R s7)(?p + phy_pir := init_pir config, ?c + ctl_dfimisc := R s7 (?c + ctl_dfimisc) OR 1,
        ?c + ctl_swctl := R s7 (?c + ctl_swctl) OR 1)"
  proof (cases "p_cal_present config")
    case True
    have "R s7 = (R s7)(?p + phy_pir := init_pir config, ?c + ctl_dfimisc := R s7 (?c + ctl_dfimisc) OR 1,
        ?c + ctl_swctl := R s7 (?c + ctl_swctl) OR 1)"
      unfolding s7(2) using True by (simp only: at fun_eq_iff init_pir_def or1) auto
    then show ?thesis using True that [of s7] by simp
  next
    case False
    have apart: "?c + ctl_rfshctl3 \<notin> set init_regs" "?c + ctl_pwrctl \<notin> set init_regs"
      by (simp_all add: init_regs_def reg_defs)
    have "R s7 (?c + ctl_rfshctl3) = program (ctl_writes config @ phy_writes config) (R s) (?c + ctl_rfshctl3)"
      "R s7 (?c + ctl_pwrctl) = program (ctl_writes config @ phy_writes config) (R s) (?c + ctl_pwrctl)"
      using apart unfolding s7(2) R6' by (auto simp: init_regs_def)
    then have "R s7 (?c + ctl_rfshctl3) = rfshctl3 (c_reg config)" "R s7 (?c + ctl_pwrctl) = pwrctl (c_reg config)"
      using rfsh_pwr_written [of config] by (simp_all add: program_at [OF writes_distinct])
    from training_R [OF priv(1,2) this] obtain s' where "ddr_training h priv config s7 = Some s'" "R s' = (R s7)
     (?p + phy_pir := DDRPHYC_PIR_QSTRN OR DDRPHYC_PIR_INIT, ?c + ctl_dfimisc := R s7 (?c + ctl_dfimisc) OR 1,
      ?c + ctl_swctl := R s7 (?c + ctl_swctl) OR 1)" by blast
    then show ?thesis using False that [of s'] by (simp add: init_pir_def)
  qed
  define s9 where "s9 = setbits_le32 h (?c + ctl_pctrl_1) DDRCTRL_PCTRL_N_PORT_EN
      (setbits_le32 h (?c + ctl_pctrl_0) DDRCTRL_PCTRL_N_PORT_EN s8)"
  have "R s9 = ddr_ready config (R s)"
  proof
    fix a
    note W = writes_not_init [OF init_regs_apart(3), THEN program_other]
      writes_not_init [OF init_regs_apart(5), THEN program_other] writes_not_init [OF init_regs_apart(6), THEN program_other]
    show "R s9 a = ddr_ready config (R s) a"
      unfolding s9_def ddr_ready_def DDRCTRL_PCTRL_N_PORT_EN_def
      using W or1(2) [of "R s (?c + ctl_dfimisc)"] by (simp add: s8(2) s7(2) R6' init_regs_ne or1(1))
  qed
  moreover have "stm32mp1_ddr_init h priv config s = Some s9"
    unfolding stm32mp1_ddr_init_def power
    by (simp add: ddr_start_def Let_def stm32mp1_ddr_interactive_def s1_def [symmetric] s2(1) s3_def [symmetric]
      s4_def [symmetric] s5_def [symmetric] s6_def [symmetric] s7(1) s8(1) s9_def priv(1))
  ultimately show ?thesis by blast
qed

end

subsection \<open>Initialisation\<close>

lemma ddr_power_known: "ddr_power config = 0 \<longleftrightarrow> mstr (c_reg config) AND 13 \<noteq> 0"
proof -
  have "m AND 13 = 0 \<longleftrightarrow> m AND 1 = 0 \<and> m AND 4 = 0 \<and> m AND 8 = 0" for m :: u32
  proof -
    have "(13 :: u32) = 1 OR (4 OR 8)" by simp
    then show ?thesis by (simp only: bit.conj_disj_distrib or_eq_0_iff)
  qed
  then show ?thesis
    by (simp add: ddr_power_def Let_def board_ddr_power_init_def EINVAL_def DDRCTRL_MSTR_DDR3_def
        DDRCTRL_MSTR_LPDDR2_def DDRCTRL_MSTR_LPDDR3_def del: One_nat_def)
qed

text \<open>The registers of a table hold the words of a parameter struct.\<close>

definition loaded :: "(u32 \<Rightarrow> u32) \<Rightarrow> u32 \<Rightarrow> reg_desc list \<Rightarrow> u32 list \<Rightarrow> bool" where
  "loaded r a ds param \<longleftrightarrow> map (\<lambda>d. r (a + ucast (reg_offset d))) ds = param"

definition clock_ok :: "(u32 \<Rightarrow> u32) \<Rightarrow> u32 \<Rightarrow> bool" where
  "clock_ok r khz = (case clock_delta (pll_setting r) khz of Some d \<Rightarrow> d \<le> khz * 100 | None \<Rightarrow> False)"

lemma loaded_writes:
  assumes "reg_writes a ds param = zip (map (\<lambda>d. a + ucast (reg_offset d)) ds) param" "length ds = length param"
    and "\<And>x v. (x, v) \<in> set (reg_writes a ds param) \<Longrightarrow> r x = v"
  shows "loaded r a ds param"
proof -
  have "r (a + ucast (reg_offset (ds ! i))) = param ! i" if "i < length ds" for i
  proof (rule assms(3))
    show "(a + ucast (reg_offset (ds ! i)), param ! i) \<in> set (reg_writes a ds param)"
      unfolding assms(1) using that assms(2) by (auto simp: in_set_zip intro!: exI [of _ i])
  qed
  then show ?thesis
    unfolding loaded_def using assms(2) by (intro nth_equalityI) simp_all
qed

lemmas table_lengths = tables_in_order [THEN arg_cong [of _ _ length], simplified]

lemma ready_at: "(a, v) \<in> set (ctl_writes config @ phy_writes config) \<Longrightarrow> ddr_ready config r a = v"
proof -
  assume w: "(a, v) \<in> set (ctl_writes config @ phy_writes config)"
  then have "a \<notin> set init_regs" using writes_not_init by force
  then show "ddr_ready config r a = v"
    using program_at [OF writes_distinct w, of r] by (simp add: ddr_ready_def init_regs_def)
qed

lemma ready_other: "a \<notin> set (table_addrs @ init_regs) \<Longrightarrow> ddr_ready config r a = r a"
proof -
  assume a: "a \<notin> set (table_addrs @ init_regs)"
  then have "a \<notin> fst ` set (ctl_writes config @ phy_writes config)"
    by (intro contra_subsetD [OF writes_in_tables]) simp
  then show "ddr_ready config r a = r a"
    using a by (simp add: ddr_ready_def init_regs_def program_other)
qed

lemma ready_loaded:
  "loaded (ddr_ready config r) DDRCTRL_BASE ddr_reg (stm32mp1_ddrctrl_reg_words (c_reg config))"
  "loaded (ddr_ready config r) DDRCTRL_BASE ddr_timing (stm32mp1_ddrctrl_timing_words (c_timing config))"
  "loaded (ddr_ready config r) DDRCTRL_BASE ddr_map (stm32mp1_ddrctrl_map_words (c_map config))"
  "loaded (ddr_ready config r) DDRCTRL_BASE ddr_perf (stm32mp1_ddrctrl_perf_words (c_perf config))"
  "loaded (ddr_ready config r) DDRPHYC_BASE ddrphy_reg (stm32mp1_ddrphy_reg_words (p_reg config))"
  "loaded (ddr_ready config r) DDRPHYC_BASE ddrphy_timing (stm32mp1_ddrphy_timing_words (p_timing config))"
  "p_cal_present config \<Longrightarrow>
     loaded (ddr_ready config r) DDRPHYC_BASE ddrphy_cal (stm32mp1_ddrphy_cal_words (p_cal config))"
  by (rule loaded_writes, rule reg_writes_tables,
      simp_all add: words_defs table_lengths, rule ready_at,
      simp add: ctl_writes_def phy_writes_def words_defs)+

context ddr_board
begin

lemma clk_enable_refuses:
  assumes "\<not> clock_ok (R s) khz"
  shows "stm32mp1_ddr_clk_enable h khz s = None \<or> (\<exists>s'. stm32mp1_ddr_clk_enable h khz s = Some (- EINVAL, s'))"
proof -
  let ?A = "RCC_BASE + RCC_DDRITFCR"
  have "fst (read_field h a m k t) = drop_bit k (R t a AND m)" "R (snd (read_field h a m k t)) = R t"
    if "a \<notin> ddr_status" for a m k and t :: "'a sys"
    using that by (simp_all add: read_field_def split_def Let_def)
  note rf = this [OF rcc_not_status(2)] this [OF rcc_not_status(3)]
  have ne: "RCC_BASE + RCC_PLL2CFGR1 \<noteq> ?A" "RCC_BASE + RCC_PLL2CFGR2 \<noteq> ?A" by (simp_all add: reg_defs)
  show ?thesis
    using assms ne
    by (simp add: stm32mp1_ddr_clk_enable_def Let_def split_def rf clock_ok_def pll_setting_def
        linorder_not_le split: option.splits bind_split)
qed

lemma ddr_init_refuses:
  assumes priv: "ddr_rcc priv = RCC_BASE"
    and "\<not> clock_ok (R s) (mem_speed (info config))"
  shows "stm32mp1_ddr_init h priv config s = None"
proof -
  define s1 where "s1 = ddr_reset h priv [RCC_DDRITFCR_DDRCAPBRST, RCC_DDRITFCR_DDRCAXIRST, RCC_DDRITFCR_DDRCORERST,
                RCC_DDRITFCR_DPHYAPBRST, RCC_DDRITFCR_DPHYRST, RCC_DDRITFCR_DPHYCTLRST] s"
  have "R s1 = (R s)(RCC_BASE + RCC_DDRITFCR := R s1 (RCC_BASE + RCC_DDRITFCR))"
    using priv by (simp add: s1_def ddr_reset_def bits_fold_R del: fold_simps)
  moreover have "RCC_BASE + RCC_PLL2CFGR1 \<noteq> RCC_BASE + RCC_DDRITFCR" "RCC_BASE + RCC_PLL2CFGR2 \<noteq> RCC_BASE + RCC_DDRITFCR"
    by (simp_all add: reg_defs)
  ultimately have "pll_setting (R s1) = pll_setting (R s)" by (metis (no_types, lifting) fun_upd_other pll_setting_def)
  then have "\<not> clock_ok (R s1) (mem_speed (info config))" using assms(2) by (simp add: clock_ok_def)
  from clk_enable_refuses [OF this] have "ddr_start h priv config s = None"
    by (auto simp: ddr_start_def Let_def s1_def [symmetric] EINVAL_def)
  then show ?thesis by (simp add: stm32mp1_ddr_init_def loop.simps [of _ s])
qed

end

lemma clock_okD:
  assumes "clock_ok r khz"
  shows "\<exists>d. clock_delta (pll_setting r) khz = Some d \<and> d \<le> khz * 100"
  using assms by (auto simp: clock_ok_def split: option.splits)

lemma ready_flags:
  "ddr_ready config r (RCC_BASE + RCC_DDRITFCR) AND all_resets = 0"
  "ddr_ready config r (RCC_BASE + RCC_DDRITFCR) AND RCC_DDRITFCR_clocks = RCC_DDRITFCR_clocks"
  "ddr_ready config r (DDRCTRL_BASE + ctl_pctrl_0) AND 1 = 1"
  "ddr_ready config r (DDRCTRL_BASE + ctl_pctrl_1) AND 1 = 1"
  "ddr_ready config r (DDRCTRL_BASE + ctl_init0) AND DDRCTRL_INIT0_SKIP_DRAM_INIT_MASK =
     DDRCTRL_INIT0_SKIP_DRAM_INIT_NORMAL"
  "ddr_ready config r (DDRCTRL_BASE + ctl_dfimisc) AND 1 = 1"
  "ddr_ready config r (DDRCTRL_BASE + ctl_swctl) AND 1 = 1"
proof -
  have b: "(x AND NOT w) AND w = 0" "(x OR y) AND y = y" for w x y :: u32
    by (rule bit_word_eqI; auto simp: bit_simps)+
  have clocks: "all_resets AND RCC_DDRITFCR_clocks = 0"
    by (simp add: all_resets_def RCC_DDRITFCR_clocks_def reg_defs)
  have c: "((x OR c) AND NOT w) AND c = c" if "w AND c = 0" for c w x :: u32
  proof (rule bit_word_eqI)
    fix n
    have "\<not> bit w n \<or> \<not> bit c n" using that by (metis bit_and_iff bit_0_eq bot_apply bot_bool_def)
    then show "bit (((x OR c) AND NOT w) AND c) n = bit c n" if "n < LENGTH(32)" using that by (auto simp: bit_simps)
  qed
  have i: "((x AND NOT w) OR v) AND w = v" if "v AND w = v" for v w x :: u32
    using that by (simp add: bit.conj_disj_distrib2 b(1))
  show "ddr_ready config r (RCC_BASE + RCC_DDRITFCR) AND all_resets = 0"
    "ddr_ready config r (RCC_BASE + RCC_DDRITFCR) AND RCC_DDRITFCR_clocks = RCC_DDRITFCR_clocks"
    using b(1) c [OF clocks] by (simp_all only: ddr_ready_def fun_upd_same)
  show "ddr_ready config r (DDRCTRL_BASE + ctl_pctrl_0) AND 1 = 1"
    "ddr_ready config r (DDRCTRL_BASE + ctl_pctrl_1) AND 1 = 1"
    "ddr_ready config r (DDRCTRL_BASE + ctl_init0) AND DDRCTRL_INIT0_SKIP_DRAM_INIT_MASK =
       DDRCTRL_INIT0_SKIP_DRAM_INIT_NORMAL"
    "ddr_ready config r (DDRCTRL_BASE + ctl_dfimisc) AND 1 = 1"
    "ddr_ready config r (DDRCTRL_BASE + ctl_swctl) AND 1 = 1"
    using b(2) i [of DDRCTRL_INIT0_SKIP_DRAM_INIT_NORMAL DDRCTRL_INIT0_SKIP_DRAM_INIT_MASK]
    by (simp_all only: ddr_ready_def fun_upd_apply init_regs_ne add_left_cancel if_False if_True simp_thms)
      (simp_all add: DDRCTRL_INIT0_SKIP_DRAM_INIT_NORMAL_def DDRCTRL_INIT0_SKIP_DRAM_INIT_MASK_def)
qed

subsection \<open>The size of the RAM\<close>

lemma ram_addr: "cnt \<le> 0x0FFFFFFF \<Longrightarrow> 0xC0000000 \<le> (0xC0000000 :: u32) + 4 * cnt"
proof -
  assume "cnt \<le> 0x0FFFFFFF"
  then have c: "unat cnt \<le> 0x0FFFFFFF" by (simp add: word_le_nat_alt)
  then have "unat (4 * cnt) = 4 * unat cnt" by (simp add: unat_word_ariths)
  then have "unat ((0xC0000000 :: u32) + 4 * cnt) = 0xC0000000 + 4 * unat cnt"
    using c by (simp add: unat_word_ariths)
  then show ?thesis by (simp add: word_le_nat_alt)
qed

context ddr_regs
begin

text \<open>Sizing the RAM writes to the RAM only.\<close>

lemma save_loop_R:
  "cnt \<le> 0x0FFFFFFF \<Longrightarrow> a < 0xC0000000 \<Longrightarrow> R (snd (save_loop h 0xC0000000 cnt save s)) a = R s a"
proof (induction cnt arbitrary: save s rule: measure_induct_rule [of unat])
  case (less cnt)
  show ?case
  proof (cases "0 <s cnt")
    case True
    then have "unat (drop_bit 1 cnt) < unat cnt" by (auto dest: unat_shr1_dec)
    moreover from this have "drop_bit 1 cnt \<le> 0x0FFFFFFF" using less.prems(1) by (simp add: word_le_nat_alt)
    moreover have "a \<noteq> 0xC0000000 + 4 * cnt" using ram_addr [OF less.prems(1)] less.prems(2) by auto
    ultimately show ?thesis
      using True less.IH less.prems(2) by (subst save_loop.simps) (simp add: Let_def split_def)
  next
    case False
    then show ?thesis by (subst save_loop.simps) simp
  qed
qed

lemma restore_loop_R:
  assumes "n \<le> 0x0FFFFFFF" "a < 0xC0000000"
  shows "restore_loop h 0xC0000000 n cnt save s = Some s' \<Longrightarrow> R s' a = R s a"
proof (induction save arbitrary: cnt s)
  case (Cons v save)
  have "cnt < n \<Longrightarrow> a \<noteq> 0xC0000000 + 4 * cnt" using ram_addr [of cnt] assms by fastforce
  then show ?case using Cons by (auto split: if_splits)
qed (auto split: if_splits)

lemma check_loop_R:
  assumes "n \<le> 0x0FFFFFFF" "a < 0xC0000000"
  shows "check_loop h 0xC0000000 n cnt save s = Some (r, s') \<Longrightarrow> R s' a = R s a"
proof (induction save arbitrary: cnt s)
  case (Cons v save)
  have "cnt < n \<Longrightarrow> a \<noteq> 0xC0000000 + 4 * cnt" using ram_addr [of cnt] assms by fastforce
  then show ?case
    using Cons restore_loop_R [OF assms]
    by (fastforce simp: Let_def split_def split: if_splits bind_splits)
qed (auto split: if_splits)

lemma get_ram_size_R:
  assumes "get_ram_size h 0xC0000000 0x20000000 s = Some (n, s')" "a < 0xC0000000"
  shows "R s' a = R s a"
proof -
  have b: "a \<noteq> 0xC0000000" using assms(2) by auto
  obtain save s1 where s1: "save_loop h 0xC0000000 0x4000000 [] s = (save, s1)" by fastforce
  have R1: "R s1 a = R s a" using save_loop_R [of "0x4000000" a "[]" s] s1 assms(2) by simp
  have d: "(0x20000000 :: u32) div 4 = 0x8000000" "drop_bit 1 (0x8000000 :: u32) = 0x4000000" by simp_all
  show ?thesis
    using assms(1) b R1 restore_loop_R [of "0x8000000" a] check_loop_R [of "0x8000000" a] assms(2)
    unfolding get_ram_size_def d Let_def s1 prod.case split_def fst_conv snd_conv
    by (fastforce split: if_splits bind_splits option.splits)
qed

end

subsection \<open>A board\<close>

text \<open>Registers, and a RAM of \<open>2 ^ k\<close> words in the window from \<open>0xC0000000\<close> on. The status
  registers answer at once.\<close>

definition board_decode :: "nat \<Rightarrow> u32 \<Rightarrow> u32" where
  "board_decode k a = wrap_decode 0xC0000000 k a"

definition setup_board :: "nat \<Rightarrow> ((u32 \<Rightarrow> u32) \<times> (u32 \<Rightarrow> u32)) platform" where
  "setup_board k =
     \<lparr>rd32 = \<lambda>a d. (if 0xC0000000 \<le> a then snd d (board_decode k a)
                    else if a \<in> ddr_status then 1 else fst d a, d),
      wr32 = \<lambda>v a d. ((fst d)(a := v), if 0xC0000000 \<le> a then (snd d)(board_decode k a := v) else snd d),
      rd8 = \<lambda>a d. (0, d), wr8 = \<lambda>v a d. d,
      ctrlc_key = \<lambda>d. (False, d), elapse = \<lambda>_ d. d\<rparr>"

interpretation kit: ddr_board "setup_board k" fst "\<lambda>_. 0" for k
proof
  fix d :: "(u32 \<Rightarrow> u32) \<times> (u32 \<Rightarrow> u32)"
  have ne: "\<not> 0xC0000000 \<le> DDRPHYC_BASE + phy_pgsr" "\<not> 0xC0000000 \<le> DDRPHYC_BASE + phy_bistgsr"
    "\<not> 0xC0000000 \<le> DDRCTRL_BASE + ctl_swstat" "\<not> 0xC0000000 \<le> DDRCTRL_BASE + ctl_stat"
    by (simp_all add: reg_defs)
  show "fst (rd32 (setup_board k) (DDRPHYC_BASE + phy_pgsr) d) AND 1 \<noteq> 0 \<or> (0 :: nat) < 0"
    "fst (rd32 (setup_board k) (DDRPHYC_BASE + phy_bistgsr) d) AND 1 \<noteq> 0 \<or> (0 :: nat) < 0"
    "fst (rd32 (setup_board k) (DDRCTRL_BASE + ctl_swstat) d) AND 1 \<noteq> 0 \<or> (0 :: nat) < 0"
    "fst (rd32 (setup_board k) (DDRCTRL_BASE + ctl_stat) d) AND 7 = 1 \<or> (0 :: nat) < 0"
    using ne by (simp_all add: setup_board_def ddr_status_def)
qed (auto simp: setup_board_def dest: plain_not_ram)

lemma window_in_ram: "i < 2 ^ 27 \<Longrightarrow> 0xC0000000 \<le> (0xC0000000 :: u32) + 4 * of_nat i"
  by (rule ram_addr) (simp add: word_le_nat_alt unat_of_nat)

interpretation kit_ram: wrapped_dram "setup_board (min k 27)" snd "board_decode (min k 27)"
  "{a. 0xC0000000 \<le> a}" "0xC0000000" "min k 27" 27 for k
proof unfold_locales
  fix i :: nat
  assume "i < 2 ^ 27"
  then show "0xC0000000 + 4 * of_nat i \<in> {a :: u32. 0xC0000000 \<le> a}" by (simp add: window_in_ram)
  show "board_decode (min k 27) (0xC0000000 + 4 * of_nat i) = 0xC0000000 + 4 * of_nat (i mod 2 ^ min k 27)"
    unfolding board_decode_def by (rule wrap_decode_word)
qed (simp_all add: setup_board_def sound_cell_def)

text \<open>The state after reset with PLL2 at 528 MHz, and the addresses of the board.\<close>

definition pll_state :: "((u32 \<Rightarrow> u32) \<times> (u32 \<Rightarrow> u32)) sys" where
  "pll_state = \<lparr>dev = ((\<lambda>_. 0)(RCC_BASE + RCC_PLL2CFGR1 := 0x20041), \<lambda>_. 0), rand_y = 1, bist_error_max = 1,
     bist_seed = 0, result_msg = None\<rparr>"

lemma pll_state_clock: "clock_ok (fst (dev pll_state)) DDR_MEM_SPEED"
  and clock_slow: "\<not> clock_ok (fst (dev pll_state)) 400000"
proof -
  have "RCC_BASE + RCC_PLL2CFGR2 \<noteq> RCC_BASE + RCC_PLL2CFGR1" by (simp add: reg_defs)
  then have "pll_setting (fst (dev pll_state)) = 528000000"
    by (simp add: pll_state_def pll_setting_def pll2r_def)
  then show "clock_ok (fst (dev pll_state)) DDR_MEM_SPEED" "\<not> clock_ok (fst (dev pll_state)) 400000"
    by (simp_all add: clock_ok_def clock_delta_def DDR_MEM_SPEED_def)
qed

definition priv_board :: ddr_info where
  "priv_board = \<lparr>ram_base = 0xC0000000, ram_size = 0, ddr_ctl = DDRCTRL_BASE, ddr_phy = DDRPHYC_BASE, ddr_rcc = RCC_BASE\<rparr>"

lemma priv_board_addrs:
  "ddr_ctl priv_board = DDRCTRL_BASE" "ddr_phy priv_board = DDRPHYC_BASE" "ddr_rcc priv_board = RCC_BASE"
  by (simp_all add: priv_board_def)

lemma board_config:
  "mem_speed (info (stm32mp1_ddr_get_config config)) = DDR_MEM_SPEED"
  "mem_size (info (stm32mp1_ddr_get_config config)) = 0x20000000"
  "mstr (c_reg (stm32mp1_ddr_get_config config)) = 0x00041401"
  "stm32mp1_ddrctrl_map_words (c_map (stm32mp1_ddr_get_config config)) =
     [0x00070707, 0, 0x1F000000, 0x00001F1F, 0x06060606, 0x0F060606, 0, 0, 0]"
  by (simp_all add: stm32mp1_ddr_get_config_def DDR_MEM_SIZE_def stm32mp1_ddrctrl_map_words_def)

subsection \<open>Results\<close>

text \<open>C6. \<open>stm32mp1_ddr_init\<close> on a controller and PHY that answer: with a memory type in MSTR and
  the PLL within 10 % of the speed asked for it returns, and then every register of the tables
  holds its parameter (the training has put back RFSHCTL3 and PWRCTL), all six resets are
  released, both ports are enabled, the initialisation by the controller is skipped, the DFI
  signal is on, the programming mode is left, and no other register has changed.\<close>

theorem ddr_init_programs:
  assumes "ddr_board h regs lag"
    and "ddr_ctl priv = DDRCTRL_BASE" "ddr_phy priv = DDRPHYC_BASE" "ddr_rcc priv = RCC_BASE"
    and "mstr (c_reg config) AND 13 \<noteq> 0" and "clock_ok (regs (dev s)) (mem_speed (info config))"
  shows "\<exists>s'. stm32mp1_ddr_init h priv config s = Some s' \<and>
    (let r = regs (dev s')
     in loaded r DDRCTRL_BASE ddr_reg (stm32mp1_ddrctrl_reg_words (c_reg config)) \<and>
        loaded r DDRCTRL_BASE ddr_timing (stm32mp1_ddrctrl_timing_words (c_timing config)) \<and>
        loaded r DDRCTRL_BASE ddr_map (stm32mp1_ddrctrl_map_words (c_map config)) \<and>
        loaded r DDRCTRL_BASE ddr_perf (stm32mp1_ddrctrl_perf_words (c_perf config)) \<and>
        loaded r DDRPHYC_BASE ddrphy_reg (stm32mp1_ddrphy_reg_words (p_reg config)) \<and>
        loaded r DDRPHYC_BASE ddrphy_timing (stm32mp1_ddrphy_timing_words (p_timing config)) \<and>
        (p_cal_present config \<longrightarrow>
           loaded r DDRPHYC_BASE ddrphy_cal (stm32mp1_ddrphy_cal_words (p_cal config))) \<and>
        r (RCC_BASE + RCC_DDRITFCR) AND all_resets = 0 \<and>
        r (RCC_BASE + RCC_DDRITFCR) AND RCC_DDRITFCR_clocks = RCC_DDRITFCR_clocks \<and>
        r (DDRCTRL_BASE + ctl_pctrl_0) AND 1 = 1 \<and> r (DDRCTRL_BASE + ctl_pctrl_1) AND 1 = 1 \<and>
        r (DDRCTRL_BASE + ctl_init0) AND DDRCTRL_INIT0_SKIP_DRAM_INIT_MASK = DDRCTRL_INIT0_SKIP_DRAM_INIT_NORMAL \<and>
        r (DDRCTRL_BASE + ctl_dfimisc) AND 1 = 1 \<and> r (DDRCTRL_BASE + ctl_swctl) AND 1 = 1 \<and>
        (\<forall>a. a \<notin> set (table_addrs @ init_regs) \<longrightarrow> r a = regs (dev s) a))"
proof -
  note R = ddr_regs.R_def [OF ddr_board.axioms(1) [OF assms(1)]]
  obtain d where d: "clock_delta (pll_setting (regs (dev s))) (mem_speed (info config)) = Some d"
    "d \<le> mem_speed (info config) * 100"
    using clock_okD [OF assms(6)] by blast
  obtain s' where s': "stm32mp1_ddr_init h priv config s = Some s'"
    "regs (dev s') = ddr_ready config (regs (dev s))"
    using ddr_board.ddr_init_R [OF assms(1-4), where config = config and s = s and d = d, unfolded R] d assms(5)
    by (auto simp: ddr_power_known)
  show ?thesis
    unfolding s'(1) option.inject ex_simps simp_thms Let_def s'(2)
    by (intro exI [of _ s'] conjI refl impI ready_loaded ready_flags allI ready_other)
       (simp_all add: s'(2) ready_loaded ready_flags ready_other)
qed

theorem ddr_init_programs_witness:
  "\<forall>config. \<exists>s'. stm32mp1_ddr_init (setup_board 27) priv_board (stm32mp1_ddr_get_config config) pll_state = Some s' \<and>
     loaded (fst (dev s')) DDRCTRL_BASE ddr_map [0x00070707, 0, 0x1F000000, 0x00001F1F, 0x06060606, 0x0F060606, 0, 0, 0]"
  using ddr_init_programs [OF kit.ddr_board_axioms priv_board_addrs, of "stm32mp1_ddr_get_config _" pll_state]
    pll_state_clock
  by (simp add: board_config Let_def) blast



lemma pll2r_unat:
  assumes "unat n < 178" "unat m < 64" "unat r < 128"
  shows "unat (pll2r n m r) = 24000000 * (unat n + 1) div ((unat m + 1) * (unat r + 1))"
proof -
  have m: "unat m + 1 \<le> 64" and r: "unat r + 1 \<le> 128" using assms by simp_all
  have "(unat m + 1) * (unat r + 1) \<le> 64 * 128" by (rule mult_le_mono [OF m r])
  then have "unat ((m + 1) * (r + 1)) = (unat m + 1) * (unat r + 1)"
    using assms by (simp add: unat_word_ariths unat_plus_simple)
  moreover have "unat (24000000 * (n + 1)) = 24000000 * (unat n + 1)"
    using assms(1) by (simp add: unat_word_ariths)
  ultimately show ?thesis by (simp add: pll2r_def unat_div)
qed

lemma clock_window:
  "(\<exists>d. clock_delta clk DDR_MEM_SPEED = Some d \<and> d \<le> DDR_MEM_SPEED * 100) \<longleftrightarrow>
     479700000 \<le> unat clk \<and> unat clk \<le> 586300000"
proof (cases "0 \<le> sint clk")
  case True
  have less: "sint clk < 2 ^ 31" using sint_lt [of clk] by simp
  have "take_bit 32 (sint clk) = sint clk" using True less by (intro take_bit_int_eq_self) simp_all
  then have s: "sint clk = int (unat clk)" using uint_sint [of clk] by (simp del: take_bit_numeral_1)
  have w: "sint DDR_MEM_SPEED * 1000 = 533000000" by (simp add: DDR_MEM_SPEED_def)
  let ?d = "int (unat clk) - 533000000"
  have p: "(2 :: int) ^ 31 = 2147483648" by simp
  have d: "\<bar>?d\<bar> < 2 ^ 31" using less unfolding s p by arith
  then have "clock_delta clk DDR_MEM_SPEED = Some (word_of_int \<bar>?d\<bar>)"
    by (simp add: clock_delta_def Let_def s w)
  moreover have "uint (word_of_int \<bar>?d\<bar> :: u32) = \<bar>?d\<bar>" using d by (simp add: uint_word_of_int)
  then have "(word_of_int \<bar>?d\<bar> :: u32) \<le> DDR_MEM_SPEED * 100 \<longleftrightarrow> \<bar>?d\<bar> \<le> 53300000"
    by (simp add: word_le_def DDR_MEM_SPEED_def)
  moreover have "\<bar>?d\<bar> \<le> 53300000 \<longleftrightarrow> 479700000 \<le> unat clk \<and> unat clk \<le> 586300000" by arith
  ultimately show ?thesis by (simp del: of_nat_unat)
next
  case False
  then have big: "\<not> clk < 0x80000000" using sint_small [of clk] by auto
  have w: "sint DDR_MEM_SPEED * 1000 = 533000000" by (simp add: DDR_MEM_SPEED_def)
  let ?d = "\<bar>sint clk - 533000000\<bar>"
  have "\<not> (word_of_int ?d :: u32) \<le> DDR_MEM_SPEED * 100" if "?d < 2 ^ 31"
  proof -
    have "uint (word_of_int ?d :: u32) = ?d" using that by (simp add: uint_word_of_int)
    then show ?thesis using False by (simp add: word_le_def DDR_MEM_SPEED_def)
  qed
  then show ?thesis using big by (auto simp: clock_delta_def Let_def w word_less_nat_alt split: if_splits)
qed

text \<open>The check of the DDR clock: while the multiplication by 24 MHz stays in 32 bits, it
  accepts exactly the PLL settings whose frequency is within 10 % of 533 MHz.\<close>

theorem ddr_clock_accepted:
  assumes "unat n < 178" "unat m < 64" "unat r < 128"
  shows "(\<exists>d. clock_delta (pll2r n m r) DDR_MEM_SPEED = Some d \<and> d \<le> DDR_MEM_SPEED * 100) \<longleftrightarrow>
    (let f = 24000000 * (unat n + 1) div ((unat m + 1) * (unat r + 1))
     in 479700000 \<le> f \<and> f \<le> 586300000)"
  by (simp only: clock_window pll2r_unat [OF assms] Let_def)

theorem ddr_clock_accepted_witness:
  "(\<exists>d. clock_delta (pll2r 65 2 0) DDR_MEM_SPEED = Some d \<and> d \<le> DDR_MEM_SPEED * 100) \<and>
   \<not> (\<exists>d. clock_delta (pll2r 65 3 0) DDR_MEM_SPEED = Some d \<and> d \<le> DDR_MEM_SPEED * 100)"
  by (simp add: ddr_clock_accepted)

lemma ready_apart:
  "a \<noteq> RCC_BASE + RCC_DDRITFCR \<Longrightarrow>
     ddr_ready config (r(RCC_BASE + RCC_DDRITFCR := x)) a = ddr_ready config r a"
  by (simp add: ddr_ready_def program_commute [OF writes_not_init [OF init_regs_apart(8)]] init_regs_ne)

context ddr_board
begin

lemma ddr_setup_R:
  assumes clock: "clock_ok (R s) DDR_MEM_SPEED"
    and size: "\<And>s. \<exists>s'. get_ram_size h 0xC0000000 0x20000000 s = Some (n, s')"
  shows "\<exists>s'. stm32mp1_ddr_setup h priv0 config0 s = Some (if n = 0x20000000 then 0 else - EINVAL, s') \<and>
    (\<forall>a < 0xC0000000. a \<noteq> RCC_BASE + RCC_DDRITFCR \<longrightarrow>
       R s' a = ddr_ready ((stm32mp1_ddr_get_config config0)\<lparr>p_cal_present := False\<rparr>) (R s) a) \<and>
    R s' (RCC_BASE + RCC_DDRITFCR) AND (all_resets OR RCC_DDRITFCR_AXIDCGEN) = RCC_DDRITFCR_AXIDCGEN"
proof -
  let ?A = "RCC_BASE + RCC_DDRITFCR"
  define priv where "priv = priv0\<lparr>ddr_ctl := DDRCTRL_BASE, ddr_phy := DDRPHYC_BASE, ddr_rcc := RCC_BASE,
            ram_base := 0xC0000000, ram_size := 0\<rparr>"
  define config where "config = (stm32mp1_ddr_get_config config0)\<lparr>p_cal_present := False\<rparr>"
  define s1 where "s1 = clrbits_le32 h ?A RCC_DDRITFCR_AXIDCGEN
     (writel h ((fst (readl h ?A s) AND NOT RCC_DDRITFCR_DDRCKMOD_Msk) OR 0) ?A (snd (readl h ?A s)))"
  have p: "ddr_ctl priv = DDRCTRL_BASE" "ddr_phy priv = DDRPHYC_BASE" "ddr_rcc priv = RCC_BASE"
    "ram_base priv = 0xC0000000" by (simp_all add: priv_def)
  have c: "mem_speed (info config) = DDR_MEM_SPEED" "mem_size (info config) = 0x20000000"
    "mstr (c_reg config) = 0x00041401"
    by (simp_all add: config_def board_config)
  have ne: "RCC_BASE + RCC_PLL2CFGR1 \<noteq> ?A" "RCC_BASE + RCC_PLL2CFGR2 \<noteq> ?A" by (simp_all add: reg_defs)
  obtain x where R1: "R s1 = (R s)(?A := x)" by (simp add: s1_def)
  then have "pll_setting (R s1) = pll_setting (R s)" using ne by (simp add: pll_setting_def)
  then obtain d where d: "clock_delta (pll_setting (R s1)) (mem_speed (info config)) = Some d"
    "d \<le> mem_speed (info config) * 100" using clock_okD [OF clock] c(1) by auto
  have "ddr_power config = 0" by (simp add: ddr_power_known c(3))
  then obtain s2 where s2: "stm32mp1_ddr_init h priv config s1 = Some s2" "R s2 = ddr_ready config (R s1)"
    using ddr_init_R [OF p(1-3) _ d] by blast
  define s3 where "s3 = setbits_le32 h ?A RCC_DDRITFCR_AXIDCGEN s2"
  obtain s4 where s4: "get_ram_size h 0xC0000000 0x20000000 s3 = Some (n, s4)" using size by blast
  have A: "?A < 0xC0000000" by (simp add: reg_defs)
  have R4: "R s4 a = R s3 a" if "a < 0xC0000000" for a
    using get_ram_size_R [OF s4 that] .
  have "stm32mp1_ddr_setup h priv0 config0 s = Some (if n = 0x20000000 then 0 else - EINVAL, s4)"
    using s2(1) s4 p(4) c(2)
    by (simp add: stm32mp1_ddr_setup_def Let_def split_def priv_def [symmetric] config_def [symmetric]
        s1_def [symmetric, simplified] s3_def [symmetric] DDR_MEM_SIZE_def)
  moreover have "R s4 a = ddr_ready config (R s) a" if "a < 0xC0000000" "a \<noteq> ?A" for a
    using that by (simp add: R4 s3_def s2(2) R1 ready_apart)
  moreover have "R s4 ?A AND (all_resets OR RCC_DDRITFCR_AXIDCGEN) = RCC_DDRITFCR_AXIDCGEN"
  proof -
    have "(y OR g) AND (w OR g) = g" if "y AND w = 0" for y w g :: u32
      using that by (simp flip: bit.disj_conj_distrib2)
    from this [OF ready_flags(1), of config "R s1"] show ?thesis
      by (simp add: R4 [OF A] s3_def s2(2))
  qed
  ultimately show ?thesis unfolding config_def by blast
qed

end

lemma ram_sizes: "list_all (\<lambda>k. (2 :: u32) ^ (k + 2) = 0x20000000 \<longleftrightarrow> k = 27) [0..<28]"
  by code_simp

lemma ddr_setup_runs:
  assumes "ddr_board h regs lag" "wrapped_dram h mem decode region 0xC0000000 k 27"
    and "clock_ok (regs (dev s)) DDR_MEM_SPEED"
  shows "\<exists>s'. stm32mp1_ddr_setup h priv0 config0 s = Some (if k = 27 then 0 else - EINVAL, s') \<and>
    (let config = (stm32mp1_ddr_get_config config0)\<lparr>p_cal_present := False\<rparr>
     in \<forall>a < 0xC0000000. a \<noteq> RCC_BASE + RCC_DDRITFCR \<longrightarrow> regs (dev s') a = ddr_ready config (regs (dev s)) a) \<and>
    regs (dev s') (RCC_BASE + RCC_DDRITFCR) AND (all_resets OR RCC_DDRITFCR_AXIDCGEN) = RCC_DDRITFCR_AXIDCGEN"
proof -
  note R = ddr_regs.R_def [OF ddr_board.axioms(1) [OF assms(1)]]
  have "k \<le> 27" using assms(2) by (rule wrapped_dram.k_le)
  then have k: "(2 :: u32) ^ (k + 2) = 0x20000000 \<longleftrightarrow> k = 27"
    using ram_sizes by (simp add: list_all_iff)
  have "\<exists>s'. get_ram_size h 0xC0000000 0x20000000 s = Some (2 ^ (k + 2), s')" for s
    using wrapped_dram.get_ram_size_spec [OF assms(2), of s] by auto
  from ddr_board.ddr_setup_R [OF assms(1), unfolded R, OF assms(3) this] show ?thesis
    unfolding k Let_def .
qed

text \<open>C4. \<open>stm32mp1_ddr_setup\<close> of the board: with the PLL in range, a controller that answers and
  a RAM of \<open>2 ^ k\<close> words in its window, it returns, with 0 exactly when the RAM has its
  512 MB and \<open>- EINVAL\<close> when it is smaller, with the registers as \<open>stm32mp1_ddr_init\<close> leaves
  them for the board's parameters, clock gating switched on again, and the RAM's contents
  as they were after the initialisation.\<close>

theorem ddr_setup_checks_size:
  assumes "ddr_board h regs lag" "wrapped_dram h mem decode region 0xC0000000 k 27"
    and "clock_ok (regs (dev s)) DDR_MEM_SPEED"
  shows "\<exists>s'. stm32mp1_ddr_setup h priv0 config0 s = Some (if k = 27 then 0 else - EINVAL, s') \<and>
    (let config = (stm32mp1_ddr_get_config config0)\<lparr>p_cal_present := False\<rparr>
     in \<forall>a < 0xC0000000. a \<noteq> RCC_BASE + RCC_DDRITFCR \<longrightarrow> regs (dev s') a = ddr_ready config (regs (dev s)) a) \<and>
    regs (dev s') (RCC_BASE + RCC_DDRITFCR) AND (all_resets OR RCC_DDRITFCR_AXIDCGEN) = RCC_DDRITFCR_AXIDCGEN"
  by (rule ddr_setup_runs [OF assms])

theorem ddr_setup_checks_size_witness:
  "\<forall>priv0 config0. (\<exists>s'. stm32mp1_ddr_setup (setup_board 27) priv0 config0 pll_state = Some (0, s')) \<and>
     (\<exists>s'. stm32mp1_ddr_setup (setup_board 26) priv0 config0 pll_state = Some (- EINVAL, s'))"
  using ddr_setup_checks_size [OF kit.ddr_board_axioms kit_ram.wrapped_dram_axioms [of 27, simplified] pll_state_clock]
    ddr_setup_checks_size [OF kit.ddr_board_axioms kit_ram.wrapped_dram_axioms [of 26, simplified] pll_state_clock]
  by (simp add: ex_simps) blast

end
