(* ===== verification/Clocks.thy ===== *)
theory Clocks
  imports Rcc DdrInitRun
begin

text \<open>
  The core clocks (bootloaders/mp1-boot/clocks.hh). The waits are endless polls: \<open>None\<close> when
  the hardware never answers. The number the function returns (a computation in \<open>float\<close>) is
  not modelled.

  \<open>rcc\<close> is the contract of the clock controller: registers read back what was written, but
  for the ready bits, which follow the request after some reads. \<open>V\<close> is the register file
  with the ready bits masked out; on it every step is exact.
\<close>

subsection \<open>The code\<close>

definition wait_for :: "'d platform \<Rightarrow> reg_bits \<Rightarrow> bool \<Rightarrow> 'd sys \<Rightarrow> 'd sys option" where
  "wait_for h r b s =
     loop (\<lambda>s. let (v, s) = RO_read h r s in Some (if (v \<noteq> 0) = b then Inl s else Inr s)) s"

definition init_hse :: "'d platform \<Rightarrow> 'd sys \<Rightarrow> 'd sys option" where
  "init_hse h s =
     do { s \<leftarrow> wait_for h HSEClockReady False (dual_clear h OscEnableHSEON s);
          let s = dual_clear h OscEnableDIGBYP s;
          let s = dual_set h OscEnableHSEBYP s;
          let s = dual_set h OscEnableHSEON s;
          wait_for h HSEClockReady True s }"

definition init_pll1 :: "'d platform \<Rightarrow> u32 \<Rightarrow> 'd sys \<Rightarrow> 'd sys option" where
  "init_pll1 h pll1n s =
     (let s = RW_clear h PLL1_DIVPEnable s; s = RW_clear h PLL1_DIVQEnable s; s = RW_clear h PLL1_DIVREnable s;
          s = RW_clear h PLL1_Enable s
      in do { s \<leftarrow> wait_for h PLL1_Ready False s;
              let s = RW_write h PLL12Source PLL12SourceHSE s;
              s \<leftarrow> wait_for h PLL12SourceReady True s;
              let s = RW_write h PLL1_DIVM1 (3 - 1) s;
              let s = RW_write h PLL1_DIVN (pll1n - 1) s;
              let s = RW_write h PLL1_DIVP (1 - 1) s;
              let s = RW_write h PLL1_DIVQ (2 - 1) s;
              let s = RW_write h PLL1_DIVR (2 - 1) s;
              let s = RW_clear h PLL1_FRACLatch s;
              let s = RW_write h PLL1_FRACValue 0 s;
              let s = RW_set h PLL1_FRACLatch s;
              let s = RW_clear h PLL1_SSCG_Enable s;
              let s = RW_set h PLL1_Enable s;
              s \<leftarrow> wait_for h PLL1_Ready True s;
              Some (RW_set h PLL1_DIVREnable (RW_set h PLL1_DIVQEnable (RW_set h PLL1_DIVPEnable s))) })"

definition init_pll2 :: "'d platform \<Rightarrow> 'd sys \<Rightarrow> 'd sys option" where
  "init_pll2 h s =
     (let s = RW_clear h PLL2_DIVPEnable s; s = RW_clear h PLL2_DIVQEnable s; s = RW_clear h PLL2_DIVREnable s;
          s = RW_clear h PLL2_Enable s
      in do { s \<leftarrow> wait_for h PLL2_Ready False s;
              let s = RW_write h PLL2_DIVM2 (3 - 1) s;
              let s = RW_write h PLL2_DIVN (66 - 1) s;
              let s = RW_write h PLL2_DIVP (2 - 1) s;
              let s = RW_write h PLL2_DIVQ (1 - 1) s;
              let s = RW_write h PLL2_DIVR (1 - 1) s;
              let s = RW_clear h PLL2_FRACLatch s;
              let s = RW_write h PLL2_FRACValue 5120 s;
              let s = RW_set h PLL2_FRACLatch s;
              let s = RW_clear h PLL2_SSCG_Enable s;
              let s = RW_set h PLL2_Enable s;
              s \<leftarrow> wait_for h PLL2_Ready True s;
              Some (RW_set h PLL2_DIVREnable (RW_set h PLL2_DIVQEnable (RW_set h PLL2_DIVPEnable s))) })"

definition init_core_clocks :: "'d platform \<Rightarrow> u32 \<Rightarrow> 'd sys \<Rightarrow> 'd sys option" where
  "init_core_clocks h MPU_MHz s =
     (let pll1n = (if MPU_MHz = 650 then 81 else 100);
          s = RW_write h MPUClockSrc MPUClockSrcHSI s;
          s = RW_write h AXISClockSrc AXISClockSrcHSI s
      in do { s \<leftarrow> init_hse h s;
              s \<leftarrow> init_pll1 h pll1n s;
              s \<leftarrow> init_pll2 h s;
              s \<leftarrow> wait_for h MPUClockSrcReady True (RW_write h MPUClockSrc MPUClockSrcPLL1 s);
              s \<leftarrow> wait_for h AXISClockSrcReady True (RW_write h AXISClockSrc AXISClockSrcPLL2 s);
              wait_for h AXIDivReady True (RW_write h AXIDiv AXIDivOff s) })"

subsection \<open>The contract of the clock controller\<close>

definition ready_mask :: "u32 \<Rightarrow> u32" where
  "ready_mask a =
     (if a \<in> {RCC_BASE + 0x20, RCC_BASE + 0x24, RCC_BASE + 0x28, RCC_BASE + 0x30} then 0x80000000
      else if a \<in> {RCC_BASE + 0x80, RCC_BASE + 0x94} then 2 else 0)"

lemma first_bits:
  "first_bit 1 = 0" "first_bit 3 = 0" "first_bit 7 = 0" "first_bit 0x1FF = 0" "first_bit 0x7F = 0"
  "first_bit 0x7F00 = 8" "first_bit 0x7F0000 = 16" "first_bit 0x3F0000 = 16" "first_bit 0xFFF8 = 3"
  by code_simp+

definition rcc_range :: "u32 set" where
  "rcc_range = {RCC_BASE..<RCC_BASE + 0x808}"

lemma in_rcc_range:
  "RCC_BASE + 0x20 \<in> rcc_range" "RCC_BASE + 0x24 \<in> rcc_range" "RCC_BASE + 0x28 \<in> rcc_range"
  "RCC_BASE + 0x30 \<in> rcc_range" "RCC_BASE + 0x80 \<in> rcc_range" "RCC_BASE + 0x84 \<in> rcc_range"
  "RCC_BASE + 0x88 \<in> rcc_range" "RCC_BASE + 0x8C \<in> rcc_range" "RCC_BASE + 0x94 \<in> rcc_range"
  "RCC_BASE + 0x98 \<in> rcc_range" "RCC_BASE + 0x9C \<in> rcc_range" "RCC_BASE + 0xA0 \<in> rcc_range"
  by (simp_all add: rcc_range_def reg_defs)

lemma ready_masks:
  "ready_mask (RCC_BASE + 0xC) = 0" "ready_mask (RCC_BASE + 0x10) = 0"
  "ready_mask (RCC_BASE + 0x20) = 0x80000000" "ready_mask (RCC_BASE + 0x24) = 0x80000000"
  "ready_mask (RCC_BASE + 0x28) = 0x80000000" "ready_mask (RCC_BASE + 0x30) = 0x80000000"
  "ready_mask (RCC_BASE + 0x80) = 2" "ready_mask (RCC_BASE + 0x84) = 0" "ready_mask (RCC_BASE + 0x88) = 0"
  "ready_mask (RCC_BASE + 0x8C) = 0" "ready_mask (RCC_BASE + 0x94) = 2" "ready_mask (RCC_BASE + 0x98) = 0"
  "ready_mask (RCC_BASE + 0x9C) = 0" "ready_mask (RCC_BASE + 0xA0) = 0"
  by (simp_all add: ready_mask_def reg_defs)

locale rcc =
  fixes h :: "'d platform"
    and regs :: "'d \<Rightarrow> u32 \<Rightarrow> u32"
    and rlag :: "'d \<Rightarrow> nat"
    and hse :: "'d \<Rightarrow> bool"
  assumes rd_rcc: "a \<in> rcc_range \<Longrightarrow>
        fst (rd32 h a d) AND NOT (ready_mask a) = regs d a AND NOT (ready_mask a)"
    and rd_rcc_regs: "regs (snd (rd32 h a d)) = regs d"
    and rd_rcc_hse: "hse (snd (rd32 h a d)) = hse d"
    and wr_rcc_regs: "regs (wr32 h v a d) = (regs d)(a := v)"
    and wr_rcc_hse: "hse (wr32 h v a d) =
        (if v AND 0x100 = 0 then hse d else if a = RCC_BASE + 0xC then True
         else if a = RCC_BASE + 0x10 then False else hse d)"
    and hse_ready: "((fst (rd32 h (RCC_BASE + 0x808) d) AND 0x100 \<noteq> 0) = hse d) \<or>
        rlag (snd (rd32 h (RCC_BASE + 0x808) d)) < rlag d"
    and pll_ready: "a \<in> {RCC_BASE + 0x80, RCC_BASE + 0x94} \<Longrightarrow>
        ((fst (rd32 h a d) AND 2 \<noteq> 0) = (regs d a AND 1 \<noteq> 0)) \<or> rlag (snd (rd32 h a d)) < rlag d"
    and source_ready: "a \<in> {RCC_BASE + 0x20, RCC_BASE + 0x28, RCC_BASE + 0x30} \<Longrightarrow>
        fst (rd32 h a d) AND 0x80000000 \<noteq> 0 \<or> rlag (snd (rd32 h a d)) < rlag d"
begin

definition V :: "'d sys \<Rightarrow> u32 \<Rightarrow> u32" where
  "V s a = regs (dev s) a AND NOT (ready_mask a)"

lemma rd_V:
  "a \<in> rcc_range \<Longrightarrow> fst (readl h a s) AND NOT (ready_mask a) = V s a"
  by (simp add: readl_def V_def rd_rcc split_def Let_def)

lemma keep_V: "V (snd (readl h a s)) = V s" "hse (dev (snd (readl h a s))) = hse (dev s)"
  by (simp_all add: readl_def V_def rd_rcc_regs rd_rcc_hse split_def Let_def fun_eq_iff)

lemma wr_V: "V (writel h v a s) = (V s)(a := v AND NOT (ready_mask a))"
  by (simp add: writel_def V_def wr_rcc_regs fun_eq_iff)

lemma wr_hse: "a \<noteq> RCC_BASE + 0xC \<Longrightarrow> a \<noteq> RCC_BASE + 0x10 \<Longrightarrow> hse (dev (writel h v a s)) = hse (dev s)"
  by (simp add: writel_def wr_rcc_hse)

lemma fields_V:
  assumes "BaseAddress r \<in> rcc_range" "Mask r AND ready_mask (BaseAddress r) = 0"
  shows "V (RW_write h r v s) = (V s)(BaseAddress r :=
      (V s (BaseAddress r) AND NOT (Mask r)) OR (push_bit (bits_offset r) v AND Mask r))"
    "V (RW_set h r s) = (V s)(BaseAddress r := V s (BaseAddress r) OR Mask r)"
    "V (RW_clear h r s) = (V s)(BaseAddress r := V s (BaseAddress r) AND NOT (Mask r))"
proof -
  let ?m = "ready_mask (BaseAddress r)"
  have b: "\<not> bit (Mask r) n \<or> \<not> bit ?m n" for n
    using assms(2) by (metis bit_0_eq bit_and_iff bot_apply bot_bool_def)
  have e: "((x AND NOT (Mask r)) OR (y AND Mask r)) AND NOT ?m = ((x AND NOT ?m) AND NOT (Mask r)) OR (y AND Mask r)"
    "(x OR Mask r) AND NOT ?m = (x AND NOT ?m) OR Mask r"
    "(x AND NOT (Mask r)) AND NOT ?m = (x AND NOT ?m) AND NOT (Mask r)" for x y
    by (rule bit_word_eqI; use b in \<open>auto simp: bit_simps\<close>)+
  show "V (RW_write h r v s) = (V s)(BaseAddress r :=
      (V s (BaseAddress r) AND NOT (Mask r)) OR (push_bit (bits_offset r) v AND Mask r))"
    "V (RW_set h r s) = (V s)(BaseAddress r := V s (BaseAddress r) OR Mask r)"
    "V (RW_clear h r s) = (V s)(BaseAddress r := V s (BaseAddress r) AND NOT (Mask r))"
    using rd_V [OF assms(1), of s]
    by (simp_all only: RW_write_def RW_set_def RW_clear_def Let_def split_def wr_V keep_V e)
qed

lemma fields_hse:
  assumes "BaseAddress r \<noteq> RCC_BASE + 0xC" "BaseAddress r \<noteq> RCC_BASE + 0x10"
  shows "hse (dev (RW_write h r v s)) = hse (dev s)" "hse (dev (RW_set h r s)) = hse (dev s)"
    "hse (dev (RW_clear h r s)) = hse (dev s)"
  by (simp_all add: RW_write_def RW_set_def RW_clear_def Let_def split_def wr_hse [OF assms] keep_V)

lemma wait_returns:
  assumes "\<And>d. regs d = regs (dev s) \<Longrightarrow> hse d = hse (dev s) \<Longrightarrow>
      ((fst (rd32 h (BaseAddress r) d) AND Mask r \<noteq> 0) = b) \<or> rlag (snd (rd32 h (BaseAddress r) d)) < rlag d"
  shows "\<exists>s'. wait_for h r b s = Some s' \<and> V s' = V s \<and> hse (dev s') = hse (dev s)"
proof -
  let ?I = "\<lambda>s'. regs (dev s') = regs (dev s) \<and> hse (dev s') = hse (dev s)"
  let ?f = "\<lambda>s. let (v, s) = RO_read h r s in Some (if (v \<noteq> 0) = b then Inl s else Inr s)"
  have "\<exists>s'. loop ?f s = Some s' \<and> ?I s'"
  proof (rule loop_total [where I = ?I and m = "\<lambda>s. rlag (dev s)"])
    fix s' :: "'d sys" assume I: "?I s'"
    obtain v d where rd: "rd32 h (BaseAddress r) (dev s') = (v, d)" by fastforce
    have f: "?f s' = Some (if (v AND Mask r \<noteq> 0) = b then Inl (s'\<lparr>dev := d\<rparr>) else Inr (s'\<lparr>dev := d\<rparr>))"
      by (simp add: RO_read_def readl_def rd bits_offset_def field_zero del: drop_bit_and)
    have I': "?I (s'\<lparr>dev := d\<rparr>)"
      using I rd_rcc_regs [of "BaseAddress r" "dev s'"] rd_rcc_hse [of "BaseAddress r" "dev s'"] by (simp add: rd)
    show "(\<exists>r. ?f s' = Some (Inl r) \<and> ?I r) \<or> (\<exists>s''. ?f s' = Some (Inr s'') \<and> ?I s'' \<and> rlag (dev s'') < rlag (dev s'))"
      using assms [of "dev s'"] I I' f by (auto simp: rd)
  qed simp
  then show ?thesis by (auto simp: wait_for_def V_def fun_eq_iff)
qed

lemma pll_on:
  "V s (RCC_BASE + 0x80) AND 1 = regs (dev s) (RCC_BASE + 0x80) AND 1"
  "V s (RCC_BASE + 0x94) AND 1 = regs (dev s) (RCC_BASE + 0x94) AND 1"
  by (simp_all add: V_def ready_mask_def reg_defs and.assoc)

lemma waits:
  "\<exists>s'. wait_for h HSEClockReady (hse (dev s)) s = Some s' \<and> V s' = V s \<and> hse (dev s') = hse (dev s)"
  "\<exists>s'. wait_for h PLL1_Ready (V s (RCC_BASE + 0x80) AND 1 \<noteq> 0) s = Some s' \<and> V s' = V s \<and> hse (dev s') = hse (dev s)"
  "\<exists>s'. wait_for h PLL2_Ready (V s (RCC_BASE + 0x94) AND 1 \<noteq> 0) s = Some s' \<and> V s' = V s \<and> hse (dev s') = hse (dev s)"
  "\<exists>s'. wait_for h PLL12SourceReady True s = Some s' \<and> V s' = V s \<and> hse (dev s') = hse (dev s)"
  "\<exists>s'. wait_for h MPUClockSrcReady True s = Some s' \<and> V s' = V s \<and> hse (dev s') = hse (dev s)"
  "\<exists>s'. wait_for h AXISClockSrcReady True s = Some s' \<and> V s' = V s \<and> hse (dev s') = hse (dev s)"
  "\<exists>s'. wait_for h AXIDivReady True s = Some s' \<and> V s' = V s \<and> hse (dev s') = hse (dev s)"
  subgoal by (rule wait_returns) (use hse_ready in \<open>simp add: rcc_fields, metis\<close>)
  subgoal unfolding pll_on by (rule wait_returns) (use pll_ready [of "RCC_BASE + 0x80"] in \<open>simp add: rcc_fields, metis\<close>)
  subgoal unfolding pll_on by (rule wait_returns) (use pll_ready [of "RCC_BASE + 0x94"] in \<open>simp add: rcc_fields, metis\<close>)
  subgoal by (rule wait_returns) (use source_ready [of "RCC_BASE + 0x28"] in \<open>simp add: rcc_fields\<close>)
  subgoal by (rule wait_returns) (use source_ready [of "RCC_BASE + 0x20"] in \<open>simp add: rcc_fields\<close>)
  subgoal by (rule wait_returns) (use source_ready [of "RCC_BASE + 0x20"] in \<open>simp add: rcc_fields\<close>)
  subgoal by (rule wait_returns) (use source_ready [of "RCC_BASE + 0x30"] in \<open>simp add: rcc_fields\<close>)
  done

lemma dual_V:
  "V (dual_set h x s) = (V s)(BaseAddress (SetT x) := Mask (SetT x) AND NOT (ready_mask (BaseAddress (SetT x))))"
  "V (dual_clear h x s) = (V s)(BaseAddress (ClearT x) := Mask (ClearT x) AND NOT (ready_mask (BaseAddress (ClearT x))))"
  by (simp_all add: dual_set_def dual_clear_def WO_set_def wr_V)

lemma dual_hse:
  "hse (dev (dual_set h OscEnableHSEON s))" "\<not> hse (dev (dual_clear h OscEnableHSEON s))"
  by (simp_all add: dual_set_def dual_clear_def WO_set_def writel_def wr_rcc_hse rcc_fields)

lemma hse_returns:
  "\<exists>s'. init_hse h s = Some s' \<and> V s' = (V s)(RCC_BASE + 0x10 := 0x80, RCC_BASE + 0xC := 0x100) \<and> hse (dev s')"
proof -
  obtain s1 where s1: "wait_for h HSEClockReady False (dual_clear h OscEnableHSEON s) = Some s1"
    "V s1 = V (dual_clear h OscEnableHSEON s)"
    using waits(1) [of "dual_clear h OscEnableHSEON s"] dual_hse(2) [of s] by auto
  define s2 where "s2 = dual_set h OscEnableHSEON (dual_set h OscEnableHSEBYP (dual_clear h OscEnableDIGBYP s1))"
  have on: "hse (dev s2)" by (simp add: s2_def dual_hse)
  have "V s2 = (V s)(RCC_BASE + 0x10 := 0x80, RCC_BASE + 0xC := 0x100)"
    by (simp add: s2_def dual_V s1(2) rcc_fields ready_masks fun_eq_iff)
  moreover obtain s3 where "wait_for h HSEClockReady True s2 = Some s3" "V s3 = V s2" "hse (dev s3) = hse (dev s2)"
    using waits(1) [of s2] on by auto
  ultimately show ?thesis using s1(1) on by (simp add: init_hse_def Let_def s2_def)
qed

lemma pll_on_bit: "x AND 5 = 1 \<Longrightarrow> x AND 1 \<noteq> (0 :: u32)"
proof -
  assume "x AND 5 = 1"
  then have "(x AND 5) AND 1 = 1" by simp
  then show "x AND 1 \<noteq> 0" by (simp add: and.assoc)
qed

lemma pll_enabled: "x AND 5 = 1 \<Longrightarrow> (((x OR 0x10) OR 0x20) OR 0x40) AND 0x75 = (0x71 :: u32)"
proof -
  assume x: "x AND 5 = 1"
  have "(x OR 0x70) AND (5 OR 0x70) = (x AND 5) OR (0x70 :: u32)" by (simp only: bit.disj_conj_distrib2)
  then show ?thesis by (simp add: x or.assoc)
qed

lemmas fields_run = fields_V rcc_fields in_rcc_range ready_masks first_bits bits_offset_def
  bit.conj_disj_distrib2 and.assoc

lemma pll2_returns:
  "\<exists>s'. init_pll2 h s = Some s' \<and> hse (dev s') = hse (dev s) \<and>
     (\<forall>a. a \<notin> {RCC_BASE + 0x94, RCC_BASE + 0x98, RCC_BASE + 0x9C, RCC_BASE + 0xA0} \<longrightarrow> V s' a = V s a) \<and>
     V s' (RCC_BASE + 0x94) AND 0x75 = 0x71 \<and> V s' (RCC_BASE + 0x98) AND 0x3F01FF = 0x20041 \<and>
     V s' (RCC_BASE + 0x9C) AND 0x7F7F7F = 1 \<and> V s' (RCC_BASE + 0xA0) AND 0x1FFF8 = 0x1A000"
proof -
  define s1 where "s1 = RW_clear h PLL2_Enable (RW_clear h PLL2_DIVREnable (RW_clear h PLL2_DIVQEnable
     (RW_clear h PLL2_DIVPEnable s)))"
  have h1: "hse (dev s1) = hse (dev s)"
    by (simp add: s1_def fields_hse rcc_fields)
  obtain x1 where V1: "V s1 = (V s)(RCC_BASE + 0x94 := x1)" "x1 AND 1 = 0"
    by (simp add: s1_def fields_run)
  obtain s2 where s2: "wait_for h PLL2_Ready False s1 = Some s2" "V s2 = V s1" "hse (dev s2) = hse (dev s1)"
    using waits(3) [of s1] V1 by auto
  define s3 where "s3 = RW_set h PLL2_Enable (RW_clear h PLL2_SSCG_Enable (RW_set h PLL2_FRACLatch
     (RW_write h PLL2_FRACValue 5120 (RW_clear h PLL2_FRACLatch (RW_write h PLL2_DIVR (1 - 1)
     (RW_write h PLL2_DIVQ (1 - 1) (RW_write h PLL2_DIVP (2 - 1) (RW_write h PLL2_DIVN (66 - 1)
     (RW_write h PLL2_DIVM2 (3 - 1) s2)))))))))"
  have h3: "hse (dev s3) = hse (dev s2)"
    by (simp add: s3_def fields_hse rcc_fields)
  have V3: "V s3 (RCC_BASE + 0x94) AND 5 = 1" "V s3 (RCC_BASE + 0x98) AND 0x3F01FF = 0x20041"
    "V s3 (RCC_BASE + 0x9C) AND 0x7F7F7F = 1" "V s3 (RCC_BASE + 0xA0) AND 0x1FFF8 = 0x1A000"
    by (simp_all add: s3_def fields_run)
  have V3': "V s3 a = V s2 a"
    if "a \<notin> {RCC_BASE + 0x94, RCC_BASE + 0x98, RCC_BASE + 0x9C, RCC_BASE + 0xA0}" for a
    using that by (simp add: s3_def fields_run)
  obtain s4 where s4: "wait_for h PLL2_Ready True s3 = Some s4" "V s4 = V s3" "hse (dev s4) = hse (dev s3)"
    using waits(3) [of s3] pll_on_bit [OF V3(1)] by auto
  define s5 where "s5 = RW_set h PLL2_DIVREnable (RW_set h PLL2_DIVQEnable (RW_set h PLL2_DIVPEnable s4))"
  have "init_pll2 h s = Some s5"
    by (simp add: init_pll2_def Let_def s1_def [symmetric] s2(1) s3_def [symmetric, simplified] s4(1) s5_def)
  moreover have "hse (dev s5) = hse (dev s)" using h1 s2(3) h3 s4(3) by (simp add: s5_def fields_hse rcc_fields)
  moreover have "V s5 a = V s a" if "a \<notin> {RCC_BASE + 0x94, RCC_BASE + 0x98, RCC_BASE + 0x9C, RCC_BASE + 0xA0}" for a
    using that V3' [OF that] V1 by (simp add: s5_def fields_run s4(2) s2(2))
  moreover have "V s5 (RCC_BASE + 0x94) AND 0x75 = 0x71"
    using pll_enabled [OF V3(1)] by (simp add: s5_def fields_V rcc_fields in_rcc_range ready_masks s4(2))
  moreover have "V s5 (RCC_BASE + 0x98) AND 0x3F01FF = 0x20041" "V s5 (RCC_BASE + 0x9C) AND 0x7F7F7F = 1"
    "V s5 (RCC_BASE + 0xA0) AND 0x1FFF8 = 0x1A000"
    using V3(2-4) by (simp_all add: s5_def fields_V rcc_fields in_rcc_range ready_masks s4(2))
  ultimately show ?thesis by blast
qed

lemma pll1_returns:
  assumes n: "(n - 1) AND 0x1FF = n - 1"
  shows "\<exists>s'. init_pll1 h n s = Some s' \<and> hse (dev s') = hse (dev s) \<and>
     (\<forall>a. a \<notin> {RCC_BASE + 0x28, RCC_BASE + 0x80, RCC_BASE + 0x84, RCC_BASE + 0x88, RCC_BASE + 0x8C} \<longrightarrow> V s' a = V s a) \<and>
     V s' (RCC_BASE + 0x28) AND 3 = 1 \<and> V s' (RCC_BASE + 0x80) AND 0x75 = 0x71 \<and> V s' (RCC_BASE + 0x84) AND 0x3F01FF = 0x20000 OR (n - 1) \<and>
     V s' (RCC_BASE + 0x88) AND 0x7F7F7F = 0x10100 \<and> V s' (RCC_BASE + 0x8C) AND 0x1FFF8 = 0x10000"
proof -
  have "((n - 1) AND 0x1FF) AND 0x3F01FF = (n - 1) AND 0x1FF" by (simp add: and.assoc)
  then have n': "(n - 1) AND 0x3F01FF = n - 1" by (simp only: n)
  define s1 where "s1 = RW_clear h PLL1_Enable (RW_clear h PLL1_DIVREnable (RW_clear h PLL1_DIVQEnable
     (RW_clear h PLL1_DIVPEnable s)))"
  have h1: "hse (dev s1) = hse (dev s)"
    by (simp add: s1_def fields_hse rcc_fields)
  obtain x1 where V1: "V s1 = (V s)(RCC_BASE + 0x80 := x1)" "x1 AND 1 = 0"
    by (simp add: s1_def fields_run)
  obtain s2 where s2: "wait_for h PLL1_Ready False s1 = Some s2" "V s2 = V s1" "hse (dev s2) = hse (dev s1)"
    using waits(2) [of s1] V1 by auto
  define s2' where "s2' = RW_write h PLL12Source PLL12SourceHSE s2"
  obtain s2w where w: "wait_for h PLL12SourceReady True s2' = Some s2w" "V s2w = V s2'" "hse (dev s2w) = hse (dev s2')"
    using waits(4) by blast
  have h2: "hse (dev s2') = hse (dev s2)" by (simp add: s2'_def fields_hse rcc_fields)
  have src: "V s2' (RCC_BASE + 0x28) AND 3 = 1"
    by (simp add: s2'_def fields_run clock_sources)
  define s3 where "s3 = RW_set h PLL1_Enable (RW_clear h PLL1_SSCG_Enable (RW_set h PLL1_FRACLatch
     (RW_write h PLL1_FRACValue 0 (RW_clear h PLL1_FRACLatch (RW_write h PLL1_DIVR (2 - 1)
     (RW_write h PLL1_DIVQ (2 - 1) (RW_write h PLL1_DIVP (1 - 1) (RW_write h PLL1_DIVN (n - 1)
     (RW_write h PLL1_DIVM1 (3 - 1) s2w)))))))))"
  have h3: "hse (dev s3) = hse (dev s2w)"
    by (simp add: s3_def fields_hse rcc_fields)
  have V3: "V s3 (RCC_BASE + 0x80) AND 5 = 1" "V s3 (RCC_BASE + 0x84) AND 0x3F01FF = 0x20000 OR (n - 1)"
    "V s3 (RCC_BASE + 0x88) AND 0x7F7F7F = 0x10100" "V s3 (RCC_BASE + 0x8C) AND 0x1FFF8 = 0x10000"
    using n n' by (simp_all add: s3_def fields_run)
  have V3': "V s3 a = V s2w a"
    if "a \<notin> {RCC_BASE + 0x28, RCC_BASE + 0x80, RCC_BASE + 0x84, RCC_BASE + 0x88, RCC_BASE + 0x8C}" for a
    using that by (simp add: s3_def fields_run)
  obtain s4 where s4: "wait_for h PLL1_Ready True s3 = Some s4" "V s4 = V s3" "hse (dev s4) = hse (dev s3)"
    using waits(2) [of s3] pll_on_bit [OF V3(1)] by auto
  define s5 where "s5 = RW_set h PLL1_DIVREnable (RW_set h PLL1_DIVQEnable (RW_set h PLL1_DIVPEnable s4))"
  have "init_pll1 h n s = Some s5"
    by (simp add: init_pll1_def Let_def s1_def [symmetric] s2(1)
        s2'_def [symmetric] w(1) s3_def [symmetric, simplified] s4(1) s5_def)
  moreover have "hse (dev s5) = hse (dev s)" using h1 s2(3) h2 w(3) h3 s4(3) by (simp add: s5_def fields_hse rcc_fields)
  moreover have "V s5 a = V s a" if "a \<notin> {RCC_BASE + 0x28, RCC_BASE + 0x80, RCC_BASE + 0x84, RCC_BASE + 0x88, RCC_BASE + 0x8C}" for a
    using that V3' [of a] V1 by (simp add: s5_def fields_run s4(2) s2(2) w(2) s2'_def)
  moreover have "V s5 (RCC_BASE + 0x80) AND 0x75 = 0x71"
    using pll_enabled [OF V3(1)] by (simp add: s5_def fields_V rcc_fields in_rcc_range ready_masks s4(2))
  moreover have "V s5 (RCC_BASE + 0x84) AND 0x3F01FF = 0x20000 OR (n - 1)" "V s5 (RCC_BASE + 0x88) AND 0x7F7F7F = 0x10100"
    "V s5 (RCC_BASE + 0x8C) AND 0x1FFF8 = 0x10000"
    using V3(2-4) by (simp_all add: s5_def fields_V rcc_fields in_rcc_range ready_masks s4(2))
  moreover have "V s5 (RCC_BASE + 0x28) AND 3 = 1"
    using src by (simp add: s5_def s3_def fields_V rcc_fields in_rcc_range ready_masks s4(2) w(2))
  ultimately show ?thesis by blast
qed

lemma V_field: "M AND ready_mask a = 0 \<Longrightarrow> V s a AND M = regs (dev s) a AND M"
proof (rule bit_word_eqI)
  fix n assume "M AND ready_mask a = 0" "n < LENGTH(32)"
  then have "\<not> bit M n \<or> \<not> bit (ready_mask a) n" by (metis bit_0_eq bit_and_iff bot_apply bot_bool_def)
  then show "bit (V s a AND M) n = bit (regs (dev s) a AND M) n"
    using \<open>n < LENGTH(32)\<close> by (auto simp: V_def bit_simps)
qed

lemma core_clocks_V:
  "\<exists>s'. init_core_clocks h mhz s = Some s' \<and> hse (dev s') \<and>
     V s' (RCC_BASE + 0x20) AND 3 = 2 \<and> V s' (RCC_BASE + 0x24) AND 7 = 2 \<and>
     V s' (RCC_BASE + 0x28) AND 3 = 1 \<and> V s' (RCC_BASE + 0x30) AND 7 = 0 \<and>
     V s' (RCC_BASE + 0x80) AND 0x75 = 0x71 \<and>
     V s' (RCC_BASE + 0x84) AND 0x3F01FF = 0x20000 OR (if mhz = 650 then 80 else 99) \<and>
     V s' (RCC_BASE + 0x88) AND 0x7F7F7F = 0x10100 \<and> V s' (RCC_BASE + 0x8C) AND 0x1FFF8 = 0x10000 \<and>
     V s' (RCC_BASE + 0x94) AND 0x75 = 0x71 \<and> V s' (RCC_BASE + 0x98) AND 0x3F01FF = 0x20041 \<and>
     V s' (RCC_BASE + 0x9C) AND 0x7F7F7F = 1 \<and> V s' (RCC_BASE + 0xA0) AND 0x1FFF8 = 0x1A000 \<and>
     (\<forall>a. a \<notin> (\<lambda>off. RCC_BASE + off) ` {0xC, 0x10, 0x20, 0x24, 0x28, 0x30, 0x80, 0x84, 0x88, 0x8C, 0x94, 0x98, 0x9C, 0xA0}
        \<longrightarrow> V s' a = V s a)"
proof -
  define n :: u32 where "n = (if mhz = 650 then 81 else 100)"
  have n: "(n - 1) AND 0x1FF = n - 1" "n - 1 = (if mhz = 650 then 80 else 99)" by (simp_all add: n_def)
  define s1 where "s1 = RW_write h AXISClockSrc AXISClockSrcHSI (RW_write h MPUClockSrc MPUClockSrcHSI s)"
  obtain s2 where s2: "init_hse h s1 = Some s2" "V s2 = (V s1)(RCC_BASE + 0x10 := 0x80, RCC_BASE + 0xC := 0x100)" "hse (dev s2)"
    using hse_returns [of s1] by blast
  obtain s3 where s3: "init_pll1 h n s2 = Some s3" "hse (dev s3) = hse (dev s2)"
    "\<And>a. a \<notin> {RCC_BASE + 0x28, RCC_BASE + 0x80, RCC_BASE + 0x84, RCC_BASE + 0x88, RCC_BASE + 0x8C} \<Longrightarrow> V s3 a = V s2 a"
    "V s3 (RCC_BASE + 0x28) AND 3 = 1" "V s3 (RCC_BASE + 0x80) AND 0x75 = 0x71"
    "V s3 (RCC_BASE + 0x84) AND 0x3F01FF = 0x20000 OR (n - 1)" "V s3 (RCC_BASE + 0x88) AND 0x7F7F7F = 0x10100"
    "V s3 (RCC_BASE + 0x8C) AND 0x1FFF8 = 0x10000"
    using pll1_returns [OF n(1), of s2] by blast
  obtain s4 where s4: "init_pll2 h s3 = Some s4" "hse (dev s4) = hse (dev s3)"
    "\<And>a. a \<notin> {RCC_BASE + 0x94, RCC_BASE + 0x98, RCC_BASE + 0x9C, RCC_BASE + 0xA0} \<Longrightarrow> V s4 a = V s3 a"
    "V s4 (RCC_BASE + 0x94) AND 0x75 = 0x71" "V s4 (RCC_BASE + 0x98) AND 0x3F01FF = 0x20041"
    "V s4 (RCC_BASE + 0x9C) AND 0x7F7F7F = 1" "V s4 (RCC_BASE + 0xA0) AND 0x1FFF8 = 0x1A000"
    using pll2_returns [of s3] by blast
  define s5 where "s5 = RW_write h MPUClockSrc MPUClockSrcPLL1 s4"
  obtain s6 where s6: "wait_for h MPUClockSrcReady True s5 = Some s6" "V s6 = V s5" "hse (dev s6) = hse (dev s5)"
    using waits(5) by blast
  define s7 where "s7 = RW_write h AXISClockSrc AXISClockSrcPLL2 s6"
  obtain s8 where s8: "wait_for h AXISClockSrcReady True s7 = Some s8" "V s8 = V s7" "hse (dev s8) = hse (dev s7)"
    using waits(6) by blast
  define s9 where "s9 = RW_write h AXIDiv AXIDivOff s8"
  obtain s10 where s10: "wait_for h AXIDivReady True s9 = Some s10" "V s10 = V s9" "hse (dev s10) = hse (dev s9)"
    using waits(7) by blast
  have run: "init_core_clocks h mhz s = Some s10"
    by (simp add: init_core_clocks_def Let_def n_def [symmetric] s1_def [symmetric] s2(1) s3(1) s4(1) s5_def [symmetric]
        s6(1) s7_def [symmetric] s8(1) s9_def [symmetric] s10(1))
  have hse: "hse (dev s10)"
    using s10(3) s8(3) s6(3) s4(2) s3(2) s2(3) by (simp add: s9_def s7_def s5_def fields_hse rcc_fields)
  have src: "V s10 (RCC_BASE + 0x20) AND 3 = 2" "V s10 (RCC_BASE + 0x24) AND 7 = 2" "V s10 (RCC_BASE + 0x30) AND 7 = 0"
    by (simp_all add: s10(2) s9_def s8(2) s7_def s6(2) s5_def fields_run clock_sources)
  have keep: "V s10 a = V s4 a" if "a \<notin> {RCC_BASE + 0x20, RCC_BASE + 0x24, RCC_BASE + 0x30}" for a
    using that by (simp add: s10(2) s9_def s8(2) s7_def s6(2) s5_def fields_run)
  have keep1: "V s1 a = V s a" if "a \<notin> {RCC_BASE + 0x20, RCC_BASE + 0x24}" for a
    using that by (simp add: s1_def fields_run)
  have "V s10 a = V s a"
    if "a \<notin> (\<lambda>off. RCC_BASE + off) ` {0xC, 0x10, 0x20, 0x24, 0x28, 0x30, 0x80, 0x84, 0x88, 0x8C, 0x94, 0x98, 0x9C, 0xA0}" for a
    using that keep [of a] s4(3) [of a] s3(3) [of a] s2(2) keep1 [of a] by simp
  then show ?thesis
    using run hse src keep s3(4-8) s4(3-7) n(2) by (intro exI [of _ s10]) simp
qed

end

subsection \<open>A board\<close>

text \<open>Registers, the RAM of \<open>2 ^ k\<close> words, and the state of the oscillator; ready bits follow
  at once.\<close>

type_synonym board = "(u32 \<Rightarrow> u32) \<times> (u32 \<Rightarrow> u32) \<times> bool"

definition rcc_read :: "u32 \<Rightarrow> board \<Rightarrow> u32" where
  "rcc_read a = (\<lambda>(r, m, e).
     if a = RCC_BASE + 0x808 then if e then 0x100 else 0
     else if ready_mask a = 2 then (r a AND NOT 2) OR (if r a AND 1 \<noteq> 0 then 2 else 0)
     else r a OR ready_mask a)"

definition clock_board :: "nat \<Rightarrow> board platform" where
  "clock_board k =
     \<lparr>rd32 = \<lambda>a d. (if 0xC0000000 \<le> a then fst (snd d) (board_decode k a)
                    else if a \<in> {0x50000000..<0x50001000} then rcc_read a d
                    else if a \<in> ddr_status then 1 else fst d a, d),
      wr32 = \<lambda>v a (r, m, e). (r(a := v), if 0xC0000000 \<le> a then m(board_decode k a := v) else m,
        if v AND 0x100 = 0 then e else if a = RCC_BASE + 0xC then True
        else if a = RCC_BASE + 0x10 then False else e),
      rd8 = \<lambda>a d. (0, d), wr8 = \<lambda>v a d. d,
      ctrlc_key = \<lambda>d. (False, d), elapse = \<lambda>_ d. d\<rparr>"

lemma clock_board_sel:
  "rd32 (clock_board k) a d = (if 0xC0000000 \<le> a then fst (snd d) (board_decode k a)
                    else if a \<in> {0x50000000..<0x50001000} then rcc_read a d
                    else if a \<in> ddr_status then 1 else fst d a, d)"
  "wr32 (clock_board k) v a d = ((fst d)(a := v), if 0xC0000000 \<le> a then (fst (snd d))(board_decode k a := v) else fst (snd d),
        if v AND 0x100 = 0 then snd (snd d) else if a = RCC_BASE + 0xC then True
        else if a = RCC_BASE + 0x10 then False else snd (snd d))"
  "ctrlc_key (clock_board k) d = (False, d)" "elapse (clock_board k) n d = d"
  by (simp_all add: clock_board_def split_def)

lemma rcc_addrs: "\<not> 0xC0000000 \<le> RCC_BASE + 0x808" "RCC_BASE + 0x808 \<in> {0x50000000..<0x50001000}"
  by (simp_all add: reg_defs)

interpretation clock_rcc: rcc "clock_board k" fst "\<lambda>_. 0" "\<lambda>d. snd (snd d)" for k
proof
  fix a :: u32 and d :: board
  have rng: "\<not> 0xC0000000 \<le> a \<and> a \<in> {0x50000000..<0x50001000} \<and> a \<noteq> RCC_BASE + 0x808" if "a \<in> rcc_range" for a
    using that by (auto simp: rcc_range_def reg_defs word_le_nat_alt word_less_nat_alt)
  have pll: "a \<in> rcc_range \<and> ready_mask a = 2" if "a \<in> {RCC_BASE + 0x80, RCC_BASE + 0x94}" for a
    using that by (auto simp: rcc_range_def ready_mask_def reg_defs)
  have sel: "a \<in> rcc_range \<and> ready_mask a = 0x80000000" if "a \<in> {RCC_BASE + 0x20, RCC_BASE + 0x28, RCC_BASE + 0x30}" for a
    using that by (auto simp: rcc_range_def ready_mask_def reg_defs)
  have b: "((x AND NOT 2) OR (if c then 2 else 0)) AND NOT 2 = x AND NOT (2 :: u32)"
    "((x AND NOT 2) OR (if c then 2 else 0)) AND 2 \<noteq> (0 :: u32) \<longleftrightarrow> c" "(x OR m) AND NOT m = x AND NOT m" for x m :: u32 and c
    subgoal by (cases c) (simp_all add: bit.conj_disj_distrib2 and.assoc)
    subgoal by (cases c) (simp_all add: bit.conj_disj_distrib2 and.assoc)
    subgoal by (simp add: bit.conj_disj_distrib2)
    done
  show "fst (rd32 (clock_board k) a d) AND NOT (ready_mask a) = fst d a AND NOT (ready_mask a)" if "a \<in> rcc_range"
    using rng [OF that] b by (auto simp: clock_board_sel rcc_read_def split_def)
  show "((fst (rd32 (clock_board k) (RCC_BASE + 0x808) d) AND 0x100 \<noteq> 0) = snd (snd d)) \<or> (0 :: nat) < 0"
    using rcc_addrs by (simp add: clock_board_sel rcc_read_def split_def)
  show "((fst (rd32 (clock_board k) a d) AND 2 \<noteq> 0) = (fst d a AND 1 \<noteq> 0)) \<or> (0 :: nat) < 0"
    if "a \<in> {RCC_BASE + 0x80, RCC_BASE + 0x94}"
    using pll [OF that] rng [of a] b(2) by (simp add: clock_board_sel rcc_read_def split_def)
  show "fst (rd32 (clock_board k) a d) AND 0x80000000 \<noteq> 0 \<or> (0 :: nat) < 0"
    if "a \<in> {RCC_BASE + 0x20, RCC_BASE + 0x28, RCC_BASE + 0x30}"
    using sel [OF that] rng [of a] by (simp add: clock_board_sel rcc_read_def split_def bit.conj_disj_distrib2)
qed (auto simp: clock_board_sel)

interpretation clock_ddr: ddr_board "clock_board k" fst "\<lambda>_. 0" for k
proof
  fix a :: u32 and d :: board
  have other: "rcc_read a d = fst d a" if "a \<in> {0x50000098, 0x5000009C, 0x500000D8}"
    using that by (auto simp: rcc_read_def ready_mask_def reg_defs split_def)
  show "fst (rd32 (clock_board k) a d) = fst d a" if "a \<notin> ddr_status"
    using that other plain_not_ram [OF that] by (auto simp: clock_board_sel ddr_status_def reg_defs word_le_nat_alt word_less_nat_alt)
  have s: "fst (rd32 (clock_board k) a d) = 1"
    if "a \<in> {DDRPHYC_BASE + phy_pgsr, DDRPHYC_BASE + phy_bistgsr, DDRCTRL_BASE + ctl_swstat, DDRCTRL_BASE + ctl_stat}" for a
    using that by (auto simp: clock_board_sel ddr_status_def reg_defs)
  show "fst (rd32 (clock_board k) (DDRPHYC_BASE + phy_pgsr) d) AND 1 \<noteq> 0 \<or> (0 :: nat) < 0"
    "fst (rd32 (clock_board k) (DDRPHYC_BASE + phy_bistgsr) d) AND 1 \<noteq> 0 \<or> (0 :: nat) < 0"
    "fst (rd32 (clock_board k) (DDRCTRL_BASE + ctl_swstat) d) AND 1 \<noteq> 0 \<or> (0 :: nat) < 0"
    "fst (rd32 (clock_board k) (DDRCTRL_BASE + ctl_stat) d) AND 7 = 1 \<or> (0 :: nat) < 0"
    by (simp_all add: s)
qed (auto simp: clock_board_sel)

interpretation clock_ram: wrapped_dram "clock_board (min k 27)" "\<lambda>d. fst (snd d)" "board_decode (min k 27)"
  "{a. 0xC0000000 \<le> a}" "0xC0000000" "min k 27" 27 for k
proof unfold_locales
  fix i :: nat
  assume "i < 2 ^ 27"
  then show "0xC0000000 + 4 * of_nat i \<in> {a :: u32. 0xC0000000 \<le> a}" by (simp add: window_in_ram)
  show "board_decode (min k 27) (0xC0000000 + 4 * of_nat i) = 0xC0000000 + 4 * of_nat (i mod 2 ^ min k 27)"
    unfolding board_decode_def by (rule wrap_decode_word)
qed (simp_all add: clock_board_sel sound_cell_def)

subsection \<open>Results\<close>

definition reg_field :: "(u32 \<Rightarrow> u32) \<Rightarrow> reg_bits \<Rightarrow> u32" where
  "reg_field r f = drop_bit (bits_offset f) (r (BaseAddress f) AND Mask f)"

lemma more_first_bits: "first_bit 4 = 2" "first_bit 0x10 = 4" "first_bit 0x20 = 5" "first_bit 0x40 = 6" "first_bit 0x10000 = 16"
  by code_simp+

lemma sub_field: "M AND W = M \<Longrightarrow> (x :: u32) AND W = w \<Longrightarrow> x AND M = w AND M"
  by (metis and.assoc and.commute)

lemma core_clocks_run:
  assumes "rcc h regs rlag hse"
  shows "\<exists>s'. init_core_clocks h mhz s = Some s' \<and> hse (dev s') \<and>
    (let f = reg_field (regs (dev s'))
     in f MPUClockSrc = MPUClockSrcPLL1 \<and> f AXISClockSrc = AXISClockSrcPLL2 \<and> f AXIDiv = AXIDivOff \<and>
        f PLL12Source = PLL12SourceHSE \<and>
        f PLL1_Enable = 1 \<and> f PLL1_DIVPEnable = 1 \<and> f PLL1_DIVQEnable = 1 \<and> f PLL1_DIVREnable = 1 \<and>
        f PLL1_SSCG_Enable = 0 \<and> f PLL1_DIVM1 = 3 - 1 \<and> f PLL1_DIVN = (if mhz = 650 then 81 else 100) - 1 \<and>
        f PLL1_DIVP = 1 - 1 \<and> f PLL1_DIVQ = 2 - 1 \<and> f PLL1_DIVR = 2 - 1 \<and>
        f PLL1_FRACValue = 0 \<and> f PLL1_FRACLatch = 1 \<and>
        f PLL2_Enable = 1 \<and> f PLL2_DIVPEnable = 1 \<and> f PLL2_DIVQEnable = 1 \<and> f PLL2_DIVREnable = 1 \<and>
        f PLL2_SSCG_Enable = 0 \<and> f PLL2_DIVM2 = 3 - 1 \<and> f PLL2_DIVN = 66 - 1 \<and>
        f PLL2_DIVP = 2 - 1 \<and> f PLL2_DIVQ = 1 - 1 \<and> f PLL2_DIVR = 1 - 1 \<and>
        f PLL2_FRACValue = 5120 \<and> f PLL2_FRACLatch = 1) \<and>
    (\<forall>a. a \<notin> (\<lambda>off. RCC_BASE + off) ` {0xC, 0x10, 0x20, 0x24, 0x28, 0x30, 0x80, 0x84, 0x88, 0x8C, 0x94, 0x98, 0x9C, 0xA0}
       \<longrightarrow> regs (dev s') a = regs (dev s) a)"
proof -
  obtain s' where s': "init_core_clocks h mhz s = Some s'" "hse (dev s')"
     "rcc.V regs s' (RCC_BASE + 0x20) AND 3 = 2" "rcc.V regs s' (RCC_BASE + 0x24) AND 7 = 2"
     "rcc.V regs s' (RCC_BASE + 0x28) AND 3 = 1" "rcc.V regs s' (RCC_BASE + 0x30) AND 7 = 0"
     "rcc.V regs s' (RCC_BASE + 0x80) AND 0x75 = 0x71"
     "rcc.V regs s' (RCC_BASE + 0x84) AND 0x3F01FF = 0x20000 OR (if mhz = 650 then 80 else 99)"
     "rcc.V regs s' (RCC_BASE + 0x88) AND 0x7F7F7F = 0x10100" "rcc.V regs s' (RCC_BASE + 0x8C) AND 0x1FFF8 = 0x10000"
     "rcc.V regs s' (RCC_BASE + 0x94) AND 0x75 = 0x71" "rcc.V regs s' (RCC_BASE + 0x98) AND 0x3F01FF = 0x20041"
     "rcc.V regs s' (RCC_BASE + 0x9C) AND 0x7F7F7F = 1" "rcc.V regs s' (RCC_BASE + 0xA0) AND 0x1FFF8 = 0x1A000"
     "\<And>a. a \<notin> (\<lambda>off. RCC_BASE + off) ` {0xC, 0x10, 0x20, 0x24, 0x28, 0x30, 0x80, 0x84, 0x88, 0x8C, 0x94, 0x98, 0x9C, 0xA0}
        \<Longrightarrow> rcc.V regs s' a = rcc.V regs s a"
    using rcc.core_clocks_V [OF assms, of mhz s] by blast
  have F: "regs (dev s') a AND M = W AND M"
    if "rcc.V regs s' a AND N = W" "N AND ready_mask a = 0" "M AND N = M" for a M N W
    using rcc.V_field [OF assms that(2), of s'] that(1) sub_field [OF that(3)] by simp
  note w = s'(3-14) [THEN F]
  have keep: "regs (dev s') a = regs (dev s) a"
    if "a \<notin> (\<lambda>off. RCC_BASE + off) ` {0xC, 0x10, 0x20, 0x24, 0x28, 0x30, 0x80, 0x84, 0x88, 0x8C, 0x94, 0x98, 0x9C, 0xA0}" for a
    using s'(15) [OF that] that by (auto simp: rcc.V_def [OF assms] ready_mask_def)
  show ?thesis
    using s'(1,2) keep
    by (intro exI [of _ s'])
      (simp add: Let_def reg_field_def rcc_fields bits_offset_def first_bits more_first_bits w ready_masks clock_sources)
qed

text \<open>C10. \<open>init_core_clocks\<close> returns when the oscillator, the PLLs and the switches answer, with
  the HSE as source of both PLLs, PLL1 at 24 MHz * 100 / 3 (or * 81 / 3 for 650 MHz) with its
  three outputs divided by 1, 2 and 2, PLL2 at (66 + 5120 / 8192) * 24 MHz / 3 with outputs
  divided by 2, 1 and 1, both running with all outputs enabled, the MPU clocked by PLL1, the
  bus by PLL2, undivided, and no register outside the clock tree changed.\<close>

theorem core_clocks_set:
  assumes "rcc h regs rlag hse"
  shows "\<exists>s'. init_core_clocks h mhz s = Some s' \<and> hse (dev s') \<and>
    (let f = reg_field (regs (dev s'))
     in f MPUClockSrc = MPUClockSrcPLL1 \<and> f AXISClockSrc = AXISClockSrcPLL2 \<and> f AXIDiv = AXIDivOff \<and>
        f PLL12Source = PLL12SourceHSE \<and>
        f PLL1_Enable = 1 \<and> f PLL1_DIVPEnable = 1 \<and> f PLL1_DIVQEnable = 1 \<and> f PLL1_DIVREnable = 1 \<and>
        f PLL1_SSCG_Enable = 0 \<and> f PLL1_DIVM1 = 3 - 1 \<and> f PLL1_DIVN = (if mhz = 650 then 81 else 100) - 1 \<and>
        f PLL1_DIVP = 1 - 1 \<and> f PLL1_DIVQ = 2 - 1 \<and> f PLL1_DIVR = 2 - 1 \<and>
        f PLL1_FRACValue = 0 \<and> f PLL1_FRACLatch = 1 \<and>
        f PLL2_Enable = 1 \<and> f PLL2_DIVPEnable = 1 \<and> f PLL2_DIVQEnable = 1 \<and> f PLL2_DIVREnable = 1 \<and>
        f PLL2_SSCG_Enable = 0 \<and> f PLL2_DIVM2 = 3 - 1 \<and> f PLL2_DIVN = 66 - 1 \<and>
        f PLL2_DIVP = 2 - 1 \<and> f PLL2_DIVQ = 1 - 1 \<and> f PLL2_DIVR = 1 - 1 \<and>
        f PLL2_FRACValue = 5120 \<and> f PLL2_FRACLatch = 1) \<and>
    (\<forall>a. a \<notin> (\<lambda>off. RCC_BASE + off) ` {0xC, 0x10, 0x20, 0x24, 0x28, 0x30, 0x80, 0x84, 0x88, 0x8C, 0x94, 0x98, 0x9C, 0xA0}
       \<longrightarrow> regs (dev s') a = regs (dev s) a)"
  using core_clocks_run [OF assms, of mhz s] .

definition reset_state :: "board sys" where
  "reset_state = \<lparr>dev = (\<lambda>_. 0, \<lambda>_. 0, False), rand_y = 1, bist_error_max = 0, bist_seed = 0, result_msg = None\<rparr>"

theorem core_clocks_set_witness:
  "\<exists>s'. init_core_clocks (clock_board 27) 650 reset_state = Some s' \<and> snd (snd (dev s')) \<and>
     reg_field (fst (dev s')) PLL1_DIVN = 80 \<and> fst (dev s') 0x500000D8 = 0"
proof -
  have "(0x500000D8 :: u32) \<notin> (\<lambda>off. RCC_BASE + off) ` {0xC, 0x10, 0x20, 0x24, 0x28, 0x30, 0x80, 0x84, 0x88, 0x8C, 0x94, 0x98, 0x9C, 0xA0}"
    by (simp add: reg_defs)
  then show ?thesis
    using core_clocks_set [OF clock_rcc.rcc_axioms, of 27 650 reset_state]
    by (auto simp: Let_def reset_state_def)
qed

text \<open>The clocks that \<open>main\<close> sets are those that the DDR code asks for.\<close>

lemma pll2_for_ddr:
  assumes "reg_field r PLL2_DIVM2 = 2" "reg_field r PLL2_DIVN = 65" "reg_field r PLL2_DIVR = 0"
  shows "clock_ok r DDR_MEM_SPEED"
proof -
  have "pll_setting r = pll2r 65 2 0"
    using assms by (simp add: reg_field_def rcc_fields bits_offset_def first_bits pll_setting_def reg_defs)
  then show ?thesis by (simp add: clock_ok_def clock_delta_def pll2r_def DDR_MEM_SPEED_def)
qed

text \<open>The start of \<open>main\<close>: on a board whose clock controller and DDR controller answer and
  that has 512 MB of RAM, \<open>init_core_clocks\<close> followed by \<open>stm32mp1_ddr_setup\<close> returns 0. The
  clock check of the DDR code accepts the PLL2 settings of clocks.hh.\<close>

theorem boot_ram_ready:
  assumes "rcc h regs rlag hse" "ddr_board h regs lag" "wrapped_dram h mem decode region 0xC0000000 27 27"
  shows "\<exists>s1 s2. init_core_clocks h mhz s = Some s1 \<and> stm32mp1_ddr_setup h priv0 config0 s1 = Some (0, s2)"
proof -
  obtain s1 where s1: "init_core_clocks h mhz s = Some s1"
    "reg_field (regs (dev s1)) PLL2_DIVM2 = 2" "reg_field (regs (dev s1)) PLL2_DIVN = 65"
    "reg_field (regs (dev s1)) PLL2_DIVR = 0"
    using core_clocks_run [OF assms(1), of mhz s] by (auto simp: Let_def)
  obtain s2 where "stm32mp1_ddr_setup h priv0 config0 s1 = Some (0, s2)"
    using ddr_setup_runs [OF assms(2,3) pll2_for_ddr [OF s1(2-4)], of priv0 config0] by auto
  then show ?thesis using s1(1) by blast
qed

theorem boot_ram_ready_witness:
  "\<forall>priv0 config0. \<exists>s1 s2. init_core_clocks (clock_board 27) 650 reset_state = Some s1 \<and>
     stm32mp1_ddr_setup (clock_board 27) priv0 config0 s1 = Some (0, s2)"
  using boot_ram_ready [OF clock_rcc.rcc_axioms clock_ddr.ddr_board_axioms clock_ram.wrapped_dram_axioms [of 27, simplified]]
  by blast

end
