(* ===== verification/I2c.thy ===== *)
theory I2c
  imports Pins
begin

text \<open>
  The I2C driver (shared/drivers/i2c.hh, i2c\_conf.hh) and the power management chip behind it
  (bootloaders/mp1-boot/pmic.hh). The waits count a word down, so every function returns. The
  PMIC's log messages are not modelled.
\<close>

named_theorems i2c_defs

subsection \<open>Configuration\<close>

datatype I2C_Periph = I2C1 | I2C2 | I2C3 | I2C4 | I2C5 | I2C6

fun I2C_base :: "I2C_Periph \<Rightarrow> u32" where
  "I2C_base I2C1 = 0x40012000"
| "I2C_base I2C2 = 0x40013000"
| "I2C_base I2C3 = 0x40014000"
| "I2C_base I2C4 = 0x5C002000"
| "I2C_base I2C5 = 0x40015000"
| "I2C_base I2C6 = 0x5C009000"

record I2C_Config =
  periph :: I2C_Periph
  sda_pin :: PinConf
  scl_pin :: PinConf

definition I2C_CR1_PE :: u32 where [i2c_defs]: "I2C_CR1_PE = 1"
definition I2C_CR2_RD_WRN :: u32 where [i2c_defs]: "I2C_CR2_RD_WRN = 0x400"
definition I2C_CR2_START :: u32 where [i2c_defs]: "I2C_CR2_START = 0x2000"
definition I2C_CR2_RELOAD :: u32 where [i2c_defs]: "I2C_CR2_RELOAD = 0x1000000"
definition I2C_CR2_AUTOEND :: u32 where [i2c_defs]: "I2C_CR2_AUTOEND = 0x2000000"
definition I2C_ISR_TXIS :: u32 where [i2c_defs]: "I2C_ISR_TXIS = 2"
definition I2C_ISR_RXNE :: u32 where [i2c_defs]: "I2C_ISR_RXNE = 4"
definition I2C_ISR_NACKF :: u32 where [i2c_defs]: "I2C_ISR_NACKF = 0x10"
definition I2C_ISR_STOPF :: u32 where [i2c_defs]: "I2C_ISR_STOPF = 0x20"
definition I2C_ISR_TC :: u32 where [i2c_defs]: "I2C_ISR_TC = 0x40"
definition I2C_ISR_TCR :: u32 where [i2c_defs]: "I2C_ISR_TCR = 0x80"
definition I2C_ISR_BUSY :: u32 where [i2c_defs]: "I2C_ISR_BUSY = 0x8000"
definition I2C_ICR_STOPCF :: u32 where [i2c_defs]: "I2C_ICR_STOPCF = 0x20"
definition RCC_I2C46CKSELR :: u32 where [i2c_defs]: "RCC_I2C46CKSELR = 0xC0"

subsection \<open>The controller (i2c.hh)\<close>

record I2C_Controller =
  i2c :: u32
  address :: u32
  is_init :: bool

definition I2C_CR1 :: "I2C_Controller \<Rightarrow> u32" where "I2C_CR1 c = i2c c + 0x00"
definition I2C_CR2 :: "I2C_Controller \<Rightarrow> u32" where "I2C_CR2 c = i2c c + 0x04"
definition I2C_TIMINGR :: "I2C_Controller \<Rightarrow> u32" where "I2C_TIMINGR c = i2c c + 0x10"
definition I2C_ISR :: "I2C_Controller \<Rightarrow> u32" where "I2C_ISR c = i2c c + 0x18"
definition I2C_ICR :: "I2C_Controller \<Rightarrow> u32" where "I2C_ICR c = i2c c + 0x1C"
definition I2C_RXDR :: "I2C_Controller \<Rightarrow> u32" where "I2C_RXDR c = i2c c + 0x24"
definition I2C_TXDR :: "I2C_Controller \<Rightarrow> u32" where "I2C_TXDR c = i2c c + 0x28"

text \<open>\<open>while (waiting(ISR) && timeout--) {}\<close>; the value is the counter after the loop.\<close>

function poll_down :: "'d platform \<Rightarrow> u32 \<Rightarrow> (u32 \<Rightarrow> bool) \<Rightarrow> u32 \<Rightarrow> 'd sys \<Rightarrow> u32 \<times> 'd sys" where
  "poll_down h a waiting timeout s =
     (let (v, s) = readl h a s
      in if \<not> waiting v then (timeout, s)
         else if timeout = 0 then (timeout - 1, s)
         else poll_down h a waiting (timeout - 1) s)"
  by pat_completeness auto
termination
  by (relation "measure (\<lambda>(h, a, waiting, timeout, s). unat timeout)") (auto simp: unat_dec)

declare poll_down.simps [simp del]

definition wait_on_flag_high_or_timeout :: "'d platform \<Rightarrow> I2C_Controller \<Rightarrow> u32 \<Rightarrow> 'd sys \<Rightarrow> bool \<times> 'd sys" where
  "wait_on_flag_high_or_timeout h c flag s =
     (let (timeout, s) = poll_down h (I2C_ISR c) (\<lambda>isr. isr AND flag = 0) 0xFFFFFF s in (timeout > 0, s))"

definition wait_not_busy :: "'d platform \<Rightarrow> I2C_Controller \<Rightarrow> 'd sys \<Rightarrow> bool \<times> 'd sys" where
  "wait_not_busy h c s =
     (let (timeout, s) = poll_down h (I2C_ISR c) (\<lambda>isr. isr AND I2C_ISR_BUSY \<noteq> 0) 0xFFFFFF s in (timeout > 0, s))"

function ack_loop :: "'d platform \<Rightarrow> u32 \<Rightarrow> u32 \<Rightarrow> u32 \<Rightarrow> 'd sys \<Rightarrow> bool \<times> 'd sys" where
  "ack_loop h a flag timeout s =
     (if timeout = 0 then (False, s)
      else let (isr, s) = readl h a s
           in if isr AND flag \<noteq> 0 then (True, s)
              else if isr AND I2C_ISR_NACKF \<noteq> 0 then (False, s)
              else ack_loop h a flag (timeout - 1) s)"
  by pat_completeness auto
termination
  by (relation "measure (\<lambda>(h, a, flag, timeout, s). unat timeout)") (auto simp: unat_dec)

declare ack_loop.simps [simp del]

definition wait_on_flag_or_ack_or_timeout :: "'d platform \<Rightarrow> I2C_Controller \<Rightarrow> u32 \<Rightarrow> 'd sys \<Rightarrow> bool \<times> 'd sys" where
  "wait_on_flag_or_ack_or_timeout h c flag s = ack_loop h (I2C_ISR c) flag 0xFFFFFF s"

definition i2c_enable_bit :: "I2C_Periph \<Rightarrow> reg_bits" where
  "i2c_enable_bit p =
     the (RCC_Enable_bits
       (case p of I2C1 \<Rightarrow> ''I2C1'' | I2C2 \<Rightarrow> ''I2C2'' | I2C3 \<Rightarrow> ''I2C3'' | I2C4 \<Rightarrow> ''I2C4'' | I2C5 \<Rightarrow> ''I2C5'' | I2C6 \<Rightarrow> ''I2C6''))"

definition I2C_Controller_new :: "'d platform \<Rightarrow> u32 \<Rightarrow> I2C_Config \<Rightarrow> 'd sys \<Rightarrow> I2C_Controller \<times> 'd sys" where
  "I2C_Controller_new h i2c_address conf s =
     (let c = \<lparr>i2c = I2C_base (periph conf), address = i2c_address, is_init = False\<rparr>;
          s = PinConf_init_otype h (scl_pin conf) Alt OpenDrain s;
          s = PinConf_init_otype h (sda_pin conf) Alt OpenDrain s;
          s = RW_set h (i2c_enable_bit (periph conf)) s;
          s = writel h 2 (RCC_BASE + RCC_I2C46CKSELR) s;
          s = clrbits_le32 h (I2C_CR1 c) I2C_CR1_PE s;
          s = writel h 0x6020070A (I2C_TIMINGR c) s;
          s = setbits_le32 h (I2C_CR1 c) I2C_CR1_PE s;
          (ok, s) = wait_not_busy h c s
      in (if ok then c\<lparr>is_init := True\<rparr> else c, s))"

definition request_register_read :: "'d platform \<Rightarrow> I2C_Controller \<Rightarrow> u8 \<Rightarrow> 'd sys \<Rightarrow> bool \<times> 'd sys" where
  "request_register_read h c mem_address s =
     (let s = writel h (I2C_CR2_START OR push_bit 1 (address c) OR push_bit 16 1) (I2C_CR2 c) s;
          (ok, s) = wait_on_flag_or_ack_or_timeout h c I2C_ISR_TXIS s
      in if \<not> ok then (False, s)
         else let s = writel h (ucast mem_address) (I2C_TXDR c) s;
                  (ok, s) = wait_on_flag_high_or_timeout h c I2C_ISR_TC s
              in if \<not> ok then (False, s) else (True, s))"

text \<open>The \<open>do\<close> loop of \<open>read\<close>: \<open>bytes_left\<close> and the bytes stored.\<close>

function i2c_read_loop :: "'d platform \<Rightarrow> I2C_Controller \<Rightarrow> u32 \<Rightarrow> 'd sys \<Rightarrow> u32 \<times> u8 list \<times> 'd sys" where
  "i2c_read_loop h c bytes_left s =
     (let (ok, s) = wait_on_flag_high_or_timeout h c I2C_ISR_RXNE s
      in if \<not> ok then (bytes_left, [], s)
         else let (v, s) = readl h (I2C_RXDR c) s; bytes_left = bytes_left - 1
              in if bytes_left = 0 then (0, [ucast v], s)
                 else let (r, ds, s) = i2c_read_loop h c bytes_left s in (r, ucast v # ds, s))"
  by pat_completeness auto
termination
  by (relation "measure (\<lambda>(h, c, bytes_left, s). unat (bytes_left - 1))") (auto simp: unat_dec2)

declare i2c_read_loop.simps [simp del]

definition i2c_read :: "'d platform \<Rightarrow> I2C_Controller \<Rightarrow> u32 \<Rightarrow> 'd sys \<Rightarrow> bool \<times> u8 list \<times> 'd sys" where
  "i2c_read h c num_bytes s =
     (if num_bytes = 0 then (False, [], s)
      else let s = writel h (I2C_CR2_START OR push_bit 1 (address c) OR push_bit 16 num_bytes OR I2C_CR2_RD_WRN OR
                 I2C_CR2_AUTOEND) (I2C_CR2 c) s;
               (bytes_left, ds, s) = i2c_read_loop h c num_bytes s
           in (bytes_left = 0, ds, s))"

definition read_register :: "'d platform \<Rightarrow> I2C_Controller \<Rightarrow> u8 \<Rightarrow> u32 \<Rightarrow> 'd sys \<Rightarrow> bool \<times> u8 list \<times> 'd sys" where
  "read_register h c mem_address n s =
     (let (ok, s) = wait_not_busy h c s
      in if \<not> ok then (False, [], s)
         else let (ok, s) = request_register_read h c mem_address s
              in if ok then i2c_read h c n s else (False, [], s))"

definition read_register_byte :: "'d platform \<Rightarrow> I2C_Controller \<Rightarrow> u8 \<Rightarrow> 'd sys \<Rightarrow> u8 option \<times> 'd sys" where
  "read_register_byte h c mem_address s =
     (let (ok, ds, s) = read_register h c mem_address 1 s in (if ok then Some (ds ! 0) else None, s))"

definition write_register_byte :: "'d platform \<Rightarrow> I2C_Controller \<Rightarrow> u8 \<Rightarrow> u8 \<Rightarrow> 'd sys \<Rightarrow> bool \<times> 'd sys" where
  "write_register_byte h c mem_address val s =
     (let one_byte = 1;
          (ok, s) = wait_not_busy h c s
      in if \<not> ok then (False, s) else
         let s = writel h (I2C_CR2_START OR push_bit 1 (address c) OR push_bit 16 one_byte OR I2C_CR2_RELOAD) (I2C_CR2 c) s;
             (ok, s) = wait_on_flag_or_ack_or_timeout h c I2C_ISR_TXIS s
         in if \<not> ok then (False, s) else
            let s = writel h (ucast mem_address) (I2C_TXDR c) s;
                (ok, s) = wait_on_flag_high_or_timeout h c I2C_ISR_TCR s
            in if \<not> ok then (False, s) else
               let s = writel h (push_bit 1 (address c) OR push_bit 16 one_byte OR I2C_CR2_AUTOEND) (I2C_CR2 c) s;
                   (ok, s) = wait_on_flag_or_ack_or_timeout h c I2C_ISR_TXIS s
               in if \<not> ok then (False, s) else
                  let s = writel h (ucast val) (I2C_TXDR c) s;
                      (ok, s) = wait_on_flag_or_ack_or_timeout h c I2C_ISR_STOPF s
                  in if \<not> ok then (False, s) else (True, writel h I2C_ICR_STOPCF (I2C_ICR c) s))"

subsection \<open>The power management chip (pmic.hh)\<close>

definition PMIC_I2C_Address :: u32 where "PMIC_I2C_Address = 0x33"

definition RegisterMain :: "(string \<times> u8) list" where
  "RegisterMain =
     [(''ID'', 0x06), (''BUCK1_CR'', 0x20), (''BUCK2_CR'', 0x21), (''BUCK3_CR'', 0x22), (''BUCK4_CR'', 0x23),
      (''REFDDR_CR'', 0x24), (''LDO1_CR'', 0x25), (''LDO2_CR'', 0x26), (''LDO3_CR'', 0x27), (''LDO4_CR'', 0x28)]"

definition pmic_reg :: "string \<Rightarrow> u8" where
  "pmic_reg x = the (map_of RegisterMain x)"

text \<open>The unions, from bit fields (first field in the low bits) to \<open>val\<close>.\<close>

definition BUCKx_CR :: "u8 \<Rightarrow> u8 \<Rightarrow> u8 \<Rightarrow> u8" where
  "BUCKx_CR enable low_power vout = take_bit 1 enable OR push_bit 1 (take_bit 1 low_power) OR push_bit 2 (take_bit 6 vout)"

definition LDOx_CR :: "u8 \<Rightarrow> u8 \<Rightarrow> u8 \<Rightarrow> u8" where
  "LDOx_CR enable vout bypass = take_bit 1 enable OR push_bit 2 (take_bit 5 vout) OR push_bit 7 (take_bit 1 bypass)"

definition REFDDRx_CR :: "u8 \<Rightarrow> u8" where
  "REFDDRx_CR enable = take_bit 1 enable"

definition LDO3_VOUT2DIV2 :: u8 where "LDO3_VOUT2DIV2 = 31"
definition BUCK2_1350mV :: u8 where "BUCK2_1350mV = 30"
definition BUCKx_1200mV :: u8 where "BUCKx_1200mV = 24"

definition verify_chip_id :: "'d platform \<Rightarrow> I2C_Controller \<Rightarrow> 'd sys \<Rightarrow> bool \<times> 'd sys" where
  "verify_chip_id h c s =
     (let (v, s) = read_register_byte h c (pmic_reg ''ID'') s in (v \<noteq> None, s))"

definition STPMIC1_new :: "'d platform \<Rightarrow> I2C_Config \<Rightarrow> 'd sys \<Rightarrow> I2C_Controller \<times> 'd sys" where
  "STPMIC1_new h conf s =
     (let (c, s) = I2C_Controller_new h PMIC_I2C_Address conf s; (ok, s) = verify_chip_id h c s in (c, s))"

definition setup_vddcore_pwr :: "'d platform \<Rightarrow> I2C_Controller \<Rightarrow> 'd sys \<Rightarrow> bool \<times> 'd sys" where
  "setup_vddcore_pwr h c s =
     (let vddcore = BUCKx_CR 1 0 BUCKx_1200mV in write_register_byte h c (pmic_reg ''BUCK1_CR'') vddcore s)"

definition setup_ddr3_pwr :: "'d platform \<Rightarrow> I2C_Controller \<Rightarrow> 'd sys \<Rightarrow> bool \<times> 'd sys" where
  "setup_ddr3_pwr h c s =
     (let vtt = LDOx_CR 1 LDO3_VOUT2DIV2 0;
          vddr = BUCKx_CR 1 0 BUCK2_1350mV;
          ref = REFDDRx_CR 1;
          (ok, s) = write_register_byte h c (pmic_reg ''LDO3_CR'') vtt s
      in if \<not> ok then (False, s) else
         let (ok, s) = write_register_byte h c (pmic_reg ''BUCK2_CR'') vddr s
         in if \<not> ok then (False, s) else
            let s = udelay h 1000 s;
                (ok, s) = write_register_byte h c (pmic_reg ''REFDDR_CR'') ref s
            in if \<not> ok then (False, s) else (True, udelay h 1000 s))"


subsection \<open>The waits\<close>

lemma poll_down_stuck:
  assumes "\<And>d. waiting (fst (rd32 h a d))"
  shows "fst (poll_down h a waiting timeout s) = 0xFFFFFFFF"
proof (induction "unat timeout" arbitrary: timeout s)
  case 0
  then have "timeout = 0" by (simp add: unat_eq_0)
  then show ?case
    using assms [of "dev s"] by (simp add: poll_down.simps [of h a waiting 0 s] readl_def split_def Let_def)
next
  case (Suc n)
  then have t: "timeout \<noteq> 0" by auto
  then have "n = unat (timeout - 1)" using Suc.hyps(2) unat_minus_one [OF t] by simp
  from Suc.hyps(1) [OF this] show ?case
    using assms [of "dev s"] t by (simp add: poll_down.simps [of h a waiting timeout s] readl_def split_def Let_def)
qed

lemma poll_down_answers:
  assumes "\<And>d. P d \<Longrightarrow> \<not> waiting (fst (rd32 h a d)) \<or> lag (snd (rd32 h a d)) < (lag d :: nat)"
    and "\<And>d. P d \<Longrightarrow> P (snd (rd32 h a d))"
    and "P (dev s)" "lag (dev s) < unat timeout"
  shows "0 < fst (poll_down h a waiting timeout s) \<and> P (dev (snd (poll_down h a waiting timeout s)))"
  using assms(3,4)
proof (induction "unat timeout" arbitrary: timeout s)
  case (Suc n)
  then have t: "timeout \<noteq> 0" by auto
  then have n: "n = unat (timeout - 1)" using Suc.hyps(2) unat_minus_one [OF t] by simp
  obtain v d where d: "rd32 h a (dev s) = (v, d)" by fastforce
  then have P: "P d" "\<not> waiting v \<or> lag d < lag (dev s)"
    using assms(1,2) [OF Suc.prems(1)] by auto
  show ?case
  proof (cases "waiting v")
    case True
    then have "lag d < unat (timeout - 1)" using P(2) Suc.prems(2) Suc.hyps(2) n by linarith
    then show ?thesis
      using Suc.hyps(1) [OF n, of "s\<lparr>dev := d\<rparr>"] P(1) True t
      by (simp add: poll_down.simps [of h a waiting timeout s] readl_def d)
  next
    case False
    then show ?thesis
      using t P(1) by (simp add: poll_down.simps [of h a waiting timeout s] readl_def d word_gt_0)
  qed
qed simp

lemma ack_loop_answers:
  assumes "\<And>d. P d \<Longrightarrow> fst (rd32 h a d) AND flag \<noteq> 0 \<or>
      fst (rd32 h a d) AND I2C_ISR_NACKF = 0 \<and> lag (snd (rd32 h a d)) < (lag d :: nat)"
    and "\<And>d. P d \<Longrightarrow> P (snd (rd32 h a d))"
    and "P (dev s)" "lag (dev s) < unat timeout"
  shows "fst (ack_loop h a flag timeout s) \<and> P (dev (snd (ack_loop h a flag timeout s)))"
  using assms(3,4)
proof (induction "unat timeout" arbitrary: timeout s)
  case (Suc n)
  then have t: "timeout \<noteq> 0" by auto
  then have n: "n = unat (timeout - 1)" using Suc.hyps(2) unat_minus_one [OF t] by simp
  obtain v d where d: "rd32 h a (dev s) = (v, d)" by fastforce
  then have P: "P d" "v AND flag \<noteq> 0 \<or> v AND I2C_ISR_NACKF = 0 \<and> lag d < lag (dev s)"
    using assms(1,2) [OF Suc.prems(1)] by auto
  show ?case
  proof (cases "v AND flag = 0")
    case True
    then have "lag d < unat (timeout - 1)" using P(2) Suc.prems(2) Suc.hyps(2) n by linarith
    then show ?thesis
      using Suc.hyps(1) [OF n, of "s\<lparr>dev := d\<rparr>"] P True t
      by (simp add: ack_loop.simps [of h a flag timeout s] readl_def d)
  next
    case False
    then show ?thesis
      using t P(1) by (simp add: ack_loop.simps [of h a flag timeout s] readl_def d)
  qed
qed simp

text \<open>C20. A time-out of \<open>wait_on_flag_high_or_timeout\<close> or \<open>wait_not_busy\<close> is reported as success:
  the counter is decremented once more when it is 0, and wraps to a positive number. If the flag
  never shows the first returns true, if the bus stays busy the second does, and the controller
  then counts as initialised.\<close>

theorem i2c_timeouts_succeed:
  assumes "\<forall>d. fst (rd32 h (I2C_base (periph conf) + 0x18) d) AND flag = 0"
    and "\<forall>d. fst (rd32 h (I2C_base (periph conf) + 0x18) d) AND I2C_ISR_BUSY \<noteq> 0"
    and "i2c c = I2C_base (periph conf)"
  shows "fst (wait_on_flag_high_or_timeout h c flag s) \<and> fst (wait_not_busy h c s) \<and>
    is_init (fst (I2C_Controller_new h i2c_address conf s))"
proof -
  let ?a = "I2C_base (periph conf) + 0x18"
  have f: "fst (poll_down h ?a (\<lambda>isr. isr AND flag = 0) 0xFFFFFF s) = 0xFFFFFFFF"
    "fst (poll_down h ?a (\<lambda>isr. isr AND I2C_ISR_BUSY \<noteq> 0) 0xFFFFFF s) = 0xFFFFFFFF" for s
    by (rule poll_down_stuck; use assms(1,2) in blast)+
  have b: "fst (wait_not_busy h c s)" if "i2c c = I2C_base (periph conf)" for c s
    using f(2) [of s] that by (simp add: wait_not_busy_def I2C_ISR_def split_def Let_def)
  show ?thesis
    using f(1) [of s] b assms(3)
    by (simp add: wait_on_flag_high_or_timeout_def I2C_ISR_def I2C_Controller_new_def split_def Let_def)
qed

definition dead_bus :: "unit platform" where
  "dead_bus =
     \<lparr>rd32 = \<lambda>a d. (0x8000, d), wr32 = \<lambda>v a d. d, rd8 = \<lambda>a d. (0, d), wr8 = \<lambda>v a d. d,
      ctrlc_key = \<lambda>d. (False, d), elapse = \<lambda>_ d. d\<rparr>"

definition pmic_config :: I2C_Config where
  "pmic_config =
     \<lparr>periph = I2C4, sda_pin = \<lparr>gpio = GPIO_Z, pin = PinNum 5, af = 6\<rparr>, scl_pin = \<lparr>gpio = GPIO_Z, pin = PinNum 4, af = 6\<rparr>\<rparr>"

theorem i2c_timeouts_succeed_witness:
  "\<forall>s. is_init (fst (I2C_Controller_new dead_bus PMIC_I2C_Address pmic_config s))"
  using i2c_timeouts_succeed [where h = dead_bus and conf = pmic_config and flag = 2 and
      c = "\<lparr>i2c = I2C_base (periph pmic_config), address = 0, is_init = False\<rparr>"]
  by (simp add: dead_bus_def I2C_ISR_BUSY_def)

subsection \<open>The power sequence\<close>

text \<open>The register writes of one byte written to register \<open>m\<close> of the device.\<close>

definition byte_write :: "u32 \<Rightarrow> u32 \<Rightarrow> u8 \<Rightarrow> u8 \<Rightarrow> (u32 \<times> u32) list" where
  "byte_write b adr m v =
     [(b + 0x04, I2C_CR2_START OR push_bit 1 adr OR push_bit 16 1 OR I2C_CR2_RELOAD), (b + 0x28, ucast m),
      (b + 0x04, push_bit 1 adr OR push_bit 16 1 OR I2C_CR2_AUTOEND), (b + 0x28, ucast v), (b + 0x1C, I2C_ICR_STOPCF)]"

text \<open>Between transfers the last write was to no register of a transfer, or it started a read that ends by itself.\<close>

definition i2c_idle :: "u32 \<Rightarrow> (u32 \<times> u32) list \<Rightarrow> bool" where
  "i2c_idle p l \<longleftrightarrow> l = [] \<or> fst (List.last l) \<notin> {p + 0x04, p + 0x28} \<or>
     (\<exists>v. List.last l = (p + 0x04, v) \<and> v AND I2C_CR2_RD_WRN \<noteq> 0 \<and> v AND I2C_CR2_AUTOEND \<noteq> 0)"

text \<open>A bus whose device acknowledges, with the writes of the registers recorded in \<open>log\<close>: a flag that is
  due shows after some reads, fewer than the waits allow. \<open>TXIS\<close> is due after \<open>CR2\<close> was written,
  \<open>TCR\<close> after the byte of a transfer with \<open>RELOAD\<close>, \<open>STOPF\<close> after that of one with \<open>AUTOEND\<close>,
  \<open>TC\<close> after that of one with neither, \<open>RXNE\<close> in a read, and between transfers the bus gets free.\<close>

locale i2c_answers =
  fixes h :: "'d platform"
    and base :: u32
    and log :: "'d \<Rightarrow> (u32 \<times> u32) list"
    and lag :: "'d \<Rightarrow> nat"
  assumes rd_log: "log (snd (rd32 h a d)) = log d"
    and wr_log: "log (wr32 h v a d) = log d @ [(a, v)]"
    and elapse_log: "log (elapse h n d) = log d"
    and lag_bound: "lag d < 0xFFFFFF"
    and free: "i2c_idle base (log d) \<Longrightarrow>
      fst (rd32 h (base + 0x18) d) AND I2C_ISR_BUSY = 0 \<or> lag (snd (rd32 h (base + 0x18) d)) < lag d"
    and txis: "log d = l @ [(base + 0x04, v)] \<Longrightarrow> v AND I2C_CR2_RD_WRN = 0 \<Longrightarrow>
      fst (rd32 h (base + 0x18) d) AND I2C_ISR_TXIS \<noteq> 0 \<or>
      fst (rd32 h (base + 0x18) d) AND I2C_ISR_NACKF = 0 \<and> lag (snd (rd32 h (base + 0x18) d)) < lag d"
    and tcr: "log d = l @ [(base + 0x04, v), (base + 0x28, w)] \<Longrightarrow> v AND I2C_CR2_RELOAD \<noteq> 0 \<Longrightarrow>
      fst (rd32 h (base + 0x18) d) AND I2C_ISR_TCR \<noteq> 0 \<or> lag (snd (rd32 h (base + 0x18) d)) < lag d"
    and tc: "log d = l @ [(base + 0x04, v), (base + 0x28, w)] \<Longrightarrow> v AND (I2C_CR2_RELOAD OR I2C_CR2_AUTOEND) = 0 \<Longrightarrow>
      fst (rd32 h (base + 0x18) d) AND I2C_ISR_TC \<noteq> 0 \<or> lag (snd (rd32 h (base + 0x18) d)) < lag d"
    and rxne: "log d = l @ [(base + 0x04, v)] \<Longrightarrow> v AND I2C_CR2_RD_WRN \<noteq> 0 \<Longrightarrow>
      fst (rd32 h (base + 0x18) d) AND I2C_ISR_RXNE \<noteq> 0 \<or> lag (snd (rd32 h (base + 0x18) d)) < lag d"
    and stopf: "log d = l @ [(base + 0x04, v), (base + 0x28, w)] \<Longrightarrow> v AND I2C_CR2_AUTOEND \<noteq> 0 \<Longrightarrow>
      fst (rd32 h (base + 0x18) d) AND I2C_ISR_STOPF \<noteq> 0 \<or>
      fst (rd32 h (base + 0x18) d) AND I2C_ISR_NACKF = 0 \<and> lag (snd (rd32 h (base + 0x18) d)) < lag d"
begin

lemma writel_log: "log (dev (writel h v a s)) = log (dev s) @ [(a, v)]"
  by (simp add: writel_def wr_log)

lemma free_wait:
  assumes "i2c c = base" "i2c_idle base (log (dev s))"
  shows "\<exists>s'. wait_not_busy h c s = (True, s') \<and> log (dev s') = log (dev s)"
proof -
  have f: "fst (rd32 h (base + 0x18) d) AND I2C_ISR_BUSY = 0 \<or> lag (snd (rd32 h (base + 0x18) d)) < lag d"
    if "log d = log (dev s)" for d
    by (rule free) (use that assms(2) in simp)
  show ?thesis
    using poll_down_answers [where P = "\<lambda>d. log d = log (dev s)" and lag = lag and s = s and h = h and
        a = "base + 0x18" and timeout = "0xFFFFFF" and waiting = "\<lambda>isr. isr AND I2C_ISR_BUSY \<noteq> 0"]
      f rd_log lag_bound [of "dev s"] assms(1)
    by (cases "poll_down h (base + 0x18) (\<lambda>isr. isr AND I2C_ISR_BUSY \<noteq> 0) 0xFFFFFF s")
      (simp add: wait_not_busy_def I2C_ISR_def)
qed

lemma txis_wait:
  assumes "i2c c = base" "log (dev s) = l @ [(base + 0x04, v)]" "v AND I2C_CR2_RD_WRN = 0"
  shows "\<exists>s'. wait_on_flag_or_ack_or_timeout h c I2C_ISR_TXIS s = (True, s') \<and> log (dev s') = log (dev s)"
  using ack_loop_answers [where P = "\<lambda>d. log d = log (dev s)" and lag = lag and s = s and h = h and
      a = "base + 0x18" and timeout = "0xFFFFFF" and flag = I2C_ISR_TXIS]
    txis [where l = l and v = v] rd_log lag_bound [of "dev s"] assms
  by (cases "ack_loop h (base + 0x18) I2C_ISR_TXIS 0xFFFFFF s") (simp add: wait_on_flag_or_ack_or_timeout_def I2C_ISR_def)

lemma stopf_wait:
  assumes "i2c c = base" "log (dev s) = l @ [(base + 0x04, v), (base + 0x28, w)]" "v AND I2C_CR2_AUTOEND \<noteq> 0"
  shows "\<exists>s'. wait_on_flag_or_ack_or_timeout h c I2C_ISR_STOPF s = (True, s') \<and> log (dev s') = log (dev s)"
  using ack_loop_answers [where P = "\<lambda>d. log d = log (dev s)" and lag = lag and s = s and h = h and
      a = "base + 0x18" and timeout = "0xFFFFFF" and flag = I2C_ISR_STOPF]
    stopf [where l = l and v = v and w = w] rd_log lag_bound [of "dev s"] assms
  by (cases "ack_loop h (base + 0x18) I2C_ISR_STOPF 0xFFFFFF s") (simp add: wait_on_flag_or_ack_or_timeout_def I2C_ISR_def)

lemma high_wait:
  assumes "i2c c = base"
    and "\<And>d. log d = log (dev s) \<Longrightarrow> fst (rd32 h (base + 0x18) d) AND flag \<noteq> 0 \<or> lag (snd (rd32 h (base + 0x18) d)) < lag d"
  shows "\<exists>s'. wait_on_flag_high_or_timeout h c flag s = (True, s') \<and> log (dev s') = log (dev s)"
  using poll_down_answers [where P = "\<lambda>d. log d = log (dev s)" and lag = lag and s = s and h = h and
      a = "base + 0x18" and timeout = "0xFFFFFF" and waiting = "\<lambda>isr. isr AND flag = 0"]
    assms(2) rd_log lag_bound [of "dev s"] assms(1)
  by (cases "poll_down h (base + 0x18) (\<lambda>isr. isr AND flag = 0) 0xFFFFFF s")
    (simp add: wait_on_flag_high_or_timeout_def I2C_ISR_def)

lemma reload_autoend:
  "(x OR y OR z OR I2C_CR2_RELOAD) AND I2C_CR2_RELOAD \<noteq> 0" "(x OR y OR I2C_CR2_AUTOEND) AND I2C_CR2_AUTOEND \<noteq> 0"
proof -
  have a: "(x OR r) AND r = r" for x r :: u32 by (rule bit_word_eqI) (auto simp: bit_simps)
  show "(x OR y OR z OR I2C_CR2_RELOAD) AND I2C_CR2_RELOAD \<noteq> 0" "(x OR y OR I2C_CR2_AUTOEND) AND I2C_CR2_AUTOEND \<noteq> 0"
    unfolding or.assoc [symmetric] a by (simp_all add: i2c_defs)
qed

lemma no_read:
  assumes "adr < 0x200"
  shows "(I2C_CR2_START OR push_bit 1 adr OR push_bit 16 1 OR I2C_CR2_RELOAD) AND I2C_CR2_RD_WRN = 0"
    "(push_bit 1 adr OR push_bit 16 1 OR I2C_CR2_AUTOEND) AND I2C_CR2_RD_WRN = 0"
    "(I2C_CR2_START OR push_bit 1 adr OR push_bit 16 1) AND I2C_CR2_RD_WRN = 0"
    "(I2C_CR2_START OR push_bit 1 adr OR push_bit 16 1) AND (I2C_CR2_RELOAD OR I2C_CR2_AUTOEND) = 0"
proof -
  have b: "\<not> bit adr i" if "9 \<le> i" for i
  proof -
    have "adr = take_bit 9 adr" using assms less_mask_eq [of adr 9] by (simp add: take_bit_eq_mask)
    then show ?thesis using that by (metis bit_take_bit_iff linorder_not_le)
  qed
  have "(push_bit 1 adr) AND 0x400 = 0" "(push_bit 1 adr) AND 0x3000000 = 0"
  proof -
    have "push_bit 1 adr AND 2 ^ 10 = 0" "push_bit 1 adr AND 2 ^ 24 = 0" "push_bit 1 adr AND 2 ^ 25 = 0"
      using b [of 9] b [of 23] b [of 24] by (simp_all only: and_exp_eq_0_iff_not_bit) (simp_all add: bit_push_bit_iff del: push_bit_Suc One_nat_def)
    moreover have "(0x3000000 :: u32) = 2 ^ 24 OR 2 ^ 25" by simp
    moreover have "push_bit 1 adr AND (2 ^ 24 OR 2 ^ 25) = (push_bit 1 adr AND 2 ^ 24) OR (push_bit 1 adr AND 2 ^ 25)"
      by (rule bit.conj_disj_distrib)
    ultimately show "(push_bit 1 adr) AND 0x400 = 0" "(push_bit 1 adr) AND 0x3000000 = 0" by simp_all
  qed
  then show "(I2C_CR2_START OR push_bit 1 adr OR push_bit 16 1 OR I2C_CR2_RELOAD) AND I2C_CR2_RD_WRN = 0"
    "(push_bit 1 adr OR push_bit 16 1 OR I2C_CR2_AUTOEND) AND I2C_CR2_RD_WRN = 0"
    "(I2C_CR2_START OR push_bit 1 adr OR push_bit 16 1) AND I2C_CR2_RD_WRN = 0"
    "(I2C_CR2_START OR push_bit 1 adr OR push_bit 16 1) AND (I2C_CR2_RELOAD OR I2C_CR2_AUTOEND) = 0"
    by (simp_all add: bit.conj_disj_distrib2 i2c_defs)
qed

lemma byte_written:
  assumes "i2c c = base" "address c < 0x200" "i2c_idle base (log (dev s))"
  shows "\<exists>s'. write_register_byte h c m v s = (True, s') \<and>
    log (dev s') = log (dev s) @ byte_write base (address c) m v \<and> i2c_idle base (log (dev s'))"
proof -
  let ?start = "I2C_CR2_START OR push_bit 1 (address c) OR push_bit 16 1 OR I2C_CR2_RELOAD"
  let ?stop = "push_bit 1 (address c) OR push_bit 16 1 OR I2C_CR2_AUTOEND"
  have regs: "I2C_CR2 c = base + 0x04" "I2C_TXDR c = base + 0x28" "I2C_ICR c = base + 0x1C"
    using assms(1) by (simp_all add: I2C_CR2_def I2C_TXDR_def I2C_ICR_def)
  obtain s1 where s1: "wait_not_busy h c s = (True, s1)" "log (dev s1) = log (dev s)"
    using free_wait [OF assms(1,3)] by auto
  define s2 where "s2 = writel h ?start (base + 0x04) s1"
  obtain s3 where s3: "wait_on_flag_or_ack_or_timeout h c I2C_ISR_TXIS s2 = (True, s3)" "log (dev s3) = log (dev s2)"
    using txis_wait [OF assms(1), of s2] no_read [OF assms(2)] by (auto simp: s2_def writel_log)
  define s4 where "s4 = writel h (ucast m) (base + 0x28) s3"
  have "log (dev s4) = log (dev s1) @ [(base + 0x04, ?start), (base + 0x28, ucast m)]"
    by (simp add: s4_def s3(2) s2_def writel_log)
  then obtain s5 where s5: "wait_on_flag_high_or_timeout h c I2C_ISR_TCR s4 = (True, s5)" "log (dev s5) = log (dev s4)"
    using high_wait [OF assms(1), of s4 I2C_ISR_TCR] tcr reload_autoend by metis
  define s6 where "s6 = writel h ?stop (base + 0x04) s5"
  obtain s7 where s7: "wait_on_flag_or_ack_or_timeout h c I2C_ISR_TXIS s6 = (True, s7)" "log (dev s7) = log (dev s6)"
    using txis_wait [OF assms(1), of s6] no_read [OF assms(2)] by (auto simp: s6_def writel_log)
  define s8 where "s8 = writel h (ucast v) (base + 0x28) s7"
  have "log (dev s8) = log (dev s5) @ [(base + 0x04, ?stop), (base + 0x28, ucast v)]"
    by (simp add: s8_def s7(2) s6_def writel_log)
  then obtain s9 where s9: "wait_on_flag_or_ack_or_timeout h c I2C_ISR_STOPF s8 = (True, s9)" "log (dev s9) = log (dev s8)"
    using stopf_wait [OF assms(1), of s8] reload_autoend by blast
  define s10 where "s10 = writel h I2C_ICR_STOPCF (base + 0x1C) s9"
  have "write_register_byte h c m v s = (True, s10)"
    unfolding write_register_byte_def Let_def s1(1) prod.case regs s2_def [symmetric] s3(1) s4_def [symmetric] s5(1)
      s6_def [symmetric] s7(1) s8_def [symmetric] s9(1) s10_def
    by simp
  moreover have "log (dev s10) = log (dev s) @ byte_write base (address c) m v"
    by (simp add: s10_def s9(2) s8_def s7(2) s6_def s5(2) s4_def s3(2) s2_def s1(2) writel_log byte_write_def)
  ultimately show ?thesis by (simp add: i2c_idle_def byte_write_def)
qed

lemma chip_id_read:
  assumes "i2c c = base" "address c < 0x200" "i2c_idle base (log (dev s))"
  shows "\<exists>s'. verify_chip_id h c s = (True, s') \<and> i2c_idle base (log (dev s'))"
proof -
  let ?req = "I2C_CR2_START OR push_bit 1 (address c) OR push_bit 16 1"
  let ?rd = "I2C_CR2_START OR push_bit 1 (address c) OR push_bit 16 1 OR I2C_CR2_RD_WRN OR I2C_CR2_AUTOEND"
  have regs: "I2C_CR2 c = base + 0x04" "I2C_TXDR c = base + 0x28" "I2C_RXDR c = base + 0x24"
    using assms(1) by (simp_all add: I2C_CR2_def I2C_TXDR_def I2C_RXDR_def)
  have id: "pmic_reg ''ID'' = 6" by (simp add: pmic_reg_def RegisterMain_def)
  obtain s1 where s1: "wait_not_busy h c s = (True, s1)" "log (dev s1) = log (dev s)"
    using free_wait [OF assms(1,3)] by auto
  define s2 where "s2 = writel h ?req (base + 0x04) s1"
  obtain s3 where s3: "wait_on_flag_or_ack_or_timeout h c I2C_ISR_TXIS s2 = (True, s3)" "log (dev s3) = log (dev s2)"
    using txis_wait [OF assms(1), of s2] no_read [OF assms(2)] by (auto simp: s2_def writel_log)
  define s4 where "s4 = writel h (ucast (6 :: u8)) (base + 0x28) s3"
  have "log (dev s4) = log (dev s1) @ [(base + 0x04, ?req), (base + 0x28, ucast (6 :: u8))]"
    by (simp add: s4_def s3(2) s2_def writel_log)
  then obtain s5 where s5: "wait_on_flag_high_or_timeout h c I2C_ISR_TC s4 = (True, s5)" "log (dev s5) = log (dev s4)"
    using high_wait [OF assms(1), of s4 I2C_ISR_TC] tc no_read(4) [OF assms(2)] by metis
  define s6 where "s6 = writel h ?rd (base + 0x04) s5"
  have a: "(x OR r OR y) AND r \<noteq> 0" "(x OR y OR r) AND r \<noteq> 0" if "r \<noteq> 0" for x r y :: u32
  proof -
    have "(x OR r OR y) AND r = r" "(x OR y OR r) AND r = r" by (rule bit_word_eqI; auto simp: bit_simps)+
    then show "(x OR r OR y) AND r \<noteq> 0" "(x OR y OR r) AND r \<noteq> 0" using that by metis+
  qed
  have rd: "?rd AND I2C_CR2_RD_WRN \<noteq> 0" "?rd AND I2C_CR2_AUTOEND \<noteq> 0"
    using a(1) [of I2C_CR2_RD_WRN ?req I2C_CR2_AUTOEND] a(2) [of I2C_CR2_AUTOEND ?req I2C_CR2_RD_WRN]
    by (simp_all add: or.assoc i2c_defs)
  have l6: "log (dev s6) = log (dev s5) @ [(base + 0x04, ?rd)]" by (simp add: s6_def writel_log)
  then obtain s7 where s7: "wait_on_flag_high_or_timeout h c I2C_ISR_RXNE s6 = (True, s7)" "log (dev s7) = log (dev s6)"
    using high_wait [OF assms(1), of s6 I2C_ISR_RXNE] rxne rd(1) by metis
  obtain v s8 where s8: "readl h (base + 0x24) s7 = (v, s8)" by fastforce
  then have l8: "log (dev s8) = log (dev s7)" by (auto simp: readl_def split_def Let_def rd_log)
  have "i2c_read_loop h c 1 s6 = (0, [ucast v], s8)"
    by (simp add: i2c_read_loop.simps [of h c 1 s6] s7(1) regs s8)
  then have r: "i2c_read h c 1 s5 = (True, [ucast v], s8)"
    unfolding i2c_read_def Let_def regs s6_def [symmetric] by simp
  have "request_register_read h c 6 s1 = (True, s5)"
    unfolding request_register_read_def Let_def regs s2_def [symmetric] s3(1) prod.case s4_def [symmetric] s5(1) by simp
  then have "verify_chip_id h c s = (True, s8)"
    by (simp add: verify_chip_id_def read_register_byte_def read_register_def id s1(1) r)
  moreover have "i2c_idle base (log (dev s8))"
    using rd l6 l8 s7(2) by (auto simp: i2c_idle_def)
  ultimately show ?thesis by blast
qed

lemma pmic_starts:
  assumes "I2C_base (periph conf) = base"
  shows "\<exists>c s'. STPMIC1_new h conf s = (c, s') \<and> i2c c = base \<and> address c = PMIC_I2C_Address \<and> i2c_idle base (log (dev s'))"
proof -
  let ?c = "\<lparr>i2c = base, address = PMIC_I2C_Address, is_init = False\<rparr>"
  obtain s1 where s1: "I2C_Controller_new h PMIC_I2C_Address conf s =
      (let (ok, s) = wait_not_busy h ?c (setbits_le32 h base I2C_CR1_PE s1) in (if ok then ?c\<lparr>is_init := True\<rparr> else ?c, s))"
    using assms by (simp add: I2C_Controller_new_def Let_def I2C_CR1_def)
  have "i2c_idle base (log (dev (setbits_le32 h base I2C_CR1_PE s1)))"
    by (simp add: i2c_idle_def setbits_le32_def split_def Let_def writel_log)
  then obtain s2 where s2: "wait_not_busy h ?c (setbits_le32 h base I2C_CR1_PE s1) = (True, s2)" "i2c_idle base (log (dev s2))"
    using free_wait [of ?c "setbits_le32 h base I2C_CR1_PE s1"] by auto
  obtain s3 where s3: "verify_chip_id h (?c\<lparr>is_init := True\<rparr>) s2 = (True, s3)" "i2c_idle base (log (dev s3))"
    using chip_id_read [of "?c\<lparr>is_init := True\<rparr>" s2] s2(2) by (auto simp: PMIC_I2C_Address_def)
  show ?thesis using s1 s2(1) s3 by (simp add: STPMIC1_new_def)
qed

lemma power_sequence:
  assumes "I2C_base (periph conf) = base"
  shows "\<exists>c s1 s2 s3. STPMIC1_new h conf s = (c, s1) \<and> setup_vddcore_pwr h c s1 = (True, s2) \<and>
    setup_ddr3_pwr h c s2 = (True, s3) \<and> log (dev s3) = log (dev s1) @
      concat (map (\<lambda>(m, v). byte_write base 0x33 m v) [(0x20, 0x61), (0x27, 0x7D), (0x21, 0x79), (0x24, 0x01)])"
proof -
  obtain c s1 where s1: "STPMIC1_new h conf s = (c, s1)" "i2c c = base" "address c = 0x33" "i2c_idle base (log (dev s1))"
    using pmic_starts [OF assms, of s] by (auto simp: PMIC_I2C_Address_def)
  have w: "\<exists>s'. write_register_byte h c m v s = (True, s') \<and>
    log (dev s') = log (dev s) @ byte_write base 0x33 m v \<and> i2c_idle base (log (dev s'))"
    if "i2c_idle base (log (dev s))" for m v s
    using byte_written [OF s1(2) _ that, of m v] s1(3) by simp
  have vals: "pmic_reg ''BUCK1_CR'' = 0x20" "pmic_reg ''LDO3_CR'' = 0x27" "pmic_reg ''BUCK2_CR'' = 0x21"
    "pmic_reg ''REFDDR_CR'' = 0x24" "BUCKx_CR 1 0 BUCKx_1200mV = 0x61" "LDOx_CR 1 LDO3_VOUT2DIV2 0 = 0x7D"
    "BUCKx_CR 1 0 BUCK2_1350mV = 0x79" "REFDDRx_CR 1 = 1"
    by (simp_all add: pmic_reg_def RegisterMain_def BUCKx_CR_def LDOx_CR_def REFDDRx_CR_def BUCKx_1200mV_def
      LDO3_VOUT2DIV2_def BUCK2_1350mV_def)
  obtain s2 where s2: "write_register_byte h c 0x20 0x61 s1 = (True, s2)"
    "log (dev s2) = log (dev s1) @ byte_write base 0x33 0x20 0x61" "i2c_idle base (log (dev s2))"
    using w [OF s1(4)] by blast
  obtain s3 where s3: "write_register_byte h c 0x27 0x7D s2 = (True, s3)"
    "log (dev s3) = log (dev s2) @ byte_write base 0x33 0x27 0x7D" "i2c_idle base (log (dev s3))"
    using w [OF s2(3)] by blast
  obtain s4 where s4: "write_register_byte h c 0x21 0x79 s3 = (True, s4)"
    "log (dev s4) = log (dev s3) @ byte_write base 0x33 0x21 0x79" "i2c_idle base (log (dev s4))"
    using w [OF s3(3)] by blast
  have e: "log (dev (udelay h n s)) = log (dev s)" for n s
    by (simp add: udelay_def elapse_log)
  have "i2c_idle base (log (dev (udelay h 1000 s4)))" using s4(3) by (simp add: e)
  then obtain s5 where s5: "write_register_byte h c 0x24 1 (udelay h 1000 s4) = (True, s5)"
    "log (dev s5) = log (dev s4) @ byte_write base 0x33 0x24 1"
    using w e by metis
  show ?thesis
    using s1(1) s2(1,2) s3(1,2) s4(1,2) s5 e
    by (simp add: setup_vddcore_pwr_def setup_ddr3_pwr_def vals Let_def)
qed

end

text \<open>A device that records the writes and shows every flag at once.\<close>

definition log_board :: "(u32 \<times> u32) list platform" where
  "log_board =
     \<lparr>rd32 = \<lambda>a d. (I2C_ISR_TXIS OR I2C_ISR_RXNE OR I2C_ISR_STOPF OR I2C_ISR_TC OR I2C_ISR_TCR, d),
      wr32 = \<lambda>v a d. d @ [(a, v)],
      rd8 = \<lambda>a d. (0, d), wr8 = \<lambda>v a d. d, ctrlc_key = \<lambda>d. (False, d), elapse = \<lambda>_ d. d\<rparr>"

interpretation log_bus: i2c_answers log_board p "\<lambda>d. d" "\<lambda>_. 0" for p
  by unfold_locales (simp_all add: log_board_def i2c_defs)

text \<open>C19. With a device that answers, the driver starts, and the PMIC gets four bytes in this order:
  1.2 V on and enabled in BUCK1 (0x61), the termination supply LDO3 at half of BUCK2 (0x7D),
  1.35 V in BUCK2 (0x79), and the reference REFDDR (1), each as one complete transfer to address
  0x33; both functions succeed.\<close>

theorem pmic_power_sequence:
  assumes "i2c_answers h p log lag" "I2C_base (periph conf) = p"
  shows "\<exists>c s1 s2 s3. STPMIC1_new h conf s = (c, s1) \<and> setup_vddcore_pwr h c s1 = (True, s2) \<and>
    setup_ddr3_pwr h c s2 = (True, s3) \<and> log (dev s3) = log (dev s1) @
      concat (map (\<lambda>(m, v). byte_write p 0x33 m v) [(0x20, 0x61), (0x27, 0x7D), (0x21, 0x79), (0x24, 0x01)])"
  by (rule i2c_answers.power_sequence [OF assms])

theorem pmic_power_sequence_witness:
  "\<exists>c s1 s2 s3. STPMIC1_new log_board pmic_config
       \<lparr>dev = [], rand_y = 1, bist_error_max = 0, bist_seed = 0, result_msg = None\<rparr> = (c, s1) \<and>
     setup_vddcore_pwr log_board c s1 = (True, s2) \<and> setup_ddr3_pwr log_board c s2 = (True, s3) \<and>
     List.last (dev s3) = (0x5C00201C, 0x20)"
proof -
  let ?s = "\<lparr>dev = [], rand_y = 1, bist_error_max = 0, bist_seed = 0, result_msg = None\<rparr>"
  have "I2C_base (periph pmic_config) = 0x5C002000" by (simp add: pmic_config_def)
  from pmic_power_sequence [OF log_bus.i2c_answers_axioms this, of ?s] obtain c s1 s2 s3 where
    "STPMIC1_new log_board pmic_config ?s = (c, s1)" "setup_vddcore_pwr log_board c s1 = (True, s2)"
    "setup_ddr3_pwr log_board c s2 = (True, s3)" "List.last (dev s3) = (0x5C00201C, 0x20)"
    by (auto simp: byte_write_def I2C_ICR_STOPCF_def)
  then show ?thesis by blast
qed

end
