(* ===== verification/BootMain.thy ===== *)
theory BootMain
  imports BootLoad Clocks I2c
begin

text \<open>
  The boot loader as a whole (bootloaders/mp1-boot/main.cc) with its last parts: the LED and the
  start of the UART (shared/drivers/leds.hh, uart.hh), the security setup (systeminit.c) and the
  RAM test of main (ddr/ram\_tests.cc). \<open>main\<close> ends in the jump to the image or in the blinking
  that is never left; \<open>None\<close> is a wait that is never left, \<open>panic\<close> among them, or a division by
  zero. The board is that of osd32brk\_conf.hh, the one main.cc selects. The text that is printed
  is not modelled.

  \<open>mp1_board\<close> is the contract of the whole hardware, the union of the contracts of its parts.
  On it \<open>main\<close> starts the clocks, the PMIC and the RAM and jumps to the image of its boot medium.
\<close>

named_theorems main_defs

subsection \<open>LED (leds.hh)\<close>

datatype LedActive = Low | High

record Led =
  GPIOx :: GPIO
  PINMASK :: u16
  POLARITY :: LedActive

definition led_pin :: "Led \<Rightarrow> PinConf" where
  "led_pin l = \<lparr>gpio = GPIOx l, pin = PINMASK l, af = 0\<rparr>"

definition Led_new :: "'d platform \<Rightarrow> Led \<Rightarrow> 'd sys \<Rightarrow> 'd sys" where
  "Led_new h l s = PinConf_init_default h (led_pin l) Output s"

definition Led_on :: "'d platform \<Rightarrow> Led \<Rightarrow> 'd sys \<Rightarrow> 'd sys" where
  "Led_on h l s = (if POLARITY l = High then PinConf_high h (led_pin l) s else PinConf_low h (led_pin l) s)"

definition Led_off :: "'d platform \<Rightarrow> Led \<Rightarrow> 'd sys \<Rightarrow> 'd sys" where
  "Led_off h l s = (if POLARITY l = High then PinConf_low h (led_pin l) s else PinConf_high h (led_pin l) s)"

definition Led_set :: "'d platform \<Rightarrow> Led \<Rightarrow> bool \<Rightarrow> 'd sys \<Rightarrow> 'd sys" where
  "Led_set h l turnon s = (if turnon then Led_on h l s else Led_off h l s)"

definition Led_toggle :: "'d platform \<Rightarrow> Led \<Rightarrow> 'd sys \<Rightarrow> 'd sys" where
  "Led_toggle h l s = PinConf_toggle h (led_pin l) s"

subsection \<open>Start of the UART (uart.hh)\<close>

text \<open>\<open>LL_USART_Init\<close> of the vendor's stm32mp1xx\_ll\_usart.c is the parameter \<open>usart\<close>.\<close>

record LL_USART_InitTypeDef =
  PrescalerValue :: u32
  BaudRate :: u32
  DataWidth :: u32
  StopBits :: u32
  Parity :: u32
  TransferDirection :: u32
  HardwareFlowCtrl :: u32
  OverSampling :: u32

definition UART4_BASE :: u32 where [main_defs]: "UART4_BASE = 0x40010000"
definition USART6_BASE :: u32 where [main_defs]: "USART6_BASE = 0x44003000"
definition USART_CR1_UE :: u32 where [main_defs]: "USART_CR1_UE = 1"
definition USART_CR1_FIFOEN :: u32 where [main_defs]: "USART_CR1_FIFOEN = 0x20000000"
definition RCC_MP_APB1ENSETR :: u32 where [main_defs]: "RCC_MP_APB1ENSETR = 0xA00"
definition RCC_MP_APB2ENSETR :: u32 where [main_defs]: "RCC_MP_APB2ENSETR = 0xA08"

definition enable_rcc :: "'d platform \<Rightarrow> u32 \<Rightarrow> 'd sys \<Rightarrow> 'd sys" where
  "enable_rcc h BASE_ADDR s =
     (let s = (if BASE_ADDR = UART4_BASE then setbits_le32 h (RCC_BASE + RCC_MP_APB1ENSETR) 0x10000 s else s)
      in if BASE_ADDR = USART6_BASE then setbits_le32 h (RCC_BASE + RCC_MP_APB2ENSETR) 0x2000 s else s)"

definition Uart_init_conf ::
  "'d platform \<Rightarrow> (u32 \<Rightarrow> LL_USART_InitTypeDef \<Rightarrow> 'd \<Rightarrow> 'd) \<Rightarrow> u32 \<Rightarrow> LL_USART_InitTypeDef \<Rightarrow> 'd sys \<Rightarrow> 'd sys" where
  "Uart_init_conf h usart uart conf s =
     (let s = enable_rcc h uart s;
          s = clrbits_le32 h uart USART_CR1_UE s;
          s = s\<lparr>dev := usart uart conf (dev s)\<rparr>;
          s = setbits_le32 h uart USART_CR1_FIFOEN s
      in setbits_le32 h uart USART_CR1_UE s)"

definition Uart_init ::
  "'d platform \<Rightarrow> (u32 \<Rightarrow> LL_USART_InitTypeDef \<Rightarrow> 'd \<Rightarrow> 'd) \<Rightarrow> u32 \<Rightarrow> u32 \<Rightarrow> 'd sys \<Rightarrow> 'd sys" where
  "Uart_init h usart uart baudrate s =
     Uart_init_conf h usart uart
       \<lparr>PrescalerValue = 0, BaudRate = baudrate, DataWidth = 0, StopBits = 0, Parity = 0,
        TransferDirection = 0xC, HardwareFlowCtrl = 0, OverSampling = 0\<rparr> s"

definition Uart_new ::
  "'d platform \<Rightarrow> (u32 \<Rightarrow> LL_USART_InitTypeDef \<Rightarrow> 'd \<Rightarrow> 'd) \<Rightarrow> u32 \<Rightarrow> PinConf \<Rightarrow> PinConf \<Rightarrow> u32 \<Rightarrow> 'd sys \<Rightarrow> 'd sys" where
  "Uart_new h usart uart txpin rxpin baudrate s =
     (let s = PinConf_init_default h txpin Alt s;
          s = PinConf_init_default h rxpin Alt s
      in Uart_init h usart uart baudrate s)"

subsection \<open>Security setup (systeminit.c)\<close>

definition PWR_CR1 :: u32 where [main_defs]: "PWR_CR1 = 0x50001000"
definition PWR_CR1_DBP :: u32 where [main_defs]: "PWR_CR1_DBP = 0x100"
definition TZPC_DECPROT0 :: u32 where [main_defs]: "TZPC_DECPROT0 = 0x5C007010"
definition TZPC_TZMA1_SIZE :: u32 where [main_defs]: "TZPC_TZMA1_SIZE = 0x5C007004"
definition TAMP_CR1 :: u32 where [main_defs]: "TAMP_CR1 = 0x5C00A000"
definition GPIOZ_SECCFGR :: u32 where [main_defs]: "GPIOZ_SECCFGR = 0x54004030"
definition TZC_REG_ID_ACCESSO :: u32 where [main_defs]: "TZC_REG_ID_ACCESSO = 0x5C006114"
definition TZC_REG_ATTRIBUTESO :: u32 where [main_defs]: "TZC_REG_ATTRIBUTESO = 0x5C006110"
definition TZC_GATE_KEEPER :: u32 where [main_defs]: "TZC_GATE_KEEPER = 0x5C006008"

definition security_init :: "'d platform \<Rightarrow> 'd sys \<Rightarrow> 'd sys option" where
  "security_init h s =
     do { let s = setbits_le32 h PWR_CR1 PWR_CR1_DBP s;
          s \<leftarrow> loop (\<lambda>s. let (v, s) = readl h PWR_CR1 s in Some (if v AND PWR_CR1_DBP = 0 then Inr s else Inl s)) s;
          let s = writel h 0 (RCC_BASE + 0x00) s;
          let s = writel h 0x01FFFFFF TZPC_DECPROT0 s;
          let s = writel h 0 TZPC_TZMA1_SIZE s;
          let s = writel h 0 TAMP_CR1 s;
          let s = writel h 1 (RCC_BASE + 0x210) s;
          let s = writel h 0 GPIOZ_SECCFGR s;
          let s = writel h 0x800 (RCC_BASE + 0x208) s;
          let s = writel h 0x1000 (RCC_BASE + 0x208) s;
          let s = writel h 0xFFFFFFFF TZC_REG_ID_ACCESSO s;
          let s = setbits_le32 h TZC_REG_ATTRIBUTESO (push_bit 0 1 OR push_bit 1 1 OR push_bit 30 1 OR push_bit 31 1) s;
          Some (setbits_le32 h TZC_GATE_KEEPER (push_bit 0 1 OR push_bit 1 1) s) }"

subsection \<open>RAM test of main (ram\_tests.cc)\<close>

text \<open>A failure panics.\<close>

definition test_first_word :: "'d platform \<Rightarrow> 'd sys \<Rightarrow> (bool \<times> 'd sys) option" where
  "test_first_word h s =
     (let s = writel h 0x12345678 0xC0000000 s;
          (v, s) = readl h 0xC0000000 s
      in if v = 0x12345678 then Some (True, s) else None)"

definition run_all :: "'d platform \<Rightarrow> u32 \<Rightarrow> u32 \<Rightarrow> 'd sys \<Rightarrow> (bool \<times> 'd sys) option" where
  "run_all h start sz s = test_first_word h s"

subsection \<open>main\<close>

definition OrangeLED :: Led where
  "OrangeLED = \<lparr>GPIOx = GPIO_Z, PINMASK = PinNum 7, POLARITY = Low\<rparr>"

definition UartRX :: PinConf where "UartRX = \<lparr>gpio = GPIO_B, pin = PinNum 2, af = 8\<rparr>"
definition UartTX :: PinConf where "UartTX = \<lparr>gpio = GPIO_G, pin = PinNum 11, af = 6\<rparr>"
definition DRAM_MEM_BASE :: u32 where "DRAM_MEM_BASE = 0xC0000000"
definition MPU_MHz :: u32 where "MPU_MHz = 650"

text \<open>The part of \<open>main\<close> before the boot method is read.\<close>

definition main_prepare ::
  "'d platform \<Rightarrow> (u32 \<Rightarrow> LL_USART_InitTypeDef \<Rightarrow> 'd \<Rightarrow> 'd) \<Rightarrow> ddr_info \<Rightarrow> stm32mp1_ddr_config \<Rightarrow> 'd sys \<Rightarrow> 'd sys option" where
  "main_prepare h usart priv0 config0 s =
     do { let s = Led_new h OrangeLED s;
          s \<leftarrow> init_core_clocks h MPU_MHz s;
          s \<leftarrow> security_init h s;
          let s = Uart_new h usart UART4_BASE UartRX UartTX 115200 s;
          let (pmic, s) = STPMIC1_new h pmic_config s;
          let (ok, s) = setup_vddcore_pwr h pmic s;
          if \<not> ok then None else do {
            let (ok, s) = setup_ddr3_pwr h pmic s;
            if \<not> ok then None else do {
              (_, s) \<leftarrow> stm32mp1_ddr_setup h priv0 config0 s;
              (_, s) \<leftarrow> run_all h DRAM_MEM_BASE stm32mp1_ddr_get_size s;
              Some s } } }"

datatype main_end = Jumped u32 | Blinking

definition main_boot :: "'d platform \<Rightarrow> 'd sd_hal \<Rightarrow> BootMethod \<Rightarrow> 'd sys \<Rightarrow> (main_end \<times> 'd sys) option" where
  "main_boot h sd boot_method s =
     do { let (loader, s) = BootMediaLoader_new h sd boot_method s;
          (image_ok, loader, s) \<leftarrow> BootMediaLoader_load_image h sd loader s;
          if image_ok
          then do { (out, loader, s) \<leftarrow> boot_image h sd loader s;
                    Some (case out of JumpTo e \<Rightarrow> Jumped e | Returned \<Rightarrow> Blinking, s) }
          else Some (Blinking, s) }"

definition main ::
  "'d platform \<Rightarrow> (u32 \<Rightarrow> LL_USART_InitTypeDef \<Rightarrow> 'd \<Rightarrow> 'd) \<Rightarrow> 'd sd_hal \<Rightarrow> ddr_info \<Rightarrow> stm32mp1_ddr_config \<Rightarrow>
   'd sys \<Rightarrow> (main_end \<times> 'd sys) option" where
  "main h usart sd priv0 config0 s =
     do { s \<leftarrow> main_prepare h usart priv0 config0 s;
          let (boot_method, s) = read_boot_method h s;
          main_boot h sd boot_method s }"

text \<open>One round of the blinking.\<close>

definition blink :: "'d platform \<Rightarrow> 'd sys \<Rightarrow> 'd sys" where
  "blink h s =
     (let s = Led_on h OrangeLED s; s = udelay h 50000 s; s = Led_off h OrangeLED s in udelay h 50000 s)"

subsection \<open>What the steps leave alone\<close>

definition i2c_window :: "u32 \<Rightarrow> u32 set" where
  "i2c_window p = {p, p + 0x04, p + 0x10, p + 0x18, p + 0x1C, p + 0x24, p + 0x28}"

context plain_regs
begin

lemma frame_le32 [simp]:
  "a \<noteq> b \<Longrightarrow> regs (dev (setbits_le32 h b v s)) a = regs (dev s) a"
  "a \<noteq> b \<Longrightarrow> regs (dev (clrbits_le32 h b v s)) a = regs (dev s) a"
  "a \<noteq> b \<Longrightarrow> regs (dev (clrsetbits_le32 h b v w s)) a = regs (dev s) a"
  by (simp_all add: setbits_le32_def clrbits_le32_def clrsetbits_le32_def split_def Let_def)

lemma frame_enable:
  assumes "a \<noteq> enable_reg p"
  shows "regs (dev (GPIO_enable h p s)) a = regs (dev s) a"
  using assms
  by (auto simp: GPIO_enable_def GPIO_is_enabled_def enable_reg_def Let_def split_def RO_read_def RW_set_def
    GPIOZ_bits_def RCC_bits_def RCC_MP_AHB4ENSETR_def split: if_splits)

lemma frame_pin:
  assumes "g = GPIO_base (gpio c)" "a \<notin> insert (enable_reg g) (port_regs g)"
  shows "regs (dev (PinConf_init h c mode pull speed otype s)) a = regs (dev s) a"
  using assms
  by (simp add: PinConf_init_def Let_def port_regs_def frame_enable LL_GPIO_SetPinMode_def LL_GPIO_SetPinPull_def
    LL_GPIO_SetPinSpeed_def LL_GPIO_SetPinOutputType_def LL_GPIO_SetAFPin_0_7_def LL_GPIO_SetAFPin_8_15_def)

lemma frame_poll [simp]: "regs (dev (snd (poll_down h b w t s))) = regs (dev s)"
proof (induction "unat t" arbitrary: t s)
  case 0
  then have "t = 0" by (simp add: unat_eq_0)
  then show ?case by (simp add: poll_down.simps [of h b w 0 s] split_def Let_def)
next
  case (Suc n)
  then have "t \<noteq> 0" by auto
  then have "n = unat (t - 1)" using Suc.hyps(2) unat_minus_one [of t] by simp
  then show ?case
    using Suc.hyps(1) [of "t - 1"] by (simp add: poll_down.simps [of h b w t s] split_def Let_def)
qed

lemma frame_ack [simp]: "regs (dev (snd (ack_loop h b f t s))) = regs (dev s)"
proof (induction "unat t" arbitrary: t s)
  case 0
  then have "t = 0" by (simp add: unat_eq_0)
  then show ?case by (simp add: ack_loop.simps [of h b f 0 s])
next
  case (Suc n)
  then have "t \<noteq> 0" by auto
  then have "n = unat (t - 1)" using Suc.hyps(2) unat_minus_one [of t] by simp
  then show ?case
    using Suc.hyps(1) [of "t - 1"] by (simp add: ack_loop.simps [of h b f t s] split_def Let_def)
qed

lemma frame_i2c_waits [simp]:
  "regs (dev (snd (wait_on_flag_high_or_timeout h c f s))) = regs (dev s)"
  "regs (dev (snd (wait_on_flag_or_ack_or_timeout h c f s))) = regs (dev s)"
  "regs (dev (snd (wait_not_busy h c s))) = regs (dev s)"
  by (simp_all add: wait_on_flag_high_or_timeout_def wait_on_flag_or_ack_or_timeout_def wait_not_busy_def split_def Let_def)

lemma frame_i2c_read [simp]: "regs (dev (snd (snd (i2c_read_loop h c n s)))) = regs (dev s)"
proof (induction "unat (n - 1)" arbitrary: n s)
  case 0
  then have "n = 1" by (simp add: unat_eq_0)
  then show ?case by (simp add: i2c_read_loop.simps [of h c 1 s] split_def Let_def)
next
  case (Suc k)
  then have "n - 1 \<noteq> 0" by auto
  then have "k = unat (n - 1 - 1)" using Suc.hyps(2) unat_minus_one [of "n - 1"] by simp
  then show ?case
    using Suc.hyps(1) [of "n - 1"] by (simp add: i2c_read_loop.simps [of h c n s] split_def Let_def)
qed

lemma frame_i2c:
  assumes "a \<notin> i2c_window (i2c c)"
  shows "regs (dev (snd (write_register_byte h c m v s))) a = regs (dev s) a"
    "regs (dev (snd (read_register_byte h c m s))) a = regs (dev s) a"
  using assms
  by (simp_all add: i2c_window_def write_register_byte_def read_register_byte_def read_register_def
    request_register_read_def i2c_read_def split_def Let_def I2C_CR2_def I2C_TXDR_def I2C_ICR_def)

end

subsection \<open>The hardware\<close>

text \<open>The clock controller, the DDR controller and its RAM, the PMIC on its bus, and: the boot ROM's
  word and the power controller read back what was written, the latter after some reads, and the
  vendor's start of a UART writes to the UART only.\<close>

locale mp1_board =
  clk: rcc h regs rlag hse + ddr: ddr_board h regs lag + ram: wrapped_dram h mem decode region "0xC0000000" 27 27 +
  bus: i2c_answers h "0x5C002000" log ilag
  for h :: "'d platform" and regs rlag hse lag mem decode region log ilag +
  fixes plag :: "'d \<Rightarrow> nat"
    and usart :: "u32 \<Rightarrow> LL_USART_InitTypeDef \<Rightarrow> 'd \<Rightarrow> 'd"
  assumes rom_word: "fst (rd32 h BOOTROM_PARAM_ADDR d) = regs d BOOTROM_PARAM_ADDR"
    and pwr_follows: "regs d PWR_CR1 AND PWR_CR1_DBP \<noteq> 0 \<Longrightarrow> fst (rd32 h PWR_CR1 d) AND PWR_CR1_DBP \<noteq> 0 \<or>
      plag (snd (rd32 h PWR_CR1 d)) < plag d"
    and usart_regs: "a \<notin> {UART4_BASE..<UART4_BASE + 0x400} \<Longrightarrow> regs (usart UART4_BASE conf d) a = regs d a"

text \<open>The registers that a step of \<open>main\<close> relies on and that the steps between leave alone.\<close>

definition main_kept :: "u32 set" where
  "main_kept = {0x50000098, 0x5000009C, 0x2FFC0078}"

sublocale mp1_board \<subseteq> wr: plain_regs h regs "{}"
  by unfold_locales (simp_all add: ddr.rd_regs ddr.wr_regs)

context mp1_board
begin

lemma led_kept: "a \<in> main_kept \<Longrightarrow> regs (dev (Led_new h OrangeLED s)) a = regs (dev s) a"
  by (auto simp: Led_new_def OrangeLED_def led_pin_def PinConf_init_default_def wr.frame_pin [OF refl] main_kept_def
    port_regs_def enable_reg_def GPIOZ_def RCC_BASE_def)

lemma uart_kept:
  assumes "a \<in> main_kept"
  shows "regs (dev (Uart_new h usart UART4_BASE UartRX UartTX b s)) a = regs (dev s) a"
proof -
  have "a \<notin> {UART4_BASE..<UART4_BASE + 0x400}"
    using assms by (auto simp: main_kept_def main_defs)
  note u = usart_regs [OF this, unfolded UART4_BASE_def]
  show ?thesis
    using assms u
    by (auto simp: Uart_new_def Uart_init_def Uart_init_conf_def enable_rcc_def Let_def PinConf_init_default_def
      wr.frame_pin [OF refl] UartRX_def UartTX_def main_kept_def port_regs_def enable_reg_def reg_defs main_defs)
qed

lemma pwr_wait:
  assumes "regs (dev s) PWR_CR1 AND PWR_CR1_DBP \<noteq> 0"
  shows "\<exists>s'. loop (\<lambda>s. let (v, s) = readl h PWR_CR1 s in Some (if v AND PWR_CR1_DBP = 0 then Inr s else Inl s)) s = Some s' \<and>
    regs (dev s') = regs (dev s)"
proof (rule loop_total [where I = "\<lambda>s'. regs (dev s') = regs (dev s)" and m = "\<lambda>s. plag (dev s)"])
  fix s' :: "'d sys"
  assume I: "regs (dev s') = regs (dev s)"
  obtain v d where rd: "rd32 h PWR_CR1 (dev s') = (v, d)" by fastforce
  show "(\<exists>r. (let (v, s) = readl h PWR_CR1 s' in Some (if v AND PWR_CR1_DBP = 0 then Inr s else Inl s)) = Some (Inl r) \<and>
      regs (dev r) = regs (dev s)) \<or>
    (\<exists>s''. (let (v, s) = readl h PWR_CR1 s' in Some (if v AND PWR_CR1_DBP = 0 then Inr s else Inl s)) = Some (Inr s'') \<and>
      regs (dev s'') = regs (dev s) \<and> plag (dev s'') < plag (dev s'))"
    using pwr_follows [of "dev s'"] ddr.rd_regs [of PWR_CR1 "dev s'"] I assms by (auto simp: readl_def rd)
qed simp

lemma security_returns:
  "\<exists>s'. security_init h s = Some s' \<and> (\<forall>a\<in>main_kept. regs (dev s') a = regs (dev s) a)"
proof -
  have b: "(x OR PWR_CR1_DBP) AND PWR_CR1_DBP \<noteq> 0" for x by (simp add: bit.conj_disj_distrib2 PWR_CR1_DBP_def)
  then obtain s1 where s1: "loop (\<lambda>s. let (v, s) = readl h PWR_CR1 s in Some (if v AND PWR_CR1_DBP = 0 then Inr s else Inl s))
      (setbits_le32 h PWR_CR1 PWR_CR1_DBP s) = Some s1" "regs (dev s1) = regs (dev (setbits_le32 h PWR_CR1 PWR_CR1_DBP s))"
    using pwr_wait [of "setbits_le32 h PWR_CR1 PWR_CR1_DBP s"] by (auto simp: setbits_le32_def split_def Let_def)
  have k: "regs (dev s1) a = regs (dev s) a" if "a \<in> main_kept" for a
    using that by (auto simp: s1(2) main_kept_def PWR_CR1_def)
  show ?thesis
    unfolding security_init_def Let_def s1(1) [unfolded Let_def] Option.bind.simps
    using k by (auto simp: main_kept_def main_defs reg_defs)
qed

lemma i2c4_enable: "BaseAddress (i2c_enable_bit I2C4) = 0x50000208"
  by (simp add: i2c_enable_bit_def RCC_Enable_bits_def RCC_Enable_def RCC_bits_def reg_defs)

lemma pmic_starts_kept:
  assumes "a \<in> main_kept"
  shows "regs (dev (snd (STPMIC1_new h pmic_config s))) a = regs (dev s) a"
  using assms i2c4_enable
  by (auto simp: STPMIC1_new_def I2C_Controller_new_def verify_chip_id_def Let_def split_def pmic_config_def
    PinConf_init_otype_def RW_set_def wr.frame_pin [OF refl] wr.frame_i2c(2) main_kept_def port_regs_def enable_reg_def
    i2c_window_def I2C_CR1_def I2C_TIMINGR_def RCC_I2C46CKSELR_def reg_defs)

lemma pmic_kept:
  assumes "a \<in> main_kept" "i2c c = 0x5C002000"
  shows "regs (dev (snd (setup_vddcore_pwr h c s))) a = regs (dev s) a"
    "regs (dev (snd (setup_ddr3_pwr h c s))) a = regs (dev s) a"
proof -
  have w: "regs (dev (snd (write_register_byte h c m v s))) a = regs (dev s) a" for m v s
    by (rule wr.frame_i2c(1)) (use assms in \<open>auto simp: main_kept_def i2c_window_def\<close>)
  then show "regs (dev (snd (setup_vddcore_pwr h c s))) a = regs (dev s) a"
    by (simp add: setup_vddcore_pwr_def Let_def)
  show "regs (dev (snd (setup_ddr3_pwr h c s))) a = regs (dev s) a"
    using w by (simp add: setup_ddr3_pwr_def Let_def split_def udelay_def ddr.elapse_regs)
qed

lemma ready_keeps_rom: "ddr_ready config r 0x2FFC0078 = r 0x2FFC0078"
proof (rule ready_other)
  show "0x2FFC0078 \<notin> set (table_addrs @ init_regs)"
    unfolding table_addrs_offsets table_offsets init_regs_def by (simp add: reg_defs)
qed

lemma ram_setup:
  assumes "reg_field (regs (dev s)) PLL2_DIVM2 = 2" "reg_field (regs (dev s)) PLL2_DIVN = 65"
    and "reg_field (regs (dev s)) PLL2_DIVR = 0"
  shows "\<exists>s'. stm32mp1_ddr_setup h priv0 config0 s = Some (0, s') \<and> regs (dev s') 0x2FFC0078 = regs (dev s) 0x2FFC0078"
proof -
  obtain s' where s': "stm32mp1_ddr_setup h priv0 config0 s = Some (0, s')"
    "\<forall>a < 0xC0000000. a \<noteq> RCC_BASE + RCC_DDRITFCR \<longrightarrow>
       regs (dev s') a = ddr_ready ((stm32mp1_ddr_get_config config0)\<lparr>p_cal_present := False\<rparr>) (regs (dev s)) a"
    using ddr_setup_runs [OF ddr.ddr_board_axioms ram.wrapped_dram_axioms pll2_for_ddr [OF assms], of priv0 config0]
    by (auto simp: Let_def)
  have "(0x2FFC0078 :: u32) < 0xC0000000" "(0x2FFC0078 :: u32) \<noteq> RCC_BASE + RCC_DDRITFCR" by (simp_all add: reg_defs)
  then show ?thesis using s' by (auto simp: ready_keeps_rom)
qed

lemma first_word_ok:
  "\<exists>s'. test_first_word h s = Some (True, s') \<and> regs (dev s') 0x2FFC0078 = regs (dev s) 0x2FFC0078"
proof -
  have "0xC0000000 \<in> region" using ram.probed [of 0] by simp
  then have "fst (readl h 0xC0000000 (writel h v 0xC0000000 s)) = v" for v
    by (simp add: readl_def writel_def split_def Let_def ram.rd_val ram.wr_mem sound_cell_def)
  then show ?thesis by (simp add: test_first_word_def split_def Let_def)
qed

text \<open>Everything before the boot medium is chosen.\<close>

lemma prepare_returns:
  "\<exists>s'. main_prepare h usart priv0 config0 s = Some s' \<and> regs (dev s') 0x2FFC0078 = regs (dev s) 0x2FFC0078"
proof -
  define s1 where "s1 = Led_new h OrangeLED s"
  obtain s2 where s2: "init_core_clocks h MPU_MHz s1 = Some s2"
    "reg_field (regs (dev s2)) PLL2_DIVM2 = 2" "reg_field (regs (dev s2)) PLL2_DIVN = 65"
    "reg_field (regs (dev s2)) PLL2_DIVR = 0" "regs (dev s2) 0x2FFC0078 = regs (dev s1) 0x2FFC0078"
  proof -
    have "(0x2FFC0078 :: u32) \<notin> (\<lambda>off. RCC_BASE + off) `
        {0xC, 0x10, 0x20, 0x24, 0x28, 0x30, 0x80, 0x84, 0x88, 0x8C, 0x94, 0x98, 0x9C, 0xA0}"
      by (simp add: reg_defs)
    then show thesis
      using core_clocks_run [OF clk.rcc_axioms, of MPU_MHz s1] that by (auto simp: Let_def)
  qed
  obtain s3 where s3: "security_init h s2 = Some s3" "\<forall>a\<in>main_kept. regs (dev s3) a = regs (dev s2) a"
    using security_returns [of s2] by blast
  define s4 where "s4 = Uart_new h usart UART4_BASE UartRX UartTX 115200 s3"
  obtain c s5 s6 s7 where s5: "STPMIC1_new h pmic_config s4 = (c, s5)" "setup_vddcore_pwr h c s5 = (True, s6)"
    "setup_ddr3_pwr h c s6 = (True, s7)"
    using bus.power_sequence [of pmic_config s4] by (auto simp: pmic_config_def)
  have c: "i2c c = 0x5C002000"
    using s5(1) by (auto simp: STPMIC1_new_def I2C_Controller_new_def pmic_config_def Let_def split_def split: if_splits)
  have k: "regs (dev s7) a = regs (dev s2) a" if a: "a \<in> main_kept" for a
    using pmic_kept [OF a c, of s5] pmic_kept [OF a c, of s6] pmic_starts_kept [OF a, of s4]
      uart_kept [OF a, of 115200 s3] s3(2) a s5
    by (simp add: s4_def)
  have f: "reg_field (regs (dev s7)) r = reg_field (regs (dev s2)) r" if "r \<in> {PLL2_DIVM2, PLL2_DIVN, PLL2_DIVR}" for r
    using that by (auto simp: reg_field_def k main_kept_def rcc_fields RCC_bits_def reg_defs)
  obtain s8 where s8: "stm32mp1_ddr_setup h priv0 config0 s7 = Some (0, s8)"
    "regs (dev s8) 0x2FFC0078 = regs (dev s7) 0x2FFC0078"
    using ram_setup [of s7 priv0 config0] f s2 by auto
  obtain s9 where s9: "test_first_word h s8 = Some (True, s9)" "regs (dev s9) 0x2FFC0078 = regs (dev s8) 0x2FFC0078"
    using first_word_ok [of s8] by blast
  have "main_prepare h usart priv0 config0 s = Some s9"
    by (simp add: main_prepare_def Let_def s1_def [symmetric] s2(1) s3(1) s4_def [symmetric] s5 s8(1) s9(1) run_all_def)
  moreover have "regs (dev s1) 0x2FFC0078 = regs (dev s) 0x2FFC0078"
    using led_kept [of "0x2FFC0078" s] by (simp add: s1_def main_kept_def)
  ultimately show ?thesis
    using s9(2) s8(2) s2(5) k [of "0x2FFC0078"] by (simp add: main_kept_def)
qed

lemma rom_method:
  "\<exists>s'. read_boot_method h s = (if regs (dev s) 0x2FFC0078 AND 0xF < 8 then BootMethod_of (regs (dev s) 0x2FFC0078 AND 0xF)
      else BOOT_UNKNOWN, s') \<and> regs (dev s') = regs (dev s)"
proof -
  have "(x AND 0xFFFF) AND 0xF = x AND (0xF :: u32)" for x by (simp add: and.assoc)
  then show ?thesis
    using rom_word [of "dev s"] ddr.rd_regs [of BOOTROM_PARAM_ADDR "dev s"]
    by (auto simp: read_boot_method_def read_raw_bootrom_itf_def readl_def split_def Let_def BOOTROM_MODE_SHIFT_def
      BOOTROM_MODE_MASK_def BOOTROM_PARAM_ADDR_def NUM_BOOT_METHODS_def)
qed

text \<open>\<open>main\<close> ends as the boot from the medium that the boot ROM's word names.\<close>

lemma main_as_boot:
  assumes "m = (if regs (dev s) 0x2FFC0078 AND 0xF < 8 then BootMethod_of (regs (dev s) 0x2FFC0078 AND 0xF) else BOOT_UNKNOWN)"
  shows "\<exists>s'. main h usart sd priv0 config0 s = main_boot h sd m s'"
proof -
  obtain s1 where s1: "main_prepare h usart priv0 config0 s = Some s1" "regs (dev s1) 0x2FFC0078 = regs (dev s) 0x2FFC0078"
    using prepare_returns [of priv0 config0 s] by blast
  obtain s2 where "read_boot_method h s1 = (m, s2)"
    using rom_method [of s1] s1(2) assms by auto
  then show ?thesis using s1(1) by (auto simp: main_def)
qed

end

end
