(* ===== verification/BootMainRun.thy ===== *)
theory BootMainRun
  imports BootMain
begin

text \<open>
  What \<open>main\<close> achieves. From the contracts of the loaders follows what its last part does with any
  medium; with \<open>mp1_board\<close> the whole of it is followed from reset to the jump. \<open>mp1_device\<close> is
  a device that meets all contracts: registers, RAM words with byte lanes, a serial flash behind the
  QSPI window, and a card with a partition table and an image.
\<close>

subsection \<open>The last part of main\<close>

lemma main_boot_jumps:
  assumes "boot_loader (loader_read_header h sd) (loader_load_image h sd) mem8 ram img started ready"
    and "get_boot_loader h sd m s = (Some l, s1)" "started l s1" "image_at img ram e n"
  shows "\<exists>s'. main_boot h sd m s = Some (Jumped e, s') \<and> (\<forall>i < n. mem8 (dev s') (e + of_nat i) = img ! (64 + i))"
proof -
  define b where "b = \<lparr>image_loaded = False, image_info = \<lparr>load_addr = 0, entry_point = 0, image_size = 0\<rparr>, loader_of = Some l\<rparr>"
  have new: "BootMediaLoader_new h sd m s = (b, s1)"
    using assms(2) by (simp add: BootMediaLoader_new_def set_bootmethod_def b_def)
  obtain b' s' where r: "load_image_with (loader_read_header h sd) (loader_load_image h sd) b s1 = Some (True, b', s')"
    "image_loaded b'" "entry_point (image_info b') = e" "\<forall>i < n. mem8 (dev s') (e + of_nat i) = img ! (64 + i)"
    using boot_loader.image_loads [OF assms(1) _ assms(3,4), of b] by (auto simp: b_def)
  then show ?thesis
    by (simp add: main_boot_def new BootMediaLoader_load_image_def boot_image_def)
qed

lemma main_boot_rejects:
  assumes "boot_loader (loader_read_header h sd) (loader_load_image h sd) mem8 ram img started ready"
    and "get_boot_loader h sd m s = (Some l, s1)" "started l s1"
    and "be32_to_cpu (ih_magic (image_header_of (take 64 img))) \<noteq> IH_MAGIC"
  shows "\<exists>s'. main_boot h sd m s = Some (Blinking, s')"
proof -
  define b where "b = \<lparr>image_loaded = False, image_info = \<lparr>load_addr = 0, entry_point = 0, image_size = 0\<rparr>, loader_of = Some l\<rparr>"
  have new: "BootMediaLoader_new h sd m s = (b, s1)"
    using assms(2) by (simp add: BootMediaLoader_new_def set_bootmethod_def b_def)
  obtain b' s' where "load_image_with (loader_read_header h sd) (loader_load_image h sd) b s1 = Some (False, b', s')"
    using boot_loader.image_rejected [OF assms(1) _ assms(3,4), of b] by (auto simp: b_def)
  then show ?thesis
    by (simp add: main_boot_def new BootMediaLoader_load_image_def)
qed

lemma main_boot_no_loader:
  assumes "m \<noteq> BOOT_NOR" "m \<noteq> BOOT_SDCARD"
  shows "main_boot h sd m s = Some (Blinking, s)"
  using assms
  by (simp add: main_boot_def BootMediaLoader_new_def set_bootmethod_def get_boot_loader_def
    BootMediaLoader_load_image_def load_image_with_def)

subsection \<open>A device\<close>

record mp1_device =
  rg :: "u32 \<Rightarrow> u32"
  cell :: "u32 \<Rightarrow> u32"
  hse_on :: bool
  wlog :: "(u32 \<times> u32) list"

definition lane :: "(u32 \<Rightarrow> u32) \<Rightarrow> u32 \<Rightarrow> u8" where
  "lane c a = ucast (gpio_field (c (a AND NOT 3)) 8 (unat (a AND 3)))"

definition set_lane :: "u8 \<Rightarrow> u32 \<Rightarrow> (u32 \<Rightarrow> u32) \<Rightarrow> u32 \<Rightarrow> u32" where
  "set_lane v a c = c(a AND NOT 3 := put_field (c (a AND NOT 3)) 8 (unat (a AND 3)) (ucast v))"

lemma lane_set_lane: "lane (set_lane v a c) = (lane c)(a := v)"
proof
  fix b :: u32
  have k: "unat (x AND 3) < 4" for x :: u32
    using and_mask_less' [of 2 x] by (simp add: mask_eq_exp_minus_1 word_less_nat_alt)
  have f: "gpio_field (put_field x 8 (unat (a AND 3)) (ucast v)) 8 (unat (b AND 3)) =
      (if unat (a AND 3) = unat (b AND 3) then ucast v else gpio_field x 8 (unat (b AND 3)))" for x
  proof (rule put_field_get)
    show "8 * unat (a AND 3) + 8 \<le> 32" "8 * unat (b AND 3) + 8 \<le> 32" using k [of a] k [of b] by auto
    show "take_bit 8 (ucast v :: u32) = ucast v" by (rule bit_word_eqI) (auto simp: bit_simps dest: bit_imp_le_length)
  qed simp
  have v: "(ucast (ucast v :: u32) :: u8) = v" by (rule bit_word_eqI) (simp add: bit_simps)
  have e: "x = (x AND NOT 3) OR (x AND 3)" for x :: u32 by (rule bit_word_eqI) (auto simp: bit_simps)
  have i: "a = b" if "a AND NOT 3 = b AND NOT 3" "unat (a AND 3) = unat (b AND 3)"
  proof -
    have "a AND 3 = b AND 3" using that(2) by (simp only: word_unat_eq_iff)
    then have "(a AND NOT 3) OR (a AND 3) = (b AND NOT 3) OR (b AND 3)" by (simp only: that(1))
    then show ?thesis by (simp only: e [symmetric])
  qed
  show "lane (set_lane v a c) b = ((lane c)(a := v)) b"
  proof (cases "a AND NOT 3 = b AND NOT 3")
    case True
    have l: "lane (set_lane v a c) b = ucast (gpio_field (put_field (c (a AND NOT 3)) 8 (unat (a AND 3)) (ucast v)) 8 (unat (b AND 3)))"
      unfolding lane_def set_lane_def True [symmetric] fun_upd_same ..
    show ?thesis
    proof (cases "unat (a AND 3) = unat (b AND 3)")
      case eq: True
      then have "a = b" by (rule i [OF True])
      then show ?thesis unfolding l f if_P [OF eq] v by simp
    next
      case False
      then have "b \<noteq> a" by auto
      then show ?thesis unfolding l f if_not_P [OF False] by (simp only: fun_upd_apply if_False lane_def True)
    qed
  next
    case False
    then have "b \<noteq> a" by auto
    then show ?thesis unfolding lane_def set_lane_def using False not_sym [OF False] by (simp only: fun_upd_apply if_False)
  qed
qed

definition i2c_isr :: u32 where
  "i2c_isr = I2C_ISR_TXIS OR I2C_ISR_RXNE OR I2C_ISR_STOPF OR I2C_ISR_TC OR I2C_ISR_TCR"

definition mp1_read :: "u32 \<Rightarrow> mp1_device \<Rightarrow> u32" where
  "mp1_read a d =
     (if 0xC0000000 \<le> a then cell d (board_decode 27 a)
      else if a \<in> {0x50000000..<0x50001000} then rcc_read a (rg d, cell d, hse_on d)
      else if a = 0x5C002018 then i2c_isr
      else if a \<in> {DDRPHYC_BASE + phy_pgsr, DDRPHYC_BASE + phy_bistgsr, DDRCTRL_BASE + ctl_swstat, DDRCTRL_BASE + ctl_stat}
      then 1 else rg d a)"

definition mp1_write :: "u32 \<Rightarrow> u32 \<Rightarrow> mp1_device \<Rightarrow> mp1_device" where
  "mp1_write v a d =
     \<lparr>rg = (rg d)(a := v),
      cell = (if 0xC0000000 \<le> a then (cell d)(board_decode 27 a := v) else cell d),
      hse_on = (if v AND 0x100 = 0 then hse_on d else if a = RCC_BASE + 0xC then True
        else if a = RCC_BASE + 0x10 then False else hse_on d),
      wlog = wlog d @ [(a, v)]\<rparr>"

definition mp1_platform :: "(u32 \<Rightarrow> u8) \<Rightarrow> mp1_device platform" where
  "mp1_platform flash =
     \<lparr>rd32 = \<lambda>a d. (mp1_read a d, d), wr32 = mp1_write,
      rd8 = \<lambda>a d. (if a \<in> {0x70000000..<0x71000000} then if qspi_mapped (rg d) then flash (a - 0x70000000) else 0
                   else lane (cell d) (board_decode 27 a), d),
      wr8 = \<lambda>v a d. if 0xC0000000 \<le> a then d\<lparr>cell := set_lane v (board_decode 27 a) (cell d)\<rparr> else d,
      ctrlc_key = \<lambda>d. (False, d), elapse = \<lambda>_ d. d\<rparr>"

lemma mp1_sel:
  "rd32 (mp1_platform f) a d = (mp1_read a d, d)" "wr32 (mp1_platform f) = mp1_write"
  "ctrlc_key (mp1_platform f) d = (False, d)" "elapse (mp1_platform f) n d = d"
  by (simp_all add: mp1_platform_def)

lemma mp1_write_sel:
  "rg (mp1_write v a d) = (rg d)(a := v)" "wlog (mp1_write v a d) = wlog d @ [(a, v)]"
  "cell (mp1_write v a d) = (if 0xC0000000 \<le> a then (cell d)(board_decode 27 a := v) else cell d)"
  "hse_on (mp1_write v a d) = (if v AND 0x100 = 0 then hse_on d else if a = RCC_BASE + 0xC then True
        else if a = RCC_BASE + 0x10 then False else hse_on d)"
  by (simp_all add: mp1_write_def)

text \<open>In the RCC and the DDR controller the device is that of theory Clocks.\<close>

definition clock_part :: "mp1_device \<Rightarrow> board" where
  "clock_part d = (rg d, cell d, hse_on d)"

lemma mp1_read_clock:
  assumes "a \<in> {0x50000000..<0x50001000} \<or> 0xC0000000 \<le> a \<or>
      a \<in> {DDRPHYC_BASE + phy_pgsr, DDRPHYC_BASE + phy_bistgsr, DDRCTRL_BASE + ctl_swstat, DDRCTRL_BASE + ctl_stat}"
  shows "fst (rd32 (mp1_platform f) a d) = fst (rd32 (clock_board 27) a (clock_part d))"
proof -
  have "a \<in> ddr_status \<and> \<not> 0xC0000000 \<le> a \<and> a \<notin> {0x50000000..<0x50001000} \<and> a \<noteq> 0x5C002018"
    if "a \<in> {DDRPHYC_BASE + phy_pgsr, DDRPHYC_BASE + phy_bistgsr, DDRCTRL_BASE + ctl_swstat, DDRCTRL_BASE + ctl_stat}"
    using that by (auto simp: ddr_status_def reg_defs)
  then show ?thesis
    using assms by (auto simp: mp1_sel mp1_read_def clock_board_sel clock_part_def)
qed

lemma clock_part_sel: "fst (clock_part d) = rg d" "snd (snd (clock_part d)) = hse_on d"
  by (simp_all add: clock_part_def)

lemma rcc_range_window: "a \<in> rcc_range \<Longrightarrow> a \<in> {0x50000000..<0x50001000}"
  by (auto simp: rcc_range_def reg_defs word_le_nat_alt word_less_nat_alt)

interpretation dev_clk: rcc "mp1_platform f" rg "\<lambda>_. 0" hse_on for f
proof
  fix a :: u32 and d :: mp1_device
  have ends: "RCC_BASE + 0x80 \<in> {0x50000000..<0x50001000}" "RCC_BASE + 0x94 \<in> {0x50000000..<0x50001000}"
    "RCC_BASE + 0x20 \<in> {0x50000000..<0x50001000}" "RCC_BASE + 0x28 \<in> {0x50000000..<0x50001000}"
    "RCC_BASE + 0x30 \<in> {0x50000000..<0x50001000}" "RCC_BASE + 0x808 \<in> {0x50000000..<0x50001000}"
    by (simp_all add: reg_defs)
  note rd = mp1_read_clock [OF disjI1, of _ f d]
  show "fst (rd32 (mp1_platform f) a d) AND NOT (ready_mask a) = rg d a AND NOT (ready_mask a)" if "a \<in> rcc_range"
    using clock_rcc.rd_rcc [OF that, of 27 "clock_part d"] rd [OF rcc_range_window [OF that]] by (simp add: clock_part_sel)
  show "((fst (rd32 (mp1_platform f) (RCC_BASE + 0x808) d) AND 0x100 \<noteq> 0) = hse_on d) \<or> (0 :: nat) < 0"
    using clock_rcc.hse_ready [of 27 "clock_part d"] rd [OF ends(6)] by (simp add: clock_part_sel)
  show "((fst (rd32 (mp1_platform f) a d) AND 2 \<noteq> 0) = (rg d a AND 1 \<noteq> 0)) \<or> (0 :: nat) < 0"
    if "a \<in> {RCC_BASE + 0x80, RCC_BASE + 0x94}"
    using clock_rcc.pll_ready [OF that, of 27 "clock_part d"] rd [of a] ends that by (auto simp: clock_part_sel)
  show "fst (rd32 (mp1_platform f) a d) AND 0x80000000 \<noteq> 0 \<or> (0 :: nat) < 0"
    if "a \<in> {RCC_BASE + 0x20, RCC_BASE + 0x28, RCC_BASE + 0x30}"
    using clock_rcc.source_ready [OF that, of 27 "clock_part d"] rd [of a] ends that by (auto simp: clock_part_sel)
qed (simp_all add: mp1_sel mp1_write_sel)

interpretation dev_ddr: ddr_board "mp1_platform f" rg "\<lambda>_. 0" for f
proof
  fix a :: u32 and d :: mp1_device
  show "fst (rd32 (mp1_platform f) a d) = rg d a" if "a \<notin> ddr_status"
  proof (cases "a \<in> {0x50000000..<0x50001000}")
    case True
    then show ?thesis using mp1_read_clock [of a f d] clock_ddr.rd_val [OF that, of 27 "clock_part d"] by (simp add: clock_part_sel)
  next
    case False
    then show ?thesis using that plain_not_ram [OF that] by (auto simp: mp1_sel mp1_read_def ddr_status_def reg_defs)
  qed
  have "fst (rd32 (mp1_platform f) a d) = 1"
    if "a \<in> {DDRPHYC_BASE + phy_pgsr, DDRPHYC_BASE + phy_bistgsr, DDRCTRL_BASE + ctl_swstat, DDRCTRL_BASE + ctl_stat}" for a
    using that by (auto simp: mp1_sel mp1_read_def reg_defs)
  then show "fst (rd32 (mp1_platform f) (DDRPHYC_BASE + phy_pgsr) d) AND 1 \<noteq> 0 \<or> (0 :: nat) < 0"
    "fst (rd32 (mp1_platform f) (DDRPHYC_BASE + phy_bistgsr) d) AND 1 \<noteq> 0 \<or> (0 :: nat) < 0"
    "fst (rd32 (mp1_platform f) (DDRCTRL_BASE + ctl_swstat) d) AND 1 \<noteq> 0 \<or> (0 :: nat) < 0"
    "fst (rd32 (mp1_platform f) (DDRCTRL_BASE + ctl_stat) d) AND 7 = 1 \<or> (0 :: nat) < 0"
    by simp_all
qed (simp_all add: mp1_sel mp1_write_sel)

interpretation dev_ram: wrapped_dram "mp1_platform f" cell "board_decode 27" "{a. 0xC0000000 \<le> a}" "0xC0000000" 27 27 for f
proof unfold_locales
  fix i :: nat
  assume "i < 2 ^ 27"
  then show "0xC0000000 + 4 * of_nat i \<in> {a :: u32. 0xC0000000 \<le> a}" by (simp add: window_in_ram)
  show "board_decode 27 (0xC0000000 + 4 * of_nat i) = 0xC0000000 + 4 * of_nat (i mod 2 ^ 27)"
    unfolding board_decode_def by (rule wrap_decode_word)
qed (simp_all add: mp1_sel mp1_write_sel mp1_read_def sound_cell_def)

interpretation dev_bus: i2c_answers "mp1_platform f" "0x5C002000" wlog "\<lambda>_. 0" for f
  by unfold_locales (simp_all add: mp1_sel mp1_write_sel mp1_read_def i2c_isr_def i2c_defs)

text \<open>A UART whose start writes the baud rate's register.\<close>

definition mp1_usart :: "u32 \<Rightarrow> LL_USART_InitTypeDef \<Rightarrow> mp1_device \<Rightarrow> mp1_device" where
  "mp1_usart u conf d = d\<lparr>rg := (rg d)(u + 0x0C := 64000000 div BaudRate conf)\<rparr>"

interpretation dev: mp1_board "mp1_platform f" rg "\<lambda>_. 0" hse_on "\<lambda>_. 0" cell "board_decode 27" "{a. 0xC0000000 \<le> a}"
  wlog "\<lambda>_. 0" "\<lambda>_. 0" mp1_usart for f
proof unfold_locales
  fix a :: u32 and conf and d :: mp1_device
  show "fst (rd32 (mp1_platform f) BOOTROM_PARAM_ADDR d) = rg d BOOTROM_PARAM_ADDR"
    by (simp add: mp1_sel mp1_read_def reg_defs)
  show "fst (rd32 (mp1_platform f) PWR_CR1 d) AND PWR_CR1_DBP \<noteq> 0 \<or> (0 :: nat) < 0"
    if "rg d PWR_CR1 AND PWR_CR1_DBP \<noteq> 0"
    using that by (simp add: mp1_sel mp1_read_def reg_defs PWR_CR1_def)
  show "rg (mp1_usart UART4_BASE conf d) a = rg d a" if "a \<notin> {UART4_BASE..<UART4_BASE + 0x400}"
    using that by (auto simp: mp1_usart_def UART4_BASE_def)
qed

subsection \<open>Its memory and media\<close>

definition dram_window :: "u32 set" where
  "dram_window = {0xC0000000..<0xE0000000}"

lemma ram_decode:
  assumes "a \<in> dram_window"
  shows "board_decode 27 a = a"
proof -
  have a: "0xC0000000 \<le> a" "unat a < 0xE0000000" "0xC0000000 \<le> unat a"
    using assms by (simp_all add: dram_window_def word_le_nat_alt word_less_nat_alt)
  then have "unat (a - 0xC0000000) = unat a - 0xC0000000" by (simp add: unat_sub)
  then have "unat (a - 0xC0000000) < 2 ^ 29" using a(2,3) by simp
  then have "a - 0xC0000000 < 2 ^ 29" by (simp add: word_less_nat_alt)
  then have "(a - 0xC0000000) AND mask 29 = a - 0xC0000000" by (rule less_mask_eq)
  then show ?thesis by (simp add: board_decode_def wrap_decode_def)
qed

lemma dram_stores:
  assumes "a \<in> dram_window"
  shows "lane (cell (wr8 (mp1_platform f) v a d)) = (lane (cell d))(a := v)" "rg (wr8 (mp1_platform f) v a d) = rg d"
  using assms ram_decode [OF assms] by (simp_all add: mp1_platform_def dram_window_def lane_set_lane)

interpretation dev_nor: nor_board "mp1_platform f" rg "{}" "\<lambda>d. lane (cell d)" dram_window f for f
proof unfold_locales
  fix i :: u32 and d :: mp1_device
  show "fst (rd8 (mp1_platform f) (0x70000000 + i) d) = f i" if q: "qspi_mapped (rg d)" "i < 0x1000000"
  proof -
    have "unat (0x70000000 + i) = 0x70000000 + unat i"
      using q(2) by (simp add: unat_word_ariths word_less_nat_alt)
    then have "0x70000000 + i \<in> {0x70000000..<0x71000000}"
      using q(2) by (simp add: word_le_nat_alt word_less_nat_alt)
    then show ?thesis using q(1) by (simp add: mp1_platform_def)
  qed
qed (simp_all add: mp1_platform_def mp1_sel mp1_write_sel dram_stores [unfolded mp1_platform_def, simplified])

text \<open>A card of \<open>nbr\<close> blocks of 512 bytes: a read beyond the end is an error.\<close>

definition card_hal :: "(u32 \<Rightarrow> u8 list) \<Rightarrow> u32 \<Rightarrow> mp1_device sd_hal" where
  "card_hal blk nbr =
     \<lparr>HAL_SD_DeInit = \<lambda>d. d, HAL_SD_Init = \<lambda>conf d. (HAL_OK, nbr, 512, d),
      HAL_SD_ReadBlocks = \<lambda>b n t d.
        if unat b + unat n \<le> unat nbr then (HAL_OK, concat (map (\<lambda>i. blk (b + of_nat i)) [0..<unat n]), d)
        else (HAL_ERROR, [], d)\<rparr>"

lemma card_board:
  assumes "\<forall>b. length (blk b) = 512" "1 < nbr" "gpt_readable blk nbr 1" "gpt_readable blk nbr (nbr - 1)"
    and "ssbl_block blk nbr = Some (ucast L)" "L < nbr"
  shows "sd_board (mp1_platform f) (card_hal blk nbr) (\<lambda>d. lane (cell d)) dram_window blk nbr L"
  by unfold_locales (simp_all add: assms card_hal_def dram_stores)

text \<open>The contents: in block 1 the partition table's header, in block 2 its entries, and from block 0x22 an image of
  four bytes for the address 0xC2000040.\<close>

definition app_header :: image_header where
  "app_header = \<lparr>ih_magic = 0x56190527, ih_hcrc = 0, ih_time = 0, ih_size = 0x04000000, ih_load = 0x400000C2,
     ih_ep = 0, ih_dcrc = 0, ih_os = 0, ih_arch = 0, ih_type = 0, ih_comp = 0, ih_name = replicate 32 0\<rparr>"

definition app_image :: "u8 list" where
  "app_image = image_header_bytes app_header @ [0xFE, 0xFF, 0xFF, 0xEA]"

definition ssbl_entry :: gpt_entry where
  "ssbl_entry = \<lparr>partition_type_guid = replicate 16 1, unique_partition_guid = replicate 16 2, starting_lba = 0x22,
     ending_lba = 0x23, attributes = 0, partition_name = replicate 72 0\<rparr>"

definition sample_card :: "u32 \<Rightarrow> u8 list" where
  "sample_card b =
     (if b = 1 then gpt_header_bytes sample_header @ replicate 420 0
      else if b = 2 then replicate 256 0 @ gpt_entry_bytes ssbl_entry @ replicate 128 0
      else if b = 0x22 then app_image @ replicate 444 0
      else replicate 512 0)"

definition sample_flash :: "u32 \<Rightarrow> u8" where
  "sample_flash i = (if i \<in> {0x80000..<0x80044} then app_image ! unat (i - 0x80000) else 0xFF)"

lemma app_header_wf: "image_header_wf app_header" "length (image_header_bytes app_header) = 64"
  "image_header_of (image_header_bytes app_header) = app_header"
proof -
  show wf: "image_header_wf app_header" by (simp add: image_header_wf_def app_header_def IH_NMLEN_def)
  show "length (image_header_bytes app_header) = 64" by (rule image.bytes_length [OF wf])
  show "image_header_of (image_header_bytes app_header) = app_header" by (rule image.bytes_back [OF wf])
qed

lemma card_lookup:
  "gpt_readable sample_card 0x1000 1" "gpt_readable sample_card 0x1000 0xFFF"
  "ssbl_block sample_card 0x1000 = Some 0x22"
proof -
  have wf: "gpt_header_wf sample_header" by (rule sample_header_wf)
  have l: "length (gpt_header_bytes sample_header) = 92" by (rule header.bytes_length [OF wf])
  have h: "gpt_header_of (take 92 (sample_card 1)) = sample_header"
    using header.of_block [OF wf, of "replicate 420 0"] by (simp add: sample_card_def)
  have z: "gpt_header_of (take 92 (sample_card 0xFFF)) = gpt_header_of (replicate 92 0)"
    by (simp add: sample_card_def)
  have zs: "signature (gpt_header_of (replicate 92 0)) = 0"
    by (simp add: gpt_header_of_def part_def numeral_eq_Suc)
  have ew: "gpt_entry_wf ssbl_entry" by (simp add: gpt_entry_wf_def ssbl_entry_def)
  have e: "gpt_entry_of (part 256 128 (sample_card 2)) = ssbl_entry"
    using entry.bytes_back [OF ew] entry.bytes_length [OF ew] by (simp add: sample_card_def part_def)
  have p: "partition_entry_lba sample_header = 2" "header_size sample_header = 92" by (simp_all add: sample_header_def)
  show "gpt_readable sample_card 0x1000 1"
    by (simp add: gpt_readable_def h p)
  show "gpt_readable sample_card 0x1000 0xFFF"
    by (simp add: gpt_readable_def z zs gpt_header_ok_def GPT_HEADER_SIGNATURE_UBOOT_def)
  show "ssbl_block sample_card 0x1000 = Some 0x22"
    by (simp add: ssbl_block_def gpt_lookup_def h p e sample_header_ok) (simp add: ssbl_entry_def)
qed

interpretation dev_card: sd_board "mp1_platform f" "card_hal sample_card 0x1000" "\<lambda>d. lane (cell d)" dram_window
  sample_card "0x1000" "0x22" for f
proof (rule card_board)
  show "\<forall>b. length (sample_card b) = 512"
  proof
    fix b
    have "gpt_header_wf sample_header" "gpt_entry_wf ssbl_entry"
      by (simp_all add: sample_header_wf gpt_entry_wf_def ssbl_entry_def)
    then show "length (sample_card b) = 512"
      by (simp add: sample_card_def header.bytes_length entry.bytes_length app_image_def app_header_wf(2))
  qed
qed (use card_lookup in simp_all)

lemma app_fields: "be32_to_cpu (ih_magic app_header) = IH_MAGIC" "be32_to_cpu (ih_load app_header) = 0xC2000040"
  "be32_to_cpu (ih_size app_header) = 4" "ih_load app_header \<noteq> 0"
  by (simp_all add: app_header_def be32_to_cpu_def uswap_32_def IH_MAGIC_def)

lemma app_in_window: "i < 579 \<Longrightarrow> 0xC2000000 + of_nat i \<in> dram_window"
  by (simp add: dram_window_def word_le_nat_alt word_less_nat_alt unat_word_ariths unat_of_nat)

lemma app_on_card: "image_at (card_image sample_card 0x1000 0x22) dram_window 0xC2000040 4"
proof -
  have h: "image_header_of (take 64 (card_image sample_card 0x1000 0x22)) = app_header"
    unfolding dev_card.image_head(1) by (simp add: sample_card_def app_image_def app_header_wf)
  show ?thesis
    unfolding image_at_def Let_def h using app_fields app_in_window by (simp add: dev_card.image_head(2))
qed

lemma app_in_flash: "image_at (flash_image sample_flash) dram_window 0xC2000040 4"
proof -
  have "take 64 (flash_image sample_flash) = image_header_bytes app_header"
  proof (rule nth_equalityI)
    fix i assume "i < length (take 64 (flash_image sample_flash))"
    then have i: "i < 64" by (simp add: flash_image_def)
    then have u: "unat (0x80000 + of_nat i :: u32) = 0x80000 + i" by (simp add: unat_word_ariths unat_of_nat)
    then have w: "0x80000 + of_nat i \<in> {0x80000..<0x80044 :: u32}"
      using i by (simp add: word_le_nat_alt word_less_nat_alt)
    have s: "unat (0x80000 + of_nat i - 0x80000 :: u32) = i" using i by (simp add: unat_of_nat)
    have "take 64 (flash_image sample_flash) ! i = sample_flash (0x80000 + of_nat i)"
      using i by (simp add: flash_image_def)
    also have "\<dots> = app_image ! i" unfolding sample_flash_def if_P [OF w] s ..
    also have "\<dots> = image_header_bytes app_header ! i" using i app_header_wf(2) by (simp add: app_image_def nth_append)
    finally show "take 64 (flash_image sample_flash) ! i = image_header_bytes app_header ! i" .
  qed (simp add: flash_image_def app_header_wf(2))
  then have h: "image_header_of (take 64 (flash_image sample_flash)) = app_header" by (simp only: app_header_wf(3))
  show ?thesis
    unfolding image_at_def Let_def h using app_fields app_in_window by (simp add: flash_image_def)
qed

definition mp1_reset :: "u32 \<Rightarrow> mp1_device sys" where
  "mp1_reset itf =
     \<lparr>dev = \<lparr>rg = (\<lambda>_. 0)(0x2FFC0078 := itf), cell = \<lambda>_. 0, hse_on = False, wlog = []\<rparr>,
      rand_y = 1, bist_error_max = 0, bist_seed = 0, result_msg = None\<rparr>"

subsection \<open>Results\<close>

text \<open>C1. The boot from an SD card. On a board whose clock controller, PMIC, DDR controller and 512 MB of
  RAM keep their contracts, and whose boot ROM reports the SD card: if the card's partition table
  leads to block \<open>L\<close>, and from there on stands an image of \<open>n\<close> bytes with a valid magic number for
  address \<open>e\<close> in RAM, then \<open>main\<close> returns from all its waits and jumps to \<open>e\<close>, where the image's bytes
  then are.\<close>

theorem main_boots_sd:
  assumes "mp1_board h regs rlag hse lag mem decode region log ilag plag usart"
    and "sd_board h sd mem8 ram blk nbr L"
    and "regs (dev s) BOOTROM_PARAM_ADDR AND 0xF = 1"
    and "image_at (card_image blk nbr L) ram e n"
  shows "\<exists>s'. main h usart sd priv config s = Some (Jumped e, s') \<and>
    (\<forall>i < n. mem8 (dev s') (e + of_nat i) = card_image blk nbr L ! (64 + i))"
proof -
  obtain s1 where s1: "main h usart sd priv config s = main_boot h sd BOOT_SDCARD s1"
    using mp1_board.main_as_boot [OF assms(1), of BOOT_SDCARD s sd priv config] assms(3)
    by (auto simp: BOOTROM_PARAM_ADDR_def BootMethod_of_def)
  obtain l s2 where "get_boot_loader h sd BOOT_SDCARD s1 = (Some l, s2)" "sd_board.sd_started nbr l s2"
    using sd_board.sd_new_started [OF assms(2), of s1] by blast
  from main_boot_jumps [OF sd_board.sd_is_loader [OF assms(2)] this assms(4)] show ?thesis
    unfolding s1 .
qed

theorem main_boots_sd_witness:
  "\<forall>priv0 config0. \<exists>s'. main (mp1_platform (\<lambda>_. 0)) mp1_usart (card_hal sample_card 0x1000) priv0 config0 (mp1_reset 0x11) =
     Some (Jumped 0xC2000040, s') \<and> lane (cell (dev s')) 0xC2000043 = 0xEA"
proof (intro allI)
  fix priv0 config0
  have m: "rg (dev (mp1_reset 0x11)) BOOTROM_PARAM_ADDR AND 0xF = 1"
    by (simp add: mp1_reset_def BOOTROM_PARAM_ADDR_def)
  obtain s' where s': "main (mp1_platform (\<lambda>_. 0)) mp1_usart (card_hal sample_card 0x1000) priv0 config0 (mp1_reset 0x11) =
      Some (Jumped 0xC2000040, s')"
    "\<forall>i < 4. lane (cell (dev s')) (0xC2000040 + of_nat i) = card_image sample_card 0x1000 0x22 ! (64 + i)"
    using main_boots_sd [OF dev.mp1_board_axioms dev_card.sd_board_axioms m app_on_card, where priv = priv0 and config = config0] by blast
  have "card_image sample_card 0x1000 0x22 ! 67 = 0xEA"
    using dev_card.image_head(3) [of 67] by (simp add: sample_card_def app_image_def nth_append app_header_wf(2))
  then show "\<exists>s'. main (mp1_platform (\<lambda>_. 0)) mp1_usart (card_hal sample_card 0x1000) priv0 config0 (mp1_reset 0x11) =
     Some (Jumped 0xC2000040, s') \<and> lane (cell (dev s')) 0xC2000043 = 0xEA"
    using s' s'(2) [rule_format, of 3] by auto
qed

text \<open>C2. The boot from the NOR flash, when the boot ROM reports it: \<open>main\<close> jumps to the address in the header
  at 0x80000 of the flash, with the image's bytes copied there through the QSPI window.\<close>

theorem main_boots_nor:
  assumes "mp1_board h regs rlag hse lag mem decode region log ilag plag usart"
    and "nor_board h regs P mem8 ram flash"
    and "regs (dev s) BOOTROM_PARAM_ADDR AND 0xF = 4"
    and "image_at (flash_image flash) ram e n"
  shows "\<exists>s'. main h usart sd priv config s = Some (Jumped e, s') \<and>
    (\<forall>i < n. mem8 (dev s') (e + of_nat i) = flash (0x80000 + 64 + of_nat i))"
proof -
  obtain s1 where s1: "main h usart sd priv config s = main_boot h sd BOOT_NOR s1"
    using mp1_board.main_as_boot [OF assms(1), of BOOT_NOR s sd priv config] assms(3)
    by (auto simp: BOOTROM_PARAM_ADDR_def BootMethod_of_def)
  obtain s2 where "get_boot_loader h sd BOOT_NOR s1 = (Some NorLoader, s2)" "nor_board.nor_started regs NorLoader s2"
    using nor_board.nor_new_started [OF assms(2), of sd s1] by blast
  from main_boot_jumps [OF nor_board.nor_is_loader [OF assms(2)] this assms(4)] obtain s' where
    s': "main_boot h sd BOOT_NOR s1 = Some (Jumped e, s')"
    "\<forall>i < n. mem8 (dev s') (e + of_nat i) = flash_image flash ! (64 + i)"
    by blast
  have "64 + n \<le> length (flash_image flash)" using assms(4) by (simp add: image_at_def Let_def)
  then have "flash_image flash ! (64 + i) = flash (0x80000 + 64 + of_nat i)" if "i < n" for i
    using that by (simp add: flash_image_def algebra_simps)
  then show ?thesis using s' unfolding s1 by auto
qed

theorem main_boots_nor_witness:
  "\<forall>priv0 config0 sd. \<exists>s'. main (mp1_platform sample_flash) mp1_usart sd priv0 config0 (mp1_reset 0x44) =
     Some (Jumped 0xC2000040, s') \<and> lane (cell (dev s')) 0xC2000043 = 0xEA"
proof (intro allI)
  fix priv0 config0 sd
  have m: "rg (dev (mp1_reset 0x44)) BOOTROM_PARAM_ADDR AND 0xF = 4"
    by (simp add: mp1_reset_def BOOTROM_PARAM_ADDR_def)
  obtain s' where s': "main (mp1_platform sample_flash) mp1_usart sd priv0 config0 (mp1_reset 0x44) =
      Some (Jumped 0xC2000040, s')"
    "\<forall>i < 4. lane (cell (dev s')) (0xC2000040 + of_nat i) = sample_flash (0x80000 + 64 + of_nat i)"
    using main_boots_nor [OF dev.mp1_board_axioms dev_nor.nor_board_axioms m app_in_flash, where sd = sd and priv = priv0 and config = config0] by blast
  have "sample_flash (0x80000 + 64 + 3) = 0xEA"
    by (simp add: sample_flash_def app_image_def nth_append app_header_wf(2))
  then show "\<exists>s'. main (mp1_platform sample_flash) mp1_usart sd priv0 config0 (mp1_reset 0x44) =
     Some (Jumped 0xC2000040, s') \<and> lane (cell (dev s')) 0xC2000043 = 0xEA"
    using s' s'(2) [rule_format, of 3] by auto
qed

text \<open>C3. Whatever the medium and its driver do, \<open>main\<close> jumps only to an address from a header with the
  right magic number, read from the flash or the card, and only after the loader has reported
  that the image was loaded: to \<open>ih_load\<close>, with the header in front, or to \<open>ih_ep\<close> when that is 0.\<close>

theorem jump_needs_image:
  assumes "main_boot h sd m s = Some (Jumped e, s')"
  shows "(m = BOOT_NOR \<or> m = BOOT_SDCARD) \<and>
    (\<exists>l s1 hdr l2 s2. get_boot_loader h sd m s = (Some l, s1) \<and> loader_read_header h sd l s1 = Some (hdr, l2, s2) \<and>
       be32_to_cpu (ih_magic hdr) = IH_MAGIC \<and>
       (if ih_load hdr = 0
        then e = be32_to_cpu (ih_ep hdr) \<and>
          loader_load_image h sd 0 (be32_to_cpu (ih_size hdr)) l2 s2 = Some (True, s')
        else e = be32_to_cpu (ih_load hdr) \<and>
          loader_load_image h sd (e - 64) (be32_to_cpu (ih_size hdr) + 64) l2 s2 = Some (True, s')))"
proof -
  have m: "m = BOOT_NOR \<or> m = BOOT_SDCARD"
    using assms main_boot_no_loader [of m h sd s] by auto
  then obtain l s1 where l: "get_boot_loader h sd m s = (Some l, s1)"
    by (cases "BootSDLoader_new h sd s") (auto simp: get_boot_loader_def)
  define b where "b = \<lparr>image_loaded = False, image_info = \<lparr>load_addr = 0, entry_point = 0, image_size = 0\<rparr>, loader_of = Some l\<rparr>"
  have new: "BootMediaLoader_new h sd m s = (b, s1)"
    using l by (simp add: BootMediaLoader_new_def set_bootmethod_def b_def)
  obtain hdr l2 s2 where r: "loader_read_header h sd l s1 = Some (hdr, l2, s2)"
    using assms by (cases "loader_read_header h sd l s1")
      (auto simp: main_boot_def new BootMediaLoader_load_image_def load_image_with_def b_def)
  obtain ai where ai: "parse_header hdr = Some ai"
    using assms by (cases "parse_header hdr")
      (auto simp: main_boot_def new BootMediaLoader_load_image_def load_image_with_def b_def r)
  obtain ok s3 where d: "loader_load_image h sd (load_addr ai) (image_size ai) l2 s2 = Some (ok, s3)"
    using assms by (cases "loader_load_image h sd (load_addr ai) (image_size ai) l2 s2")
      (auto simp: main_boot_def new BootMediaLoader_load_image_def load_image_with_def b_def r ai)
  have "main_boot h sd m s = Some (if ok then Jumped (entry_point ai) else Blinking, s3)"
    by (simp add: main_boot_def new BootMediaLoader_load_image_def load_image_with_def b_def r ai d boot_image_def)
  then have ok: "ok" "e = entry_point ai" "s3 = s'" using assms by (auto split: if_splits)
  have "be32_to_cpu 0 = 0" by (simp add: be32_to_cpu_def uswap_32_def)
  then have "be32_to_cpu (ih_magic hdr) = IH_MAGIC \<and>
    (if ih_load hdr = 0 then e = be32_to_cpu (ih_ep hdr) \<and> load_addr ai = 0 \<and> image_size ai = be32_to_cpu (ih_size hdr)
     else e = be32_to_cpu (ih_load hdr) \<and> load_addr ai = e - 64 \<and> image_size ai = be32_to_cpu (ih_size hdr) + 64)"
    using ai ok(2) by (auto simp: parse_header_def HeaderSize_def Let_def split: if_splits)
  then show ?thesis using m l r d ok by (auto split: if_splits)
qed

theorem jump_needs_image_witness:
  "\<exists>s s1 hdr l2 s2. loader_read_header (mp1_platform sample_flash) (card_hal sample_card 0x1000) NorLoader s1 = Some (hdr, l2, s2) \<and>
     get_boot_loader (mp1_platform sample_flash) (card_hal sample_card 0x1000) BOOT_NOR s = (Some NorLoader, s1) \<and>
     be32_to_cpu (ih_magic hdr) = IH_MAGIC"
proof -
  let ?h = "mp1_platform sample_flash" and ?sd = "card_hal sample_card 0x1000"
  obtain s2 where g: "get_boot_loader ?h ?sd BOOT_NOR (mp1_reset 0x44) = (Some NorLoader, s2)" "nor_board.nor_started rg NorLoader s2"
    using dev_nor.nor_new_started by blast
  from main_boot_jumps [OF dev_nor.nor_is_loader this app_in_flash] obtain s' where
    "main_boot ?h ?sd BOOT_NOR (mp1_reset 0x44) = Some (Jumped 0xC2000040, s')" by blast
  from jump_needs_image [OF this] obtain l s1 hdr l2 s3 where
    "get_boot_loader ?h ?sd BOOT_NOR (mp1_reset 0x44) = (Some l, s1)" "loader_read_header ?h ?sd l s1 = Some (hdr, l2, s3)"
    "be32_to_cpu (ih_magic hdr) = IH_MAGIC"
    by blast
  moreover from this g(1) have "l = NorLoader" by simp
  ultimately show ?thesis by blast
qed

text \<open>C7. Without an image \<open>main\<close> ends in the blinking: when the boot ROM reports any other medium than the
  card and the flash, and when the magic number of the header is wrong.\<close>

theorem main_blinks:
  assumes "mp1_board h regs rlag hse lag mem decode region log ilag plag usart"
    and "regs (dev s) BOOTROM_PARAM_ADDR AND 0xF = k"
    and "k \<notin> {1, 4} \<or>
      k = 1 \<and> sd_board h sd mem8 ram blk nbr L \<and>
        be32_to_cpu (ih_magic (image_header_of (take 64 (card_image blk nbr L)))) \<noteq> IH_MAGIC \<or>
      k = 4 \<and> nor_board h regs P mem8 ram flash \<and>
        be32_to_cpu (ih_magic (image_header_of (take 64 (flash_image flash)))) \<noteq> IH_MAGIC"
  shows "\<exists>s'. main h usart sd priv config s = Some (Blinking, s')"
proof -
  define m where "m = (if k < 8 then BootMethod_of k else BOOT_UNKNOWN)"
  obtain s1 where s1: "main h usart sd priv config s = main_boot h sd m s1"
    using mp1_board.main_as_boot [OF assms(1), of m s sd priv config] assms(2)
    by (auto simp: BOOTROM_PARAM_ADDR_def m_def)
  consider "m \<noteq> BOOT_NOR" "m \<noteq> BOOT_SDCARD"
    | "m = BOOT_SDCARD" "sd_board h sd mem8 ram blk nbr L"
        "be32_to_cpu (ih_magic (image_header_of (take 64 (card_image blk nbr L)))) \<noteq> IH_MAGIC"
    | "m = BOOT_NOR" "nor_board h regs P mem8 ram flash"
        "be32_to_cpu (ih_magic (image_header_of (take 64 (flash_image flash)))) \<noteq> IH_MAGIC"
  proof -
    have "m \<noteq> BOOT_NOR \<and> m \<noteq> BOOT_SDCARD" if "k \<notin> {1, 4}"
    proof (cases "k < 8")
      case True
      then have "unat k = 0 \<or> unat k = 1 \<or> unat k = 2 \<or> unat k = 3 \<or> unat k = 4 \<or> unat k = 5 \<or> unat k = 6 \<or> unat k = 7"
        by (simp add: word_less_nat_alt) arith
      moreover have "unat k \<noteq> 1" "unat k \<noteq> 4" using that by (auto simp: word_unat_eq_iff)
      ultimately show ?thesis using True by (elim disjE) (simp_all add: m_def BootMethod_of_def)
    qed (simp add: m_def)
    then show thesis using that assms(3) by (auto simp: m_def BootMethod_of_def)
  qed
  then show ?thesis
  proof cases
    case 1
    then show ?thesis using s1 main_boot_no_loader [OF 1, of h sd s1] by auto
  next
    case 2
    obtain l s2 where "get_boot_loader h sd BOOT_SDCARD s1 = (Some l, s2)" "sd_board.sd_started nbr l s2"
      using sd_board.sd_new_started [OF 2(2), of s1] by blast
    from main_boot_rejects [OF sd_board.sd_is_loader [OF 2(2)] this 2(3)] show ?thesis using s1 2(1) by auto
  next
    case 3
    obtain s2 where "get_boot_loader h sd BOOT_NOR s1 = (Some NorLoader, s2)" "nor_board.nor_started regs NorLoader s2"
      using nor_board.nor_new_started [OF 3(2), of sd s1] by blast
    from main_boot_rejects [OF nor_board.nor_is_loader [OF 3(2)] this 3(3)] show ?thesis using s1 3(1) by auto
  qed
qed

theorem main_blinks_witness:
  "\<forall>priv0 config0 sd. (\<exists>s'. main (mp1_platform (\<lambda>_. 0xFF)) mp1_usart sd priv0 config0 (mp1_reset 0x62) = Some (Blinking, s')) \<and>
     (\<exists>s'. main (mp1_platform (\<lambda>_. 0xFF)) mp1_usart sd priv0 config0 (mp1_reset 0x44) = Some (Blinking, s'))"
proof (intro allI conjI)
  fix priv0 config0 sd
  let ?h = "mp1_platform (\<lambda>_. 0xFF)"
  have m: "rg (dev (mp1_reset 0x62)) BOOTROM_PARAM_ADDR AND 0xF = 2" "rg (dev (mp1_reset 0x44)) BOOTROM_PARAM_ADDR AND 0xF = 4"
    by (simp_all add: mp1_reset_def BOOTROM_PARAM_ADDR_def)
  show "\<exists>s'. main ?h mp1_usart sd priv0 config0 (mp1_reset 0x62) = Some (Blinking, s')"
    by (rule main_blinks [OF dev.mp1_board_axioms m(1)]) simp
  have "take 64 (flash_image (\<lambda>_. 0xFF)) = replicate 64 0xFF"
    by (simp add: flash_image_def take_map map_replicate_const)
  moreover have "le_val (replicate 4 0xFF) = (0xFFFFFFFF :: u32)" by code_simp
  ultimately have "be32_to_cpu (ih_magic (image_header_of (take 64 (flash_image (\<lambda>_. 0xFF))))) = 0xFFFFFFFF"
    by (simp add: image_header_of_def part_def be32_to_cpu_def uswap_32_def)
  then have "be32_to_cpu (ih_magic (image_header_of (take 64 (flash_image (\<lambda>_. 0xFF))))) \<noteq> IH_MAGIC"
    by (simp add: IH_MAGIC_def)
  then show "\<exists>s'. main ?h mp1_usart sd priv0 config0 (mp1_reset 0x44) = Some (Blinking, s')"
    using main_blinks [OF dev.mp1_board_axioms m(2)] dev_nor.nor_board_axioms [of "\<lambda>_. 0xFF"] by blast
qed

end
