(* ===== verification/Print.thy ===== *)
theory Print
  imports Strto
begin

text \<open>
  Console output of numbers and strings (shared/print.cc, and the decimal \<open>write\<close> of
  shared/drivers/uart.hh), as the characters handed to \<open>putchar\<close>. A C string is the list of its
  characters before the NUL. Numbers print and parse back with the reader of theory Strto.
\<close>

subsection \<open>The code\<close>

definition printone_str :: "string \<Rightarrow> string" where
  "printone_str str = takeWhile (\<lambda>c. chr c \<noteq> 0) str"

text \<open>\<open>do { buf[len++] = digit; value = rest; } while (value && len < MAX_DIGITS)\<close>; \<open>room\<close> is
  \<open>MAX_DIGITS - len\<close>.\<close>

fun digit_loop :: "(u32 \<Rightarrow> char) \<Rightarrow> (u32 \<Rightarrow> u32) \<Rightarrow> (u32 \<Rightarrow> u32) \<Rightarrow> nat \<Rightarrow> u32 \<Rightarrow> string" where
  "digit_loop dig low rest 0 v = []"
| "digit_loop dig low rest (Suc room) v =
     dig (low v) # (let v = rest v in if v \<noteq> 0 \<and> 0 < room then digit_loop dig low rest room v else [])"

text \<open>\<open>for (i = 0; i < len / 2; i++)\<close> swaps the characters \<open>i\<close> and \<open>len - i - 1\<close>.\<close>

definition flip_digits :: "string \<Rightarrow> string" where
  "flip_digits buf =
     (let n = length buf
      in fold (\<lambda>i b. b[i := b ! (n - i - 1), n - i - 1 := b ! i]) [0..<n div 2] buf)"

definition hex_char :: "u32 \<Rightarrow> char" where
  "hex_char d = (if d < 10 then char_of (48 + unat d) else char_of (65 + unat d - 10))"

definition dec_char :: "u32 \<Rightarrow> char" where
  "dec_char d = char_of (48 + unat d)"

definition printone_hex :: "u32 \<Rightarrow> string" where
  "printone_hex value =
     (if value = 0 then ''0'' else flip_digits (digit_loop hex_char (\<lambda>v. v AND 0xF) (drop_bit 4) 8 value))"

text \<open>The \<open>int\<close> is given by its bits. \<open>-value\<close> overflows for the smallest value: no defined result.\<close>

definition printone_int :: "u32 \<Rightarrow> string option" where
  "printone_int value =
     (if value = 0 then Some ''0''
      else if value = 0x80000000 then None
      else let (sign, v) = (if value <s 0 then (''-'', - value) else ('''', value))
           in Some (sign @ flip_digits (digit_loop dec_char (\<lambda>v. v mod 10) (\<lambda>v. v div 10) 10 v)))"

definition uart_write_u32 :: "u32 \<Rightarrow> string" where
  "uart_write_u32 value =
     (if value = 0 then ''0'' else flip_digits (digit_loop dec_char (\<lambda>v. v mod 10) (\<lambda>v. v div 10) 10 value))"

subsection \<open>Digits\<close>

lemma flip_digits_rev: "flip_digits xs = rev xs"
proof (rule nth_equalityI)
  define n where "n = length xs"
  define f where "f = (\<lambda>i (b :: string). b[i := b ! (n - i - 1), n - i - 1 := b ! i])"
  have step: "length (fold f [0..<k] xs) = n \<and>
      (\<forall>j < n. fold f [0..<k] xs ! j = (if j < k \<or> n - k \<le> j then xs ! (n - j - 1) else xs ! j))"
    if "k \<le> n div 2" for k
    using that
  proof (induction k)
    case (Suc k)
    then have IH: "length (fold f [0..<k] xs) = n"
      "\<And>j. j < n \<Longrightarrow> fold f [0..<k] xs ! j = (if j < k \<or> n - k \<le> j then xs ! (n - j - 1) else xs ! j)"
      by auto
    have k: "k < n - k - 1" "k < n" using Suc.prems by linarith+
    define b where "b = fold f [0..<k] xs"
    have F: "fold f [0..<Suc k] xs = b[k := b ! (n - k - 1), n - k - 1 := b ! k]" by (simp add: b_def f_def)
    have mid: "b ! k = xs ! k" "b ! (n - k - 1) = xs ! (n - k - 1)" "length b = n"
      using IH(1) IH(2) [of k] IH(2) [of "n - k - 1"] k by (auto simp: b_def)
    have "fold f [0..<Suc k] xs ! j = (if j < Suc k \<or> n - Suc k \<le> j then xs ! (n - j - 1) else xs ! j)" if j: "j < n" for j
    proof -
      consider "j = n - k - 1" | "j = k" | "j \<noteq> n - k - 1" "j \<noteq> k" by blast
      then show ?thesis
      proof cases
        case 1
        then have "n - j - 1 = k" "n - Suc k \<le> j" using k by linarith+
        then show ?thesis unfolding F using 1 j mid by simp
      next
        case 2
        then have "fold f [0..<Suc k] xs ! j = xs ! (n - k - 1)" unfolding F using j k mid by simp
        then show ?thesis using 2 by simp
      next
        case 3
        then have e: "fold f [0..<Suc k] xs ! j = b ! j" unfolding F by simp
        have "(j < Suc k \<or> n - Suc k \<le> j) = (j < k \<or> n - k \<le> j)" using 3 k by linarith
        then show ?thesis unfolding e b_def IH(2) [OF j] by simp
      qed
    qed
    moreover have "length (fold f [0..<Suc k] xs) = n" unfolding F using mid(3) by simp
    ultimately show ?case by blast
  qed (auto simp: n_def)
  have fd: "flip_digits xs = fold f [0..<n div 2] xs" by (simp add: flip_digits_def f_def n_def Let_def)
  show "length (flip_digits xs) = length (rev xs)" using step [of "n div 2"] fd n_def by simp
  fix i assume "i < length (flip_digits xs)"
  then have i: "i < n" using step [of "n div 2"] fd by simp
  have "i < n div 2 \<or> n - n div 2 \<le> i \<or> i = n - i - 1" using i by linarith
  then show "flip_digits xs ! i = rev xs ! i"
    using step [of "n div 2"] fd i by (auto simp: rev_nth n_def)
qed

lemma numeral_value_Cons: "numeral_value b (rev (c # cs)) = numeral_value b (rev cs) * b + unat (digit_value (chr c))"
  by (simp add: numeral_value_def)

lemma digit_loop_value:
  assumes "\<And>v. unat (low v) = unat v mod b" "\<And>v. unat (rest v) = unat v div b" "1 < b"
    and "\<And>d. unat d < b \<Longrightarrow> is_digit_of (of_nat b) (dig d) \<and> digit_value (chr (dig d)) = d"
    and "unat v < b ^ room" "0 < room"
  shows "numeral_value b (rev (digit_loop dig low rest room v)) = unat v \<and>
    list_all (is_digit_of (of_nat b)) (digit_loop dig low rest room v)"
  using assms(5,6)
proof (induction room arbitrary: v)
  case (Suc room)
  have d: "unat (low v) < b" using assms(1,3) by simp
  have nil: "numeral_value b [] = 0" by (simp add: numeral_value_def)
  show ?case
  proof (cases "rest v \<noteq> 0 \<and> 0 < room")
    case True
    have "unat (rest v) < b ^ room" using Suc.prems(1) assms(2) by (simp add: less_mult_imp_div_less mult.commute)
    then show ?thesis
      using Suc.IH [of "rest v"] True assms(4) [OF d] assms(1,2)
      by (simp add: numeral_value_Cons Let_def del: rev.simps)
  next
    case False
    have "unat v div b = 0"
    proof (cases room)
      case 0
      then show ?thesis using Suc.prems(1) by simp
    next
      case (Suc k)
      then show ?thesis using False assms(2) [of v] by simp
    qed
    then show ?thesis
      using False assms(4) [OF d] assms(1) [of v] numeral_value_Cons [of b "dig (low v)" "[]"] nil
      by (auto simp: Let_def div_eq_0_iff)
  qed
qed simp

lemma small_cases: "unat (d :: u32) < n \<Longrightarrow> d \<in> set (map of_nat [0..<n])"
  by (simp add: image_iff) (metis atLeastLessThan_iff of_nat_unat ucast_id zero_le)

lemma digit_tables:
  "list_all (\<lambda>d. is_digit_of 10 (dec_char d) \<and> digit_value (chr (dec_char d)) = d) (map of_nat [0..<10])"
  "list_all (\<lambda>d. is_digit_of 16 (hex_char d) \<and> digit_value (chr (hex_char d)) = d) (map of_nat [0..<16])"
  by code_simp+

lemma dec_digits: "unat d < 10 \<Longrightarrow> is_digit_of 10 (dec_char d) \<and> digit_value (chr (dec_char d)) = d"
  using digit_tables(1) small_cases [of d 10] unfolding list_all_iff by blast

lemma hex_digits: "unat d < 16 \<Longrightarrow> is_digit_of 16 (hex_char d) \<and> digit_value (chr (hex_char d)) = d"
  using digit_tables(2) small_cases [of d 16] unfolding list_all_iff by blast

lemma hex_digits_read:
  assumes "v \<noteq> 0"
  shows "numeral_value 16 (printone_hex v) = unat v \<and> list_all (is_digit_of 16) (printone_hex v)"
proof -
  have "unat (v AND 0xF) = unat v mod 16" "unat (drop_bit 4 v) = unat v div 16" for v :: u32
  proof -
    have "v AND 0xF = take_bit 4 v" by (simp add: take_bit_eq_mask mask_eq_exp_minus_1)
    then have "v AND 0xF = v mod 16" by (simp add: take_bit_eq_mod)
    then show "unat (v AND 0xF) = unat v mod 16" by (simp only: unat_mod) simp
    show "unat (drop_bit 4 v) = unat v div 16" by (simp add: drop_bit_eq_div unat_div)
  qed
  moreover have "unat v < 16 ^ 8" using unsigned_less [of v] by (simp add: less_le_trans [OF unsigned_less])
  ultimately show ?thesis
    using digit_loop_value [where low = "\<lambda>v. v AND 0xF" and rest = "drop_bit 4" and b = 16 and dig = hex_char and room = 8 and v = v]
      hex_digits assms
    by (simp add: printone_hex_def flip_digits_rev)
qed

lemma dec_digits_read:
  "numeral_value 10 (flip_digits (digit_loop dec_char (\<lambda>v. v mod 10) (\<lambda>v. v div 10) 10 v)) = unat v \<and>
   list_all (is_digit_of 10) (flip_digits (digit_loop dec_char (\<lambda>v. v mod 10) (\<lambda>v. v div 10) 10 v))"
proof -
  have "unat (v :: u32) < 2 ^ LENGTH(32)" by (rule unsigned_less)
  then have "unat v < 10 ^ 10" by simp
  then show ?thesis
    using digit_loop_value [where low = "\<lambda>v. v mod 10" and rest = "\<lambda>v. v div 10" and b = 10 and dig = dec_char and room = 10 and v = v]
      dec_digits
    by (simp add: flip_digits_rev unat_div unat_mod)
qed

lemma parse_digits:
  assumes "list_all (is_digit_of b) ds" "numeral_value (unat b) ds = unat v" "b = 10 \<or> b = 16"
    and "b = 16 \<longrightarrow> tolower (char_at ds 1) \<noteq> 120"
  shows "simple_strtoul ds b = (v, [])"
proof -
  have "b \<noteq> 0" using assms(3) by auto
  then have r: "parse_integer_fixup_radix ds b = (ds, b)"
    using assms(3,4) by (auto simp: parse_integer_fixup_radix_def Let_def)
  have d: "takeWhile (is_digit_of b) ds = ds" "dropWhile (is_digit_of b) ds = []"
    using assms(1) by (simp_all add: takeWhile_eq_all_conv dropWhile_eq_Nil_conv list_all_iff)
  show ?thesis unfolding simple_strtoul_def r Let_def prod.case strtoul_loop_digits d assms(2) by simp
qed

lemma hex_no_x:
  assumes "list_all (is_digit_of 16) ds"
  shows "tolower (char_at ds 1) \<noteq> 120"
proof (cases "1 < length ds")
  case True
  then have "isxdigit (char_at ds 1)"
    using assms by (simp add: list_all_length char_at_def is_digit_of_def)
  then show ?thesis
    by (auto simp: isxdigit_def isdigit_def tolower_def isupper_def word_le_nat_alt)
next
  case False
  then show ?thesis by (simp add: char_at_def tolower_def isupper_def)
qed

text \<open>C31. Numbers survive printing and reading: what \<open>printone(Hex)\<close> prints is read back by
  \<open>simple_strtoul\<close> in base 16, what the UART's \<open>write\<close> prints in base 10, and what \<open>printone(int)\<close>
  prints in base 10 after the sign; the whole string is consumed. Only the smallest \<open>int\<close> has no
  defined output: its negation overflows.\<close>

theorem print_parse_round_trip:
  "simple_strtoul (printone_hex v) 16 = (v, []) \<and>
   simple_strtoul (uart_write_u32 v) 10 = (v, []) \<and>
   (printone_int v = None \<longleftrightarrow> v = 0x80000000) \<and>
   (\<forall>str. printone_int v = Some str \<longrightarrow>
      (if v <s 0 then \<exists>ds. str = CHR ''-'' # ds \<and> simple_strtoul ds 10 = (- v, [])
       else simple_strtoul str 10 = (v, [])))"
proof (intro conjI)
  have zero: "simple_strtoul ''0'' 16 = (0, [])" "simple_strtoul ''0'' 10 = (0, [])" by code_simp+
  show "simple_strtoul (printone_hex v) 16 = (v, [])"
  proof (cases "v = 0")
    case False
    from hex_digits_read [OF this] show ?thesis by (intro parse_digits) (simp_all add: hex_no_x [simplified])
  qed (simp add: printone_hex_def zero)
  have dec: "simple_strtoul (flip_digits (digit_loop dec_char (\<lambda>v. v mod 10) (\<lambda>v. v div 10) 10 v)) 10 = (v, [])" for v
    using dec_digits_read [of v] by (intro parse_digits) simp_all
  show "simple_strtoul (uart_write_u32 v) 10 = (v, [])"
    using dec [of v] zero by (cases "v = 0") (simp_all add: uart_write_u32_def)
  show "printone_int v = None \<longleftrightarrow> v = 0x80000000" by (simp add: printone_int_def Let_def)
  show "\<forall>str. printone_int v = Some str \<longrightarrow>
      (if v <s 0 then \<exists>ds. str = CHR ''-'' # ds \<and> simple_strtoul ds 10 = (- v, [])
       else simple_strtoul str 10 = (v, []))"
    using dec [of v] dec [of "- v"] zero by (auto simp: printone_int_def Let_def split: if_splits)
qed

theorem print_parse_round_trip_witness:
  "\<exists>ds. printone_int (- 5) = Some (CHR ''-'' # ds) \<and> simple_strtoul ds 10 = (5, [])"
proof -
  have "(- 5 :: u32) \<noteq> 0x80000000" "(- 5 :: u32) <s 0" by code_simp+
  then show ?thesis using print_parse_round_trip [of "- 5"] by auto
qed

end
