(* ===== verification/DdrInteractive.thy ===== *)
theory DdrInteractive
  imports DdrInit Registers
begin

text \<open>
  The interactive commands on the registers and parameters of the DDR (ddr/stm32mp1\_ddr.cc, the part
  compiled with CONFIG\_STM32MP1\_DDR\_INTERACTIVE): finding a register by its name, and dumping and
  editing registers and parameters. A dump is the list of its lines, names with values. An edit
  of a parameter writes into the memory of the parameter struct, its list of words; \<open>..._of\<close> is the
  struct with that memory.
\<close>

subsection \<open>A parameter struct from its memory\<close>

lemma words_from_nth: "length ws = n \<Longrightarrow> map ((!) ws) [0..<n] = ws"
  using map_nth [of ws] by simp

lemma words_upto: "map f [0..<n] = (if n = 0 then [] else map f [0..<n - 1] @ [f (n - 1)])"
  by (cases n) simp_all

definition stm32mp1_ddrctrl_reg_of :: "u32 list \<Rightarrow> stm32mp1_ddrctrl_reg" where
  "stm32mp1_ddrctrl_reg_of ws =
     \<lparr>mstr = ws ! 0, mrctrl0 = ws ! 1, mrctrl1 = ws ! 2, derateen = ws ! 3, derateint = ws ! 4,
      pwrctl = ws ! 5, pwrtmg = ws ! 6, hwlpctl = ws ! 7, rfshctl0 = ws ! 8, rfshctl3 = ws ! 9,
      crcparctl0 = ws ! 10, zqctl0 = ws ! 11, dfitmg0 = ws ! 12, dfitmg1 = ws ! 13,
      dfilpcfg0 = ws ! 14, dfiupd0 = ws ! 15, dfiupd1 = ws ! 16, dfiupd2 = ws ! 17,
      dfiphymstr = ws ! 18, odtmap = ws ! 19, dbg0 = ws ! 20, dbg1 = ws ! 21, dbgcmd = ws ! 22,
      poisoncfg = ws ! 23, pccfg = ws ! 24\<rparr>"

lemma stm32mp1_ddrctrl_reg_words_of [simp]:
  "length ws = 25 \<Longrightarrow> stm32mp1_ddrctrl_reg_words (stm32mp1_ddrctrl_reg_of ws) = ws"
  by (rule trans [OF _ words_from_nth]) (simp_all add: stm32mp1_ddrctrl_reg_words_def stm32mp1_ddrctrl_reg_of_def words_upto)

definition stm32mp1_ddrctrl_timing_of :: "u32 list \<Rightarrow> stm32mp1_ddrctrl_timing" where
  "stm32mp1_ddrctrl_timing_of ws =
     \<lparr>rfshtmg = ws ! 0, dramtmg0 = ws ! 1, dramtmg1 = ws ! 2, dramtmg2 = ws ! 3,
      dramtmg3 = ws ! 4, dramtmg4 = ws ! 5, dramtmg5 = ws ! 6, dramtmg6 = ws ! 7,
      dramtmg7 = ws ! 8, dramtmg8 = ws ! 9, dramtmg14 = ws ! 10, odtcfg = ws ! 11\<rparr>"

lemma stm32mp1_ddrctrl_timing_words_of [simp]:
  "length ws = 12 \<Longrightarrow> stm32mp1_ddrctrl_timing_words (stm32mp1_ddrctrl_timing_of ws) = ws"
  by (rule trans [OF _ words_from_nth]) (simp_all add: stm32mp1_ddrctrl_timing_words_def stm32mp1_ddrctrl_timing_of_def words_upto)

definition stm32mp1_ddrctrl_map_of :: "u32 list \<Rightarrow> stm32mp1_ddrctrl_map" where
  "stm32mp1_ddrctrl_map_of ws =
     \<lparr>addrmap1 = ws ! 0, addrmap2 = ws ! 1, addrmap3 = ws ! 2, addrmap4 = ws ! 3,
      addrmap5 = ws ! 4, addrmap6 = ws ! 5, addrmap9 = ws ! 6, addrmap10 = ws ! 7,
      addrmap11 = ws ! 8\<rparr>"

lemma stm32mp1_ddrctrl_map_words_of [simp]:
  "length ws = 9 \<Longrightarrow> stm32mp1_ddrctrl_map_words (stm32mp1_ddrctrl_map_of ws) = ws"
  by (rule trans [OF _ words_from_nth]) (simp_all add: stm32mp1_ddrctrl_map_words_def stm32mp1_ddrctrl_map_of_def words_upto)

definition stm32mp1_ddrctrl_perf_of :: "u32 list \<Rightarrow> stm32mp1_ddrctrl_perf" where
  "stm32mp1_ddrctrl_perf_of ws =
     \<lparr>sched = ws ! 0, sched1 = ws ! 1, perfhpr1 = ws ! 2, perflpr1 = ws ! 3, perfwr1 = ws ! 4,
      pcfgr_0 = ws ! 5, pcfgw_0 = ws ! 6, pcfgqos0_0 = ws ! 7, pcfgqos1_0 = ws ! 8,
      pcfgwqos0_0 = ws ! 9, pcfgwqos1_0 = ws ! 10, pcfgr_1 = ws ! 11, pcfgw_1 = ws ! 12,
      pcfgqos0_1 = ws ! 13, pcfgqos1_1 = ws ! 14, pcfgwqos0_1 = ws ! 15,
      pcfgwqos1_1 = ws ! 16\<rparr>"

lemma stm32mp1_ddrctrl_perf_words_of [simp]:
  "length ws = 17 \<Longrightarrow> stm32mp1_ddrctrl_perf_words (stm32mp1_ddrctrl_perf_of ws) = ws"
  by (rule trans [OF _ words_from_nth]) (simp_all add: stm32mp1_ddrctrl_perf_words_def stm32mp1_ddrctrl_perf_of_def words_upto)

definition stm32mp1_ddrphy_reg_of :: "u32 list \<Rightarrow> stm32mp1_ddrphy_reg" where
  "stm32mp1_ddrphy_reg_of ws =
     \<lparr>pgcr = ws ! 0, aciocr = ws ! 1, dxccr = ws ! 2, dsgcr = ws ! 3, dcr = ws ! 4,
      odtcr = ws ! 5, zq0cr1 = ws ! 6, dx0gcr = ws ! 7, dx1gcr = ws ! 8, dx2gcr = ws ! 9,
      dx3gcr = ws ! 10\<rparr>"

lemma stm32mp1_ddrphy_reg_words_of [simp]:
  "length ws = 11 \<Longrightarrow> stm32mp1_ddrphy_reg_words (stm32mp1_ddrphy_reg_of ws) = ws"
  by (rule trans [OF _ words_from_nth]) (simp_all add: stm32mp1_ddrphy_reg_words_def stm32mp1_ddrphy_reg_of_def words_upto)

definition stm32mp1_ddrphy_timing_of :: "u32 list \<Rightarrow> stm32mp1_ddrphy_timing" where
  "stm32mp1_ddrphy_timing_of ws =
     \<lparr>ptr0 = ws ! 0, ptr1 = ws ! 1, ptr2 = ws ! 2, dtpr0 = ws ! 3, dtpr1 = ws ! 4,
      dtpr2 = ws ! 5, mr0 = ws ! 6, mr1 = ws ! 7, mr2 = ws ! 8, mr3 = ws ! 9\<rparr>"

lemma stm32mp1_ddrphy_timing_words_of [simp]:
  "length ws = 10 \<Longrightarrow> stm32mp1_ddrphy_timing_words (stm32mp1_ddrphy_timing_of ws) = ws"
  by (rule trans [OF _ words_from_nth]) (simp_all add: stm32mp1_ddrphy_timing_words_def stm32mp1_ddrphy_timing_of_def words_upto)

definition stm32mp1_ddrphy_cal_of :: "u32 list \<Rightarrow> stm32mp1_ddrphy_cal" where
  "stm32mp1_ddrphy_cal_of ws =
     \<lparr>dx0dllcr = ws ! 0, dx0dqtr = ws ! 1, dx0dqstr = ws ! 2, dx1dllcr = ws ! 3,
      dx1dqtr = ws ! 4, dx1dqstr = ws ! 5, dx2dllcr = ws ! 6, dx2dqtr = ws ! 7,
      dx2dqstr = ws ! 8, dx3dllcr = ws ! 9, dx3dqtr = ws ! 10, dx3dqstr = ws ! 11\<rparr>"

lemma stm32mp1_ddrphy_cal_words_of [simp]:
  "length ws = 12 \<Longrightarrow> stm32mp1_ddrphy_cal_words (stm32mp1_ddrphy_cal_of ws) = ws"
  by (rule trans [OF _ words_from_nth]) (simp_all add: stm32mp1_ddrphy_cal_words_def stm32mp1_ddrphy_cal_of_def words_upto)

subsection \<open>The commands\<close>

definition reg_types :: "reg_type list" where
  "reg_types = [REG_REG, REG_TIMING, REG_PERF, REG_MAP, REGPHY_REG, REGPHY_TIMING, REGPHY_CAL, REG_DYN, REGPHY_DYN]"

definition found_reg :: "string \<Rightarrow> (reg_type \<times> reg_desc) option" where
  "found_reg nm =
     (case filter (\<lambda>(t, d). reg_name d = nm) (concat (map (\<lambda>t. map (Pair t) (desc (ddr_registers t))) reg_types)) of
        [] \<Rightarrow> None | x # _ \<Rightarrow> Some x)"

definition stm32mp1_dump_reg_desc :: "'d platform \<Rightarrow> u32 \<Rightarrow> reg_desc \<Rightarrow> 'd sys \<Rightarrow> (string \<times> u32) \<times> 'd sys" where
  "stm32mp1_dump_reg_desc h base_addr d s =
     (let (v, s) = readl h (base_addr + ucast (reg_offset d)) s in ((reg_name d, v), s))"

primrec dump_descs :: "'d platform \<Rightarrow> u32 \<Rightarrow> reg_desc list \<Rightarrow> 'd sys \<Rightarrow> (string \<times> u32) list \<times> 'd sys" where
  "dump_descs h base_addr [] s = ([], s)"
| "dump_descs h base_addr (d # ds) s =
     (let (l, s) = stm32mp1_dump_reg_desc h base_addr d s; (ls, s) = dump_descs h base_addr ds s in (l # ls, s))"

primrec dump_types :: "'d platform \<Rightarrow> ddr_info \<Rightarrow> reg_type list \<Rightarrow> 'd sys \<Rightarrow> (string \<times> u32) list \<times> 'd sys" where
  "dump_types h priv [] s = ([], s)"
| "dump_types h priv (t # ts) s =
     (let (l, s) = dump_descs h (get_base_addr priv (base (ddr_registers t))) (desc (ddr_registers t)) s;
          (ls, s) = dump_types h priv ts s
      in (l @ ls, s))"

text \<open>The tables a name selects: all for no name, those of a controller, or those of a table's name.\<close>

definition dump_filter :: "string \<Rightarrow> base_type" where
  "dump_filter nm = (if nm = ''ctl'' then DDR_BASE else if nm = ''phy'' then DDRPHY_BASE else NONE_BASE)"

definition selected_types :: "string option \<Rightarrow> reg_type list \<Rightarrow> reg_type list" where
  "selected_types nm ts =
     (case nm of
        None \<Rightarrow> ts
      | Some x \<Rightarrow> filter (\<lambda>t. dump_filter x = base (ddr_registers t) \<or> x = info_name (ddr_registers t)) ts)"

definition stm32mp1_dump_reg ::
  "'d platform \<Rightarrow> ddr_info \<Rightarrow> string option \<Rightarrow> 'd sys \<Rightarrow> int \<times> (string \<times> u32) list \<times> 'd sys" where
  "stm32mp1_dump_reg h priv nm s =
     (let ts = selected_types nm reg_types; (ls, s) = dump_types h priv ts s
      in if ts \<noteq> [] then (0, ls, s)
         else case nm of
           None \<Rightarrow> (- 1, ls, s)
         | Some x \<Rightarrow>
             (case found_reg x of
                None \<Rightarrow> (- 1, ls, s)
              | Some (t, d) \<Rightarrow>
                  let (l, s) = stm32mp1_dump_reg_desc h (get_base_addr priv (base (ddr_registers t))) d s
                  in (0, ls @ [l], s)))"

text \<open>The last read is that of the line printed. The result is \<open>None\<close> when nothing was written.\<close>

definition stm32mp1_edit_reg ::
  "'d platform \<Rightarrow> ddr_info \<Rightarrow> string \<Rightarrow> string \<Rightarrow> 'd sys \<Rightarrow> (string \<times> u32) option \<times> 'd sys" where
  "stm32mp1_edit_reg h priv nm str s =
     (case found_reg nm of
        None \<Rightarrow> (None, s)
      | Some (t, d) \<Rightarrow>
          (case strict_strtoul str 16 of
             None \<Rightarrow> (None, s)
           | Some v \<Rightarrow>
               let a = get_base_addr priv (base (ddr_registers t)) + ucast (reg_offset d);
                   s = writel h v a s;
                   (v, s) = readl h a s
               in (Some (reg_name d, v), s)))"

text \<open>The memory of a parameter struct; \<open>None\<close> is the null pointer.\<close>

fun get_par_addr :: "stm32mp1_ddr_config \<Rightarrow> reg_type \<Rightarrow> u32 list option" where
  "get_par_addr c REG_REG = Some (stm32mp1_ddrctrl_reg_words (c_reg c))"
| "get_par_addr c REG_TIMING = Some (stm32mp1_ddrctrl_timing_words (c_timing c))"
| "get_par_addr c REG_MAP = Some (stm32mp1_ddrctrl_map_words (c_map c))"
| "get_par_addr c REG_PERF = Some (stm32mp1_ddrctrl_perf_words (c_perf c))"
| "get_par_addr c REGPHY_REG = Some (stm32mp1_ddrphy_reg_words (p_reg c))"
| "get_par_addr c REGPHY_TIMING = Some (stm32mp1_ddrphy_timing_words (p_timing c))"
| "get_par_addr c REGPHY_CAL = Some (stm32mp1_ddrphy_cal_words (p_cal c))"
| "get_par_addr c REG_DYN = None"
| "get_par_addr c REGPHY_DYN = None"

fun put_par :: "stm32mp1_ddr_config \<Rightarrow> reg_type \<Rightarrow> u32 list \<Rightarrow> stm32mp1_ddr_config" where
  "put_par c REG_REG ws = c\<lparr>c_reg := stm32mp1_ddrctrl_reg_of ws\<rparr>"
| "put_par c REG_TIMING ws = c\<lparr>c_timing := stm32mp1_ddrctrl_timing_of ws\<rparr>"
| "put_par c REG_MAP ws = c\<lparr>c_map := stm32mp1_ddrctrl_map_of ws\<rparr>"
| "put_par c REG_PERF ws = c\<lparr>c_perf := stm32mp1_ddrctrl_perf_of ws\<rparr>"
| "put_par c REGPHY_REG ws = c\<lparr>p_reg := stm32mp1_ddrphy_reg_of ws\<rparr>"
| "put_par c REGPHY_TIMING ws = c\<lparr>p_timing := stm32mp1_ddrphy_timing_of ws\<rparr>"
| "put_par c REGPHY_CAL ws = c\<lparr>p_cal := stm32mp1_ddrphy_cal_of ws\<rparr>"
| "put_par c REG_DYN ws = c"
| "put_par c REGPHY_DYN ws = c"

definition stm32mp1_dump_param_desc :: "u32 list \<Rightarrow> reg_desc \<Rightarrow> string \<times> u32" where
  "stm32mp1_dump_param_desc ws d = (reg_name d, ws ! (unat (par_offset d) div 4))"

definition dump_par :: "stm32mp1_ddr_config \<Rightarrow> reg_type \<Rightarrow> (string \<times> u32) list" where
  "dump_par c t =
     (case get_par_addr c t of
        None \<Rightarrow> []
      | Some ws \<Rightarrow> map (stm32mp1_dump_param_desc ws) (desc (ddr_registers t)))"

definition stm32mp1_dump_param :: "stm32mp1_ddr_config \<Rightarrow> string option \<Rightarrow> int \<times> (string \<times> u32) list" where
  "stm32mp1_dump_param c nm =
     (let ts = selected_types nm (filter (\<lambda>t. get_par_addr c t \<noteq> None) reg_types)
      in if ts \<noteq> [] then (0, concat (map (dump_par c) ts))
         else case nm of
           None \<Rightarrow> (- EINVAL, [])
         | Some x \<Rightarrow>
             (case found_reg x of
                None \<Rightarrow> (- EINVAL, [])
              | Some (t, d) \<Rightarrow>
                  (case get_par_addr c t of
                     None \<Rightarrow> (- EINVAL, [])
                   | Some ws \<Rightarrow> (0, [stm32mp1_dump_param_desc ws d]))))"

definition stm32mp1_edit_param ::
  "stm32mp1_ddr_config \<Rightarrow> string \<Rightarrow> string \<Rightarrow> (string \<times> u32) option \<times> stm32mp1_ddr_config" where
  "stm32mp1_edit_param c nm str =
     (case found_reg nm of
        None \<Rightarrow> (None, c)
      | Some (t, d) \<Rightarrow>
          (case strict_strtoul str 16 of
             None \<Rightarrow> (None, c)
           | Some v \<Rightarrow>
               (case get_par_addr c t of
                  None \<Rightarrow> (None, c)
                | Some ws \<Rightarrow>
                    let ws = ws[unat (par_offset d) div 4 := v]
                    in (Some (stm32mp1_dump_param_desc ws d), put_par c t ws))))"

subsection \<open>What the commands change\<close>

lemma found_reg_in_table:
  "found_reg nm = Some (t, d) \<Longrightarrow> reg_name d = nm \<and> d \<in> set (desc (ddr_registers t))"
proof -
  assume f: "found_reg nm = Some (t, d)"
  let ?all = "concat (map (\<lambda>t. map (Pair t) (desc (ddr_registers t))) reg_types)"
  have "(t, d) \<in> set (filter (\<lambda>(t, d). reg_name d = nm) ?all)"
    using f unfolding found_reg_def by (metis (no_types, lifting) list.case_eq_if list.set_sel(1) option.inject option.distinct(1))
  then show ?thesis by auto
qed

lemmas par_words_defs =
  stm32mp1_ddrctrl_reg_words_def stm32mp1_ddrctrl_timing_words_def stm32mp1_ddrctrl_map_words_def
  stm32mp1_ddrctrl_perf_words_def stm32mp1_ddrphy_reg_words_def stm32mp1_ddrphy_timing_words_def
  stm32mp1_ddrphy_cal_words_def

lemma par_lengths [simp]:
  "length (stm32mp1_ddrctrl_reg_words r1) = 25" "length (stm32mp1_ddrctrl_timing_words r2) = 12"
  "length (stm32mp1_ddrctrl_map_words r3) = 9" "length (stm32mp1_ddrctrl_perf_words r4) = 17"
  "length (stm32mp1_ddrphy_reg_words r5) = 11" "length (stm32mp1_ddrphy_timing_words r6) = 10"
  "length (stm32mp1_ddrphy_cal_words r7) = 12"
  by (simp_all add: par_words_defs)

lemma par_offset_in_struct:
  assumes "get_par_addr c t = Some ws" and "d \<in> set (desc (ddr_registers t))"
  shows "unat (par_offset d) div 4 < length ws"
proof -
  have "get_par_addr c t \<noteq> None \<Longrightarrow>
      list_all (\<lambda>k. unat k div 4 < length (the (get_par_addr c t))) (map par_offset (desc (ddr_registers t)))"
    by (cases t) (simp_all add: table_offsets)
  then show ?thesis using assms by (auto simp: list_all_iff)
qed

lemma get_put_par:
  assumes "get_par_addr c t = Some ws" and "length us = length ws"
  shows "get_par_addr (put_par c t us) t' = (if t' = t then Some us else get_par_addr c t')"
  using assms by (cases t; cases t') auto

text \<open>A register found by its name is the only thing an edit writes, and a dump by the same name
  shows it.\<close>

lemma desc_names [simp]:
  "reg_name (DDRCTL_REG x y) = x" "reg_name (DDRPHY_REG x y) = x"
  "reg_name (DDR_REG_DYN x) = x" "reg_name (DDRPHY_REG_DYN x) = x"
  by (simp_all add: DDRCTL_REG_def DDRPHY_REG_def DDR_REG_DYN_def DDRPHY_REG_DYN_def)

lemmas table_defs =
  ddr_reg_def ddr_timing_def ddr_perf_def ddr_map_def ddrphy_reg_def ddrphy_timing_def
  ddrphy_cal_def ddr_dyn_def ddrphy_dyn_def

lemma table_names:
  "list_all (\<lambda>n. n \<notin> set [''ctl'', ''phy'', ''static'', ''timing'', ''perf'', ''map'', ''cal'', ''dyn''])
     (map reg_name (desc (ddr_registers t)))"
  by (cases t) (simp_all add: table_defs)

lemma found_reg_not_table:
  assumes "found_reg nm = Some x"
  shows "selected_types (Some nm) ts = []"
proof -
  obtain t d where "x = (t, d)" by (cases x)
  then have nm: "nm \<notin> set [''ctl'', ''phy'', ''static'', ''timing'', ''perf'', ''map'', ''cal'', ''dyn'']"
    using found_reg_in_table [of nm t d] table_names [of t] assms by (auto simp: list_all_iff)
  have "nm \<noteq> info_name (ddr_registers t)" "NONE_BASE \<noteq> base (ddr_registers t)" for t
    using nm by (cases t; simp)+
  then show ?thesis
    using nm by (simp add: selected_types_def dump_filter_def)
qed



text \<open>An edited register. On a device whose registers read back what was written, editing a
  register by its name writes the number that the string spells in base 16 into that register and
  no other; the line printed, and a later dump of that name, show the number.\<close>

theorem edit_reg_writes_one:
  assumes "plain_regs h regs UNIV" and "found_reg nm = Some (t, d)" and "strict_strtoul str 16 = Some v"
  shows "case stm32mp1_edit_reg h priv nm str s of (l, s') \<Rightarrow>
    l = Some (nm, v) \<and>
    regs (dev s') = (regs (dev s))(get_base_addr priv (base (ddr_registers t)) + ucast (reg_offset d) := v) \<and>
    (case stm32mp1_dump_reg h priv (Some nm) s' of (r, ls, s'') \<Rightarrow> r = 0 \<and> ls = [(nm, v)])"
proof -
  note regs_simps = plain_regs.readl_regs [OF assms(1)] plain_regs.writel_regs [OF assms(1)]
  show ?thesis
    using assms(2,3) found_reg_in_table [OF assms(2)]
    by (simp add: stm32mp1_edit_reg_def stm32mp1_dump_reg_def stm32mp1_dump_reg_desc_def
        found_reg_not_table [OF assms(2)] regs_simps split_def Let_def)
qed

lemma edit_reg_writes_one_witness:
  "\<exists>d s. found_reg ''pgcr'' = Some (REGPHY_REG, d) \<and>
    (case stm32mp1_edit_reg (cell_ram sound_cell (\<lambda>a. a)) \<lparr>ram_base = 0, ram_size = 0, ddr_ctl = 0x5A003000, ddr_phy = 0x5A004000, ddr_rcc = 0\<rparr> ''pgcr'' ''1c'' s of (l, s') \<Rightarrow>
      l = Some (''pgcr'', 0x1C) \<and> dev s' = (dev s)(0x5A004008 := 0x1C))"
proof -
  have f: "found_reg ''pgcr'' = Some (REGPHY_REG, DDRPHY_REG ''pgcr'' (words_of stm32mp1_ddrphy_reg_fields))"
    by (simp add: found_reg_def reg_types_def table_defs)
  have o: "reg_offset (DDRPHY_REG ''pgcr'' (words_of stm32mp1_ddrphy_reg_fields)) = 8" by code_simp
  have s: "strict_strtoul ''1c'' 16 = Some 0x1C" by code_simp
  show ?thesis
    by (rule exI, rule exI) (use f o edit_reg_writes_one [OF cell_regs.plain_regs_axioms f s,
       where priv = "\<lparr>ram_base = 0, ram_size = 0, ddr_ctl = 0x5A003000, ddr_phy = 0x5A004000, ddr_rcc = 0\<rparr>"] in \<open>simp add: o get_base_addr_def split_def\<close>)
qed

end
