(* ===== verification/RccReset.thy ===== *)
theory RccReset
  imports Rcc
begin

text \<open>
  The reset bits of the reset and clock controller and the enable bits of its second core
  (shared/drivers/rcc\_common.hh). Each table gives the name, the register offset and the mask of an
  entry of its namespace, in the order of the file. An entry of \<open>RCC_Reset\<close> writes the bit to the
  register that asserts the reset and to the one that releases it.
\<close>

definition RCC_Reset_Set :: "(string \<times> u32 \<times> u32) list" where
  "RCC_Reset_Set =
     [(''ADC12'', 0x998, 0x20), (''CEC'', 0x980, 0x8000000), (''CRC1'', 0x198, 0x100000),
      (''CRC2'', 0x9A0, 0x80), (''CRYP1'', 0x190, 0x10), (''CRYP2'', 0x9A0, 0x10),
      (''DAC12'', 0x980, 0x20000000), (''DCMI'', 0x9A0, 0x1), (''DDRPERFM'', 0x180, 0x100),
      (''DFSDM'', 0x988, 0x100000), (''DMA1'', 0x998, 0x1), (''DMA2'', 0x998, 0x2),
      (''DMAMUX'', 0x998, 0x4), (''DSI'', 0x180, 0x10), (''DTS'', 0x990, 0x10000),
      (''ETHMAC'', 0x198, 0x400), (''FDCAN'', 0x988, 0x1000000), (''FMC'', 0x198, 0x1000),
      (''GPIOA'', 0x9A8, 0x1), (''GPIOB'', 0x9A8, 0x2), (''GPIOC'', 0x9A8, 0x4),
      (''GPIOD'', 0x9A8, 0x8), (''GPIOE'', 0x9A8, 0x10), (''GPIOF'', 0x9A8, 0x20),
      (''GPIOG'', 0x9A8, 0x40), (''GPIOH'', 0x9A8, 0x80), (''GPIOI'', 0x9A8, 0x100),
      (''GPIOJ'', 0x9A8, 0x200), (''GPIOK'', 0x9A8, 0x400), (''GPIOZ'', 0x190, 0x1),
      (''GPU'', 0x198, 0x20), (''HASH1'', 0x190, 0x20), (''HASH2'', 0x9A0, 0x20),
      (''HSEM'', 0x9A0, 0x800), (''I2C1'', 0x980, 0x200000), (''I2C2'', 0x980, 0x400000),
      (''I2C3'', 0x980, 0x800000), (''I2C4'', 0x188, 0x4), (''I2C5'', 0x980, 0x1000000),
      (''I2C6'', 0x188, 0x8), (''IPCC'', 0x9A0, 0x1000), (''LPTIM1'', 0x980, 0x200),
      (''LPTIM2'', 0x990, 0x1), (''LPTIM3'', 0x990, 0x2), (''LPTIM4'', 0x990, 0x4),
      (''LPTIM5'', 0x990, 0x8), (''LTDC'', 0x180, 0x1), (''MDIOS'', 0x980, 0x80000000),
      (''MDMA'', 0x1A0, 0x1), (''QSPI'', 0x198, 0x4000), (''RNG1'', 0x190, 0x40),
      (''RNG2'', 0x9A0, 0x40), (''SAI1'', 0x988, 0x10000), (''SAI2'', 0x988, 0x20000),
      (''SAI3'', 0x988, 0x40000), (''SAI4'', 0x990, 0x100), (''SDMMC1'', 0x198, 0x10000),
      (''SDMMC2'', 0x198, 0x20000), (''SDMMC3'', 0x998, 0x10000), (''SPDIF'', 0x980, 0x4000000),
      (''SPI1'', 0x988, 0x100), (''SPI2'', 0x980, 0x800), (''SPI3'', 0x980, 0x1000),
      (''SPI4'', 0x988, 0x200), (''SPI5'', 0x988, 0x400), (''SPI6'', 0x188, 0x1),
      (''STGEN'', 0x188, 0x100000), (''SYSCFG'', 0x990, 0x800), (''TIM1'', 0x988, 0x1),
      (''TIM2'', 0x980, 0x1), (''TIM3'', 0x980, 0x2), (''TIM4'', 0x980, 0x4),
      (''TIM5'', 0x980, 0x8), (''TIM6'', 0x980, 0x10), (''TIM7'', 0x980, 0x20),
      (''TIM8'', 0x988, 0x2), (''TIM12'', 0x980, 0x40), (''TIM13'', 0x980, 0x80),
      (''TIM14'', 0x980, 0x100), (''TIM15'', 0x988, 0x4), (''TIM16'', 0x988, 0x8),
      (''TIM17'', 0x988, 0x10), (''UART4'', 0x980, 0x10000), (''UART5'', 0x980, 0x20000),
      (''UART7'', 0x980, 0x40000), (''UART8'', 0x980, 0x80000), (''USART1'', 0x188, 0x10),
      (''USART2'', 0x980, 0x4000), (''USART3'', 0x980, 0x8000), (''USART6'', 0x988, 0x2000),
      (''USBH'', 0x198, 0x1000000), (''USBO'', 0x998, 0x100), (''USBPHY'', 0x180, 0x10000),
      (''VREF'', 0x990, 0x2000)]"

definition RCC_Reset_Release :: "(string \<times> u32 \<times> u32) list" where
  "RCC_Reset_Release =
     [(''ADC12'', 0x99C, 0x20), (''CEC'', 0x984, 0x8000000), (''CRC1'', 0x19C, 0x100000),
      (''CRC2'', 0x9A4, 0x80), (''CRYP1'', 0x194, 0x10), (''CRYP2'', 0x9A4, 0x10),
      (''DAC12'', 0x984, 0x20000000), (''DCMI'', 0x9A4, 0x1), (''DDRPERFM'', 0x184, 0x100),
      (''DFSDM'', 0x98C, 0x100000), (''DMA1'', 0x99C, 0x1), (''DMA2'', 0x99C, 0x2),
      (''DMAMUX'', 0x99C, 0x4), (''DSI'', 0x184, 0x10), (''DTS'', 0x994, 0x10000),
      (''ETHMAC'', 0x19C, 0x400), (''FMC'', 0x19C, 0x1000), (''GPIOA'', 0x9AC, 0x1),
      (''GPIOB'', 0x9AC, 0x2), (''GPIOC'', 0x9AC, 0x4), (''GPIOD'', 0x9AC, 0x8),
      (''GPIOE'', 0x9AC, 0x10), (''GPIOF'', 0x9AC, 0x20), (''GPIOG'', 0x9AC, 0x40),
      (''GPIOH'', 0x9AC, 0x80), (''GPIOI'', 0x9AC, 0x100), (''GPIOJ'', 0x9AC, 0x200),
      (''GPIOK'', 0x9AC, 0x400), (''GPIOZ'', 0x194, 0x1), (''HASH1'', 0x194, 0x20),
      (''HASH2'', 0x9A4, 0x20), (''HSEM'', 0x9A4, 0x800), (''I2C1'', 0x984, 0x200000),
      (''I2C2'', 0x984, 0x400000), (''I2C3'', 0x984, 0x800000), (''I2C4'', 0x18C, 0x4),
      (''I2C5'', 0x984, 0x1000000), (''I2C6'', 0x18C, 0x8), (''IPCC'', 0x9A4, 0x1000),
      (''LPTIM1'', 0x984, 0x200), (''LPTIM2'', 0x994, 0x1), (''LPTIM3'', 0x994, 0x2),
      (''LPTIM4'', 0x994, 0x4), (''LPTIM5'', 0x994, 0x8), (''LTDC'', 0x184, 0x1),
      (''MDIOS'', 0x984, 0x80000000), (''MDMA'', 0x1A4, 0x1), (''QSPI'', 0x19C, 0x4000),
      (''RNG1'', 0x194, 0x40), (''RNG2'', 0x9A4, 0x40), (''SAI1'', 0x98C, 0x10000),
      (''SAI2'', 0x98C, 0x20000), (''SAI3'', 0x98C, 0x40000), (''SAI4'', 0x994, 0x100),
      (''SDMMC1'', 0x19C, 0x10000), (''SDMMC2'', 0x19C, 0x20000), (''SDMMC3'', 0x99C, 0x10000),
      (''SPDIF'', 0x984, 0x4000000), (''SPI1'', 0x98C, 0x100), (''SPI2'', 0x984, 0x800),
      (''SPI3'', 0x984, 0x1000), (''SPI4'', 0x98C, 0x200), (''SPI5'', 0x98C, 0x400),
      (''SPI6'', 0x18C, 0x1), (''STGEN'', 0x18C, 0x100000), (''SYSCFG'', 0x994, 0x800),
      (''TIM1'', 0x98C, 0x1), (''TIM2'', 0x984, 0x1), (''TIM3'', 0x984, 0x2),
      (''TIM4'', 0x984, 0x4), (''TIM5'', 0x984, 0x8), (''TIM6'', 0x984, 0x10),
      (''TIM7'', 0x984, 0x20), (''TIM8'', 0x98C, 0x2), (''TIM12'', 0x984, 0x40),
      (''TIM13'', 0x984, 0x80), (''TIM14'', 0x984, 0x100), (''TIM15'', 0x98C, 0x4),
      (''TIM16'', 0x98C, 0x8), (''TIM17'', 0x98C, 0x10), (''UART4'', 0x984, 0x10000),
      (''UART5'', 0x984, 0x20000), (''UART7'', 0x984, 0x40000), (''UART8'', 0x984, 0x80000),
      (''USART1'', 0x18C, 0x10), (''USART2'', 0x984, 0x4000), (''USART3'', 0x984, 0x8000),
      (''USART6'', 0x98C, 0x2000), (''USBH'', 0x19C, 0x1000000), (''USBO'', 0x99C, 0x100),
      (''USBPHY'', 0x184, 0x10000), (''VREF'', 0x994, 0x2000)]"

definition M4_RCC_Enable :: "(string \<times> u32 \<times> u32) list" where
  "M4_RCC_Enable =
     [(''ADC12LP'', 0xB98, 0x20), (''ADC12'', 0xA98, 0x20), (''ADFSDMLP'', 0xB88, 0x200000),
      (''ADFSDM'', 0xA88, 0x200000), (''AXIMC'', 0x210, 0x10000), (''BKPSRAMLP'', 0x390, 0x100),
      (''BKPSRAM'', 0x290, 0x100), (''BSECLP'', 0x388, 0x10000), (''BSEC'', 0x288, 0x10000),
      (''CECLP'', 0xB80, 0x8000000), (''CEC'', 0xA80, 0x8000000), (''CRC1LP'', 0x398, 0x100000),
      (''CRC1'', 0x298, 0x100000), (''CRC2LP'', 0xBA0, 0x80), (''CRC2'', 0xAA0, 0x80),
      (''CRYP1LP'', 0x390, 0x10), (''CRYP1'', 0x290, 0x10), (''CRYP2LP'', 0xBA0, 0x10),
      (''CRYP2'', 0xAA0, 0x10), (''DAC12LP'', 0xB80, 0x20000000), (''DAC12'', 0xA80, 0x20000000),
      (''DCMILP'', 0xBA0, 0x1), (''DCMI'', 0xAA0, 0x1), (''DDRPERFMLP'', 0x380, 0x100),
      (''DDRPERFM'', 0x280, 0x100), (''DFSDMLP'', 0xB88, 0x100000), (''DFSDM'', 0xA88, 0x100000),
      (''DMA1LP'', 0xB98, 0x1), (''DMA1'', 0xA98, 0x1), (''DMA2LP'', 0xB98, 0x2),
      (''DMA2'', 0xA98, 0x2), (''DMAMUXLP'', 0xB98, 0x4), (''DMAMUX'', 0xA98, 0x4),
      (''DSILP'', 0x380, 0x10), (''DSI'', 0x280, 0x10), (''DTSLP'', 0xB90, 0x10000),
      (''DTS'', 0xA90, 0x10000), (''ETHCKLP'', 0x398, 0x80), (''ETHCK'', 0x298, 0x80),
      (''ETHMACLP'', 0x398, 0x400), (''ETHMAC'', 0x298, 0x400), (''ETHRXLP'', 0x398, 0x200),
      (''ETHRX'', 0x298, 0x200), (''ETHSTP'', 0x398, 0x800), (''ETHTXLP'', 0x398, 0x100),
      (''ETHTX'', 0x298, 0x100), (''FDCANLP'', 0xB88, 0x1000000), (''FDCAN'', 0xA88, 0x1000000),
      (''FMCLP'', 0x398, 0x1000), (''FMC'', 0x298, 0x1000), (''GPIOALP'', 0xBA8, 0x1),
      (''GPIOA'', 0xAA8, 0x1), (''GPIOBLP'', 0xBA8, 0x2), (''GPIOB'', 0xAA8, 0x2),
      (''GPIOCLP'', 0xBA8, 0x4), (''GPIOC'', 0xAA8, 0x4), (''GPIODLP'', 0xBA8, 0x8),
      (''GPIOD'', 0xAA8, 0x8), (''GPIOELP'', 0xBA8, 0x10), (''GPIOE'', 0xAA8, 0x10),
      (''GPIOFLP'', 0xBA8, 0x20), (''GPIOF'', 0xAA8, 0x20), (''GPIOGLP'', 0xBA8, 0x40),
      (''GPIOG'', 0xAA8, 0x40), (''GPIOHLP'', 0xBA8, 0x80), (''GPIOH'', 0xAA8, 0x80),
      (''GPIOILP'', 0xBA8, 0x100), (''GPIOI'', 0xAA8, 0x100), (''GPIOJLP'', 0xBA8, 0x200),
      (''GPIOJ'', 0xAA8, 0x200), (''GPIOKLP'', 0xBA8, 0x400), (''GPIOK'', 0xAA8, 0x400),
      (''GPIOZLP'', 0x390, 0x1), (''GPIOZ'', 0x290, 0x1), (''GPULP'', 0x398, 0x20),
      (''GPU'', 0x298, 0x20), (''HASH1LP'', 0x390, 0x20), (''HASH1'', 0x290, 0x20),
      (''HASH2LP'', 0xBA0, 0x20), (''HASH2'', 0xAA0, 0x20), (''HDP'', 0xA90, 0x100000),
      (''HSEMLP'', 0xBA0, 0x800), (''HSEM'', 0xAA0, 0x800), (''I2C1LP'', 0xB80, 0x200000),
      (''I2C1'', 0xA80, 0x200000), (''I2C2LP'', 0xB80, 0x400000), (''I2C2'', 0xA80, 0x400000),
      (''I2C3LP'', 0xB80, 0x800000), (''I2C3'', 0xA80, 0x800000), (''I2C4LP'', 0x388, 0x4),
      (''I2C4'', 0x288, 0x4), (''I2C5LP'', 0xB80, 0x1000000), (''I2C5'', 0xA80, 0x1000000),
      (''I2C6LP'', 0x388, 0x8), (''I2C6'', 0x288, 0x8), (''IPCCLP'', 0xBA0, 0x1000),
      (''IPCC'', 0xAA0, 0x1000), (''LPTIM1LP'', 0xB80, 0x200), (''LPTIM1'', 0xA80, 0x200),
      (''LPTIM2LP'', 0xB90, 0x1), (''LPTIM2'', 0xA90, 0x1), (''LPTIM3LP'', 0xB90, 0x2),
      (''LPTIM3'', 0xA90, 0x2), (''LPTIM4LP'', 0xB90, 0x4), (''LPTIM4'', 0xA90, 0x4),
      (''LPTIM5LP'', 0xB90, 0x8), (''LPTIM5'', 0xA90, 0x8), (''LTDCLP'', 0x380, 0x1),
      (''LTDC'', 0x280, 0x1), (''MDIOSLP'', 0xB80, 0x80000000), (''MDIOS'', 0xA80, 0x80000000),
      (''MDMALP'', 0x398, 0x1), (''MDMA'', 0x298, 0x1), (''QSPILP'', 0x398, 0x4000),
      (''QSPI'', 0x298, 0x4000), (''RETRAMLP'', 0xBB8, 0x10), (''RETRAM'', 0xAB8, 0x10),
      (''RNG1LP'', 0x390, 0x40), (''RNG1'', 0x290, 0x40), (''RNG2LP'', 0xBA0, 0x40),
      (''RNG2'', 0xAA0, 0x40), (''RTCAPBLP'', 0x388, 0x100), (''RTCAPB'', 0x288, 0x100),
      (''SAI1LP'', 0xB88, 0x10000), (''SAI1'', 0xA88, 0x10000), (''SAI2LP'', 0xB88, 0x20000),
      (''SAI2'', 0xA88, 0x20000), (''SAI3LP'', 0xB88, 0x40000), (''SAI3'', 0xA88, 0x40000),
      (''SAI4LP'', 0xB90, 0x100), (''SAI4'', 0xA90, 0x100), (''SDMMC1LP'', 0x398, 0x10000),
      (''SDMMC1'', 0x298, 0x10000), (''SDMMC2LP'', 0x398, 0x20000), (''SDMMC2'', 0x298, 0x20000),
      (''SDMMC3LP'', 0xB98, 0x10000), (''SDMMC3'', 0xA98, 0x10000),
      (''SPDIFLP'', 0xB80, 0x4000000), (''SPDIF'', 0xA80, 0x4000000), (''SPI1LP'', 0xB88, 0x100),
      (''SPI1'', 0xA88, 0x100), (''SPI2LP'', 0xB80, 0x800), (''SPI2'', 0xA80, 0x800),
      (''SPI3LP'', 0xB80, 0x1000), (''SPI3'', 0xA80, 0x1000), (''SPI4LP'', 0xB88, 0x200),
      (''SPI4'', 0xA88, 0x200), (''SPI5LP'', 0xB88, 0x400), (''SPI5'', 0xA88, 0x400),
      (''SPI6LP'', 0x388, 0x1), (''SPI6'', 0x288, 0x1), (''SRAM1LP'', 0xBB8, 0x1),
      (''SRAM2LP'', 0xBB8, 0x2), (''SRAM34LP'', 0xBB8, 0x4), (''STGENLP'', 0x388, 0x100000),
      (''STGENROLP'', 0x380, 0x100000), (''STGENROSTP'', 0x380, 0x200000),
      (''STGENRO'', 0x280, 0x100000), (''STGENSTP'', 0x388, 0x200000),
      (''STGEN'', 0x288, 0x100000), (''SYSCFGLP'', 0xB90, 0x800), (''SYSCFG'', 0xA90, 0x800),
      (''SYSRAMLP'', 0xBB0, 0x1), (''SYSRAM'', 0xAB0, 0x1), (''TIM12LP'', 0xB80, 0x40),
      (''TIM12'', 0xA80, 0x40), (''TIM13LP'', 0xB80, 0x80), (''TIM13'', 0xA80, 0x80),
      (''TIM14LP'', 0xB80, 0x100), (''TIM14'', 0xA80, 0x100), (''TIM15LP'', 0xB88, 0x4),
      (''TIM15'', 0xA88, 0x4), (''TIM16LP'', 0xB88, 0x8), (''TIM16'', 0xA88, 0x8),
      (''TIM17LP'', 0xB88, 0x10), (''TIM17'', 0xA88, 0x10), (''TIM1LP'', 0xB88, 0x1),
      (''TIM1'', 0xA88, 0x1), (''TIM2LP'', 0xB80, 0x1), (''TIM2'', 0xA80, 0x1),
      (''TIM3LP'', 0xB80, 0x2), (''TIM3'', 0xA80, 0x2), (''TIM4LP'', 0xB80, 0x4),
      (''TIM4'', 0xA80, 0x4), (''TIM5LP'', 0xB80, 0x8), (''TIM5'', 0xA80, 0x8),
      (''TIM6LP'', 0xB80, 0x10), (''TIM6'', 0xA80, 0x10), (''TIM7LP'', 0xB80, 0x20),
      (''TIM7'', 0xA80, 0x20), (''TIM8LP'', 0xB88, 0x2), (''TIM8'', 0xA88, 0x2),
      (''TZC1LP'', 0x388, 0x800), (''TZC1'', 0x288, 0x800), (''TZC2LP'', 0x388, 0x1000),
      (''TZC2'', 0x288, 0x1000), (''TZPCLP'', 0x388, 0x2000), (''TZPC'', 0x288, 0x2000),
      (''UART4LP'', 0xB80, 0x10000), (''UART4'', 0xA80, 0x10000), (''UART5LP'', 0xB80, 0x20000),
      (''UART5'', 0xA80, 0x20000), (''UART7LP'', 0xB80, 0x40000), (''UART7'', 0xA80, 0x40000),
      (''UART8LP'', 0xB80, 0x80000), (''UART8'', 0xA80, 0x80000), (''USART1LP'', 0x388, 0x10),
      (''USART1'', 0x288, 0x10), (''USART2LP'', 0xB80, 0x4000), (''USART2'', 0xA80, 0x4000),
      (''USART3LP'', 0xB80, 0x8000), (''USART3'', 0xA80, 0x8000), (''USART6LP'', 0xB88, 0x2000),
      (''USART6'', 0xA88, 0x2000), (''USBHLP'', 0x398, 0x1000000), (''USBH'', 0x298, 0x1000000),
      (''USBOLP'', 0xB98, 0x100), (''USBO'', 0xA98, 0x100), (''USBPHYLP'', 0x380, 0x10000),
      (''USBPHY'', 0x280, 0x10000), (''VREFLP'', 0xB90, 0x2000), (''VREF'', 0xA90, 0x2000),
      (''WWDG1LP'', 0xB80, 0x10000000), (''WWDG1'', 0xA80, 0x10000000)]"

definition table_bits :: "(string \<times> u32 \<times> u32) list \<Rightarrow> string \<Rightarrow> reg_bits option" where
  "table_bits tab x = map_option (\<lambda>(off, m). RCC_bits off m) (map_of tab x)"

definition RCC_Reset :: "string \<Rightarrow> set_clear option" where
  "RCC_Reset x = do { s \<leftarrow> table_bits RCC_Reset_Set x; c \<leftarrow> table_bits RCC_Reset_Release x; Some \<lparr>SetT = s, ClearT = c\<rparr> }"

text \<open>Every reset bit that can be asserted can be released, by the same bit of the register that
  follows, except those of FDCAN and GPU, which have no release entry; the enable bits of the second
  core are single bits of its own registers, except AXIMC's, which is in a register of the
  first core.\<close>

theorem reset_table_paired:
  "distinct (map fst RCC_Reset_Set) \<and>
   RCC_Reset_Release = map (\<lambda>(x, off, m). (x, off + 4, m))
     (filter (\<lambda>(x, _). x \<noteq> ''FDCAN'' \<and> x \<noteq> ''GPU'') RCC_Reset_Set) \<and>
   list_all (\<lambda>(x, off, m). m \<noteq> 0 \<and> m AND (m - 1) = 0 \<and> (off AND 0x80 \<noteq> 0) = (x \<noteq> ''AXIMC'')) M4_RCC_Enable"
proof (intro conjI)
  show "distinct (map fst RCC_Reset_Set)" by code_simp
  show "RCC_Reset_Release = map (\<lambda>(x, off, m). (x, off + 4, m))
     (filter (\<lambda>(x, _). x \<noteq> ''FDCAN'' \<and> x \<noteq> ''GPU'') RCC_Reset_Set)"
    unfolding RCC_Reset_Set_def RCC_Reset_Release_def by simp
  show "list_all (\<lambda>(x, off, m). m \<noteq> 0 \<and> m AND (m - 1) = 0 \<and> (off AND 0x80 \<noteq> 0) = (x \<noteq> ''AXIMC'')) M4_RCC_Enable"
    unfolding M4_RCC_Enable_def by simp
qed

end
