(* ===== verification/UsbMidi.thy ===== *)
theory UsbMidi
  imports Prelude
begin

text \<open>
  The USB host driver for MIDI devices (examples/usb\_midi\_host: usbh\_midi.cc, usb\_host\_helper.hh,
  midi\_message.hh, midi\_host.hh and the calls of usbh\_conf.cc it needs), with the pipes of the host
  library. What lies below, the vendor's driver of the host controller (HAL\_HCD) and the control
  requests of the library, is the record \<open>hcd_driver\<close>; the interrupts that finish a transfer
  change its state between two calls of the driver. A buffer is its address. \<open>None\<close> is an access
  beyond the 16 channels of the controller or through a null pointer. Console output is not modelled.

  The two user callbacks are functions on the whole state, so they may call the driver again.
  \<open>bulk_out\<close> is the contract of the controller for the pipe of the transmission; on it the
  transmission is followed over any interleaving of processing, interrupts and receptions.
\<close>

subsection \<open>The host library\<close>

datatype USBH_StatusTypeDef =
  USBH_OK | USBH_BUSY | USBH_FAIL | USBH_NOT_SUPPORTED | USBH_UNRECOVERED_ERROR | USBH_ERROR_SPEED_UNKNOWN

datatype USBH_URBStateTypeDef =
  USBH_URB_IDLE | USBH_URB_DONE | USBH_URB_NOTREADY | USBH_URB_NYET | USBH_URB_ERROR | USBH_URB_STALL

datatype HOST_StateTypeDef =
  HOST_IDLE | HOST_DEV_WAIT_FOR_ATTACHMENT | HOST_DEV_ATTACHED | HOST_DEV_DISCONNECTED
  | HOST_DETECT_DEVICE_SPEED | HOST_ENUMERATION | HOST_CLASS_REQUEST | HOST_INPUT | HOST_SET_CONFIGURATION
  | HOST_SET_WAKEUP_FEATURE | HOST_CHECK_CLASS | HOST_CLASS | HOST_SUSPENDED | HOST_ABORT_STATE

record USBH_EpDesc =
  bEndpointAddress :: u8
  wMaxPacketSize :: u16

record USBH_InterfaceDesc =
  bInterfaceClass :: u8
  bInterfaceSubClass :: u8
  bInterfaceProtocol :: u8
  Ep_Desc :: "nat \<Rightarrow> USBH_EpDesc"

subsection \<open>The handle of the class\<close>

record EndPoint =
  ep_addr :: u8
  ep_size :: u8
  ep_pipe :: u8

datatype EndPointType = Control | Isoc | Bulk | Intr

fun EndPointType_val :: "EndPointType \<Rightarrow> u8" where
  "EndPointType_val Control = 0" | "EndPointType_val Isoc = 1" | "EndPointType_val Bulk = 2" | "EndPointType_val Intr = 3"

datatype MidiStreamingDataState = DataIdle | SendData | SendDataWait | ReceiveData | ReceiveDataWait

datatype MidiStreamingState = StateIdle | TransferData | StateError

record MidiStreamingHandle =
  ControlEP :: EndPoint
  InEP :: EndPoint
  OutEP :: EndPoint
  pTxData :: u32
  pRxData :: u32
  TxDataLength :: u32
  RxDataLength :: u32
  streaming_state :: MidiStreamingState
  data_tx_state :: MidiStreamingDataState
  data_rx_state :: MidiStreamingDataState
  rx_buffer :: u32  \<comment> \<open>its address\<close>

text \<open>\<open>pActiveClass\<close> is null (\<open>None\<close>) or a class whose \<open>pData\<close> is null or the handle.\<close>

record 'u phost =
  gState :: HOST_StateTypeDef
  pActiveClass :: "MidiStreamingHandle option option"
  Itf_Desc :: "nat \<Rightarrow> USBH_InterfaceDesc"
  bNumInterfaces :: u8
  current_interface :: u8
  dev_address :: u8
  dev_speed :: u8
  Pipes :: "nat \<Rightarrow> u32"
  hcd :: 'u

record 'u hcd_driver =
  HC_Init :: "u8 \<Rightarrow> u8 \<Rightarrow> u8 \<Rightarrow> u8 \<Rightarrow> u8 \<Rightarrow> u16 \<Rightarrow> 'u \<Rightarrow> 'u"  \<comment> \<open>pipe, endpoint, address, speed, type, size\<close>
  HC_Halt :: "u8 \<Rightarrow> 'u \<Rightarrow> 'u"
  HC_SubmitRequest :: "u8 \<Rightarrow> u8 \<Rightarrow> u8 \<Rightarrow> u8 \<Rightarrow> u32 \<Rightarrow> u16 \<Rightarrow> u8 \<Rightarrow> 'u \<Rightarrow> 'u"
    \<comment> \<open>pipe, direction, type, token, buffer, length, ping\<close>
  HC_GetURBState :: "u8 \<Rightarrow> 'u \<Rightarrow> USBH_URBStateTypeDef"
  HC_GetXferCount :: "u8 \<Rightarrow> 'u \<Rightarrow> u32"
  hc_ep_is_in :: "u8 \<Rightarrow> 'u \<Rightarrow> bool"
  hc_toggle_in :: "u8 \<Rightarrow> u8 \<Rightarrow> 'u \<Rightarrow> 'u"
  hc_toggle_out :: "u8 \<Rightarrow> u8 \<Rightarrow> 'u \<Rightarrow> 'u"
  ClrFeature :: "u8 \<Rightarrow> 'u \<Rightarrow> USBH_StatusTypeDef \<times> 'u"

text \<open>usbh\_conf.cc\<close>

definition USBH_LL_OpenPipe ::
  "'u hcd_driver \<Rightarrow> u8 \<Rightarrow> u8 \<Rightarrow> u8 \<Rightarrow> u8 \<Rightarrow> u8 \<Rightarrow> u16 \<Rightarrow> 'u phost \<Rightarrow> USBH_StatusTypeDef \<times> 'u phost" where
  "USBH_LL_OpenPipe h pipe epnum address speed ep_type mps p =
     (USBH_OK, p\<lparr>hcd := HC_Init h pipe epnum address speed ep_type mps (hcd p)\<rparr>)"

definition USBH_LL_ClosePipe :: "'u hcd_driver \<Rightarrow> u8 \<Rightarrow> 'u phost \<Rightarrow> USBH_StatusTypeDef \<times> 'u phost" where
  "USBH_LL_ClosePipe h pipe p = (USBH_OK, p\<lparr>hcd := HC_Halt h pipe (hcd p)\<rparr>)"

definition USBH_LL_SubmitURB ::
  "'u hcd_driver \<Rightarrow> u8 \<Rightarrow> u8 \<Rightarrow> u8 \<Rightarrow> u8 \<Rightarrow> u32 \<Rightarrow> u16 \<Rightarrow> u8 \<Rightarrow> 'u phost \<Rightarrow> USBH_StatusTypeDef \<times> 'u phost" where
  "USBH_LL_SubmitURB h pipe direction ep_type token pbuff len do_ping p =
     (USBH_OK, p\<lparr>hcd := HC_SubmitRequest h pipe direction ep_type token pbuff len do_ping (hcd p)\<rparr>)"

definition USBH_LL_GetURBState :: "'u hcd_driver \<Rightarrow> u8 \<Rightarrow> 'u phost \<Rightarrow> USBH_URBStateTypeDef" where
  "USBH_LL_GetURBState h pipe p = HC_GetURBState h pipe (hcd p)"

definition USBH_LL_GetLastXferSize :: "'u hcd_driver \<Rightarrow> u8 \<Rightarrow> 'u phost \<Rightarrow> u32" where
  "USBH_LL_GetLastXferSize h pipe p = HC_GetXferCount h pipe (hcd p)"

definition USBH_LL_SetToggle :: "'u hcd_driver \<Rightarrow> u8 \<Rightarrow> u8 \<Rightarrow> 'u phost \<Rightarrow> (USBH_StatusTypeDef \<times> 'u phost) option" where
  "USBH_LL_SetToggle h pipe toggle p =
     (if pipe < 16
      then Some (USBH_OK, p\<lparr>hcd := (if hc_ep_is_in h pipe (hcd p) then hc_toggle_in h else hc_toggle_out h) pipe toggle (hcd p)\<rparr>)
      else None)"

text \<open>The library: usbh\_pipes.c, usbh\_ioreq.c, usbh\_core.c\<close>

definition USBH_MAX_NUM_INTERFACES :: u8 where "USBH_MAX_NUM_INTERFACES = 16"

definition USBH_GetFreePipe :: "'u phost \<Rightarrow> u16" where
  "USBH_GetFreePipe p =
     (case filter (\<lambda>i. Pipes p i AND 0x8000 = 0) [0..<16] of [] \<Rightarrow> 0xFFFF | i # _ \<Rightarrow> of_nat i)"

definition USBH_AllocPipe :: "u8 \<Rightarrow> 'u phost \<Rightarrow> u8 \<times> 'u phost" where
  "USBH_AllocPipe addr p =
     (let pipe = USBH_GetFreePipe p
      in (ucast pipe,
          if pipe \<noteq> 0xFFFF then p\<lparr>Pipes := (Pipes p)(unat (pipe AND 0xF) := 0x8000 OR ucast addr)\<rparr> else p))"

definition USBH_FreePipe :: "u8 \<Rightarrow> 'u phost \<Rightarrow> USBH_StatusTypeDef \<times> 'u phost" where
  "USBH_FreePipe idx p =
     (USBH_OK, if idx < 16 then p\<lparr>Pipes := (Pipes p)(unat idx := Pipes p (unat idx) AND 0x7FFF)\<rparr> else p)"

definition USBH_OpenPipe ::
  "'u hcd_driver \<Rightarrow> u8 \<Rightarrow> u8 \<Rightarrow> u8 \<Rightarrow> u8 \<Rightarrow> u8 \<Rightarrow> u16 \<Rightarrow> 'u phost \<Rightarrow> USBH_StatusTypeDef \<times> 'u phost" where
  "USBH_OpenPipe h pipe_num epnum address speed ep_type mps p =
     (USBH_OK, snd (USBH_LL_OpenPipe h pipe_num epnum address speed ep_type mps p))"

definition USBH_ClosePipe :: "'u hcd_driver \<Rightarrow> u8 \<Rightarrow> 'u phost \<Rightarrow> USBH_StatusTypeDef \<times> 'u phost" where
  "USBH_ClosePipe h pipe_num p = (USBH_OK, snd (USBH_LL_ClosePipe h pipe_num p))"

definition USBH_BulkSendData ::
  "'u hcd_driver \<Rightarrow> u32 \<Rightarrow> u16 \<Rightarrow> u8 \<Rightarrow> u8 \<Rightarrow> 'u phost \<Rightarrow> USBH_StatusTypeDef \<times> 'u phost" where
  "USBH_BulkSendData h buff len pipe_num do_ping p =
     (USBH_OK, snd (USBH_LL_SubmitURB h pipe_num 0 2 1 buff len (if dev_speed p \<noteq> 0 then 0 else do_ping) p))"

definition USBH_BulkReceiveData ::
  "'u hcd_driver \<Rightarrow> u32 \<Rightarrow> u16 \<Rightarrow> u8 \<Rightarrow> 'u phost \<Rightarrow> USBH_StatusTypeDef \<times> 'u phost" where
  "USBH_BulkReceiveData h buff len pipe_num p =
     (USBH_OK, snd (USBH_LL_SubmitURB h pipe_num 1 2 1 buff len 0 p))"

definition USBH_FindInterface :: "u8 \<Rightarrow> u8 \<Rightarrow> u8 \<Rightarrow> 'u phost \<Rightarrow> u8" where
  "USBH_FindInterface cls sub protocol p =
     (case filter (\<lambda>i. (bInterfaceClass (Itf_Desc p i) = cls \<or> cls = 0xFF) \<and>
                       (bInterfaceSubClass (Itf_Desc p i) = sub \<or> sub = 0xFF) \<and>
                       (bInterfaceProtocol (Itf_Desc p i) = protocol \<or> protocol = 0xFF)) [0..<16] of
        [] \<Rightarrow> 0xFF | i # _ \<Rightarrow> of_nat i)"

definition USBH_SelectInterface :: "u8 \<Rightarrow> 'u phost \<Rightarrow> USBH_StatusTypeDef \<times> 'u phost" where
  "USBH_SelectInterface interface p =
     (if interface < bNumInterfaces p then (USBH_OK, p\<lparr>current_interface := interface\<rparr>) else (USBH_FAIL, p))"

subsection \<open>The helper\<close>

definition get_class_handle :: "'u phost \<Rightarrow> MidiStreamingHandle option" where
  "get_class_handle p = (case pActiveClass p of None \<Rightarrow> None | Some d \<Rightarrow> d)"

text \<open>An assignment through \<open>MSHandle\<close>.\<close>

definition on_handle :: "(MidiStreamingHandle \<Rightarrow> MidiStreamingHandle) \<Rightarrow> 'u phost \<Rightarrow> 'u phost" where
  "on_handle f p = p\<lparr>pActiveClass := map_option (map_option f) (pActiveClass p)\<rparr>"

definition is_in_ep :: "u8 \<Rightarrow> nat \<Rightarrow> 'u phost \<Rightarrow> bool" where
  "is_in_ep interface i p = (bEndpointAddress (Ep_Desc (Itf_Desc p (unat interface)) i) AND 0x80 \<noteq> 0)"

text \<open>\<open>size\<close> is a byte: \<open>wMaxPacketSize\<close> is cut to its low byte.\<close>

definition link_endpoint_pipe :: "u8 \<Rightarrow> nat \<Rightarrow> 'u phost \<Rightarrow> EndPoint \<times> 'u phost" where
  "link_endpoint_pipe interface i p =
     (let ep_desc = Ep_Desc (Itf_Desc p (unat interface)) i;
          (pipe, p) = USBH_AllocPipe (bEndpointAddress ep_desc) p
      in (\<lparr>ep_addr = bEndpointAddress ep_desc, ep_size = ucast (wMaxPacketSize ep_desc), ep_pipe = pipe\<rparr>, p))"

definition open_pipe :: "'u hcd_driver \<Rightarrow> EndPoint \<Rightarrow> EndPointType \<Rightarrow> 'u phost \<Rightarrow> USBH_StatusTypeDef \<times> 'u phost" where
  "open_pipe h ep ep_type p =
     USBH_OpenPipe h (ep_pipe ep) (ep_addr ep) (dev_address p) (dev_speed p) (EndPointType_val ep_type)
       (ucast (ep_size ep)) p"

definition set_toggle :: "'u hcd_driver \<Rightarrow> EndPoint \<Rightarrow> u8 \<Rightarrow> 'u phost \<Rightarrow> 'u phost option" where
  "set_toggle h ep toggle_val p = map_option snd (USBH_LL_SetToggle h (ep_pipe ep) toggle_val p)"

definition close_and_free_pipe :: "'u hcd_driver \<Rightarrow> EndPoint \<Rightarrow> 'u phost \<Rightarrow> EndPoint \<times> 'u phost" where
  "close_and_free_pipe h ep p =
     (if ep_pipe ep \<noteq> 0
      then (ep\<lparr>ep_pipe := 0\<rparr>, snd (USBH_FreePipe (ep_pipe ep) (snd (USBH_ClosePipe h (ep_pipe ep) p))))
      else (ep, p))"

subsection \<open>The class driver\<close>

definition AudioClassCode :: u8 where "AudioClassCode = 0x01"
definition AudioControlSubclassCode :: u8 where "AudioControlSubclassCode = 0x01"
definition MidiStreamingSubClass :: u8 where "MidiStreamingSubClass = 0x03"
definition AnyProtocol :: u8 where "AnyProtocol = 0xFF"
definition NoValidInterfaceFound :: u8 where "NoValidInterfaceFound = 0xFF"

text \<open>One of the two data endpoints, linked as its direction says.\<close>

definition link_data_ep :: "u8 \<Rightarrow> nat \<Rightarrow> 'u phost \<Rightarrow> 'u phost" where
  "link_data_ep interface i p =
     (if is_in_ep interface i p
      then let (ep, p) = link_endpoint_pipe interface i p in on_handle (InEP_update (\<lambda>_. ep)) p
      else let (ep, p) = link_endpoint_pipe interface i p in on_handle (OutEP_update (\<lambda>_. ep)) p)"

definition init_control :: "'u hcd_driver \<Rightarrow> 'u phost \<Rightarrow> 'u phost option" where
  "init_control h p =
     (let interface = USBH_FindInterface AudioClassCode AudioControlSubclassCode AnyProtocol p
      in if interface = NoValidInterfaceFound \<or> interface \<ge> USBH_MAX_NUM_INTERFACES then Some p
         else let (ep, p) = link_endpoint_pipe interface 0 p;
                  p = on_handle (ControlEP_update (\<lambda>_. ep)) p;
                  p = snd (open_pipe h ep Intr p)
              in set_toggle h ep 0 p)"

definition init_streaming :: "'u hcd_driver \<Rightarrow> u8 \<Rightarrow> 'u phost \<Rightarrow> (USBH_StatusTypeDef \<times> 'u phost) option" where
  "init_streaming h interface p =
     (let p = link_data_ep interface 1 (link_data_ep interface 0 p)
      in do {
        m \<leftarrow> get_class_handle p;
        let p = snd (open_pipe h (OutEP m) Bulk p);
        let p = snd (open_pipe h (InEP m) Bulk p);
        let p = on_handle (\<lambda>m. m\<lparr>streaming_state := StateIdle\<rparr>) p;
        p \<leftarrow> set_toggle h (OutEP m) 0 p;
        p \<leftarrow> set_toggle h (InEP m) 0 p;
        Some (USBH_OK, p) })"

definition USBH_MIDI_InterfaceInit :: "'u hcd_driver \<Rightarrow> 'u phost \<Rightarrow> (USBH_StatusTypeDef \<times> 'u phost) option" where
  "USBH_MIDI_InterfaceInit h p =
     (case pActiveClass p of
        None \<Rightarrow> None
      | Some None \<Rightarrow> Some (USBH_FAIL, p)
      | Some (Some _) \<Rightarrow> do {
          p \<leftarrow> init_control h p;
          let interface = USBH_FindInterface AudioClassCode MidiStreamingSubClass AnyProtocol p;
          if interface = NoValidInterfaceFound \<or> interface \<ge> USBH_MAX_NUM_INTERFACES then Some (USBH_FAIL, p)
          else let (status, p) = USBH_SelectInterface interface p
               in if status \<noteq> USBH_OK then Some (USBH_FAIL, p) else init_streaming h interface p })"

definition USBH_MIDI_InterfaceDeInit :: "'u hcd_driver \<Rightarrow> 'u phost \<Rightarrow> USBH_StatusTypeDef \<times> 'u phost" where
  "USBH_MIDI_InterfaceDeInit h p =
     (case get_class_handle p of
        None \<Rightarrow> (USBH_FAIL, p)
      | Some m \<Rightarrow>
          let (c, p) = close_and_free_pipe h (ControlEP m) p;
              (i, p) = close_and_free_pipe h (InEP m) p;
              (d, p) = close_and_free_pipe h (OutEP m) p
          in (USBH_OK, on_handle (\<lambda>m. m\<lparr>ControlEP := c, InEP := i, OutEP := d\<rparr>) p))"

definition USBH_MIDI_ClassRequest :: "('u phost \<Rightarrow> u8 \<Rightarrow> 'u phost) option \<Rightarrow> 'u phost \<Rightarrow> USBH_StatusTypeDef \<times> 'u phost" where
  "USBH_MIDI_ClassRequest pUser p = (USBH_OK, case pUser of None \<Rightarrow> p | Some f \<Rightarrow> f p 0x02)"

definition MIDI_ProcessTransmission :: "'u hcd_driver \<Rightarrow> ('u phost \<Rightarrow> 'u phost) \<Rightarrow> 'u phost \<Rightarrow> 'u phost" where
  "MIDI_ProcessTransmission h tx_callback p =
     (case get_class_handle p of
        None \<Rightarrow> p
      | Some m \<Rightarrow>
          let sz = ep_size (OutEP m); pipe = ep_pipe (OutEP m)
          in if data_tx_state m = SendData
             then let p = snd (USBH_BulkSendData h (pTxData m)
                            (if TxDataLength m > ucast sz then ucast sz else ucast (TxDataLength m)) pipe 1 p)
                  in on_handle (\<lambda>m. m\<lparr>data_tx_state := SendDataWait\<rparr>) p
             else if data_tx_state m = SendDataWait
             then let URB_Status = USBH_LL_GetURBState h pipe p
                  in if URB_Status = USBH_URB_DONE
                     then let m = if TxDataLength m > ucast sz
                                  then m\<lparr>TxDataLength := TxDataLength m - ucast sz, pTxData := pTxData m + ucast sz\<rparr>
                                  else m\<lparr>TxDataLength := 0\<rparr>
                          in if TxDataLength m > 0
                             then on_handle (\<lambda>_. m\<lparr>data_tx_state := SendData\<rparr>) p
                             else tx_callback (on_handle (\<lambda>_. m\<lparr>data_tx_state := DataIdle\<rparr>) p)
                     else if URB_Status = USBH_URB_NOTREADY
                     then on_handle (\<lambda>m. m\<lparr>data_tx_state := SendData\<rparr>) p
                     else p
             else p)"

definition MIDI_ProcessReception :: "'u hcd_driver \<Rightarrow> (u32 \<Rightarrow> u32 \<Rightarrow> 'u phost \<Rightarrow> 'u phost) \<Rightarrow> 'u phost \<Rightarrow> 'u phost" where
  "MIDI_ProcessReception h rx_callback p =
     (case get_class_handle p of
        None \<Rightarrow> p
      | Some m \<Rightarrow>
          let sz = ep_size (InEP m); pipe = ep_pipe (InEP m)
          in if data_rx_state m = ReceiveData
             then let p = snd (USBH_BulkReceiveData h (pRxData m) (ucast sz) pipe p)
                  in on_handle (\<lambda>m. m\<lparr>data_rx_state := ReceiveDataWait\<rparr>) p
             else if data_rx_state m = ReceiveDataWait
             then let URB_Status = USBH_LL_GetURBState h pipe p
                  in if URB_Status = USBH_URB_DONE
                     then let len = USBH_LL_GetLastXferSize h pipe p
                          in if RxDataLength m - len > 0 \<and> len > ucast sz
                             then on_handle (\<lambda>m. m\<lparr>RxDataLength := RxDataLength m - len, pRxData := pRxData m + len,
                                    data_rx_state := ReceiveData\<rparr>) p
                             else rx_callback (pRxData m) len (on_handle (\<lambda>m. m\<lparr>data_rx_state := DataIdle\<rparr>) p)
                     else p
             else p)"

definition USBH_MIDI_Process ::
  "'u hcd_driver \<Rightarrow> ('u phost \<Rightarrow> 'u phost) \<Rightarrow> (u32 \<Rightarrow> u32 \<Rightarrow> 'u phost \<Rightarrow> 'u phost) \<Rightarrow> 'u phost \<Rightarrow>
   USBH_StatusTypeDef \<times> 'u phost" where
  "USBH_MIDI_Process h tx_callback rx_callback p =
     (case get_class_handle p of
        None \<Rightarrow> (USBH_FAIL, p)
      | Some m \<Rightarrow>
          (case streaming_state m of
             StateIdle \<Rightarrow> (USBH_OK, p)
           | TransferData \<Rightarrow>
               (USBH_BUSY, MIDI_ProcessReception h rx_callback (MIDI_ProcessTransmission h tx_callback p))
           | StateError \<Rightarrow>
               let (req_status, u) = ClrFeature h 0 (hcd p);
                   p = p\<lparr>hcd := u\<rparr>
               in (USBH_BUSY,
                   if req_status = USBH_OK then on_handle (\<lambda>m. m\<lparr>streaming_state := StateIdle\<rparr>) p else p)))"

definition USBH_MIDI_SOFProcess :: "'u phost \<Rightarrow> USBH_StatusTypeDef \<times> 'u phost" where
  "USBH_MIDI_SOFProcess p = (USBH_OK, p)"

definition USBH_MIDI_Stop :: "'u hcd_driver \<Rightarrow> 'u phost \<Rightarrow> USBH_StatusTypeDef \<times> 'u phost" where
  "USBH_MIDI_Stop h p =
     (case get_class_handle p of
        None \<Rightarrow> (USBH_FAIL, p)
      | Some m \<Rightarrow>
          (USBH_OK,
           if gState p = HOST_CLASS
           then let p = on_handle (\<lambda>m. m\<lparr>streaming_state := StateIdle\<rparr>) p;
                    p = snd (USBH_ClosePipe h (ep_pipe (ControlEP m)) p);
                    p = snd (USBH_ClosePipe h (ep_pipe (InEP m)) p)
                in snd (USBH_ClosePipe h (ep_pipe (OutEP m)) p)
           else p))"

text \<open>Without a handle the function returns \<open>USBH_FAIL\<close>, whose value is 2, as a size.\<close>

definition USBH_MIDI_GetLastReceivedDataSize :: "'u hcd_driver \<Rightarrow> 'u phost \<Rightarrow> u16" where
  "USBH_MIDI_GetLastReceivedDataSize h p =
     (case get_class_handle p of
        None \<Rightarrow> 2
      | Some m \<Rightarrow> if gState p = HOST_CLASS then ucast (USBH_LL_GetLastXferSize h (ep_pipe (InEP m)) p) else 0)"

definition USBH_MIDI_Transmit :: "u32 \<Rightarrow> u32 \<Rightarrow> 'u phost \<Rightarrow> USBH_StatusTypeDef \<times> 'u phost" where
  "USBH_MIDI_Transmit pbuff len p =
     (case get_class_handle p of
        None \<Rightarrow> (USBH_FAIL, p)
      | Some m \<Rightarrow>
          if streaming_state m = StateIdle \<or> streaming_state m = TransferData
          then (USBH_OK, on_handle (\<lambda>m. m\<lparr>pTxData := pbuff, TxDataLength := len,
                  streaming_state := TransferData, data_tx_state := SendData\<rparr>) p)
          else (USBH_BUSY, p))"

definition USBH_MIDI_Receive :: "u32 \<Rightarrow> u32 \<Rightarrow> 'u phost \<Rightarrow> USBH_StatusTypeDef \<times> 'u phost" where
  "USBH_MIDI_Receive pbuff len p =
     (case get_class_handle p of
        None \<Rightarrow> (USBH_FAIL, p)
      | Some m \<Rightarrow>
          if streaming_state m = StateIdle \<or> streaming_state m = TransferData
          then (USBH_OK, on_handle (\<lambda>m. m\<lparr>pRxData := pbuff, RxDataLength := len,
                  streaming_state := TransferData, data_rx_state := ReceiveData\<rparr>) p)
          else (USBH_BUSY, p))"

text \<open>midi\_host.hh: the user callback of the library, and the two entries.\<close>

definition usbh_state_change_callback :: "'u phost \<Rightarrow> u8 \<Rightarrow> 'u phost" where
  "usbh_state_change_callback p event =
     (case get_class_handle p of
        None \<Rightarrow> p
      | Some m \<Rightarrow> if event = 0x02 then snd (USBH_MIDI_Receive (rx_buffer m) 256 p) else p)"

definition host_receive :: "'u phost \<Rightarrow> USBH_StatusTypeDef \<times> 'u phost" where
  "host_receive p =
     (case get_class_handle p of
        None \<Rightarrow> (USBH_FAIL, p)
      | Some m \<Rightarrow> USBH_MIDI_Receive (rx_buffer m) 128 p)"

definition host_transmit :: "u32 \<Rightarrow> u32 \<Rightarrow> 'u phost \<Rightarrow> USBH_StatusTypeDef \<times> 'u phost" where
  "host_transmit buff len p = USBH_MIDI_Transmit buff len p"

subsection \<open>Messages\<close>

record MidiStatusByte =
  midi_command :: u8  \<comment> \<open>four bits\<close>
  midi_channel :: u8

definition MidiStatusByte_make :: "u8 \<Rightarrow> MidiStatusByte" where
  "MidiStatusByte_make raw = \<lparr>midi_command = drop_bit 4 raw, midi_channel = raw AND 0x0F\<rparr>"

definition status_byte :: "MidiStatusByte \<Rightarrow> u8" where
  "status_byte st = push_bit 4 (midi_command st) OR midi_channel st"

record MidiMessage =
  midi_status :: MidiStatusByte
  midi_byte0 :: u8
  midi_byte1 :: u8

definition MidiMessage_new :: "u8 \<Rightarrow> u8 \<Rightarrow> u8 \<Rightarrow> MidiMessage" where
  "MidiMessage_new status data0 data1 =
     \<lparr>midi_status = MidiStatusByte_make status, midi_byte0 = data0, midi_byte1 = data1\<rparr>"

definition MidiDataBytes_u16 :: "MidiMessage \<Rightarrow> u16" where
  "MidiDataBytes_u16 m = push_bit 8 (ucast (midi_byte0 m)) OR ucast (midi_byte1 m)"

definition midi_raw :: "MidiMessage \<Rightarrow> u32" where
  "midi_raw m = push_bit 16 (ucast (status_byte (midi_status m))) OR ucast (MidiDataBytes_u16 m)"

datatype printed =
  NoText | Note u8 u8 | NoteOffText u8 | PolyKey u8 u8 | CC u8 u8 | PC u8 | CP u8 | BendText int | SysExText u8 u8 | Raw u32

definition is_command :: "u8 \<Rightarrow> MidiMessage \<Rightarrow> bool" where
  "is_command cmd m = (midi_command (midi_status m) = cmd)"

text \<open>The commands are 8 (note off) to 14 (pitch bend).\<close>

definition midi_print :: "MidiMessage \<Rightarrow> printed" where
  "midi_print m =
     (if is_command 0x9 m then Note (midi_byte0 m) (midi_byte1 m)
      else if is_command 0x8 m then NoteOffText (midi_byte0 m)
      else if is_command 0xA m then PolyKey (midi_byte0 m) (midi_byte1 m)
      else if is_command 0xB m then CC (midi_byte0 m) (midi_byte1 m)
      else if is_command 0xC m then PC (midi_byte0 m)
      else if is_command 0xD m then CP (midi_byte0 m)
      else if is_command 0xD m then BendText (uint (ucast (midi_byte0 m) OR push_bit 7 (ucast (midi_byte1 m)) :: u32) - 8192)
      else if status_byte (midi_status m) = 0xF8 then NoText
      else if status_byte (midi_status m) = 0xF0 then SysExText (midi_byte0 m) (midi_byte1 m)
      else if midi_raw m \<noteq> 0 then Raw (midi_raw m)
      else NoText)"

text \<open>What main.cc does with a packet: print a message of four bytes, and listen again.\<close>

definition main_rx_text :: "(u32 \<Rightarrow> u8) \<Rightarrow> u32 \<Rightarrow> u32 \<Rightarrow> printed option" where
  "main_rx_text mem rx_buf len =
     (if len = 4 then Some (midi_print (MidiMessage_new (mem (rx_buf + 1)) (mem (rx_buf + 2)) (mem (rx_buf + 3)))) else None)"

definition main_rx_callback :: "u32 \<Rightarrow> u32 \<Rightarrow> 'u phost \<Rightarrow> 'u phost" where
  "main_rx_callback rx_buf len p = snd (host_receive p)"

lemma status_byte_make: "status_byte (MidiStatusByte_make b) = b"
proof -
  have m: "(0x0F :: u8) = mask 4" by (simp add: mask_eq_exp_minus_1)
  show ?thesis
    by (simp only: status_byte_def MidiStatusByte_make_def MidiStatusByte.simps m)
      (rule bit_word_eqI; auto simp: bit_simps)
qed

lemma raw_bytes:
  "ucast (drop_bit 16 (midi_raw m)) = status_byte (midi_status m)"
  "ucast (drop_bit 8 (midi_raw m)) = midi_byte0 m" "ucast (midi_raw m) = midi_byte1 m"
  using bit_imp_le_length [of "midi_byte1 m"]
  by (auto intro!: bit_word_eqI simp: midi_raw_def MidiDataBytes_u16_def bit_simps) fastforce+

subsection \<open>The transmission as an abstract machine\<close>

text \<open>What concerns the transmission: the handle, the bytes the device has taken, the packet the
  controller has not yet finished, and the state it reports for the pipe.\<close>

type_synonym tx_handle =
  "EndPoint \<times> EndPoint \<times> u32 \<times> u32 \<times> MidiStreamingDataState \<times> MidiStreamingState"

definition tx_part :: "MidiStreamingHandle \<Rightarrow> tx_handle" where
  "tx_part m = (OutEP m, InEP m, pTxData m, TxDataLength m, data_tx_state m, streaming_state m)"

type_synonym tx_view = "tx_handle option \<times> u8 list \<times> (u32 \<times> u16) option \<times> USBH_URBStateTypeDef"

definition tx_view ::
  "'u hcd_driver \<Rightarrow> u8 \<Rightarrow> ('u \<Rightarrow> u8 list) \<Rightarrow> ('u \<Rightarrow> (u32 \<times> u16) option) \<Rightarrow> 'u phost \<Rightarrow> tx_view" where
  "tx_view h pipe sent pending p =
     (map_option tx_part (get_class_handle p), sent (hcd p), pending (hcd p), HC_GetURBState h pipe (hcd p))"

definition packet :: "u8 \<Rightarrow> u32 \<Rightarrow> u16" where
  "packet sz n = (if n > ucast sz then ucast sz else ucast n)"

fun tx_process :: "tx_view \<Rightarrow> tx_view" where
  "tx_process (Some (oe, ie, b, n, SendData, st), sn, pd, ur) =
     (Some (oe, ie, b, n, SendDataWait, st), sn, Some (b, packet (ep_size oe) n), USBH_URB_IDLE)"
| "tx_process (Some (oe, ie, b, n, SendDataWait, st), sn, pd, USBH_URB_DONE) =
     (if n > ucast (ep_size oe)
      then (Some (oe, ie, b + ucast (ep_size oe), n - ucast (ep_size oe), SendData, st), sn, pd, USBH_URB_DONE)
      else (Some (oe, ie, b, 0, DataIdle, st), sn, pd, USBH_URB_DONE))"
| "tx_process (Some (oe, ie, b, n, SendDataWait, st), sn, pd, USBH_URB_NOTREADY) =
     (Some (oe, ie, b, n, SendData, st), sn, pd, USBH_URB_NOTREADY)"
| "tx_process v = v"

text \<open>What an interrupt may do: finish the packet, or give it up with nothing sent.\<close>

inductive tx_irq :: "(u32 \<Rightarrow> u8) \<Rightarrow> tx_view \<Rightarrow> tx_view \<Rightarrow> bool" for mem where
  quiet: "tx_irq mem v v"
| finished: "tx_irq mem (m, sn, Some (b, n), ur)
     (m, sn @ map (\<lambda>i. mem (b + of_nat i)) [0..<unat n], None, USBH_URB_DONE)"
| given_up: "ur' \<noteq> USBH_URB_DONE \<Longrightarrow> tx_irq mem (m, sn, Some (b, n), ur) (m, sn, None, ur')"

inductive tx_step :: "(u32 \<Rightarrow> u8) \<Rightarrow> tx_view \<Rightarrow> tx_view \<Rightarrow> bool" for mem where
  process: "tx_step mem v (tx_process v)"
| interrupt: "tx_irq mem v v' \<Longrightarrow> tx_step mem v v'"

inductive_cases tx_irq_cases: "tx_irq mem v v'"
inductive_cases tx_step_cases: "tx_step mem v v'"

definition memory_bytes :: "(u32 \<Rightarrow> u8) \<Rightarrow> u32 \<Rightarrow> nat \<Rightarrow> u8 list" where
  "memory_bytes mem b k = map (\<lambda>i. mem (b + of_nat i)) [0..<k]"

lemma memory_bytes_add: "memory_bytes mem b (j + k) = memory_bytes mem b j @ memory_bytes mem (b + of_nat j) k"
  by (rule nth_equalityI) (auto simp: memory_bytes_def nth_append)

text \<open>The invariant: the first \<open>k\<close> bytes of the buffer are through, \<open>k\<close> a multiple of the packet
  size, and the handle points to the rest; while a packet is under way it is the next one.\<close>

definition tx_inv :: "(u32 \<Rightarrow> u8) \<Rightarrow> u8 list \<Rightarrow> u32 \<Rightarrow> u32 \<Rightarrow> EndPoint \<Rightarrow> EndPoint \<Rightarrow> tx_view \<Rightarrow> bool" where
  "tx_inv mem s0 buff n oe ie v \<longleftrightarrow>
     (\<exists>b r d sn pd ur k sz. v = (Some (oe, ie, b, r, d, TransferData), sn, pd, ur) \<and> ep_size oe = sz \<and>
        k \<le> unat n \<and>
        (if d = DataIdle then k = unat n \<and> pd = None \<and> sn = s0 @ memory_bytes mem buff k \<and> (sz = 0 \<longrightarrow> n = 0)
         else unat sz dvd k \<and> b = buff + of_nat k \<and> unat r = unat n - k \<and>
           (if d = SendData then pd = None \<and> sn = s0 @ memory_bytes mem buff k
            else d = SendDataWait \<and>
              (if pd \<noteq> None then pd = Some (b, packet sz r) \<and> ur = USBH_URB_IDLE \<and> sn = s0 @ memory_bytes mem buff k
               else sn = s0 @ memory_bytes mem buff (k + (if ur = USBH_URB_DONE then unat (packet sz r) else 0))))))"

lemma unat_packet: "unat (packet sz r) = min (unat sz) (unat r)"
proof -
  have b: "unat sz < 256" using unsigned_less [of sz, where ?'a = nat] by simp
  then show ?thesis
    by (auto simp: packet_def word_less_nat_alt unsigned_ucast_eq unsigned_take_bit_eq take_bit_nat_eq_self min_def)
qed

lemma tx_inv_process:
  assumes "tx_inv mem s0 buff n oe ie v"
  shows "tx_inv mem s0 buff n oe ie (tx_process v)"
proof -
  obtain b r d sn pd ur k sz where v: "v = (Some (oe, ie, b, r, d, TransferData), sn, pd, ur)" "ep_size oe = sz"
    "k \<le> unat n" and i: "if d = DataIdle then k = unat n \<and> pd = None \<and> sn = s0 @ memory_bytes mem buff k \<and> (sz = 0 \<longrightarrow> n = 0)
         else unat sz dvd k \<and> b = buff + of_nat k \<and> unat r = unat n - k \<and>
           (if d = SendData then pd = None \<and> sn = s0 @ memory_bytes mem buff k
            else d = SendDataWait \<and>
              (if pd \<noteq> None then pd = Some (b, packet sz r) \<and> ur = USBH_URB_IDLE \<and> sn = s0 @ memory_bytes mem buff k
               else sn = s0 @ memory_bytes mem buff (k + (if ur = USBH_URB_DONE then unat (packet sz r) else 0))))"
    using assms unfolding tx_inv_def by blast
  have sz: "unat (ucast sz :: u32) = unat sz" 
    using unsigned_less [of sz, where ?'a = nat] by (simp add: unsigned_ucast_eq unsigned_take_bit_eq take_bit_nat_eq_self)
  consider "d = DataIdle" | "d = SendData" | "d = SendDataWait" "ur = USBH_URB_DONE" | "d = SendDataWait" "ur \<noteq> USBH_URB_DONE"
    using i by (auto split: if_splits)
  then show ?thesis
  proof cases
    case 1
    then show ?thesis using v i unfolding tx_inv_def by auto
  next
    case 2
    then show ?thesis using v i unfolding tx_inv_def by auto
  next
    case 3
    then have f: "pd = None" "b = buff + of_nat k" "unat r = unat n - k" "unat sz dvd k"
      "sn = s0 @ memory_bytes mem buff (k + min (unat sz) (unat r))"
      using i by (cases pd; auto simp: unat_packet split: if_splits)+
    show ?thesis
    proof (cases "ucast sz < r")
      case True
      then have l: "unat sz < unat r" using sz by (simp add: word_less_nat_alt)
      then have r: "unat (r - ucast sz) = unat n - (k + unat sz)" using f(3) sz by (simp add: unat_sub_if')
      have w: "buff + of_nat k + ucast sz = buff + of_nat (k + unat sz)" by (simp add: of_nat_unat)
      show ?thesis
        unfolding tx_inv_def using 3 v f l True r w
        by (auto simp: min_def simp del: of_nat_add intro!: exI [of _ "k + unat sz"])
    next
      case False
      then have l: "unat r \<le> unat sz" using sz by (simp add: word_less_nat_alt)
      then have "k + min (unat sz) (unat r) = unat n" using f(3) v(3) by simp
      moreover have "sz = 0 \<longrightarrow> n = 0" using l f(3,4) by (auto simp: unat_eq_zero)
      ultimately show ?thesis
        unfolding tx_inv_def using 3 v f False by (auto intro!: exI [of _ "unat n"])
    qed
  next
    case 4
    show ?thesis
    proof (cases "ur = USBH_URB_NOTREADY")
      case True
      then have "pd = None" using i 4 by (cases pd) auto
      then have "k \<le> unat n" "unat sz dvd k" "b = buff + of_nat k" "unat r = unat n - k"
        "sn = s0 @ memory_bytes mem buff k" "pd = None" using i 4 True v(3) by auto
      then show ?thesis unfolding tx_inv_def using v(1,2) 4 True by auto
    next
      case False
      then have "tx_process v = v" using v(1) 4 by (cases ur) auto
      then show ?thesis using assms by simp
    qed
  qed
qed

lemma tx_inv_irq:
  assumes "tx_inv mem s0 buff n oe ie v" "tx_irq mem v v'"
  shows "tx_inv mem s0 buff n oe ie v'"
proof -
  obtain b r d sn pd ur k sz where v: "v = (Some (oe, ie, b, r, d, TransferData), sn, pd, ur)" "ep_size oe = sz"
    "k \<le> unat n" and i: "if d = DataIdle then k = unat n \<and> pd = None \<and> sn = s0 @ memory_bytes mem buff k \<and> (sz = 0 \<longrightarrow> n = 0)
         else unat sz dvd k \<and> b = buff + of_nat k \<and> unat r = unat n - k \<and>
           (if d = SendData then pd = None \<and> sn = s0 @ memory_bytes mem buff k
            else d = SendDataWait \<and>
              (if pd \<noteq> None then pd = Some (b, packet sz r) \<and> ur = USBH_URB_IDLE \<and> sn = s0 @ memory_bytes mem buff k
               else sn = s0 @ memory_bytes mem buff (k + (if ur = USBH_URB_DONE then unat (packet sz r) else 0))))"
    using assms(1) unfolding tx_inv_def by blast
  consider "v' = v" | b' n' where "pd = Some (b', n')"
    "v' = (Some (oe, ie, b, r, d, TransferData), sn @ memory_bytes mem b' (unat n'), None, USBH_URB_DONE)"
    | b' n' ur' where "pd = Some (b', n')" "ur' \<noteq> USBH_URB_DONE"
    "v' = (Some (oe, ie, b, r, d, TransferData), sn, None, ur')"
    using assms(2) unfolding v(1) memory_bytes_def by (cases rule: tx_irq.cases) auto
  then show ?thesis
  proof cases
    case 1
    then show ?thesis using assms(1) by simp
  next
    case 2
    then show ?thesis using v i unfolding tx_inv_def
      by (auto simp: memory_bytes_add split: if_splits)
  next
    case 3
    then show ?thesis using v i unfolding tx_inv_def by (auto split: if_splits)
  qed
qed

lemma tx_inv_step: "tx_step mem v v' \<Longrightarrow> tx_inv mem s0 buff n oe ie v \<Longrightarrow> tx_inv mem s0 buff n oe ie v'"
  by (cases rule: tx_step.cases) (auto simp: tx_inv_process intro: tx_inv_irq)

text \<open>What the bytes are that the device has taken, and when the transmission is over.\<close>

lemma tx_inv_sent:
  assumes "tx_inv mem s0 buff n oe ie v" "v = (Some (oe', ie', b, r, d, st), sn, pd, ur)"
  shows "\<exists>k \<le> unat n. sn = s0 @ memory_bytes mem buff k \<and> (d = DataIdle \<longrightarrow> k = unat n)"
    and "ep_size oe = 0 \<Longrightarrow> n \<noteq> 0 \<Longrightarrow> sn = s0 \<and> d \<noteq> DataIdle"
proof -
  from assms obtain k where k: "k \<le> unat n"
    "if d = DataIdle then k = unat n \<and> pd = None \<and> sn = s0 @ memory_bytes mem buff k \<and> (ep_size oe = 0 \<longrightarrow> n = 0)
         else unat (ep_size oe) dvd k \<and> b = buff + of_nat k \<and> unat r = unat n - k \<and>
           (if d = SendData then pd = None \<and> sn = s0 @ memory_bytes mem buff k
            else d = SendDataWait \<and>
              (if pd \<noteq> None then pd = Some (b, packet (ep_size oe) r) \<and> ur = USBH_URB_IDLE \<and> sn = s0 @ memory_bytes mem buff k
               else sn = s0 @ memory_bytes mem buff (k + (if ur = USBH_URB_DONE then unat (packet (ep_size oe) r) else 0))))"
    unfolding tx_inv_def by auto
  show "\<exists>k \<le> unat n. sn = s0 @ memory_bytes mem buff k \<and> (d = DataIdle \<longrightarrow> k = unat n)"
  proof (cases "d = SendDataWait \<and> pd = None \<and> ur = USBH_URB_DONE")
    case True
    then show ?thesis
      using k by (intro exI [of _ "k + min (unat (ep_size oe)) (unat r)"]) (auto simp: unat_packet min_def)
  next
    case False
    then show ?thesis using k by (intro exI [of _ k]) (auto split: if_splits)
  qed
  show "sn = s0 \<and> d \<noteq> DataIdle" if "ep_size oe = 0" "n \<noteq> 0"
    using k that by (auto simp: unat_packet memory_bytes_def split: if_splits)
qed

subsection \<open>The driver refines the machine\<close>

inductive midi_step ::
  "'u hcd_driver \<Rightarrow> ('u phost \<Rightarrow> 'u phost) \<Rightarrow> (u32 \<Rightarrow> u32 \<Rightarrow> 'u phost \<Rightarrow> 'u phost) \<Rightarrow> ('u \<Rightarrow> 'u \<Rightarrow> bool) \<Rightarrow>
   'u phost \<Rightarrow> 'u phost \<Rightarrow> bool" for h tx_callback rx_callback irq where
  process: "midi_step h tx_callback rx_callback irq p (snd (USBH_MIDI_Process h tx_callback rx_callback p))"
| interrupt: "irq (hcd p) u \<Longrightarrow> midi_step h tx_callback rx_callback irq p (p\<lparr>hcd := u\<rparr>)"
| receive: "midi_step h tx_callback rx_callback irq p (snd (USBH_MIDI_Receive b n p))"

lemma handle_on_handle: "get_class_handle (on_handle f p) = map_option f (get_class_handle p)"
  by (simp add: get_class_handle_def on_handle_def option.map_comp o_def split: option.splits)

lemma on_handle_hcd [simp]: "hcd (on_handle f p) = hcd p"
  by (simp add: on_handle_def)

lemma hcd_update_handle [simp]: "get_class_handle (p\<lparr>hcd := u\<rparr>) = get_class_handle p"
  by (simp add: get_class_handle_def)

lemmas usb_low_level = USBH_BulkSendData_def USBH_BulkReceiveData_def USBH_LL_SubmitURB_def
  USBH_LL_GetURBState_def USBH_LL_GetLastXferSize_def

text \<open>One round when the device takes the packet: submit it, the interrupt, look at the result.\<close>

definition midi_round ::
  "'u hcd_driver \<Rightarrow> ('u phost \<Rightarrow> 'u phost) \<Rightarrow> (u32 \<Rightarrow> u32 \<Rightarrow> 'u phost \<Rightarrow> 'u phost) \<Rightarrow> ('u \<Rightarrow> 'u) \<Rightarrow>
   'u phost \<Rightarrow> 'u phost" where
  "midi_round h tx_callback rx_callback complete p =
     (let q = snd (USBH_MIDI_Process h tx_callback rx_callback p)
      in snd (USBH_MIDI_Process h tx_callback rx_callback (q\<lparr>hcd := complete (hcd q)\<rparr>)))"

lemma midi_round_steps:
  assumes "\<And>u. irq u (complete u)"
  shows "(midi_step h tx_callback rx_callback irq)\<^sup>*\<^sup>* p (midi_round h tx_callback rx_callback complete p)"
proof -
  let ?q = "snd (USBH_MIDI_Process h tx_callback rx_callback p)"
  have "midi_step h tx_callback rx_callback irq ?q (?q\<lparr>hcd := complete (hcd ?q)\<rparr>)"
    by (rule midi_step.interrupt) (rule assms)
  then show ?thesis
    unfolding midi_round_def Let_def
    by (meson midi_step.process r_into_rtranclp rtranclp.rtrancl_into_rtrancl)
qed

lemma midi_rounds_steps:
  assumes "\<And>u. irq u (complete u)"
  shows "(midi_step h tx_callback rx_callback irq)\<^sup>*\<^sup>* p ((midi_round h tx_callback rx_callback complete ^^ k) p)"
proof (induction k)
  case (Suc k)
  then show ?case using midi_round_steps [of irq complete, OF assms] by (simp) (meson rtranclp_trans)
qed simp

locale bulk_out =
  fixes h :: "'u hcd_driver" and pipe :: u8 and irq :: "'u \<Rightarrow> 'u \<Rightarrow> bool"
    and sent :: "'u \<Rightarrow> u8 list" and pending :: "'u \<Rightarrow> (u32 \<times> u16) option" and mem :: "u32 \<Rightarrow> u8"
    and tx_callback :: "'u phost \<Rightarrow> 'u phost" and rx_callback :: "u32 \<Rightarrow> u32 \<Rightarrow> 'u phost \<Rightarrow> 'u phost"
  assumes submit: "sent (HC_SubmitRequest h pipe 0 2 1 b n g u) = sent u"
      "pending (HC_SubmitRequest h pipe 0 2 1 b n g u) = Some (b, n)"
      "HC_GetURBState h pipe (HC_SubmitRequest h pipe 0 2 1 b n g u) = USBH_URB_IDLE"
    and other: "q \<noteq> pipe \<Longrightarrow> sent (HC_SubmitRequest h q 1 2 1 b n g u) = sent u"
      "q \<noteq> pipe \<Longrightarrow> pending (HC_SubmitRequest h q 1 2 1 b n g u) = pending u"
      "q \<noteq> pipe \<Longrightarrow> HC_GetURBState h pipe (HC_SubmitRequest h q 1 2 1 b n g u) = HC_GetURBState h pipe u"
    and irq: "irq u u' \<Longrightarrow> tx_irq mem (v, sent u, pending u, HC_GetURBState h pipe u)
      (v, sent u', pending u', HC_GetURBState h pipe u')"
    and callbacks: "get_class_handle p = Some m \<Longrightarrow> streaming_state m = TransferData \<Longrightarrow>
        tx_view h pipe sent pending (tx_callback p) = tx_view h pipe sent pending p"
      "get_class_handle p = Some m \<Longrightarrow> streaming_state m = TransferData \<Longrightarrow>
        tx_view h pipe sent pending (rx_callback b len p) = tx_view h pipe sent pending p"
begin

abbreviation "V \<equiv> tx_view h pipe sent pending"

lemma V_on_handle:
  "V (on_handle f p) = (map_option (\<lambda>m. tx_part (f m)) (get_class_handle p), sent (hcd p), pending (hcd p),
     HC_GetURBState h pipe (hcd p))"
  by (simp add: tx_view_def handle_on_handle option.map_comp o_def)

lemma V_callbacks:
  assumes "get_class_handle p = Some m" "streaming_state (f m) = TransferData"
  shows "V (tx_callback (on_handle f p)) = V (on_handle f p)"
    and "V (rx_callback b n (on_handle f p)) = V (on_handle f p)"
  using assms by (intro callbacks(1) [of _ "f m"] callbacks(2) [of _ "f m"]; simp add: handle_on_handle)+

lemma transmission_view:
  assumes m: "get_class_handle p = Some m" "streaming_state m = TransferData" and o: "ep_pipe (OutEP m) = pipe"
  shows "V (MIDI_ProcessTransmission h tx_callback p) = tx_process (V p)"
proof -
  have v: "V p = (Some (tx_part m), sent (hcd p), pending (hcd p), HC_GetURBState h pipe (hcd p))"
    using m by (simp add: tx_view_def)
  show ?thesis
    by (cases "data_tx_state m"; cases "HC_GetURBState h pipe (hcd p)")
      (simp_all add: MIDI_ProcessTransmission_def Let_def usb_low_level m o V_callbacks [OF m(1)] V_on_handle v
        tx_part_def submit packet_def word_gt_0)
qed

lemma reception_view:
  assumes m: "get_class_handle p = Some m" "streaming_state m = TransferData" and i: "ep_pipe (InEP m) \<noteq> pipe"
  shows "V (MIDI_ProcessReception h rx_callback p) = V p"
proof -
  have v: "V p = (Some (tx_part m), sent (hcd p), pending (hcd p), HC_GetURBState h pipe (hcd p))"
    using m by (simp add: tx_view_def)
  show ?thesis
    by (simp add: MIDI_ProcessReception_def Let_def usb_low_level m V_callbacks [OF m(1)] V_on_handle v
        tx_part_def other [OF i])
qed

lemma view_handle: "V p = (Some t, w) \<Longrightarrow> \<exists>m. get_class_handle p = Some m \<and> tx_part m = t"
  by (auto simp: tx_view_def)

lemma process_view:
  assumes "get_class_handle p = Some m" "streaming_state m = TransferData" "ep_pipe (OutEP m) = pipe" "ep_pipe (InEP m) \<noteq> pipe"
  shows "V (snd (USBH_MIDI_Process h tx_callback rx_callback p)) = tx_process (V p)"
proof -
  let ?p = "MIDI_ProcessTransmission h tx_callback p"
  have v: "V ?p = tx_process (V p)" by (rule transmission_view [OF assms(1-3)])
  obtain t w where "V p = (Some t, w)" "t = tx_part m" using assms(1) by (simp add: tx_view_def)
  then have "\<exists>t' w'. V ?p = (Some t', w') \<and> fst (snd t') = InEP m \<and> snd (snd (snd (snd (snd t')))) = TransferData"
    unfolding v using assms(2) by (cases w; cases "data_tx_state m"; cases "snd (snd w)") (auto simp: tx_part_def)
  then obtain m' where "get_class_handle ?p = Some m'" "streaming_state m' = TransferData" "InEP m' = InEP m"
    using view_handle [of ?p] by (fastforce simp: tx_part_def)
  then show ?thesis
    using reception_view [of ?p m'] v assms by (simp add: USBH_MIDI_Process_def)
qed

lemma step_view:
  assumes "midi_step h tx_callback rx_callback irq p p'" and "tx_inv mem s0 buff n oe ie (V p)"
    and "ep_pipe oe = pipe" "ep_pipe ie \<noteq> pipe"
  shows "tx_step mem (V p) (V p')"
proof -
  obtain m where m: "get_class_handle p = Some m" "streaming_state m = TransferData" "OutEP m = oe" "InEP m = ie"
    using assms(2) view_handle [of p] unfolding tx_inv_def by (fastforce simp: tx_part_def)
  show ?thesis
    using assms(1)
  proof cases
    case process
    then show ?thesis using process_view [OF m(1,2)] m(3,4) assms(3,4) tx_step.process [of mem "V p"] by simp
  next
    case (interrupt u)
    from irq [OF this(2)] show ?thesis
      unfolding interrupt(1) by (intro tx_step.interrupt) (simp add: tx_view_def)
  next
    case (receive b n)
    then have "V p' = V p" using m
      by (simp add: USBH_MIDI_Receive_def tx_view_def handle_on_handle tx_part_def)
    then show ?thesis using tx_step.interrupt [OF tx_irq.quiet] by simp
  qed
qed

lemma steps_inv:
  assumes "(midi_step h tx_callback rx_callback irq)\<^sup>*\<^sup>* p p'" and "tx_inv mem s0 buff n oe ie (V p)"
    and "ep_pipe oe = pipe" "ep_pipe ie \<noteq> pipe"
  shows "tx_inv mem s0 buff n oe ie (V p')"
  using assms(1)
proof induction
  case base
  then show ?case by (rule assms(2))
next
  case (step y z)
  from tx_inv_step [OF step_view [OF step(2,3) assms(3,4)] step(3)] show ?case .
qed

lemma transmit_inv:
  assumes "get_class_handle p = Some m" "streaming_state m \<noteq> StateError" "pending (hcd p) = None"
  shows "fst (USBH_MIDI_Transmit buff n p) = USBH_OK \<and>
    tx_inv mem (sent (hcd p)) buff n (OutEP m) (InEP m) (V (snd (USBH_MIDI_Transmit buff n p)))"
proof -
  have "streaming_state m = StateIdle \<or> streaming_state m = TransferData" using assms(2) by (cases "streaming_state m") auto
  then show ?thesis using assms(1,3)
    by (auto simp: USBH_MIDI_Transmit_def tx_inv_def tx_view_def handle_on_handle tx_part_def memory_bytes_def
      intro!: exI [of _ 0])
qed

lemma round_view:
  assumes "V p = (Some (oe, ie, b, r, SendData, TransferData), sn, pd, ur)"
    and "ep_pipe oe = pipe" "ep_pipe ie \<noteq> pipe"
    and "\<And>u. pending u \<noteq> None \<Longrightarrow> HC_GetURBState h pipe (complete u) = USBH_URB_DONE"
    and "\<And>u. irq u (complete u)"
  shows "\<exists>sn' pd' ur'. V (midi_round h tx_callback rx_callback complete p) =
    (if r > ucast (ep_size oe) then Some (oe, ie, b + ucast (ep_size oe), r - ucast (ep_size oe), SendData, TransferData)
     else Some (oe, ie, b, 0, DataIdle, TransferData), sn', pd', ur')"
proof -
  let ?q = "snd (USBH_MIDI_Process h tx_callback rx_callback p)"
  let ?c = "?q\<lparr>hcd := complete (hcd ?q)\<rparr>"
  obtain m where m: "get_class_handle p = Some m" "tx_part m = (oe, ie, b, r, SendData, TransferData)"
    using view_handle [OF assms(1)] by blast
  have "V ?q = tx_process (V p)" using process_view [OF m(1)] m(2) assms(2,3) by (simp add: tx_part_def)
  then have q: "V ?q = (Some (oe, ie, b, r, SendDataWait, TransferData), sn, Some (b, packet (ep_size oe) r), USBH_URB_IDLE)"
    unfolding assms(1) by simp
  then have "pending (hcd ?q) \<noteq> None" by (simp add: tx_view_def)
  from assms(4) [OF this] obtain sn' pd' where c: "V ?c = (Some (oe, ie, b, r, SendDataWait, TransferData), sn', pd', USBH_URB_DONE)"
    using q by (auto simp: tx_view_def)
  obtain m' where m': "get_class_handle ?c = Some m'" "tx_part m' = (oe, ie, b, r, SendDataWait, TransferData)"
    using view_handle [OF c] by blast
  have "V (midi_round h tx_callback rx_callback complete p) = tx_process (V ?c)"
    unfolding midi_round_def Let_def using process_view [OF m'(1)] m'(2) assms(2,3) by (simp add: tx_part_def)
  then show ?thesis unfolding c by simp
qed

lemma rounds_finish:
  assumes "V p = (Some (oe, ie, b, r, SendData, TransferData), w)"
    and "ep_pipe oe = pipe" "ep_pipe ie \<noteq> pipe" "ep_size oe \<noteq> 0"
    and "\<And>u. pending u \<noteq> None \<Longrightarrow> HC_GetURBState h pipe (complete u) = USBH_URB_DONE"
    and "\<And>u. irq u (complete u)"
  shows "\<exists>b' w'. V ((midi_round h tx_callback rx_callback complete ^^ max 1 ((unat r + unat (ep_size oe) - 1) div unat (ep_size oe))) p) =
    (Some (oe, ie, b', 0, DataIdle, TransferData), w')"
  using assms(1)
proof (induction "unat r" arbitrary: p b r w rule: less_induct)
  case less
  let ?z = "unat (ep_size oe)" and ?s = "ucast (ep_size oe) :: u32"
  have z: "0 < ?z" using assms(4) by (simp add: unat_gt_0)
  have s: "unat ?s = ?z"
    using unsigned_less [of "ep_size oe", where ?'a = nat]
    by (simp add: unsigned_ucast_eq unsigned_take_bit_eq take_bit_nat_eq_self)
  obtain sn pd ur where w: "w = (sn, pd, ur)" by (cases w)
  note R = round_view [OF less.prems [unfolded w] assms(2,3,5,6)]
  show ?case
  proof (cases "r > ?s")
    case True
    then have u: "unat (r - ?s) = unat r - ?z" "?z < unat r"
      using s by (simp_all add: unat_sub_if' word_less_nat_alt)
    obtain w' where "V (midi_round h tx_callback rx_callback complete p) = (Some (oe, ie, b + ?s, r - ?s, SendData, TransferData), w')"
      using R True by auto
    from less.hyps [OF _ this] u z obtain b' w'' where
      f: "V ((midi_round h tx_callback rx_callback complete ^^ max 1 ((unat (r - ?s) + ?z - 1) div ?z)) (midi_round h tx_callback rx_callback complete p)) =
        (Some (oe, ie, b', 0, DataIdle, TransferData), w'')" by auto
    have e: "unat r + ?z - 1 = (unat (r - ?s) + ?z - 1) + ?z" using u by simp
    have "(unat r + ?z - 1) div ?z = Suc ((unat (r - ?s) + ?z - 1) div ?z)"
      unfolding e using div_add_self2 [of ?z "unat (r - ?s) + ?z - 1"] z by (metis Suc_eq_plus1 less_not_refl)
    moreover have "1 \<le> (unat (r - ?s) + ?z - 1) div ?z" using u z by (simp add: Suc_le_eq div_greater_zero_iff)
    ultimately have "max 1 ((unat r + ?z - 1) div ?z) = Suc (max 1 ((unat (r - ?s) + ?z - 1) div ?z))" by simp
    then show ?thesis using f by (cases w'') (simp add: funpow_Suc_right del: funpow.simps(2))
  next
    case False
    then have "unat r \<le> ?z" using s by (simp add: word_less_nat_alt not_less)
    then have "(unat r + ?z - 1) div ?z \<le> (2 * ?z - 1) div ?z" by (intro div_le_mono) simp
    also have "\<dots> = 1" using z by (intro div_nat_eqI) simp_all
    finally have "max 1 ((unat r + ?z - 1) div ?z) = 1" by simp
    then show ?thesis using R False by auto
  qed
qed

end

subsection \<open>A controller that keeps the contract\<close>

type_synonym sample_dev = "u8 list \<times> (u32 \<times> u16) option \<times> USBH_URBStateTypeDef"

definition sample_hcd :: "sample_dev hcd_driver" where
  "sample_hcd =
     \<lparr>HC_Init = \<lambda>_ _ _ _ _ _ u. u, HC_Halt = \<lambda>_ u. u,
      HC_SubmitRequest = \<lambda>q _ _ _ b n _ u. if q = 1 then (fst u, Some (b, n), USBH_URB_IDLE) else u,
      HC_GetURBState = \<lambda>q u. if q = 1 then snd (snd u) else USBH_URB_IDLE, HC_GetXferCount = \<lambda>_ _. 4,
      hc_ep_is_in = \<lambda>q _. q = 2, hc_toggle_in = \<lambda>_ _ u. u, hc_toggle_out = \<lambda>_ _ u. u,
      ClrFeature = \<lambda>_ u. (USBH_OK, u)\<rparr>"

definition sample_complete :: "(u32 \<Rightarrow> u8) \<Rightarrow> sample_dev \<Rightarrow> sample_dev" where
  "sample_complete mem u =
     (case fst (snd u) of
        None \<Rightarrow> u
      | Some (b, n) \<Rightarrow> (fst u @ memory_bytes mem b (unat n), None, USBH_URB_DONE))"

definition sample_irq :: "(u32 \<Rightarrow> u8) \<Rightarrow> sample_dev \<Rightarrow> sample_dev \<Rightarrow> bool" where
  "sample_irq mem u u' \<longleftrightarrow> u' = sample_complete mem u"

lemma receive_view:
  "get_class_handle p = Some m \<Longrightarrow> streaming_state m = TransferData \<Longrightarrow>
   tx_view h pipe sent pending (main_rx_callback b n p) = tx_view h pipe sent pending p"
  by (simp add: main_rx_callback_def host_receive_def USBH_MIDI_Receive_def tx_view_def handle_on_handle tx_part_def)

interpretation sample_out: bulk_out sample_hcd 1 "sample_irq mem" fst "\<lambda>u. fst (snd u)" mem "\<lambda>p. p" main_rx_callback for mem
proof
  fix u u' :: sample_dev and v :: "tx_handle option"
  assume "sample_irq mem u u'"
  moreover obtain sn pd ur where "u = (sn, pd, ur)" by (cases u)
  ultimately show "tx_irq mem (v, fst u, fst (snd u), HC_GetURBState sample_hcd 1 u)
      (v, fst u', fst (snd u'), HC_GetURBState sample_hcd 1 u')"
    by (auto simp: sample_irq_def sample_complete_def sample_hcd_def memory_bytes_def
      intro: tx_irq.quiet tx_irq.finished split: option.splits)
qed (simp_all add: sample_hcd_def receive_view)

definition sample_handle :: "u8 \<Rightarrow> MidiStreamingHandle" where
  "sample_handle sz =
     \<lparr>ControlEP = \<lparr>ep_addr = 0, ep_size = 0, ep_pipe = 0\<rparr>, InEP = \<lparr>ep_addr = 0x81, ep_size = sz, ep_pipe = 2\<rparr>,
      OutEP = \<lparr>ep_addr = 1, ep_size = sz, ep_pipe = 1\<rparr>, pTxData = 0, pRxData = 0, TxDataLength = 0, RxDataLength = 0,
      streaming_state = StateIdle, data_tx_state = DataIdle, data_rx_state = DataIdle, rx_buffer = 0x2000\<rparr>"

definition sample_phost :: "u8 \<Rightarrow> u16 \<Rightarrow> sample_dev phost" where
  "sample_phost sz mps =
     \<lparr>gState = HOST_CLASS, pActiveClass = Some (Some (sample_handle sz)),
      Itf_Desc = \<lambda>_. \<lparr>bInterfaceClass = 1, bInterfaceSubClass = 3, bInterfaceProtocol = 0,
        Ep_Desc = \<lambda>i. \<lparr>bEndpointAddress = if i = 0 then 1 else 0x81, wMaxPacketSize = mps\<rparr>\<rparr>,
      bNumInterfaces = 1, current_interface = 0, dev_address = 1, dev_speed = 0, Pipes = \<lambda>_. 0,
      hcd = ([], None, USBH_URB_IDLE)\<rparr>"

subsection \<open>Properties\<close>

text \<open>C35. After an accepted transmission, whatever sequence of processing, interrupts and new
  receptions follows, the device has taken a prefix of the buffer, in order and without loss or
  repetition, and when the driver reports the transmission as idle it has taken all of it.\<close>

theorem midi_transmits_in_order:
  assumes "bulk_out h pipe irq sent pending mem tx_callback rx_callback"
    and "get_class_handle p = Some m" "streaming_state m \<noteq> StateError" "pending (hcd p) = None"
    and "ep_pipe (OutEP m) = pipe" "ep_pipe (InEP m) \<noteq> pipe"
    and "(midi_step h tx_callback rx_callback irq)\<^sup>*\<^sup>* (snd (USBH_MIDI_Transmit buff n p)) p'"
  shows "\<exists>m' k. get_class_handle p' = Some m' \<and> k \<le> unat n \<and>
    sent (hcd p') = sent (hcd p) @ map (\<lambda>i. mem (buff + of_nat i)) [0..<k] \<and>
    (data_tx_state m' = DataIdle \<longrightarrow> k = unat n)"
proof -
  note inv = bulk_out.steps_inv [OF assms(1) assms(7) conjunct2 [OF bulk_out.transmit_inv [OF assms(1-4)]] assms(5,6)]
  then obtain m' where m': "get_class_handle p' = Some m'"
    using bulk_out.view_handle [OF assms(1), of p'] unfolding tx_inv_def by blast
  then have v: "tx_view h pipe sent pending p' =
      (Some (OutEP m', InEP m', pTxData m', TxDataLength m', data_tx_state m', streaming_state m'),
       sent (hcd p'), pending (hcd p'), HC_GetURBState h pipe (hcd p'))"
    by (simp add: tx_view_def tx_part_def)
  from tx_inv_sent(1) [OF inv v] show ?thesis using m' by (auto simp: memory_bytes_def)
qed

definition sample_sent :: "sample_dev phost" where
  "sample_sent = midi_round sample_hcd (\<lambda>p. p) main_rx_callback (sample_complete ucast)
     (snd (USBH_MIDI_Transmit 0x1010 3 (sample_phost 64 64)))"

theorem midi_transmits_in_order_witness:
  "fst (hcd sample_sent) = [0x10, 0x11, 0x12]"
proof -
  let ?p = "sample_phost 64 64"
  have m: "get_class_handle ?p = Some (sample_handle 64)" by (simp add: get_class_handle_def sample_phost_def)
  have "(midi_step sample_hcd (\<lambda>p. p) main_rx_callback (sample_irq ucast))\<^sup>*\<^sup>*
      (snd (USBH_MIDI_Transmit 0x1010 3 ?p)) sample_sent"
    unfolding sample_sent_def by (rule midi_round_steps) (simp add: sample_irq_def)
  from midi_transmits_in_order [OF sample_out.bulk_out_axioms m _ _ _ _ this] obtain m' k where
    "get_class_handle sample_sent = Some m'" "data_tx_state m' = DataIdle \<longrightarrow> k = 3"
    "fst (hcd sample_sent) = map (\<lambda>i. ucast (0x1010 + of_nat i :: u32)) [0..<k]"
    by (auto simp: sample_handle_def sample_phost_def)
  moreover have "map_option data_tx_state (get_class_handle sample_sent) = Some DataIdle"
    by code_simp
  ultimately show ?thesis by (auto simp: upt_rec)
qed



text \<open>C37. An endpoint whose packet size is a multiple of 256, as the 512 of every high-speed bulk
  endpoint, is linked with the size 0. A transmission through it is accepted and then sends empty
  packets for ever: the device never gets a byte, and the transmission never ends.\<close>

theorem midi_high_speed_sends_nothing:
  assumes "bulk_out h pipe irq sent pending mem tx_callback rx_callback"
    and "get_class_handle p = Some m" "streaming_state m \<noteq> StateError" "pending (hcd p) = None"
    and "ep_pipe (OutEP m) = pipe" "ep_pipe (InEP m) \<noteq> pipe"
    and "OutEP m = fst (link_endpoint_pipe interface i q)"
    and "256 dvd unat (wMaxPacketSize (Ep_Desc (Itf_Desc q (unat interface)) i))" "n \<noteq> 0"
    and "(midi_step h tx_callback rx_callback irq)\<^sup>*\<^sup>* (snd (USBH_MIDI_Transmit buff n p)) p'"
  shows "fst (USBH_MIDI_Transmit buff n p) = USBH_OK \<and> sent (hcd p') = sent (hcd p) \<and>
    (\<exists>m'. get_class_handle p' = Some m' \<and> data_tx_state m' \<noteq> DataIdle)"
proof -
  let ?w = "wMaxPacketSize (Ep_Desc (Itf_Desc q (unat interface)) i)"
  have "ep_size (OutEP m) = ucast ?w" using assms(7) by (simp add: link_endpoint_pipe_def Let_def split_def)
  moreover have "unat (ucast ?w :: u8) = 0"
    using assms(8) by (simp add: unsigned_ucast_eq unsigned_take_bit_eq take_bit_eq_mod)
  ultimately have z: "ep_size (OutEP m) = 0" by (simp add: unat_eq_zero)
  note ok = bulk_out.transmit_inv [OF assms(1-4), of buff n]
  note inv = bulk_out.steps_inv [OF assms(1,10) conjunct2 [OF ok] assms(5,6)]
  then obtain m' where m': "get_class_handle p' = Some m'"
    using bulk_out.view_handle [OF assms(1), of p'] unfolding tx_inv_def by blast
  then have v: "tx_view h pipe sent pending p' =
      (Some (OutEP m', InEP m', pTxData m', TxDataLength m', data_tx_state m', streaming_state m'),
       sent (hcd p'), pending (hcd p'), HC_GetURBState h pipe (hcd p'))"
    by (simp add: tx_view_def tx_part_def)
  from tx_inv_sent(2) [OF inv v z assms(9)] show ?thesis using ok m' by simp
qed

theorem midi_high_speed_sends_nothing_witness:
  "fst (hcd (midi_round sample_hcd (\<lambda>p. p) main_rx_callback (sample_complete ucast)
     (snd (USBH_MIDI_Transmit 0x1010 3 (sample_phost 0 512))))) = []"
proof -
  let ?p = "sample_phost 0 512"
  let ?q = "midi_round sample_hcd (\<lambda>p. p) main_rx_callback (sample_complete ucast) (snd (USBH_MIDI_Transmit 0x1010 3 ?p))"
  have m: "get_class_handle ?p = Some (sample_handle 0)" by (simp add: get_class_handle_def sample_phost_def)
  have l: "OutEP (sample_handle 0) = fst (link_endpoint_pipe 0 0 (?p\<lparr>Pipes := (\<lambda>_. 0)(0 := 0x8000)\<rparr>))"
    by code_simp
  have "(midi_step sample_hcd (\<lambda>p. p) main_rx_callback (sample_irq ucast))\<^sup>*\<^sup>* (snd (USBH_MIDI_Transmit 0x1010 3 ?p)) ?q"
    by (rule midi_round_steps) (simp add: sample_irq_def)
  from midi_high_speed_sends_nothing [OF sample_out.bulk_out_axioms m _ _ _ _ l _ _ this]
  show ?thesis by (simp add: sample_handle_def sample_phost_def)
qed

text \<open>A message is recovered from its raw value, and of the channel messages all but the pitch
  bend are printed as what they are: the test for it repeats the one for the channel pressure.\<close>

theorem midi_messages:
  "ucast (drop_bit 16 (midi_raw (MidiMessage_new st d0 d1))) = st \<and>
   ucast (drop_bit 8 (midi_raw (MidiMessage_new st d0 d1))) = d0 \<and>
   ucast (midi_raw (MidiMessage_new st d0 d1)) = d1 \<and>
   midi_print (MidiMessage_new (0x90 OR st AND 0xF) d0 d1) = Note d0 d1 \<and>
   midi_print (MidiMessage_new (0x80 OR st AND 0xF) d0 d1) = NoteOffText d0 \<and>
   midi_print (MidiMessage_new (0xE0 OR st AND 0xF) d0 d1) =
     Raw (midi_raw (MidiMessage_new (0xE0 OR st AND 0xF) d0 d1)) \<and>
   (\<forall>m v. midi_print m \<noteq> BendText v)"
proof -
  have s: "status_byte (midi_status (MidiMessage_new x d0 d1)) = x"
    "midi_command (midi_status (MidiMessage_new x d0 d1)) = drop_bit 4 x"
    "midi_byte0 (MidiMessage_new x d0 d1) = d0" "midi_byte1 (MidiMessage_new x d0 d1) = d1" for x
    by (simp_all add: MidiMessage_new_def status_byte_make) (simp add: MidiStatusByte_make_def)
  have c: "drop_bit 4 (x OR st AND 0xF) = drop_bit 4 x" for x :: u8
  proof -
    have "(0xF :: u8) = mask 4" by (simp add: mask_eq_exp_minus_1)
    then show ?thesis by (simp only:) (rule bit_word_eqI; auto simp: bit_simps)
  qed
  have e: "0xE0 OR st AND 0xF \<noteq> 0xF8" "0xE0 OR st AND 0xF \<noteq> 0xF0" "0xE0 OR st AND 0xF \<noteq> 0"
    using c [of "0xE0"] by (auto dest: arg_cong [of _ _ "drop_bit 4"])
  have r: "midi_raw (MidiMessage_new (0xE0 OR st AND 0xF) d0 d1) \<noteq> 0"
    using raw_bytes(1) [of "MidiMessage_new (0xE0 OR st AND 0xF) d0 d1"] e(3) s by auto
  show ?thesis
    by (simp add: raw_bytes s) (simp add: c e r s is_command_def midi_print_def)
qed

end
