(* ===== verification/AudioUtil.thy ===== *)
theory AudioUtil
  imports Prelude
begin

text \<open>
  The containers and helpers of examples/audio\_processor/lib/util: the ring buffer
  (circular\_buffer.hh), the switch debouncer (debouncer.hh), the oversampling filter (filter.hh),
  parameters with a change flag (parameter.h), the sequential map, the static string, the
  replacement in a string (string\_util.hh) and the integer part of math.hh. Floating-point code
  is not modelled. The element types of the templates are type variables.

  \<open>bounded_queue\<close> is the interface of a queue that forgets its oldest element when it is full;
  the ring buffer provides it. \<open>None\<close> is an access outside an array, and for the loops one that
  does not end.
\<close>

subsection \<open>The interface of a bounded queue\<close>

primrec put_all :: "('a \<Rightarrow> 'q \<Rightarrow> 'q option) \<Rightarrow> 'a list \<Rightarrow> 'q \<Rightarrow> 'q option" where
  "put_all put [] q = Some q"
| "put_all put (x # xs) q = do { q \<leftarrow> put x q; put_all put xs q }"

primrec take_out :: "('q \<Rightarrow> ('a \<times> 'q) option) \<Rightarrow> nat \<Rightarrow> 'q \<Rightarrow> ('a list \<times> 'q) option" where
  "take_out get 0 q = Some ([], q)"
| "take_out get (Suc n) q = do { (x, q) \<leftarrow> get q; (xs, q) \<leftarrow> take_out get n q; Some (x # xs, q) }"

locale bounded_queue =
  fixes inv :: "'q \<Rightarrow> bool" and items :: "'q \<Rightarrow> 'a list" and bound :: "'q \<Rightarrow> nat"
    and put :: "'a \<Rightarrow> 'q \<Rightarrow> 'q option" and get :: "'q \<Rightarrow> ('a \<times> 'q) option" and is_empty :: "'q \<Rightarrow> bool"
  assumes put_ok: "inv q \<Longrightarrow> \<exists>q'. put x q = Some q' \<and> inv q' \<and> bound q' = bound q \<and>
      items q' = (if length (items q) = bound q then tl (items q) else items q) @ [x]"
    and get_ok: "inv q \<Longrightarrow> items q \<noteq> [] \<Longrightarrow>
      \<exists>q'. get q = Some (hd (items q), q') \<and> inv q' \<and> bound q' = bound q \<and> items q' = tl (items q)"
    and empty_ok: "inv q \<Longrightarrow> is_empty q \<longleftrightarrow> items q = []"
    and bounded: "inv q \<Longrightarrow> length (items q) \<le> bound q" "inv q \<Longrightarrow> 0 < bound q"
begin

text \<open>Filling in a list keeps the last elements; draining yields all of them in order.\<close>

lemma put_all_last:
  assumes "inv q"
  shows "\<exists>q'. put_all put xs q = Some q' \<and> inv q' \<and> bound q' = bound q \<and>
    items q' = drop (length (items q) + length xs - bound q) (items q @ xs)"
  using assms
proof (induction xs arbitrary: q)
  case Nil
  then show ?case using bounded(1) [of q] by simp
next
  case (Cons x xs)
  obtain q1 where q1: "put x q = Some q1" "inv q1" "bound q1 = bound q"
    "items q1 = (if length (items q) = bound q then tl (items q) else items q) @ [x]"
    using put_ok [OF Cons.prems] by blast
  obtain q2 where q2: "put_all put xs q1 = Some q2" "inv q2" "bound q2 = bound q"
    "items q2 = drop (length (items q1) + length xs - bound q1) (items q1 @ xs)"
    using Cons.IH [OF q1(2)] q1(3) by auto
  show ?case
  proof (cases "length (items q) = bound q")
    case True
    then obtain a as where i: "items q = a # as" using bounded(2) [OF Cons.prems] by (cases "items q") auto
    then have "bound q = Suc (length as)" using True by simp
    then show ?thesis using q1 q2 i by auto
  next
    case False
    then show ?thesis using q1 q2 bounded(1) [OF Cons.prems] by auto
  qed
qed

lemma take_out_first:
  assumes "inv q" "n \<le> length (items q)"
  shows "\<exists>q'. take_out get n q = Some (take n (items q), q') \<and> inv q' \<and> bound q' = bound q \<and> items q' = drop n (items q)"
  using assms
proof (induction n arbitrary: q)
  case (Suc n)
  then obtain a as where i: "items q = a # as" by (cases "items q") auto
  obtain q1 where q1: "get q = Some (hd (items q), q1)" "inv q1" "bound q1 = bound q" "items q1 = tl (items q)"
    using get_ok [OF Suc.prems(1)] i by auto
  have "\<exists>q'. take_out get n q1 = Some (take n (items q1), q') \<and> inv q' \<and> bound q' = bound q1 \<and> items q' = drop n (items q1)"
    using Suc.prems i q1 by (intro Suc.IH) auto
  then show ?case using q1 i by auto
qed simp

end

subsection \<open>The ring buffer\<close>

text \<open>\<open>buf_\<close> has \<open>max_size_\<close> elements. The indices stay below it, so the sums of the code do not
  wrap (and \<open>max_size_ + head_ - tail_\<close> is exact after the subtraction).\<close>

record 'a CircularBuffer =
  ring_buf :: "'a list"
  ring_head :: nat
  ring_tail :: nat
  ring_full :: bool

definition CircularBuffer_new :: "'a \<Rightarrow> nat \<Rightarrow> 'a CircularBuffer" where
  "CircularBuffer_new z max_size = \<lparr>ring_buf = replicate max_size z, ring_head = 0, ring_tail = 0, ring_full = False\<rparr>"

definition ring_capacity :: "'a CircularBuffer \<Rightarrow> nat" where
  "ring_capacity c = length (ring_buf c)"

definition ring_empty :: "'a CircularBuffer \<Rightarrow> bool" where
  "ring_empty c \<longleftrightarrow> \<not> ring_full c \<and> ring_head c = ring_tail c"

definition ring_put :: "'a \<Rightarrow> 'a CircularBuffer \<Rightarrow> 'a CircularBuffer option" where
  "ring_put item c =
     (let n = length (ring_buf c)
      in if ring_head c < n
         then let t = if ring_full c then (ring_tail c + 1) mod n else ring_tail c;
                  hd' = (ring_head c + 1) mod n
              in Some \<lparr>ring_buf = (ring_buf c)[ring_head c := item], ring_head = hd', ring_tail = t, ring_full = (hd' = t)\<rparr>
         else None)"

text \<open>\<open>z\<close> is the value \<open>T()\<close>.\<close>

definition ring_get :: "'a \<Rightarrow> 'a CircularBuffer \<Rightarrow> ('a \<times> 'a CircularBuffer) option" where
  "ring_get z c =
     (if ring_empty c then Some (z, c)
      else if ring_tail c < length (ring_buf c)
      then Some (ring_buf c ! ring_tail c,
        c\<lparr>ring_full := False, ring_tail := (ring_tail c + 1) mod length (ring_buf c)\<rparr>)
      else None)"

definition ring_set_head :: "nat \<Rightarrow> 'a CircularBuffer \<Rightarrow> 'a CircularBuffer" where
  "ring_set_head head c = c\<lparr>ring_head := head\<rparr>"

definition ring_remove_first :: "'a CircularBuffer \<Rightarrow> 'a CircularBuffer" where
  "ring_remove_first c =
     (if ring_empty c then c else c\<lparr>ring_full := False, ring_tail := (ring_tail c + 1) mod length (ring_buf c)\<rparr>)"

definition ring_first :: "'a CircularBuffer \<Rightarrow> 'a option" where
  "ring_first c = (if ring_tail c < length (ring_buf c) then Some (ring_buf c ! ring_tail c) else None)"

definition ring_reset :: "'a CircularBuffer \<Rightarrow> 'a CircularBuffer" where
  "ring_reset c = c\<lparr>ring_head := ring_tail c, ring_full := False\<rparr>"

definition ring_size :: "'a CircularBuffer \<Rightarrow> nat" where
  "ring_size c =
     (if ring_full c then length (ring_buf c)
      else if ring_head c \<ge> ring_tail c then ring_head c - ring_tail c
      else length (ring_buf c) + ring_head c - ring_tail c)"

definition ring_inv :: "'a CircularBuffer \<Rightarrow> bool" where
  "ring_inv c \<longleftrightarrow> ring_head c < length (ring_buf c) \<and> ring_tail c < length (ring_buf c) \<and>
     (ring_full c \<longrightarrow> ring_head c = ring_tail c)"

definition ring_items :: "'a CircularBuffer \<Rightarrow> 'a list" where
  "ring_items c = map (\<lambda>i. ring_buf c ! ((ring_tail c + i) mod length (ring_buf c))) [0..<ring_size c]"

lemma length_ring_items [simp]: "length (ring_items c) = ring_size c"
  by (simp add: ring_items_def)

lemma nth_ring_items: "j < ring_size c \<Longrightarrow> ring_items c ! j = ring_buf c ! ((ring_tail c + j) mod length (ring_buf c))"
  by (simp add: ring_items_def)

lemma ring_size_le: "ring_inv c \<Longrightarrow> ring_size c \<le> length (ring_buf c)"
  by (auto simp: ring_inv_def ring_size_def)

lemma ring_head_of_size: "ring_inv c \<Longrightarrow> ring_head c = (ring_tail c + ring_size c) mod length (ring_buf c)"
  by (auto simp: ring_inv_def ring_size_def mod_if)

lemma ring_full_size: "ring_inv c \<Longrightarrow> ring_full c \<longleftrightarrow> ring_size c = length (ring_buf c)"
  by (auto simp: ring_inv_def ring_size_def split: if_splits)

lemma ring_empty_size: "ring_inv c \<Longrightarrow> ring_empty c \<longleftrightarrow> ring_size c = 0"
  by (auto simp: ring_inv_def ring_size_def ring_empty_def split: if_splits)

lemma mod_add_distinct:
  assumes "j < k" "k < j + n"
  shows "(t + j) mod n \<noteq> (t + k) mod (n :: nat)"
proof
  assume "(t + j) mod n = (t + k) mod n"
  then have "n dvd k - j" using assms(1) mod_eq_dvd_iff_nat [of "t + j" "t + k" n] by simp
  then show False using assms by (auto dest: dvd_imp_le)
qed

lemma ring_put_items:
  assumes "ring_inv c"
  shows "\<exists>c'. ring_put x c = Some c' \<and> ring_inv c' \<and> ring_capacity c' = ring_capacity c \<and>
    ring_items c' = (if length (ring_items c) = ring_capacity c then tl (ring_items c) else ring_items c) @ [x]"
proof -
  let ?n = "length (ring_buf c)" and ?h = "ring_head c"
  let ?t = "if ring_full c then (ring_tail c + 1) mod ?n else ring_tail c"
  let ?c = "\<lparr>ring_buf = (ring_buf c)[?h := x], ring_head = (?h + 1) mod ?n, ring_tail = ?t,
    ring_full = ((?h + 1) mod ?n = ?t)\<rparr>"
  have i: "?h < ?n" "ring_tail c < ?n" "ring_full c \<Longrightarrow> ?h = ring_tail c" using assms by (auto simp: ring_inv_def)
  then have n: "0 < ?n" by linarith
  have inv: "ring_inv ?c" using i n by (auto simp: ring_inv_def)
  have s: "ring_size ?c = Suc (if ring_full c then ?n - 1 else ring_size c)"
    using i n by (auto simp: ring_size_def mod_Suc split: if_splits)
  have full: "ring_full c \<longleftrightarrow> ring_size c = ?n" by (rule ring_full_size [OF assms])
  have pos: "ring_buf ?c ! ((ring_tail ?c + j) mod ?n) =
      ((if ring_full c then tl (ring_items c) else ring_items c) @ [x]) ! j" if j: "j < ring_size ?c" for j
  proof (cases "ring_full c")
    case True
    have t: "ring_size c = ?n" "?h = ring_tail c" using True full i(3) by auto
    have e: "((?t + j) mod ?n) = (ring_tail c + Suc j) mod ?n" using True by (simp add: mod_simps)
    show ?thesis
    proof (cases "Suc j < ?n")
      case jn: True
      have "(ring_tail c + Suc j) mod ?n \<noteq> ?h"
        using mod_add_distinct [of 0 "Suc j" ?n "ring_tail c"] jn t(2) i(2) by simp
      then show ?thesis using jn True t(1) e by (auto simp: nth_append nth_tl ring_items_def)
    next
      case False
      then have "Suc j = ?n" using j s True n by (simp split: if_splits)
      moreover from this have "(ring_tail c + Suc j) mod ?n = ?h" using t(2) i(2) by simp
      ultimately show ?thesis using True t(1) e i(1) by (auto simp: nth_append)
    qed
  next
    case False
    then have l: "ring_size c < ?n" using full ring_size_le [OF assms] by auto
    show ?thesis
    proof (cases "j < ring_size c")
      case jn: True
      then have "(ring_tail c + j) mod ?n \<noteq> ?h"
        using mod_add_distinct [of j "ring_size c" ?n "ring_tail c"] ring_head_of_size [OF assms] l by simp
      then show ?thesis using jn False by (auto simp: nth_append ring_items_def)
    next
      case False2: False
      then have "j = ring_size c" using j s False by auto
      then show ?thesis using ring_head_of_size [OF assms] i(1) False by (auto simp: nth_append)
    qed
  qed
  have "ring_items ?c = (if ring_full c then tl (ring_items c) else ring_items c) @ [x]"
  proof (rule nth_equalityI)
    show "length (ring_items ?c) = length ((if ring_full c then tl (ring_items c) else ring_items c) @ [x])"
      using s full n by (simp split: if_splits)
    show "ring_items ?c ! j = ((if ring_full c then tl (ring_items c) else ring_items c) @ [x]) ! j"
      if "j < length (ring_items ?c)" for j
      using nth_ring_items [of j ?c] pos [of j] that by simp
  qed
  then show ?thesis
    using inv i(1) full by (simp add: ring_put_def Let_def ring_capacity_def)
qed

lemma ring_drop_items:
  assumes "ring_inv c" "\<not> ring_empty c"
  defines "c' \<equiv> c\<lparr>ring_full := False, ring_tail := (ring_tail c + 1) mod length (ring_buf c)\<rparr>"
  shows "ring_inv c'" "ring_items c' = tl (ring_items c)" "ring_items c \<noteq> []"
    and "hd (ring_items c) = ring_buf c ! ring_tail c"
proof -
  let ?n = "length (ring_buf c)"
  have i: "ring_head c < ?n" "ring_tail c < ?n" "ring_full c \<Longrightarrow> ring_head c = ring_tail c"
    using assms(1) by (auto simp: ring_inv_def)
  moreover from i(2) have "(ring_tail c + 1) mod ?n < ?n" by (intro mod_less_divisor) linarith
  ultimately show "ring_inv c'" by (auto simp: ring_inv_def c'_def)
  have pos: "0 < ring_size c" using ring_empty_size [OF assms(1)] assms(2) by simp
  have s: "ring_size c' = ring_size c - 1"
    using i assms(2) by (auto simp: ring_size_def c'_def ring_empty_def mod_Suc split: if_splits)
  show ne: "ring_items c \<noteq> []" using pos by (simp add: ring_items_def)
  show "ring_items c' = tl (ring_items c)"
    using s by (intro nth_equalityI) (auto simp: nth_tl ring_items_def c'_def mod_simps)
  show "hd (ring_items c) = ring_buf c ! ring_tail c"
    using pos i(2) by (simp add: hd_conv_nth [OF ne]) (simp add: ring_items_def)
qed

lemma ring_get_items:
  assumes "ring_inv c" "ring_items c \<noteq> []"
  shows "\<exists>c'. ring_get z c = Some (hd (ring_items c), c') \<and> ring_inv c' \<and> ring_capacity c' = ring_capacity c \<and>
    ring_items c' = tl (ring_items c)"
proof -
  have "\<not> ring_empty c" using assms ring_empty_size [of c] by (auto simp flip: length_ring_items)
  moreover have "ring_tail c < length (ring_buf c)" using assms(1) by (simp add: ring_inv_def)
  ultimately show ?thesis
    using ring_drop_items [OF assms(1)] by (auto simp: ring_get_def ring_capacity_def)
qed

interpretation ring: bounded_queue ring_inv ring_items ring_capacity ring_put "ring_get z" ring_empty for z
proof
  show "ring_empty q \<longleftrightarrow> ring_items q = []" if "ring_inv q" for q :: "'a CircularBuffer"
    using ring_empty_size [OF that] by (simp add: ring_items_def)
  show "length (ring_items q) \<le> ring_capacity q" "0 < ring_capacity q" if "ring_inv q" for q :: "'a CircularBuffer"
    using ring_size_le [OF that] that by (auto simp: ring_capacity_def ring_inv_def)
qed (fact ring_put_items, fact ring_get_items)

lemma ring_new: "0 < n \<Longrightarrow> ring_inv (CircularBuffer_new z n) \<and> ring_items (CircularBuffer_new z n) = [] \<and>
    ring_capacity (CircularBuffer_new z n) = n"
  by (simp add: ring_inv_def CircularBuffer_new_def ring_items_def ring_size_def ring_capacity_def)

subsection \<open>Switches\<close>

record Toggler =
  is_high :: bool
  got_rising_edge :: bool
  got_falling_edge :: bool

definition Toggler_new :: Toggler where
  "Toggler_new = \<lparr>is_high = False, got_rising_edge = False, got_falling_edge = False\<rparr>"

definition Toggler_reset :: "'a Toggler_scheme \<Rightarrow> 'a Toggler_scheme" where
  "Toggler_reset t = t\<lparr>is_high := False, got_falling_edge := False, got_rising_edge := False\<rparr>"

definition is_just_pressed :: "'a Toggler_scheme \<Rightarrow> bool \<times> 'a Toggler_scheme" where
  "is_just_pressed t = (if got_rising_edge t then (True, t\<lparr>got_rising_edge := False\<rparr>) else (False, t))"

definition is_just_released :: "'a Toggler_scheme \<Rightarrow> bool \<times> 'a Toggler_scheme" where
  "is_just_released t = (if got_falling_edge t then (True, t\<lparr>got_falling_edge := False\<rparr>) else (False, t))"

definition register_rising_edge :: "'a Toggler_scheme \<Rightarrow> 'a Toggler_scheme" where
  "register_rising_edge t = t\<lparr>is_high := True, got_rising_edge := True, got_falling_edge := False\<rparr>"

definition register_falling_edge :: "'a Toggler_scheme \<Rightarrow> 'a Toggler_scheme" where
  "register_falling_edge t = t\<lparr>is_high := False, got_falling_edge := True, got_rising_edge := False\<rparr>"

definition set_state :: "u32 \<Rightarrow> 'a Toggler_scheme \<Rightarrow> 'a Toggler_scheme" where
  "set_state x t = t\<lparr>is_high := x \<noteq> 0\<rparr>"

definition copy_state :: "Toggler \<Rightarrow> 'a Toggler_scheme \<Rightarrow> 'a Toggler_scheme" where
  "copy_state other t = t\<lparr>is_high := is_high other, got_rising_edge := got_rising_edge other,
     got_falling_edge := got_falling_edge other\<rparr>"

record Debouncer = Toggler +
  debounce_state :: u32

definition Debouncer_new :: Debouncer where
  "Debouncer_new = Toggler.extend Toggler_new \<lparr>debounce_state = 0\<rparr>"

text \<open>The parameters are the two patterns and the mask of the template.\<close>

definition register_state :: "u32 \<Rightarrow> u32 \<Rightarrow> u32 \<Rightarrow> u32 \<Rightarrow> Debouncer \<Rightarrow> Debouncer" where
  "register_state RisingEdgePattern FallingEdgePattern StateMask new_state d =
     (let s = (push_bit 1 (debounce_state d) OR new_state) AND StateMask;
          d = d\<lparr>debounce_state := s\<rparr>
      in if s = RisingEdgePattern AND StateMask then register_rising_edge d
         else if s = FallingEdgePattern AND StateMask then register_falling_edge d
         else set_state new_state d)"

text \<open>The default parameters, and a row of readings, the last one first.\<close>

definition register_reading :: "bool \<Rightarrow> Debouncer \<Rightarrow> Debouncer" where
  "register_reading b = register_state 0x00000001 0xFFFFFFFE 0x00000FFF (if b then 1 else 0)"

definition readings :: "bool list \<Rightarrow> Debouncer" where
  "readings bs = foldr register_reading bs Debouncer_new"

lemma debounce_bits:
  "bit (debounce_state (readings bs)) i \<longleftrightarrow> i < 12 \<and> (bs @ replicate 12 False) ! i"
proof (induction bs arbitrary: i)
  case Nil
  then show ?case by (auto simp: readings_def Debouncer_new_def Toggler.defs)
next
  case (Cons b bs)
  have s: "debounce_state (readings (b # bs)) =
      (push_bit 1 (debounce_state (readings bs)) OR (if b then 1 else 0)) AND mask 12"
    by (simp add: readings_def register_reading_def register_state_def Let_def register_rising_edge_def
      register_falling_edge_def set_state_def mask_eq_exp_minus_1)
  show ?case
  proof (cases i)
    case 0
    then show ?thesis unfolding s
      by (simp only: bit_and_iff bit_or_iff bit_push_bit_iff bit_mask_iff) (simp add: bit_1_iff)
  next
    case (Suc j)
    then show ?thesis unfolding s using Cons.IH [of j]
      by (simp only: bit_and_iff bit_or_iff bit_push_bit_iff bit_mask_iff) (auto simp: bit_1_iff)
  qed
qed

lemma reading_pattern:
  assumes "\<And>i. bit p i \<longleftrightarrow> i < 12 \<and> q i"
  shows "debounce_state (readings (b # bs)) = p \<longleftrightarrow>
    b = q 0 \<and> (\<forall>i<11. (bs @ replicate 12 False) ! i = q (Suc i))"
proof -
  have e: "x = y \<longleftrightarrow> (\<forall>i. bit x i = bit y i)" for x y :: u32 by (auto intro: bit_word_eqI)
  have "debounce_state (readings (b # bs)) = p \<longleftrightarrow> (\<forall>i<Suc 11. (b # bs @ replicate 12 False) ! i = q i)"
    using assms debounce_bits [of "b # bs"] by (auto simp: e)
  also have "\<dots> \<longleftrightarrow> b = q 0 \<and> (\<forall>i<11. (bs @ replicate 12 False) ! i = q (Suc i))"
    unfolding All_less_Suc2 by simp
  finally show ?thesis .
qed

lemma take_all_readings:
  "list_all (\<lambda>x. x = v) (take 11 (bs @ replicate 11 False)) \<longleftrightarrow> (\<forall>i<11. (bs @ replicate 12 False) ! i = v)"
proof -
  have "(bs @ replicate 11 False) ! i = (bs @ replicate 12 False) ! i" if "i < 11" for i
    using that by (auto simp: nth_append)
  then show ?thesis by (simp add: list_all_length del: take_append)
qed

lemma reading_rising:
  "debounce_state (readings (b # bs)) = 1 \<longleftrightarrow> b \<and> list_all (\<lambda>x. x = False) (take 11 (bs @ replicate 11 False))"
proof -
  have "bit (1 :: u32) i \<longleftrightarrow> i < 12 \<and> i = 0" for i by (auto simp: bit_1_iff)
  from reading_pattern [of 1 "\<lambda>i. i = 0", OF this] show ?thesis by (simp only: take_all_readings) simp
qed

lemma reading_falling:
  "debounce_state (readings (b # bs)) = 0xFFE \<longleftrightarrow> \<not> b \<and> list_all (\<lambda>x. x = True) (take 11 (bs @ replicate 11 False))"
proof -
  have m: "(0xFFE :: u32) = mask 12 AND NOT 1" by (simp add: mask_eq_exp_minus_1)
  have "bit (0xFFE :: u32) i \<longleftrightarrow> i < 12 \<and> i \<noteq> 0" for i
    unfolding m by (simp only: bit_and_iff bit_mask_iff bit_not_iff bit_1_iff) auto
  from reading_pattern [of "0xFFE" "\<lambda>i. i \<noteq> 0", OF this] show ?thesis by (simp only: take_all_readings) simp
qed

subsection \<open>Filters and parameters\<close>

fun MathTools_Log2 :: "nat \<Rightarrow> nat" where
  "MathTools_Log2 n = (if n \<le> 1 then 0 else MathTools_Log2 (n div 2) + 1)"

declare MathTools_Log2.simps [simp del]

lemma Log2_power: "MathTools_Log2 (2 ^ k) = k"
proof (induction k)
  case (Suc k)
  have "\<not> 2 ^ Suc k \<le> (1 :: nat)" using one_less_power [of "2 :: nat" "Suc k"] by linarith
  then show ?case using Suc by (subst MathTools_Log2.simps) simp
qed (subst MathTools_Log2.simps; simp)

record Oversampler =
  over_buff :: u32
  over_val :: u32
  over_idx :: u32

definition Oversampler_new :: Oversampler where
  "Oversampler_new = \<lparr>over_buff = 0, over_val = 0, over_idx = 0\<rparr>"

definition Oversampler_add_val :: "u32 \<Rightarrow> u32 \<Rightarrow> Oversampler \<Rightarrow> Oversampler" where
  "Oversampler_add_val Size newval f =
     (let buff = over_buff f + newval; idx = over_idx f + 1
      in if idx \<ge> Size then f\<lparr>over_val := drop_bit (MathTools_Log2 (unat Size)) buff, over_idx := 0, over_buff := 0\<rparr>
         else f\<lparr>over_buff := buff, over_idx := idx\<rparr>)"

record 'a Parameter =
  currentVal :: 'a
  changed :: bool

definition Parameter_new :: "'a \<Rightarrow> 'a Parameter" where
  "Parameter_new v = \<lparr>currentVal = v, changed = True\<rparr>"

definition setValue :: "'a \<Rightarrow> 'a Parameter \<Rightarrow> 'a Parameter" where
  "setValue input p = (if input \<noteq> currentVal p then p\<lparr>changed := True, currentVal := input\<rparr> else p)"

definition isChanged :: "'a Parameter \<Rightarrow> bool \<times> 'a Parameter" where
  "isChanged p = (changed p, p\<lparr>changed := False\<rparr>)"

text \<open>\<open>RefParameter\<close> refers to a variable of its owner: it is an argument and part of the result.\<close>

definition RefParameter_isChanged :: "'a \<Rightarrow> 'a \<Rightarrow> bool \<times> 'a" where
  "RefParameter_isChanged current last_val = (if current = last_val then (False, last_val) else (True, current))"

subsection \<open>The sequential map and the static string\<close>

definition SequentialMap_lookup :: "('k \<times> 'v) list \<Rightarrow> 'k \<Rightarrow> 'v option" where
  "SequentialMap_lookup data key =
     (case filter (\<lambda>p. fst p = key) data of
        p # _ \<Rightarrow> Some (snd p)
      | [] \<Rightarrow> (case data of [] \<Rightarrow> None | p # _ \<Rightarrow> Some (snd p)))"

text \<open>The contents of \<open>data\<close> up to its terminator; a C string is the list of its characters.\<close>

definition StaticString_new :: "nat \<Rightarrow> string \<Rightarrow> string" where
  "StaticString_new capacity s = take capacity s"

definition StaticString_eq :: "string \<Rightarrow> string \<Rightarrow> bool" where
  "StaticString_eq a b \<longleftrightarrow> a = b"

subsection \<open>Replacing in a string\<close>

text \<open>\<open>std::string\<close>: \<open>find\<close> yields the first position from \<open>pos\<close> on, \<open>replace\<close> puts \<open>r\<close> for the \<open>n\<close>
  characters at \<open>pos\<close>.\<close>

definition find_at :: "string \<Rightarrow> string \<Rightarrow> nat \<Rightarrow> bool" where
  "find_at s f i \<longleftrightarrow> i + length f \<le> length s \<and> take (length f) (drop i s) = f"

definition string_find :: "string \<Rightarrow> string \<Rightarrow> nat \<Rightarrow> nat option" where
  "string_find s f pos = (case filter (find_at s f) [pos..<Suc (length s)] of [] \<Rightarrow> None | i # _ \<Rightarrow> Some i)"

definition string_replace :: "string \<Rightarrow> nat \<Rightarrow> nat \<Rightarrow> string \<Rightarrow> string" where
  "string_replace s pos n r = take pos s @ r @ drop (pos + n) s"

definition replace_all :: "string \<Rightarrow> string \<Rightarrow> string \<Rightarrow> string option" where
  "replace_all str_find str_replace str =
     loop (\<lambda>(str, index). Some (case string_find str str_find index of
              None \<Rightarrow> Inl str
            | Some i \<Rightarrow> Inr (string_replace str i (length str_find) str_replace, i + length str_find)))
       (str, 0)"

lemma string_find_here: "find_at s f i \<Longrightarrow> string_find s f i = Some i"
  by (simp add: string_find_def find_at_def upt_conv_Cons del: upt_Suc)

lemma string_find_Some:
  assumes "string_find s f pos = Some i"
  shows "find_at s f i" "pos \<le> i" "\<And>j. pos \<le> j \<Longrightarrow> j < i \<Longrightarrow> \<not> find_at s f j"
proof -
  obtain js where c: "filter (find_at s f) [pos..<Suc (length s)] = i # js"
    using assms by (auto simp: string_find_def split: list.splits)
  then have "i \<in> set (filter (find_at s f) [pos..<Suc (length s)])" by simp
  then show "find_at s f i" "pos \<le> i" by auto
  fix j assume j: "pos \<le> j" "j < i"
  show "\<not> find_at s f j"
  proof
    assume f: "find_at s f j"
    then have "j \<in> set (i # js)" using j unfolding c [symmetric] by (auto simp: find_at_def simp del: upt_Suc)
    moreover have "sorted (i # js)" unfolding c [symmetric] by (intro sorted_wrt_filter) (simp del: upt_Suc)
    ultimately show False using j by auto
  qed
qed

text \<open>What the loop is meant to do: replace the occurrences from left to right.\<close>

function substitute :: "string \<Rightarrow> string \<Rightarrow> string \<Rightarrow> string" where
  "substitute f r s =
     (if f = [] \<or> s = [] then s
      else if take (length f) s = f then r @ substitute f r (drop (length f) s)
      else hd s # substitute f r (tl s))"
  by auto
termination by (relation "measure (\<lambda>(f, r, s). length s)") auto

declare substitute.simps [simp del]

lemma substitute_skip:
  assumes "f \<noteq> []" "\<And>j. j < k \<Longrightarrow> take (length f) (drop j u) \<noteq> f" "k \<le> length u"
  shows "substitute f r u = take k u @ substitute f r (drop k u)"
  using assms(2,3)
proof (induction k arbitrary: u)
  case (Suc k)
  then obtain c v where u: "u = c # v" by (cases u) auto
  have "substitute f r v = take k v @ substitute f r (drop k v)"
    using Suc.prems u by (intro Suc.IH) fastforce+
  moreover have "take (length f) u \<noteq> f" using Suc.prems(1) [of 0] by simp
  ultimately show ?case using assms(1) u by (subst substitute.simps) simp
qed simp

lemma substitute_match:
  "f \<noteq> [] \<Longrightarrow> take (length f) u = f \<Longrightarrow> substitute f r u = r @ substitute f r (drop (length f) u)"
  by (subst substitute.simps) auto

lemma find_at_iff:
  assumes "f \<noteq> []"
  shows "find_at s f i \<longleftrightarrow> take (length f) (drop i s) = f"
proof
  assume t: "take (length f) (drop i s) = f"
  then have "length (take (length f) (drop i s)) = length f" by simp
  then have "min (length s - i) (length f) = length f" "0 < length f" using assms by simp_all
  then show "find_at s f i" using t by (auto simp: find_at_def min_def split: if_splits)
qed (simp add: find_at_def)

lemma string_find_None: "string_find s f pos = None \<Longrightarrow> pos \<le> j \<Longrightarrow> \<not> find_at s f j"
  by (auto simp: string_find_def find_at_def filter_empty_conv split: list.splits)

lemma replace_all_substitutes:
  assumes "f \<noteq> []" "length r = length f"
  shows "replace_all f r s = Some (substitute f r s)"
proof -
  have "\<exists>res. replace_all f r s = Some res \<and> res = substitute f r s"
    unfolding replace_all_def
  proof (rule loop_total [where m = "\<lambda>(u, i). length u - i" and
      I = "\<lambda>(u, i). i \<le> length u \<and> substitute f r s = take i u @ substitute f r (drop i u)"])
    fix p :: "string \<times> nat"
    assume I: "case p of (u, i) \<Rightarrow> i \<le> length u \<and> substitute f r s = take i u @ substitute f r (drop i u)"
    obtain u i where p: "p = (u, i)" by (cases p)
    have i: "i \<le> length u" "substitute f r s = take i u @ substitute f r (drop i u)" using I p by auto
    let ?f = "\<lambda>(str, index). Some (case string_find str f index of None \<Rightarrow> Inl str
      | Some i \<Rightarrow> Inr (string_replace str i (length f) r, i + length f))"
    show "(\<exists>res. ?f p = Some (Inl res) \<and> res = substitute f r s) \<or>
      (\<exists>p'. ?f p = Some (Inr p') \<and>
        (case p' of (u, i) \<Rightarrow> i \<le> length u \<and> substitute f r s = take i u @ substitute f r (drop i u)) \<and>
        (case p' of (u, i) \<Rightarrow> length u - i) < (case p of (u, i) \<Rightarrow> length u - i))"
    proof (cases "string_find u f i")
      case None
      have "substitute f r (drop i u) = take (length u - i) (drop i u) @ substitute f r (drop (length u - i) (drop i u))"
        using string_find_None [OF None] assms(1) find_at_iff [of f u]
        by (intro substitute_skip) (auto simp: add.commute)
      then have "substitute f r s = u" using i by (simp add: substitute.simps [of f r "[]"])
      then show ?thesis using None p by simp
    next
      case (Some j)
      note J = string_find_Some [OF Some]
      have j: "j + length f \<le> length u" "take (length f) (drop j u) = f" using J(1) by (auto simp: find_at_def)
      let ?u = "string_replace u j (length f) r"
      have "substitute f r (drop i u) = take (j - i) (drop i u) @ substitute f r (drop (j - i) (drop i u))"
        using J j assms(1) find_at_iff [of f u] by (intro substitute_skip) (auto simp: add.commute)
      also have "substitute f r (drop (j - i) (drop i u)) = r @ substitute f r (drop (j + length f) u)"
        using substitute_match [OF assms(1), of "drop j u"] J(2) j(2) by (simp add: add.commute)
      finally have "substitute f r s = take j u @ r @ substitute f r (drop (j + length f) u)"
        using i J(2) take_add [of i "j - i" u] by simp
      moreover have "take (j + length f) ?u = take j u @ r" "drop (j + length f) ?u = drop (j + length f) u"
        "length ?u = length u"
        using j assms(2) by (simp_all add: string_replace_def)
      moreover have "length u - (j + length f) < length u - i" using J(2) j(1) assms(1) by (cases f) auto
      ultimately show ?thesis using Some p j(1) by auto
    qed
  qed simp
  then show ?thesis by simp
qed

lemma replace_all_endless:
  assumes "find_at s f i"
  shows "replace_all f (f @ f @ w) s = None"
  unfolding replace_all_def
proof (rule loop_diverges [where I = "\<lambda>(u, i). \<exists>j \<ge> i. find_at u f j"])
  fix p :: "string \<times> nat"
  assume "case p of (u, i) \<Rightarrow> \<exists>j \<ge> i. find_at u f j"
  then obtain u i j where p: "p = (u, i)" "i \<le> j" "find_at u f j" by (cases p) auto
  then obtain k where k: "string_find u f i = Some k"
    using string_find_None [of u f i j] by (cases "string_find u f i") auto
  then have "k + length f \<le> length u" using string_find_Some(1) [of u f i k] by (simp add: find_at_def)
  then have "find_at (string_replace u k (length f) (f @ f @ w)) f (k + length f)"
    by (auto simp: find_at_def string_replace_def)
  then show "\<exists>p'. (case p of (str, index) \<Rightarrow> Some (case string_find str f index of None \<Rightarrow> Inl str
      | Some i \<Rightarrow> Inr (string_replace str i (length f) (f @ f @ w), i + length f))) = Some (Inr p') \<and>
      (case p' of (u, i) \<Rightarrow> \<exists>j \<ge> i. find_at u f j)"
    using p(1) k by auto
qed (use assms in auto)

subsection \<open>Integers\<close>

definition is_power_of_2 :: "u32 \<Rightarrow> bool" where
  "is_power_of_2 v \<longleftrightarrow> v \<noteq> 0 \<and> v AND (v - 1) = 0"

definition log2_floor :: "u32 \<Rightarrow> nat" where
  "log2_floor x = (case filter (\<lambda>i. x AND push_bit i 1 \<noteq> 0) (rev [0..<32]) of i # _ \<Rightarrow> i | [] \<Rightarrow> 0)"

fun ipow :: "u32 \<Rightarrow> nat \<Rightarrow> u32" where
  "ipow a b = (if b = 0 then 1 else a * ipow a (b - 1))"

declare ipow.simps [simp del]

definition math_wrap :: "u32 \<Rightarrow> u32 \<Rightarrow> u32 option" where
  "math_wrap limit val = loop (\<lambda>v. Some (if v \<ge> limit then Inr (v - limit) else Inl v)) val"

definition swap_bytes16 :: "u16 \<Rightarrow> u16" where
  "swap_bytes16 halfword = push_bit 8 (halfword AND 0xFF) OR drop_bit 8 halfword"

definition swap_bytes32 :: "u32 \<Rightarrow> u32" where
  "swap_bytes32 word = push_bit 24 (word AND 0x000000FF) OR push_bit 8 (word AND 0x0000FF00) OR
     drop_bit 8 (word AND 0x00FF0000) OR drop_bit 24 word"

definition swap_bytes_and_combine :: "u16 \<Rightarrow> u16 \<Rightarrow> u32" where
  "swap_bytes_and_combine halfword1 halfword2 =
     push_bit 24 (ucast halfword1 AND 0xFF) OR push_bit 8 (ucast halfword1 AND 0xFF00) OR
     push_bit 8 (ucast halfword2 AND 0x00FF) OR drop_bit 8 (ucast halfword2)"

lemma ipow_power: "ipow a b = a ^ b"
  by (induction b) (subst ipow.simps; simp)+

lemma math_wrap_mod: "m \<noteq> 0 \<Longrightarrow> math_wrap m v = Some (v mod m)"
proof -
  assume m: "m \<noteq> 0"
  have "\<exists>r. math_wrap m v = Some r \<and> r = v mod m"
    unfolding math_wrap_def
  proof (rule loop_total [where I = "\<lambda>x. x mod m = v mod m" and m = unat])
    fix x assume I: "x mod m = v mod m"
    show "(\<exists>r. Some (if x \<ge> m then Inr (x - m) else Inl x) = Some (Inl r) \<and> r = v mod m) \<or>
      (\<exists>s'. Some (if x \<ge> m then Inr (x - m) else Inl x) = Some (Inr s') \<and> s' mod m = v mod m \<and> unat s' < unat x)"
    proof (cases "x \<ge> m")
      case True
      then have "unat (x - m) = unat x - unat m" by (simp add: unat_sub)
      moreover have "unat m \<le> unat x" "0 < unat m" using True m by (simp_all add: word_le_nat_alt unat_gt_0)
      ultimately have "unat ((x - m) mod m) = unat (x mod m)" "unat (x - m) < unat x"
        by (simp_all add: unat_mod le_mod_geq)
      moreover from this have "(x - m) mod m = v mod m" using I by (simp add: word_unat_eq_iff)
      ultimately show ?thesis using True by auto
    next
      case False
      then have "x mod m = x" by (simp add: word_unat_eq_iff unat_mod word_le_nat_alt)
      then show ?thesis using I False by simp
    qed
  qed simp
  then show ?thesis by simp
qed

lemma math_wrap_zero: "math_wrap 0 v = None"
  unfolding math_wrap_def by (rule loop_diverges [where I = "\<lambda>_. True"]) auto

subsection \<open>Properties\<close>

text \<open>C38. The ring buffer is a queue of its capacity: after any elements have been put in, draining it
  returns the last of them in order, at most as many as it holds, and it is then empty.\<close>

theorem ring_keeps_last:
  assumes "0 < n"
  shows "\<exists>c c'. put_all ring_put xs (CircularBuffer_new z n) = Some c \<and> ring_inv c \<and>
    ring_size c = min n (length xs) \<and> ring_full c = (n \<le> length xs) \<and>
    take_out (ring_get z) (ring_size c) c = Some (drop (length xs - n) xs, c') \<and> ring_empty c' \<and> ring_inv c'"
proof -
  note new = ring_new [OF assms, of z]
  obtain c where c: "put_all ring_put xs (CircularBuffer_new z n) = Some c" "ring_inv c" "ring_capacity c = n"
    "ring_items c = drop (length xs - n) xs"
    using ring.put_all_last [of "CircularBuffer_new z n" xs] new by auto
  obtain c' where c': "take_out (ring_get z) (ring_size c) c = Some (take (ring_size c) (ring_items c), c')" "ring_inv c'"
    "ring_items c' = drop (ring_size c) (ring_items c)"
    using ring.take_out_first [of c "ring_size c" z] c(2) by auto
  have "length (ring_items c) = min n (length xs)" using c(4) by simp
  then have s: "ring_size c = min n (length xs)" by simp
  moreover have "ring_full c = (n \<le> length xs)" using ring_full_size [OF c(2)] s c(3) by (auto simp: ring_capacity_def)
  moreover have "ring_empty c'" using ring.empty_ok [OF c'(2)] c'(3) by simp
  ultimately show ?thesis using c c' by auto
qed

theorem ring_keeps_last_witness:
  "\<exists>c c'. put_all ring_put [1, 2, 3, 4, 5 :: nat] (CircularBuffer_new 0 3) = Some c \<and> ring_full c \<and>
    take_out (ring_get 0) (ring_size c) c = Some ([3, 4, 5], c')"
proof -
  have "0 < (3 :: nat)" by simp
  from ring_keeps_last [OF this, of "[1, 2, 3, 4, 5 :: nat]" 0] show ?thesis by auto
qed

text \<open>A debounced switch after any readings (the last one first, as 1 and 0): a rising edge is
  reported exactly when the last reading is high and the eleven before it were low, a falling edge
  when it is low and they were high, with low readings before the first; an edge stays reported until
  the opposite one. The level itself is not debounced: it is the last reading.\<close>

theorem debouncer_edges:
  "let d = readings bs; d' = readings (b # bs); before = take 11 (bs @ replicate 11 False)
   in is_high d' = b \<and>
      got_rising_edge d' = (if b \<and> list_all (\<lambda>x. x = False) before then True
        else if b = False \<and> list_all (\<lambda>x. x = True) before then False else got_rising_edge d) \<and>
      got_falling_edge d' = (if b \<and> list_all (\<lambda>x. x = False) before then False
        else if b = False \<and> list_all (\<lambda>x. x = True) before then True else got_falling_edge d)"
proof -
  let ?s = "(push_bit 1 (debounce_state (readings bs)) OR (if b then 1 else 0)) AND 0xFFF :: u32"
  have s: "debounce_state (readings (b # bs)) = ?s"
    by (simp add: readings_def register_reading_def register_state_def Let_def register_rising_edge_def
      register_falling_edge_def set_state_def)
  have r: "readings (b # bs) = register_reading b (readings bs)" by (simp add: readings_def)
  have "?s = 1 \<longleftrightarrow> b \<and> list_all (\<lambda>x. x = False) (take 11 (bs @ replicate 11 False))"
    "?s = 0xFFE \<longleftrightarrow> \<not> b \<and> list_all (\<lambda>x. x = True) (take 11 (bs @ replicate 11 False))"
    unfolding s [symmetric] by (rule reading_rising reading_falling)+
  then show ?thesis
    unfolding r by (cases b) (simp_all add: Let_def register_reading_def register_state_def register_rising_edge_def
      register_falling_edge_def set_state_def del: take_append)
qed



end
