(* ===== verification/IrqHandler.thy ===== *)
theory IrqHandler
  imports Platform
begin

text \<open>
  Interrupt entry (shared/drivers/interrupt.hh, irq\_handler.cc). \<open>IRQ_Handler\<close> is assembly: it is
  translated instruction by instruction over \<open>cpu\<close>, the registers of a Cortex-A7 that it and the
  interrupted program use, with the words of the memory its stack lies in. The program runs in
  System mode, as the baremetal programs do. \<open>io\<close> is the device side, where the interrupt
  controller is read and written.

  An interrupt service routine is compiled code behind a \<open>std::function\<close>: a list of pieces between
  which further interrupts are taken, since \<open>IRQ_Handler\<close> enables them. \<open>isr_ok\<close> is what the
  procedure call standard promises of it, whatever happens unnoticed between its pieces.
\<close>

subsection \<open>The processor\<close>

record 'd cpu =
  gpr :: "nat \<Rightarrow> u32"            \<comment> \<open>r0 to r12\<close>
  sp :: u32
  lr :: u32
  pc :: u32                      \<comment> \<open>the next instruction to execute\<close>
  cpsr :: u32
  lr_irq :: u32                  \<comment> \<open>the registers of mode IRQ\<close>
  spsr_irq :: u32
  dreg :: "nat \<Rightarrow> 64 word"        \<comment> \<open>d0 to d31\<close>
  fpscr :: u32
  stack :: "u32 \<Rightarrow> u32"           \<comment> \<open>memory, by the address of a word\<close>
  io :: "'d sys"

definition MODE_IRQ :: u32 where "MODE_IRQ = 0x12"
definition MODE_SYS :: u32 where "MODE_SYS = 0x1F"
definition GICCPU_BASE :: u32 where "GICCPU_BASE = 0xA0022000"

definition set_mode :: "u32 \<Rightarrow> u32 \<Rightarrow> u32" where
  "set_mode m w = (w AND NOT 0x1F) OR m"

definition irqs_masked :: "u32 \<Rightarrow> bool" where
  "irqs_masked w \<longleftrightarrow> bit w 7"

text \<open>What the processor does when it takes an interrupt.\<close>

definition take_irq :: "'d cpu \<Rightarrow> 'd cpu" where
  "take_irq s = s\<lparr>lr_irq := pc s + 4, spsr_irq := cpsr s, cpsr := set_mode MODE_IRQ (cpsr s) OR 0x80\<rparr>"

text \<open>Several words at ascending addresses.\<close>

primrec store_words :: "u32 \<Rightarrow> u32 list \<Rightarrow> (u32 \<Rightarrow> u32) \<Rightarrow> u32 \<Rightarrow> u32" where
  "store_words a [] m = m"
| "store_words a (w # ws) m = (store_words (a + 4) ws m)(a := w)"

definition words_at :: "(u32 \<Rightarrow> u32) \<Rightarrow> u32 \<Rightarrow> nat \<Rightarrow> u32 list" where
  "words_at m a n = map (\<lambda>i. m (a + 4 * of_nat i)) [0..<n]"

definition push :: "u32 list \<Rightarrow> 'd cpu \<Rightarrow> 'd cpu" where
  "push ws s = (let a = sp s - 4 * of_nat (length ws) in s\<lparr>sp := a, stack := store_words a ws (stack s)\<rparr>)"

definition pop :: "nat \<Rightarrow> 'd cpu \<Rightarrow> u32 list \<times> 'd cpu" where
  "pop n s = (words_at (stack s) (sp s) n, s\<lparr>sp := sp s + 4 * of_nat n\<rparr>)"

text \<open>A double register is two words, the low one first.\<close>

definition dwords :: "64 word \<Rightarrow> u32 list" where
  "dwords x = [ucast x, ucast (drop_bit 32 x)]"

definition of_dwords :: "u32 \<Rightarrow> u32 \<Rightarrow> 64 word" where
  "of_dwords l u = push_bit 32 (ucast u) OR ucast l"

definition vpush :: "nat list \<Rightarrow> 'd cpu \<Rightarrow> 'd cpu" where
  "vpush rs s = push (concat (map (\<lambda>i. dwords (dreg s i)) rs)) s"

definition vpop :: "nat list \<Rightarrow> 'd cpu \<Rightarrow> 'd cpu" where
  "vpop rs s =
     (let (ws, s) = pop (2 * length rs) s
      in s\<lparr>dreg := fold (\<lambda>(k, i) f. f(i := of_dwords (ws ! (2 * k)) (ws ! (2 * k + 1)))) (zip [0..<length rs] rs) (dreg s)\<rparr>)"

text \<open>The flags N, Z, C and V of a comparison, and the condition \<open>ge\<close>.\<close>

definition cmp_flags :: "u32 \<Rightarrow> u32 \<Rightarrow> u32 \<Rightarrow> u32" where
  "cmp_flags a b w =
     (let d = a - b
      in take_bit 28 w OR (if bit d 31 then 0x80000000 else 0) OR (if d = 0 then 0x40000000 else 0)
         OR (if b \<le> a then 0x20000000 else 0)
         OR (if bit ((a XOR b) AND (a XOR d)) 31 then 0x10000000 else 0))"

definition cond_ge :: "u32 \<Rightarrow> bool" where
  "cond_ge w \<longleftrightarrow> bit w 31 = bit w 28"

subsection \<open>The table of service routines (interrupt.hh)\<close>

type_synonym 'd isr = "('d cpu \<Rightarrow> 'd cpu) list"

definition NumISRs :: nat where "NumISRs = 256"

text \<open>An entry is \<open>None\<close> while its \<open>std::function\<close> is empty. Outside the array there is nothing.\<close>

definition ISRs_initial :: "'d isr option list" where
  "ISRs_initial = replicate NumISRs None"

definition registerISR :: "u32 \<Rightarrow> 'd isr \<Rightarrow> 'd isr option list \<Rightarrow> 'd isr option list option" where
  "registerISR irqnum func isrs =
     (if unat irqnum < length isrs then Some (isrs[unat irqnum := Some func]) else None)"

definition callISR :: "u32 \<Rightarrow> 'd isr option list \<Rightarrow> 'd isr option" where
  "callISR irqnum isrs = (if unat irqnum < length isrs then isrs ! unat irqnum else None)"

definition SetDefaultISR :: "'d isr option \<Rightarrow> 'd isr option list \<Rightarrow> 'd isr option list" where
  "SetDefaultISR func isrs = fold (\<lambda>i t. t[i := func]) [0..<NumISRs] isrs"

subsection \<open>IRQ_Handler (irq_handler.cc)\<close>

text \<open>To the branch: \<open>sub\<close>, \<open>srsdb\<close>, \<open>cps\<close>, \<open>push\<close>, the read of the acknowledge register and the
  comparison.\<close>

definition irq_enter :: "'d platform \<Rightarrow> 'd cpu \<Rightarrow> 'd cpu" where
  "irq_enter h s =
     (let s = s\<lparr>lr_irq := lr_irq s - 4\<rparr>;
          s = push [lr_irq s, spsr_irq s] s;
          s = s\<lparr>cpsr := set_mode MODE_SYS (cpsr s)\<rparr>;
          s = push [gpr s 0, gpr s 1, gpr s 2, gpr s 3, gpr s 12, lr s] s;
          s = s\<lparr>gpr := (gpr s)(3 := GICCPU_BASE)\<rparr>;
          (v, i) = readl h (gpr s 3 + 12) (io s);
          s = s\<lparr>gpr := (gpr s)(0 := v), io := i\<rparr>
      in s\<lparr>cpsr := cmp_flags (gpr s 0) 0x3FC (cpsr s)\<rparr>)"

text \<open>To the call: the alignment of the stack, the FPU registers, and \<open>cpsie\<close>. \<open>ret\<close> is the
  address behind the call.\<close>

definition irq_save :: "u32 \<Rightarrow> 'd cpu \<Rightarrow> 'd cpu" where
  "irq_save ret s =
     (let s = s\<lparr>gpr := (gpr s)(2 := sp s AND 4)\<rparr>;
          s = s\<lparr>sp := sp s - gpr s 2\<rparr>;
          s = s\<lparr>gpr := (gpr s)(1 := fpscr s)\<rparr>;
          s = vpush [0..<9] s;
          s = vpush [16..<32] s;
          s = push [gpr s 0, gpr s 1, gpr s 2, gpr s 3] s;
          s = s\<lparr>cpsr := cpsr s AND NOT 0x80\<rparr>
      in s\<lparr>lr := ret\<rparr>)"

text \<open>Behind the call: \<open>cpsid\<close>, the end of the interrupt, and the FPU registers.\<close>

definition irq_restore :: "'d platform \<Rightarrow> 'd cpu \<Rightarrow> 'd cpu" where
  "irq_restore h s =
     (let s = s\<lparr>cpsr := cpsr s OR 0x80\<rparr>;
          (ws, s) = pop 4 s;
          s = s\<lparr>gpr := (gpr s)(0 := ws ! 0, 1 := ws ! 1, 2 := ws ! 2, 3 := ws ! 3)\<rparr>;
          s = s\<lparr>io := writel h (gpr s 0) (gpr s 3 + 16) (io s)\<rparr>;
          s = vpop [16..<32] s;
          s = vpop [0..<9] s;
          s = s\<lparr>fpscr := gpr s 1\<rparr>
      in s\<lparr>sp := sp s + gpr s 2\<rparr>)"

text \<open>From the label \<open>InvalidIRQNum\<close>: \<open>pop\<close> and \<open>rfeia\<close>.\<close>

definition irq_leave :: "'d cpu \<Rightarrow> 'd cpu" where
  "irq_leave s =
     (let (ws, s) = pop 6 s;
          s = s\<lparr>gpr := (gpr s)(0 := ws ! 0, 1 := ws ! 1, 2 := ws ! 2, 3 := ws ! 3, 12 := ws ! 4), lr := ws ! 5\<rparr>;
          (ws, s) = pop 2 s
      in s\<lparr>pc := ws ! 0, cpsr := ws ! 1\<rparr>)"

text \<open>
  An interrupt from the instruction before which it is taken to the one at which the program goes
  on. Interrupts are taken when they are enabled, as long as the address space below the stack
  pointer has room for the 252 bytes the handler stores; they nest without bound. There is no
  rule for a number without a routine: \<open>std::function\<close> throws, or the array is left.
\<close>

inductive irq :: "'d platform \<Rightarrow> u32 \<Rightarrow> u32 \<Rightarrow> 'd isr option list \<Rightarrow> 'd cpu \<Rightarrow> 'd cpu \<Rightarrow> bool"
  and isr_run :: "'d platform \<Rightarrow> u32 \<Rightarrow> u32 \<Rightarrow> 'd isr option list \<Rightarrow> 'd isr \<Rightarrow> 'd cpu \<Rightarrow> 'd cpu \<Rightarrow> bool"
  for h ret tos isrs where
  irq_invalid:
    "unat (tos - sp s) + 252 < 2 ^ 32 \<Longrightarrow> \<not> irqs_masked (cpsr s) \<Longrightarrow>
     s1 = irq_enter h (take_irq s) \<Longrightarrow> cond_ge (cpsr s1) \<Longrightarrow> irq h ret tos isrs s (irq_leave s1)"
| irq_valid:
    "unat (tos - sp s) + 252 < 2 ^ 32 \<Longrightarrow> \<not> irqs_masked (cpsr s) \<Longrightarrow>
     s1 = irq_enter h (take_irq s) \<Longrightarrow> \<not> cond_ge (cpsr s1) \<Longrightarrow>
     callISR (gpr s1 0) isrs = Some f \<Longrightarrow> isr_run h ret tos isrs f (irq_save ret s1) s2 \<Longrightarrow>
     irq h ret tos isrs s (irq_leave (irq_restore h s2))"
| run_done: "isr_run h ret tos isrs [] s s"
| run_piece: "isr_run h ret tos isrs fs (f s) s' \<Longrightarrow> isr_run h ret tos isrs (f # fs) s s'"
| run_irq: "irq h ret tos isrs s s' \<Longrightarrow> isr_run h ret tos isrs fs s' s'' \<Longrightarrow> isr_run h ret tos isrs fs s s''"

subsection \<open>What the call standard promises\<close>

text \<open>The stack is the words from \<open>sp\<close> up to \<open>tos\<close>.\<close>

definition depth :: "u32 \<Rightarrow> 'd cpu \<Rightarrow> nat" where
  "depth tos s = unat (tos - sp s) div 4"

definition same_stack :: "u32 \<Rightarrow> 'd cpu \<Rightarrow> 'd cpu \<Rightarrow> bool" where
  "same_stack tos s s' \<longleftrightarrow> words_at (stack s') (sp s) (depth tos s) = words_at (stack s) (sp s) (depth tos s)"

definition unnoticed :: "u32 \<Rightarrow> 'd cpu \<Rightarrow> 'd cpu \<Rightarrow> bool" where
  "unnoticed tos s s' \<longleftrightarrow>
     (\<forall>i\<le>12. gpr s' i = gpr s i) \<and> sp s' = sp s \<and> lr s' = lr s \<and> pc s' = pc s \<and> cpsr s' = cpsr s \<and>
     (\<forall>i<32. dreg s' i = dreg s i) \<and> fpscr s' = fpscr s \<and> same_stack tos s s'"

definition callee :: "u32 \<Rightarrow> 'd cpu \<Rightarrow> 'd cpu \<Rightarrow> bool" where
  "callee tos s s' \<longleftrightarrow>
     (\<forall>i\<in>{4..11}. gpr s' i = gpr s i) \<and> sp s' = sp s \<and> (\<forall>i\<in>{8..15}. dreg s' i = dreg s i) \<and> same_stack tos s s'"

inductive runs :: "u32 \<Rightarrow> 'd isr \<Rightarrow> 'd cpu \<Rightarrow> 'd cpu \<Rightarrow> bool" for tos where
  runs_done: "runs tos [] s s"
| runs_piece: "runs tos fs (f s) s' \<Longrightarrow> runs tos (f # fs) s s'"
| runs_env: "unnoticed tos s t \<Longrightarrow> runs tos fs t s' \<Longrightarrow> runs tos fs s s'"

definition isr_ok :: "u32 \<Rightarrow> 'd isr \<Rightarrow> bool" where
  "isr_ok tos f \<longleftrightarrow> (\<forall>s s'. runs tos f s s' \<longrightarrow> callee tos s s')"

subsection \<open>What lies on the stack\<close>

definition frame :: "'d cpu \<Rightarrow> u32 list \<Rightarrow> bool" where
  "frame s ws \<longleftrightarrow> words_at (stack s) (sp s) (length ws) = ws"

lemma length_words_at [simp]: "length (words_at m a n) = n"
  by (simp add: words_at_def)

lemma words_at_1 [simp]: "words_at m a (Suc 0) = [m a]"
  by (simp add: words_at_def)

lemma words_at_add: "words_at m a (k + n) = words_at m a k @ words_at m (a + 4 * of_nat k) n"
  by (rule nth_equalityI) (auto simp: words_at_def nth_append algebra_simps)

lemma word_offset_neq:
  assumes "j < 2 ^ 30" and "j \<noteq> 0"
  shows "(4 * of_nat j :: u32) \<noteq> 0"
proof -
  have "unat (of_nat (4 * j) :: u32) = 4 * j" using assms by (simp add: unsigned_of_nat take_bit_nat_eq_self del: of_nat_mult)
  then show ?thesis using assms by (metis mult_eq_0_iff of_nat_mult of_nat_numeral unat_0 zero_neq_numeral)
qed

lemma store_words_other: "(\<And>i. i < length ws \<Longrightarrow> x \<noteq> a + 4 * of_nat i) \<Longrightarrow> store_words a ws m x = m x"
proof (induction ws arbitrary: a)
  case (Cons w ws)
  have "store_words (a + 4) ws m x = m x"
    using Cons.prems [of "Suc i" for i] by (intro Cons.IH) (auto simp: algebra_simps)
  then show ?case using Cons.prems [of 0] by simp
qed simp

lemma words_at_store:
  assumes "length ws \<le> 2 ^ 29"
  shows "words_at (store_words a ws m) a (length ws) = ws"
  using assms
proof (induction ws arbitrary: a m)
  case (Cons w ws)
  have "words_at ((store_words (a + 4) ws m)(a := w)) a (1 + length ws)
      = w # words_at ((store_words (a + 4) ws m)(a := w)) (a + 4) (length ws)"
    using words_at_add [of "(store_words (a + 4) ws m)(a := w)" a 1 "length ws"] by (simp add: words_at_def)
  also have "words_at ((store_words (a + 4) ws m)(a := w)) (a + 4) (length ws) = words_at (store_words (a + 4) ws m) (a + 4) (length ws)"
    unfolding words_at_def
  proof (rule map_cong [OF refl])
    fix i assume "i \<in> set [0..<length ws]"
    then show "((store_words (a + 4) ws m)(a := w)) (a + 4 + 4 * of_nat i) = store_words (a + 4) ws m (a + 4 + 4 * of_nat i)"
      using word_offset_neq [of "Suc i"] Cons.prems by (auto simp: algebra_simps)
  qed
  also have "\<dots> = ws" using Cons by simp
  finally show ?case by simp
qed (simp add: words_at_def)

lemma words_at_above:
  assumes "length ws + n \<le> 2 ^ 30"
  shows "words_at (store_words a ws m) (a + 4 * of_nat (length ws)) n = words_at m (a + 4 * of_nat (length ws)) n"
  unfolding words_at_def
proof (rule map_cong [OF refl], rule store_words_other)
  fix i j assume "i \<in> set [0..<n]" and "j < length ws"
  then have "length ws - j + i < 2 ^ 30" "length ws - j + i \<noteq> 0"
    and e: "of_nat (length ws) = (of_nat j + of_nat (length ws - j) :: u32)"
    using assms by (auto simp flip: of_nat_add)
  from word_offset_neq [OF this(1,2)]
  show "a + 4 * of_nat (length ws) + 4 * of_nat i \<noteq> a + 4 * of_nat j"
    unfolding e by (simp add: algebra_simps)
qed

lemma push_regs [simp]:
  "sp (push ws s) = sp s - 4 * of_nat (length ws)" "gpr (push ws s) = gpr s" "lr (push ws s) = lr s"
  "pc (push ws s) = pc s" "cpsr (push ws s) = cpsr s" "lr_irq (push ws s) = lr_irq s"
  "spsr_irq (push ws s) = spsr_irq s" "dreg (push ws s) = dreg s" "fpscr (push ws s) = fpscr s" "io (push ws s) = io s"
  by (simp_all add: push_def Let_def)

lemma frame_push:
  assumes "frame s us" and "length ws \<le> 2 ^ 29" and "length ws + length us \<le> 2 ^ 30"
  shows "frame (push ws s) (ws @ us)"
proof -
  have "words_at (stack (push ws s)) (sp s - 4 * of_nat (length ws)) (length ws) = ws"
    using words_at_store [OF assms(2)] by (simp add: push_def Let_def)
  moreover have "words_at (stack (push ws s)) (sp s - 4 * of_nat (length ws) + 4 * of_nat (length ws)) (length us) = us"
    using words_at_above [OF assms(3), of "sp s - 4 * of_nat (length ws)"] assms(1) by (simp add: push_def Let_def frame_def)
  ultimately show ?thesis by (simp add: frame_def words_at_add)
qed

lemma frame_pop:
  assumes "frame s (ws @ us)" and "n = length ws"
  shows "fst (pop n s) = ws" and "frame (s\<lparr>sp := sp s + 4 * of_nat n\<rparr>) us"
  using assms by (auto simp: frame_def pop_def words_at_add)

lemma frame_cong: "stack s' = stack s \<Longrightarrow> sp s' = sp s \<Longrightarrow> frame s' ws = frame s ws"
  by (simp add: frame_def)

lemma frame_skip: "frame s (w # us) \<Longrightarrow> frame (s\<lparr>sp := sp s + 4\<rparr>) us"
  using frame_pop(2) [of s "[w]" us 1] by simp

text \<open>The double registers come back.\<close>

lemma dwords_back: "of_dwords (ucast x) (ucast (drop_bit 32 x)) = x"
  by (rule bit_word_eqI) (auto simp: of_dwords_def bit_simps)

lemma length_dwords [simp]: "length (concat (map (\<lambda>i. dwords (f i)) rs)) = 2 * length rs"
  by (induction rs) (simp_all add: dwords_def)

lemma nth_dwords:
  "k < length rs \<Longrightarrow> concat (map (\<lambda>i. dwords (f i)) rs) ! (2 * k) = ucast (f (rs ! k)) \<and>
   concat (map (\<lambda>i. dwords (f i)) rs) ! Suc (2 * k) = ucast (drop_bit 32 (f (rs ! k)))"
proof (induction rs arbitrary: k)
  case (Cons r rs)
  then show ?case by (cases k) (auto simp: dwords_def)
qed simp

lemma fold_upd: "fold (\<lambda>(k, i) g. g(i := f i)) ps d j = (if j \<in> snd ` set ps then f j else d j)"
  by (induction ps arbitrary: d) auto

lemma vpop_regs:
  assumes "frame s (concat (map (\<lambda>i. dwords (f i)) rs) @ us)"
  shows "vpop rs s = s\<lparr>sp := sp s + 4 * of_nat (2 * length rs), dreg := (\<lambda>j. if j \<in> set rs then f j else dreg s j)\<rparr>"
    and "frame (vpop rs s) us"
proof -
  let ?ws = "concat (map (\<lambda>i. dwords (f i)) rs)"
  have "fold (\<lambda>(k, i) g. g(i := of_dwords (?ws ! (2 * k)) (?ws ! (2 * k + 1)))) (zip [0..<length rs] rs) (dreg s)
      = fold (\<lambda>(k, i) g. g(i := f i)) (zip [0..<length rs] rs) (dreg s)"
    by (rule fold_cong) (auto simp: set_zip nth_dwords dwords_back)
  also have "\<dots> = (\<lambda>j. if j \<in> set rs then f j else dreg s j)"
    by (rule ext) (simp add: fold_upd flip: set_map)
  finally have d: "fold (\<lambda>(k, i) g. g(i := of_dwords (?ws ! (2 * k)) (?ws ! (2 * k + 1)))) (zip [0..<length rs] rs) (dreg s)
      = (\<lambda>j. if j \<in> set rs then f j else dreg s j)" .
  show e: "vpop rs s = s\<lparr>sp := sp s + 4 * of_nat (2 * length rs), dreg := (\<lambda>j. if j \<in> set rs then f j else dreg s j)\<rparr>"
    using frame_pop(1) [OF assms, of "2 * length rs"] d
    by (simp add: vpop_def pop_def Let_def)
  show "frame (vpop rs s) us"
    unfolding e using frame_pop(2) [OF assms, of "2 * length rs"] by (simp add: frame_def)
qed

lemma vpop_other [simp]:
  "sp (vpop rs s) = sp s + 4 * of_nat (2 * length rs)" "gpr (vpop rs s) = gpr s" "io (vpop rs s) = io s"
  by (simp_all add: vpop_def pop_def Let_def)

lemma vpop_range:
  assumes "frame s (concat (map (\<lambda>i. dwords (f i)) [m..<n]) @ us)"
  shows "vpop [m..<n] s = s\<lparr>sp := sp s + 4 * of_nat (2 * (n - m)), dreg := (\<lambda>j. if m \<le> j \<and> j < n then f j else dreg s j)\<rparr>"
    and "frame (vpop [m..<n] s) us"
  using vpop_regs [OF assms] by simp_all

subsection \<open>An interrupt goes unnoticed\<close>

definition saved :: "'d cpu \<Rightarrow> u32 list" where
  "saved s = [gpr s 0, gpr s 1, gpr s 2, gpr s 3, gpr s 12, lr s, pc s, cpsr s]"

definition fpu_words :: "'d cpu \<Rightarrow> nat list \<Rightarrow> u32 list" where
  "fpu_words s rs = concat (map (\<lambda>i. dwords (dreg s i)) rs)"

lemma length_fpu_words [simp]: "length (fpu_words s rs) = 2 * length rs"
  by (simp add: fpu_words_def)

lemma irq_enter_regs:
  fixes h :: "'d platform"
  assumes "frame s us" and "length us + 8 \<le> 2 ^ 30"
  defines "s1 \<equiv> irq_enter h (take_irq s)" and "v \<equiv> fst (readl h (GICCPU_BASE + 12) (io s))"
  shows "frame s1 (saved s @ us)" and "sp s1 = sp s - 32" and "gpr s1 = (gpr s)(0 := v, 3 := GICCPU_BASE)"
    and "dreg s1 = dreg s" and "fpscr s1 = fpscr s"
    and "io s1 = snd (readl h (GICCPU_BASE + 12) (io s))"
    and "\<exists>w. cpsr s1 = cmp_flags v 0x3FC w"
proof -
  define t where "t = push [gpr s 0, gpr s 1, gpr s 2, gpr s 3, gpr s 12, lr s] (push [pc s, cpsr s] s)"
  have "frame t (saved s @ us)"
    unfolding t_def saved_def
    using frame_push [OF frame_push [OF assms(1), of "[pc s, cpsr s]"], of "[gpr s 0, gpr s 1, gpr s 2, gpr s 3, gpr s 12, lr s]"] assms(2)
    by simp
  moreover have "stack s1 = stack t \<and> sp s1 = sp t"
    by (simp add: s1_def t_def irq_enter_def take_irq_def Let_def split_def push_def)
  ultimately show "frame s1 (saved s @ us)" by (simp add: frame_def)
  show "sp s1 = sp s - 32" "gpr s1 = (gpr s)(0 := v, 3 := GICCPU_BASE)" "dreg s1 = dreg s" "fpscr s1 = fpscr s"
    "io s1 = snd (readl h (GICCPU_BASE + 12) (io s))"
    by (auto simp: s1_def v_def irq_enter_def take_irq_def Let_def split_def push_def)
  show "\<exists>w. cpsr s1 = cmp_flags v 0x3FC w"
    by (auto simp: s1_def v_def irq_enter_def take_irq_def Let_def split_def push_def)
qed

lemma irq_leave_back:
  assumes "frame t (saved s @ us)" and "sp t = sp s - 32"
    and "\<forall>i\<in>{4..11}. gpr t i = gpr s i" and "\<forall>i<32. dreg t i = dreg s i" and "fpscr t = fpscr s"
    and "us = words_at (stack s) (sp s) (depth tos s)"
  shows "unnoticed tos s (irq_leave t)" and "io (irq_leave t) = io t"
proof -
  have f: "frame t ([gpr s 0, gpr s 1, gpr s 2, gpr s 3, gpr s 12, lr s] @ ([pc s, cpsr s] @ us))"
    using assms(1) by (simp add: saved_def)
  have w1: "fst (pop 6 t) = [gpr s 0, gpr s 1, gpr s 2, gpr s 3, gpr s 12, lr s]"
    and f2: "frame (t\<lparr>sp := sp t + 24\<rparr>) ([pc s, cpsr s] @ us)"
    using frame_pop [OF f, of 6] by auto
  have w2: "words_at (stack t) (sp t + 24) 2 = [pc s, cpsr s]"
    and f3: "words_at (stack t) (sp t + 32) (length us) = us"
    using frame_pop [OF f2, of 2] by (auto simp: pop_def frame_def algebra_simps)
  have l: "irq_leave t = t\<lparr>sp := sp s, gpr := (gpr t)(0 := gpr s 0, 1 := gpr s 1, 2 := gpr s 2, 3 := gpr s 3, 12 := gpr s 12),
      lr := lr s, pc := pc s, cpsr := cpsr s\<rparr>"
    using w1 w2 assms(2) by (simp add: irq_leave_def pop_def Let_def)
  have g: "(i \<le> 12) = (i \<in> {4..11} \<or> i \<in> {0, 1, 2, 3, 12})" for i :: nat by auto
  show "unnoticed tos s (irq_leave t)"
    using assms f3 unfolding l unnoticed_def same_stack_def g by auto
  show "io (irq_leave t) = io t" by (simp add: l)
qed

lemma unat_add_small: "unat x + k < 2 ^ 32 \<Longrightarrow> unat (x + of_nat k :: u32) = unat x + k"
  by (simp add: unat_word_ariths unsigned_of_nat take_bit_nat_eq_self)

lemma depth_down:
  assumes "unat (tos - sp s) + 4 * n < 2 ^ 32" and "sp t = sp s - 4 * of_nat n"
  shows "depth tos t = depth tos s + n"
proof -
  have e: "tos - sp t = tos - sp s + of_nat (4 * n)" using assms(2) by simp
  have "unat (tos - sp t) = unat (tos - sp s) + 4 * n"
    unfolding e by (rule unat_add_small) (use assms(1) in simp)
  then show ?thesis by (simp add: depth_def)
qed

lemma frame_pad:
  assumes "frame s us"
  shows "frame (s\<lparr>sp := sp s - 4\<rparr>) (stack s (sp s - 4) # us)"
  using words_at_add [of "stack s" "sp s - 4" 1 "length us"] assms by (simp add: frame_def)

text \<open>The alignment pushes no word or one.\<close>

lemma pad_cases: "(w :: u32) AND 4 = 0 \<or> w AND 4 = 4"
  using and_pow_cases [of w 2] by auto

lemma frame_align:
  assumes "frame s us"
  obtains pw where "frame (s\<lparr>sp := sp s - (sp s AND 4)\<rparr>) (pw @ us)" "sp s AND 4 = 4 * of_nat (length pw)" "length pw \<le> 1"
proof (cases "sp s AND 4 = 0")
  case True
  then show ?thesis using that [of "[]"] assms by (simp add: frame_def)
next
  case False
  then have p: "sp s AND 4 = 4" using pad_cases by blast
  show ?thesis by (rule that [of "[stack s (sp s - 4)]"]) (use frame_pad [OF assms] p in simp_all)
qed

lemma irq_save_regs:
  assumes "frame s us" and "length us + 55 \<le> 2 ^ 30"
  obtains pw where
    "frame (irq_save ret s) ([gpr s 0, fpscr s, sp s AND 4, gpr s 3] @ fpu_words s [16..<32] @ fpu_words s [0..<9] @ pw @ us)"
    "sp s AND 4 = 4 * of_nat (length pw)" "length pw \<le> 1"
    "sp (irq_save ret s) = sp s - 4 * of_nat (54 + length pw)"
    "gpr (irq_save ret s) = (gpr s)(2 := sp s AND 4, 1 := fpscr s)" "dreg (irq_save ret s) = dreg s"
    "io (irq_save ret s) = io s"
proof -
  obtain pw where f: "frame (s\<lparr>sp := sp s - (sp s AND 4)\<rparr>) (pw @ us)" and l: "sp s AND 4 = 4 * of_nat (length pw)" "length pw \<le> 1"
    using frame_align [OF assms(1)] by blast
  define t0 where "t0 = s\<lparr>sp := sp s - (sp s AND 4), gpr := (gpr s)(2 := sp s AND 4, 1 := fpscr s)\<rparr>"
  have f0: "frame t0 (pw @ us)" using f by (simp add: t0_def frame_def)
  define t1 where "t1 = push (fpu_words s [0..<9]) t0"
  define t2 where "t2 = push (fpu_words s [16..<32]) t1"
  define t3 where "t3 = push [gpr s 0, fpscr s, sp s AND 4, gpr s 3] t2"
  have f1: "frame t1 (fpu_words s [0..<9] @ pw @ us)"
    unfolding t1_def by (rule frame_push [OF f0]) (use l assms(2) in simp_all)
  have f2: "frame t2 (fpu_words s [16..<32] @ fpu_words s [0..<9] @ pw @ us)"
    unfolding t2_def by (rule frame_push [OF f1]) (use l assms(2) in simp_all)
  have f3: "frame t3 ([gpr s 0, fpscr s, sp s AND 4, gpr s 3] @ fpu_words s [16..<32] @ fpu_words s [0..<9] @ pw @ us)"
    unfolding t3_def by (rule frame_push [OF f2]) (use l assms(2) in simp_all)
  have g1: "dreg t1 = dreg s" "gpr t2 = (gpr s)(2 := sp s AND 4, 1 := fpscr s)"
    by (simp_all add: t0_def t1_def t2_def)
  have e: "irq_save ret s = t3\<lparr>cpsr := cpsr s AND NOT 0x80, lr := ret\<rparr>"
    using g1 by (simp add: irq_save_def t0_def t1_def t2_def t3_def vpush_def fpu_words_def Let_def)
  show ?thesis
  proof (rule that [of pw])
    show "frame (irq_save ret s) ([gpr s 0, fpscr s, sp s AND 4, gpr s 3] @ fpu_words s [16..<32] @ fpu_words s [0..<9] @ pw @ us)"
      using f3 by (simp add: e frame_def)
    show "sp (irq_save ret s) = sp s - 4 * of_nat (54 + length pw)"
      by (simp add: e t3_def t2_def t1_def t0_def l algebra_simps)
    show "gpr (irq_save ret s) = (gpr s)(2 := sp s AND 4, 1 := fpscr s)" "dreg (irq_save ret s) = dreg s" "io (irq_save ret s) = io s"
      by (simp_all add: e t3_def t2_def t1_def t0_def)
  qed (use l in simp_all)
qed

lemma irq_restore_back:
  assumes "frame s ([a0, a1, a2, a3] @ fpu_words t [16..<32] @ fpu_words t [0..<9] @ pw @ us)"
    and "a2 = 4 * of_nat (length pw)"
  shows "frame (irq_restore h s) us" and "sp (irq_restore h s) = sp s + 4 * of_nat (54 + length pw)"
    and "gpr (irq_restore h s) = (gpr s)(0 := a0, 1 := a1, 2 := a2, 3 := a3)"
    and "dreg (irq_restore h s) = (\<lambda>j. if j \<in> {16..<32} \<union> {0..<9} then dreg t j else dreg s j)"
    and "fpscr (irq_restore h s) = a1" and "io (irq_restore h s) = writel h a0 (a3 + 16) (io s)"
proof -
  define s1 where "s1 = s\<lparr>cpsr := cpsr s OR 0x80, sp := sp s + 16, gpr := (gpr s)(0 := a0, 1 := a1, 2 := a2, 3 := a3),
    io := writel h a0 (a3 + 16) (io s)\<rparr>"
  have w: "fst (pop 4 s) = [a0, a1, a2, a3]" and f1: "frame s1 (fpu_words t [16..<32] @ fpu_words t [0..<9] @ pw @ us)"
    using frame_pop [OF assms(1), of 4] by (auto simp: frame_def s1_def)
  have v1: "vpop [16..<32] s1 = s1\<lparr>sp := sp s1 + 128, dreg := (\<lambda>j. if 16 \<le> j \<and> j < 32 then dreg t j else dreg s1 j)\<rparr>"
    and f2: "frame (vpop [16..<32] s1) (fpu_words t [0..<9] @ pw @ us)"
    using vpop_range [OF f1 [unfolded fpu_words_def [of _ "[16..<32]"]]] by simp_all
  have v2: "vpop [0..<9] (vpop [16..<32] s1) = (vpop [16..<32] s1)\<lparr>sp := sp s1 + 200,
      dreg := (\<lambda>j. if 0 \<le> j \<and> j < 9 then dreg t j else dreg (vpop [16..<32] s1) j)\<rparr>"
    and f3: "frame (vpop [0..<9] (vpop [16..<32] s1)) (pw @ us)"
    using vpop_range [OF f2 [unfolded fpu_words_def [of _ "[0..<9]"]]] v1 by simp_all
  have "irq_restore h s = (let t = vpop [0..<9] (vpop [16..<32] s1) in t\<lparr>fpscr := gpr t 1, sp := sp t + gpr t 2\<rparr>)"
    using w by (simp add: irq_restore_def s1_def pop_def Let_def del: upt_rec_numeral vpop_other)
  then have e: "irq_restore h s = (vpop [0..<9] (vpop [16..<32] s1))\<lparr>fpscr := a1, sp := sp s1 + 200 + a2\<rparr>"
    by (simp add: s1_def Let_def del: upt_rec_numeral)
  show "frame (irq_restore h s) us"
    using frame_pop(2) [OF f3 refl] by (simp add: e frame_def assms(2) ac_simps del: upt_rec_numeral)
  show "sp (irq_restore h s) = sp s + 4 * of_nat (54 + length pw)"
    by (simp add: e s1_def assms(2))
  have "dreg s1 = dreg s" by (simp add: s1_def)
  then show "dreg (irq_restore h s) = (\<lambda>j. if j \<in> {16..<32} \<union> {0..<9} then dreg t j else dreg s j)"
    by (auto simp: e v1 v2 [unfolded v1] simp del: upt_rec_numeral)
  show "gpr (irq_restore h s) = (gpr s)(0 := a0, 1 := a1, 2 := a2, 3 := a3)"
    "fpscr (irq_restore h s) = a1" "io (irq_restore h s) = writel h a0 (a3 + 16) (io s)"
    by (simp_all add: e s1_def del: upt_rec_numeral)
qed

text \<open>One interrupt, whose routine keeps the call standard.\<close>

lemma callee_frame:
  assumes "callee tos s s'" and "frame s ws" and "depth tos s = length ws"
  shows "frame s' ws"
  using assms by (simp add: callee_def same_stack_def frame_def)

lemma irq_round:
  fixes h :: "'d platform"
  assumes room: "unat (tos - sp s) + 252 < 2 ^ 32"
    and body: "callee tos (irq_save ret (irq_enter h (take_irq s))) b"
  defines "v \<equiv> fst (readl h (GICCPU_BASE + 12) (io s))"
  shows "unnoticed tos s (irq_leave (irq_restore h b))"
    and "io (irq_leave (irq_restore h b)) = writel h v (GICCPU_BASE + 16) (io b)"
proof -
  define us where "us = words_at (stack s) (sp s) (depth tos s)"
  define s1 where "s1 = irq_enter h (take_irq s)"
  have dl: "depth tos s \<le> unat (tos - sp s)" by (simp add: depth_def)
  have us: "frame s us" "length us = depth tos s" by (simp_all add: us_def frame_def)
  have l: "4 * length us + 252 < 2 ^ 32" using room us(2) by (simp add: depth_def)
  note e = irq_enter_regs [OF us(1), of h, folded s1_def v_def]
  have e1: "frame s1 (saved s @ us)" "sp s1 = sp s - 32" "gpr s1 = (gpr s)(0 := v, 3 := GICCPU_BASE)"
    "dreg s1 = dreg s" "fpscr s1 = fpscr s"
    using e l by simp_all
  have "length (saved s @ us) + 55 \<le> 2 ^ 30" using l by (simp add: saved_def)
  from irq_save_regs [OF e1(1) this, of ret] obtain pw where
    f: "frame (irq_save ret s1) ([gpr s1 0, fpscr s1, sp s1 AND 4, gpr s1 3] @ fpu_words s1 [16..<32] @ fpu_words s1 [0..<9] @ pw @ saved s @ us)"
    and p: "sp s1 AND 4 = 4 * of_nat (length pw)" "length pw \<le> 1"
    and q: "sp (irq_save ret s1) = sp s1 - 4 * of_nat (54 + length pw)"
    "gpr (irq_save ret s1) = (gpr s1)(2 := sp s1 AND 4, 1 := fpscr s1)" "dreg (irq_save ret s1) = dreg s1"
    by blast
  have "depth tos (irq_save ret s1) = depth tos s + (62 + length pw)"
    by (rule depth_down) (use room p(2) q(1) e1(2) in \<open>simp_all add: algebra_simps\<close>)
  then have d: "depth tos (irq_save ret s1)
      = length ([gpr s1 0, fpscr s1, sp s1 AND 4, gpr s1 3] @ fpu_words s1 [16..<32] @ fpu_words s1 [0..<9] @ pw @ saved s @ us)"
    using us(2) by (simp add: saved_def)
  have fb: "frame b ([v, fpscr s, sp s1 AND 4, GICCPU_BASE] @ fpu_words s1 [16..<32] @ fpu_words s1 [0..<9] @ pw @ saved s @ us)"
    using callee_frame [OF body [folded s1_def] f d] e1 by simp
  note r = irq_restore_back [OF fb p(1), of h]
  have sb: "sp b = sp (irq_save ret s1)" "\<forall>i\<in>{4..11}. gpr b i = gpr (irq_save ret s1) i"
    "\<forall>i\<in>{8..15}. dreg b i = dreg (irq_save ret s1) i"
    using body by (simp_all add: callee_def s1_def)
  have c: "sp (irq_restore h b) = sp s - 32"
    using r(2) sb(1) q(1) e1(2) by simp
  have g: "\<forall>i\<in>{4..11}. gpr (irq_restore h b) i = gpr s i"
    using r(3) sb(2) q(2) e1(3) by auto
  have x: "\<forall>i<32. dreg (irq_restore h b) i = dreg s i"
    using r(4) sb(3) q(3) e1(4) by (auto simp: not_less)
  show "unnoticed tos s (irq_leave (irq_restore h b))"
    by (rule irq_leave_back [OF r(1) c g x _ us_def]) (simp add: r(5))
  show "io (irq_leave (irq_restore h b)) = writel h v (GICCPU_BASE + 16) (io b)"
    using irq_leave_back(2) [OF r(1) c g x _ us_def] r(5,6) by simp
qed

lemma irq_round_invalid:
  fixes h :: "'d platform"
  assumes "unat (tos - sp s) + 252 < 2 ^ 32"
  shows "unnoticed tos s (irq_leave (irq_enter h (take_irq s)))"
    and "io (irq_leave (irq_enter h (take_irq s))) = snd (readl h (GICCPU_BASE + 12) (io s))"
proof -
  define us where "us = words_at (stack s) (sp s) (depth tos s)"
  have us: "frame s us" "length us + 8 \<le> 2 ^ 30"
    using assms by (simp_all add: us_def frame_def depth_def)
  note e = irq_enter_regs [OF us, of h]
  have g: "\<forall>i\<in>{4..11}. gpr (irq_enter h (take_irq s)) i = gpr s i" using e(3) by auto
  have x: "\<forall>i<32. dreg (irq_enter h (take_irq s)) i = dreg s i" using e(4) by simp
  show "unnoticed tos s (irq_leave (irq_enter h (take_irq s)))"
    "io (irq_leave (irq_enter h (take_irq s))) = snd (readl h (GICCPU_BASE + 12) (io s))"
    using irq_leave_back [OF e(1,2) g x e(5) us_def] e(6) by simp_all
qed

subsection \<open>Any nesting of interrupts\<close>

inductive_cases runs_nilE: "runs tos [] s s'"

lemma same_stack_trans: "same_stack tos s t \<Longrightarrow> same_stack tos t u \<Longrightarrow> sp t = sp s \<Longrightarrow> same_stack tos s u"
  by (simp add: same_stack_def depth_def)

lemma callee_refl: "callee tos s s"
  by (simp add: callee_def same_stack_def)

lemma callee_trans: "callee tos s t \<Longrightarrow> callee tos t u \<Longrightarrow> callee tos s u"
  by (auto simp: callee_def intro: same_stack_trans)

lemma unnoticed_callee: "unnoticed tos s t \<Longrightarrow> callee tos s t"
  by (simp add: unnoticed_def callee_def)

text \<open>A routine of pieces that each keep the standard keeps it.\<close>

lemma runs_pieces:
  "runs tos fs s s' \<Longrightarrow> (\<And>f t. f \<in> set fs \<Longrightarrow> callee tos t (f t)) \<Longrightarrow> callee tos s s'"
  by (induction rule: runs.induct) (auto intro: callee_refl callee_trans unnoticed_callee)

lemma isr_ok_pieces: "(\<And>f t. f \<in> set fs \<Longrightarrow> callee tos t (f t)) \<Longrightarrow> isr_ok tos fs"
  unfolding isr_ok_def using runs_pieces by blast

lemma nested_interrupts:
  assumes "\<And>n f. callISR n isrs = Some f \<Longrightarrow> isr_ok tos f"
  shows "irq h ret tos isrs s s' \<Longrightarrow> unnoticed tos s s'"
    and "isr_run h ret tos isrs f s s' \<Longrightarrow> runs tos f s s'"
proof (induction rule: irq_isr_run.inducts)
  case (irq_invalid s s1)
  then show ?case using irq_round_invalid(1) [OF irq_invalid(1)] by simp
next
  case (irq_valid s s1 f s2)
  then have "callee tos (irq_save ret s1) s2" using assms by (auto simp: isr_ok_def)
  then show ?case using irq_valid irq_round(1) [OF irq_valid(1)] by simp
qed (auto intro: runs.intros)

text \<open>C15. Interrupts go unnoticed. When every registered routine keeps the procedure call standard,
  an interrupt taken anywhere in the program, with any interrupts nested in it to any depth,
  comes back to the instruction before which it was taken with all registers, flags and FPU registers
  as they were, and with the program's stack as it was.\<close>

theorem interrupts_transparent:
  assumes "irq h ret tos isrs s s'" and "\<And>n f. callISR n isrs = Some f \<Longrightarrow> isr_ok tos f"
  shows "(\<forall>i\<le>12. gpr s' i = gpr s i) \<and> sp s' = sp s \<and> lr s' = lr s \<and> pc s' = pc s \<and> cpsr s' = cpsr s \<and>
    (\<forall>i<32. dreg s' i = dreg s i) \<and> fpscr s' = fpscr s \<and>
    words_at (stack s') (sp s) (depth tos s) = words_at (stack s) (sp s) (depth tos s)"
  using nested_interrupts(1) [OF assms(2,1)] by (simp add: unnoticed_def same_stack_def)

text \<open>The comparison with the first invalid number.\<close>

lemma bit_31: "bit (w :: u32) 31 \<longleftrightarrow> 2 ^ 31 \<le> unat w"
proof -
  have "bit w 31 \<longleftrightarrow> bit (unat w) 31" by (simp add: bit_unsigned_iff)
  also have "\<dots> \<longleftrightarrow> odd (unat w div 2 ^ 31)" by (rule bit_iff_odd)
  finally have "bit w 31 \<longleftrightarrow> odd (unat w div 2 ^ 31)" .
  moreover have "unat w div 2 ^ 31 = 0 \<or> unat w div 2 ^ 31 = 1"
    using unsigned_less [of w, where ?'a = nat] by auto
  ultimately show ?thesis by (auto simp: div_eq_0_iff)
qed

lemma cmp_ge:
  assumes "v < 0x80000000"
  shows "cond_ge (cmp_flags v 0x3FC w) \<longleftrightarrow> 0x3FC \<le> v"
proof -
  have lt: "unat v < 2 ^ 31" using assms by (simp add: word_less_nat_alt)
  have n: "bit (cmp_flags v 0x3FC w) 31 \<longleftrightarrow> bit (v - 0x3FC) 31"
    and o: "bit (cmp_flags v 0x3FC w) 28 \<longleftrightarrow> bit ((v XOR 0x3FC) AND (v XOR (v - 0x3FC))) 31"
    by (simp_all add: cmp_flags_def Let_def bit_simps)
  have v: "\<not> bit v 31" "\<not> bit (0x3FC :: u32) 31" using lt by (simp_all add: bit_31)
  have "bit (v - 0x3FC) 31 \<longleftrightarrow> \<not> 0x3FC \<le> v"
  proof (cases "0x3FC \<le> v")
    case True
    then show ?thesis using lt by (simp add: bit_31 unat_sub)
  next
    case False
    then have "unat (v - 0x3FC) = 2 ^ 32 + unat v - 0x3FC"
      by (simp add: word_le_nat_alt unat_sub_if')
    then show ?thesis using False by (simp add: bit_31 word_le_nat_alt)
  qed
  then show ?thesis
    using v n o by (simp add: cond_ge_def bit_and_iff bit_xor_iff)
qed

inductive_cases irqE: "irq h ret tos isrs s s'"

lemma and_4_even: "(w :: u32) AND 4 = 0 \<longleftrightarrow> even (unat w div 4)"
proof -
  have "bit w 2 \<longleftrightarrow> bit (unat w) 2" by (simp add: bit_unsigned_iff)
  also have "\<dots> \<longleftrightarrow> odd (unat w div 2 ^ 2)" by (rule bit_iff_odd)
  finally have b: "bit w 2 \<longleftrightarrow> odd (unat w div 4)" by simp
  have "w AND 2 ^ n = (if bit w n then 2 ^ n else 0)" for n
    by (rule bit_word_eqI) (auto simp: bit_simps)
  from this [of 2] show ?thesis using b by (simp split: if_splits)
qed

lemma even_quarter_minus:
  assumes "4 * k < 2 ^ 32"
  shows "even (unat (y - of_nat (4 * k) :: u32) div 4) = (even (unat y div 4) = even k)"
proof -
  have "unat (of_nat (4 * k) :: u32) = 4 * k"
    using assms by (simp add: unsigned_of_nat take_bit_nat_eq_self del: of_nat_mult)
  then have "unat (y - of_nat (4 * k) :: u32) + 4 * k = unat y \<or> unat (y - of_nat (4 * k) :: u32) + 4 * k = unat y + 4 * 2 ^ 30"
    using assms by (simp add: unat_sub_if' word_le_nat_alt del: of_nat_mult)
  then have "(unat (y - of_nat (4 * k) :: u32) + 4 * k) div 4 = unat y div 4 \<or>
      (unat (y - of_nat (4 * k) :: u32) + 4 * k) div 4 = (unat y + 4 * 2 ^ 30) div 4"
    by metis
  then have "unat (y - of_nat (4 * k) :: u32) div 4 + k = unat y div 4 \<or> unat (y - of_nat (4 * k) :: u32) div 4 + k = unat y div 4 + 2 ^ 30"
    by (simp only: div_mult_self2 zero_neq_numeral) (simp add: ac_simps)
  then have "even (unat (y - of_nat (4 * k) :: u32) div 4 + k) = even (unat y div 4)"
    by (elim disjE) simp_all
  then show ?thesis by (simp only: even_add) blast
qed

lemma align_and_4: "((x :: u32) - (x AND 4) - 216) AND 4 = 0"
proof -
  have m: "even (unat (y - 216) div 4) = even (unat y div 4)" for y :: u32
    using even_quarter_minus [of 54 y] by simp
  have f: "even (unat (y - 4) div 4) = odd (unat y div 4)" for y :: u32
    using even_quarter_minus [of 1 y] by simp
  from pad_cases [of x] show ?thesis
  proof
    assume z: "x AND 4 = 0"
    show ?thesis unfolding z using m [of x] z by (simp add: and_4_even)
  next
    assume z: "x AND 4 = 4"
    then have "odd (unat x div 4)" using and_4_even [of x] by auto
    then show ?thesis unfolding z using m [of "x - 4"] f [of x] by (simp add: and_4_even)
  qed
qed

text \<open>C16. The life of an interrupt. A valid number is handed to its routine, which runs with
  the number in r0, interrupts enabled and the stack pointer even in its bit 2, so aligned to 8 bytes
  when it was to 4; when the routine has returned, and not before, that number is written
  to the end-of-interrupt register. The value of an acknowledge read from 0x3FC on leads
  back to the program without a write: also that of a software interrupt from another core,
  which carries the sender in its bits 10 to 12 and stays active.\<close>

theorem interrupt_ended_once:
  assumes "irq h ret tos isrs s s'" and "\<And>n f. callISR n isrs = Some f \<Longrightarrow> isr_ok tos f"
    and "v = fst (readl h 0xA002200C (io s))" and "v < 0x80000000"
  shows "if v < 0x3FC
    then \<exists>f b b'. callISR v isrs = Some f \<and> isr_run h ret tos isrs f b b' \<and> gpr b 0 = v \<and>
      \<not> irqs_masked (cpsr b) \<and> sp b AND 4 = 0 \<and> io b = snd (readl h 0xA002200C (io s)) \<and>
      io s' = writel h v 0xA0022010 (io b')
    else io s' = snd (readl h 0xA002200C (io s))"
proof -
  have g: "GICCPU_BASE + 12 = 0xA002200C" "GICCPU_BASE + 16 = 0xA0022010" by (simp_all add: GICCPU_BASE_def)
  define s1 where "s1 = irq_enter h (take_irq s)"
  define us where "us = words_at (stack s) (sp s) (depth tos s)"
  have room: "unat (tos - sp s) + 252 < 2 ^ 32" using assms(1) by (rule irqE) simp_all
  then have us: "frame s us" "length us + 63 \<le> 2 ^ 30"
    by (simp_all add: us_def frame_def depth_def)
  note e = irq_enter_regs [OF us(1), of h, folded s1_def, unfolded g, folded assms(3)]
  have cond: "cond_ge (cpsr s1) \<longleftrightarrow> 0x3FC \<le> v" using e(7) us(2) cmp_ge [OF assms(4)] by auto
  have r0: "gpr s1 0 = v" using e(3) us(2) by simp
  from assms(1) show ?thesis
  proof (rule irqE, goal_cases)
    case 1
    then have "\<not> v < 0x3FC" using cond by (simp add: s1_def not_less)
    then show ?thesis using 1 irq_round_invalid(2) [OF room, of h] by (simp add: g)
  next
    case (2 f b')
    have f1: "frame s1 (saved s @ us)" using e(1) us(2) by simp
    have f2: "length (saved s @ us) + 55 \<le> 2 ^ 30" using us(2) by (simp add: saved_def)
    obtain pw :: "u32 list" where
      p: "sp s1 AND 4 = 4 * of_nat (length pw)" "sp (irq_save ret s1) = sp s1 - 4 * of_nat (54 + length pw)"
        "gpr (irq_save ret s1) = (gpr s1)(2 := sp s1 AND 4, 1 := fpscr s1)" "io (irq_save ret s1) = io s1"
      by (rule irq_save_regs [OF f1 f2, of ret]) (rule that)
    have run: "isr_run h ret tos isrs f (irq_save ret s1) b'" and f: "callISR (gpr s1 0) isrs = Some f"
      using 2 by (simp_all add: s1_def)
    have "runs tos f (irq_save ret s1) b'"
      by (rule nested_interrupts(2) [OF _ run]) (rule assms(2))
    then have "callee tos (irq_save ret s1) b'" using assms(2) [OF f] unfolding isr_ok_def by blast
    then have w: "io s' = writel h v 0xA0022010 (io b')"
      using 2 irq_round(2) [OF room, of ret h b'] by (simp add: s1_def g assms(3))
    have sp: "sp (irq_save ret s1) = sp s1 - (sp s1 AND 4) - 216" using p(1,2) by simp
    have m: "\<not> irqs_masked (cpsr (irq_save ret s1))"
      by (simp add: irq_save_def irqs_masked_def Let_def bit_simps)
    have "sp (irq_save ret s1) AND 4 = 0" unfolding sp by (rule align_and_4)
    moreover have "callISR v isrs = Some f" using f r0 by simp
    moreover have "gpr (irq_save ret s1) 0 = v" using p(3) r0 by simp
    moreover have "io (irq_save ret s1) = snd (readl h 0xA002200C (io s))" using p(4) e(6) us(2) by simp
    moreover have "v < 0x3FC" using 2 cond by (simp add: s1_def not_le)
    ultimately show ?thesis
      unfolding if_P [OF \<open>v < 0x3FC\<close>] using w m run by blast
  qed
qed

subsection \<open>An interrupt controller that keeps raising one interrupt\<close>

definition sample_gic :: "(u32 \<times> u32) list platform" where
  "sample_gic = \<lparr>rd32 = \<lambda>a d. (if a = 0xA002200C then 38 else 0, d), wr32 = \<lambda>v a d. d @ [(a, v)],
     rd8 = \<lambda>_ d. (0, d), wr8 = \<lambda>_ _ d. d, ctrlc_key = \<lambda>d. (False, d), elapse = \<lambda>_ d. d\<rparr>"

definition sample_isr :: "'d isr" where
  "sample_isr = [\<lambda>s. s\<lparr>gpr := (gpr s)(0 := 5, 3 := 7, 12 := 9), lr := 1\<rparr>, \<lambda>s. s\<lparr>dreg := (dreg s)(0 := 1, 20 := 2), fpscr := 3\<rparr>]"

definition sample_isrs :: "'d isr option list" where
  "sample_isrs = ISRs_initial[38 := Some sample_isr]"

definition sample_cpu :: "(u32 \<times> u32) list cpu" where
  "sample_cpu = \<lparr>gpr = of_nat, sp = 0xC0001000, lr = 0x2000, pc = 0xC2000040, cpsr = 0x6000001F, lr_irq = 0, spsr_irq = 0,
     dreg = of_nat, fpscr = 0, stack = \<lambda>_. 0,
     io = \<lparr>dev = [], rand_y = 0, bist_error_max = 0, bist_seed = 0, result_msg = None\<rparr>\<rparr>"

lemma sample_registered: "registerISR 38 sample_isr ISRs_initial = Some sample_isrs"
  by (simp add: registerISR_def ISRs_initial_def sample_isrs_def NumISRs_def)

lemma sample_only: "callISR n sample_isrs = Some f \<Longrightarrow> f = sample_isr"
  by (auto simp: callISR_def sample_isrs_def ISRs_initial_def NumISRs_def nth_list_update split: if_splits)

lemma sample_isr_ok: "callISR n sample_isrs = Some f \<Longrightarrow> isr_ok tos f"
  by (drule sample_only) (auto intro!: isr_ok_pieces simp: sample_isr_def callee_def same_stack_def)

lemma sample_call: "callISR 38 sample_isrs = Some sample_isr"
  by (simp add: callISR_def sample_isrs_def ISRs_initial_def NumISRs_def)

lemma sample_enter: "cond_ge (cpsr (irq_enter sample_gic (take_irq s))) = False" "gpr (irq_enter sample_gic (take_irq s)) 0 = 38"
  by (simp_all add: irq_enter_def Let_def split_def readl_def sample_gic_def GICCPU_BASE_def cmp_ge)

lemma run_pieces: "isr_run h ret tos isrs fs s (fold (\<lambda>f. f) fs s)"
  by (induction fs arbitrary: s) (auto intro: run_done run_piece)

text \<open>A second interrupt nested in the first.\<close>

lemma sample_nested: "\<exists>s'. irq sample_gic 0xC2000100 0xC0001040 sample_isrs sample_cpu s'"
proof -
  let ?b = "irq_save 0xC2000100 (irq_enter sample_gic (take_irq sample_cpu))"
  have "sp ?b = 0xC0000F08" "\<not> irqs_masked (cpsr ?b)"
    by (simp_all add: irq_save_def irq_enter_def take_irq_def vpush_def sample_cpu_def irqs_masked_def split_def Let_def bit_simps
        del: upt_rec_numeral)
  then have "irq sample_gic 0xC2000100 0xC0001040 sample_isrs ?b (irq_leave (irq_restore sample_gic
      (fold (\<lambda>f. f) sample_isr (irq_save 0xC2000100 (irq_enter sample_gic (take_irq ?b))))))"
    by (intro irq_valid [OF _ _ refl, where f = sample_isr] run_pieces) (simp_all add: sample_enter sample_call)
  then have "\<exists>b'. isr_run sample_gic 0xC2000100 0xC0001040 sample_isrs sample_isr ?b b'"
    by (blast intro: run_irq run_pieces)
  then obtain b' where "isr_run sample_gic 0xC2000100 0xC0001040 sample_isrs sample_isr ?b b'" ..
  then have "irq sample_gic 0xC2000100 0xC0001040 sample_isrs sample_cpu (irq_leave (irq_restore sample_gic b'))"
    by (intro irq_valid [OF _ _ refl, where f = sample_isr])
      (simp_all add: sample_enter sample_call, simp_all add: sample_cpu_def irqs_masked_def)
  then show ?thesis ..
qed

lemma interrupts_transparent_witness:
  "\<exists>s'. irq sample_gic 0xC2000100 0xC0001040 sample_isrs sample_cpu s' \<and> gpr s' 12 = 12 \<and> lr s' = 0x2000 \<and>
     pc s' = 0xC2000040 \<and> cpsr s' = 0x6000001F \<and> dreg s' 20 = 20 \<and> words_at (stack s') 0xC0001000 16 = replicate 16 0"
proof -
  obtain s' where i: "irq sample_gic 0xC2000100 0xC0001040 sample_isrs sample_cpu s'" using sample_nested ..
  have "words_at (stack sample_cpu) 0xC0001000 16 = replicate 16 0"
    by (simp add: sample_cpu_def words_at_def map_replicate_const)
  moreover have "depth 0xC0001040 sample_cpu = 16" by (simp add: sample_cpu_def depth_def)
  moreover have "(\<forall>i\<le>12. gpr s' i = gpr sample_cpu i) \<and> sp s' = sp sample_cpu \<and> lr s' = lr sample_cpu \<and>
      pc s' = pc sample_cpu \<and> cpsr s' = cpsr sample_cpu \<and> (\<forall>i<32. dreg s' i = dreg sample_cpu i) \<and> fpscr s' = fpscr sample_cpu \<and>
      words_at (stack s') (sp sample_cpu) (depth 0xC0001040 sample_cpu) = words_at (stack sample_cpu) (sp sample_cpu) (depth 0xC0001040 sample_cpu)"
    by (rule interrupts_transparent [OF i]) (rule sample_isr_ok)
  ultimately show ?thesis
    using i by (intro exI [of _ s']) (simp add: sample_cpu_def)
qed

lemma interrupt_ended_once_witness:
  "\<exists>s' (b' :: (u32 \<times> u32) list cpu). irq sample_gic 0xC2000100 0xC0001040 sample_isrs sample_cpu s' \<and>
     io s' = writel sample_gic 38 0xA0022010 (io b')"
proof -
  obtain s' where i: "irq sample_gic 0xC2000100 0xC0001040 sample_isrs sample_cpu s'" using sample_nested ..
  have v: "38 = fst (readl sample_gic 0xA002200C (io sample_cpu))"
    by (simp add: readl_def sample_gic_def)
  have "if (38 :: u32) < 0x3FC
    then \<exists>f b b'. callISR 38 sample_isrs = Some f \<and> isr_run sample_gic 0xC2000100 0xC0001040 sample_isrs f b b' \<and> gpr b 0 = 38 \<and>
      \<not> irqs_masked (cpsr b) \<and> sp b AND 4 = 0 \<and> io b = snd (readl sample_gic 0xA002200C (io sample_cpu)) \<and>
      io s' = writel sample_gic 38 0xA0022010 (io b')
    else io s' = snd (readl sample_gic 0xA002200C (io sample_cpu))"
    by (rule interrupt_ended_once [OF i _ v]) (rule sample_isr_ok, assumption, simp)
  then obtain b' :: "(u32 \<times> u32) list cpu" where "io s' = writel sample_gic 38 0xA0022010 (io b')" by auto
  then show ?thesis using i by blast
qed

end
