(* ===== verification/Gic.thy ===== *)
theory Gic
  imports Platform
begin

text \<open>
  The interrupt controller: the access functions of CMSIS (Core\_A/Include/core\_ca.h) that the
  programs use, \<open>IRQ_Initialize\<close> (shared/system/irq\_init.c) and \<open>InterruptControl\<close>
  (shared/drivers/interrupt\_control.hh). An interrupt is its number.

  \<open>gic_state\<close> is the documented behaviour of the controller, interrupt by interrupt, and
  \<open>gic_read\<close> and \<open>gic_write\<close> the effect of an access to one of its registers. \<open>gic\<close> is the
  contract of a platform with such a controller.
\<close>

subsection \<open>Registers\<close>

datatype gic_reg =
    D_CTLR | D_TYPER | D_ISENABLER nat | D_ICENABLER nat | D_ISPENDR nat | D_ICPENDR nat
  | D_ISACTIVER nat | D_ICACTIVER nat | D_IPRIORITYR nat | D_ITARGETSR nat | D_ICFGR nat
  | D_SGIR | D_CPENDSGIR nat
  | C_CTLR | C_PMR | C_BPR | C_IAR | C_EOIR | C_APR nat

fun gic_offset :: "gic_reg \<Rightarrow> nat" where
  "gic_offset D_CTLR = 0x000"
| "gic_offset D_TYPER = 0x004"
| "gic_offset (D_ISENABLER k) = 0x100 + 4 * k"
| "gic_offset (D_ICENABLER k) = 0x180 + 4 * k"
| "gic_offset (D_ISPENDR k) = 0x200 + 4 * k"
| "gic_offset (D_ICPENDR k) = 0x280 + 4 * k"
| "gic_offset (D_ISACTIVER k) = 0x300 + 4 * k"
| "gic_offset (D_ICACTIVER k) = 0x380 + 4 * k"
| "gic_offset (D_IPRIORITYR k) = 0x400 + 4 * k"
| "gic_offset (D_ITARGETSR k) = 0x800 + 4 * k"
| "gic_offset (D_ICFGR k) = 0xC00 + 4 * k"
| "gic_offset D_SGIR = 0xF00"
| "gic_offset (D_CPENDSGIR k) = 0xF10 + 4 * k"
| "gic_offset C_CTLR = 0x1000"
| "gic_offset C_PMR = 0x1004"
| "gic_offset C_BPR = 0x1008"
| "gic_offset C_IAR = 0x100C"
| "gic_offset C_EOIR = 0x1010"
| "gic_offset (C_APR k) = 0x10D0 + 4 * k"

text \<open>The arrays, as far as there are interrupts.\<close>

fun gic_exists :: "gic_reg \<Rightarrow> bool" where
  "gic_exists (D_ISENABLER k) = (k < 32)"
| "gic_exists (D_ICENABLER k) = (k < 32)"
| "gic_exists (D_ISPENDR k) = (k < 32)"
| "gic_exists (D_ICPENDR k) = (k < 32)"
| "gic_exists (D_ISACTIVER k) = (k < 32)"
| "gic_exists (D_ICACTIVER k) = (k < 32)"
| "gic_exists (D_IPRIORITYR k) = (k < 256)"
| "gic_exists (D_ITARGETSR k) = (k < 256)"
| "gic_exists (D_ICFGR k) = (k < 64)"
| "gic_exists (D_CPENDSGIR k) = (k < 4)"
| "gic_exists (C_APR k) = (k < 4)"
| "gic_exists _ = True"

definition GIC_BASE :: u32 where "GIC_BASE = 0xA0021000"

definition gic_addr :: "gic_reg \<Rightarrow> u32" where
  "gic_addr r = GIC_BASE + of_nat (gic_offset r)"

definition gic_get :: "'d platform \<Rightarrow> gic_reg \<Rightarrow> 'd sys \<Rightarrow> u32 \<times> 'd sys" where
  "gic_get h r s = readl h (gic_addr r) s"

definition gic_put :: "'d platform \<Rightarrow> gic_reg \<Rightarrow> u32 \<Rightarrow> 'd sys \<Rightarrow> 'd sys" where
  "gic_put h r v s = writel h v (gic_addr r) s"

subsection \<open>Access functions (core_ca.h)\<close>

definition irq_bit :: "nat \<Rightarrow> u32" where
  "irq_bit i = push_bit (i mod 32) 1"

definition GIC_EnableDistributor :: "'d platform \<Rightarrow> 'd sys \<Rightarrow> 'd sys" where
  "GIC_EnableDistributor h s = (let (v, s) = gic_get h D_CTLR s in gic_put h D_CTLR (v OR 1) s)"

definition GIC_DisableDistributor :: "'d platform \<Rightarrow> 'd sys \<Rightarrow> 'd sys" where
  "GIC_DisableDistributor h s = (let (v, s) = gic_get h D_CTLR s in gic_put h D_CTLR (v AND NOT 1) s)"

definition GIC_DistributorInfo :: "'d platform \<Rightarrow> 'd sys \<Rightarrow> u32 \<times> 'd sys" where
  "GIC_DistributorInfo h s = gic_get h D_TYPER s"

text \<open>A byte of a register of four.\<close>

definition put_byte :: "nat \<Rightarrow> u32 \<Rightarrow> u32 \<Rightarrow> u32" where
  "put_byte j x v = (v AND NOT (push_bit (j * 8) 0xFF)) OR push_bit (j * 8) (x AND 0xFF)"

definition GIC_SetTarget :: "'d platform \<Rightarrow> nat \<Rightarrow> u32 \<Rightarrow> 'd sys \<Rightarrow> 'd sys" where
  "GIC_SetTarget h i cpu_target s =
     (let (v, s) = gic_get h (D_ITARGETSR (i div 4)) s in gic_put h (D_ITARGETSR (i div 4)) (put_byte (i mod 4) cpu_target v) s)"

definition GIC_EnableInterface :: "'d platform \<Rightarrow> 'd sys \<Rightarrow> 'd sys" where
  "GIC_EnableInterface h s = (let (v, s) = gic_get h C_CTLR s in gic_put h C_CTLR (v OR 1) s)"

definition GIC_DisableInterface :: "'d platform \<Rightarrow> 'd sys \<Rightarrow> 'd sys" where
  "GIC_DisableInterface h s = (let (v, s) = gic_get h C_CTLR s in gic_put h C_CTLR (v AND NOT 1) s)"

definition GIC_AcknowledgePending :: "'d platform \<Rightarrow> 'd sys \<Rightarrow> u32 \<times> 'd sys" where
  "GIC_AcknowledgePending h s = gic_get h C_IAR s"

definition GIC_EndInterrupt :: "'d platform \<Rightarrow> u32 \<Rightarrow> 'd sys \<Rightarrow> 'd sys" where
  "GIC_EndInterrupt h x s = gic_put h C_EOIR x s"

definition GIC_EnableIRQ :: "'d platform \<Rightarrow> nat \<Rightarrow> 'd sys \<Rightarrow> 'd sys" where
  "GIC_EnableIRQ h i s = gic_put h (D_ISENABLER (i div 32)) (irq_bit i) s"

definition GIC_DisableIRQ :: "'d platform \<Rightarrow> nat \<Rightarrow> 'd sys \<Rightarrow> 'd sys" where
  "GIC_DisableIRQ h i s = gic_put h (D_ICENABLER (i div 32)) (irq_bit i) s"

definition GIC_ClearPendingIRQ :: "'d platform \<Rightarrow> nat \<Rightarrow> 'd sys \<Rightarrow> 'd sys" where
  "GIC_ClearPendingIRQ h i s =
     (if 16 \<le> i then gic_put h (D_ICPENDR (i div 32)) (irq_bit i) s
      else gic_put h (D_CPENDSGIR (i div 4)) (push_bit (i mod 4 * 8) 1) s)"

definition GIC_SetConfiguration :: "'d platform \<Rightarrow> nat \<Rightarrow> u32 \<Rightarrow> 'd sys \<Rightarrow> 'd sys" where
  "GIC_SetConfiguration h i int_config s =
     (let (v, s) = gic_get h (D_ICFGR (i div 16)) s
      in gic_put h (D_ICFGR (i div 16)) ((v AND NOT (push_bit (i mod 16 * 2) 3)) OR push_bit (i mod 16 * 2) int_config) s)"

definition GIC_SetPriority :: "'d platform \<Rightarrow> nat \<Rightarrow> u32 \<Rightarrow> 'd sys \<Rightarrow> 'd sys" where
  "GIC_SetPriority h i priority s =
     (let (v, s) = gic_get h (D_IPRIORITYR (i div 4)) s in gic_put h (D_IPRIORITYR (i div 4)) (put_byte (i mod 4) priority v) s)"

definition GIC_GetPriority :: "'d platform \<Rightarrow> nat \<Rightarrow> 'd sys \<Rightarrow> u32 \<times> 'd sys" where
  "GIC_GetPriority h i s =
     (let (v, s) = gic_get h (D_IPRIORITYR (i div 4)) s in (drop_bit (i mod 4 * 8) v AND 0xFF, s))"

definition GIC_SetInterfacePriorityMask :: "'d platform \<Rightarrow> u32 \<Rightarrow> 'd sys \<Rightarrow> 'd sys" where
  "GIC_SetInterfacePriorityMask h priority s = gic_put h C_PMR (priority AND 0xFF) s"

definition GIC_SetBinaryPoint :: "'d platform \<Rightarrow> u32 \<Rightarrow> 'd sys \<Rightarrow> 'd sys" where
  "GIC_SetBinaryPoint h binary_point s = gic_put h C_BPR (binary_point AND 7) s"

definition GIC_GetIRQStatus :: "'d platform \<Rightarrow> nat \<Rightarrow> 'd sys \<Rightarrow> u32 \<times> 'd sys" where
  "GIC_GetIRQStatus h i s =
     (let (a, s) = gic_get h (D_ISACTIVER (i div 32)) s;
          (p, s) = gic_get h (D_ISPENDR (i div 32)) s
      in (push_bit 1 (drop_bit (i mod 32) a AND 1) OR (drop_bit (i mod 32) p AND 1), s))"

definition GIC_SendSGI :: "'d platform \<Rightarrow> nat \<Rightarrow> u32 \<Rightarrow> u32 \<Rightarrow> 'd sys \<Rightarrow> 'd sys" where
  "GIC_SendSGI h i target_list filter_list s =
     gic_put h D_SGIR (push_bit 24 (filter_list AND 3) OR push_bit 16 (target_list AND 0xFF) OR (of_nat i AND 0xF)) s"

text \<open>The number of interrupts is a multiple of 32 up to 1024.\<close>

definition num_irqs :: "u32 \<Rightarrow> u32" where
  "num_irqs info = 32 * ((info AND 0x1F) + 1)"

definition GIC_DistInit :: "'d platform \<Rightarrow> 'd sys \<Rightarrow> 'd sys" where
  "GIC_DistInit h s =
     (let s = GIC_DisableDistributor h s;
          (info, s) = GIC_DistributorInfo h s;
          s = GIC_SetPriority h 0 0xFF s;
          (priority_field, s) = GIC_GetPriority h 0 s;
          s = fold (\<lambda>i s. let s = GIC_DisableIRQ h i s; s = GIC_SetConfiguration h i 0 s;
                              s = GIC_SetPriority h i (priority_field div 2) s
                          in GIC_SetTarget h i 1 s)
                [32..<unat (num_irqs info)] s
      in GIC_EnableDistributor h s)"

definition GIC_CPUInterfaceInit :: "'d platform \<Rightarrow> 'd sys \<Rightarrow> 'd sys" where
  "GIC_CPUInterfaceInit h s =
     (let s = GIC_DisableInterface h s;
          s = GIC_SetPriority h 0 0xFF s;
          (priority_field, s) = GIC_GetPriority h 0 s;
          s = fold (\<lambda>i s. let s = (if 15 < i then GIC_SetConfiguration h i 0 s else s); s = GIC_DisableIRQ h i s
                          in GIC_SetPriority h i (priority_field div 2) s)
                [0..<32] s;
          s = GIC_EnableInterface h s;
          s = GIC_SetBinaryPoint h 0 s
      in GIC_SetInterfacePriorityMask h 0xFF s)"

definition GIC_Enable :: "'d platform \<Rightarrow> 'd sys \<Rightarrow> 'd sys" where
  "GIC_Enable h s = GIC_CPUInterfaceInit h (GIC_DistInit h s)"

subsection \<open>irq_init.c\<close>

definition GIC_ClearActiveIRQ :: "'d platform \<Rightarrow> nat \<Rightarrow> 'd sys \<Rightarrow> 'd sys" where
  "GIC_ClearActiveIRQ h i s = (if 16 \<le> i then gic_put h (D_ICACTIVER (i div 32)) (irq_bit i) s else s)"

text \<open>Acknowledge and end what is pending, until a number is none. \<open>x\<close> is an \<open>int\<close>, and the
  comparisons with \<open>num_irq\<close> are of unsigned numbers.\<close>

definition drain_round :: "'d platform \<Rightarrow> u32 \<Rightarrow> 'd sys \<Rightarrow> ('d sys + 'd sys) option" where
  "drain_round h num_irq s =
     (let (x, s) = GIC_AcknowledgePending h s;
          s = (if x < num_irq then GIC_EndInterrupt h x s else s)
      in Some (if 0 \<le>s x \<and> x < num_irq then Inr s else Inl s))"

definition clear_irq :: "'d platform \<Rightarrow> nat \<Rightarrow> 'd sys \<Rightarrow> 'd sys" where
  "clear_irq h i s =
     (let (act_pend, s) = GIC_GetIRQStatus h i s;
          s = (if drop_bit 1 (act_pend AND 2) \<noteq> 0 then GIC_ClearActiveIRQ h i s else s)
      in if act_pend AND 1 \<noteq> 0 then GIC_ClearPendingIRQ h i s else s)"

definition IRQ_Initialize :: "'d platform \<Rightarrow> 'd sys \<Rightarrow> 'd sys option" where
  "IRQ_Initialize h s =
     (let s = GIC_Enable h s; (info, s) = GIC_DistributorInfo h s; num_irq = num_irqs info
      in do { s \<leftarrow> loop (drain_round h num_irq) s;
              let s = fold (clear_irq h) [32..<unat num_irq] s;
              let s = gic_put h (C_APR 0) 0 s;
              let s = GIC_SetInterfacePriorityMask h 0xFF s;
              Some (GIC_SetBinaryPoint h 4 s) })"

subsection \<open>interrupt_control.hh\<close>

definition set_irq_priority :: "'d platform \<Rightarrow> nat \<Rightarrow> u32 \<Rightarrow> u32 \<Rightarrow> 'd sys \<Rightarrow> 'd sys" where
  "set_irq_priority h i pri1 pri2 s =
     (let pri1 = (if 7 < pri1 then 7 else pri1); pri2 = (if 3 < pri2 then 3 else pri2)
      in GIC_SetPriority h i (push_bit 5 pri1 OR push_bit 3 pri2) s)"

definition disable_irq :: "'d platform \<Rightarrow> nat \<Rightarrow> 'd sys \<Rightarrow> 'd sys" where
  "disable_irq h i s = GIC_DisableIRQ h i s"

definition LevelTriggered :: u32 where "LevelTriggered = 1"
definition EdgeTriggered :: u32 where "EdgeTriggered = 2"

definition enable_irq :: "'d platform \<Rightarrow> nat \<Rightarrow> 'd sys \<Rightarrow> 'd sys" where
  "enable_irq h i s =
     (let s = GIC_SetTarget h i 1 s; s = GIC_SetConfiguration h i LevelTriggered s; s = GIC_ClearPendingIRQ h i s
      in GIC_EnableIRQ h i s)"

subsection \<open>The controller\<close>

text \<open>\<open>acks\<close> are the numbers that the next reads of the acknowledge register give, \<open>ended\<close> and
  \<open>sgis\<close> what was written to the end-of-interrupt and the software interrupt register. Five bits
  of a priority are implemented.\<close>

record gic_state =
  dctlr :: u32
  typer :: u32
  cctlr :: u32
  pmr :: u32
  bpr :: u32
  apr :: "nat \<Rightarrow> u32"
  enab :: "nat \<Rightarrow> bool"
  pend :: "nat \<Rightarrow> bool"
  act :: "nat \<Rightarrow> bool"
  prio :: "nat \<Rightarrow> u8"
  target :: "nat \<Rightarrow> u8"
  config :: "nat \<Rightarrow> 2 word"
  acks :: "u32 list"
  ended :: "u32 list"
  sgis :: "u32 list"

definition PRIO_MASK :: u8 where "PRIO_MASK = 0xF8"
definition SPURIOUS :: u32 where "SPURIOUS = 1023"

text \<open>Register \<open>k\<close> of an array of fields.\<close>

definition pack_bits :: "(nat \<Rightarrow> bool) \<Rightarrow> nat \<Rightarrow> u32" where
  "pack_bits f k = horner_sum of_bool 2 (map (\<lambda>b. f (32 * k + b)) [0..<32])"

definition pack :: "(nat \<Rightarrow> 'a::len word) \<Rightarrow> nat \<Rightarrow> u32" where
  "pack f k = horner_sum of_bool 2
     (map (\<lambda>b. bit (f (32 div LENGTH('a) * k + b div LENGTH('a))) (b mod LENGTH('a))) [0..<32])"

definition unpack :: "u32 \<Rightarrow> nat \<Rightarrow> 'a::len word" where
  "unpack v j = ucast (drop_bit (j * LENGTH('a)) v)"

definition set_bits :: "u32 \<Rightarrow> nat \<Rightarrow> (nat \<Rightarrow> bool) \<Rightarrow> nat \<Rightarrow> bool" where
  "set_bits v k f n = (f n \<or> n div 32 = k \<and> bit v (n mod 32))"

definition clear_bits :: "u32 \<Rightarrow> nat \<Rightarrow> (nat \<Rightarrow> bool) \<Rightarrow> nat \<Rightarrow> bool" where
  "clear_bits v k f n = (f n \<and> \<not> (n div 32 = k \<and> bit v (n mod 32)))"

fun gic_read :: "gic_reg \<Rightarrow> gic_state \<Rightarrow> u32 \<times> gic_state" where
  "gic_read D_CTLR g = (dctlr g, g)"
| "gic_read D_TYPER g = (typer g, g)"
| "gic_read (D_ISENABLER k) g = (pack_bits (enab g) k, g)"
| "gic_read (D_ICENABLER k) g = (pack_bits (enab g) k, g)"
| "gic_read (D_ISPENDR k) g = (pack_bits (pend g) k, g)"
| "gic_read (D_ICPENDR k) g = (pack_bits (pend g) k, g)"
| "gic_read (D_ISACTIVER k) g = (pack_bits (act g) k, g)"
| "gic_read (D_ICACTIVER k) g = (pack_bits (act g) k, g)"
| "gic_read (D_IPRIORITYR k) g = (pack (prio g) k, g)"
| "gic_read (D_ITARGETSR k) g = (pack (target g) k, g)"
| "gic_read (D_ICFGR k) g = (pack (config g) k, g)"
| "gic_read D_SGIR g = (0, g)"
| "gic_read (D_CPENDSGIR k) g = (0, g)"
| "gic_read C_CTLR g = (cctlr g, g)"
| "gic_read C_PMR g = (pmr g, g)"
| "gic_read C_BPR g = (bpr g, g)"
| "gic_read C_IAR g = (case acks g of [] \<Rightarrow> (SPURIOUS, g) | x # xs \<Rightarrow> (x, g\<lparr>acks := xs\<rparr>))"
| "gic_read C_EOIR g = (0, g)"
| "gic_read (C_APR k) g = (apr g k, g)"

text \<open>Software interrupts (0 to 15) are always enabled, and the bit registers do not change
  their pending state. The first 32 interrupts have fixed targets, the software interrupts a
  fixed configuration.\<close>

fun gic_write :: "gic_reg \<Rightarrow> u32 \<Rightarrow> gic_state \<Rightarrow> gic_state" where
  "gic_write D_CTLR v g = g\<lparr>dctlr := v\<rparr>"
| "gic_write D_TYPER v g = g"
| "gic_write (D_ISENABLER k) v g = g\<lparr>enab := set_bits v k (enab g)\<rparr>"
| "gic_write (D_ICENABLER k) v g = g\<lparr>enab := (\<lambda>n. if n < 16 then enab g n else clear_bits v k (enab g) n)\<rparr>"
| "gic_write (D_ISPENDR k) v g = g\<lparr>pend := (\<lambda>n. if n < 16 then pend g n else set_bits v k (pend g) n)\<rparr>"
| "gic_write (D_ICPENDR k) v g = g\<lparr>pend := (\<lambda>n. if n < 16 then pend g n else clear_bits v k (pend g) n)\<rparr>"
| "gic_write (D_ISACTIVER k) v g = g\<lparr>act := set_bits v k (act g)\<rparr>"
| "gic_write (D_ICACTIVER k) v g = g\<lparr>act := clear_bits v k (act g)\<rparr>"
| "gic_write (D_IPRIORITYR k) v g = g\<lparr>prio := (\<lambda>n. if n div 4 = k then unpack v (n mod 4) AND PRIO_MASK else prio g n)\<rparr>"
| "gic_write (D_ITARGETSR k) v g = g\<lparr>target := (\<lambda>n. if n div 4 = k \<and> 32 \<le> n then unpack v (n mod 4) else target g n)\<rparr>"
| "gic_write (D_ICFGR k) v g = g\<lparr>config := (\<lambda>n. if n div 16 = k \<and> 16 \<le> n then unpack v (n mod 16) else config g n)\<rparr>"
| "gic_write D_SGIR v g = g\<lparr>sgis := sgis g @ [v]\<rparr>"
| "gic_write (D_CPENDSGIR k) v g = g\<lparr>pend := (\<lambda>n. pend g n \<and> \<not> (n < 16 \<and> n div 4 = k \<and> (unpack v (n mod 4) :: u8) \<noteq> 0))\<rparr>"
| "gic_write C_CTLR v g = g\<lparr>cctlr := v\<rparr>"
| "gic_write C_PMR v g = g\<lparr>pmr := v AND ucast PRIO_MASK\<rparr>"
| "gic_write C_BPR v g = g\<lparr>bpr := v\<rparr>"
| "gic_write C_IAR v g = g"
| "gic_write C_EOIR v g = g\<lparr>ended := ended g @ [v]\<rparr>"
| "gic_write (C_APR k) v g = g\<lparr>apr := (apr g)(k := v)\<rparr>"

definition gic_wf :: "gic_state \<Rightarrow> bool" where
  "gic_wf g \<longleftrightarrow> (\<forall>n. prio g n AND PRIO_MASK = prio g n)"

locale gic =
  fixes h :: "'d platform"
    and view :: "'d \<Rightarrow> gic_state"
  assumes rd_gic: "gic_exists r \<Longrightarrow> fst (rd32 h (gic_addr r) d) = fst (gic_read r (view d))"
    and rd_gic_view: "gic_exists r \<Longrightarrow> view (snd (rd32 h (gic_addr r) d)) = snd (gic_read r (view d))"
    and wr_gic: "gic_exists r \<Longrightarrow> view (wr32 h v (gic_addr r) d) = gic_write r v (view d)"
begin

lemma get_gic [simp]:
  "gic_exists r \<Longrightarrow> fst (gic_get h r s) = fst (gic_read r (view (dev s)))"
  "gic_exists r \<Longrightarrow> view (dev (snd (gic_get h r s))) = snd (gic_read r (view (dev s)))"
  by (simp_all add: gic_get_def readl_def rd_gic rd_gic_view split_def Let_def)

lemma put_gic [simp]: "gic_exists r \<Longrightarrow> view (dev (gic_put h r v s)) = gic_write r v (view (dev s))"
  by (simp add: gic_put_def writel_def wr_gic)

end

subsection \<open>Fields of a register\<close>

lemma bit_pack_bits: "bit (pack_bits f k) b \<longleftrightarrow> b < 32 \<and> f (32 * k + b)"
  by (auto simp: pack_bits_def bit_horner_sum_bit_iff)

lemma bit_pack:
  "bit (pack (f :: nat \<Rightarrow> 'a::len word) k) b \<longleftrightarrow>
     b < 32 \<and> bit (f (32 div LENGTH('a) * k + b div LENGTH('a))) (b mod LENGTH('a))"
  by (auto simp: pack_def bit_horner_sum_bit_iff)

lemma bit_unpack: "bit (unpack v j :: 'a::len word) b \<longleftrightarrow> b < LENGTH('a) \<and> bit v (j * LENGTH('a) + b)"
  by (auto simp: unpack_def bit_simps)

lemma unpack_pack:
  fixes f :: "nat \<Rightarrow> 'a::len word"
  assumes "LENGTH('a) * n = 32" and "j < n"
  shows "unpack (pack f k) j = f (n * k + j)"
proof (rule bit_word_eqI)
  fix b assume b: "b < LENGTH('a)"
  have n: "32 div LENGTH('a) = n" using assms(1) by (metis len_gt_0 nonzero_mult_div_cancel_left not_gr_zero)
  have "LENGTH('a) * Suc j \<le> LENGTH('a) * n" using assms(2) by (intro mult_le_mono2) simp
  then have "j * LENGTH('a) + b < 32" using assms(1) b by (simp add: mult.commute)
  moreover have "(j * LENGTH('a) + b) div LENGTH('a) = j" "(j * LENGTH('a) + b) mod LENGTH('a) = b"
    using b by (simp_all add: div_add1_eq)
  ultimately show "bit (unpack (pack f k) j :: 'a word) b \<longleftrightarrow> bit (f (n * k + j)) b"
    using b by (simp add: bit_unpack bit_pack n)
qed

text \<open>Writing a field of \<open>w\<close> bits leaves the others.\<close>

lemma unpack_put:
  fixes x v :: u32
  assumes "take_bit LENGTH('a) x = x" and "LENGTH('a) * n = 32" and "j < n" and "i < n"
  shows "(unpack ((v AND NOT (push_bit (i * LENGTH('a)) (mask LENGTH('a)))) OR push_bit (i * LENGTH('a)) x) j :: 'a::len word)
    = (if j = i then ucast x else unpack v j)"
proof (rule bit_word_eqI)
  fix b assume b: "b < LENGTH('a)"
  let ?w = "LENGTH('a)"
  have le: "?w * Suc j \<le> 32" "?w * Suc i \<le> 32"
    using assms(2-4) mult_le_mono2 [of "Suc j" n ?w] mult_le_mono2 [of "Suc i" n ?w] by simp_all
  have x: "bit x m \<Longrightarrow> m < ?w" for m using assms(1) by (metis bit_take_bit_iff)
  show "bit (unpack ((v AND NOT (push_bit (i * ?w) (mask ?w))) OR push_bit (i * ?w) x) j :: 'a word) b
      \<longleftrightarrow> bit (if j = i then ucast x else unpack v j :: 'a word) b"
  proof (cases "j = i")
    case True
    moreover have "i * ?w + b < 32" using b le by (simp add: mult.commute)
    ultimately show ?thesis using b by (auto simp: bit_unpack bit_simps)
  next
    case False
    then consider "j < i" | "i < j" by linarith
    then have apart: "\<not> (i * ?w \<le> j * ?w + b \<and> j * ?w + b - i * ?w < ?w)"
    proof cases
      case 1
      then have "?w * Suc j \<le> ?w * i" by (intro mult_le_mono2) simp
      then show ?thesis using b by (simp add: mult.commute)
    next
      case 2
      then have "?w * Suc i \<le> ?w * j" by (intro mult_le_mono2) simp
      then show ?thesis using b by (simp add: mult.commute)
    qed
    moreover have "j * ?w + b < 32" using b le by (simp add: mult.commute)
    ultimately show ?thesis using False b x by (auto simp: bit_unpack bit_simps)
  qed
qed

lemma put_byte_unpack:
  assumes "i < 4" and "j < 4"
  shows "(unpack (put_byte i x v) j :: u8) = (if j = i then ucast x else unpack v j)"
proof -
  have m: "(0xFF :: u32) = mask 8" by (simp add: mask_eq_exp_minus_1)
  have "(ucast (take_bit 8 x) :: u8) = ucast x" by (rule bit_word_eqI) (simp add: bit_simps)
  then show ?thesis
    using unpack_put [where 'a = 8, of "take_bit 8 x" 4 j i v] assms
    unfolding put_byte_def m by (simp add: take_bit_eq_mask)
qed

lemma unpack_pack8: "j < 4 \<Longrightarrow> unpack (pack f k) j = (f (4 * k + j) :: u8)"
  using unpack_pack [where 'a = 8, of 4 j f k] by simp

lemma unpack_pack2: "j < 16 \<Longrightarrow> unpack (pack f k) j = (f (16 * k + j) :: 2 word)"
  using unpack_pack [where 'a = 2, of 16 j f k] by simp

lemma irq_bit_clears: "clear_bits (irq_bit i) (i div 32) f = f(i := False)"
proof
  fix n
  have "n div 32 = i div 32 \<and> n mod 32 = i mod 32 \<longleftrightarrow> n = i" by (metis div_mult_mod_eq)
  then show "clear_bits (irq_bit i) (i div 32) f n = (f(i := False)) n"
    by (auto simp: clear_bits_def irq_bit_def bit_simps)
qed

lemma irq_bit_sets: "set_bits (irq_bit i) (i div 32) f = f(i := True)"
proof
  fix n
  have "n div 32 = i div 32 \<and> n mod 32 = i mod 32 \<longleftrightarrow> n = i" by (metis div_mult_mod_eq)
  then show "set_bits (irq_bit i) (i div 32) f n = (f(i := True)) n"
    by (auto simp: set_bits_def irq_bit_def bit_simps)
qed

subsection \<open>The access functions on the controller\<close>

lemma number_parts: "(n :: nat) div m = i div m \<and> n mod m = i mod m \<longleftrightarrow> n = i"
  by (metis div_mult_mod_eq)

lemma prio_put:
  assumes "gic_wf g"
  shows "gic_write (D_IPRIORITYR (i div 4)) (put_byte (i mod 4) x (pack (prio g) (i div 4))) g =
    g\<lparr>prio := (prio g)(i := ucast x AND PRIO_MASK)\<rparr>"
proof -
  have "(if n div 4 = i div 4 then unpack (put_byte (i mod 4) x (pack (prio g) (i div 4))) (n mod 4) AND PRIO_MASK else prio g n)
      = ((prio g)(i := ucast x AND PRIO_MASK)) n" for n
  proof (cases "n div 4 = i div 4")
    case True
    have "4 * (i div 4) + n mod 4 = n" using True by (metis mult_div_mod_eq)
    moreover have "n mod 4 = i mod 4 \<longleftrightarrow> n = i" using True number_parts [of n 4 i] by auto
    ultimately show ?thesis
      using True assms by (auto simp: put_byte_unpack unpack_pack8 gic_wf_def)
  next
    case False
    then show ?thesis by auto
  qed
  then show ?thesis by (simp only: gic_write.simps)
qed

lemma target_put:
  "gic_write (D_ITARGETSR (i div 4)) (put_byte (i mod 4) x (pack (target g) (i div 4))) g =
    g\<lparr>target := (if i < 32 then target g else (target g)(i := ucast x))\<rparr>"
proof -
  have "(if n div 4 = i div 4 \<and> 32 \<le> n then unpack (put_byte (i mod 4) x (pack (target g) (i div 4))) (n mod 4) else target g n)
      = (if i < 32 then target g else (target g)(i := ucast x)) n" for n
  proof (cases "n div 4 = i div 4")
    case True
    have "4 * (i div 4) + n mod 4 = n" using True by (metis mult_div_mod_eq)
    moreover have "n mod 4 = i mod 4 \<longleftrightarrow> n = i" using True number_parts [of n 4 i] by auto
    ultimately show ?thesis
      using True by (auto simp: put_byte_unpack unpack_pack8)
  next
    case False
    then show ?thesis by auto
  qed
  then show ?thesis by (simp only: gic_write.simps)
qed

lemma config_put:
  assumes "x \<le> 3"
  shows "gic_write (D_ICFGR (i div 16)) ((pack (config g) (i div 16) AND NOT (push_bit (i mod 16 * 2) 3)) OR push_bit (i mod 16 * 2) x) g =
    g\<lparr>config := (if i < 16 then config g else (config g)(i := ucast x))\<rparr>"
proof -
  have x: "take_bit 2 x = x"
    using assms by (simp add: take_bit_eq_mod word_le_nat_alt word_less_nat_alt mod_word_less)
  have m: "(3 :: u32) = mask 2" by (simp add: mask_eq_exp_minus_1)
  have u: "(unpack ((v AND NOT (push_bit (i mod 16 * 2) 3)) OR push_bit (i mod 16 * 2) x) j :: 2 word)
      = (if j = i mod 16 then ucast x else unpack v j)" if "j < 16" for j v
    using unpack_put [where 'a = 2, of x 16 j "i mod 16" v] x that unfolding m by simp
  have "(if n div 16 = i div 16 \<and> 16 \<le> n
      then unpack ((pack (config g) (i div 16) AND NOT (push_bit (i mod 16 * 2) 3)) OR push_bit (i mod 16 * 2) x) (n mod 16) else config g n)
      = (if i < 16 then config g else (config g)(i := ucast x)) n" for n
  proof (cases "n div 16 = i div 16")
    case True
    have "16 * (i div 16) + n mod 16 = n" using True by (metis mult_div_mod_eq)
    moreover have "n mod 16 = i mod 16 \<longleftrightarrow> n = i" using True number_parts [of n 16 i] by auto
    moreover have "16 \<le> n \<longleftrightarrow> 16 \<le> i" using True by (metis div_less_iff_less_mult leI not_le numeral_Bit0_eq_double div_greater_zero_iff zero_less_numeral)
    ultimately show ?thesis using True by (auto simp: u unpack_pack2)
  next
    case False
    then show ?thesis by auto
  qed
  then show ?thesis by (simp only: gic_write.simps)
qed

lemma spi_clears:
  "(\<lambda>n. if n < 16 then f n else clear_bits (irq_bit i) (i div 32) f n) = (if i < 16 then f else f(i := False))"
  by (simp only: irq_bit_clears) auto

context gic
begin

lemma view_disable:
  "i < 1024 \<Longrightarrow> view (dev (GIC_DisableIRQ h i s)) =
     (view (dev s))\<lparr>enab := (if i < 16 then enab (view (dev s)) else (enab (view (dev s)))(i := False))\<rparr>"
  by (simp add: GIC_DisableIRQ_def spi_clears)

lemma view_enable:
  "i < 1024 \<Longrightarrow> view (dev (GIC_EnableIRQ h i s)) = (view (dev s))\<lparr>enab := (enab (view (dev s)))(i := True)\<rparr>"
  by (simp add: GIC_EnableIRQ_def irq_bit_sets)

lemma view_priority:
  "i < 1024 \<Longrightarrow> gic_wf (view (dev s)) \<Longrightarrow> view (dev (GIC_SetPriority h i x s)) =
     (view (dev s))\<lparr>prio := (prio (view (dev s)))(i := ucast x AND PRIO_MASK)\<rparr>"
  using prio_put [of "view (dev s)" i x]
  by (simp add: GIC_SetPriority_def split_def Let_def less_mult_imp_div_less del: gic_write.simps)

lemma fst_priority:
  "i < 1024 \<Longrightarrow> fst (GIC_GetPriority h i s) = ucast (prio (view (dev s)) i)"
  "i < 1024 \<Longrightarrow> view (dev (snd (GIC_GetPriority h i s))) = view (dev s)"
proof -
  assume i: "i < 1024"
  have m: "(0xFF :: u32) = mask 8" by (simp add: mask_eq_exp_minus_1)
  have "(ucast (ucast w :: u8) :: u32) = w AND 0xFF" for w :: u32
    unfolding m by (rule bit_word_eqI) (auto simp: bit_simps)
  then have "(ucast (unpack v j :: u8) :: u32) = drop_bit (j * 8) v AND 0xFF" for v j
    by (simp add: unpack_def)
  from this [symmetric] show "fst (GIC_GetPriority h i s) = ucast (prio (view (dev s)) i)"
    using i by (simp add: GIC_GetPriority_def split_def Let_def less_mult_imp_div_less unpack_pack8)
  show "view (dev (snd (GIC_GetPriority h i s))) = view (dev s)"
    using i by (simp add: GIC_GetPriority_def split_def Let_def less_mult_imp_div_less)
qed

lemma view_target:
  "i < 1024 \<Longrightarrow> view (dev (GIC_SetTarget h i x s)) =
     (view (dev s))\<lparr>target := (if i < 32 then target (view (dev s)) else (target (view (dev s)))(i := ucast x))\<rparr>"
  using target_put [of i x "view (dev s)"]
  by (simp add: GIC_SetTarget_def split_def Let_def less_mult_imp_div_less del: gic_write.simps)

lemma view_config:
  "i < 1024 \<Longrightarrow> x \<le> 3 \<Longrightarrow> view (dev (GIC_SetConfiguration h i x s)) =
     (view (dev s))\<lparr>config := (if i < 16 then config (view (dev s)) else (config (view (dev s)))(i := ucast x))\<rparr>"
  using config_put [of x i "view (dev s)"]
  by (simp add: GIC_SetConfiguration_def split_def Let_def less_mult_imp_div_less del: gic_write.simps)

lemma view_clear_pending:
  "16 \<le> i \<Longrightarrow> i < 1024 \<Longrightarrow> view (dev (GIC_ClearPendingIRQ h i s)) = (view (dev s))\<lparr>pend := (pend (view (dev s)))(i := False)\<rparr>"
  by (simp add: GIC_ClearPendingIRQ_def spi_clears)

lemma view_clear_active:
  "16 \<le> i \<Longrightarrow> i < 1024 \<Longrightarrow> view (dev (GIC_ClearActiveIRQ h i s)) = (view (dev s))\<lparr>act := (act (view (dev s)))(i := False)\<rparr>"
  by (simp add: GIC_ClearActiveIRQ_def irq_bit_clears)

lemma irq_status:
  "i < 1024 \<Longrightarrow> fst (GIC_GetIRQStatus h i s) = (if act (view (dev s)) i then 2 else 0) OR (if pend (view (dev s)) i then 1 else 0)"
  "i < 1024 \<Longrightarrow> view (dev (snd (GIC_GetIRQStatus h i s))) = view (dev s)"
proof -
  assume i: "i < 1024"
  have d: "i div 32 < 32" using i by simp
  have k: "drop_bit (i mod 32) (pack_bits f (i div 32)) AND 1 = (if f i then 1 else 0)" for f
  proof -
    have "bit (pack_bits f (i div 32)) (i mod 32) \<longleftrightarrow> f i" by (simp add: bit_pack_bits)
    then show ?thesis by (simp add: and_one_eq mod_2_eq_odd bit_iff_odd_drop_bit)
  qed
  show "fst (GIC_GetIRQStatus h i s) = (if act (view (dev s)) i then 2 else 0) OR (if pend (view (dev s)) i then 1 else 0)"
    by (simp only: GIC_GetIRQStatus_def split_def Let_def fst_conv snd_conv get_gic gic_exists.simps gic_read.simps d k) auto
  show "view (dev (snd (GIC_GetIRQStatus h i s))) = view (dev s)"
    using i by (simp add: GIC_GetIRQStatus_def split_def Let_def)
qed

lemma view_clear_irq:
  assumes "32 \<le> i" and "i < 1024"
  shows "view (dev (clear_irq h i s)) = (view (dev s))\<lparr>act := (act (view (dev s)))(i := False), pend := (pend (view (dev s)))(i := False)\<rparr>"
  using assms
  by (simp add: clear_irq_def split_def Let_def irq_status view_clear_active view_clear_pending fun_upd_idem)

text \<open>A loop over interrupts, on the controller.\<close>

lemma view_fold:
  assumes "\<And>i s. i \<in> set xs \<Longrightarrow> gic_wf (view (dev s)) \<Longrightarrow>
      view (dev (F i s)) = f i (view (dev s)) \<and> gic_wf (f i (view (dev s)))"
    and "gic_wf (view (dev s))"
  shows "view (dev (fold F xs s)) = fold f xs (view (dev s))"
  using assms
proof (induction xs arbitrary: s)
  case (Cons x xs)
  have "view (dev (F x s)) = f x (view (dev s)) \<and> gic_wf (f x (view (dev s)))" using Cons.prems by simp
  then show ?case using Cons.IH [of "F x s"] Cons.prems(1) by simp
qed simp

end

subsection \<open>The loops over the interrupts\<close>

text \<open>What the rounds of the loops do to the controller, and all rounds together.\<close>

definition reset_spi :: "u8 \<Rightarrow> nat \<Rightarrow> gic_state \<Rightarrow> gic_state" where
  "reset_spi p i g = g\<lparr>enab := (enab g)(i := False), config := (config g)(i := 0), prio := (prio g)(i := p),
     target := (target g)(i := 1)\<rparr>"

definition reset_ppi :: "u8 \<Rightarrow> nat \<Rightarrow> gic_state \<Rightarrow> gic_state" where
  "reset_ppi p i g = g\<lparr>config := (if i < 16 then config g else (config g)(i := 0)),
     enab := (if i < 16 then enab g else (enab g)(i := False)), prio := (prio g)(i := p)\<rparr>"

definition forget_irq :: "nat \<Rightarrow> gic_state \<Rightarrow> gic_state" where
  "forget_irq i g = g\<lparr>act := (act g)(i := False), pend := (pend g)(i := False)\<rparr>"

definition on_irqs :: "nat set \<Rightarrow> 'a \<Rightarrow> (nat \<Rightarrow> 'a) \<Rightarrow> nat \<Rightarrow> 'a" where
  "on_irqs A x f n = (if n \<in> A then x else f n)"

lemma on_irqs_insert: "on_irqs A x (f(i := x)) = on_irqs (insert i A) x f"
  by (auto simp: on_irqs_def)

lemma on_irqs_empty [simp]: "on_irqs {} x f = f"
  by (simp add: on_irqs_def fun_eq_iff)

lemma fold_reset_spi:
  "fold (reset_spi p) xs g = g\<lparr>enab := on_irqs (set xs) False (enab g), config := on_irqs (set xs) 0 (config g),
     prio := on_irqs (set xs) p (prio g), target := on_irqs (set xs) 1 (target g)\<rparr>"
  by (induction xs arbitrary: g) (simp_all add: reset_spi_def on_irqs_insert)

lemma fold_forget_irq:
  "fold forget_irq xs g = g\<lparr>act := on_irqs (set xs) False (act g), pend := on_irqs (set xs) False (pend g)\<rparr>"
  by (induction xs arbitrary: g) (simp_all add: forget_irq_def on_irqs_insert)

lemma fold_reset_ppi:
  "fold (reset_ppi p) xs g = g\<lparr>enab := on_irqs {i \<in> set xs. 16 \<le> i} False (enab g),
     config := on_irqs {i \<in> set xs. 16 \<le> i} 0 (config g), prio := on_irqs (set xs) p (prio g)\<rparr>"
proof (induction xs arbitrary: g)
  case (Cons x xs)
  have "{i \<in> set (x # xs). 16 \<le> i} = (if x < 16 then {i \<in> set xs. 16 \<le> i} else insert x {i \<in> set xs. 16 \<le> i})" by auto
  then show ?case unfolding fold_Cons comp_def Cons.IH by (simp add: reset_ppi_def on_irqs_insert)
qed simp

lemma num_irqs_bounds: "num_irqs v = of_nat (32 * (unat (v AND 0x1F) + 1))" "unat (num_irqs v) = 32 * (unat (v AND 0x1F) + 1)"
  "unat (v AND 0x1F) < 32"
proof -
  have m: "(0x1F :: u32) = mask 5" by (simp add: mask_eq_exp_minus_1)
  have "v AND 0x1F < 2 ^ 5" unfolding m by (rule and_mask_less_size) (simp add: word_size)
  then show b: "unat (v AND 0x1F) < 32" by (simp add: word_less_nat_alt)
  show n: "num_irqs v = of_nat (32 * (unat (v AND 0x1F) + 1))" by (simp add: num_irqs_def)
  show "unat (num_irqs v) = 32 * (unat (v AND 0x1F) + 1)"
    unfolding n using b by (simp add: unsigned_of_nat take_bit_nat_eq_self del: of_nat_mult of_nat_add of_nat_Suc)
qed

lemma unat_num_irqs_le: "unat (num_irqs v) \<le> 1024"
  using num_irqs_bounds(2,3) [of v] by simp

text \<open>Acknowledging and ending until a number is none.\<close>

lemma irq_number_sle: "x < num_irqs v \<Longrightarrow> 0 \<le>s x"
proof -
  assume "x < num_irqs v"
  then have "unat x < 0x80000000" using unat_num_irqs_le [of v] by (simp add: word_less_nat_alt)
  then have "x < 0x80000000" by (simp add: word_less_nat_alt)
  then show ?thesis by (simp add: word_sle_eq sint_small)
qed

lemma set_bit_0: "(x AND - 2) OR 1 = x OR (1 :: u32)"
proof -
  have "(x AND NOT 1) OR 1 = x OR (1 :: u32)" by (rule bit_word_eqI) (auto simp: bit_simps)
  then show ?thesis by simp
qed

lemma on_irqs_wf: "gic_wf g \<Longrightarrow> x AND PRIO_MASK = x \<Longrightarrow> gic_wf (g\<lparr>prio := on_irqs A x (prio g)\<rparr>)"
  by (simp add: gic_wf_def on_irqs_def)

lemma reset_wf [simp]:
  "gic_wf g \<Longrightarrow> x AND PRIO_MASK = x \<Longrightarrow> gic_wf (reset_spi x i g)"
  "gic_wf g \<Longrightarrow> x AND PRIO_MASK = x \<Longrightarrow> gic_wf (reset_ppi x i g)"
  "gic_wf g \<Longrightarrow> gic_wf (forget_irq i g)"
  by (simp_all add: gic_wf_def reset_spi_def reset_ppi_def forget_irq_def)

definition DEFAULT_PRIO :: u8 where "DEFAULT_PRIO = 0x78"

lemma priority_values:
  "ucast (0xFF :: u32) AND PRIO_MASK = (0xF8 :: u8)" "(ucast (0xF8 :: u8) :: u32) div 2 = 0x7C"
  "ucast (0x7C :: u32) AND PRIO_MASK = DEFAULT_PRIO" "DEFAULT_PRIO AND PRIO_MASK = DEFAULT_PRIO"
  "(0xF8 :: u8) AND PRIO_MASK = 0xF8" "(0xFF :: u8) AND PRIO_MASK = 0xF8" "(0x7C :: u8) AND PRIO_MASK = DEFAULT_PRIO"
  by (simp_all add: PRIO_MASK_def DEFAULT_PRIO_def)

context gic
begin

lemma view_ctlr:
  "view (dev (GIC_DisableDistributor h s)) = (view (dev s))\<lparr>dctlr := dctlr (view (dev s)) AND NOT 1\<rparr>"
  "view (dev (GIC_EnableDistributor h s)) = (view (dev s))\<lparr>dctlr := dctlr (view (dev s)) OR 1\<rparr>"
  "view (dev (GIC_DisableInterface h s)) = (view (dev s))\<lparr>cctlr := cctlr (view (dev s)) AND NOT 1\<rparr>"
  "view (dev (GIC_EnableInterface h s)) = (view (dev s))\<lparr>cctlr := cctlr (view (dev s)) OR 1\<rparr>"
  by (simp_all add: GIC_DisableDistributor_def GIC_EnableDistributor_def GIC_DisableInterface_def GIC_EnableInterface_def
      split_def Let_def)

lemma view_info:
  "fst (GIC_DistributorInfo h s) = typer (view (dev s))" "view (dev (snd (GIC_DistributorInfo h s))) = view (dev s)"
  by (simp_all add: GIC_DistributorInfo_def)

lemma view_dist_init:
  assumes "gic_wf (view (dev s))"
  shows "view (dev (GIC_DistInit h s)) =
    (let g = view (dev s); spis = {32..<unat (num_irqs (typer g))}
     in g\<lparr>dctlr := dctlr g OR 1, enab := on_irqs spis False (enab g), config := on_irqs spis 0 (config g),
          prio := on_irqs spis DEFAULT_PRIO ((prio g)(0 := 0xF8)), target := on_irqs spis 1 (target g)\<rparr>)"
proof -
  let ?F = "\<lambda>i s. GIC_SetTarget h i 1 (GIC_SetPriority h i (0xF8 div 2) (GIC_SetConfiguration h i 0 (GIC_DisableIRQ h i s)))"
  let ?n = "unat (num_irqs (typer (view (dev s))))"
  define s1 where "s1 = GIC_SetPriority h 0 0xFF (snd (GIC_DistributorInfo h (GIC_DisableDistributor h s)))"
  have v1: "view (dev s1) = (view (dev s))\<lparr>dctlr := dctlr (view (dev s)) AND NOT 1, prio := (prio (view (dev s)))(0 := 0xF8)\<rparr>"
    using assms by (simp add: s1_def view_priority view_info view_ctlr priority_values gic_wf_def)
  have wf1: "gic_wf (view (dev s1))" using assms by (simp add: v1 gic_wf_def priority_values)
  have step: "view (dev (?F i t)) = reset_spi DEFAULT_PRIO i (view (dev t)) \<and> gic_wf (reset_spi DEFAULT_PRIO i (view (dev t)))"
    if "i \<in> set [32..<?n]" "gic_wf (view (dev t))" for i t
  proof -
    have i: "32 \<le> i" "i < 1024" using that(1) unat_num_irqs_le [of "typer (view (dev s))"] by auto
    then show ?thesis
      using that(2) by (simp add: view_target view_priority view_config view_disable gic_wf_def reset_spi_def priority_values)
  qed
  have "GIC_DistInit h s = GIC_EnableDistributor h (fold ?F [32..<?n] (snd (GIC_GetPriority h 0 s1)))"
    using wf1 by (simp add: GIC_DistInit_def split_def Let_def view_info view_ctlr fst_priority v1 s1_def [symmetric])
  moreover have "view (dev (fold ?F [32..<?n] (snd (GIC_GetPriority h 0 s1)))) = fold (reset_spi DEFAULT_PRIO) [32..<?n] (view (dev s1))"
    using view_fold [of "[32..<?n]" ?F "reset_spi DEFAULT_PRIO" "snd (GIC_GetPriority h 0 s1)"] step wf1 by (simp add: fst_priority)
  ultimately show ?thesis
    by (simp add: set_bit_0 view_ctlr fold_reset_spi v1 Let_def del: upt_rec_numeral)
qed

lemma view_cpu_init:
  assumes "gic_wf (view (dev s))"
  shows "view (dev (GIC_CPUInterfaceInit h s)) =
    (let g = view (dev s)
     in g\<lparr>cctlr := cctlr g OR 1, enab := on_irqs {16..<32} False (enab g), config := on_irqs {16..<32} 0 (config g),
          prio := on_irqs {0..<32} DEFAULT_PRIO (prio g), bpr := 0, pmr := 0xF8\<rparr>)"
proof -
  let ?F = "\<lambda>i s. GIC_SetPriority h i (0xF8 div 2) (GIC_DisableIRQ h i (if 15 < i then GIC_SetConfiguration h i 0 s else s))"
  define s1 where "s1 = GIC_SetPriority h 0 0xFF (GIC_DisableInterface h s)"
  have v1: "view (dev s1) = (view (dev s))\<lparr>cctlr := cctlr (view (dev s)) AND NOT 1, prio := (prio (view (dev s)))(0 := 0xF8)\<rparr>"
    using assms by (simp add: s1_def view_priority view_ctlr priority_values gic_wf_def)
  have wf1: "gic_wf (view (dev s1))" using assms by (simp add: v1 gic_wf_def priority_values)
  have step: "view (dev (?F i s)) = reset_ppi DEFAULT_PRIO i (view (dev s)) \<and> gic_wf (reset_ppi DEFAULT_PRIO i (view (dev s)))"
    if "i \<in> set [0..<32]" "gic_wf (view (dev s))" for i s
    using that by (auto simp add: view_priority view_config view_disable gic_wf_def reset_ppi_def priority_values)
  have "GIC_CPUInterfaceInit h s =
      GIC_SetInterfacePriorityMask h 0xFF (GIC_SetBinaryPoint h 0 (GIC_EnableInterface h (fold ?F [0..<32] (snd (GIC_GetPriority h 0 s1)))))"
    using wf1 by (simp add: GIC_CPUInterfaceInit_def split_def Let_def fst_priority v1 s1_def [symmetric] del: upt_rec_numeral)
  moreover have "view (dev (fold ?F [0..<32] (snd (GIC_GetPriority h 0 s1)))) = fold (reset_ppi DEFAULT_PRIO) [0..<32] (view (dev s1))"
    using view_fold [of "[0..<32]" ?F "reset_ppi DEFAULT_PRIO" "snd (GIC_GetPriority h 0 s1)"] step wf1
    by (simp add: fst_priority del: upt_rec_numeral)
  moreover have "{i. i < 32 \<and> 16 \<le> i} = {16..<32::nat}" by auto
  moreover have "on_irqs {0..<32} DEFAULT_PRIO ((prio g)(0 := 0xF8)) = on_irqs {0..<32} DEFAULT_PRIO (prio g)" for g :: gic_state
    by (auto simp: on_irqs_def)
  ultimately show ?thesis
    by (simp add: set_bit_0 view_ctlr fold_reset_ppi v1 Let_def GIC_SetInterfacePriorityMask_def GIC_SetBinaryPoint_def PRIO_MASK_def
        del: upt_rec_numeral)
qed

text \<open>The rounds of the acknowledge loop.\<close>

lemma drain_round_cases:
  "\<exists>s'. drain_round h (num_irqs v) s = Some (if fst (gic_read C_IAR (view (dev s))) < num_irqs v then Inr s' else Inl s') \<and>
     view (dev s') = (let (x, g) = gic_read C_IAR (view (dev s)) in if x < num_irqs v then g\<lparr>ended := ended g @ [x]\<rparr> else g)"
  using irq_number_sle [of "fst (gic_read C_IAR (view (dev s)))" v]
  by (auto simp: drain_round_def GIC_AcknowledgePending_def GIC_EndInterrupt_def split_def Let_def simp del: gic_read.simps)

lemma drain_loop:
  assumes "unat (num_irqs v) < 1024"
  shows "\<exists>s'. loop (drain_round h (num_irqs v)) s = Some s' \<and>
    view (dev s') = (let g = view (dev s)
      in g\<lparr>acks := tl (dropWhile (\<lambda>x. x < num_irqs v) (acks g)), ended := ended g @ takeWhile (\<lambda>x. x < num_irqs v) (acks g)\<rparr>)"
proof (induction "acks (view (dev s))" arbitrary: s)
  case Nil
  have "\<not> SPURIOUS < num_irqs v" using assms by (simp add: SPURIOUS_def word_less_nat_alt)
  then obtain s' where "drain_round h (num_irqs v) s = Some (Inl s')" "view (dev s') = view (dev s)"
    using drain_round_cases [of v s] Nil [symmetric] by auto
  then show ?case using Nil [symmetric] by (auto simp: Let_def)
next
  case (Cons x xs)
  note a = Cons.hyps(2) [symmetric]
  show ?case
  proof (cases "x < num_irqs v")
    case True
    then obtain s1 where s1: "drain_round h (num_irqs v) s = Some (Inr s1)"
        "view (dev s1) = (view (dev s))\<lparr>acks := xs, ended := ended (view (dev s)) @ [x]\<rparr>"
      using drain_round_cases [of v s] a by auto
    have "xs = acks (view (dev s1))" by (simp add: s1(2))
    from Cons.hyps(1) [OF this] show ?thesis using True a by (auto simp: loop_Inr [of _ _ s1] s1 Let_def)
  next
    case False
    then obtain s1 where "drain_round h (num_irqs v) s = Some (Inl s1)" "view (dev s1) = (view (dev s))\<lparr>acks := xs\<rparr>"
      using drain_round_cases [of v s] a by auto
    then show ?thesis using False a by (auto simp: Let_def)
  qed
qed

text \<open>With 1024 interrupts, the number that says that none is pending counts as one.\<close>

lemma drain_loop_endless:
  assumes "unat (num_irqs v) = 1024" and "\<forall>x \<in> set (acks (view (dev s))). x < 1024"
  shows "loop (drain_round h (num_irqs v)) s = None"
proof (rule loop_diverges [where I = "\<lambda>s :: 'd sys. \<forall>x \<in> set (acks (view (dev s))). x < 1024"])
  have n: "num_irqs v = 1024" using assms(1) by (simp add: word_unat_eq_iff)
  fix s :: "'d sys" assume I: "\<forall>x \<in> set (acks (view (dev s))). x < 1024"
  then have x: "fst (gic_read C_IAR (view (dev s))) < 1024" by (auto simp: SPURIOUS_def split: list.splits)
  obtain s' where "drain_round h (num_irqs v) s = Some (Inr s')"
      "view (dev s') = (let (x, g) = gic_read C_IAR (view (dev s)) in if x < num_irqs v then g\<lparr>ended := ended g @ [x]\<rparr> else g)"
    using drain_round_cases [of v s] x unfolding n by auto
  then show "\<exists>s'. drain_round h (num_irqs v) s = Some (Inr s') \<and> (\<forall>x \<in> set (acks (view (dev s'))). x < 1024)"
    using I by (auto simp: Let_def split_def split: list.splits)
qed (rule assms(2))

lemma view_clear_irqs:
  assumes "n \<le> 1024" and "gic_wf (view (dev s))"
  shows "view (dev (fold (clear_irq h) [32..<n] s)) =
    (view (dev s))\<lparr>act := on_irqs {32..<n} False (act (view (dev s))), pend := on_irqs {32..<n} False (pend (view (dev s)))\<rparr>"
  using view_fold [of "[32..<n]" "clear_irq h" forget_irq s] assms
  by (simp add: view_clear_irq forget_irq_def gic_wf_def fold_forget_irq del: upt_rec_numeral)

lemma view_enable_gic:
  assumes "gic_wf (view (dev s))"
  shows "view (dev (GIC_Enable h s)) =
    (let g = view (dev s); n = unat (num_irqs (typer g))
     in g\<lparr>dctlr := dctlr g OR 1, cctlr := cctlr g OR 1, enab := on_irqs {16..<n} False (enab g),
          config := on_irqs {16..<n} 0 (config g), prio := on_irqs {0..<n} DEFAULT_PRIO (prio g),
          target := on_irqs {32..<n} 1 (target g), bpr := 0, pmr := 0xF8\<rparr>)"
proof -
  let ?n = "unat (num_irqs (typer (view (dev s))))"
  have n: "32 \<le> ?n" unfolding num_irqs_bounds(2) by simp
  have "gic_wf (view (dev (GIC_DistInit h s)))"
    using assms by (simp add: view_dist_init Let_def gic_wf_def on_irqs_def priority_values)
  moreover have "on_irqs {16..<32} x (on_irqs {32..<?n} x f) = on_irqs {16..<?n} x f" for x :: bool and f
    using n by (auto simp: fun_eq_iff on_irqs_def)
  moreover have "on_irqs {16..<32} x (on_irqs {32..<?n} x f) = on_irqs {16..<?n} x f" for x :: "2 word" and f
    using n by (auto simp: fun_eq_iff on_irqs_def)
  moreover have "on_irqs {0..<32} x (on_irqs {32..<?n} x (f(0 := y))) = on_irqs {0..<?n} x f" for x y :: u8 and f
    using n by (auto simp: fun_eq_iff on_irqs_def)
  ultimately show ?thesis
    using assms by (simp add: GIC_Enable_def view_cpu_init view_dist_init Let_def)
qed

lemma irq_initialize:
  assumes "gic_wf (view (dev s))" and "unat (num_irqs (typer (view (dev s)))) < 1024"
  shows "\<exists>s'. IRQ_Initialize h s = Some s' \<and> view (dev s') =
    (let g = view (dev s); m = num_irqs (typer g); n = unat m
     in g\<lparr>dctlr := dctlr g OR 1, cctlr := cctlr g OR 1, enab := on_irqs {16..<n} False (enab g),
          config := on_irqs {16..<n} 0 (config g), prio := on_irqs {0..<n} DEFAULT_PRIO (prio g),
          target := on_irqs {32..<n} 1 (target g), bpr := 4, pmr := 0xF8,
          act := on_irqs {32..<n} False (act g), pend := on_irqs {32..<n} False (pend g), apr := (apr g)(0 := 0),
          acks := tl (dropWhile (\<lambda>x. x < m) (acks g)), ended := ended g @ takeWhile (\<lambda>x. x < m) (acks g)\<rparr>)"
proof -
  define s1 where "s1 = snd (GIC_DistributorInfo h (GIC_Enable h s))"
  have "view (dev s1) = view (dev (GIC_Enable h s))" by (simp add: s1_def view_info)
  note v1 = this [unfolded view_enable_gic [OF assms(1)]]
  have i: "fst (GIC_DistributorInfo h (GIC_Enable h s)) = typer (view (dev s))"
    using assms(1) by (simp add: view_info view_enable_gic Let_def)
  obtain s2 where s2: "loop (drain_round h (num_irqs (typer (view (dev s))))) s1 = Some s2"
      "view (dev s2) = (let g = view (dev s1); m = num_irqs (typer (view (dev s)))
        in g\<lparr>acks := tl (dropWhile (\<lambda>x. x < m) (acks g)), ended := ended g @ takeWhile (\<lambda>x. x < m) (acks g)\<rparr>)"
    using drain_loop [OF assms(2), of s1] by (auto simp: Let_def)
  have wf2: "gic_wf (view (dev s2))"
    using assms(1) by (simp add: s2(2) v1 Let_def gic_wf_def on_irqs_def priority_values)
  show ?thesis
    unfolding IRQ_Initialize_def split_def Let_def i s1_def [symmetric] s2(1)
    using assms(2) wf2
    by (simp add: view_clear_irqs GIC_SetInterfacePriorityMask_def GIC_SetBinaryPoint_def PRIO_MASK_def s2(2) v1 Let_def
        del: upt_rec_numeral)
qed

lemma irq_initialize_endless:
  assumes "gic_wf (view (dev s))" and "unat (num_irqs (typer (view (dev s)))) = 1024"
    and "\<forall>x \<in> set (acks (view (dev s))). x < 1024"
  shows "IRQ_Initialize h s = None"
proof -
  have "fst (GIC_DistributorInfo h (GIC_Enable h s)) = typer (view (dev s))"
    using assms(1) by (simp add: view_info view_enable_gic Let_def)
  moreover have "loop (drain_round h (num_irqs (typer (view (dev s))))) (snd (GIC_DistributorInfo h (GIC_Enable h s))) = None"
    using assms by (intro drain_loop_endless) (simp_all add: view_info view_enable_gic Let_def)
  ultimately show ?thesis by (simp add: IRQ_Initialize_def split_def Let_def)
qed

end

subsection \<open>A controller\<close>

text \<open>The register at an offset, by the ranges of the register map.\<close>

definition gic_array :: "nat \<Rightarrow> nat \<Rightarrow> (nat \<Rightarrow> gic_reg) \<Rightarrow> nat \<Rightarrow> gic_reg option" where
  "gic_array start n r off =
     (if start \<le> off \<and> off < start + 4 * n \<and> off mod 4 = 0 then Some (r ((off - start) div 4)) else None)"

definition gic_decode :: "u32 \<Rightarrow> gic_reg option" where
  "gic_decode a = (let off = unat (a - GIC_BASE) in
     if off = 0x000 then Some D_CTLR else if off = 0x004 then Some D_TYPER
     else if off < 0x180 then gic_array 0x100 32 D_ISENABLER off else if off < 0x200 then gic_array 0x180 32 D_ICENABLER off
     else if off < 0x280 then gic_array 0x200 32 D_ISPENDR off else if off < 0x300 then gic_array 0x280 32 D_ICPENDR off
     else if off < 0x380 then gic_array 0x300 32 D_ISACTIVER off else if off < 0x400 then gic_array 0x380 32 D_ICACTIVER off
     else if off < 0x800 then gic_array 0x400 256 D_IPRIORITYR off else if off < 0xC00 then gic_array 0x800 256 D_ITARGETSR off
     else if off < 0xF00 then gic_array 0xC00 64 D_ICFGR off else if off = 0xF00 then Some D_SGIR
     else if off < 0x1000 then gic_array 0xF10 4 D_CPENDSGIR off
     else if off = 0x1000 then Some C_CTLR else if off = 0x1004 then Some C_PMR else if off = 0x1008 then Some C_BPR
     else if off = 0x100C then Some C_IAR else if off = 0x1010 then Some C_EOIR
     else gic_array 0x10D0 4 C_APR off)"

lemma gic_offset_bound: "gic_exists r \<Longrightarrow> gic_offset r < 0x2000"
  by (cases r) simp_all

lemma gic_decode_addr:
  assumes "gic_exists r"
  shows "gic_decode (gic_addr r) = Some r"
proof -
  have "unat (gic_addr r - GIC_BASE) = gic_offset r"
    using gic_offset_bound [OF assms] by (simp add: gic_addr_def unsigned_of_nat take_bit_nat_eq_self)
  then show ?thesis
    using assms by (cases r) (simp_all add: gic_decode_def Let_def gic_array_def)
qed

definition gic_device :: "gic_state platform" where
  "gic_device = \<lparr>rd32 = \<lambda>a g. (case gic_decode a of None \<Rightarrow> (0, g) | Some r \<Rightarrow> gic_read r g),
     wr32 = \<lambda>v a g. (case gic_decode a of None \<Rightarrow> g | Some r \<Rightarrow> gic_write r v g),
     rd8 = \<lambda>_ g. (0, g), wr8 = \<lambda>_ _ g. g, ctrlc_key = \<lambda>g. (False, g), elapse = \<lambda>_ g. g\<rparr>"

interpretation sample_controller: gic gic_device "\<lambda>g. g"
  by unfold_locales (simp_all add: gic_device_def gic_decode_addr)

text \<open>288 interrupts, as on the STM32MP1; a program that was stopped in the routine of interrupt 38,
  which is enabled, while 40 was pending.\<close>

definition sample_gic_state :: "u32 \<Rightarrow> gic_state" where
  "sample_gic_state groups = \<lparr>dctlr = 0, typer = groups, cctlr = 0, pmr = 0, bpr = 0, apr = \<lambda>_. 1, enab = \<lambda>n. n = 38,
     pend = \<lambda>n. n = 40, act = \<lambda>n. n = 38, prio = \<lambda>_. 0, target = \<lambda>_. 0, config = \<lambda>_. 0,
     acks = [40], ended = [], sgis = []\<rparr>"

text \<open>The priority field: three bits and two, left-aligned.\<close>

lemma priority_field:
  "ucast (push_bit 5 (if 7 < p1 then 7 else p1) OR push_bit 3 (if 3 < p2 then 3 else p2) :: u32) AND PRIO_MASK
    = of_nat (32 * min (unat p1) 7 + 8 * min (unat p2) 3)"
proof -
  define a where "a = min (unat p1) 7"
  define b where "b = min (unat p2) 3"
  have "(if 7 < p1 then 7 else p1) = of_nat a" "(if 3 < p2 then 3 else p2) = of_nat b"
    by (auto simp: a_def b_def word_less_nat_alt min_def)
  moreover have "a \<in> {0, 1, 2, 3, 4, 5, 6, 7}" "b \<in> {0, 1, 2, 3}" by (auto simp: a_def b_def)
  ultimately show ?thesis unfolding a_def [symmetric] b_def [symmetric] by (auto simp: PRIO_MASK_def)
qed

subsection \<open>Properties\<close>

text \<open>C17. On a platform with an interrupt controller of fewer than 1024 interrupts, \<open>IRQ_Initialize\<close>
  returns, whatever is pending. Afterwards the distributor and the interface are on, every interrupt
  of the controller but the software ones is disabled and level-triggered, every interrupt has the
  middle priority 0x78, the shared ones go to CPU 0 and are neither pending nor active, the priority
  mask is the largest, and the pending interrupts, up to the first number that is none of the
  controller's, were ended once each, in the order of their acknowledgement. With 1024 interrupts, the number 1023 for "none pending" is taken for an
  interrupt: the acknowledge loop is never left unless a software interrupt of another core (whose
  number carries the sender) is pending.
\<close>

theorem irq_initialized:
  assumes "gic h view" and "gic_wf (view (dev s))" and "m = num_irqs (typer (view (dev s)))"
  shows "if m < 1024
    then \<exists>s'. IRQ_Initialize h s = Some s' \<and>
      (\<forall>i. if i < unat m
        then enab (view (dev s')) i = (i < 16 \<and> enab (view (dev s)) i) \<and> prio (view (dev s')) i = 0x78 \<and>
          (16 \<le> i \<longrightarrow> config (view (dev s')) i = 0) \<and>
          (32 \<le> i \<longrightarrow> target (view (dev s')) i = 1 \<and> \<not> pend (view (dev s')) i \<and> \<not> act (view (dev s')) i)
        else enab (view (dev s')) i = enab (view (dev s)) i \<and> prio (view (dev s')) i = prio (view (dev s)) i) \<and>
      bit (dctlr (view (dev s'))) 0 \<and> bit (cctlr (view (dev s'))) 0 \<and> pmr (view (dev s')) = 0xF8 \<and> bpr (view (dev s')) = 4 \<and>
      apr (view (dev s')) 0 = 0 \<and> ended (view (dev s')) = ended (view (dev s)) @ takeWhile (\<lambda>x. x < m) (acks (view (dev s)))
    else (\<forall>x \<in> set (acks (view (dev s))). x < 1024) \<longrightarrow> IRQ_Initialize h s = None"
proof (cases "m < 1024")
  case True
  then have "unat (num_irqs (typer (view (dev s)))) < 1024" by (simp add: assms(3) word_less_nat_alt)
  from gic.irq_initialize [OF assms(1,2) this] True show ?thesis
    by (auto simp: Let_def on_irqs_def DEFAULT_PRIO_def bit_simps simp flip: assms(3))
next
  case False
  then have "unat (num_irqs (typer (view (dev s)))) = 1024"
    using unat_num_irqs_le [of "typer (view (dev s))"] by (simp add: assms(3) word_less_nat_alt)
  then show ?thesis using False gic.irq_initialize_endless [OF assms(1,2)] by simp
qed

lemma irq_initialized_witness:
  "(\<exists>s'. IRQ_Initialize gic_device (boot_state (sample_gic_state 8)) = Some s' \<and> \<not> enab (dev s') 38 \<and> \<not> act (dev s') 38 \<and> ended (dev s') = [40]) \<and>
   IRQ_Initialize gic_device (boot_state (sample_gic_state 31)) = None"
proof
  have g: "gic gic_device (\<lambda>g. g)" by (rule sample_controller.gic_axioms)
  have m: "num_irqs 8 = 288" "num_irqs 31 = 1024" by (simp_all add: num_irqs_def)
  have wf: "gic_wf (dev (boot_state (sample_gic_state k)))" for k
    by (simp add: gic_wf_def boot_state_def sample_gic_state_def)
  show "\<exists>s'. IRQ_Initialize gic_device (boot_state (sample_gic_state 8)) = Some s' \<and> \<not> enab (dev s') 38 \<and> \<not> act (dev s') 38 \<and> ended (dev s') = [40]"
    using irq_initialized [OF g wf [of 8] refl]
    by (auto simp: boot_state_def sample_gic_state_def m dest: spec [where x = 38])
  show "IRQ_Initialize gic_device (boot_state (sample_gic_state 31)) = None"
    using irq_initialized [OF g wf [of 31] refl]
    by (simp add: boot_state_def sample_gic_state_def m)
qed

text \<open>C18. Starting a shared interrupt as the programs do (disable it, set its priority, enable it) gives
  it the priority \<open>pri1.pri2\<close> in the upper five bits of its field, a larger value counting as the
  largest, routes it to CPU 0, clears what was pending, makes it level-triggered and enables it. No
  other interrupt changes in any way, though four or more of them share each register that is read
  and written back.
\<close>

theorem irq_started:
  assumes "gic h view" and "gic_wf (view (dev s))" and "32 \<le> i" and "i < 1020"
    and "s' = enable_irq h i (set_irq_priority h i pri1 pri2 (disable_irq h i s))"
  shows "view (dev s') = (view (dev s))\<lparr>enab := (enab (view (dev s)))(i := True), pend := (pend (view (dev s)))(i := False),
    target := (target (view (dev s)))(i := 1), config := (config (view (dev s)))(i := 1),
    prio := (prio (view (dev s)))(i := of_nat (32 * min (unat pri1) 7 + 8 * min (unat pri2) 3))\<rparr>"
proof -
  let ?p = "\<lambda>p1 p2. push_bit 5 (if 7 < p1 then 7 else p1) OR push_bit 3 (if 3 < p2 then 3 else p2) :: u32"
  have p: "ucast (?p pri1 pri2) AND PRIO_MASK = of_nat (32 * min (unat pri1) 7 + 8 * min (unat pri2) 3)"
    by (rule priority_field)
  have i: "16 \<le> i" "i < 1024" "\<not> i < 16" "\<not> i < 32" "(1 :: u32) \<le> 3" using assms(3,4) by simp_all
  have wf: "gic_wf ((view (dev s))\<lparr>enab := e\<rparr>)" for e using assms(2) by (simp add: gic_wf_def)
  note views = gic.view_enable [OF assms(1)] gic.view_clear_pending [OF assms(1)] gic.view_config [OF assms(1)]
    gic.view_target [OF assms(1)] gic.view_priority [OF assms(1)] gic.view_disable [OF assms(1)]
  show ?thesis
    unfolding assms(5) enable_irq_def set_irq_priority_def disable_irq_def Let_def LevelTriggered_def
    by (simp add: views i wf p)
qed

lemma irq_started_witness:
  "dev (enable_irq gic_device 38 (set_irq_priority gic_device 38 2 9 (disable_irq gic_device 38 (boot_state (sample_gic_state 8))))) =
     (sample_gic_state 8)\<lparr>target := (\<lambda>_. 0)(38 := 1), config := (\<lambda>_. 0)(38 := 1), prio := (\<lambda>_. 0)(38 := 0x58)\<rparr>"
proof -
  have "gic_wf (dev (boot_state (sample_gic_state 8)))"
    by (simp add: gic_wf_def boot_state_def sample_gic_state_def)
  from irq_started [OF sample_controller.gic_axioms this _ _ refl, of 38 2 9] show ?thesis
    by (simp add: boot_state_def sample_gic_state_def fun_eq_iff)
qed

end
