(* ===== verification/Spec2Isabelle.thy ===== *)
theory Spec2Isabelle
  imports DdrTuningResults BootMainRun Print DdrInteractive RccReset UsbMidi AudioUtil IrqHandler Gic
begin

text \<open>
  A verification library of stm32mp1-baremetal: the first-stage boot loader mp1-boot for the
  STM32MP1 with the shared drivers under it, the interrupt handling, the USB MIDI host, and the
  containers of the audio example.

  \<^bold>\<open>The program and the theories that model it.\<close>

  \<^item> The boot, bootloaders/mp1-boot/main.cc (BootMain, BootMainRun): LED and UART
    (shared/drivers/leds.hh, uart.hh), the security setup (systeminit.c), the core clocks
    (clocks.hh in Clocks), the power chip (pmic.hh with shared/drivers/i2c.hh in I2c), the DDR, a test
    of a RAM word, the image, and the jump to it. \<open>BootMain.main\<close> ends in the jump or in
    the endless blinking of the LED.
  \<^item> The boot media (BootMedia, BootLoad): boot\_detect.hh reads from the boot ROM which medium
    was used; boot\_media\_loader.hh calls a loader (boot\_sd.hh or boot\_nor.hh) for the image
    header and the image. The SD loader finds its partition in the GPT (gpt/gpt.cc, part\_efi.h in
    Gpt), whose checksum is uboot-port/lib/crc32.c (Crc32); the NOR loader copies out of the
    memory-mapped flash (norflash/ in Qspi).
  \<^item> The DDR: register layouts (ddr/stm32mp1\_ddr\_regs.h in DdrRegs), parameters and tables
    (DdrConfig), initialisation (stm32mp1\_ddr.cc and stm32mp1\_ram.cc in DdrInit, DdrInitRun), the
    commands that dump and edit registers (DdrInteractive), handshakes with the controller (DdrCtrl),
    sizing (uboot-port/common/memsize.c in Memsize), the tests (stm32mp1\_tests.c in DdrTestArgs,
    DdrBusTests, DdrPatternTests, DdrTestAll; arguments are read by lib/strto.c in Strto) and the
    software tuning (stm32mp1\_tuning.c in DdrLanes, DdrLaneContract, DdrGating, DdrEye, DdrDeskew,
    DdrTuning, DdrTuningResults).
  \<^item> Shared drivers: register fields (register\_access.hh in Registers), reset and clock
    controller (rcc.hh in Rcc, rcc\_common.hh in RccReset), pins (pinconf.hh in Pins), numbers as
    text (shared/print.cc and the number output of uart.hh in Print).
  \<^item> Interrupts: the entry code and the table of routines (shared/drivers/irq\_handler.cc and
    interrupt.hh in IrqHandler), the controller's initialisation and its control
    (shared/system/irq\_init.c and shared/drivers/interrupt\_control.hh in Gic), over the access
    functions of CMSIS (Core\_A/Include/core\_ca.h).
  \<^item> examples/usb\_midi\_host (UsbMidi): the class driver, its transfers and the MIDI message.
  \<^item> examples/audio\_processor/lib/util (AudioUtil): ring buffer, debouncer, oversampler,
    parameters, maps, strings and integer helpers.

  \<^bold>\<open>How it is modelled.\<close>

  Platform holds the machine: a record \<open>platform\<close> of what lies outside the source (reading and
  writing a word or byte, the delay, the interruption by the user) over an arbitrary device
  state \<open>'d\<close>, and the state \<open>'d sys\<close> of device and clock that every operation takes and returns.
  A register access of the code is a \<open>readl\<close> or \<open>writel\<close>; so theorems speak of every device, or of every
  one that keeps the laws of a locale. Words keep their width; errors are the codes of the source;
  \<open>None\<close> is a panic, an access outside an array, or a loop that does not end. Loops are \<open>for_each\<close>,
  \<open>loop\<close> and \<open>while_opt\<close> of Prelude, defined as least fixed points of an option computation, so there is no
  fuel anywhere and \<open>Some\<close> means that the code returns. Console output is
  left out except where the text is the result (Print, the verdicts of the tests, MIDI messages).

  \<^bold>\<open>Interfaces.\<close>

  \<^item> \<open>dram\<close> (Platform): memory with an address decoder; \<open>buffer_dram\<close>, \<open>wrapped_dram\<close> (Memsize) and
    \<open>bus_dram\<close> (DdrBusTests) extend it for buffers, for wrapping memories and for faulty address lines;
    \<open>sound_board\<close> (DdrTestAll) is a board without faults. Interpreted on \<open>cell_ram\<close>.
  \<^item> \<open>ddr_regs\<close> (DdrCtrl) and \<open>ddr_board\<close> (DdrInitRun): registers whose status bits follow after
    a lag, and the RAM that appears behind them. \<open>bist_phy\<close>, \<open>lane\<close>, \<open>bist_lane\<close> (DdrLaneContract): a byte
    lane as the searches of the tuning see it; \<open>gate_lane\<close> and \<open>deskew_hw\<close> add the gate and the data bits.
    \<open>bist_phy\<close> and \<open>bist_lane\<close> are interpreted on \<open>tuning_board\<close>, the other lanes by sublocales.
  \<^item> \<open>plain_regs\<close> (Registers), \<open>set_registers\<close> (Rcc): registers that read back what was
    written, and pairs of set and clear registers. \<open>rcc\<close> (Clocks): the clock tree with its ready bits.
  \<^item> \<open>layout\<close> (Gpt): a packed struct and its bytes, interpreted on the GPT header, its entries and
    the image header. \<open>boot_loader\<close> (BootLoad): the contract of the virtual class, for which
    \<open>sd_board\<close> and \<open>nor_board\<close> discharge the laws; \<open>mp1_board\<close> (BootMain) is the board of \<open>main\<close>.
  \<^item> \<open>i2c_answers\<close> (I2c): a bus on which every transfer completes.
  \<^item> \<open>gic\<close> (Gic): a platform with an interrupt controller, whose documented behaviour is
    \<open>gic_read\<close> and \<open>gic_write\<close>, interrupt by interrupt.
  \<^item> \<open>bulk_out\<close> (UsbMidi): the host channel of an OUT pipe; \<open>bounded_queue\<close> (AudioUtil): a queue that
    forgets its oldest element when it is full, the specification of the ring buffer.

  All are interpreted on the development's own definitions; the devices in the interpretations
  (\<open>cell_ram\<close>, \<open>tuning_board\<close>, \<open>setup_board\<close>, \<open>clock_board\<close>, \<open>mp1_platform\<close>, \<open>sample_hcd\<close>,
  \<open>gic_device\<close> and others) are executable, and the witnesses run the code on them.

  \<^bold>\<open>What is shown.\<close>

  \<^item> The boot end to end: on a board that keeps the contracts, \<open>main\<close> loads the image of the card
    or of the flash and jumps to it; with any loader it only jumps to an image whose magic
    number and loading it has checked; otherwise it blinks.
  \<^item> The DDR setup writes the configuration of the board, waits for each step and compares the size;
    \<open>get_ram_size\<close> finds the size of a wrapping memory and leaves its contents.
  \<^item> Each DDR test passes exactly on the memories it means to pass, with the exceptions that are
    stated; the tuning algorithms reach the settings they search for on every eye that is an
    interval, with the exceptions that are stated.
  \<^item> The checksum equals the bitwise CRC and detects every burst of 32 bits; GPT and image
    headers and their bytes determine each other.
  \<^item> Registers: a field reads back what was written and leaves its neighbours; tables of bits are
    checked as a whole; the clock, pin and power sequences are given by their effect.
  \<^item> Interrupts, nested to any depth, leave the interrupted program as it was, and each is ended
    once, after its routine; the controller is put into its initial state whatever is pending, and
    starting an interrupt changes no other.
  \<^item> USB MIDI: the bytes of a buffer go out in order, each once, under every interleaving of the
    transfer interrupts, and every transfer ends. The ring buffer refines the bounded queue.

  Where the code does something else than it means to, the theorem states what it does, and the list
  of findings of the manifest names the line.

  \<^bold>\<open>Not modelled.\<close>

  The vendor's code (HAL drivers, also the patched copies in shared/stm32hal\_patched, the USB host
  library beyond the calls named in UsbMidi, the SD driver) is a parameter where it is called.
  Start-up code, MMU, caches and linker scripts have no state in this model. The floating-point
  code of the audio example and the frequency that \<open>init_core_clocks\<close> returns
  are not modelled; nor are the start of the second core, the pin change interrupts and the USB-C
  controller (a fixed sequence of register writes each), the examples that only call drivers, the 16-bit accesses of the UART, and
  uboot-port/arch/arm/mach-stm32mp/cpu.c, which reads identification registers for messages.
\<close>

end
